(* ===== verification/Prelude.thy ===== *)
theory Prelude
  imports Main "HOL-Library.Word" "HOL-Library.AList"
begin

text \<open>
  Shared vocabulary of the development: the machine integer types of the sources, the
  collections the component theories extend, and the facts on lists, words and association
  lists that several components use.
\<close>

unbundle bit_operations_syntax

section \<open>Machine integers\<close>

type_synonym u8 = "8 word"
type_synonym u16 = "16 word"
type_synonym u32 = "32 word"
type_synonym u64 = "64 word"
type_synonym bytes = "u8 list"

section \<open>Collections\<close>

named_theorems archive_simps \<open>equations of the archive readers and writers\<close>
named_theorems inv_intros \<open>operations keep the invariant of their component\<close>

section \<open>Bits of the masks the sources use\<close>

lemma mask7_u64: "(0x7F :: u64) = mask 7"
  by (simp add: mask_eq_exp_minus_1)

lemma mask7_u8: "(0x7F :: u8) = mask 7"
  by (simp add: mask_eq_exp_minus_1)

lemma bit_0x80:
  shows "bit (0x80 :: u64) n \<longleftrightarrow> n = 7"
    and "bit (0x80 :: u8) n \<longleftrightarrow> n = 7"
    and "bit (0x80 :: int) n \<longleftrightarrow> n = 7"
  using bit_exp_iff [where 'a = u64, of 7 n] bit_exp_iff [where 'a = u8, of 7 n]
    bit_exp_iff [where 'a = int, of 7 n]
  by auto

lemma and_1_u64: "(x :: u64) AND 1 = of_bool (bit x 0)"
  by (rule bit_word_eqI) (auto simp: bit_simps)

section \<open>Intervals of words\<close>

lemma word_le_succ_iff:
  fixes n x :: "'a :: len word"
  assumes "n \<noteq> - 1"
  shows "x \<le> n + 1 \<longleftrightarrow> x \<le> n \<or> x = n + 1"
  using assms inc_le [of n x] inc_less_eq_self_iff_eq [of n] by fastforce

lemma word_one_le_iff: "(1 :: 'a :: len word) \<le> n \<longleftrightarrow> n \<noteq> 0"
  using inc_le [of 0 n] by (auto simp: word_gt_0)

lemma word_succ_range:
  fixes n :: "'a :: len word"
  assumes "n \<noteq> - 1"
  shows "{1..n + 1} = insert (n + 1) {1..n}"
  using word_le_succ_iff [OF assms] assms by (auto simp: word_one_le_iff eq_neg_iff_add_eq_0)

lemma word_pred_range:
  fixes n :: "'a :: len word"
  assumes "n \<noteq> 0"
  shows "{1..n} = insert n {1..n - 1}"
  using word_succ_range [of "n - 1"] assms by simp

lemma word_le_sub1_if:
  fixes x n :: "'a :: len word"
  assumes "x < n"
  shows "x \<le> n - 1"
proof -
  have "n - 1 \<noteq> - 1" using assms by auto
  then show ?thesis using word_le_succ_iff [of "n - 1" x] assms by auto
qed

lemma word_less_sub1_self:
  fixes n :: "'a :: len word"
  assumes "n \<noteq> 0"
  shows "\<not> n \<le> n - 1"
  using inc_less_eq_self_iff_eq [of "n - 1"] assms by simp

lemma word_inc_less:
  fixes n m :: "'a :: len word"
  assumes "n < m - 1" and "m \<noteq> 0"
  shows "n + 1 < m"
  using inc_le [OF assms(1)] inc_less_eq_self_iff_eq [of "m - 1"] assms by simp

section \<open>Signed readings\<close>

lemma unat_of_nat_u32: "n < 2 ^ 32 \<Longrightarrow> unat (of_nat n :: u32) = n"
  by (simp add: unsigned_of_nat take_bit_nat_eq_self)

lemma sint_u32: "sint (x :: u32) = (if uint x < 2 ^ 31 then uint x else uint x - 2 ^ 32)"
proof -
  have "sint x = (uint x + 2 ^ 31) mod 2 ^ 32 - 2 ^ 31"
    by (simp add: sint_uint signed_take_bit_eq_take_bit_shift take_bit_eq_mod)
  moreover have "(uint x + 2 ^ 31) mod 2 ^ 32 = uint x - 2 ^ 31" if "2 ^ 31 \<le> uint x"
    using that uint_lt2p [of x] mod_add_self2 [of "uint x - 2 ^ 31" "2 ^ 32"] by (simp add: add.commute)
  ultimately show ?thesis using uint_lt2p [of x] by auto
qed

section \<open>Little-endian words\<close>

fun of_le32 :: "bytes \<Rightarrow> u32" where
  "of_le32 [b0, b1, b2, b3] =
     ucast b0 OR push_bit 8 (ucast b1) OR push_bit 16 (ucast b2) OR push_bit 24 (ucast b3)"
| "of_le32 _ = 0"

lemma of_le32_bytes: "of_le32 [ucast n, ucast (drop_bit 8 n), ucast (drop_bit 16 n), ucast (drop_bit 24 n)] = n"
proof -
  have "ucast (ucast n :: u8) OR push_bit 8 (ucast (ucast (drop_bit 8 n) :: u8)) OR
     push_bit 16 (ucast (ucast (drop_bit 16 n) :: u8)) OR push_bit 24 (ucast (ucast (drop_bit 24 n) :: u8)) = n"
  proof (rule bit_word_eqI)
    fix i assume "i < LENGTH(32)"
    then show "bit (ucast (ucast n :: u8) OR push_bit 8 (ucast (ucast (drop_bit 8 n) :: u8)) OR
       push_bit 16 (ucast (ucast (drop_bit 16 n) :: u8)) OR push_bit 24 (ucast (ucast (drop_bit 24 n) :: u8)) :: u32) i = bit n i"
      by (cases "24 \<le> i"; cases "16 \<le> i"; cases "8 \<le> i") (auto simp: bit_simps)
  qed
  then show ?thesis by simp
qed

section \<open>Association lists\<close>

lemma update_fresh: "k \<notin> fst ` set xs \<Longrightarrow> AList.update k v xs = xs @ [(k, v)]"
  by (induction xs) auto

section \<open>Text as bytes\<close>

text \<open>A character literal of the sources as the bytes that travel over a socket.\<close>

definition asc :: "string \<Rightarrow> bytes" where
  "asc s = map of_char s"

lemma length_asc [simp]: "length (asc s) = length s"
  by (simp add: asc_def)

lemma asc_append: "asc (s @ t) = asc s @ asc t"
  by (simp add: asc_def)

lemma of_char_u8: "(of_char c :: u8) = of_char d \<longleftrightarrow> c = d"
proof
  assume "(of_char c :: u8) = of_char d"
  then have "unat (of_nat (of_char c) :: u8) = unat (of_nat (of_char d) :: u8)" by (simp add: of_nat_of_char)
  moreover have "unat (of_nat (of_char e) :: u8) = of_char e" for e
    using of_char_mod_256 [of e, where 'a = nat] by (simp add: unsigned_of_nat take_bit_eq_mod)
  ultimately show "c = d" by simp
qed simp

lemma asc_eq_iff: "asc s = asc t \<longleftrightarrow> s = t"
  by (simp add: asc_def inj_map_eq_map inj_def of_char_u8)

end
