(* ===== verification/Archive.thy ===== *)
theory Archive
  imports Prelude
begin

text \<open>
  The snapshot archive of \<^verbatim>\<open>emulator/libs/archive\<close>: the variable length encoding of
  \<^verbatim>\<open>Writer.h\<close>, its decoder in \<^verbatim>\<open>Reader.h\<close>, the zigzag code of signed numbers and the
  byte queue of \<^verbatim>\<open>DequeArchive.cpp\<close> that stores what is written.  A writer is any type with
  a \<^verbatim>\<open>write\<close> function and a reader any type with a \<^verbatim>\<open>read\<close> function, as the virtual methods
  of \<^verbatim>\<open>IWriter\<close> and \<^verbatim>\<open>IReader\<close>; the locales state what both promise.
\<close>

section \<open>Zigzag\<close>

text \<open>A \<^verbatim>\<open>signed long long\<close> is kept as its 64 bits; \<^verbatim>\<open>>>\<close> on it is the arithmetic shift.\<close>

definition encode :: "u64 \<Rightarrow> u64" where
  "encode x = signed_drop_bit 63 x XOR push_bit 1 x"

definition decode :: "u64 \<Rightarrow> u64" where
  "decode x = drop_bit 1 x XOR - (x AND 1)"

section \<open>Writing\<close>

text \<open>Seven bits per byte, least significant first; the top bit says that more bytes follow.\<close>

lemma unat_drop_bit_7: "unat (drop_bit 7 (x :: u64)) = unat x div 128"
  by (subst unat_drop_bit_eq) (simp add: drop_bit_eq_div)

lemma drop_bit_7_less: "0 < drop_bit 7 x \<Longrightarrow> unat (drop_bit 7 x) < unat (x :: u64)"
  by (simp add: unat_drop_bit_7 word_less_nat_alt)

function encode_unsigned :: "u64 \<Rightarrow> bytes" where
  "encode_unsigned x =
     (let high7 = drop_bit 7 x; low7 = x AND 0x7F
      in if high7 > 0 then ucast (low7 OR 0x80) # encode_unsigned high7 else [ucast low7])"
  by pat_completeness auto
termination
  by (relation "measure unat") (auto simp: drop_bit_7_less)

declare encode_unsigned.simps [simp del]

type_synonym 'w write_fn = "'w \<Rightarrow> bytes \<Rightarrow> 'w"
type_synonym 'r read_fn = "'r \<Rightarrow> nat \<Rightarrow> bytes \<times> 'r"

definition put_unsigned :: "'w write_fn \<Rightarrow> 'w \<Rightarrow> u64 \<Rightarrow> 'w" where
  "put_unsigned write w x = write w (encode_unsigned x)"

definition put_signed :: "'w write_fn \<Rightarrow> 'w \<Rightarrow> u64 \<Rightarrow> 'w" where
  "put_signed write w x = put_unsigned write w (encode x)"

definition put_u8 :: "'w write_fn \<Rightarrow> 'w \<Rightarrow> u8 \<Rightarrow> 'w" where
  "put_u8 write w x = put_unsigned write w (ucast x)"

definition put_u16 :: "'w write_fn \<Rightarrow> 'w \<Rightarrow> u16 \<Rightarrow> 'w" where
  "put_u16 write w x = put_unsigned write w (ucast x)"

definition put_u32 :: "'w write_fn \<Rightarrow> 'w \<Rightarrow> u32 \<Rightarrow> 'w" where
  "put_u32 write w x = put_unsigned write w (ucast x)"

definition put_s32 :: "'w write_fn \<Rightarrow> 'w \<Rightarrow> u32 \<Rightarrow> 'w" where
  "put_s32 write w x = put_signed write w (scast x)"

definition put_bool :: "'w write_fn \<Rightarrow> 'w \<Rightarrow> bool \<Rightarrow> 'w" where
  "put_bool write w x = put_unsigned write w (of_bool x)"

definition put_size :: "'w write_fn \<Rightarrow> 'w \<Rightarrow> nat \<Rightarrow> 'w" where
  "put_size write w n = put_unsigned write w (of_nat n)"

definition put_string :: "'w write_fn \<Rightarrow> 'w \<Rightarrow> bytes \<Rightarrow> 'w" where
  "put_string write w x = write (put_size write w (length x)) x"

section \<open>Reading\<close>

text \<open>
  The decoder stops at a byte without the continuation bit, at the end of the input, or when all
  64 bits of the result are filled.
\<close>

function get_unsigned_loop :: "'r read_fn \<Rightarrow> 'r \<Rightarrow> u64 \<Rightarrow> nat \<Rightarrow> u64 \<times> 'r" where
  "get_unsigned_loop read r result shift =
     (if shift < 64 then
        (case read r 1 of
           ([b], r') \<Rightarrow>
             (let result' = result OR push_bit shift (ucast (b AND 0x7F))
              in if drop_bit 7 b \<noteq> 0 then get_unsigned_loop read r' result' (shift + 7)
                 else (result', r'))
         | (_, r') \<Rightarrow> (result, r'))
      else (result, r))"
  by pat_completeness auto
termination
  by (relation "measure (\<lambda>(read, r, result, shift). 64 - shift)") auto

declare get_unsigned_loop.simps [simp del]

definition getUnsigned :: "'r read_fn \<Rightarrow> 'r \<Rightarrow> u64 \<times> 'r" where
  "getUnsigned read r = get_unsigned_loop read r 0 0"

definition getSigned :: "'r read_fn \<Rightarrow> 'r \<Rightarrow> u64 \<times> 'r" where
  "getSigned read r = (let (x, r') = getUnsigned read r in (decode x, r'))"

definition getString :: "'r read_fn \<Rightarrow> 'r \<Rightarrow> bytes \<times> 'r" where
  "getString read r =
     (let (size, r') = getUnsigned read r; (bs, r'') = read r' (unat size)
      in if length bs = unat size then (bs, r'') else ([], r''))"

section \<open>The byte queue\<close>

record deque_archive =
  storage :: bytes

definition DequeArchive_read :: "deque_archive read_fn" where
  "DequeArchive_read a requestedSize =
     (let size = min requestedSize (length (storage a))
      in (take size (storage a), a\<lparr>storage := drop size (storage a)\<rparr>))"

definition DequeArchive_write :: "deque_archive write_fn" where
  "DequeArchive_write a src = a\<lparr>storage := storage a @ src\<rparr>"

text \<open>The reader and the writer that share a queue through a pointer, seen as the queue.\<close>

definition DequeReader_read :: "bytes read_fn" where
  "DequeReader_read mStorage requestedSize =
     (let size = min requestedSize (length mStorage)
      in (take size mStorage, drop size mStorage))"

definition DequeWriter_write :: "bytes write_fn" where
  "DequeWriter_write mStorage src = mStorage @ src"

section \<open>Facts on the encodings\<close>

lemma signed_drop_bit_63: "signed_drop_bit 63 (x :: u64) = (if bit x 63 then - 1 else 0)"
proof (rule bit_word_eqI)
  fix n assume "n < LENGTH(64)"
  then show "bit (signed_drop_bit 63 x) n = bit (if bit x 63 then - 1 else 0 :: u64) n"
    by (cases "n = 0") (auto simp: bit_simps)
qed

lemma encode_alt: "encode x = (if bit x 63 then NOT (push_bit 1 x) else push_bit 1 x)"
  by (simp add: encode_def signed_drop_bit_63 xor.commute)

lemma decode_alt: "decode x = (if bit x 0 then NOT (drop_bit 1 x) else drop_bit 1 x)"
  by (simp add: decode_def and_1_u64)

lemma bit_encode:
  "bit (encode x) n \<longleftrightarrow> n < 64 \<and> (if n = 0 then bit x 63 else bit x (n - 1) \<noteq> bit x 63)"
  by (auto simp: encode_alt bit_simps simp del: push_bit_Suc)

lemma bit_decode:
  "bit (decode x) n \<longleftrightarrow> n < 64 \<and> (if n = 63 then bit x 0 else bit x (Suc n) \<noteq> bit x 0)"
  using bit_imp_le_length [of x "Suc n"]
  by (cases "n = 63") (auto simp: decode_alt bit_simps)

lemma decode_encode: "decode (encode x) = x"
  by (rule bit_word_eqI) (simp add: bit_encode bit_decode, linarith)

lemma encode_decode: "encode (decode x) = x"
proof (rule bit_word_eqI)
  fix n assume "n < LENGTH(64)"
  then show "bit (encode (decode x)) n = bit x n"
    by (cases n) (auto simp: bit_encode bit_decode)
qed

lemma low7_of_byte:
  fixes x :: u64
  shows "ucast (ucast (x AND 0x7F) AND 0x7F :: u8) = x AND 0x7F"
    and "ucast (ucast (x AND 0x7F OR 0x80) AND 0x7F :: u8) = x AND 0x7F"
  unfolding mask7_u64 mask7_u8
  by (rule bit_word_eqI, auto simp: bit_simps bit_0x80)+

lemma more_bit_of_byte:
  fixes x :: u64
  shows "drop_bit 7 (ucast (x AND 0x7F) :: u8) = 0"
    and "drop_bit 7 (ucast (x AND 0x7F OR 0x80) :: u8) \<noteq> 0"
proof -
  show "drop_bit 7 (ucast (x AND 0x7F) :: u8) = 0"
    unfolding mask7_u64 by (rule bit_word_eqI) (auto simp: bit_simps)
  have "bit (drop_bit 7 (ucast (x AND 0x7F OR 0x80) :: u8)) 0"
    by (simp add: bit_simps bit_0x80)
  then show "drop_bit 7 (ucast (x AND 0x7F OR 0x80) :: u8) \<noteq> 0"
    by (metis bit_0_eq bot_apply bot_bool_def)
qed

lemma join_low7: "push_bit s (x AND 0x7F) OR push_bit (s + 7) (drop_bit 7 x) = push_bit s (x :: u64)"
  unfolding mask7_u64
proof (rule bit_word_eqI)
  have a: "7 + (n - (s + 7)) = n - s" if "\<not> n - s < 7" for n
    using that by arith
  fix n assume "n < LENGTH(64)"
  then show "bit (push_bit s (x AND mask 7) OR push_bit (s + 7) (drop_bit 7 x)) n =
      bit (push_bit s x) n"
    by (cases "n - s < 7") (auto simp: bit_simps a)
qed

lemma drop_bit_7_pos_bound:
  fixes x :: u64
  assumes "0 < drop_bit 7 x" and "unat x < 2 ^ (64 - s)" and "s < 64"
  shows "s + 7 < 64" and "unat (drop_bit 7 x) < 2 ^ (64 - (s + 7))"
proof -
  have d: "unat (drop_bit 7 x) = unat x div 2 ^ 7"
    by (simp add: unat_drop_bit_7)
  with assms(1) have "2 ^ 7 \<le> unat x"
    by (simp add: word_less_nat_alt div_greater_zero_iff)
  with assms(2) have "(2 :: nat) ^ 7 < 2 ^ (64 - s)"
    by linarith
  then have s: "7 < 64 - s"
    by (simp only: power_strict_increasing_iff)
  then show "s + 7 < 64" by simp
  have "64 - s = (64 - (s + 7)) + 7"
    using s by simp
  then have "(2 :: nat) ^ (64 - s) = 2 ^ (64 - (s + 7)) * 2 ^ 7"
    by (metis power_add)
  with assms(2) show "unat (drop_bit 7 x) < 2 ^ (64 - (s + 7))"
    unfolding d by (simp add: less_mult_imp_div_less)
qed

section \<open>The interface of readers and writers\<close>

text \<open>
  A reader hands out the next bytes of its contents, fewer when the contents are shorter; a writer
  appends.
\<close>

locale byte_reader =
  fixes contents :: "'r \<Rightarrow> bytes"
    and rd :: "'r read_fn"
  assumes read_bytes: "fst (rd r n) = take n (contents r)"
    and read_rest: "contents (snd (rd r n)) = drop n (contents r)"
begin

lemma read_exact:
  assumes "contents r = bs @ rest" and "length bs = n"
  obtains r' where "rd r n = (bs, r')" and "contents r' = rest"
  using assms read_bytes [of r n] read_rest [of r n] by (cases "rd r n") auto

lemma get_unsigned_loop_encode:
  assumes "contents r = encode_unsigned x @ rest" and "s < 64" and "unat x < 2 ^ (64 - s)"
  obtains r' where "get_unsigned_loop rd r acc s = (acc OR push_bit s x, r')"
    and "contents r' = rest"
  using assms
proof (induction x arbitrary: r s acc thesis rule: encode_unsigned.induct)
  case (1 x)
  show ?case
  proof (cases "0 < drop_bit 7 x")
    case True
    let ?b = "ucast (x AND 0x7F OR 0x80) :: u8"
    have "contents r = [?b] @ (encode_unsigned (drop_bit 7 x) @ rest)"
      using "1.prems"(2) True by (subst (asm) encode_unsigned.simps) (simp add: Let_def)
    then obtain r1 where r1: "rd r 1 = ([?b], r1)"
      and c1: "contents r1 = encode_unsigned (drop_bit 7 x) @ rest"
      by (rule read_exact) simp_all
    note bound = drop_bit_7_pos_bound [OF True "1.prems"(4,3)]
    obtain r' where r': "get_unsigned_loop rd r1 (acc OR push_bit s (x AND 0x7F)) (s + 7) =
        ((acc OR push_bit s (x AND 0x7F)) OR push_bit (s + 7) (drop_bit 7 x), r')"
      and c: "contents r' = rest"
      by (rule "1.IH" [where acc = "acc OR push_bit s (x AND 0x7F)", OF refl refl True _ c1 bound])
    have "get_unsigned_loop rd r acc s = (acc OR push_bit s x, r')"
      using "1.prems"(3) r1 r'
      by (subst get_unsigned_loop.simps)
        (simp add: low7_of_byte more_bit_of_byte or.assoc join_low7 del: push_bit_and)
    with c show ?thesis by (rule "1.prems"(1) [rotated])
  next
    case False
    then have h: "drop_bit 7 x = 0" by (simp add: word_gt_0)
    let ?b = "ucast (x AND 0x7F) :: u8"
    have "contents r = [?b] @ rest"
      using "1.prems"(2) False by (subst (asm) encode_unsigned.simps) (simp add: Let_def)
    then obtain r1 where r1: "rd r 1 = ([?b], r1)" and c1: "contents r1 = rest"
      by (rule read_exact) simp_all
    have "push_bit s (x AND 0x7F) = push_bit s x"
      using join_low7 [of s x] h by simp
    then have "get_unsigned_loop rd r acc s = (acc OR push_bit s x, r1)"
      using "1.prems"(3) r1
      by (subst get_unsigned_loop.simps) (simp add: low7_of_byte more_bit_of_byte)
    with c1 show ?thesis by (rule "1.prems"(1) [rotated])
  qed
qed

lemma getUnsigned_encode:
  assumes "contents r = encode_unsigned x @ rest"
  obtains r' where "getUnsigned rd r = (x, r')" and "contents r' = rest"
proof -
  have b: "unat x < 2 ^ (64 - 0)" using unsigned_less [of x, where 'a = nat] by simp
  obtain r' where "get_unsigned_loop rd r 0 0 = (0 OR push_bit 0 x, r')"
    and "contents r' = rest"
    by (rule get_unsigned_loop_encode [where acc = 0, OF assms _ b]) simp_all
  then show ?thesis using that by (simp add: getUnsigned_def)
qed

lemma getString_encode:
  assumes "contents r = encode_unsigned (of_nat (length bs)) @ bs @ rest"
    and "length bs < 2 ^ 64"
  obtains r' where "getString rd r = (bs, r')" and "contents r' = rest"
proof -
  obtain r1 where r1: "getUnsigned rd r = (of_nat (length bs), r1)" and c1: "contents r1 = bs @ rest"
    by (rule getUnsigned_encode [OF assms(1)])
  have n: "unat (of_nat (length bs) :: u64) = length bs"
    using assms(2) by (simp add: unat_of_nat take_bit_nat_eq_self)
  obtain r2 where "rd r1 (length bs) = (bs, r2)" and "contents r2 = rest"
    by (rule read_exact [OF c1 refl])
  then show ?thesis using that r1 n by (simp add: getString_def)
qed

end

locale byte_writer =
  fixes contents :: "'w \<Rightarrow> bytes"
    and wr :: "'w write_fn"
  assumes contents_write: "contents (wr w bs) = contents w @ bs"
begin

lemma contents_put:
  shows "contents (put_unsigned wr w x) = contents w @ encode_unsigned x"
    and "contents (put_signed wr w x) = contents w @ encode_unsigned (encode x)"
    and "contents (put_u8 wr w a) = contents w @ encode_unsigned (ucast a)"
    and "contents (put_u16 wr w b) = contents w @ encode_unsigned (ucast b)"
    and "contents (put_u32 wr w c) = contents w @ encode_unsigned (ucast c)"
    and "contents (put_s32 wr w c) = contents w @ encode_unsigned (encode (scast c))"
    and "contents (put_bool wr w d) = contents w @ encode_unsigned (of_bool d)"
    and "contents (put_size wr w n) = contents w @ encode_unsigned (of_nat n)"
    and "contents (put_string wr w bs) =
           contents w @ encode_unsigned (of_nat (length bs)) @ bs"
  by (simp_all add: put_unsigned_def put_signed_def put_u8_def put_u16_def put_u32_def put_s32_def
      put_bool_def put_size_def put_string_def contents_write)

end

text \<open>An archive that is read and written, as \<^verbatim>\<open>DequeArchive\<close> is.\<close>

locale byte_archive = byte_reader contents rd + byte_writer contents wr
  for contents :: "'a \<Rightarrow> bytes" and rd wr
begin

lemma get_put_unsigned:
  assumes "contents a = []"
  obtains a' where "getUnsigned rd (put_unsigned wr a x) = (x, a')" and "contents a' = []"
  by (rule getUnsigned_encode [of "put_unsigned wr a x" x "[]"]) (auto simp: contents_put assms)

lemma get_put_signed:
  assumes "contents a = []"
  obtains a' where "getSigned rd (put_signed wr a x) = (x, a')" and "contents a' = []"
proof -
  obtain a' where "getUnsigned rd (put_unsigned wr a (encode x)) = (encode x, a')"
    and "contents a' = []"
    by (rule get_put_unsigned [OF assms])
  then show ?thesis using that by (simp add: getSigned_def put_signed_def decode_encode)
qed

lemma get_put_string:
  assumes "contents a = []" and "length bs < 2 ^ 64"
  obtains a' where "getString rd (put_string wr a bs) = (bs, a')" and "contents a' = []"
  using assms(2) by (rule getString_encode [rotated, of bs "put_string wr a bs" "[]"])
    (auto simp: contents_put assms(1))

end

interpretation deque_r: byte_reader "\<lambda>bs. bs" DequeReader_read
  by unfold_locales (auto simp: DequeReader_read_def Let_def min_def)

interpretation deque_w: byte_writer "\<lambda>bs. bs" DequeWriter_write
  by unfold_locales (auto simp: DequeWriter_write_def)

interpretation deque: byte_archive storage DequeArchive_read DequeArchive_write
  by unfold_locales (auto simp: DequeArchive_read_def DequeArchive_write_def Let_def min_def)

section \<open>Properties\<close>

lemma encode_unsigned_not_Nil [simp]: "encode_unsigned x \<noteq> []"
  by (subst encode_unsigned.simps) (simp add: Let_def)

lemma length_encode_unsigned_le: "unat x < 2 ^ (7 * Suc k) \<Longrightarrow> length (encode_unsigned x) \<le> Suc k"
proof (induction k arbitrary: x)
  case 0
  then have "drop_bit 7 x = 0"
    by (simp add: unat_drop_bit_7 flip: unat_eq_zero)
  then show ?case by (subst encode_unsigned.simps) (simp add: Let_def)
next
  case (Suc k)
  have "unat x < 2 ^ (7 * Suc k) * 2 ^ 7"
    using Suc.prems by (simp only: mult_Suc_right power_add) (simp add: mult.commute)
  then have "unat (drop_bit 7 x) < 2 ^ (7 * Suc k)"
    by (simp add: unat_drop_bit_7 less_mult_imp_div_less)
  then show ?case
    using Suc.IH by (subst encode_unsigned.simps) (simp add: Let_def)
qed

lemma sint_u64: "sint (x :: u64) = (if uint x < 2 ^ 63 then uint x else uint x - 2 ^ 64)"
proof -
  have "sint x = (uint x + 2 ^ 63) mod 2 ^ 64 - 2 ^ 63"
    by (simp add: sint_uint signed_take_bit_eq_take_bit_shift take_bit_eq_mod)
  moreover have "0 \<le> uint x" "uint x < 2 ^ 64"
    using uint_lt2p [of x] by simp_all
  ultimately show ?thesis
    by (cases "uint x < 2 ^ 63") (simp_all add: mod_pos_pos_trivial mod_pos_geq)
qed

lemma bit_63_iff: "bit (x :: u64) 63 \<longleftrightarrow> \<not> uint x < 2 ^ 63"
  using bit_last_iff [of x] uint_lt2p [of x] by (simp add: sint_u64)

lemma uint_NOT_u64: "uint (NOT y :: u64) = 2 ^ 64 - 1 - uint y"
proof -
  have b: "uint y < 2 ^ 64" "0 \<le> uint y"
    using uint_lt2p [of y] by simp_all
  have "uint (NOT y) = (- uint y - 1) mod 2 ^ 64"
    by (simp add: not_eq_complement uint_word_ariths mod_simps)
  also have "\<dots> = (- uint y - 1 + 2 ^ 64) mod 2 ^ 64"
    by (simp only: mod_add_self2)
  also have "\<dots> = 2 ^ 64 - 1 - uint y"
    using b by (subst mod_pos_pos_trivial; linarith)
  finally show ?thesis .
qed

lemma uint_encode: "uint (encode x) = (if 0 \<le> sint x then 2 * sint x else - 2 * sint x - 1)"
proof -
  have u: "uint x < 2 ^ 64" "0 \<le> uint x" using uint_lt2p [of x] by simp_all
  have p: "uint (push_bit (Suc 0) x) = (2 * uint x) mod 2 ^ 64"
    by (simp add: push_bit_eq_mult uint_word_ariths mult.commute)
  show ?thesis
  proof (cases "uint x < 2 ^ 63")
    case True
    then show ?thesis
      using u by (simp add: encode_alt bit_63_iff p sint_u64 mod_pos_pos_trivial del: push_bit_Suc)
  next
    case False
    have "(2 * uint x) mod 2 ^ 64 = (2 * uint x - 2 ^ 64) mod 2 ^ 64"
      by (simp only: minus_mod_self2)
    also have "\<dots> = 2 * uint x - 2 ^ 64"
      using u False by (subst mod_pos_pos_trivial) simp_all
    finally have "(2 * uint x) mod 2 ^ 64 = 2 * uint x - 2 ^ 64" .
    with False show ?thesis
      using u by (simp add: encode_alt bit_63_iff p sint_u64 uint_NOT_u64 del: push_bit_Suc)
  qed
qed

text \<open>
  the code of a number never overruns the stack buffer \<^verbatim>\<open>buf\<close> of \<^verbatim>\<open>operator<<\<close>, whose size is
  \<^verbatim>\<open>(sizeof(x) * CHAR_BIT + 7 - 1) / 7\<close> = 10 bytes, and is never empty.
\<close>

theorem encode_unsigned_fits_buffer:
  "1 \<le> length (encode_unsigned x) \<and> length (encode_unsigned x) \<le> (8 * 8 + 7 - 1) div 7"
proof -
  have "unat x < 2 ^ 64"
    using unsigned_less [of x, where 'a = nat] by simp
  then have "unat x < 2 ^ (7 * Suc 9)" by simp
  then have "length (encode_unsigned x) \<le> Suc 9"
    by (rule length_encode_unsigned_le)
  then show ?thesis by (simp add: Suc_le_eq)
qed

text \<open>
  \<^verbatim>\<open>zigzag::decode\<close> and \<^verbatim>\<open>zigzag::encode\<close> are inverse to each other, and the code interleaves
  the numbers by magnitude: a non-negative number doubles, a negative one maps to an odd code.
\<close>

theorem zigzag_bijective:
  "decode (encode x) = x \<and> encode (decode y) = y \<and>
   uint (encode x) = (if 0 \<le> sint x then 2 * sint x else - 2 * sint x - 1)"
  by (simp add: decode_encode encode_decode uint_encode)

text \<open>
  C34: what is written to an archive is read back: an unsigned number, a signed number, a flag and a
  string written one after the other come back unchanged and in this order, and nothing is left.
\<close>

theorem archive_roundtrip:
  fixes x y :: u64
  assumes "length s < 2 ^ 64"
  shows "let w = DequeArchive_write; r = DequeArchive_read;
             a = put_string w (put_bool w (put_signed w (put_unsigned w \<lparr>storage = []\<rparr> x) y) b) s;
             (x', a1) = getUnsigned r a; (y', a2) = getSigned r a1; (b', a3) = getUnsigned r a2;
             (s', a4) = getString r a3
         in x' = x \<and> y' = y \<and> (b' \<noteq> 0) = b \<and> s' = s \<and> storage a4 = []"
proof -
  let ?w = DequeArchive_write
  let ?a = "put_string ?w (put_bool ?w (put_signed ?w (put_unsigned ?w \<lparr>storage = []\<rparr> x) y) b) s"
  have "storage ?a = encode_unsigned x @ encode_unsigned (encode y) @ encode_unsigned (of_bool b) @
      encode_unsigned (of_nat (length s)) @ s @ []"
    by (simp add: deque.contents_put)
  then obtain a1 where a1: "getUnsigned DequeArchive_read ?a = (x, a1)"
    and c1: "storage a1 = encode_unsigned (encode y) @ encode_unsigned (of_bool b) @
      encode_unsigned (of_nat (length s)) @ s @ []"
    by (rule deque.getUnsigned_encode)
  obtain a2 where a2: "getUnsigned DequeArchive_read a1 = (encode y, a2)"
    and c2: "storage a2 = encode_unsigned (of_bool b) @ encode_unsigned (of_nat (length s)) @ s @ []"
    by (rule deque.getUnsigned_encode [OF c1])
  obtain a3 where a3: "getUnsigned DequeArchive_read a2 = (of_bool b, a3)"
    and c3: "storage a3 = encode_unsigned (of_nat (length s)) @ s @ []"
    by (rule deque.getUnsigned_encode [OF c2])
  obtain a4 where "getString DequeArchive_read a3 = (s, a4)" and "storage a4 = []"
    by (rule deque.getString_encode [OF c3 assms])
  with a1 a2 a3 show ?thesis
    by (simp add: Let_def getSigned_def decode_encode)
qed

theorem archive_roundtrip_witness:
  "let w = DequeArchive_write; r = DequeArchive_read;
       a = put_string w (put_bool w (put_signed w (put_unsigned w \<lparr>storage = []\<rparr> 300) (-5)) True)
             [1, 2, 3];
       (x', a1) = getUnsigned r a; (y', a2) = getSigned r a1; (b', a3) = getUnsigned r a2;
       (s', a4) = getString r a3
   in x' = 300 \<and> y' = -5 \<and> (b' \<noteq> 0) = True \<and> s' = [1, 2, 3] \<and> storage a4 = []"
  by (rule archive_roundtrip) simp

end
