(* ===== verification/Cable.thy ===== *)
theory Cable
  imports Archive
begin

text \<open>
  The contract between a socket manager and the devices plugged into its sockets
  (\<^verbatim>\<open>emulator/devices/include/goldfish/devices/cable\<close>, \<^verbatim>\<open>emulator/devices/cable.cpp\<close>).  A plug
  is a value of a type \<open>'p\<close> whose virtual methods are collected in a record; a method that runs on
  behalf of the socket manager answers with the calls it makes on its own socket, in order, which
  the manager carries out before it goes on.
\<close>

section \<open>Plugs and sockets\<close>

datatype 'p socket_call = SendAsync bytes | SwitchPlug 'p

record 'p plug_ops =
  onConnect :: "'p \<Rightarrow> 'p \<times> 'p socket_call list"
  onReceive :: "'p \<Rightarrow> bytes \<Rightarrow> bool \<times> 'p \<times> 'p socket_call list"
  onUnplug :: "'p \<Rightarrow> 'p"
  supportsLoadingFromSnapshot :: "'p \<Rightarrow> bool"
  getSnapshotTypeId :: "'p \<Rightarrow> bytes"
  saveStateToSnapshot :: "'p \<Rightarrow> bool \<times> bytes"

section \<open>Saving and loading plugs\<close>

text \<open>
  A loader returns the plug it could build, or \<^const>\<open>None\<close> when it hands the socket back.
\<close>

type_synonym ('r, 'p) plug_loader = "'r \<Rightarrow> 'p option \<times> 'r"
type_synonym ('r, 'p) plug_loaders = "bytes \<Rightarrow> ('r, 'p) plug_loader option"

definition registerPlugLoader ::
  "bytes \<Rightarrow> ('r, 'p) plug_loader \<Rightarrow> ('r, 'p) plug_loaders \<Rightarrow> bool \<times> ('r, 'p) plug_loaders" where
  "registerPlugLoader typeId ld loaders =
     (case loaders typeId of
        None \<Rightarrow> (True, loaders(typeId \<mapsto> ld))
      | Some _ \<Rightarrow> (False, loaders))"

definition savePlugToSnapshot :: "'p plug_ops \<Rightarrow> 'w write_fn \<Rightarrow> 'p \<Rightarrow> 'w \<Rightarrow> bool \<times> 'w" where
  "savePlugToSnapshot P wr plug w =
     (if \<not> supportsLoadingFromSnapshot P plug then (False, w)
      else (let i = getSnapshotTypeId P plug
            in if i = [] then (False, w)
               else (let w1 = put_string wr w i; (ok, bs) = saveStateToSnapshot P plug
                     in (ok, wr w1 bs))))"

definition loadPlugFromSnapshot ::
  "'r read_fn \<Rightarrow> ('r, 'p) plug_loaders \<Rightarrow> 'r \<Rightarrow> 'p option \<times> 'r" where
  "loadPlugFromSnapshot rd loaders r =
     (let (i, r1) = getString rd r
      in if i = [] then (None, r1)
         else (case loaders i of
                 None \<Rightarrow> (None, r1)
               | Some ld \<Rightarrow> ld r1))"

section \<open>Facts\<close>

lemma registerPlugLoader_lookup:
  "registerPlugLoader t ld loaders = (ok, loaders') \<Longrightarrow>
   (ok \<longleftrightarrow> t \<notin> dom loaders) \<and> loaders' t = Some (if ok then ld else the (loaders t)) \<and>
   (\<forall>u. u \<noteq> t \<longrightarrow> loaders' u = loaders u)"
  by (auto simp: registerPlugLoader_def split: option.splits)

context byte_writer
begin

lemma contents_savePlug:
  assumes "supportsLoadingFromSnapshot P p" and "getSnapshotTypeId P p \<noteq> []"
    and "saveStateToSnapshot P p = (True, bs)"
  obtains w' where "savePlugToSnapshot P wr p w = (True, w')"
    and "contents w' = contents w @
      encode_unsigned (of_nat (length (getSnapshotTypeId P p))) @ getSnapshotTypeId P p @ bs"
  using assms that by (simp add: savePlugToSnapshot_def Let_def contents_put contents_write)

end

context byte_reader
begin

lemma loadPlug_bytes:
  assumes "contents r = encode_unsigned (of_nat (length t)) @ t @ bs @ rest"
    and "length t < 2 ^ 64" and "t \<noteq> []" and "loaders t = Some ld"
    and "\<And>r1. contents r1 = bs @ rest \<Longrightarrow> \<exists>r2. ld r1 = (Some p, r2) \<and> contents r2 = rest"
  obtains r' where "loadPlugFromSnapshot rd loaders r = (Some p, r')" and "contents r' = rest"
proof -
  obtain r1 where r1: "getString rd r = (t, r1)" and c1: "contents r1 = bs @ rest"
    by (rule getString_encode [OF assms(1,2)])
  from assms(5) [OF c1] obtain r2 where "ld r1 = (Some p, r2)" "contents r2 = rest" by blast
  with r1 assms(3,4) show ?thesis using that by (simp add: loadPlugFromSnapshot_def)
qed

end

end
