(* ===== verification/Id_Allocator.thy ===== *)
theory Id_Allocator
  imports Archive
begin

text \<open>
  \<^verbatim>\<open>UniqueIdAllocator\<close> of \<^verbatim>\<open>plugin/vsock_goldfish/vsock.cpp\<close>, which hands out the host ports of
  the connections the host opens.  \<^verbatim>\<open>mReturnedIds\<close> is a \<^verbatim>\<open>std::set\<close> ordered by
  \<^verbatim>\<open>std::greater\<close>; it is kept as the list of its elements in iteration order, so its head is
  \<^verbatim>\<open>begin()\<close> and its last element is what \<^verbatim>\<open>--end()\<close> points at.  A failed assertion is \<^const>\<open>None\<close>.
\<close>

section \<open>Operations\<close>

record id_allocator =
  mLastId :: u32
  mReturnedIds :: "u32 list"

definition empty_allocator :: id_allocator where
  "empty_allocator = \<lparr>mLastId = 0, mReturnedIds = []\<rparr>"

definition alloc_get :: "id_allocator \<Rightarrow> u32 \<times> id_allocator" where
  "alloc_get a =
     (if mReturnedIds a \<noteq> []
      then (last (mReturnedIds a), a\<lparr>mReturnedIds := butlast (mReturnedIds a)\<rparr>)
      else (mLastId a + 1, a\<lparr>mLastId := mLastId a + 1\<rparr>))"

text \<open>The loop of \<^verbatim>\<open>put\<close> that gives back the ids just below the last one.\<close>

fun alloc_shrink :: "u32 \<Rightarrow> u32 list \<Rightarrow> u32 \<times> u32 list" where
  "alloc_shrink lastId [] = (lastId, [])"
| "alloc_shrink lastId (x # xs) =
     (if x = lastId then alloc_shrink (lastId - 1) xs else (lastId, x # xs))"

text \<open>\<^verbatim>\<open>std::set::insert\<close> under \<^verbatim>\<open>std::greater\<close>.\<close>

fun insert_desc :: "u32 \<Rightarrow> u32 list \<Rightarrow> u32 list" where
  "insert_desc x [] = [x]"
| "insert_desc x (y # ys) =
     (if x > y then x # y # ys else if x = y then y # ys else y # insert_desc x ys)"

definition alloc_put :: "u32 \<Rightarrow> id_allocator \<Rightarrow> id_allocator option" where
  "alloc_put i a =
     (if i = mLastId a
      then (let (lastId, returned) = alloc_shrink (mLastId a - 1) (mReturnedIds a)
            in Some (a\<lparr>mLastId := lastId, mReturnedIds := returned\<rparr>))
      else if i < mLastId a
      then Some (a\<lparr>mReturnedIds := insert_desc i (mReturnedIds a)\<rparr>)
      else None)"

definition alloc_reset :: "id_allocator \<Rightarrow> id_allocator" where
  "alloc_reset a = a\<lparr>mLastId := 0, mReturnedIds := []\<rparr>"

definition alloc_save :: "'w write_fn \<Rightarrow> 'w \<Rightarrow> id_allocator \<Rightarrow> 'w" where
  "alloc_save wr w a =
     fold (\<lambda>i w. put_u32 wr w i) (mReturnedIds a)
       (put_size wr (put_u32 wr w (mLastId a)) (length (mReturnedIds a)))"

fun alloc_load_ids :: "'r read_fn \<Rightarrow> nat \<Rightarrow> 'r \<Rightarrow> u32 list \<Rightarrow> u32 list \<times> 'r" where
  "alloc_load_ids rd 0 r ids = (ids, r)"
| "alloc_load_ids rd (Suc n) r ids =
     (let (x, r') = getUnsigned rd r in alloc_load_ids rd n r' (insert_desc (ucast x) ids))"

definition alloc_load :: "'r read_fn \<Rightarrow> 'r \<Rightarrow> id_allocator \<times> 'r" where
  "alloc_load rd r =
     (let (lastId, r1) = getUnsigned rd r; (n, r2) = getUnsigned rd r1;
          (ids, r3) = alloc_load_ids rd (unat n) r2 []
      in (\<lparr>mLastId = ucast lastId, mReturnedIds = ids\<rparr>, r3))"

section \<open>Invariant\<close>

definition alloc_inv :: "id_allocator \<Rightarrow> bool" where
  "alloc_inv a \<longleftrightarrow> sorted_wrt (>) (mReturnedIds a) \<and>
     (\<forall>x \<in> set (mReturnedIds a). 1 \<le> x \<and> x < mLastId a)"

text \<open>The ids handed out and not given back.\<close>

definition ids_in_use :: "id_allocator \<Rightarrow> u32 set" where
  "ids_in_use a = {1..mLastId a} - set (mReturnedIds a)"

text \<open>There is an id left: a returned one, or the counter has not reached its last value.\<close>

definition has_room :: "id_allocator \<Rightarrow> bool" where
  "has_room a \<longleftrightarrow> mReturnedIds a \<noteq> [] \<or> mLastId a \<noteq> - 1"

section \<open>Facts\<close>

lemma sorted_desc_snoc: "sorted_wrt (>) (xs @ [x :: u32]) \<Longrightarrow> x \<notin> set xs"
  by (auto simp: sorted_wrt_append)

lemma alloc_get_in_use:
  assumes "alloc_inv a" and "has_room a" and "alloc_get a = (i, a')"
  shows "i \<notin> ids_in_use a" and "ids_in_use a' = insert i (ids_in_use a)" and "alloc_inv a'"
proof -
  consider (returned) xs where "mReturnedIds a = xs @ [i]" "a' = a\<lparr>mReturnedIds := xs\<rparr>"
    | (fresh) "mReturnedIds a = []" "i = mLastId a + 1" "a' = a\<lparr>mLastId := i\<rparr>" "mLastId a \<noteq> - 1"
    using assms(2,3) unfolding alloc_get_def has_room_def
    by (cases "mReturnedIds a" rule: rev_cases) (auto split: if_splits)
  then have "i \<notin> ids_in_use a \<and> ids_in_use a' = insert i (ids_in_use a) \<and> alloc_inv a'"
  proof cases
    case returned
    then show ?thesis
      using assms(1) sorted_desc_snoc [of xs i]
      by (auto simp: alloc_inv_def ids_in_use_def sorted_wrt_append)
  next
    case fresh
    then show ?thesis
      using word_succ_range [of "mLastId a"] inc_less_eq_self_iff_eq [of "mLastId a"]
      by (auto simp: alloc_inv_def ids_in_use_def)
  qed
  then show "i \<notin> ids_in_use a" and "ids_in_use a' = insert i (ids_in_use a)" and "alloc_inv a'"
    by simp_all
qed

lemma insert_desc_set [simp]: "set (insert_desc x ys) = insert x (set ys)"
  by (induction ys) auto

lemma insert_desc_sorted: "sorted_wrt (>) ys \<Longrightarrow> sorted_wrt (>) (insert_desc x ys)"
  by (induction ys) auto

lemma alloc_shrink_correct:
  assumes "alloc_shrink n xs = (m, ys)" and "sorted_wrt (>) xs" and "\<forall>x \<in> set xs. 1 \<le> x \<and> x \<le> n"
  shows "sorted_wrt (>) ys \<and> (\<forall>y \<in> set ys. 1 \<le> y \<and> y < m) \<and> {1..m} - set ys = {1..n} - set xs"
  using assms
proof (induction n xs rule: alloc_shrink.induct)
  case (1 lastId)
  then show ?case by simp
next
  case (2 lastId x xs)
  show ?case
  proof (cases "x = lastId")
    case True
    with "2.prems" have "lastId \<noteq> 0" and "\<forall>y \<in> set xs. 1 \<le> y \<and> y < lastId"
      by auto
    moreover from this have "\<forall>y \<in> set xs. 1 \<le> y \<and> y \<le> lastId - 1"
      by (auto intro: word_le_sub1_if)
    moreover have "lastId \<notin> {1..lastId - 1}"
      using \<open>lastId \<noteq> 0\<close> by (simp add: word_less_sub1_self)
    ultimately show ?thesis
      using True "2.IH" "2.prems" word_pred_range [of lastId] by auto
  next
    case False
    with "2.prems" show ?thesis by fastforce
  qed
qed

lemma alloc_put_in_use:
  assumes "alloc_inv a" and "i \<in> ids_in_use a"
  obtains a' where "alloc_put i a = Some a'" and "ids_in_use a' = ids_in_use a - {i}" and "alloc_inv a'"
proof (cases "i = mLastId a")
  case True
  obtain m ys where sh: "alloc_shrink (mLastId a - 1) (mReturnedIds a) = (m, ys)"
    by (cases "alloc_shrink (mLastId a - 1) (mReturnedIds a)")
  have nz: "mLastId a \<noteq> 0"
    using True assms(2) by (auto simp: ids_in_use_def)
  have "sorted_wrt (>) ys \<and> (\<forall>y \<in> set ys. 1 \<le> y \<and> y < m) \<and>
      {1..m} - set ys = {1..mLastId a - 1} - set (mReturnedIds a)"
    using assms(1) by (intro alloc_shrink_correct [OF sh]) (auto simp: alloc_inv_def intro: word_le_sub1_if)
  moreover have "{1..mLastId a - 1} - set (mReturnedIds a) = ids_in_use a - {i}"
    using True word_pred_range [OF nz] word_less_sub1_self [OF nz] by (auto simp: ids_in_use_def)
  ultimately show ?thesis
    using that [of "a\<lparr>mLastId := m, mReturnedIds := ys\<rparr>"] True sh
    by (simp add: alloc_put_def alloc_inv_def ids_in_use_def)
next
  case False
  then have "i < mLastId a" and "1 \<le> i"
    using assms(2) by (auto simp: ids_in_use_def)
  with False show ?thesis
    using that [of "a\<lparr>mReturnedIds := insert_desc i (mReturnedIds a)\<rparr>"] assms(1)
    by (auto simp: alloc_put_def alloc_inv_def ids_in_use_def insert_desc_sorted)
qed

lemma alloc_reset_in_use: "alloc_inv (alloc_reset a)" and "ids_in_use (alloc_reset a) = {}"
  by (simp_all add: alloc_reset_def alloc_inv_def ids_in_use_def)

section \<open>Snapshots\<close>

lemma ucast_u32_u64 [simp]: "ucast (ucast (x :: u32) :: u64) = x"
  by (rule bit_word_eqI) (simp add: bit_simps)

definition alloc_bytes :: "id_allocator \<Rightarrow> bytes" where
  "alloc_bytes a = encode_unsigned (ucast (mLastId a)) @
     encode_unsigned (of_nat (length (mReturnedIds a))) @
     concat (map (\<lambda>i. encode_unsigned (ucast i)) (mReturnedIds a))"

lemma insert_desc_last: "sorted_wrt (>) (ys @ [x]) \<Longrightarrow> insert_desc x ys = ys @ [x]"
  by (induction ys) auto

lemma length_distinct_u32:
  assumes "distinct (xs :: u32 list)"
  shows "length xs < 2 ^ 64"
proof -
  have "length xs = card (set xs)"
    using assms by (simp add: distinct_card)
  also have "\<dots> \<le> card (UNIV :: u32 set)"
    by (rule card_mono) simp_all
  finally show ?thesis by (simp add: card_word)
qed

lemma sorted_desc_distinct: "sorted_wrt (>) (xs :: u32 list) \<Longrightarrow> distinct xs"
  by (induction xs) auto

context byte_writer
begin

lemma contents_put_ids:
  "contents (fold (\<lambda>i w. put_u32 wr w i) ids w) =
     contents w @ concat (map (\<lambda>i. encode_unsigned (ucast i)) ids)"
  by (induction ids arbitrary: w) (simp_all add: contents_put)

lemma contents_alloc_save: "contents (alloc_save wr w a) = contents w @ alloc_bytes a"
  by (simp add: alloc_save_def alloc_bytes_def contents_put_ids contents_put)

end

context byte_reader
begin

lemma alloc_load_ids_bytes:
  assumes "contents r = concat (map (\<lambda>i. encode_unsigned (ucast i)) ids) @ rest"
    and "sorted_wrt (>) (acc @ ids)"
  obtains r' where "alloc_load_ids rd (length ids) r acc = (acc @ ids, r')" and "contents r' = rest"
  using assms
proof (induction ids arbitrary: r acc thesis)
  case Nil
  then show ?case by simp
next
  case (Cons i ids)
  from Cons.prems(2) obtain r1 where r1: "getUnsigned rd r = (ucast i, r1)"
    and c1: "contents r1 = concat (map (\<lambda>i. encode_unsigned (ucast i)) ids) @ rest"
    using getUnsigned_encode [of r "ucast i" "concat (map (\<lambda>i. encode_unsigned (ucast i)) ids) @ rest"]
    by auto
  have s: "sorted_wrt (>) ((acc @ [i]) @ ids)" using Cons.prems(3) by simp
  obtain r2 where r2: "alloc_load_ids rd (length ids) r1 (acc @ [i]) = ((acc @ [i]) @ ids, r2)"
    and c2: "contents r2 = rest"
    by (rule Cons.IH [OF _ c1 s])
  have "insert_desc i acc = acc @ [i]"
    by (rule insert_desc_last) (use Cons.prems(3) in \<open>auto simp: sorted_wrt_append\<close>)
  with r1 r2 have "alloc_load_ids rd (length (i # ids)) r acc = (acc @ i # ids, r2)" by simp
  with c2 show ?case by (rule Cons.prems(1) [rotated])
qed

lemma alloc_load_bytes:
  assumes "contents r = alloc_bytes a @ rest" and "alloc_inv a"
  obtains r' where "alloc_load rd r = (a, r')" and "contents r' = rest"
proof -
  let ?ids = "mReturnedIds a"
  have sorted: "sorted_wrt (>) ([] @ ?ids)" using assms(2) by (simp add: alloc_inv_def)
  have n: "unat (of_nat (length ?ids) :: u64) = length ?ids"
    using length_distinct_u32 [OF sorted_desc_distinct [of ?ids]] sorted
    by (simp add: unat_of_nat take_bit_nat_eq_self)
  obtain r1 where r1: "getUnsigned rd r = (ucast (mLastId a), r1)"
    and c1: "contents r1 = encode_unsigned (of_nat (length ?ids)) @
      (concat (map (\<lambda>i. encode_unsigned (ucast i)) ?ids) @ rest)"
    by (rule getUnsigned_encode) (use assms(1) in \<open>auto simp: alloc_bytes_def\<close>)
  obtain r2 where r2: "getUnsigned rd r1 = (of_nat (length ?ids), r2)"
    and c2: "contents r2 = concat (map (\<lambda>i. encode_unsigned (ucast i)) ?ids) @ rest"
    by (rule getUnsigned_encode [OF c1])
  obtain r3 where "alloc_load_ids rd (length ?ids) r2 [] = ([] @ ?ids, r3)" and "contents r3 = rest"
    by (rule alloc_load_ids_bytes [OF c2 sorted])
  with r1 r2 n show ?thesis using that by (simp add: alloc_load_def)
qed

end

section \<open>The contract its clients rely on\<close>

text \<open>
  A source of ids: a fresh id is one nobody holds, giving an id back makes it free, and nothing
  else changes hands.
\<close>

locale id_source =
  fixes get :: "'a \<Rightarrow> 'i \<times> 'a"
    and put :: "'i \<Rightarrow> 'a \<Rightarrow> 'a option"
    and held :: "'a \<Rightarrow> 'i set"
    and room :: "'a \<Rightarrow> bool"
    and inv :: "'a \<Rightarrow> bool"
  assumes get_law: "inv a \<Longrightarrow> room a \<Longrightarrow> get a = (i, a') \<Longrightarrow>
      i \<notin> held a \<and> held a' = insert i (held a) \<and> inv a'"
    and put_law: "inv a \<Longrightarrow> i \<in> held a \<Longrightarrow>
      \<exists>a'. put i a = Some a' \<and> held a' = held a - {i} \<and> inv a'"
begin

lemma put_get:
  assumes "inv a" and "room a" and "get a = (i, a')"
  obtains a'' where "put i a' = Some a''" and "held a'' = held a" and "inv a''"
proof -
  note g = get_law [OF assms]
  then obtain a'' where "put i a' = Some a''" "held a'' = held a' - {i}" "inv a''"
    using put_law [of a' i] by blast
  moreover from this g have "held a'' = held a" by auto
  ultimately show ?thesis using that by blast
qed

end

interpretation alloc: id_source alloc_get alloc_put ids_in_use has_room alloc_inv
proof
  show "i \<notin> ids_in_use a \<and> ids_in_use a' = insert i (ids_in_use a) \<and> alloc_inv a'"
    if "alloc_inv a" "has_room a" "alloc_get a = (i, a')" for a i a'
    using alloc_get_in_use [OF that] by simp
  show "\<exists>a'. alloc_put i a = Some a' \<and> ids_in_use a' = ids_in_use a - {i} \<and> alloc_inv a'"
    if "alloc_inv a" "i \<in> ids_in_use a" for a i
    using alloc_put_in_use [OF that] by blast
qed

section \<open>Properties\<close>

text \<open>
  the allocator never hands out an id that is still held, and giving one back succeeds (its
  assertion holds) and frees exactly that id; both keep the allocator well formed.
\<close>

theorem allocator_exclusive:
  assumes "alloc_inv a" and "has_room a" and "alloc_get a = (i, a')" and "j \<in> ids_in_use a'"
  shows "i \<notin> ids_in_use a \<and> ids_in_use a' = insert i (ids_in_use a) \<and>
    (\<exists>a''. alloc_put j a' = Some a'' \<and> ids_in_use a'' = ids_in_use a' - {j} \<and> alloc_inv a'')"
  using alloc.get_law [OF assms(1-3)] alloc.put_law [OF _ assms(4)] by blast

theorem allocator_exclusive_witness:
  "7 \<notin> ids_in_use \<lparr>mLastId = 9, mReturnedIds = [8, 7]\<rparr> \<and>
   (\<exists>a''. alloc_put 9 \<lparr>mLastId = 9, mReturnedIds = [8]\<rparr> = Some a'' \<and> alloc_inv a'')"
proof -
  let ?a = "\<lparr>mLastId = 9, mReturnedIds = [8, 7]\<rparr>" and ?b = "\<lparr>mLastId = 9, mReturnedIds = [8]\<rparr>"
  have h: "alloc_inv ?a" "has_room ?a" "alloc_get ?a = (7, ?b)" "9 \<in> ids_in_use ?b"
    by (simp_all add: alloc_inv_def has_room_def alloc_get_def ids_in_use_def)
  show ?thesis using allocator_exclusive [OF h] by blast
qed

text \<open>
  the allocator written to a snapshot is read back unchanged, whatever else the archive holds.
\<close>

theorem allocator_snapshot_roundtrip:
  assumes "alloc_inv a"
  shows "alloc_load DequeArchive_read (alloc_save DequeArchive_write \<lparr>storage = []\<rparr> a) =
    (a, \<lparr>storage = []\<rparr>)"
proof -
  have "storage (alloc_save DequeArchive_write \<lparr>storage = []\<rparr> a) = alloc_bytes a @ []"
    by (simp add: deque.contents_alloc_save)
  then obtain r where "alloc_load DequeArchive_read (alloc_save DequeArchive_write \<lparr>storage = []\<rparr> a) = (a, r)"
    and "storage r = []"
    using assms by (rule deque.alloc_load_bytes)
  then show ?thesis by (cases r) simp
qed

theorem allocator_snapshot_roundtrip_witness:
  "alloc_load DequeArchive_read
     (alloc_save DequeArchive_write \<lparr>storage = []\<rparr> \<lparr>mLastId = 9, mReturnedIds = [8, 7, 3]\<rparr>) =
   (\<lparr>mLastId = 9, mReturnedIds = [8, 7, 3]\<rparr>, \<lparr>storage = []\<rparr>)"
  by (rule allocator_snapshot_roundtrip) (simp add: alloc_inv_def)

end
