(* ===== verification/Socket_Buffer.thy ===== *)
theory Socket_Buffer
  imports Archive
begin

text \<open>
  \<^verbatim>\<open>SocketBuffer\<close> of \<^verbatim>\<open>plugin/vsock_goldfish/vsock.cpp\<close>: the bytes a connection still owes the
  guest, as a vector with a read position.  A failed assertion is \<^const>\<open>None\<close>.
\<close>

section \<open>Operations\<close>

record socket_buffer =
  mBuf :: bytes
  mConsumed :: nat

definition empty_buffer :: socket_buffer where
  "empty_buffer = \<lparr>mBuf = [], mConsumed = 0\<rparr>"

definition buf_append :: "socket_buffer \<Rightarrow> bytes \<Rightarrow> socket_buffer" where
  "buf_append b data =
     (let b' = (if mConsumed b > 0 then b\<lparr>mBuf := drop (mConsumed b) (mBuf b), mConsumed := 0\<rparr> else b)
      in b'\<lparr>mBuf := mBuf b' @ data\<rparr>)"

definition buf_peek :: "socket_buffer \<Rightarrow> bytes option" where
  "buf_peek b = (if mConsumed b \<le> length (mBuf b) then Some (drop (mConsumed b) (mBuf b)) else None)"

definition buf_consume :: "nat \<Rightarrow> socket_buffer \<Rightarrow> socket_buffer option" where
  "buf_consume n b =
     (if mConsumed b + n \<le> length (mBuf b) then Some (b\<lparr>mConsumed := mConsumed b + n\<rparr>) else None)"

definition buf_save :: "'w write_fn \<Rightarrow> 'w \<Rightarrow> socket_buffer \<Rightarrow> 'w option" where
  "buf_save wr w b =
     map_option (\<lambda>x. wr (put_size wr w (length x)) x) (buf_peek b)"

text \<open>
  The size is stored in a \<^verbatim>\<open>uint32_t\<close>.  The vector is resized before the read, so bytes a short
  read does not deliver stay zero; the result says whether the read was complete.
\<close>

definition buf_load :: "'r read_fn \<Rightarrow> 'r \<Rightarrow> (nat \<times> socket_buffer) \<times> 'r" where
  "buf_load rd r =
     (let (n, r1) = getUnsigned rd r; size = unat (ucast n :: u32); (bs, r2) = rd r1 size
      in ((if length bs = size then 0 else 1,
           \<lparr>mBuf = bs @ replicate (size - length bs) 0, mConsumed = 0\<rparr>), r2))"

section \<open>The queue it implements\<close>

definition buf_inv :: "socket_buffer \<Rightarrow> bool" where
  "buf_inv b \<longleftrightarrow> mConsumed b \<le> length (mBuf b)"

definition buf_pending :: "socket_buffer \<Rightarrow> bytes" where
  "buf_pending b = drop (mConsumed b) (mBuf b)"

text \<open>
  A first-in first-out queue of bytes: data is added at the end, looked at and dropped from the
  front, and only what is there can be dropped.
\<close>

locale byte_fifo =
  fixes add :: "'q \<Rightarrow> bytes \<Rightarrow> 'q"
    and look :: "'q \<Rightarrow> bytes option"
    and take_off :: "nat \<Rightarrow> 'q \<Rightarrow> 'q option"
    and pending :: "'q \<Rightarrow> bytes"
    and inv :: "'q \<Rightarrow> bool"
  assumes add_law: "inv q \<Longrightarrow> pending (add q bs) = pending q @ bs \<and> inv (add q bs)"
    and look_law: "inv q \<Longrightarrow> look q = Some (pending q)"
    and take_off_law: "inv q \<Longrightarrow> n \<le> length (pending q) \<Longrightarrow>
      \<exists>q'. take_off n q = Some q' \<and> pending q' = drop n (pending q) \<and> inv q'"
    and take_off_guard: "inv q \<Longrightarrow> length (pending q) < n \<Longrightarrow> take_off n q = None"
begin

lemma add_then_take_off:
  assumes "inv q" and "n \<le> length (pending q)"
  obtains q' where "take_off n (add q bs) = Some q'" and "pending q' = drop n (pending q) @ bs"
    and "inv q'"
  using add_law [OF assms(1), of bs] take_off_law [of "add q bs" n] assms(2) that by fastforce

end

interpretation sbuf: byte_fifo buf_append buf_peek buf_consume buf_pending buf_inv
  by unfold_locales
    (auto simp: buf_append_def buf_peek_def buf_consume_def buf_pending_def buf_inv_def Let_def
      add.commute)

lemma empty_buffer_facts [simp]: "buf_inv empty_buffer" "buf_pending empty_buffer = []"
  by (simp_all add: buf_inv_def buf_pending_def empty_buffer_def)

section \<open>Snapshots\<close>

definition buf_bytes :: "socket_buffer \<Rightarrow> bytes" where
  "buf_bytes b = encode_unsigned (of_nat (length (buf_pending b))) @ buf_pending b"

context byte_writer
begin

lemma contents_buf_save:
  assumes "buf_inv b"
  obtains w' where "buf_save wr w b = Some w'" and "contents w' = contents w @ buf_bytes b"
  using sbuf.look_law [OF assms] that
  by (auto simp: buf_save_def buf_bytes_def contents_put contents_write)

end

context byte_reader
begin

lemma buf_load_bytes:
  assumes "contents r = buf_bytes b @ rest" and "length (buf_pending b) < 2 ^ 32"
  obtains r' where "buf_load rd r = ((0, \<lparr>mBuf = buf_pending b, mConsumed = 0\<rparr>), r')"
    and "contents r' = rest"
proof -
  let ?n = "length (buf_pending b)"
  obtain r1 where r1: "getUnsigned rd r = (of_nat ?n, r1)" and c1: "contents r1 = buf_pending b @ rest"
    by (rule getUnsigned_encode) (use assms(1) in \<open>auto simp: buf_bytes_def\<close>)
  have n: "unat (ucast (of_nat ?n :: u64) :: u32) = ?n"
    using assms(2)
    by (simp add: unsigned_ucast_eq unat_of_nat take_bit_nat_eq_self)
  obtain r2 where "rd r1 ?n = (buf_pending b, r2)" and "contents r2 = rest"
    by (rule read_exact [OF c1 refl])
  with r1 n show ?thesis using that by (simp add: buf_load_def Let_def)
qed

end

end
