(* ===== verification/Vsock_Transport.thy ===== *)
theory Vsock_Transport
  imports Socket_Buffer
begin

text \<open>
  The packets of the virtio vsock device and the function that puts one into the guest's receive
  queue (\<^verbatim>\<open>virtio_vsock_send_packet_host_to_guest\<close> of
  \<^verbatim>\<open>plugin/vsock_goldfish/vsock_low_level.c\<close>).  The queue itself belongs to QEMU; the model keeps
  what the function observes of it: the sizes of the buffers the guest has offered, in the order
  \<^verbatim>\<open>virtqueue_pop\<close> returns them, and what was written into the buffers given back.  The operation
  codes and the header size are those of the virtio specification (section 5.10.6).
\<close>

section \<open>Headers and operations\<close>

record vsock_hdr =
  h_src_cid :: u64
  h_dst_cid :: u64
  h_src_port :: u32
  h_dst_port :: u32
  h_len :: u32
  h_type :: u16
  h_op :: u16
  h_flags :: u32
  h_buf_alloc :: u32
  h_fwd_cnt :: u32

abbreviation (input) OP_INVALID :: u16 where "OP_INVALID \<equiv> 0"
abbreviation (input) OP_REQUEST :: u16 where "OP_REQUEST \<equiv> 1"
abbreviation (input) OP_RESPONSE :: u16 where "OP_RESPONSE \<equiv> 2"
abbreviation (input) OP_RST :: u16 where "OP_RST \<equiv> 3"
abbreviation (input) OP_SHUTDOWN :: u16 where "OP_SHUTDOWN \<equiv> 4"
abbreviation (input) OP_RW :: u16 where "OP_RW \<equiv> 5"
abbreviation (input) OP_CREDIT_UPDATE :: u16 where "OP_CREDIT_UPDATE \<equiv> 6"
abbreviation (input) OP_CREDIT_REQUEST :: u16 where "OP_CREDIT_REQUEST \<equiv> 7"

abbreviation (input) sizeof_hdr :: nat where "sizeof_hdr \<equiv> 44"
abbreviation (input) VMADDR_CID_HOST :: u64 where "VMADDR_CID_HOST \<equiv> 2"
abbreviation (input) TYPE_STREAM :: u16 where "TYPE_STREAM \<equiv> 1"
abbreviation (input) SHUTDOWN_RCV :: u32 where "SHUTDOWN_RCV \<equiv> 1"
abbreviation (input) SHUTDOWN_SEND :: u32 where "SHUTDOWN_SEND \<equiv> 2"

section \<open>The packed result of a send\<close>

definition MakeVirtIOVSockSendResult :: "bool \<Rightarrow> bool \<Rightarrow> u64 \<Rightarrow> u32" where
  "MakeVirtIOVSockSendResult vq_full need_notify bytes_sent =
     ucast (of_bool need_notify OR push_bit 1 (of_bool vq_full) OR push_bit 2 bytes_sent)"

definition VirtIOVSockSendNeedNotify :: "u32 \<Rightarrow> bool" where
  "VirtIOVSockSendNeedNotify r \<longleftrightarrow> r AND 1 \<noteq> 0"

definition VirtIOVSockSendIsVqFull :: "u32 \<Rightarrow> bool" where
  "VirtIOVSockSendIsVqFull r \<longleftrightarrow> r AND 2 \<noteq> 0"

definition VirtIOVSockSentSize :: "u32 \<Rightarrow> u32" where
  "VirtIOVSockSentSize r = drop_bit 2 r"

section \<open>Sending one packet\<close>

text \<open>A buffer goes back to the guest empty or with a header and a piece of the payload.\<close>

datatype vq_used = UsedEmpty | UsedPacket vsock_hdr bytes

record guest_vq =
  guest_cid :: u64
  vq_avail :: "nat list"
  vq_used :: "vq_used list"

text \<open>
  The body of the \<^verbatim>\<open>do ... while (data8_size)\<close> loop, one buffer per round.  A \<^verbatim>\<open>continue\<close> jumps to
  the loop condition, so a buffer that cannot hold a header ends the loop when no payload is left.
  The result: the buffers left, the buffers used, and the three parts of the send result.
\<close>

fun vq_send_loop ::
  "nat list \<Rightarrow> vsock_hdr \<Rightarrow> bytes \<Rightarrow> nat \<Rightarrow> nat list \<times> vq_used list \<times> bool \<times> bool \<times> nat" where
  "vq_send_loop [] hdr data8 data8_size = ([], [], True, False, 0)"
| "vq_send_loop (e_size # es) hdr data8 data8_size =
     (if e_size < sizeof_hdr then
        (if data8_size = 0 then (es, [UsedEmpty], False, True, 0)
         else (case vq_send_loop es hdr data8 data8_size of
                 (es', used, full, _, sent) \<Rightarrow> (es', UsedEmpty # used, full, True, sent)))
      else
        (let chunk_size = min data8_size (e_size - sizeof_hdr);
             u = UsedPacket (hdr\<lparr>h_len := of_nat chunk_size\<rparr>) (take chunk_size data8)
         in if data8_size - chunk_size = 0 then (es, [u], False, True, chunk_size)
            else (case vq_send_loop es hdr (drop chunk_size data8) (data8_size - chunk_size) of
                    (es', used, full, _, sent) \<Rightarrow> (es', u # used, full, True, chunk_size + sent))))"

definition virtio_vsock_send_packet_host_to_guest ::
  "guest_vq \<Rightarrow> vsock_hdr \<Rightarrow> bytes \<Rightarrow> u32 \<times> guest_vq" where
  "virtio_vsock_send_packet_host_to_guest q hdr data =
     (let hdr' = hdr\<lparr>h_src_cid := VMADDR_CID_HOST, h_dst_cid := guest_cid q, h_type := TYPE_STREAM,
                     h_flags := (if h_op hdr = OP_SHUTDOWN then SHUTDOWN_RCV OR SHUTDOWN_SEND else 0)\<rparr>
      in case vq_send_loop (vq_avail q) hdr' data (unat (h_len hdr)) of
           (avail, used, full, notify, sent) \<Rightarrow>
             (MakeVirtIOVSockSendResult full notify (of_nat sent),
              q\<lparr>vq_avail := avail, vq_used := vq_used q @ used\<rparr>))"

section \<open>Facts on the packed result\<close>

lemma and_1_iff_bit: "(r :: u32) AND 1 \<noteq> 0 \<longleftrightarrow> bit r 0"
  by (simp add: bit_iff_and_push_bit_not_eq_0 [of r 0])

lemma and_2_iff_bit: "(r :: u32) AND 2 \<noteq> 0 \<longleftrightarrow> bit r 1"
  using bit_iff_and_push_bit_not_eq_0 [of r 1] by simp

lemma send_result_notify [simp]:
  "VirtIOVSockSendNeedNotify (MakeVirtIOVSockSendResult full notify n) = notify"
  unfolding VirtIOVSockSendNeedNotify_def MakeVirtIOVSockSendResult_def and_1_iff_bit
  by (simp add: bit_simps del: push_bit_Suc)

lemma send_result_full [simp]:
  "VirtIOVSockSendIsVqFull (MakeVirtIOVSockSendResult full notify n) = full"
  unfolding VirtIOVSockSendIsVqFull_def MakeVirtIOVSockSendResult_def and_2_iff_bit
  by (simp add: bit_simps del: push_bit_Suc)

lemma send_result_size:
  "unat (VirtIOVSockSentSize (MakeVirtIOVSockSendResult full notify n)) = unat n mod 2 ^ 30"
proof -
  have "VirtIOVSockSentSize (MakeVirtIOVSockSendResult full notify n) = ucast (take_bit 30 n)"
    unfolding VirtIOVSockSentSize_def MakeVirtIOVSockSendResult_def
    by (rule bit_word_eqI) (auto simp: bit_simps simp del: push_bit_Suc)
  moreover have "unat (ucast (take_bit 30 n) :: u32) = take_bit 30 (unat n)"
    by (simp add: unsigned_ucast_eq unsigned_take_bit_eq flip: take_bit_eq_mod)
  moreover have "take_bit 30 (unat n) = unat n mod 2 ^ 30"
    by (rule take_bit_eq_mod)
  ultimately show ?thesis by simp
qed

section \<open>Facts on the loop\<close>

fun used_payload :: "vq_used list \<Rightarrow> bytes" where
  "used_payload [] = []"
| "used_payload (UsedEmpty # us) = used_payload us"
| "used_payload (UsedPacket h d # us) = d @ used_payload us"

lemma vq_send_loop_facts:
  assumes "vq_send_loop es hdr data n = (es', used, full, notify, sent)" and "n \<le> length data"
  shows "sent \<le> n \<and> used_payload used = take sent data \<and> (\<not> full \<longrightarrow> sent = n) \<and>
    length es' \<le> length es \<and> (\<not> full \<longrightarrow> length es' < length es) \<and> (full \<longrightarrow> es' = [])"
  using assms
proof (induction es hdr data n arbitrary: es' used full notify sent rule: vq_send_loop.induct)
  case (1 hdr data n)
  then show ?case by simp
next
  case (2 e es hdr data n)
  let ?c = "min n (e - sizeof_hdr)"
  show ?case
  proof (cases "e < sizeof_hdr")
    case small: True
    show ?thesis
    proof (cases "n = 0")
      case True
      with small "2.prems" show ?thesis by auto
    next
      case False
      obtain es1 used1 full1 notify1 sent1
        where rec: "vq_send_loop es hdr data n = (es1, used1, full1, notify1, sent1)"
        by (cases "vq_send_loop es hdr data n")
      with False small "2.prems"
      have "es' = es1" "used = UsedEmpty # used1" "full = full1" "sent = sent1"
        by auto
      then show ?thesis
        using "2.IH"(1) [OF small False rec "2.prems"(2)] by auto
    qed
  next
    case large: False
    show ?thesis
    proof (cases "n - ?c = 0")
      case True
      with large "2.prems" show ?thesis by (auto simp: Let_def)
    next
      case False
      obtain es1 used1 full1 notify1 sent1
        where rec: "vq_send_loop es hdr (drop ?c data) (n - ?c) = (es1, used1, full1, notify1, sent1)"
        by (cases "vq_send_loop es hdr (drop ?c data) (n - ?c)")
      with False large "2.prems"
      have eqs: "es' = es1" "used = UsedPacket (hdr\<lparr>h_len := of_nat ?c\<rparr>) (take ?c data) # used1"
        "full = full1" "sent = ?c + sent1"
        by (auto simp: Let_def)
      have "n - ?c \<le> length (drop ?c data)" using "2.prems"(2) by simp
      from "2.IH"(2) [OF large refl refl False rec this] eqs show ?thesis
        by (auto simp: take_add)
    qed
  qed
qed

text \<open>The payload of one stream, named by its guest and host port.\<close>

definition hdr_of_stream :: "u32 \<times> u32 \<Rightarrow> vsock_hdr \<Rightarrow> bool" where
  "hdr_of_stream k h \<longleftrightarrow> h_op h = OP_RW \<and> k = (h_dst_port h, h_src_port h)"

fun used_for :: "u32 \<times> u32 \<Rightarrow> vq_used list \<Rightarrow> bytes" where
  "used_for k [] = []"
| "used_for k (UsedEmpty # us) = used_for k us"
| "used_for k (UsedPacket h d # us) = (if hdr_of_stream k h then d else []) @ used_for k us"

lemma used_for_append [simp]: "used_for k (us @ vs) = used_for k us @ used_for k vs"
  by (induction k us rule: used_for.induct) auto

lemma vq_send_loop_used_for:
  "vq_send_loop es hdr data n = (es', used, full, notify, sent) \<Longrightarrow>
   used_for k used = (if hdr_of_stream k hdr then used_payload used else [])"
  by (induction es hdr data n arbitrary: es' used full notify sent rule: vq_send_loop.induct)
    (auto simp: hdr_of_stream_def Let_def split: if_splits prod.splits)

section \<open>The contract of a transport\<close>

text \<open>
  What the device relies on when it sends: the queue reports at most the bytes asked for, a send
  that is not stopped by a full queue sends everything and uses up room, one that is stopped leaves
  no room, and what a stream has
  received grows by exactly the bytes reported as sent.
\<close>

type_synonym 'q send_fn = "'q \<Rightarrow> vsock_hdr \<Rightarrow> bytes \<Rightarrow> u32 \<times> 'q"

locale packet_transport =
  fixes send :: "'q send_fn"
    and room :: "'q \<Rightarrow> nat"
    and delivered :: "'q \<Rightarrow> u32 \<times> u32 \<Rightarrow> bytes"
  assumes sent_le: "unat (h_len h) \<le> length d \<Longrightarrow> send q h d = (r, q') \<Longrightarrow>
      unat (VirtIOVSockSentSize r) \<le> unat (h_len h)"
    and sent_all: "unat (h_len h) \<le> length d \<Longrightarrow> unat (h_len h) < 2 ^ 30 \<Longrightarrow>
      send q h d = (r, q') \<Longrightarrow> \<not> VirtIOVSockSendIsVqFull r \<Longrightarrow> VirtIOVSockSentSize r = h_len h"
    and room_decreases: "unat (h_len h) \<le> length d \<Longrightarrow> send q h d = (r, q') \<Longrightarrow>
      \<not> VirtIOVSockSendIsVqFull r \<Longrightarrow> room q' < room q"
    and full_room: "unat (h_len h) \<le> length d \<Longrightarrow> send q h d = (r, q') \<Longrightarrow>
      VirtIOVSockSendIsVqFull r \<Longrightarrow> room q' = 0"
    and delivered_send: "unat (h_len h) \<le> length d \<Longrightarrow> unat (h_len h) < 2 ^ 30 \<Longrightarrow>
      send q h d = (r, q') \<Longrightarrow> delivered q' k =
        delivered q k @ (if hdr_of_stream k h then take (unat (VirtIOVSockSentSize r)) d else [])"
begin

lemma delivered_control:
  assumes "h_len h = 0" and "send q h [] = (r, q')"
  shows "delivered q' k = delivered q k"
  using delivered_send [of h "[]" q r q' k] assms by simp

end

lemma send_packet_cases:
  assumes "virtio_vsock_send_packet_host_to_guest q h d = (r, q')"
  obtains hdr avail used full notify sent
  where "vq_send_loop (vq_avail q) hdr d (unat (h_len h)) = (avail, used, full, notify, sent)"
    and "h_src_port hdr = h_src_port h" and "h_dst_port hdr = h_dst_port h" and "h_op hdr = h_op h"
    and "r = MakeVirtIOVSockSendResult full notify (of_nat sent)"
    and "q' = q\<lparr>vq_avail := avail, vq_used := vq_used q @ used\<rparr>"
  using assms unfolding virtio_vsock_send_packet_host_to_guest_def Let_def
  by (fastforce split: prod.splits)

lemma sent_size_le:
  assumes "sent \<le> unat (n :: u32)"
  shows "unat (VirtIOVSockSentSize (MakeVirtIOVSockSendResult full notify (of_nat sent))) = sent mod 2 ^ 30"
proof -
  have "sent < 2 ^ 64" using assms unsigned_less [of n, where 'a = nat] by simp
  then show ?thesis by (simp add: send_result_size unat_of_nat take_bit_nat_eq_self)
qed

interpretation guest: packet_transport virtio_vsock_send_packet_host_to_guest
  "\<lambda>q. length (vq_avail q)" "\<lambda>q k. used_for k (vq_used q)"
proof
  fix h d q r q'
  assume len: "unat (h_len h) \<le> length d"
    and send: "virtio_vsock_send_packet_host_to_guest q h d = (r, q')"
  obtain hdr avail used full notify sent
    where lp: "vq_send_loop (vq_avail q) hdr d (unat (h_len h)) = (avail, used, full, notify, sent)"
      and hdr: "h_src_port hdr = h_src_port h" "h_dst_port hdr = h_dst_port h" "h_op hdr = h_op h"
      and r: "r = MakeVirtIOVSockSendResult full notify (of_nat sent)"
      and q': "q' = q\<lparr>vq_avail := avail, vq_used := vq_used q @ used\<rparr>"
    by (rule send_packet_cases [OF send])
  note f = vq_send_loop_facts [OF lp len]
  then have sz: "unat (VirtIOVSockSentSize r) = sent mod 2 ^ 30"
    unfolding r by (intro sent_size_le [of _ "h_len h"]) simp
  then show "unat (VirtIOVSockSentSize r) \<le> unat (h_len h)"
    using f mod_less_eq_dividend [of sent "2 ^ 30"] by linarith
  show "VirtIOVSockSentSize r = h_len h"
    if "unat (h_len h) < 2 ^ 30" "\<not> VirtIOVSockSendIsVqFull r"
    using that f sz r by (intro word_unat_eq_iff [THEN iffD2]) simp
  show "length (vq_avail q') < length (vq_avail q)" if "\<not> VirtIOVSockSendIsVqFull r"
    using that f r q' by simp
  show "length (vq_avail q') = 0" if "VirtIOVSockSendIsVqFull r"
    using that f r q' by simp
  show "used_for k (vq_used q') = used_for k (vq_used q) @
      (if hdr_of_stream k h then take (unat (VirtIOVSockSentSize r)) d else [])"
    if "unat (h_len h) < 2 ^ 30" for k
    using that f sz q' hdr vq_send_loop_used_for [OF lp, of k] by (simp add: hdr_of_stream_def)
qed

section \<open>Properties\<close>

text \<open>
  C33: a send into the guest's receive queue delivers a prefix of the payload, cut into buffers, in
  order and without loss or repetition; the result reports the length of that prefix, and unless
  the queue ran out of buffers the prefix is the whole payload.
\<close>

theorem send_packet_delivers_prefix:
  assumes "virtio_vsock_send_packet_host_to_guest q h d = (r, q')"
    and "unat (h_len h) \<le> length d" and "unat (h_len h) < 2 ^ 30"
  shows "\<exists>used. vq_used q' = vq_used q @ used \<and>
      used_payload used = take (unat (VirtIOVSockSentSize r)) (take (unat (h_len h)) d) \<and>
      (\<not> VirtIOVSockSendIsVqFull r \<longrightarrow> used_payload used = take (unat (h_len h)) d)"
proof -
  obtain hdr avail used full notify sent
    where lp: "vq_send_loop (vq_avail q) hdr d (unat (h_len h)) = (avail, used, full, notify, sent)"
      and r: "r = MakeVirtIOVSockSendResult full notify (of_nat sent)"
      and q': "q' = q\<lparr>vq_avail := avail, vq_used := vq_used q @ used\<rparr>"
    by (rule send_packet_cases [OF assms(1)])
  note f = vq_send_loop_facts [OF lp assms(2)]
  then have "unat (VirtIOVSockSentSize r) = sent mod 2 ^ 30"
    unfolding r by (intro sent_size_le [of _ "h_len h"]) simp
  with f assms(3) have "unat (VirtIOVSockSentSize r) = sent" by simp
  with f r q' show ?thesis by (auto simp: min_def)
qed

theorem send_packet_delivers_prefix_witness:
  "\<exists>used. vq_used (snd (virtio_vsock_send_packet_host_to_guest
        \<lparr>guest_cid = 3, vq_avail = [46, 45], vq_used = []\<rparr>
        \<lparr>h_src_cid = 0, h_dst_cid = 0, h_src_port = 1, h_dst_port = 2, h_len = 3, h_type = 0,
         h_op = OP_RW, h_flags = 0, h_buf_alloc = 0, h_fwd_cnt = 0\<rparr> [10, 20, 30])) = [] @ used \<and>
      used_payload used = [10, 20, 30]"
proof -
  let ?q = "\<lparr>guest_cid = 3, vq_avail = [46, 45], vq_used = []\<rparr>"
  let ?h = "\<lparr>h_src_cid = 0, h_dst_cid = 0, h_src_port = 1, h_dst_port = 2, h_len = 3, h_type = 0,
         h_op = OP_RW, h_flags = 0, h_buf_alloc = 0, h_fwd_cnt = 0\<rparr>"
  have c: "virtio_vsock_send_packet_host_to_guest ?q ?h [10, 20, 30] =
      (fst (virtio_vsock_send_packet_host_to_guest ?q ?h [10, 20, 30]),
       snd (virtio_vsock_send_packet_host_to_guest ?q ?h [10, 20, 30]))" by simp
  have f: "\<not> VirtIOVSockSendIsVqFull (fst (virtio_vsock_send_packet_host_to_guest ?q ?h [10, 20, 30]))"
    by (simp add: virtio_vsock_send_packet_host_to_guest_def)
  have l: "unat (h_len ?h) \<le> length [10 :: u8, 20, 30]" "unat (h_len ?h) < 2 ^ 30" by simp_all
  from send_packet_delivers_prefix [OF c l] f obtain used
    where "vq_used (snd (virtio_vsock_send_packet_host_to_guest ?q ?h [10, 20, 30])) = vq_used ?q @ used"
      and "used_payload used = take (unat (h_len ?h)) [10, 20, 30]" by blast
  then show ?thesis by (intro exI [of _ used]) simp
qed

text \<open>
  a packet without payload (every control packet) is lost when the guest's next buffer cannot
  hold a header: nothing is written, yet the caller is told that the queue was not full, which it
  takes for a delivery.
\<close>

theorem control_packet_lost_on_small_buffer:
  assumes "vq_avail q = e # es" and "e < sizeof_hdr" and "h_len h = 0"
  shows "\<exists>r q'. virtio_vsock_send_packet_host_to_guest q h [] = (r, q') \<and>
      \<not> VirtIOVSockSendIsVqFull r \<and> vq_used q' = vq_used q @ [UsedEmpty]"
  using assms by (simp add: virtio_vsock_send_packet_host_to_guest_def Let_def)

theorem control_packet_lost_on_small_buffer_witness:
  "\<exists>r q'. virtio_vsock_send_packet_host_to_guest
        \<lparr>guest_cid = 3, vq_avail = [20, 4096], vq_used = []\<rparr>
        \<lparr>h_src_cid = 0, h_dst_cid = 0, h_src_port = 1, h_dst_port = 2, h_len = 0, h_type = 0,
         h_op = OP_RST, h_flags = 0, h_buf_alloc = 0, h_fwd_cnt = 0\<rparr> [] = (r, q') \<and>
      \<not> VirtIOVSockSendIsVqFull r \<and> vq_used q' = [UsedEmpty]"
  using control_packet_lost_on_small_buffer
    [of "\<lparr>guest_cid = 3, vq_avail = [20, 4096], vq_used = []\<rparr>" 20 "[4096]"
      "\<lparr>h_src_cid = 0, h_dst_cid = 0, h_src_port = 1, h_dst_port = 2, h_len = 0, h_type = 0,
         h_op = OP_RST, h_flags = 0, h_buf_alloc = 0, h_fwd_cnt = 0\<rparr>"] by simp

end
