(* ===== verification/Vsock_Device.thy ===== *)
theory Vsock_Device
  imports Cable Id_Allocator Vsock_Transport
    "HOL-Library.Product_Lexorder" "HOL-Library.Monad_Syntax"
begin

text \<open>
  The goldfish virtio vsock device (\<^verbatim>\<open>GoldfishVirtioVsockDevice\<close> of
  \<^verbatim>\<open>plugin/vsock_goldfish/vsock.cpp\<close>).  Every operation runs under \<^verbatim>\<open>mStateMutex\<close> and is one
  function on the device's state; \<^const>\<open>None\<close> is a call that does not come back, by a failed
  assertion, a dangling reference or a loop that never ends.  The parameters of the operations are
  the plugs' methods \<open>P\<close> and the transport's \<open>S\<close>, the function pointer
  \<^verbatim>\<open>sendPacketHostToGuest\<close>.
\<close>

section \<open>State\<close>

definition kDynamicPortsStart :: u32 where
  "kDynamicPortsStart = push_bit 31 1"

text \<open>What a data sniffer was shown.\<close>

datatype sniffed = ToSocket bytes | ToPlug bytes

record 'p vsock_stream =
  guestPort :: u32
  hostPort :: u32
  plug :: "'p option"
  dataSniffer :: "sniffed list option"
  hostToGuestBuf :: socket_buffer
  guestBufAlloc :: u32
  guestFwdCnt :: u32
  hostSentCnt :: u32
  hostFwdCnt :: u32
  sendOpMask :: u8
  isConnected :: bool

type_synonym stream_key = "u32 \<times> u32"

definition stream_key :: "'p vsock_stream \<Rightarrow> stream_key" where
  "stream_key s = (guestPort s, hostPort s)"

definition new_stream :: "u32 \<Rightarrow> u32 \<Rightarrow> 'p vsock_stream" where
  "new_stream guest host =
     \<lparr>guestPort = guest, hostPort = host, plug = None, dataSniffer = None,
      hostToGuestBuf = empty_buffer, guestBufAlloc = 0, guestFwdCnt = 0, hostSentCnt = 0,
      hostFwdCnt = 0, sendOpMask = 0, isConnected = False\<rparr>"

text \<open>
  A listener is asked with the key of the new stream; it answers with a plug, or with
  \<^const>\<open>None\<close> when it returns the socket.
\<close>

type_synonym 'p host_port_listener = "stream_key \<Rightarrow> 'p option"

text \<open>
  \<^verbatim>\<open>mStreams\<close> is a \<^verbatim>\<open>std::set\<close> ordered by the ports; it is the list of its elements in
  iteration order.  \<open>notified\<close> counts the calls of \<^verbatim>\<open>haveHostToGuestPackets\<close> and \<open>unplugged\<close>
  records the plugs whose \<^verbatim>\<open>onUnplug\<close> was called, oldest first.
\<close>

record ('p, 'q) vsock_device =
  mQemuDev :: "'q option"
  mHostPortListeners :: "u32 \<Rightarrow> 'p host_port_listener option"
  mSrcPortAllocator :: id_allocator
  mOrphanPackets :: "vsock_hdr list"
  mHostEvents :: "u32 list"
  mStreams :: "'p vsock_stream list"
  notified :: nat
  unplugged :: "'p list"

definition empty_device :: "('p, 'q) vsock_device" where
  "empty_device =
     \<lparr>mQemuDev = None, mHostPortListeners = (\<lambda>_. None), mSrcPortAllocator = empty_allocator,
      mOrphanPackets = [], mHostEvents = [], mStreams = [], notified = 0, unplugged = []\<rparr>"

section \<open>The set of streams\<close>

definition find_stream :: "stream_key \<Rightarrow> 'p vsock_stream list \<Rightarrow> 'p vsock_stream option" where
  "find_stream k ss = List.find (\<lambda>s. stream_key s = k) ss"

fun insert_stream :: "'p vsock_stream \<Rightarrow> 'p vsock_stream list \<Rightarrow> 'p vsock_stream list" where
  "insert_stream s [] = [s]"
| "insert_stream s (t # ts) =
     (if stream_key s < stream_key t then s # t # ts else t # insert_stream s ts)"

definition erase_stream :: "stream_key \<Rightarrow> ('p, 'q) vsock_device \<Rightarrow> ('p, 'q) vsock_device" where
  "erase_stream k d = d\<lparr>mStreams := filter (\<lambda>s. stream_key s \<noteq> k) (mStreams d)\<rparr>"

definition update_stream ::
  "stream_key \<Rightarrow> ('p vsock_stream \<Rightarrow> 'p vsock_stream) \<Rightarrow> ('p, 'q) vsock_device \<Rightarrow> ('p, 'q) vsock_device" where
  "update_stream k f d = d\<lparr>mStreams := map (\<lambda>s. if stream_key s = k then f s else s) (mStreams d)\<rparr>"

definition sendOp :: "u16 \<Rightarrow> 'p vsock_stream \<Rightarrow> 'p vsock_stream" where
  "sendOp oper s = s\<lparr>sendOpMask := sendOpMask s OR push_bit (unat oper) 1\<rparr>"

section \<open>Packets\<close>

definition kHostBufAllocSize :: u32 where
  "kHostBufAllocSize = 64 * 1024"

definition preparePacketHeader :: "u32 \<Rightarrow> u32 \<Rightarrow> u16 \<Rightarrow> u32 \<Rightarrow> u32 \<Rightarrow> vsock_hdr" where
  "preparePacketHeader srcPort dstPort oper fwdCnt n =
     \<lparr>h_src_cid = 0, h_dst_cid = 0, h_src_port = srcPort, h_dst_port = dstPort, h_len = n,
      h_type = 0, h_op = oper, h_flags = 0, h_buf_alloc = kHostBufAllocSize, h_fwd_cnt = fwdCnt\<rparr>"

definition prepareStreamHeader :: "'p vsock_stream \<Rightarrow> u16 \<Rightarrow> u32 \<Rightarrow> vsock_hdr" where
  "prepareStreamHeader s oper n = preparePacketHeader (hostPort s) (guestPort s) oper (hostFwdCnt s) n"

definition queueOrphanPacket :: "vsock_hdr \<Rightarrow> ('p, 'q) vsock_device \<Rightarrow> ('p, 'q) vsock_device" where
  "queueOrphanPacket hdr d = d\<lparr>mOrphanPackets := mOrphanPackets d @ [hdr]\<rparr>"

definition queueOrphanReply :: "vsock_hdr \<Rightarrow> u16 \<Rightarrow> ('p, 'q) vsock_device \<Rightarrow> ('p, 'q) vsock_device" where
  "queueOrphanReply request oper d =
     queueOrphanPacket (preparePacketHeader (h_dst_port request) (h_src_port request) oper 0 0) d"

section \<open>Sending\<close>

text \<open>
  The results of the sending loops: what they were changing, the transport, whether the guest is to
  be notified and whether the queue was full, which ends the whole operation.
\<close>

fun send_orphans :: "'q send_fn \<Rightarrow> 'q \<Rightarrow> vsock_hdr list \<Rightarrow> bool \<Rightarrow> vsock_hdr list \<times> 'q \<times> bool \<times> bool" where
  "send_orphans S q [] needNotify = ([], q, needNotify, False)"
| "send_orphans S q (h # hs) needNotify =
     (let (r, q') = S q h [];
          needNotify' = (needNotify \<or> VirtIOVSockSendNeedNotify r)
      in if VirtIOVSockSendIsVqFull r then (h # hs, q', needNotify', True)
         else send_orphans S q' hs needNotify')"

text \<open>The control packets of one stream; \<open>opMask\<close> is the local \<^verbatim>\<open>sendOpMask\<close>.\<close>

fun send_ops ::
  "'q send_fn \<Rightarrow> 'p vsock_stream \<Rightarrow> 'q \<Rightarrow> u16 list \<Rightarrow> u32 \<Rightarrow> bool \<Rightarrow> u32 \<times> 'q \<times> bool \<times> bool" where
  "send_ops S s q [] opMask needNotify = (opMask, q, needNotify, False)"
| "send_ops S s q (oper # ops) opMask needNotify =
     (if opMask AND push_bit (unat oper) 1 \<noteq> 0 then
        (let (r, q') = S q (prepareStreamHeader s oper 0) [];
             needNotify' = (needNotify \<or> VirtIOVSockSendNeedNotify r)
         in if VirtIOVSockSendIsVqFull r then (opMask, q', needNotify', True)
            else send_ops S s q' ops (opMask AND NOT (push_bit (unat oper) 1)) needNotify')
      else send_ops S s q ops opMask needNotify)"

definition stream_ops :: "u16 list" where
  "stream_ops = [OP_REQUEST, OP_RESPONSE, OP_CREDIT_UPDATE, OP_CREDIT_REQUEST]"

text \<open>
  The \<^verbatim>\<open>while (guestAvailSize > 0)\<close> loop.  It goes round for as long as the transport accepts
  packets, so whether it ends depends on the transport.
\<close>

partial_function (option) send_data ::
  "'q send_fn \<Rightarrow> 'q \<Rightarrow> 'p vsock_stream \<Rightarrow> u64 \<Rightarrow> bool \<Rightarrow> ('p vsock_stream \<times> 'q \<times> bool \<times> bool) option" where
  "send_data S q s guestAvailSize needNotify =
     (if guestAvailSize > 0 then
        (case buf_peek (hostToGuestBuf s) of
           None \<Rightarrow> None
         | Some data \<Rightarrow>
             if length data = 0 then Some (s, q, needNotify, False)
             else
               (let sendSize = min (of_nat (length data)) guestAvailSize;
                    (r, q') = S q (prepareStreamHeader s OP_RW (ucast sendSize)) data;
                    sentSize = VirtIOVSockSentSize r
                in case buf_consume (unat sentSize) (hostToGuestBuf s) of
                     None \<Rightarrow> None
                   | Some b \<Rightarrow>
                       (let s' = s\<lparr>hostToGuestBuf := b, hostSentCnt := hostSentCnt s + sentSize\<rparr>;
                            needNotify' = (needNotify \<or> VirtIOVSockSendNeedNotify r)
                        in if VirtIOVSockSendIsVqFull r then Some (s', q', needNotify', True)
                           else send_data S q' s' (guestAvailSize - ucast sentSize) needNotify')))
      else Some (s, q, needNotify, False))"

declare send_data.simps [code]

definition guest_avail :: "'p vsock_stream \<Rightarrow> u32" where
  "guest_avail s = guestBufAlloc s - (hostSentCnt s - guestFwdCnt s)"

definition send_stream ::
  "'q send_fn \<Rightarrow> 'q \<Rightarrow> 'p vsock_stream \<Rightarrow> bool \<Rightarrow> ('p vsock_stream \<times> 'q \<times> bool \<times> bool) option" where
  "send_stream S q s needNotify =
     (let guestAvailSize = ucast (guest_avail s) :: u64;
          opMask = ucast (sendOpMask s) OR
            (if guestAvailSize = 0 then push_bit (unat OP_CREDIT_REQUEST) 1 else 0) :: u32
      in if opMask \<noteq> 0 then
           (case send_ops S s q stream_ops opMask needNotify of
              (opMask', q', needNotify', full) \<Rightarrow>
                if full then Some (s\<lparr>sendOpMask := ucast opMask'\<rparr>, q', needNotify', True)
                else send_data S q' (s\<lparr>sendOpMask := 0\<rparr>) guestAvailSize needNotify')
         else send_data S q s guestAvailSize needNotify)"

fun send_streams ::
  "'q send_fn \<Rightarrow> 'q \<Rightarrow> 'p vsock_stream list \<Rightarrow> bool \<Rightarrow> ('p vsock_stream list \<times> 'q \<times> bool) option" where
  "send_streams S q [] needNotify = Some ([], q, needNotify)"
| "send_streams S q (s # ss) needNotify =
     (case send_stream S q s needNotify of
        None \<Rightarrow> None
      | Some (s', q', needNotify', full) \<Rightarrow>
          if full then Some (s' # ss, q', needNotify')
          else map_option (\<lambda>(ss', q'', needNotify''). (s' # ss', q'', needNotify''))
                 (send_streams S q' ss needNotify'))"

definition sendPacketsLocked ::
  "'q send_fn \<Rightarrow> ('p, 'q) vsock_device \<Rightarrow> (bool \<times> ('p, 'q) vsock_device) option" where
  "sendPacketsLocked S d =
     (case mQemuDev d of
        None \<Rightarrow> None
      | Some q \<Rightarrow>
          (case send_orphans S q (mOrphanPackets d) False of
             (orphans, q1, needNotify, full) \<Rightarrow>
               let d1 = d\<lparr>mOrphanPackets := orphans, mQemuDev := Some q1\<rparr>
               in if full then Some (needNotify, d1)
                  else map_option
                         (\<lambda>(ss, q2, needNotify'). (needNotify', d1\<lparr>mStreams := ss, mQemuDev := Some q2\<rparr>))
                         (send_streams S q1 (mStreams d1) needNotify)))"

definition sendPacketsAndNotifyLocked ::
  "'q send_fn \<Rightarrow> ('p, 'q) vsock_device \<Rightarrow> ('p, 'q) vsock_device option" where
  "sendPacketsAndNotifyLocked S d =
     map_option (\<lambda>(needNotify, d'). if needNotify then d'\<lparr>notified := notified d' + 1\<rparr> else d')
       (sendPacketsLocked S d)"

section \<open>What sockets do for their plugs\<close>

definition sendAsyncImpl ::
  "'q send_fn \<Rightarrow> stream_key \<Rightarrow> bytes \<Rightarrow> ('p, 'q) vsock_device \<Rightarrow> ('p, 'q) vsock_device option" where
  "sendAsyncImpl S k data d =
     (case find_stream k (mStreams d) of
        None \<Rightarrow> None
      | Some s \<Rightarrow>
          if isConnected s then
            sendPacketsAndNotifyLocked S
              (update_stream k
                 (\<lambda>s. s\<lparr>dataSniffer := map_option (\<lambda>l. l @ [ToSocket data]) (dataSniffer s),
                        hostToGuestBuf := buf_append (hostToGuestBuf s) data\<rparr>) d)
          else Some d)"

definition switchPlug :: "stream_key \<Rightarrow> 'p \<Rightarrow> ('p, 'q) vsock_device \<Rightarrow> ('p, 'q) vsock_device" where
  "switchPlug k newPlug d = update_stream k (\<lambda>s. s\<lparr>plug := Some newPlug\<rparr>) d"

definition setDataSniffer :: "stream_key \<Rightarrow> sniffed list option \<Rightarrow> ('p, 'q) vsock_device \<Rightarrow> ('p, 'q) vsock_device" where
  "setDataSniffer k sniffer d = update_stream k (\<lambda>s. s\<lparr>dataSniffer := sniffer\<rparr>) d"

fun socket_calls ::
  "'q send_fn \<Rightarrow> stream_key \<Rightarrow> 'p socket_call list \<Rightarrow> ('p, 'q) vsock_device \<Rightarrow> ('p, 'q) vsock_device option" where
  "socket_calls S k [] d = Some d"
| "socket_calls S k (SendAsync data # cs) d =
     Option.bind (sendAsyncImpl S k data d) (socket_calls S k cs)"
| "socket_calls S k (SwitchPlug p # cs) d = socket_calls S k cs (switchPlug k p d)"

text \<open>
  Calling a plug's method: the plug of the stream is replaced by its new state, then the calls it
  made on its socket take effect.
\<close>

definition callOnConnect ::
  "'p plug_ops \<Rightarrow> 'q send_fn \<Rightarrow> stream_key \<Rightarrow> ('p, 'q) vsock_device \<Rightarrow> ('p, 'q) vsock_device option" where
  "callOnConnect P S k d =
     do {
       s \<leftarrow> find_stream k (mStreams d);
       p \<leftarrow> plug s;
       let (p', cs) = onConnect P p;
       socket_calls S k cs (switchPlug k p' d)
     }"

section \<open>Opening and closing streams\<close>

definition listen ::
  "u32 \<Rightarrow> 'p host_port_listener \<Rightarrow> ('p, 'q) vsock_device \<Rightarrow> bool \<times> ('p, 'q) vsock_device" where
  "listen port l d =
     (case mHostPortListeners d port of
        None \<Rightarrow> (True, d\<lparr>mHostPortListeners := (mHostPortListeners d)(port \<mapsto> l)\<rparr>)
      | Some _ \<Rightarrow> (False, d))"

definition realize :: "'q \<Rightarrow> ('p, 'q) vsock_device \<Rightarrow> ('p, 'q) vsock_device" where
  "realize q d = d\<lparr>mQemuDev := Some q\<rparr>"

definition connect ::
  "'q send_fn \<Rightarrow> u32 \<Rightarrow> 'p \<Rightarrow> ('p, 'q) vsock_device \<Rightarrow> (stream_key \<times> ('p, 'q) vsock_device) option" where
  "connect S guest p d =
     (let (i, a) = alloc_get (mSrcPortAllocator d);
          host = i + kDynamicPortsStart;
          d1 = d\<lparr>mSrcPortAllocator := a\<rparr>;
          k = (guest, host)
      in case find_stream k (mStreams d1) of
           Some _ \<Rightarrow> None
         | None \<Rightarrow>
             (let s = sendOp OP_REQUEST ((new_stream guest host)\<lparr>plug := Some p\<rparr>)
              in map_option (\<lambda>d'. (k, d'))
                   (sendPacketsAndNotifyLocked S (d1\<lparr>mStreams := insert_stream s (mStreams d1)\<rparr>))))"

definition recycleStreamLocked ::
  "'p plug_ops \<Rightarrow> 'p vsock_stream \<Rightarrow> bool \<Rightarrow> u16 \<Rightarrow> ('p, 'q) vsock_device \<Rightarrow> ('p, 'q) vsock_device option" where
  "recycleStreamLocked P s callOnUnplug oper d =
     do {
       d1 \<leftarrow> (if callOnUnplug
              then map_option (\<lambda>p. d\<lparr>unplugged := unplugged d @ [onUnplug P p]\<rparr>) (plug s)
              else Some d);
       let d2 = (if oper \<noteq> OP_INVALID then queueOrphanPacket (prepareStreamHeader s oper 0) d1 else d1);
       if hostPort s \<ge> kDynamicPortsStart
       then map_option (\<lambda>a. d2\<lparr>mSrcPortAllocator := a\<rparr>)
              (alloc_put (hostPort s - kDynamicPortsStart) (mSrcPortAllocator d2))
       else Some d2
     }"

text \<open>The plug hangs up: \<^verbatim>\<open>VsockStream::unplugImpl\<close>, which gives the plug back to its caller.\<close>

definition unplugFromDevice ::
  "'p plug_ops \<Rightarrow> 'q send_fn \<Rightarrow> 'p vsock_stream \<Rightarrow> ('p, 'q) vsock_device \<Rightarrow> ('p, 'q) vsock_device option" where
  "unplugFromDevice P S s d =
     Option.bind (recycleStreamLocked P s False OP_SHUTDOWN d)
       (\<lambda>d1. sendPacketsAndNotifyLocked S (erase_stream (stream_key s) d1))"

definition unplugImpl ::
  "'p plug_ops \<Rightarrow> 'q send_fn \<Rightarrow> stream_key \<Rightarrow> ('p, 'q) vsock_device \<Rightarrow> ('p \<times> ('p, 'q) vsock_device) option" where
  "unplugImpl P S k d =
     do {
       s \<leftarrow> find_stream k (mStreams d);
       p \<leftarrow> plug s;
       d' \<leftarrow> unplugFromDevice P S (s\<lparr>plug := None\<rparr>) d;
       Some (p, d')
     }"

section \<open>Packets from the guest\<close>

definition processPacketOpRequestLocked ::
  "'p plug_ops \<Rightarrow> 'q send_fn \<Rightarrow> vsock_hdr \<Rightarrow> ('p, 'q) vsock_device \<Rightarrow> (bool \<times> ('p, 'q) vsock_device) option" where
  "processPacketOpRequestLocked P S hdr d =
     (let host = h_dst_port hdr; k = (h_src_port hdr, host)
      in case mHostPortListeners d host of
           None \<Rightarrow> Some (False, d)
         | Some l \<Rightarrow>
             (case find_stream k (mStreams d) of
                Some _ \<Rightarrow> Some (True, d)
              | None \<Rightarrow>
                  (case l k of
                     None \<Rightarrow> Some (False, d)
                   | Some p \<Rightarrow>
                       (let s = sendOp OP_RESPONSE
                              ((new_stream (h_src_port hdr) host)
                               \<lparr>plug := Some p, guestBufAlloc := h_buf_alloc hdr,
                                guestFwdCnt := h_fwd_cnt hdr, isConnected := True\<rparr>)
                        in map_option (\<lambda>d'. (True, d'))
                             (callOnConnect P S k
                                (d\<lparr>mStreams := insert_stream s (mStreams d)\<rparr>))))))"

text \<open>A packet carries the guest's view of its receive buffer.\<close>

definition set_guest_credit :: "vsock_hdr \<Rightarrow> 'p vsock_stream \<Rightarrow> 'p vsock_stream" where
  "set_guest_credit hdr s = s\<lparr>guestBufAlloc := h_buf_alloc hdr, guestFwdCnt := h_fwd_cnt hdr\<rparr>"

definition hdr_key :: "vsock_hdr \<Rightarrow> stream_key" where
  "hdr_key hdr = (h_src_port hdr, h_dst_port hdr)"

definition onPacketReceiveControl ::
  "'p plug_ops \<Rightarrow> 'q send_fn \<Rightarrow> vsock_hdr \<Rightarrow> ('p, 'q) vsock_device \<Rightarrow> ('p, 'q) vsock_device option" where
  "onPacketReceiveControl P S hdr d =
     (let k = hdr_key hdr
      in if h_op hdr = OP_REQUEST then
           map_option (\<lambda>(ok, d'). if ok then d' else queueOrphanReply hdr OP_RST d')
             (processPacketOpRequestLocked P S hdr d)
         else
           (case find_stream k (mStreams d) of
              Some s0 \<Rightarrow>
                (let d1 = update_stream k (set_guest_credit hdr) d; s = set_guest_credit hdr s0
                 in if h_op hdr = OP_RESPONSE then
                      callOnConnect P S k (update_stream k (\<lambda>s. s\<lparr>isConnected := True\<rparr>) d1)
                    else if h_op hdr = OP_RST then
                      map_option (erase_stream k) (recycleStreamLocked P s True OP_INVALID d1)
                    else if h_op hdr = OP_SHUTDOWN then
                      map_option (erase_stream k) (recycleStreamLocked P s True OP_SHUTDOWN d1)
                    else if h_op hdr = OP_CREDIT_UPDATE then Some d1
                    else if h_op hdr = OP_CREDIT_REQUEST then
                      Some (update_stream k (sendOp OP_CREDIT_UPDATE) d1)
                    else map_option (erase_stream k) (recycleStreamLocked P s True OP_RST d1))
            | None \<Rightarrow>
                if h_op hdr \<noteq> OP_RST then Some (queueOrphanReply hdr OP_RST d) else Some d))"

definition onPacketReceiveRwStart ::
  "vsock_hdr \<Rightarrow> ('p, 'q) vsock_device \<Rightarrow> (stream_key \<times> ('p, 'q) vsock_device) option" where
  "onPacketReceiveRwStart hdr d =
     (let k = hdr_key hdr
      in case find_stream k (mStreams d) of
           Some _ \<Rightarrow> Some (k, update_stream k (set_guest_credit hdr) d)
         | None \<Rightarrow> None)"

text \<open>The flag of the result is \<^verbatim>\<open>true\<close> when the caller has to close the stream.\<close>

definition onPacketReceiveRw ::
  "'p plug_ops \<Rightarrow> 'q send_fn \<Rightarrow> stream_key \<Rightarrow> bytes \<Rightarrow> ('p, 'q) vsock_device \<Rightarrow> (bool \<times> ('p, 'q) vsock_device) option" where
  "onPacketReceiveRw P S k data d =
     do {
       s \<leftarrow> find_stream k (mStreams d);
       if isConnected s then
         do {
           let d1 = update_stream k (\<lambda>s. s\<lparr>dataSniffer := map_option (\<lambda>l. l @ [ToPlug data]) (dataSniffer s)\<rparr>) d;
           p \<leftarrow> plug s;
           let (ok, p', cs) = onReceive P p data;
           d2 \<leftarrow> socket_calls S k cs (switchPlug k p' d1);
           if ok then
             Some (False, update_stream k
               (\<lambda>s. sendOp OP_CREDIT_UPDATE (s\<lparr>hostFwdCnt := hostFwdCnt s + of_nat (length data)\<rparr>)) d2)
           else Some (True, d2)
         }
       else Some (True, d)
     }"

definition onPacketReceiveRwEnd ::
  "'p plug_ops \<Rightarrow> stream_key \<Rightarrow> bool \<Rightarrow> ('p, 'q) vsock_device \<Rightarrow> ('p, 'q) vsock_device option" where
  "onPacketReceiveRwEnd P k eraseStream d =
     (if eraseStream then
        do {
          s \<leftarrow> find_stream k (mStreams d);
          d1 \<leftarrow> recycleStreamLocked P s True OP_SHUTDOWN d;
          Some (erase_stream k d1)
        }
      else Some d)"

section \<open>Packets with data, as the low level code delivers them\<close>

text \<open>
  The loop of \<^verbatim>\<open>virtio_vsock_parse_guest_to_host\<close> (\<^verbatim>\<open>vsock_low_level.c\<close>) over the I/O vector: it skips
  the header and hands on the pieces of the payload, each as long as its vector element allows.
\<close>

fun iov_chunks :: "bytes list \<Rightarrow> nat \<Rightarrow> nat \<Rightarrow> bytes list" where
  "iov_chunks [] offset n = []"
| "iov_chunks (v # vs) offset n =
     (if n = 0 then []
      else
        (let skip_size = min offset (length v); data_size = min n (length v - skip_size)
         in if data_size > 0
            then take data_size (drop skip_size v) # iov_chunks vs (offset - skip_size) (n - data_size)
            else iov_chunks vs (offset - skip_size) n))"

text \<open>The pieces go to the plug one by one until it refuses one.\<close>

fun receive_chunks ::
  "'p plug_ops \<Rightarrow> 'q send_fn \<Rightarrow> stream_key \<Rightarrow> bytes list \<Rightarrow> ('p, 'q) vsock_device \<Rightarrow> (bool \<times> ('p, 'q) vsock_device) option" where
  "receive_chunks P S k [] d = Some (False, d)"
| "receive_chunks P S k (c # cs) d =
     (case onPacketReceiveRw P S k c d of
        None \<Rightarrow> None
      | Some (True, d') \<Rightarrow> Some (True, d')
      | Some (False, d') \<Rightarrow> receive_chunks P S k cs d')"

text \<open>
  \<open>cid\<close> is the device's \<^verbatim>\<open>guest_cid\<close> and \<open>parse\<close> reads a header off the first bytes of a packet,
  in the layout the guest's driver wrote it.
\<close>

definition virtio_vsock_parse_guest_to_host ::
  "'p plug_ops \<Rightarrow> 'q send_fn \<Rightarrow> (bytes \<Rightarrow> vsock_hdr) \<Rightarrow> u64 \<Rightarrow> bytes list \<Rightarrow> ('p, 'q) vsock_device
     \<Rightarrow> ('p, 'q) vsock_device option" where
  "virtio_vsock_parse_guest_to_host P S parse cid iov d =
     (let packet = concat iov; hdr = parse (take sizeof_hdr packet)
      in if length packet < sizeof_hdr then Some d
         else if length packet < sizeof_hdr + unat (h_len hdr) then Some d
         else if h_type hdr \<noteq> TYPE_STREAM then Some d
         else if h_dst_cid hdr \<noteq> VMADDR_CID_HOST then Some d
         else if h_src_cid hdr \<noteq> cid then Some d
         else if h_op hdr \<noteq> OP_RW then onPacketReceiveControl P S hdr d
         else
           (case onPacketReceiveRwStart hdr d of
              None \<Rightarrow> Some d
            | Some (k, d1) \<Rightarrow>
                do {
                  (erase, d2) \<leftarrow> receive_chunks P S k (iov_chunks iov sizeof_hdr (unat (h_len hdr))) d1;
                  onPacketReceiveRwEnd P k erase d2
                }))"

section \<open>Status\<close>

text \<open>Bit 0x40 is \<^verbatim>\<open>VIRTIO_CONFIG_S_NEEDS_RESET\<close>, bit 0x80 \<^verbatim>\<open>VIRTIO_CONFIG_S_FAILED\<close>.\<close>

definition setStatus :: "'p plug_ops \<Rightarrow> u8 \<Rightarrow> ('p, 'q) vsock_device \<Rightarrow> ('p, 'q) vsock_device option" where
  "setStatus P status d =
     (if status AND 0x80 \<noteq> 0 then None
      else if status AND 0x40 \<noteq> 0 then
        (if \<forall>s \<in> set (mStreams d). plug s \<noteq> None then
           Some (d\<lparr>unplugged := unplugged d @ map (\<lambda>s. onUnplug P (the (plug s))) (mStreams d),
                   mHostEvents := [], mOrphanPackets := [],
                   mSrcPortAllocator := alloc_reset (mSrcPortAllocator d)\<rparr>)
         else None)
      else Some d)"

end
