(* ===== verification/Vsock_Sending.thy ===== *)
theory Vsock_Sending
  imports Vsock_Device
begin

text \<open>
  What the sending loops of the vsock device do to a stream and to the transport: they end, they
  respect the guest's credit, and the bytes leave the stream's buffer in order.  Everything here
  rests on the contract of a transport only.
\<close>

declare split_paired_All [simp del] split_paired_Ex [simp del]

abbreviation pending_of :: "'p vsock_stream \<Rightarrow> bytes" where
  "pending_of s \<equiv> buf_pending (hostToGuestBuf s)"

text \<open>A stream after \<open>m\<close> more bytes of its buffer went to the guest.\<close>

definition stream_moved :: "nat \<Rightarrow> 'p vsock_stream \<Rightarrow> 'p vsock_stream \<Rightarrow> bool" where
  "stream_moved m s s' \<longleftrightarrow> m \<le> length (pending_of s) \<and>
     (\<exists>b om. s' = s\<lparr>hostToGuestBuf := b, hostSentCnt := hostSentCnt s + of_nat m, sendOpMask := om\<rparr> \<and>
        buf_pending b = drop m (pending_of s) \<and> buf_inv b)"

lemma stream_moved_0 [simp]: "stream_moved 0 s s \<longleftrightarrow> buf_inv (hostToGuestBuf s)"
  unfolding stream_moved_def by (cases s) auto

lemma stream_moved_trans:
  assumes "stream_moved m s s1" and "stream_moved n s1 s2"
  shows "stream_moved (m + n) s s2"
proof -
  obtain b om where b: "s1 = s\<lparr>hostToGuestBuf := b, hostSentCnt := hostSentCnt s + of_nat m, sendOpMask := om\<rparr>"
    "buf_pending b = drop m (pending_of s)" "m \<le> length (pending_of s)"
    using assms(1) unfolding stream_moved_def by blast
  obtain b' om' where b': "s2 = s1\<lparr>hostToGuestBuf := b', hostSentCnt := hostSentCnt s1 + of_nat n, sendOpMask := om'\<rparr>"
    "buf_pending b' = drop n (pending_of s1)" "n \<le> length (pending_of s1)" "buf_inv b'"
    using assms(2) unfolding stream_moved_def by blast
  have "s2 = s\<lparr>hostToGuestBuf := b', hostSentCnt := hostSentCnt s + of_nat (m + n), sendOpMask := om'\<rparr>"
    using b b' by (simp add: add.assoc)
  moreover have "buf_pending b' = drop (m + n) (pending_of s)" "m + n \<le> length (pending_of s)"
    using b b' by (simp_all add: add.commute)
  ultimately show ?thesis
    using b'(4) unfolding stream_moved_def by blast
qed

lemma stream_moved_opMask: "stream_moved m (s\<lparr>sendOpMask := om\<rparr>) s' \<Longrightarrow> stream_moved m s s'"
  unfolding stream_moved_def by auto

lemma stream_moved_fields:
  assumes "stream_moved m s s'"
  shows "stream_key s' = stream_key s" and "plug s' = plug s" and "dataSniffer s' = dataSniffer s"
    and "isConnected s' = isConnected s" and "guestBufAlloc s' = guestBufAlloc s"
    and "guestFwdCnt s' = guestFwdCnt s" and "hostFwdCnt s' = hostFwdCnt s"
    and "hostSentCnt s' = hostSentCnt s + of_nat m"
    and "pending_of s' = drop m (pending_of s)" and "m \<le> length (pending_of s)"
    and "buf_inv (hostToGuestBuf s')"
  using assms unfolding stream_moved_def stream_key_def by auto

lemma ucast_u8_u32: "ucast (ucast (x :: u8) :: u32) = x"
  by (rule bit_word_eqI) (simp add: bit_simps)

lemma unat_min_le: "unat (min (of_nat n) a :: u64) \<le> n" "unat (min (of_nat n) a :: u64) \<le> unat a"
proof -
  have "unat (of_nat n :: u64) \<le> n"
    by (simp add: unat_of_nat take_bit_nat_less_eq_self)
  then show "unat (min (of_nat n) a :: u64) \<le> n"
    by (simp add: min_def word_le_nat_alt split: if_splits)
  show "unat (min (of_nat n) a :: u64) \<le> unat a"
    by (simp add: min_def word_le_nat_alt split: if_splits)
qed

lemma unat_ucast_small: "unat (x :: u64) < 2 ^ 32 \<Longrightarrow> unat (ucast x :: u32) = unat x"
  by (simp add: unsigned_ucast_eq take_bit_nat_eq_self)

lemma unat_ucast_u32_u64 [simp]: "unat (ucast (n :: u32) :: u64) = unat n"
proof -
  have "unat n < 2 ^ 64" using unsigned_less [of n, where 'a = nat] by simp
  then show ?thesis by (simp add: unsigned_ucast_eq take_bit_nat_eq_self)
qed

lemma unat_sub_sent: "unat (n :: u32) \<le> unat (a :: u64) \<Longrightarrow> unat (a - ucast n) = unat a - unat n"
  by (subst unat_sub) (simp_all add: word_le_nat_alt)

context packet_transport
begin

text \<open>The data loop of one stream, for any transport that keeps the contract.\<close>

lemma send_data_spec:
  assumes "buf_inv (hostToGuestBuf s)" and "unat avail < 2 ^ 32"
  shows "\<exists>m s' q' n' full. send_data send q s avail n = Some (s', q', n', full) \<and>
      stream_moved m s s' \<and> m \<le> unat avail \<and> sendOpMask s' = sendOpMask s \<and>
      (full \<or> m = unat avail \<or> pending_of s' = []) \<and> (full \<longrightarrow> room q' = 0) \<and>
      (\<forall>k. unat avail < 2 ^ 30 \<longrightarrow>
         delivered q' k = delivered q k @ (if k = stream_key s then take m (pending_of s) else []))"
  using assms
proof (induction "room q" arbitrary: q s avail n rule: less_induct)
  case less
  let ?data = "pending_of s"
  have peek: "buf_peek (hostToGuestBuf s) = Some ?data"
    by (rule sbuf.look_law [OF less.prems(1)])
  show ?case
  proof (cases "avail > 0 \<and> ?data \<noteq> []")
    case False
    then have "send_data send q s avail n = Some (s, q, n, False)"
      using peek by (subst send_data.simps) auto
    moreover have "0 = unat avail \<or> ?data = []"
      using False by (auto simp: word_gt_0)
    ultimately show ?thesis
      using less.prems(1)
      by (intro exI [of _ 0] exI [of _ s] exI [of _ q] exI [of _ n] exI [of _ False]) auto
  next
    case True
    let ?size = "min (of_nat (length ?data)) avail :: u64"
    let ?h = "prepareStreamHeader s OP_RW (ucast ?size)"
    obtain r q' where sr: "send q ?h ?data = (r, q')" by (cases "send q ?h ?data")
    have "unat (h_len ?h) = unat ?size"
      using unat_min_le(2) [of "length ?data" avail] less.prems(2)
      by (simp add: prepareStreamHeader_def preparePacketHeader_def unat_ucast_small)
    then have size: "unat (h_len ?h) \<le> unat avail" "unat (h_len ?h) \<le> length ?data"
      using unat_min_le [of "length ?data" avail] by simp_all
    let ?sent = "VirtIOVSockSentSize r"
    have sent: "unat ?sent \<le> unat avail" "unat ?sent \<le> length ?data"
      using sent_le [OF size(2) sr] size by simp_all
    obtain b where b: "buf_consume (unat ?sent) (hostToGuestBuf s) = Some b"
      and pb: "buf_pending b = drop (unat ?sent) ?data" and ib: "buf_inv b"
      using sbuf.take_off_law [OF less.prems(1) sent(2)] by blast
    let ?s = "s\<lparr>hostToGuestBuf := b, hostSentCnt := hostSentCnt s + ?sent\<rparr>"
    let ?n = "n \<or> VirtIOVSockSendNeedNotify r"
    have step: "send_data send q s avail n =
        (if VirtIOVSockSendIsVqFull r then Some (?s, q', ?n, True)
         else send_data send q' ?s (avail - ucast ?sent) ?n)"
      using True peek sr b by (subst send_data.simps) (simp add: Let_def)
    have moved: "stream_moved (unat ?sent) s ?s"
      unfolding stream_moved_def using sent pb ib
      by (auto intro!: exI [of _ b] exI [of _ "sendOpMask s"])
    have dl: "delivered q' k = delivered q k @ (if k = stream_key s then take (unat ?sent) ?data else [])"
      if "unat avail < 2 ^ 30" for k
      using delivered_send [OF size(2) _ sr, of k] size(1) that
      by (simp add: hdr_of_stream_def prepareStreamHeader_def preparePacketHeader_def stream_key_def)
    show ?thesis
    proof (cases "VirtIOVSockSendIsVqFull r")
      case full: True
      then show ?thesis using step sent moved dl full_room [OF size(2) sr]
        by (intro exI [of _ "unat ?sent"] exI [of _ ?s] exI [of _ q'] exI [of _ ?n] exI [of _ True]) simp
    next
      case nfull: False
      note av = unat_sub_sent [OF sent(1)]
      have lt: "unat (avail - ucast ?sent) < 2 ^ 32" using less.prems(2) av by simp
      have ib': "buf_inv (hostToGuestBuf ?s)" using ib by simp
      obtain m s' q'' n' full where rec: "send_data send q' ?s (avail - ucast ?sent) ?n = Some (s', q'', n', full)"
        and m: "stream_moved m ?s s'" "m \<le> unat (avail - ucast ?sent)" "sendOpMask s' = sendOpMask ?s"
          "full \<or> m = unat (avail - ucast ?sent) \<or> pending_of s' = []" "full \<longrightarrow> room q'' = 0"
        and dl': "\<And>k. unat (avail - ucast ?sent) < 2 ^ 30 \<Longrightarrow> delivered q'' k =
            delivered q' k @ (if k = stream_key ?s then take m (pending_of ?s) else [])"
        using less.hyps [OF room_decreases [OF size(2) sr nfull] ib' lt, of ?n] by blast
      have "delivered q'' k = delivered q k @ (if k = stream_key s then take (unat ?sent + m) ?data else [])"
        if "unat avail < 2 ^ 30" for k
        using dl [OF that, of k] dl' [of k] that av pb by (auto simp: stream_key_def take_add)
      moreover have "unat ?sent + m \<le> unat avail" "full \<or> unat ?sent + m = unat avail \<or> pending_of s' = []"
        using m av sent by auto
      ultimately show ?thesis
        using step nfull rec m stream_moved_trans [OF moved m(1)]
        by (intro exI [of _ "unat ?sent + m"] exI [of _ s'] exI [of _ q''] exI [of _ n'] exI [of _ full]) simp
    qed
  qed
qed

lemma prepareStreamHeader_len [simp]: "h_len (prepareStreamHeader s oper n) = n"
  by (simp add: prepareStreamHeader_def preparePacketHeader_def)

lemma send_ops_delivered:
  "send_ops send s q ops om n = (om', q', n', full) \<Longrightarrow>
   delivered q' k = delivered q k \<and> (full \<longrightarrow> room q' = 0)"
proof (induction ops arbitrary: q om n)
  case Nil
  then show ?case by simp
next
  case (Cons oper ops)
  obtain r q1 where sr: "send q (prepareStreamHeader s oper 0) [] = (r, q1)"
    by (cases "send q (prepareStreamHeader s oper 0) []")
  then have "delivered q1 k = delivered q k"
    by (intro delivered_control) simp_all
  moreover have "VirtIOVSockSendIsVqFull r \<Longrightarrow> room q1 = 0"
    by (rule full_room [OF _ sr]) simp_all
  ultimately show ?case
    using Cons.prems Cons.IH sr by (auto simp: Let_def split: if_splits)
qed

lemma send_stream_spec:
  assumes "buf_inv (hostToGuestBuf s)"
  shows "\<exists>m s' q' n' full. send_stream send q s n = Some (s', q', n', full) \<and>
      stream_moved m s s' \<and> m \<le> unat (guest_avail s) \<and>
      (full \<or> sendOpMask s' = 0 \<and> (m = unat (guest_avail s) \<or> pending_of s' = [])) \<and>
      (full \<longrightarrow> room q' = 0) \<and>
      (\<forall>k. unat (guest_avail s) < 2 ^ 30 \<longrightarrow>
         delivered q' k = delivered q k @ (if k = stream_key s then take m (pending_of s) else []))"
proof -
  let ?avail = "ucast (guest_avail s) :: u64"
  let ?om = "ucast (sendOpMask s) OR
     (if ?avail = 0 then push_bit (unat OP_CREDIT_REQUEST) 1 else 0) :: u32"
  have lt: "unat ?avail < 2 ^ 32" using unsigned_less [of "guest_avail s", where 'a = nat] by simp
  show ?thesis
  proof (cases "?om = 0")
    case True
    then have "(ucast (sendOpMask s) :: u32) = 0" by (simp add: or_eq_0_iff)
    then have "sendOpMask s = 0" by (metis ucast_u8_u32 unsigned_0)
    moreover have "send_stream send q s n = send_data send q s ?avail n"
      using True by (simp add: send_stream_def Let_def)
    ultimately show ?thesis
      using send_data_spec [OF assms lt, of q n] by (simp only: unat_ucast_u32_u64) blast
  next
    case False
    obtain om' q1 n1 full1 where ops: "send_ops send s q stream_ops ?om n = (om', q1, n1, full1)"
      by (cases "send_ops send s q stream_ops ?om n")
    note d1 = send_ops_delivered [OF ops]
    show ?thesis
    proof (cases full1)
      case True
      with False ops have "send_stream send q s n = Some (s\<lparr>sendOpMask := ucast om'\<rparr>, q1, n1, True)"
        by (simp add: send_stream_def Let_def)
      moreover have "stream_moved 0 s (s\<lparr>sendOpMask := ucast om'\<rparr>)"
        using assms unfolding stream_moved_def by (auto intro!: exI [of _ "hostToGuestBuf s"])
      ultimately show ?thesis
        using d1 True by (intro exI [of _ 0] exI [of _ "s\<lparr>sendOpMask := ucast om'\<rparr>"] exI [of _ q1]
          exI [of _ n1] exI [of _ True]) simp
    next
      case nf: False
      let ?s = "s\<lparr>sendOpMask := 0\<rparr>"
      have inv: "buf_inv (hostToGuestBuf ?s)" using assms by simp
      have eq: "send_stream send q s n = send_data send q1 ?s ?avail n1"
        using False nf ops by (simp add: send_stream_def Let_def)
      obtain m s' q' n' full where sd: "send_data send q1 ?s ?avail n1 = Some (s', q', n', full)"
        and mv: "stream_moved m ?s s'" "m \<le> unat ?avail" "sendOpMask s' = sendOpMask ?s"
        and fin: "full \<or> m = unat ?avail \<or> pending_of s' = []" "full \<longrightarrow> room q' = 0"
        and dl: "\<forall>k. unat ?avail < 2 ^ 30 \<longrightarrow> delivered q' k =
           delivered q1 k @ (if k = stream_key ?s then take m (pending_of ?s) else [])"
        using send_data_spec [OF inv lt, of q1 n1] by blast
      have "stream_moved m s s'" by (rule stream_moved_opMask [OF mv(1)])
      with eq sd mv fin dl d1 show ?thesis
        by (intro exI [of _ m] exI [of _ s'] exI [of _ q'] exI [of _ n'] exI [of _ full])
          (simp add: stream_key_def)
    qed
  qed
qed

end

text \<open>The bytes a set of streams still owes on one key.\<close>

definition owed :: "stream_key \<Rightarrow> 'p vsock_stream list \<Rightarrow> bytes" where
  "owed k ss = (case find_stream k ss of None \<Rightarrow> [] | Some s \<Rightarrow> pending_of s)"

lemma owed_simps [simp]:
  "owed k [] = []"
  "owed k (s # ss) = (if stream_key s = k then pending_of s else owed k ss)"
  by (simp_all add: owed_def find_stream_def)

lemma owed_not_key: "k \<notin> stream_key ` set ss \<Longrightarrow> owed k ss = []"
  by (induction ss) auto

text \<open>A stream after a round of sending that stayed within the guest's credit.\<close>

definition stream_advanced :: "'p vsock_stream \<Rightarrow> 'p vsock_stream \<Rightarrow> bool" where
  "stream_advanced s s' \<longleftrightarrow> (\<exists>m. stream_moved m s s' \<and> m \<le> unat (guest_avail s))"

lemma stream_advanced_refl: "buf_inv (hostToGuestBuf s) \<Longrightarrow> stream_advanced s s"
  unfolding stream_advanced_def by (intro exI [of _ 0]) simp

lemma stream_advanced_fields:
  assumes "stream_advanced s s'"
  shows "stream_key s' = stream_key s" and "plug s' = plug s" and "isConnected s' = isConnected s"
    and "buf_inv (hostToGuestBuf s')"
proof -
  from assms obtain m where "stream_moved m s s'" by (auto simp: stream_advanced_def)
  note f = stream_moved_fields [OF this]
  show "stream_key s' = stream_key s" and "plug s' = plug s" and "isConnected s' = isConnected s"
    and "buf_inv (hostToGuestBuf s')"
    using f by simp_all
qed

text \<open>A stream with nothing left that could be sent now.\<close>

definition stream_idle :: "'p vsock_stream \<Rightarrow> bool" where
  "stream_idle s \<longleftrightarrow> sendOpMask s = 0 \<and> (pending_of s = [] \<or> guest_avail s = 0)"

lemma stream_moved_all:
  assumes "stream_moved (unat (guest_avail s)) s s'"
  shows "guest_avail s' = 0"
  using stream_moved_fields [OF assms] by (simp add: guest_avail_def)

lemma streams_advanced_keys:
  "list_all2 stream_advanced ss ss' \<Longrightarrow> map stream_key ss' = map stream_key ss"
  by (induction rule: list_all2_induct) (simp_all add: stream_advanced_fields)

lemma streams_advanced_refl:
  "\<forall>s \<in> set ss. buf_inv (hostToGuestBuf s) \<Longrightarrow> list_all2 stream_advanced ss ss"
  by (simp add: list_all2_same stream_advanced_refl)

context packet_transport
begin

lemma send_streams_spec:
  assumes "\<forall>s \<in> set ss. buf_inv (hostToGuestBuf s)" and "distinct (map stream_key ss)"
  shows "\<exists>ss' q' n'. send_streams send q ss n = Some (ss', q', n') \<and>
      list_all2 stream_advanced ss ss' \<and> (room q' = 0 \<or> (\<forall>s \<in> set ss'. stream_idle s)) \<and>
      ((\<forall>s \<in> set ss. unat (guest_avail s) < 2 ^ 30) \<longrightarrow>
         (\<forall>k. delivered q' k @ owed k ss' = delivered q k @ owed k ss))"
  using assms
proof (induction ss arbitrary: q n)
  case Nil
  then show ?case by simp
next
  case (Cons s ss)
  obtain m s' q1 n1 full where st: "send_stream send q s n = Some (s', q1, n1, full)"
    and mv: "stream_moved m s s'" "m \<le> unat (guest_avail s)"
    and fin: "full \<or> sendOpMask s' = 0 \<and> (m = unat (guest_avail s) \<or> pending_of s' = [])"
      "full \<longrightarrow> room q1 = 0"
    and dl: "\<And>k. unat (guest_avail s) < 2 ^ 30 \<Longrightarrow>
         delivered q1 k = delivered q k @ (if k = stream_key s then take m (pending_of s) else [])"
    using send_stream_spec [of s q n] Cons.prems by auto
  have adv: "stream_advanced s s'" using mv by (auto simp: stream_advanced_def)
  have pend: "pending_of s' = drop m (pending_of s)" and key: "stream_key s' = stream_key s"
    using stream_moved_fields [OF mv(1)] by simp_all
  show ?case
  proof (cases full)
    case True
    moreover have "list_all2 stream_advanced (s # ss) (s' # ss)"
      using adv streams_advanced_refl [of ss] Cons.prems by simp
    moreover have "delivered q1 k @ owed k (s' # ss) = delivered q k @ owed k (s # ss)"
      if "\<forall>t \<in> set (s # ss). unat (guest_avail t) < 2 ^ 30" for k
      using that dl [of k] pend key by simp
    ultimately show ?thesis using st fin by auto
  next
    case False
    obtain ss' q2 n2 where rec: "send_streams send q1 ss n1 = Some (ss', q2, n2)"
      and adv': "list_all2 stream_advanced ss ss'" "room q2 = 0 \<or> (\<forall>s \<in> set ss'. stream_idle s)"
      and dl': "(\<forall>s \<in> set ss. unat (guest_avail s) < 2 ^ 30) \<Longrightarrow>
         (\<forall>k. delivered q2 k @ owed k ss' = delivered q1 k @ owed k ss)"
      using Cons.IH [of q1 n1] Cons.prems by auto
    have "stream_key s \<notin> stream_key ` set ss" using Cons.prems by simp
    moreover from this have "stream_key s \<notin> stream_key ` set ss'"
      using streams_advanced_keys [OF adv'(1)] by (metis list.set_map)
    ultimately have "delivered q2 k @ owed k (s' # ss') = delivered q k @ owed k (s # ss)"
      if "\<forall>t \<in> set (s # ss). unat (guest_avail t) < 2 ^ 30" for k
      using that dl [of k] spec [OF dl', of k] pend key
      by (cases "k = stream_key s") (simp_all add: owed_not_key)
    moreover have "stream_idle s'"
      using False fin stream_moved_all [of s s'] mv by (auto simp: stream_idle_def)
    ultimately show ?thesis using False st rec adv adv' by auto
  qed
qed

lemma send_orphans_spec:
  assumes "\<forall>h \<in> set hs. h_len h = 0" and "send_orphans send q hs n = (hs', q', n', full)"
  shows "(\<exists>j. hs' = drop j hs) \<and> (\<not> full \<longrightarrow> hs' = []) \<and> (full \<longrightarrow> room q' = 0) \<and> delivered q' k = delivered q k"
  using assms
proof (induction hs arbitrary: q n)
  case Nil
  then show ?case by simp
next
  case (Cons h hs)
  obtain r q1 where sr: "send q h [] = (r, q1)" by (cases "send q h []")
  then have d: "delivered q1 k = delivered q k"
    using Cons.prems by (intro delivered_control) simp_all
  show ?case
  proof (cases "VirtIOVSockSendIsVqFull r")
    case True
    then have "room q1 = 0" using Cons.prems(1) by (intro full_room [OF _ sr]) simp_all
    with True show ?thesis using Cons.prems sr d by (auto simp: Let_def intro: exI [of _ 0])
  next
    case False
    then have "send_orphans send q1 hs (n \<or> VirtIOVSockSendNeedNotify r) = (hs', q', n', full)"
      using Cons.prems sr by (simp add: Let_def)
    from Cons.IH [OF _ this] Cons.prems(1) d show ?thesis
      by (auto intro: exI [of _ "Suc _"])
  qed
qed

end

end
