(* ===== verification/Vsock_Invariant.thy ===== *)
theory Vsock_Invariant
  imports Vsock_Sending
begin

text \<open>
  The invariant of the vsock device and its proof: streams are ordered and unique, every stream
  has a plug, the ids of the port allocator in use are exactly the dynamic host ports of the open
  streams.  Under it no operation hits an assertion, and every operation keeps it.
\<close>

section \<open>Dynamic ports\<close>

definition dyn_ports :: "stream_key list \<Rightarrow> u32 list" where
  "dyn_ports ks = map snd (filter (\<lambda>k. kDynamicPortsStart \<le> snd k) ks)"

definition port_inv :: "stream_key list \<Rightarrow> id_allocator \<Rightarrow> bool" where
  "port_inv ks a \<longleftrightarrow> sorted_wrt (<) ks \<and> alloc_inv a \<and> mLastId a < kDynamicPortsStart \<and>
     distinct (dyn_ports ks) \<and> ids_in_use a = (\<lambda>p. p - kDynamicPortsStart) ` set (dyn_ports ks)"

text \<open>Ids are left for another connection.\<close>

definition ports_left :: "id_allocator \<Rightarrow> bool" where
  "ports_left a \<longleftrightarrow> mReturnedIds a \<noteq> [] \<or> mLastId a < kDynamicPortsStart - 1"

lemma kDynamicPortsStart_val: "kDynamicPortsStart = 0x80000000"
  by (simp add: kDynamicPortsStart_def push_bit_eq_mult)

lemma kDynamicPortsStart_nz: "kDynamicPortsStart \<noteq> 0"
  by (simp add: kDynamicPortsStart_val)

lemma dynamic_port_of_id:
  assumes "i < kDynamicPortsStart"
  shows "kDynamicPortsStart \<le> i + kDynamicPortsStart"
  using assms unfolding kDynamicPortsStart_val
  by (simp add: word_le_nat_alt word_less_nat_alt unat_word_ariths)

lemma mLastId_in_use: "alloc_inv a \<Longrightarrow> mLastId a = 0 \<or> mLastId a \<in> ids_in_use a"
  by (auto simp: alloc_inv_def ids_in_use_def word_one_le_iff)

lemma ids_in_use_le: "i \<in> ids_in_use a \<Longrightarrow> i \<le> mLastId a"
  by (simp add: ids_in_use_def)

lemma port_inv_empty: "port_inv [] empty_allocator"
  by (simp add: port_inv_def dyn_ports_def alloc_inv_def ids_in_use_def empty_allocator_def
      kDynamicPortsStart_val)

lemma dyn_ports_filter: "dyn_ports (filter P ks) = map snd (filter P (filter (\<lambda>k. kDynamicPortsStart \<le> snd k) ks))"
  by (simp add: dyn_ports_def conj_commute)

lemma dyn_portsI: "k \<in> set ks \<Longrightarrow> kDynamicPortsStart \<le> snd k \<Longrightarrow> snd k \<in> set (dyn_ports ks)"
  by (simp add: dyn_ports_def)

lemma set_dyn_ports: "set (dyn_ports ks) = snd ` {k \<in> set ks. kDynamicPortsStart \<le> snd k}"
  by (simp add: dyn_ports_def)

lemma distinct_dyn_ports_filter: "distinct (dyn_ports ks) \<Longrightarrow> distinct (dyn_ports (filter P ks))"
  unfolding dyn_ports_filter by (simp add: dyn_ports_def distinct_map_filter del: filter_filter)

lemma set_dyn_ports_erase:
  assumes "distinct (dyn_ports ks)" and "k \<in> set ks"
  shows "set (dyn_ports (filter (\<lambda>x. x \<noteq> k) ks)) =
    (if kDynamicPortsStart \<le> snd k then set (dyn_ports ks) - {snd k} else set (dyn_ports ks))"
  using assms unfolding dyn_ports_def distinct_map inj_on_def by auto

lemma port_inv_put:
  assumes "port_inv ks a" and "k \<in> set ks" and "kDynamicPortsStart \<le> snd k"
  obtains a' where "alloc_put (snd k - kDynamicPortsStart) a = Some a'"
    and "port_inv (filter (\<lambda>x. x \<noteq> k) ks) a'"
proof -
  have inv: "alloc_inv a" and d: "distinct (dyn_ports ks)"
    and u: "ids_in_use a = (\<lambda>p. p - kDynamicPortsStart) ` set (dyn_ports ks)"
    using assms(1) by (simp_all add: port_inv_def)
  have "snd k - kDynamicPortsStart \<in> ids_in_use a"
    using assms(2,3) u by (auto simp: dyn_ports_def)
  then obtain a' where a': "alloc_put (snd k - kDynamicPortsStart) a = Some a'" "alloc_inv a'"
    "ids_in_use a' = ids_in_use a - {snd k - kDynamicPortsStart}"
    using alloc.put_law [OF inv] by blast
  have "mLastId a' < kDynamicPortsStart"
    using mLastId_in_use [OF a'(2)] a'(3) ids_in_use_le [of "mLastId a'" a] assms(1)
    by (auto simp: port_inv_def kDynamicPortsStart_val)
  moreover have "distinct (dyn_ports (filter (\<lambda>x. x \<noteq> k) ks))"
    using d by (rule distinct_dyn_ports_filter)
  moreover have "ids_in_use a' = (\<lambda>p. p - kDynamicPortsStart) ` set (dyn_ports (filter (\<lambda>x. x \<noteq> k) ks))"
    using set_dyn_ports_erase [OF d assms(2)] assms(3) a'(3) u by auto
  ultimately have "port_inv (filter (\<lambda>x. x \<noteq> k) ks) a'"
    using assms(1) a'(2) by (auto simp: port_inv_def intro: sorted_wrt_filter)
  with a'(1) show ?thesis by (rule that)
qed

lemma port_inv_erase:
  assumes "port_inv ks a" and "k \<in> set ks" and "\<not> kDynamicPortsStart \<le> snd k"
  shows "port_inv (filter (\<lambda>x. x \<noteq> k) ks) a"
proof -
  have d: "distinct (dyn_ports ks)" using assms(1) by (simp add: port_inv_def)
  have "distinct (dyn_ports (filter (\<lambda>x. x \<noteq> k) ks))"
    using d by (rule distinct_dyn_ports_filter)
  with set_dyn_ports_erase [OF d assms(2)] assms(1,3) show ?thesis
    by (auto simp: port_inv_def intro: sorted_wrt_filter)
qed

lemma insert_stream_keys:
  "map stream_key (insert_stream s ss) =
     takeWhile (\<lambda>k. \<not> stream_key s < k) (map stream_key ss) @ stream_key s #
     dropWhile (\<lambda>k. \<not> stream_key s < k) (map stream_key ss)"
  by (induction ss) auto

lemma set_insert_stream [simp]: "set (insert_stream s ss) = insert s (set ss)"
  by (induction ss) auto

lemma sorted_insert_stream:
  "sorted_wrt (<) (map stream_key ss) \<Longrightarrow> stream_key s \<notin> stream_key ` set ss \<Longrightarrow>
   sorted_wrt (<) (map stream_key (insert_stream s ss))"
  by (induction ss) (auto simp: not_less order.order_iff_strict)

lemma sorted_keys_distinct: "sorted_wrt (<) (ks :: stream_key list) \<Longrightarrow> distinct ks"
  by (induction ks) auto

lemma distinct_dyn_ports:
  "sorted_wrt (<) ks \<Longrightarrow> distinct (dyn_ports ks) \<longleftrightarrow> inj_on snd {k \<in> set ks. kDynamicPortsStart \<le> snd k}"
  by (simp add: dyn_ports_def distinct_map sorted_keys_distinct)

text \<open>A stream whose host port is static does not touch the allocator.\<close>

lemma port_inv_insert_static:
  assumes "port_inv (map stream_key ss) a" and "stream_key s \<notin> stream_key ` set ss"
    and "\<not> kDynamicPortsStart \<le> hostPort s"
  shows "port_inv (map stream_key (insert_stream s ss)) a"
proof -
  let ?ks = "map stream_key ss" and ?ks' = "map stream_key (insert_stream s ss)"
  have sorted: "sorted_wrt (<) ?ks'"
    using assms(1,2) by (intro sorted_insert_stream) (simp_all add: port_inv_def)
  have same: "{k \<in> set ?ks'. kDynamicPortsStart \<le> snd k} = {k \<in> set ?ks. kDynamicPortsStart \<le> snd k}"
    using assms(3) by (auto simp: stream_key_def)
  have so: "sorted_wrt (<) ?ks" and d: "distinct (dyn_ports ?ks)"
    using assms(1) by (simp_all add: port_inv_def)
  have "distinct (dyn_ports ?ks')"
    using d unfolding distinct_dyn_ports [OF sorted] distinct_dyn_ports [OF so] same .
  moreover have "set (dyn_ports ?ks') = set (dyn_ports ?ks)"
    using same by (simp add: dyn_ports_def)
  ultimately show ?thesis
    using assms(1) sorted by (simp add: port_inv_def)
qed

text \<open>A fresh id makes a dynamic port that no open stream has.\<close>

lemma port_inv_get:
  assumes "port_inv (map stream_key ss) a" and "ports_left a" and "alloc_get a = (i, a')"
    and "hostPort s = i + kDynamicPortsStart"
  shows "stream_key s \<notin> stream_key ` set ss" and "port_inv (map stream_key (insert_stream s ss)) a'"
proof -
  let ?ks = "map stream_key ss" and ?ks' = "map stream_key (insert_stream s ss)"
  have inv: "alloc_inv a" and last: "mLastId a < kDynamicPortsStart" and d: "distinct (dyn_ports ?ks)"
    and u: "ids_in_use a = (\<lambda>p. p - kDynamicPortsStart) ` set (dyn_ports ?ks)" and so: "sorted_wrt (<) ?ks"
    using assms(1) by (simp_all add: port_inv_def)
  have room: "has_room a"
    using assms(2) by (auto simp: ports_left_def has_room_def kDynamicPortsStart_val)
  note g = alloc.get_law [OF inv room assms(3)]
  have last': "mLastId a' < kDynamicPortsStart"
    using assms(2,3) last kDynamicPortsStart_nz
    by (auto simp: ports_left_def alloc_get_def split: if_splits intro: word_inc_less)
  then have "i < kDynamicPortsStart"
    using g ids_in_use_le [of i a'] by auto
  then have dyn: "kDynamicPortsStart \<le> hostPort s"
    unfolding assms(4) by (rule dynamic_port_of_id)
  have new: "hostPort s \<notin> set (dyn_ports ?ks)"
    using g u assms(4) by force
  then show notin: "stream_key s \<notin> stream_key ` set ss"
    using dyn dyn_portsI [of "stream_key s" ?ks] by (auto simp: stream_key_def)
  have sorted: "sorted_wrt (<) ?ks'"
    using so notin by (rule sorted_insert_stream)
  have more: "{k \<in> set ?ks'. kDynamicPortsStart \<le> snd k} =
      insert (stream_key s) {k \<in> set ?ks. kDynamicPortsStart \<le> snd k}"
    using dyn by (auto simp: stream_key_def)
  have "inj_on snd (insert (stream_key s) {k \<in> set ?ks. kDynamicPortsStart \<le> snd k})"
    using d so new distinct_dyn_ports [OF so]
    by (subst inj_on_insert) (auto simp: dyn_ports_def stream_key_def)
  then have "distinct (dyn_ports ?ks')"
    unfolding distinct_dyn_ports [OF sorted] more .
  moreover have "set (dyn_ports ?ks') = insert (hostPort s) (set (dyn_ports ?ks))"
    unfolding set_dyn_ports more by (simp add: stream_key_def)
  moreover have "ids_in_use a' = insert (hostPort s - kDynamicPortsStart) (ids_in_use a)"
    using g assms(4) by simp
  ultimately show "port_inv ?ks' a'"
    using sorted g last' u by (simp add: port_inv_def)
qed

section \<open>The invariant\<close>

definition stream_ok :: "'p vsock_stream \<Rightarrow> bool" where
  "stream_ok s \<longleftrightarrow> plug s \<noteq> None \<and> buf_inv (hostToGuestBuf s)"

definition dev_inv :: "('p, 'q) vsock_device \<Rightarrow> bool" where
  "dev_inv d \<longleftrightarrow> mQemuDev d \<noteq> None \<and>
     port_inv (map stream_key (mStreams d)) (mSrcPortAllocator d) \<and>
     (\<forall>s \<in> set (mStreams d). stream_ok s) \<and>
     (\<forall>port l. mHostPortListeners d port = Some l \<longrightarrow> port < kDynamicPortsStart) \<and>
     (\<forall>h \<in> set (mOrphanPackets d). h_len h = 0)"

text \<open>A device after a round of sending.\<close>

definition device_advanced :: "('p, 'q) vsock_device \<Rightarrow> ('p, 'q) vsock_device \<Rightarrow> bool" where
  "device_advanced d d' \<longleftrightarrow> list_all2 stream_advanced (mStreams d) (mStreams d') \<and>
     mSrcPortAllocator d' = mSrcPortAllocator d \<and> mHostPortListeners d' = mHostPortListeners d \<and>
     unplugged d' = unplugged d \<and> mQemuDev d' \<noteq> None \<and>
     (\<exists>j. mOrphanPackets d' = drop j (mOrphanPackets d))"

definition stream_keys :: "('p, 'q) vsock_device \<Rightarrow> stream_key list" where
  "stream_keys d = map stream_key (mStreams d)"

lemma stream_keys_simps [simp]:
  "stream_keys (d\<lparr>mQemuDev := q\<rparr>) = stream_keys d"
  "stream_keys (d\<lparr>mOrphanPackets := os\<rparr>) = stream_keys d"
  "stream_keys (d\<lparr>mSrcPortAllocator := a\<rparr>) = stream_keys d"
  "stream_keys (d\<lparr>notified := n\<rparr>) = stream_keys d"
  "stream_keys (d\<lparr>unplugged := u\<rparr>) = stream_keys d"
  "stream_keys (d\<lparr>mHostPortListeners := ls\<rparr>) = stream_keys d"
  "stream_keys (d\<lparr>mStreams := ss\<rparr>) = map stream_key ss"
  by (simp_all add: stream_keys_def)

lemma device_advanced_keys: "device_advanced d d' \<Longrightarrow> stream_keys d' = stream_keys d"
  by (simp add: device_advanced_def stream_keys_def streams_advanced_keys)

lemma list_all2_set2: "list_all2 R xs ys \<Longrightarrow> y \<in> set ys \<Longrightarrow> \<exists>x \<in> set xs. R x y"
  by (induction rule: list_all2_induct) auto

lemma device_advanced_inv:
  assumes "dev_inv d" and "device_advanced d d'"
  shows "dev_inv d'"
proof -
  have adv: "list_all2 stream_advanced (mStreams d) (mStreams d')"
    using assms(2) by (simp add: device_advanced_def)
  have "stream_ok s'" if mem: "s' \<in> set (mStreams d')" for s'
  proof -
    obtain s where "s \<in> set (mStreams d)" "stream_advanced s s'"
      using list_all2_set2 [OF adv mem] by blast
    with assms(1) stream_advanced_fields [of s s'] show ?thesis
      by (simp add: dev_inv_def stream_ok_def)
  qed
  moreover have "map stream_key (mStreams d') = map stream_key (mStreams d)"
    using device_advanced_keys [OF assms(2)] by (simp add: stream_keys_def)
  ultimately show ?thesis
    using assms by (auto simp: dev_inv_def device_advanced_def dest!: in_set_dropD)
qed

lemma find_stream_Some:
  "find_stream k ss = Some s \<Longrightarrow> s \<in> set ss \<and> stream_key s = k"
  unfolding find_stream_def by (metis (mono_tags, lifting) find_Some_iff nth_mem)

lemma find_stream_None: "find_stream k ss = None \<longleftrightarrow> k \<notin> stream_key ` set ss"
  unfolding find_stream_def by (auto simp: find_None_iff)

lemma find_stream_ex: "k \<in> set (stream_keys d) \<Longrightarrow> \<exists>s. find_stream k (mStreams d) = Some s"
  using find_stream_None [of k "mStreams d"] by (cases "find_stream k (mStreams d)") (auto simp: stream_keys_def)

lemma find_stream_ok: "dev_inv d \<Longrightarrow> find_stream k (mStreams d) = Some s \<Longrightarrow> stream_ok s"
  using find_stream_Some [of k "mStreams d" s] by (simp add: dev_inv_def)

lemma update_stream_fields:
  "mQemuDev (update_stream k f d) = mQemuDev d"
  "mSrcPortAllocator (update_stream k f d) = mSrcPortAllocator d"
  "mHostPortListeners (update_stream k f d) = mHostPortListeners d"
  "mOrphanPackets (update_stream k f d) = mOrphanPackets d"
  "unplugged (update_stream k f d) = unplugged d"
  by (simp_all add: update_stream_def)

lemma stream_keys_update [simp]:
  assumes "\<And>s. stream_key (f s) = stream_key s"
  shows "stream_keys (update_stream k f d) = stream_keys d"
  using assms by (simp add: stream_keys_def update_stream_def)

lemma dev_inv_update:
  assumes "dev_inv d" and "\<And>s. stream_key (f s) = stream_key s" and "\<And>s. stream_ok s \<Longrightarrow> stream_ok (f s)"
  shows "dev_inv (update_stream k f d)"
proof -
  have "map stream_key (mStreams (update_stream k f d)) = map stream_key (mStreams d)"
    using stream_keys_update [of f k d, OF assms(2)] by (simp add: stream_keys_def)
  moreover have "\<forall>s \<in> set (mStreams (update_stream k f d)). stream_ok s"
    using assms(1,3) by (auto simp: dev_inv_def update_stream_def)
  ultimately show ?thesis
    using assms(1) unfolding dev_inv_def by (simp add: update_stream_fields)
qed

lemma dev_inv_fields [simp]:
  "dev_inv (d\<lparr>notified := n\<rparr>) = dev_inv d"
  "dev_inv (d\<lparr>unplugged := u\<rparr>) = dev_inv d"
  "dev_inv (d\<lparr>mHostEvents := es\<rparr>) = dev_inv d"
  by (simp_all add: dev_inv_def)

section \<open>Sending keeps the invariant\<close>

text \<open>What the device took from the plugs for one stream: what the guest has and what is buffered.\<close>

definition promised :: "('q \<Rightarrow> stream_key \<Rightarrow> bytes) \<Rightarrow> ('p, 'q) vsock_device \<Rightarrow> stream_key \<Rightarrow> bytes" where
  "promised dl d k = (case mQemuDev d of None \<Rightarrow> [] | Some q \<Rightarrow> dl q k) @ owed k (mStreams d)"

text \<open>No stream has a credit that the 30 bits of a send result cannot count.\<close>

definition credits_fit :: "('p, 'q) vsock_device \<Rightarrow> bool" where
  "credits_fit d \<longleftrightarrow> (\<forall>s \<in> set (mStreams d). unat (guest_avail s) < 2 ^ 30)"

lemma dev_inv_keys: "dev_inv d \<Longrightarrow> distinct (stream_keys d)"
  by (simp add: dev_inv_def port_inv_def stream_keys_def sorted_keys_distinct)

context packet_transport
begin

lemma sendPacketsLocked_spec:
  assumes "dev_inv d"
  shows "\<exists>n d'. sendPacketsLocked send d = Some (n, d') \<and> device_advanced d d' \<and>
    (\<forall>q. mQemuDev d' = Some q \<longrightarrow> room q = 0 \<or>
       mOrphanPackets d' = [] \<and> (\<forall>s \<in> set (mStreams d'). stream_idle s)) \<and>
    (credits_fit d \<longrightarrow> (\<forall>k. promised delivered d' k = promised delivered d k))"
proof -
  obtain q where q: "mQemuDev d = Some q" using assms by (auto simp: dev_inv_def)
  obtain os q1 n1 full where so: "send_orphans send q (mOrphanPackets d) False = (os, q1, n1, full)"
    by (cases "send_orphans send q (mOrphanPackets d) False")
  have bufs: "\<forall>s \<in> set (mStreams d). buf_inv (hostToGuestBuf s)"
    using assms by (simp add: dev_inv_def stream_ok_def)
  have "\<forall>h \<in> set (mOrphanPackets d). h_len h = 0" using assms by (simp add: dev_inv_def)
  note orph = send_orphans_spec [OF this so]
  show ?thesis
  proof (cases full)
    case True
    then have "sendPacketsLocked send d = Some (n1, d\<lparr>mOrphanPackets := os, mQemuDev := Some q1\<rparr>)"
      using q so by (simp add: sendPacketsLocked_def)
    moreover have "device_advanced d (d\<lparr>mOrphanPackets := os, mQemuDev := Some q1\<rparr>)"
      using orph bufs by (simp add: device_advanced_def streams_advanced_refl)
    ultimately show ?thesis using orph q True by (auto simp: promised_def)
  next
    case False
    obtain ss' q2 n2 where ss: "send_streams send q1 (mStreams d) n1 = Some (ss', q2, n2)"
      and adv: "list_all2 stream_advanced (mStreams d) ss'" "room q2 = 0 \<or> (\<forall>s \<in> set ss'. stream_idle s)"
      and dl: "(\<forall>s \<in> set (mStreams d). unat (guest_avail s) < 2 ^ 30) \<Longrightarrow>
         (\<forall>k. delivered q2 k @ owed k ss' = delivered q1 k @ owed k (mStreams d))"
      using send_streams_spec [OF bufs, of q1 n1] dev_inv_keys [OF assms] by (auto simp: stream_keys_def)
    let ?d = "d\<lparr>mOrphanPackets := os, mStreams := ss', mQemuDev := Some q2\<rparr>"
    have "sendPacketsLocked send d = Some (n2, ?d)"
      using q so ss False by (simp add: sendPacketsLocked_def)
    moreover have "device_advanced d ?d"
      using orph adv by (simp add: device_advanced_def)
    moreover have "\<forall>k. promised delivered ?d k = promised delivered d k" if "credits_fit d"
      using dl that orph q by (simp add: promised_def credits_fit_def)
    moreover have "room q2 = 0 \<or> mOrphanPackets ?d = [] \<and> (\<forall>s \<in> set (mStreams ?d). stream_idle s)"
      using adv(2) orph False by simp
    ultimately show ?thesis by auto
  qed
qed

lemma sendPacketsAndNotifyLocked_spec:
  assumes "dev_inv d"
  obtains d' where "sendPacketsAndNotifyLocked send d = Some d'" and "device_advanced d d'" and "dev_inv d'"
    and "stream_keys d' = stream_keys d"
    and "credits_fit d \<Longrightarrow> promised delivered d' = promised delivered d"
proof -
  obtain n d1 where s: "sendPacketsLocked send d = Some (n, d1)" and a: "device_advanced d d1"
    and p: "credits_fit d \<longrightarrow> (\<forall>k. promised delivered d1 k = promised delivered d k)"
    using sendPacketsLocked_spec [OF assms] by blast
  let ?d = "if n then d1\<lparr>notified := notified d1 + 1\<rparr> else d1"
  have "device_advanced d ?d" using a by (simp add: device_advanced_def)
  moreover have "promised delivered ?d = promised delivered d" if "credits_fit d"
    using p that by (auto simp: promised_def fun_eq_iff)
  moreover have "sendPacketsAndNotifyLocked send d = Some ?d"
    using s by (simp add: sendPacketsAndNotifyLocked_def)
  ultimately show ?thesis
    using that [of ?d] device_advanced_inv [OF assms] device_advanced_keys by blast
qed

end

lemma stream_key_update [simp]:
  "stream_key (s\<lparr>plug := p\<rparr>) = stream_key s"
  "stream_key (s\<lparr>dataSniffer := sn\<rparr>) = stream_key s"
  "stream_key (s\<lparr>hostToGuestBuf := b\<rparr>) = stream_key s"
  "stream_key (s\<lparr>isConnected := c\<rparr>) = stream_key s"
  "stream_key (s\<lparr>hostFwdCnt := n\<rparr>) = stream_key s"
  "stream_key (sendOp oper s) = stream_key s"
  "stream_key (set_guest_credit hdr s) = stream_key s"
  by (simp_all add: stream_key_def sendOp_def set_guest_credit_def)

lemma stream_ok_update [simp]:
  "stream_ok (s\<lparr>plug := Some p\<rparr>) = buf_inv (hostToGuestBuf s)"
  "stream_ok (s\<lparr>dataSniffer := sn\<rparr>) = stream_ok s"
  "stream_ok (s\<lparr>isConnected := c\<rparr>) = stream_ok s"
  "stream_ok (s\<lparr>hostFwdCnt := n\<rparr>) = stream_ok s"
  "stream_ok (sendOp oper s) = stream_ok s"
  "stream_ok (set_guest_credit hdr s) = stream_ok s"
  "stream_ok (s\<lparr>hostToGuestBuf := b\<rparr>) \<longleftrightarrow> plug s \<noteq> None \<and> buf_inv b"
  by (simp_all add: stream_ok_def sendOp_def set_guest_credit_def)

lemma switchPlug_ok:
  assumes "dev_inv d" shows "dev_inv (switchPlug k p d)" "stream_keys (switchPlug k p d) = stream_keys d"
  unfolding switchPlug_def using assms
  by (auto intro!: dev_inv_update simp: stream_ok_def)

context packet_transport
begin

lemma sendAsyncImpl_ok:
  assumes "dev_inv d" and "k \<in> set (stream_keys d)"
  shows "\<exists>d'. sendAsyncImpl send k data d = Some d' \<and> dev_inv d' \<and> stream_keys d' = stream_keys d"
proof -
  obtain s where s: "find_stream k (mStreams d) = Some s" using find_stream_ex [OF assms(2)] by blast
  let ?d = "update_stream k
     (\<lambda>s. s\<lparr>dataSniffer := map_option (\<lambda>l. l @ [ToSocket data]) (dataSniffer s),
            hostToGuestBuf := buf_append (hostToGuestBuf s) data\<rparr>) d"
  have "dev_inv ?d"
    using assms(1) by (intro dev_inv_update) (auto simp: stream_ok_def sbuf.add_law)
  then obtain d' where "sendPacketsAndNotifyLocked send ?d = Some d'" "dev_inv d'"
    "stream_keys d' = stream_keys ?d"
    by (rule sendPacketsAndNotifyLocked_spec)
  then show ?thesis using assms(1) s by (auto simp: sendAsyncImpl_def)
qed

lemma socket_calls_ok:
  assumes "dev_inv d" and "k \<in> set (stream_keys d)"
  shows "\<exists>d'. socket_calls send k cs d = Some d' \<and> dev_inv d' \<and> stream_keys d' = stream_keys d"
  using assms
proof (induction cs arbitrary: d)
  case Nil
  then show ?case by simp
next
  case (Cons c cs)
  show ?case
  proof (cases c)
    case (SendAsync data)
    obtain d1 where "sendAsyncImpl send k data d = Some d1" "dev_inv d1" "stream_keys d1 = stream_keys d"
      using sendAsyncImpl_ok [OF Cons.prems] by blast
    with Cons.IH [of d1] Cons.prems SendAsync show ?thesis by auto
  next
    case (SwitchPlug p)
    with Cons.IH [of "switchPlug k p d"] Cons.prems switchPlug_ok [of d k p] show ?thesis by simp
  qed
qed

lemma callOnConnect_ok:
  assumes "dev_inv d" and "k \<in> set (stream_keys d)"
  shows "\<exists>d'. callOnConnect P send k d = Some d' \<and> dev_inv d' \<and> stream_keys d' = stream_keys d"
proof -
  obtain s where s: "find_stream k (mStreams d) = Some s" using find_stream_ex [OF assms(2)] by blast
  then obtain p where p: "plug s = Some p"
    using find_stream_ok [OF assms(1) s] by (auto simp: stream_ok_def)
  obtain p' cs where c: "onConnect P p = (p', cs)" by (cases "onConnect P p")
  show ?thesis
    using socket_calls_ok [of "switchPlug k p' d" k cs] switchPlug_ok [OF assms(1), of k p'] assms(2)
    by (simp add: callOnConnect_def s p c)
qed

end

end
