(* ===== verification/Vsock_Reachable.thy ===== *)
theory Vsock_Reachable
  imports Vsock_Invariant
begin

text \<open>
  The vsock device as a state machine: every entry point that the guest, the plugs and the host use
  is a step.  No step from a state with the invariant fails an assertion or runs forever, and the
  invariant holds in every state that steps lead to.
\<close>

section \<open>Opening and closing\<close>

lemma find_stream_mem: "find_stream k (mStreams d) = Some s \<Longrightarrow> k \<in> set (stream_keys d)"
  using find_stream_Some [of k "mStreams d" s] by (auto simp: stream_keys_def)

lemma plug_credit: "plug (set_guest_credit hdr s) = plug s"
  by (simp add: set_guest_credit_def)

lemma dev_inv_orphan: "dev_inv d \<Longrightarrow> h_len h = 0 \<Longrightarrow> dev_inv (queueOrphanPacket h d)"
  by (auto simp: dev_inv_def queueOrphanPacket_def)

lemma stream_keys_orphan [simp]: "stream_keys (queueOrphanPacket h d) = stream_keys d"
  by (simp add: stream_keys_def queueOrphanPacket_def)

lemma orphan_header_len [simp]:
  "h_len (prepareStreamHeader s oper n) = n" "h_len (preparePacketHeader sp dp oper f n) = n"
  by (simp_all add: prepareStreamHeader_def preparePacketHeader_def)

lemma dev_inv_reply: "dev_inv d \<Longrightarrow> dev_inv (queueOrphanReply hdr oper d)"
  by (simp add: queueOrphanReply_def dev_inv_orphan)

lemma stream_keys_erase: "stream_keys (erase_stream k d) = filter (\<lambda>x. x \<noteq> k) (stream_keys d)"
  by (simp add: stream_keys_def erase_stream_def filter_map o_def)

lemma dev_inv_erase:
  assumes "dev_inv d" and "port_inv (filter (\<lambda>x. x \<noteq> k) (stream_keys d)) a"
  shows "dev_inv (erase_stream k (d\<lparr>mSrcPortAllocator := a\<rparr>))"
proof -
  let ?d = "erase_stream k (d\<lparr>mSrcPortAllocator := a\<rparr>)"
  have "map stream_key (mStreams ?d) = filter (\<lambda>x. x \<noteq> k) (stream_keys d)"
    using stream_keys_erase [of k "d\<lparr>mSrcPortAllocator := a\<rparr>"] by (simp add: stream_keys_def)
  then show ?thesis
    using assms unfolding dev_inv_def by (auto simp: erase_stream_def)
qed

lemma recycle_erase_ok:
  assumes "dev_inv d" and "stream_key s \<in> set (stream_keys d)" and "c \<Longrightarrow> plug s \<noteq> None"
  shows "\<exists>d1. recycleStreamLocked P s c oper d = Some d1 \<and> dev_inv (erase_stream (stream_key s) d1) \<and>
     stream_keys (erase_stream (stream_key s) d1) = filter (\<lambda>x. x \<noteq> stream_key s) (stream_keys d)"
proof -
  define d1 where "d1 = (if c then d\<lparr>unplugged := unplugged d @ [onUnplug P (the (plug s))]\<rparr> else d)"
  define d2 where "d2 = (if oper \<noteq> OP_INVALID then queueOrphanPacket (prepareStreamHeader s oper 0) d1 else d1)"
  have d2: "dev_inv d2" "stream_keys d2 = stream_keys d"
    using assms(1) by (simp_all add: d1_def d2_def dev_inv_orphan)
  have host: "snd (stream_key s) = hostPort s" by (simp add: stream_key_def)
  have alloc: "port_inv (stream_keys d) (mSrcPortAllocator d2)"
    using d2 by (simp add: dev_inv_def stream_keys_def)
  have eq: "recycleStreamLocked P s c oper d =
      (if hostPort s \<ge> kDynamicPortsStart
       then map_option (\<lambda>a. d2\<lparr>mSrcPortAllocator := a\<rparr>)
              (alloc_put (hostPort s - kDynamicPortsStart) (mSrcPortAllocator d2))
       else Some d2)"
    using assms(3) by (auto simp: recycleStreamLocked_def d1_def d2_def Let_def)
  show ?thesis
  proof (cases "kDynamicPortsStart \<le> hostPort s")
    case True
    then obtain a where "alloc_put (hostPort s - kDynamicPortsStart) (mSrcPortAllocator d2) = Some a"
      "port_inv (filter (\<lambda>x. x \<noteq> stream_key s) (stream_keys d)) a"
      using port_inv_put [OF alloc assms(2)] host by metis
    then show ?thesis
      using eq True dev_inv_erase [OF d2(1), of "stream_key s" a] d2(2)
      by (simp add: stream_keys_erase)
  next
    case False
    then have "port_inv (filter (\<lambda>x. x \<noteq> stream_key s) (stream_keys d)) (mSrcPortAllocator d2)"
      using port_inv_erase [OF alloc assms(2)] host by simp
    then show ?thesis
      using eq False dev_inv_erase [OF d2(1), of "stream_key s" "mSrcPortAllocator d2"] d2(2)
      by (simp add: stream_keys_erase)
  qed
qed

lemma dev_inv_insert_static:
  assumes "dev_inv d" and "stream_key s \<notin> set (stream_keys d)" and "hostPort s < kDynamicPortsStart"
    and "stream_ok s"
  shows "dev_inv (d\<lparr>mStreams := insert_stream s (mStreams d)\<rparr>)"
  using assms port_inv_insert_static [of "mStreams d" "mSrcPortAllocator d" s]
  by (auto simp: dev_inv_def stream_keys_def)

lemma dev_inv_insert_dynamic:
  assumes "dev_inv d" and "ports_left (mSrcPortAllocator d)"
    and "alloc_get (mSrcPortAllocator d) = (i, a)" and "hostPort s = i + kDynamicPortsStart"
    and "stream_ok s"
  shows "stream_key s \<notin> set (stream_keys d)"
    and "dev_inv (d\<lparr>mSrcPortAllocator := a, mStreams := insert_stream s (mStreams d)\<rparr>)"
  using assms port_inv_get [of "mStreams d" "mSrcPortAllocator d" i a s]
  by (auto simp: dev_inv_def stream_keys_def)

context packet_transport
begin

lemma connect_ok:
  assumes "dev_inv d" and "ports_left (mSrcPortAllocator d)"
  shows "\<exists>k d'. connect send guest p d = Some (k, d') \<and> dev_inv d' \<and> fst k = guest \<and>
     k \<notin> set (stream_keys d) \<and> k \<in> set (stream_keys d')"
proof -
  obtain i a where g: "alloc_get (mSrcPortAllocator d) = (i, a)"
    by (cases "alloc_get (mSrcPortAllocator d)")
  let ?s = "sendOp OP_REQUEST ((new_stream guest (i + kDynamicPortsStart))\<lparr>plug := Some p\<rparr>)"
  let ?d = "d\<lparr>mSrcPortAllocator := a, mStreams := insert_stream ?s (mStreams d)\<rparr>"
  have key: "stream_key ?s = (guest, i + kDynamicPortsStart)"
    by (simp add: stream_key_def sendOp_def new_stream_def)
  have host: "hostPort ?s = i + kDynamicPortsStart" and ok: "stream_ok ?s"
    by (simp_all add: sendOp_def new_stream_def stream_ok_def empty_buffer_def buf_inv_def)
  note new = dev_inv_insert_dynamic [OF assms g host ok]
  obtain d' where d': "sendPacketsAndNotifyLocked send ?d = Some d'" "dev_inv d'"
    "stream_keys d' = stream_keys ?d"
    using new(2) by (rule sendPacketsAndNotifyLocked_spec)
  have "find_stream (guest, i + kDynamicPortsStart) (mStreams d) = None"
    using new(1) key by (simp add: find_stream_None stream_keys_def)
  then have "connect send guest p d = Some ((guest, i + kDynamicPortsStart), d')"
    using g d'(1) by (simp add: connect_def)
  moreover have "(guest, i + kDynamicPortsStart) \<in> set (stream_keys d')"
    unfolding d'(3) using key by simp
  ultimately show ?thesis using d'(2) new(1) key by simp
qed

lemma unplugImpl_ok:
  assumes "dev_inv d" and "k \<in> set (stream_keys d)"
  shows "\<exists>p d'. unplugImpl P send k d = Some (p, d') \<and> dev_inv d' \<and>
     stream_keys d' = filter (\<lambda>x. x \<noteq> k) (stream_keys d)"
proof -
  obtain s where s: "find_stream k (mStreams d) = Some s" using find_stream_ex [OF assms(2)] by blast
  then obtain p where p: "plug s = Some p"
    using find_stream_ok [OF assms(1) s] by (auto simp: stream_ok_def)
  have key: "stream_key (s\<lparr>plug := None\<rparr>) = k" using find_stream_Some [OF s] by simp
  obtain d1 where d1: "recycleStreamLocked P (s\<lparr>plug := None\<rparr>) False OP_SHUTDOWN d = Some d1"
    "dev_inv (erase_stream k d1)" "stream_keys (erase_stream k d1) = filter (\<lambda>x. x \<noteq> k) (stream_keys d)"
    using recycle_erase_ok [OF assms(1), of "s\<lparr>plug := None\<rparr>" False P OP_SHUTDOWN] assms(2) key by auto
  obtain d' where "sendPacketsAndNotifyLocked send (erase_stream k d1) = Some d'" "dev_inv d'"
    "stream_keys d' = stream_keys (erase_stream k d1)"
    using d1(2) by (rule sendPacketsAndNotifyLocked_spec)
  then show ?thesis
    using s p d1 key by (simp add: unplugImpl_def unplugFromDevice_def)
qed

lemma processRequest_ok:
  assumes "dev_inv d"
  shows "\<exists>ok d'. processPacketOpRequestLocked P send hdr d = Some (ok, d') \<and> dev_inv d'"
proof (cases "mHostPortListeners d (h_dst_port hdr)")
  case None
  then show ?thesis using assms by (simp add: processPacketOpRequestLocked_def ex_bool_eq)
next
  case (Some l)
  let ?k = "(h_src_port hdr, h_dst_port hdr)"
  show ?thesis
  proof (cases "find_stream ?k (mStreams d) = None \<and> l ?k \<noteq> None")
    case False
    with Some assms show ?thesis
      by (auto simp: processPacketOpRequestLocked_def Let_def split: option.splits)
  next
    case True
    then obtain p where p: "l ?k = Some p" and f: "find_stream ?k (mStreams d) = None" by blast
    let ?s = "sendOp OP_RESPONSE ((new_stream (h_src_port hdr) (h_dst_port hdr))
       \<lparr>plug := Some p, guestBufAlloc := h_buf_alloc hdr, guestFwdCnt := h_fwd_cnt hdr, isConnected := True\<rparr>)"
    let ?d = "d\<lparr>mStreams := insert_stream ?s (mStreams d)\<rparr>"
    have key: "stream_key ?s = ?k" and ok: "stream_ok ?s" and host: "hostPort ?s = h_dst_port hdr"
      by (simp_all add: stream_key_def sendOp_def new_stream_def stream_ok_def empty_buffer_def buf_inv_def)
    have "h_dst_port hdr < kDynamicPortsStart" using assms Some by (auto simp: dev_inv_def)
    then have inv: "dev_inv ?d"
      using assms f key ok host by (intro dev_inv_insert_static) (simp_all add: find_stream_None stream_keys_def)
    have "?k \<in> set (stream_keys ?d)" using key by simp
    then obtain d' where "callOnConnect P send ?k ?d = Some d'" "dev_inv d'"
      using callOnConnect_ok [OF inv] by blast
    with Some f p show ?thesis by (simp add: processPacketOpRequestLocked_def ex_bool_eq)
  qed
qed

lemma onPacketReceiveControl_ok:
  assumes "dev_inv d"
  shows "\<exists>d'. onPacketReceiveControl P send hdr d = Some d' \<and> dev_inv d'"
proof (cases "h_op hdr = OP_REQUEST")
  case True
  obtain ok d' where "processPacketOpRequestLocked P send hdr d = Some (ok, d')" "dev_inv d'"
    using processRequest_ok [OF assms] by blast
  with True show ?thesis by (simp add: onPacketReceiveControl_def dev_inv_reply)
next
  case False
  let ?k = "hdr_key hdr"
  let ?d1 = "update_stream ?k (set_guest_credit hdr) d"
  show ?thesis
  proof (cases "find_stream ?k (mStreams d)")
    case None
    with False assms show ?thesis by (simp add: onPacketReceiveControl_def dev_inv_reply)
  next
    case (Some s0)
    let ?s = "set_guest_credit hdr s0"
    have key: "stream_key ?s = ?k" and mem: "?k \<in> set (stream_keys d)" and pl: "plug ?s \<noteq> None"
      using find_stream_Some [OF Some] find_stream_ok [OF assms Some]
      by (auto simp: stream_keys_def stream_ok_def plug_credit intro: rev_image_eqI)
    have inv1: "dev_inv ?d1" and keys1: "stream_keys ?d1 = stream_keys d"
      using assms by (auto intro!: dev_inv_update)
    have close: "\<exists>d'. map_option (erase_stream ?k) (recycleStreamLocked P ?s True oper ?d1) = Some d' \<and> dev_inv d'"
      for oper
      using recycle_erase_ok [OF inv1, of ?s True P oper] key mem keys1 pl by auto
    have resp: "dev_inv (update_stream ?k (\<lambda>s. s\<lparr>isConnected := True\<rparr>) ?d1)"
      "?k \<in> set (stream_keys (update_stream ?k (\<lambda>s. s\<lparr>isConnected := True\<rparr>) ?d1))"
      using inv1 keys1 mem by (auto intro!: dev_inv_update)
    have cred: "dev_inv (update_stream ?k (sendOp OP_CREDIT_UPDATE) ?d1)"
      using inv1 by (auto intro!: dev_inv_update)
    show ?thesis
      using False Some close callOnConnect_ok [OF resp, of P] cred inv1
      by (auto simp: onPacketReceiveControl_def Let_def)
  qed
qed

lemma onPacketReceiveRw_ok:
  assumes "dev_inv d" and "k \<in> set (stream_keys d)"
  shows "\<exists>e d'. onPacketReceiveRw P send k data d = Some (e, d') \<and> dev_inv d' \<and> stream_keys d' = stream_keys d"
proof -
  obtain s where s: "find_stream k (mStreams d) = Some s" using find_stream_ex [OF assms(2)] by blast
  then obtain p where p: "plug s = Some p"
    using find_stream_ok [OF assms(1) s] by (auto simp: stream_ok_def)
  obtain ok p' cs where r: "onReceive P p data = (ok, p', cs)" by (cases "onReceive P p data")
  let ?d1 = "update_stream k (\<lambda>s. s\<lparr>dataSniffer := map_option (\<lambda>l. l @ [ToPlug data]) (dataSniffer s)\<rparr>) d"
  have d1: "dev_inv ?d1" "stream_keys ?d1 = stream_keys d"
    using assms(1) by (auto intro!: dev_inv_update)
  obtain d2 where d2: "socket_calls send k cs (switchPlug k p' ?d1) = Some d2" "dev_inv d2"
    "stream_keys d2 = stream_keys d"
    using socket_calls_ok [OF switchPlug_ok(1) [OF d1(1)], of k k p' cs] switchPlug_ok(2) [OF d1(1)] d1(2) assms(2)
    by auto
  have "dev_inv (update_stream k
      (\<lambda>s. sendOp OP_CREDIT_UPDATE (s\<lparr>hostFwdCnt := hostFwdCnt s + of_nat (length data)\<rparr>)) d2)"
    using d2(2) by (auto intro!: dev_inv_update)
  with assms(1) s p r d2 show ?thesis by (cases "isConnected s"; cases ok) (simp_all add: onPacketReceiveRw_def ex_bool_eq)
qed

lemma receive_chunks_ok:
  assumes "dev_inv d" and "k \<in> set (stream_keys d)"
  shows "\<exists>e d'. receive_chunks P send k cs d = Some (e, d') \<and> dev_inv d' \<and> stream_keys d' = stream_keys d"
  using assms
proof (induction cs arbitrary: d)
  case Nil
  then show ?case by (simp add: ex_bool_eq)
next
  case (Cons c cs)
  obtain e d1 where "onPacketReceiveRw P send k c d = Some (e, d1)" "dev_inv d1" "stream_keys d1 = stream_keys d"
    using onPacketReceiveRw_ok [OF Cons.prems] by blast
  with Cons.IH [of d1] Cons.prems show ?case by (cases e) auto
qed

lemma onPacketReceiveRwEnd_ok:
  assumes "dev_inv d" and "k \<in> set (stream_keys d)"
  shows "\<exists>d'. onPacketReceiveRwEnd P k e d = Some d' \<and> dev_inv d'"
proof -
  obtain s where s: "find_stream k (mStreams d) = Some s" using find_stream_ex [OF assms(2)] by blast
  then show ?thesis
    using recycle_erase_ok [OF assms(1), of s True P OP_SHUTDOWN] find_stream_Some [OF s]
      find_stream_ok [OF assms(1) s] assms
    by (auto simp: onPacketReceiveRwEnd_def stream_ok_def)
qed

lemma parse_guest_to_host_ok:
  assumes "dev_inv d"
  shows "\<exists>d'. virtio_vsock_parse_guest_to_host P send parse cid iov d = Some d' \<and> dev_inv d'"
proof -
  let ?hdr = "parse (take sizeof_hdr (concat iov))" and ?k = "hdr_key (parse (take sizeof_hdr (concat iov)))"
  let ?d1 = "update_stream ?k (set_guest_credit ?hdr) d"
  have rw: "\<exists>d'. (case onPacketReceiveRwStart ?hdr d of None \<Rightarrow> Some d
      | Some (k, d1) \<Rightarrow> Option.bind (receive_chunks P send k chunks d1)
          (\<lambda>(erase, d2). onPacketReceiveRwEnd P k erase d2)) = Some d' \<and> dev_inv d'" for chunks
  proof (cases "find_stream ?k (mStreams d)")
    case None
    with assms show ?thesis by (simp add: onPacketReceiveRwStart_def)
  next
    case (Some s)
    then have mem: "?k \<in> set (stream_keys d)"
      by (rule find_stream_mem)
    have inv1: "dev_inv ?d1" and keys1: "stream_keys ?d1 = stream_keys d"
      using assms by (auto intro!: dev_inv_update)
    obtain e d2 where d2: "receive_chunks P send ?k chunks ?d1 = Some (e, d2)" "dev_inv d2"
      "stream_keys d2 = stream_keys d"
      using receive_chunks_ok [OF inv1, of ?k P chunks] keys1 mem by auto
    with Some onPacketReceiveRwEnd_ok [of d2 ?k P e] mem show ?thesis
      by (simp add: onPacketReceiveRwStart_def Let_def)
  qed
  then show ?thesis
    using assms onPacketReceiveControl_ok [OF assms, of P ?hdr]
    by (auto simp: virtio_vsock_parse_guest_to_host_def Let_def)
qed

end

section \<open>Steps\<close>

text \<open>
  The calls from outside, each as far as the code supports it: a listener on a static port, a
  connection while there are ports left, an operation on an open stream, a reset while no stream is
  open.  \<open>transport\<close> is anything that happens to the queue between two calls.
\<close>

inductive vsock_step ::
  "'p plug_ops \<Rightarrow> 'q send_fn \<Rightarrow> (bytes \<Rightarrow> vsock_hdr) \<Rightarrow> u64 \<Rightarrow> ('p, 'q) vsock_device \<Rightarrow> ('p, 'q) vsock_device \<Rightarrow> bool"
  for P :: "'p plug_ops" and S :: "'q send_fn" and parse :: "bytes \<Rightarrow> vsock_hdr" and cid :: u64 where
  listening: "port < kDynamicPortsStart \<Longrightarrow> listen port l d = (ok, d') \<Longrightarrow> vsock_step P S parse cid d d'"
| connecting: "ports_left (mSrcPortAllocator d) \<Longrightarrow> connect S guest p d = Some (k, d') \<Longrightarrow>
    vsock_step P S parse cid d d'"
| plug_sends: "k \<in> set (stream_keys d) \<Longrightarrow> sendAsyncImpl S k data d = Some d' \<Longrightarrow>
    vsock_step P S parse cid d d'"
| plug_replaced: "k \<in> set (stream_keys d) \<Longrightarrow> vsock_step P S parse cid d (switchPlug k p d)"
| sniffing: "k \<in> set (stream_keys d) \<Longrightarrow> vsock_step P S parse cid d (setDataSniffer k sn d)"
| plug_leaves: "k \<in> set (stream_keys d) \<Longrightarrow> unplugImpl P S k d = Some (p, d') \<Longrightarrow>
    vsock_step P S parse cid d d'"
| guest_packet: "virtio_vsock_parse_guest_to_host P S parse cid iov d = Some d' \<Longrightarrow>
    vsock_step P S parse cid d d'"
| buffers_ready: "sendPacketsLocked S d = Some (n, d') \<Longrightarrow> vsock_step P S parse cid d d'"
| status: "status AND 0x40 = 0 \<or> mStreams d = [] \<Longrightarrow> setStatus P status d = Some d' \<Longrightarrow>
    vsock_step P S parse cid d d'"
| transport: "vsock_step P S parse cid d (d\<lparr>mQemuDev := Some q\<rparr>)"

inductive_cases vsock_stepE: "vsock_step P S parse cid d d'"

text \<open>States the device gets into once it is realized.\<close>

inductive vsock_reachable ::
  "'p plug_ops \<Rightarrow> 'q send_fn \<Rightarrow> (bytes \<Rightarrow> vsock_hdr) \<Rightarrow> u64 \<Rightarrow> ('p, 'q) vsock_device \<Rightarrow> bool"
  for P :: "'p plug_ops" and S :: "'q send_fn" and parse :: "bytes \<Rightarrow> vsock_hdr" and cid :: u64 where
  realized: "vsock_reachable P S parse cid (realize q empty_device)"
| stepped: "vsock_reachable P S parse cid d \<Longrightarrow> vsock_step P S parse cid d d' \<Longrightarrow>
    vsock_reachable P S parse cid d'"

lemma dev_inv_realized: "dev_inv (realize q empty_device)"
  by (simp add: dev_inv_def realize_def empty_device_def port_inv_empty)

lemma listen_ok: "dev_inv d \<Longrightarrow> port < kDynamicPortsStart \<Longrightarrow> dev_inv (snd (listen port l d))"
  by (auto simp: dev_inv_def listen_def split: option.splits)

lemma alloc_reset_empty: "alloc_reset a = empty_allocator"
  by (cases a) (simp add: alloc_reset_def empty_allocator_def)

lemma setStatus_ok:
  assumes "dev_inv d" and "status AND 0x40 = 0 \<or> mStreams d = []" and "setStatus P status d = Some d'"
  shows "dev_inv d'"
  using assms port_inv_empty
  by (auto simp: setStatus_def dev_inv_def alloc_reset_empty split: if_splits)

context packet_transport
begin

lemma step_keeps_dev_inv:
  assumes "dev_inv d" and "vsock_step P send parse cid d d'"
  shows "dev_inv d'"
  using assms(2)
proof cases
  case (listening port l ok)
  then show ?thesis using listen_ok [OF assms(1), of port l] by simp
next
  case (connecting guest p k)
  then show ?thesis using connect_ok [OF assms(1), of guest p] by auto
next
  case (plug_sends k data)
  then show ?thesis using sendAsyncImpl_ok [OF assms(1), of k data] by auto
next
  case (plug_replaced k p)
  then show ?thesis using switchPlug_ok [OF assms(1)] by simp
next
  case (sniffing k sn)
  then show ?thesis using assms(1) by (auto simp: setDataSniffer_def intro!: dev_inv_update)
next
  case (plug_leaves k p)
  then show ?thesis using unplugImpl_ok [OF assms(1), of k P] by auto
next
  case (guest_packet iov)
  then show ?thesis using parse_guest_to_host_ok [OF assms(1), of P parse cid iov] by auto
next
  case (buffers_ready n)
  then show ?thesis using sendPacketsLocked_spec [OF assms(1)] device_advanced_inv [OF assms(1)] by auto
next
  case (status status)
  then show ?thesis using setStatus_ok [OF assms(1)] by blast
next
  case (transport q)
  then show ?thesis using assms(1) by (simp add: dev_inv_def)
qed

lemma reachable_dev_inv: "vsock_reachable P send parse cid d \<Longrightarrow> dev_inv d"
  by (induction rule: vsock_reachable.induct) (auto simp: dev_inv_realized intro: step_keeps_dev_inv)

end

end
