(* ===== verification/Vsock_Properties.thy ===== *)
theory Vsock_Properties
  imports Vsock_Reachable
begin

text \<open>
  The properties of the vsock device, on the low level code's own transport
  \<^const>\<open>virtio_vsock_send_packet_host_to_guest\<close>.  What the guest has received on a stream is
  \<^term>\<open>used_for k (vq_used q)\<close>, the payload of the buffers given back to it.
\<close>

abbreviation (input) to_guest :: "guest_vq send_fn" where
  "to_guest \<equiv> virtio_vsock_send_packet_host_to_guest"

abbreviation (input) received :: "guest_vq \<Rightarrow> stream_key \<Rightarrow> bytes" where
  "received \<equiv> \<lambda>q k. used_for k (vq_used q)"

section \<open>Credit\<close>

text \<open>The bytes in flight fit the buffer the guest announced.\<close>

definition credit_ok :: "'p vsock_stream \<Rightarrow> bool" where
  "credit_ok s \<longleftrightarrow> hostSentCnt s - guestFwdCnt s \<le> guestBufAlloc s"

lemma word_add_within:
  fixes x a :: u32
  assumes "x \<le> a" and "m \<le> unat (a - x)"
  shows "x + of_nat m \<le> a"
proof -
  have "unat (a - x) = unat a - unat x" using assms(1) by (simp add: unat_sub)
  moreover have "unat a < 2 ^ 32" using unsigned_less [of a, where 'a = nat] by simp
  moreover have "unat x \<le> unat a" using assms(1) by (simp add: word_le_nat_alt)
  ultimately show ?thesis
    using assms(2) by (simp add: word_le_nat_alt unat_word_ariths unat_of_nat take_bit_nat_eq_self)
qed

lemma stream_advanced_credit:
  assumes "stream_advanced s s'" and "credit_ok s"
  shows "credit_ok s'"
proof -
  from assms(1) obtain m where m: "stream_moved m s s'" "m \<le> unat (guest_avail s)"
    by (auto simp: stream_advanced_def)
  note f = stream_moved_fields [OF m(1)]
  have sent: "hostSentCnt s' - guestFwdCnt s' = (hostSentCnt s - guestFwdCnt s) + of_nat m"
    using f by simp
  show ?thesis
    unfolding credit_ok_def sent f(5)
    using assms(2) m(2) by (intro word_add_within) (simp_all add: credit_ok_def guest_avail_def)
qed

section \<open>Payload of incoming packets\<close>

lemma iov_chunks_concat:
  "concat (iov_chunks iov offset n) = take n (drop offset (concat iov))"
proof (induction iov offset n rule: iov_chunks.induct)
  case (1 offset n)
  then show ?case by simp
next
  case (2 v vs offset n)
  let ?skip = "min offset (length v)" and ?data = "min n (length v - min offset (length v))"
  show ?case
  proof (cases "n = 0")
    case True
    then show ?thesis by simp
  next
    case False
    have IH: "concat (iov_chunks vs (offset - ?skip) (n - ?data)) =
        take (n - ?data) (drop (offset - ?skip) (concat vs))"
      using "2.IH" [OF False refl refl] by (cases "?data > 0") auto
    have rest: "iov_chunks (v # vs) offset n =
        (if ?data > 0 then [take ?data (drop ?skip v)] else []) @ iov_chunks vs (offset - ?skip) (n - ?data)"
      using False by (auto simp: Let_def)
    show ?thesis
      unfolding rest concat_append IH by (simp add: drop_append take_append min_def)
  qed
qed

lemma iov_chunks_nonempty: "[] \<notin> set (iov_chunks iov offset n)"
  by (induction iov offset n rule: iov_chunks.induct) (auto simp: Let_def)

section \<open>A concrete device\<close>

text \<open>Plugs that count the bytes they got and answer every byte with its successor.\<close>

definition echo_plug :: "nat plug_ops" where
  "echo_plug =
     \<lparr>onConnect = (\<lambda>p. (p, [])),
      onReceive = (\<lambda>p bs. (True, p + length bs, [SendAsync (map (\<lambda>b. b + 1) bs)])),
      onUnplug = (\<lambda>p. p), supportsLoadingFromSnapshot = (\<lambda>_. False),
      getSnapshotTypeId = (\<lambda>_. []), saveStateToSnapshot = (\<lambda>_. (False, []))\<rparr>"

definition sample_vq :: guest_vq where
  "sample_vq = \<lparr>guest_cid = 3, vq_avail = replicate 8 64, vq_used = []\<rparr>"

definition sample_stream :: "nat vsock_stream" where
  "sample_stream = (new_stream 7 5000)
     \<lparr>plug := Some 0, hostToGuestBuf := \<lparr>mBuf = [1, 2, 3], mConsumed = 1\<rparr>, guestBufAlloc := 100,
      isConnected := True\<rparr>"

definition sample_device :: "(nat, guest_vq) vsock_device" where
  "sample_device = (realize sample_vq empty_device)\<lparr>mStreams := [sample_stream]\<rparr>"

lemma sample_device_inv: "dev_inv sample_device"
  by (simp add: sample_device_def dev_inv_def realize_def empty_device_def port_inv_def dyn_ports_def
      alloc_inv_def ids_in_use_def empty_allocator_def kDynamicPortsStart_val stream_key_def stream_ok_def
      sample_stream_def new_stream_def buf_inv_def)

lemma sample_device_streams [simp]: "mStreams sample_device = [sample_stream]"
  by (simp add: sample_device_def)

lemma sample_reachable:
  "vsock_reachable echo_plug to_guest (\<lambda>_. hdr) 3 (realize sample_vq empty_device)"
  by (rule realized)

section \<open>Properties\<close>





text \<open>
  C3: a round of sending neither loses, duplicates, reorders nor mixes up payload: for every
  stream, what the guest has received followed by what is still buffered is the same before and
  after (as long as no guest grants a gigabyte of credit, which a send result cannot count).
\<close>

theorem send_packets_conserves_payload:
  assumes "dev_inv d" and "credits_fit d" and "mQemuDev d = Some q"
  shows "\<exists>n d' q'. sendPacketsLocked virtio_vsock_send_packet_host_to_guest d = Some (n, d') \<and>
    mQemuDev d' = Some q' \<and>
    (\<forall>k. used_for k (vq_used q') @ owed k (mStreams d') = used_for k (vq_used q) @ owed k (mStreams d))"
proof -
  obtain n d' where "sendPacketsLocked to_guest d = Some (n, d')" "device_advanced d d'"
    and p: "\<forall>k. promised received d' k = promised received d k"
    using guest.sendPacketsLocked_spec [OF assms(1)] assms(2) by blast
  moreover from this(2) obtain q' where "mQemuDev d' = Some q'" by (auto simp: device_advanced_def)
  ultimately show ?thesis using assms(3) by (auto simp: promised_def)
qed

lemma sample_credits_fit: "credits_fit sample_device"
  by (simp add: credits_fit_def guest_avail_def sample_stream_def new_stream_def)

theorem send_packets_conserves_payload_witness:
  "\<exists>n d' q'. sendPacketsLocked virtio_vsock_send_packet_host_to_guest sample_device = Some (n, d') \<and>
    mQemuDev d' = Some q' \<and> used_for (7, 5000) (vq_used q') @ owed (7, 5000) (mStreams d') = [2, 3]"
proof -
  have "mQemuDev sample_device = Some sample_vq" by (simp add: sample_device_def realize_def)
  from send_packets_conserves_payload [OF sample_device_inv sample_credits_fit this] show ?thesis
    by (fastforce simp: sample_vq_def sample_stream_def new_stream_def stream_key_def buf_pending_def)
qed



text \<open>
  C5: sending makes all the progress it can: when a round leaves the guest with free buffers, no
  orphan packet and no control packet is waiting, and every stream has sent all its data or has
  used up the guest's credit.
\<close>

theorem send_packets_exhaustive:
  assumes "dev_inv d" and "sendPacketsLocked virtio_vsock_send_packet_host_to_guest d = Some (n, d')"
    and "mQemuDev d' = Some q'" and "vq_avail q' \<noteq> []"
  shows "mOrphanPackets d' = [] \<and>
    (\<forall>s \<in> set (mStreams d'). sendOpMask s = 0 \<and> (buf_pending (hostToGuestBuf s) = [] \<or> guest_avail s = 0))"
  using guest.sendPacketsLocked_spec [OF assms(1)] assms(2-) by (auto simp: stream_idle_def)

lemma sample_send:
  "case sendPacketsLocked to_guest sample_device of None \<Rightarrow> False
   | Some (n, d') \<Rightarrow> (case mQemuDev d' of None \<Rightarrow> False | Some q' \<Rightarrow> vq_avail q' \<noteq> [])"
  by code_simp

theorem send_packets_exhaustive_witness:
  "\<exists>n d'. sendPacketsLocked virtio_vsock_send_packet_host_to_guest sample_device = Some (n, d') \<and>
     (\<forall>s \<in> set (mStreams d'). buf_pending (hostToGuestBuf s) = [] \<or> guest_avail s = 0)"
proof -
  obtain n d' q' where r: "sendPacketsLocked to_guest sample_device = Some (n, d')"
    "mQemuDev d' = Some q'" "vq_avail q' \<noteq> []"
    using sample_send by (auto split: option.splits prod.splits)
  from send_packets_exhaustive [OF sample_device_inv r] r show ?thesis by blast
qed

lemma owed_update_stream:
  assumes "\<And>s. stream_key (f s) = stream_key s"
  shows "owed k' (mStreams (update_stream k f d)) =
    (case find_stream k' (mStreams d) of None \<Rightarrow> [] | Some s \<Rightarrow> pending_of (if k' = k then f s else s))"
proof -
  have "owed k' (map (\<lambda>s. if stream_key s = k then f s else s) ss) =
    (case find_stream k' ss of None \<Rightarrow> [] | Some s \<Rightarrow> pending_of (if k' = k then f s else s))" for ss
    by (induction ss) (auto simp: assms find_stream_def)
  then show ?thesis by (simp add: update_stream_def)
qed

lemma credits_fit_update:
  "credits_fit d \<Longrightarrow> (\<And>s. guest_avail (f s) = guest_avail s) \<Longrightarrow> credits_fit (update_stream k f d)"
  by (auto simp: credits_fit_def update_stream_def)

text \<open>
  data that a plug sends on a connected stream is queued behind everything the stream took
  before, and no other stream is affected; on a stream that is not connected yet it is dropped.
\<close>

theorem send_async_queues_in_order:
  assumes "dev_inv d" and "credits_fit d" and "find_stream k (mStreams d) = Some s"
  shows "\<exists>d'. sendAsyncImpl virtio_vsock_send_packet_host_to_guest k data d = Some d' \<and>
    (if isConnected s
     then \<forall>k'. promised (\<lambda>q k. used_for k (vq_used q)) d' k' =
            promised (\<lambda>q k. used_for k (vq_used q)) d k' @ (if k' = k then data else [])
     else d' = d)"
proof (cases "isConnected s")
  case False
  then show ?thesis using assms(3) by (simp add: sendAsyncImpl_def)
next
  case True
  let ?f = "\<lambda>s :: 'a vsock_stream. s\<lparr>dataSniffer := map_option (\<lambda>l. l @ [ToSocket data]) (dataSniffer s),
            hostToGuestBuf := buf_append (hostToGuestBuf s) data\<rparr>"
  let ?d = "update_stream k ?f d"
  have inv: "dev_inv ?d"
    using assms(1) by (intro dev_inv_update) (auto simp: stream_ok_def sbuf.add_law)
  have fit: "credits_fit ?d"
    using assms(2) by (rule credits_fit_update) (simp add: guest_avail_def)
  obtain d' where d': "sendPacketsAndNotifyLocked to_guest ?d = Some d'"
    "promised received d' = promised received ?d"
    using guest.sendPacketsAndNotifyLocked_spec [OF inv] fit by blast
  have "buf_inv (hostToGuestBuf s)" using find_stream_ok [OF assms(1,3)] by (simp add: stream_ok_def)
  then have "owed k' (mStreams ?d) = owed k' (mStreams d) @ (if k' = k then data else [])" for k'
    using assms(3) by (subst owed_update_stream) (auto simp: owed_def sbuf.add_law split: option.splits)
  then have "promised received ?d k' = promised received d k' @ (if k' = k then data else [])" for k'
    by (simp add: promised_def update_stream_fields)
  then show ?thesis using True assms(3) d' by (simp add: sendAsyncImpl_def)
qed

theorem send_async_queues_in_order_witness:
  "\<exists>d'. sendAsyncImpl virtio_vsock_send_packet_host_to_guest (7, 5000) [9] sample_device = Some d' \<and>
    promised (\<lambda>q k. used_for k (vq_used q)) d' (7, 5000) = [2, 3, 9]"
proof -
  have f: "find_stream (7, 5000) (mStreams sample_device) = Some sample_stream"
    by (simp add: find_stream_def stream_key_def sample_stream_def new_stream_def)
  have "promised received sample_device (7, 5000) = [2, 3]" and "isConnected sample_stream"
    by (simp_all add: promised_def sample_device_def realize_def sample_vq_def sample_stream_def
        new_stream_def stream_key_def buf_pending_def)
  with send_async_queues_in_order [OF sample_device_inv sample_credits_fit f, of "[9]"] show ?thesis
    by auto
qed

text \<open>
  whatever way the guest splits a packet over its I/O vector, header included, the pieces
  handed to the plug are together exactly the payload, and none of them is empty.
\<close>

theorem iov_payload_exact:
  "concat (iov_chunks iov sizeof_hdr n) = take n (drop sizeof_hdr (concat iov)) \<and>
   [] \<notin> set (iov_chunks iov sizeof_hdr n)"
  by (simp add: iov_chunks_concat iov_chunks_nonempty)

text \<open>
  C38: a device reset keeps the streams but forgets their ports, so the next connection to a guest
  port that was first connected before the reset fails an assertion.
\<close>

theorem reset_then_connect_aborts:
  assumes "dev_inv d" and "(guest, kDynamicPortsStart + 1) \<in> set (stream_keys d)"
  shows "\<exists>d'. setStatus P 0x40 d = Some d' \<and> stream_keys d' = stream_keys d \<and> connect S guest p d' = None"
proof -
  have "\<forall>s \<in> set (mStreams d). plug s \<noteq> None" using assms(1) by (auto simp: dev_inv_def stream_ok_def)
  then obtain d' where d': "setStatus P 0x40 d = Some d'" "mStreams d' = mStreams d"
    "mSrcPortAllocator d' = empty_allocator"
    by (simp add: setStatus_def alloc_reset_empty)
  moreover have "find_stream (guest, 1 + kDynamicPortsStart) (mStreams d) \<noteq> None"
    using assms(2) by (simp add: find_stream_None stream_keys_def add.commute)
  ultimately show ?thesis
    by (auto simp: connect_def alloc_get_def empty_allocator_def stream_keys_def)
qed

lemma sample_connected:
  "(case connect to_guest 5555 (0 :: nat) (realize sample_vq empty_device) of None \<Rightarrow> False
    | Some (k, d) \<Rightarrow> (5555, kDynamicPortsStart + 1) \<in> set (stream_keys d))"
  by code_simp

theorem reset_then_connect_aborts_witness:
  "\<exists>k d d'. connect virtio_vsock_send_packet_host_to_guest 5555 0 (realize sample_vq empty_device) = Some (k, d) \<and>
     setStatus echo_plug 0x40 d = Some d' \<and>
     connect virtio_vsock_send_packet_host_to_guest 5555 0 d' = None"
proof -
  obtain k d where c: "connect to_guest 5555 (0 :: nat) (realize sample_vq empty_device) = Some (k, d)"
    "(5555, kDynamicPortsStart + 1) \<in> set (stream_keys d)"
    using sample_connected by (auto split: option.splits)
  have "ports_left (mSrcPortAllocator (realize sample_vq empty_device :: (nat, guest_vq) vsock_device))"
    by (simp add: ports_left_def realize_def empty_device_def empty_allocator_def kDynamicPortsStart_val)
  with c(1) have "dev_inv d"
    using guest.connect_ok [OF dev_inv_realized, of sample_vq 5555 "0 :: nat"] by auto
  from reset_then_connect_aborts [OF this c(2), of echo_plug to_guest 0] c(1) show ?thesis by blast
qed

end
