(* ===== verification/Vsock_Snapshot.thy ===== *)
theory Vsock_Snapshot
  imports Vsock_Reachable
begin

text \<open>
  Saving the vsock device into a snapshot and loading it (\<^verbatim>\<open>saveToSnapshot\<close> and
  \<^verbatim>\<open>loadFromSnapshot\<close> of \<^verbatim>\<open>plugin/vsock_goldfish/vsock.cpp\<close>).  The status is the \<^verbatim>\<open>int\<close> the C++
  functions return, 0 for success; \<^const>\<open>None\<close> is a failed assertion.
\<close>

section \<open>Saving\<close>

definition save_orphan :: "'w write_fn \<Rightarrow> vsock_hdr \<Rightarrow> 'w \<Rightarrow> 'w" where
  "save_orphan wr h w =
     put_u32 wr (put_u32 wr (put_u16 wr (put_u32 wr (put_u32 wr w (h_src_port h)) (h_dst_port h)) (h_op h))
       (h_buf_alloc h)) (h_fwd_cnt h)"

definition stream_flags :: "'p vsock_stream \<Rightarrow> u32" where
  "stream_flags s = (if isConnected s then 1 else 0) OR ucast (sendOpMask s)"

definition save_stream :: "'p plug_ops \<Rightarrow> 'w write_fn \<Rightarrow> 'p vsock_stream \<Rightarrow> 'w \<Rightarrow> (nat \<times> 'w) option" where
  "save_stream P wr s w =
     (let w1 = put_u32 wr (put_u32 wr (put_u32 wr w (guestPort s)) (hostPort s)) (hostFwdCnt s)
      in case plug s of
           None \<Rightarrow> None
         | Some p \<Rightarrow>
             (let w2 = put_bool wr w1 (supportsLoadingFromSnapshot P p)
              in if supportsLoadingFromSnapshot P p then
                   (if dataSniffer s \<noteq> None then None
                    else
                      (let w3 = put_u32 wr (put_u32 wr (put_u32 wr (put_u32 wr w2 (guestBufAlloc s))
                                  (guestFwdCnt s)) (hostSentCnt s)) (stream_flags s)
                       in case buf_save wr w3 (hostToGuestBuf s) of
                            None \<Rightarrow> None
                          | Some w4 \<Rightarrow>
                              (let (ok, w5) = savePlugToSnapshot P wr p w4
                               in Some (if ok then 0 else 1, w5))))
                 else Some (0, w2)))"

fun save_streams :: "'p plug_ops \<Rightarrow> 'w write_fn \<Rightarrow> 'p vsock_stream list \<Rightarrow> 'w \<Rightarrow> (nat \<times> 'w) option" where
  "save_streams P wr [] w = Some (0, w)"
| "save_streams P wr (s # ss) w =
     (case save_stream P wr s w of
        None \<Rightarrow> None
      | Some (st, w') \<Rightarrow> if st \<noteq> 0 then Some (st, w') else save_streams P wr ss w')"

text \<open>\<open>parent\<close> is \<^verbatim>\<open>mParentStateSave\<close> with its argument, when one is set.\<close>

definition saveToSnapshot ::
  "'p plug_ops \<Rightarrow> 'w write_fn \<Rightarrow> ('w \<Rightarrow> nat \<times> 'w) option \<Rightarrow> ('p, 'q) vsock_device \<Rightarrow> 'w \<Rightarrow> (nat \<times> 'w) option" where
  "saveToSnapshot P wr parent d w =
     (let (r, w1) = (case parent of None \<Rightarrow> (0, w) | Some sv \<Rightarrow> sv w)
      in if r \<noteq> 0 then Some (r, w1)
         else
           (let w2 = alloc_save wr w1 (mSrcPortAllocator d);
                w3 = fold (save_orphan wr) (mOrphanPackets d) (put_size wr w2 (length (mOrphanPackets d)))
            in save_streams P wr (mStreams d) (put_size wr w3 (length (mStreams d)))))"

section \<open>Loading\<close>

text \<open>The fields of a packet that loading leaves uninitialised come from \<open>junk\<close>.\<close>

definition load_orphan :: "'r read_fn \<Rightarrow> vsock_hdr \<Rightarrow> 'r \<Rightarrow> vsock_hdr \<times> 'r" where
  "load_orphan rd junk r =
     (let (src, r1) = getUnsigned rd r; (dst, r2) = getUnsigned rd r1; (oper, r3) = getUnsigned rd r2;
          (alloc, r4) = getUnsigned rd r3; (fwd, r5) = getUnsigned rd r4
      in (junk\<lparr>h_src_port := ucast src, h_dst_port := ucast dst, h_op := ucast oper,
               h_buf_alloc := ucast alloc, h_fwd_cnt := ucast fwd, h_len := 0\<rparr>, r5))"

fun load_orphans :: "'r read_fn \<Rightarrow> vsock_hdr \<Rightarrow> nat \<Rightarrow> 'r \<Rightarrow> vsock_hdr list \<times> 'r" where
  "load_orphans rd junk 0 r = ([], r)"
| "load_orphans rd junk (Suc n) r =
     (let (h, r') = load_orphan rd junk r; (hs, r'') = load_orphans rd junk n r' in (h # hs, r''))"

text \<open>
  One round of the loop over the streams: the status to return at once, if any, and what the round
  changed.
\<close>

definition load_stream ::
  "'r read_fn \<Rightarrow> ('r, 'p) plug_loaders \<Rightarrow> 'r \<Rightarrow> ('p, 'q) vsock_device \<Rightarrow> nat option \<times> ('p, 'q) vsock_device \<times> 'r" where
  "load_stream rd loaders r d =
     (let (guest64, r1) = getUnsigned rd r; (host64, r2) = getUnsigned rd r1;
          (fwd, r3) = getUnsigned rd r2; (loads, r4) = getUnsigned rd r3;
          guest = ucast guest64 :: u32; host = ucast host64 :: u32
      in if loads \<noteq> 0 then
           (case find_stream (guest, host) (mStreams d) of
              Some _ \<Rightarrow> (Some 1, d, r4)
            | None \<Rightarrow>
                (let (alloc, r5) = getUnsigned rd r4; (gfwd, r6) = getUnsigned rd r5;
                     (sent, r7) = getUnsigned rd r6; (flags64, r8) = getUnsigned rd r7;
                     flags = ucast flags64 :: u8; ((_, buf), r9) = buf_load rd r8;
                     (p, r10) = loadPlugFromSnapshot rd loaders r9;
                     s = (new_stream guest host)
                           \<lparr>hostFwdCnt := ucast fwd, guestBufAlloc := ucast alloc, guestFwdCnt := ucast gfwd,
                            hostSentCnt := ucast sent, isConnected := (flags AND 1 \<noteq> 0),
                            sendOpMask := flags AND NOT 1, hostToGuestBuf := buf, plug := p\<rparr>
                 in case p of
                      Some _ \<Rightarrow> (Some 1, d\<lparr>mStreams := insert_stream s (mStreams d)\<rparr>, r10)
                    | None \<Rightarrow> (Some 1, d, r10)))
         else (None, queueOrphanPacket (preparePacketHeader host guest OP_RST (ucast fwd) 0) d, r4))"

fun load_streams ::
  "'r read_fn \<Rightarrow> ('r, 'p) plug_loaders \<Rightarrow> nat \<Rightarrow> 'r \<Rightarrow> ('p, 'q) vsock_device \<Rightarrow> nat option \<times> ('p, 'q) vsock_device \<times> 'r" where
  "load_streams rd loaders 0 r d = (None, d, r)"
| "load_streams rd loaders (Suc n) r d =
     (case load_stream rd loaders r d of
        (Some st, d', r') \<Rightarrow> (Some st, d', r')
      | (None, d', r') \<Rightarrow> load_streams rd loaders n r' d')"

definition loadFromSnapshot ::
  "'q send_fn \<Rightarrow> 'r read_fn \<Rightarrow> ('r, 'p) plug_loaders \<Rightarrow> ('r \<Rightarrow> nat \<times> 'r) option \<Rightarrow> vsock_hdr \<Rightarrow>
   ('p, 'q) vsock_device \<Rightarrow> 'r \<Rightarrow> (nat \<times> ('p, 'q) vsock_device \<times> 'r) option" where
  "loadFromSnapshot S rd loaders parent junk d r =
     (let (st, r1) = (case parent of None \<Rightarrow> (0, r) | Some ld \<Rightarrow> ld r)
      in if st \<noteq> 0 then Some (st, d, r1)
         else
           (let (a, r2) = alloc_load rd r1; (n, r3) = getUnsigned rd r2;
                (os, r4) = load_orphans rd junk (unat n) r3; (m, r5) = getUnsigned rd r4;
                d1 = d\<lparr>mSrcPortAllocator := a, mOrphanPackets := os, mStreams := []\<rparr>
            in case load_streams rd loaders (unat m) r5 d1 of
                 (Some st, d2, r6) \<Rightarrow> Some (st, d2, r6)
               | (None, d2, r6) \<Rightarrow> map_option (\<lambda>d3. (0, d3, r6)) (sendPacketsAndNotifyLocked S d2)))"

section \<open>What is written\<close>

abbreviation enc32 :: "u32 \<Rightarrow> bytes" where
  "enc32 x \<equiv> encode_unsigned (ucast x)"

definition orphan_bytes :: "vsock_hdr \<Rightarrow> bytes" where
  "orphan_bytes h = enc32 (h_src_port h) @ enc32 (h_dst_port h) @ encode_unsigned (ucast (h_op h)) @
     enc32 (h_buf_alloc h) @ enc32 (h_fwd_cnt h)"

definition stream_head :: "bool \<Rightarrow> 'p vsock_stream \<Rightarrow> bytes" where
  "stream_head loads s = enc32 (guestPort s) @ enc32 (hostPort s) @ enc32 (hostFwdCnt s) @ encode_unsigned (of_bool loads)"

definition plug_bytes :: "'p plug_ops \<Rightarrow> 'p \<Rightarrow> bytes" where
  "plug_bytes P p = encode_unsigned (of_nat (length (getSnapshotTypeId P p))) @ getSnapshotTypeId P p @
     snd (saveStateToSnapshot P p)"

definition stream_body :: "'p plug_ops \<Rightarrow> 'p vsock_stream \<Rightarrow> bytes" where
  "stream_body P s = enc32 (guestBufAlloc s) @ enc32 (guestFwdCnt s) @ enc32 (hostSentCnt s) @
     enc32 (stream_flags s) @ buf_bytes (hostToGuestBuf s) @ plug_bytes P (the (plug s))"

definition can_load :: "'p plug_ops \<Rightarrow> 'p vsock_stream \<Rightarrow> bool" where
  "can_load P s \<longleftrightarrow> (case plug s of None \<Rightarrow> False | Some p \<Rightarrow> supportsLoadingFromSnapshot P p)"

definition stream_bytes :: "'p plug_ops \<Rightarrow> 'p vsock_stream \<Rightarrow> bytes" where
  "stream_bytes P s = stream_head (can_load P s) s @ (if can_load P s then stream_body P s else [])"

text \<open>A stream the code can save: its plug names a type and gives its state.\<close>

definition savable :: "'p plug_ops \<Rightarrow> 'p vsock_stream \<Rightarrow> bool" where
  "savable P s \<longleftrightarrow> stream_ok s \<and> (can_load P s \<longrightarrow> dataSniffer s = None \<and>
     getSnapshotTypeId P (the (plug s)) \<noteq> [] \<and> fst (saveStateToSnapshot P (the (plug s))))"

definition device_bytes :: "'p plug_ops \<Rightarrow> ('p, 'q) vsock_device \<Rightarrow> bytes" where
  "device_bytes P d = alloc_bytes (mSrcPortAllocator d) @
     encode_unsigned (of_nat (length (mOrphanPackets d))) @ concat (map orphan_bytes (mOrphanPackets d)) @
     encode_unsigned (of_nat (length (mStreams d))) @ concat (map (stream_bytes P) (mStreams d))"

context byte_writer
begin

lemma contents_save_orphans:
  "contents (fold (save_orphan wr) hs w) = contents w @ concat (map orphan_bytes hs)"
  by (induction hs arbitrary: w) (simp_all add: save_orphan_def orphan_bytes_def contents_put)

lemma contents_save_stream:
  assumes "savable P s"
  obtains w' where "save_stream P wr s w = Some (0, w')" and "contents w' = contents w @ stream_bytes P s"
proof -
  obtain p where p: "plug s = Some p" and b: "buf_inv (hostToGuestBuf s)"
    using assms by (auto simp: savable_def stream_ok_def)
  let ?w2 = "put_bool wr (put_u32 wr (put_u32 wr (put_u32 wr w (guestPort s)) (hostPort s)) (hostFwdCnt s))
     (supportsLoadingFromSnapshot P p)"
  show ?thesis
  proof (cases "supportsLoadingFromSnapshot P p")
    case False
    then show ?thesis
      using that p by (auto simp: save_stream_def stream_bytes_def can_load_def stream_head_def contents_put)
  next
    case True
    let ?w3 = "put_u32 wr (put_u32 wr (put_u32 wr (put_u32 wr ?w2 (guestBufAlloc s))
                 (guestFwdCnt s)) (hostSentCnt s)) (stream_flags s)"
    obtain w4 where w4: "buf_save wr ?w3 (hostToGuestBuf s) = Some w4"
      "contents w4 = contents ?w3 @ buf_bytes (hostToGuestBuf s)"
      by (rule contents_buf_save [OF b])
    have ok: "getSnapshotTypeId P p \<noteq> []" "saveStateToSnapshot P p = (True, snd (saveStateToSnapshot P p))"
      "dataSniffer s = None"
      using assms p True by (auto simp: savable_def can_load_def prod_eq_iff)
    obtain w5 where w5: "savePlugToSnapshot P wr p w4 = (True, w5)"
      "contents w5 = contents w4 @ plug_bytes P p"
      by (rule contents_savePlug [OF True ok(1,2)]) (simp add: plug_bytes_def)
    show ?thesis
      using that [of w5] p True ok w4 w5
      by (simp add: save_stream_def Let_def stream_bytes_def can_load_def stream_head_def stream_body_def contents_put)
  qed
qed

lemma contents_save_streams:
  assumes "\<forall>s \<in> set ss. savable P s"
  obtains w' where "save_streams P wr ss w = Some (0, w')"
    and "contents w' = contents w @ concat (map (stream_bytes P) ss)"
  using assms
proof (induction ss arbitrary: w thesis)
  case Nil
  then show ?case by simp
next
  case (Cons s ss)
  obtain w1 where w1: "save_stream P wr s w = Some (0, w1)" "contents w1 = contents w @ stream_bytes P s"
    using Cons.prems(2) contents_save_stream [of P s w] by auto
  obtain w2 where "save_streams P wr ss w1 = Some (0, w2)"
    "contents w2 = contents w1 @ concat (map (stream_bytes P) ss)"
    using Cons.IH [of w1] Cons.prems(2) by auto
  then show ?case using Cons.prems(1) [of w2] w1 by simp
qed

lemma contents_saveToSnapshot:
  assumes "\<forall>s \<in> set (mStreams d). savable P s"
  obtains w' where "saveToSnapshot P wr None d w = Some (0, w')" and "contents w' = contents w @ device_bytes P d"
proof -
  let ?w3 = "fold (save_orphan wr) (mOrphanPackets d)
     (put_size wr (alloc_save wr w (mSrcPortAllocator d)) (length (mOrphanPackets d)))"
  obtain w' where "save_streams P wr (mStreams d) (put_size wr ?w3 (length (mStreams d))) = Some (0, w')"
    "contents w' = contents (put_size wr ?w3 (length (mStreams d))) @ concat (map (stream_bytes P) (mStreams d))"
    by (rule contents_save_streams [OF assms])
  then show ?thesis
    using that [of w'] by (simp add: saveToSnapshot_def Let_def device_bytes_def contents_put
        contents_save_orphans contents_alloc_save)
qed

end

section \<open>What is read back\<close>

lemma ucast_up_down [simp]:
  "ucast (ucast (x :: u32) :: u64) = x" "ucast (ucast (y :: u16) :: u64) = y" "ucast (ucast (z :: u8) :: u32) = z"
  by (rule bit_word_eqI, simp add: bit_simps)+

definition orphan_image :: "vsock_hdr \<Rightarrow> vsock_hdr \<Rightarrow> vsock_hdr" where
  "orphan_image junk h = junk\<lparr>h_src_port := h_src_port h, h_dst_port := h_dst_port h, h_op := h_op h,
     h_buf_alloc := h_buf_alloc h, h_fwd_cnt := h_fwd_cnt h, h_len := 0\<rparr>"

definition restored :: "'p vsock_stream \<Rightarrow> 'p \<Rightarrow> 'p vsock_stream" where
  "restored s p = s\<lparr>hostToGuestBuf := \<lparr>mBuf = buf_pending (hostToGuestBuf s), mConsumed = 0\<rparr>,
     dataSniffer := None, plug := Some p\<rparr>"

text \<open>A loader that reads back what the plug saved.\<close>

definition loads_back :: "('r \<Rightarrow> bytes) \<Rightarrow> 'p plug_ops \<Rightarrow> ('r, 'p) plug_loaders \<Rightarrow> 'p \<Rightarrow> bool" where
  "loads_back contents P loaders p \<longleftrightarrow> length (getSnapshotTypeId P p) < 2 ^ 64 \<and> getSnapshotTypeId P p \<noteq> [] \<and>
     (\<exists>ld. loaders (getSnapshotTypeId P p) = Some ld \<and>
       (\<forall>r rest. contents r = snd (saveStateToSnapshot P p) @ rest \<longrightarrow>
          (\<exists>r'. ld r = (Some p, r') \<and> contents r' = rest)))"

lemma restored_fields:
  "restored s p = \<lparr>guestPort = guestPort s, hostPort = hostPort s, plug = Some p, dataSniffer = None,
     hostToGuestBuf = \<lparr>mBuf = buf_pending (hostToGuestBuf s), mConsumed = 0\<rparr>,
     guestBufAlloc = guestBufAlloc s, guestFwdCnt = guestFwdCnt s, hostSentCnt = hostSentCnt s,
     hostFwdCnt = hostFwdCnt s, sendOpMask = sendOpMask s, isConnected = isConnected s\<rparr>"
  by (cases s) (simp add: restored_def)

lemma flags_connected:
  assumes "\<not> bit (sendOpMask s) 0"
  shows "(ucast (ucast (stream_flags s) :: u64) :: u8) AND 1 \<noteq> 0 \<longleftrightarrow> isConnected s"
    and "(ucast (ucast (stream_flags s) :: u64) :: u8) AND NOT 1 = sendOpMask s"
proof -
  let ?f = "ucast (ucast (stream_flags s) :: u64) :: u8"
  have b: "bit ?f i \<longleftrightarrow> (i = 0 \<and> isConnected s \<or> bit (sendOpMask s) i)" if "i < 8" for i
    using that by (auto simp: stream_flags_def bit_simps)
  have "?f AND 1 = of_bool (bit ?f 0)" by (simp add: and_one_eq mod_2_eq_odd bit_0)
  with b [of 0] assms show "?f AND 1 \<noteq> 0 \<longleftrightarrow> isConnected s" by simp
  show "?f AND NOT 1 = sendOpMask s"
    using b assms by (intro bit_word_eqI) (auto simp: bit_simps intro!: Nat.gr0I)
qed

context byte_reader
begin

lemma load_orphan_bytes:
  assumes "contents r = orphan_bytes h @ rest"
  obtains r' where "load_orphan rd junk r = (orphan_image junk h, r')" and "contents r' = rest"
proof -
  obtain r1 where 1: "getUnsigned rd r = (ucast (h_src_port h), r1)" "contents r1 = enc32 (h_dst_port h) @
      encode_unsigned (ucast (h_op h)) @ enc32 (h_buf_alloc h) @ enc32 (h_fwd_cnt h) @ rest"
    by (rule getUnsigned_encode) (use assms in \<open>auto simp: orphan_bytes_def\<close>)
  obtain r2 where 2: "getUnsigned rd r1 = (ucast (h_dst_port h), r2)" "contents r2 =
      encode_unsigned (ucast (h_op h)) @ enc32 (h_buf_alloc h) @ enc32 (h_fwd_cnt h) @ rest"
    by (rule getUnsigned_encode [OF 1(2)])
  obtain r3 where 3: "getUnsigned rd r2 = (ucast (h_op h), r3)" "contents r3 =
      enc32 (h_buf_alloc h) @ enc32 (h_fwd_cnt h) @ rest"
    by (rule getUnsigned_encode [OF 2(2)])
  obtain r4 where 4: "getUnsigned rd r3 = (ucast (h_buf_alloc h), r4)" "contents r4 = enc32 (h_fwd_cnt h) @ rest"
    by (rule getUnsigned_encode [OF 3(2)])
  obtain r5 where 5: "getUnsigned rd r4 = (ucast (h_fwd_cnt h), r5)" "contents r5 = rest"
    by (rule getUnsigned_encode [OF 4(2)])
  show ?thesis using that [of r5] 1 2 3 4 5 by (simp add: load_orphan_def orphan_image_def)
qed

lemma load_orphans_bytes:
  assumes "contents r = concat (map orphan_bytes hs) @ rest"
  obtains r' where "load_orphans rd junk (length hs) r = (map (orphan_image junk) hs, r')" and "contents r' = rest"
  using assms
proof (induction hs arbitrary: r thesis)
  case Nil
  then show ?case by simp
next
  case (Cons h hs)
  obtain r1 where "load_orphan rd junk r = (orphan_image junk h, r1)"
    and c: "contents r1 = concat (map orphan_bytes hs) @ rest"
    by (rule load_orphan_bytes [of r h "concat (map orphan_bytes hs) @ rest" junk])
      (use Cons.prems(2) in auto)
  moreover obtain r2 where "load_orphans rd junk (length hs) r1 = (map (orphan_image junk) hs, r2)" "contents r2 = rest"
    by (rule Cons.IH [OF _ c])
  ultimately show ?case using Cons.prems(1) [of r2] by simp
qed

lemma read_stream_head:
  assumes "contents r = stream_head loads s @ rest"
  obtains r1 r2 r3 r4 where "getUnsigned rd r = (ucast (guestPort s), r1)"
    and "getUnsigned rd r1 = (ucast (hostPort s), r2)" and "getUnsigned rd r2 = (ucast (hostFwdCnt s), r3)"
    and "getUnsigned rd r3 = (of_bool loads, r4)" and "contents r4 = rest"
proof -
  obtain r1 where 1: "getUnsigned rd r = (ucast (guestPort s), r1)"
    "contents r1 = enc32 (hostPort s) @ enc32 (hostFwdCnt s) @ encode_unsigned (of_bool loads) @ rest"
    by (rule getUnsigned_encode) (use assms in \<open>auto simp: stream_head_def\<close>)
  obtain r2 where 2: "getUnsigned rd r1 = (ucast (hostPort s), r2)"
    "contents r2 = enc32 (hostFwdCnt s) @ encode_unsigned (of_bool loads) @ rest"
    by (rule getUnsigned_encode [OF 1(2)])
  obtain r3 where 3: "getUnsigned rd r2 = (ucast (hostFwdCnt s), r3)"
    "contents r3 = encode_unsigned (of_bool loads) @ rest"
    by (rule getUnsigned_encode [OF 2(2)])
  obtain r4 where "getUnsigned rd r3 = (of_bool loads, r4)" "contents r4 = rest"
    by (rule getUnsigned_encode [OF 3(2)])
  with 1 2 3 that show ?thesis by blast
qed

lemma load_stream_reset:
  assumes "contents r = stream_head False s @ rest"
  obtains r' where "load_stream rd loaders r d = (None, queueOrphanPacket (prepareStreamHeader s OP_RST 0) d, r')"
    and "contents r' = rest"
proof -
  obtain r1 r2 r3 r4 where "getUnsigned rd r = (ucast (guestPort s), r1)"
    "getUnsigned rd r1 = (ucast (hostPort s), r2)" "getUnsigned rd r2 = (ucast (hostFwdCnt s), r3)"
    "getUnsigned rd r3 = (of_bool False, r4)" "contents r4 = rest"
    by (rule read_stream_head [OF assms])
  then show ?thesis using that [of r4] by (simp add: load_stream_def prepareStreamHeader_def)
qed

lemma load_streams_reset:
  assumes "contents r = concat (map (stream_head False) ss) @ rest"
  obtains r' where "load_streams rd loaders (length ss) r d =
      (None, d\<lparr>mOrphanPackets := mOrphanPackets d @ map (\<lambda>s. prepareStreamHeader s OP_RST 0) ss\<rparr>, r')"
    and "contents r' = rest"
  using assms
proof (induction ss arbitrary: r d thesis)
  case Nil
  then show ?case by simp
next
  case (Cons s ss)
  let ?d = "queueOrphanPacket (prepareStreamHeader s OP_RST 0) d"
  obtain r1 where "load_stream rd loaders r d = (None, ?d, r1)"
    and c: "contents r1 = concat (map (stream_head False) ss) @ rest"
    by (rule load_stream_reset [of r s "concat (map (stream_head False) ss) @ rest" loaders d])
      (use Cons.prems(2) in auto)
  moreover obtain r2 where "load_streams rd loaders (length ss) r1 ?d =
      (None, ?d\<lparr>mOrphanPackets := mOrphanPackets ?d @ map (\<lambda>s. prepareStreamHeader s OP_RST 0) ss\<rparr>, r2)"
    "contents r2 = rest"
    by (rule Cons.IH [OF _ c])
  ultimately show ?case using Cons.prems(1) [of r2] by (simp add: queueOrphanPacket_def)
qed

lemma load_stream_loads:
  assumes "contents r = stream_head True s @ stream_body P s @ rest" and "plug s = Some p"
    and "find_stream (stream_key s) (mStreams d) = None" and "length (pending_of s) < 2 ^ 32"
    and "\<not> bit (sendOpMask s) 0" and "loads_back contents P loaders p"
  obtains r' where "load_stream rd loaders r d =
      (Some 1, d\<lparr>mStreams := insert_stream (restored s p) (mStreams d)\<rparr>, r')" and "contents r' = rest"
proof -
  obtain r1 r2 r3 r4 where h: "getUnsigned rd r = (ucast (guestPort s), r1)"
    "getUnsigned rd r1 = (ucast (hostPort s), r2)" "getUnsigned rd r2 = (ucast (hostFwdCnt s), r3)"
    "getUnsigned rd r3 = (of_bool True, r4)" "contents r4 = stream_body P s @ rest"
    by (rule read_stream_head [OF assms(1)])
  let ?tail = "buf_bytes (hostToGuestBuf s) @ plug_bytes P p @ rest"
  obtain r5 where 5: "getUnsigned rd r4 = (ucast (guestBufAlloc s), r5)"
    "contents r5 = enc32 (guestFwdCnt s) @ enc32 (hostSentCnt s) @ enc32 (stream_flags s) @ ?tail"
    by (rule getUnsigned_encode) (use h(5) assms(2) in \<open>auto simp: stream_body_def\<close>)
  obtain r6 where 6: "getUnsigned rd r5 = (ucast (guestFwdCnt s), r6)"
    "contents r6 = enc32 (hostSentCnt s) @ enc32 (stream_flags s) @ ?tail"
    by (rule getUnsigned_encode [OF 5(2)])
  obtain r7 where 7: "getUnsigned rd r6 = (ucast (hostSentCnt s), r7)"
    "contents r7 = enc32 (stream_flags s) @ ?tail"
    by (rule getUnsigned_encode [OF 6(2)])
  obtain r8 where 8: "getUnsigned rd r7 = (ucast (stream_flags s), r8)" "contents r8 = ?tail"
    by (rule getUnsigned_encode [OF 7(2)])
  obtain r9 where 9: "buf_load rd r8 = ((0, \<lparr>mBuf = pending_of s, mConsumed = 0\<rparr>), r9)"
    "contents r9 = plug_bytes P p @ rest"
    by (rule buf_load_bytes [OF 8(2) assms(4)])
  let ?t = "getSnapshotTypeId P p" and ?bs = "snd (saveStateToSnapshot P p)"
  obtain ld where ld: "length ?t < 2 ^ 64" "?t \<noteq> []" "loaders ?t = Some ld"
    "\<And>r. contents r = ?bs @ rest \<Longrightarrow> \<exists>r'. ld r = (Some p, r') \<and> contents r' = rest"
    using assms(6) by (auto simp: loads_back_def)
  have c9: "contents r9 = encode_unsigned (of_nat (length ?t)) @ ?t @ ?bs @ rest"
    using 9(2) by (simp add: plug_bytes_def)
  obtain r10 where 10: "loadPlugFromSnapshot rd loaders r9 = (Some p, r10)" "contents r10 = rest"
    by (rule loadPlug_bytes [where loaders = loaders and ld = ld and p = p, OF c9 ld(1-3)]) (rule ld(4))
  have "load_stream rd loaders r d = (Some 1, d\<lparr>mStreams := insert_stream (restored s p) (mStreams d)\<rparr>, r10)"
    using h 5 6 7 8 9 10 assms(3) flags_connected [OF assms(5)]
    by (simp add: load_stream_def stream_key_def restored_fields new_stream_def)
  with 10(2) show ?thesis using that by blast
qed

end

section \<open>Properties\<close>

text \<open>
  C35: a snapshot of a device whose plugs cannot be restored brings back the port allocator and the
  packets that were waiting, and queues a reset for every stream that was open, in order, before
  anything is sent to the guest.
\<close>

theorem snapshot_resets_unrestorable_streams:
  assumes "dev_inv d" and "\<forall>s \<in> set (mStreams d). \<not> can_load P s"
    and "length (mOrphanPackets d) < 2 ^ 64" and "length (mStreams d) < 2 ^ 64"
  shows "\<exists>bs. saveToSnapshot P DequeWriter_write None d [] = Some (0, bs) \<and>
    loadFromSnapshot S DequeReader_read loaders None junk dev bs =
      map_option (\<lambda>d'. (0, d', []))
        (sendPacketsAndNotifyLocked S
           (dev\<lparr>mSrcPortAllocator := mSrcPortAllocator d, mStreams := [],
               mOrphanPackets := map (orphan_image junk) (mOrphanPackets d) @
                 map (\<lambda>s. prepareStreamHeader s OP_RST 0) (mStreams d)\<rparr>))"
proof -
  let ?hs = "mOrphanPackets d" and ?ss = "mStreams d"
  have "\<forall>s \<in> set ?ss. savable P s" using assms(1,2) by (auto simp: savable_def dev_inv_def)
  then obtain bs where bs: "saveToSnapshot P DequeWriter_write None d [] = Some (0, bs)" "bs = device_bytes P d"
    using deque_w.contents_saveToSnapshot [of d P "[]"] by auto
  have heads: "map (stream_bytes P) ?ss = map (stream_head False) ?ss"
    using assms(2) by (auto simp: stream_bytes_def)
  have inv: "alloc_inv (mSrcPortAllocator d)" using assms(1) by (simp add: dev_inv_def port_inv_def)
  obtain r1 where 1: "alloc_load DequeReader_read bs = (mSrcPortAllocator d, r1)"
    "r1 = encode_unsigned (of_nat (length ?hs)) @ (concat (map orphan_bytes ?hs) @
       encode_unsigned (of_nat (length ?ss)) @ concat (map (stream_head False) ?ss) @ [])"
    by (rule deque_r.alloc_load_bytes [OF _ inv]) (use bs heads in \<open>auto simp: device_bytes_def\<close>)
  obtain r2 where 2: "getUnsigned DequeReader_read r1 = (of_nat (length ?hs), r2)"
    "r2 = concat (map orphan_bytes ?hs) @ (encode_unsigned (of_nat (length ?ss)) @
       concat (map (stream_head False) ?ss) @ [])"
    by (rule deque_r.getUnsigned_encode [OF 1(2)])
  obtain r3 where 3: "load_orphans DequeReader_read junk (length ?hs) r2 = (map (orphan_image junk) ?hs, r3)"
    "r3 = encode_unsigned (of_nat (length ?ss)) @ (concat (map (stream_head False) ?ss) @ [])"
    by (rule deque_r.load_orphans_bytes [OF 2(2)])
  obtain r4 where 4: "getUnsigned DequeReader_read r3 = (of_nat (length ?ss), r4)"
    "r4 = concat (map (stream_head False) ?ss) @ []"
    by (rule deque_r.getUnsigned_encode [OF 3(2)])
  let ?d1 = "dev\<lparr>mSrcPortAllocator := mSrcPortAllocator d, mOrphanPackets := map (orphan_image junk) ?hs, mStreams := []\<rparr>"
  obtain r5 where 5: "load_streams DequeReader_read loaders (length ?ss) r4 ?d1 =
      (None, ?d1\<lparr>mOrphanPackets := mOrphanPackets ?d1 @ map (\<lambda>s. prepareStreamHeader s OP_RST 0) ?ss\<rparr>, r5)"
    "r5 = []"
    by (rule deque_r.load_streams_reset [OF 4(2), of loaders ?d1])
  have n: "unat (of_nat (length ?hs) :: u64) = length ?hs" "unat (of_nat (length ?ss) :: u64) = length ?ss"
    using assms(3,4) by (simp_all add: unat_of_nat take_bit_nat_eq_self)
  show ?thesis
    using bs(1) 1(1) 2(1) 3(1) 4(1) 5 n by (simp add: loadFromSnapshot_def Let_def)
qed

definition silent_plug :: "bool \<Rightarrow> unit plug_ops" where
  "silent_plug loads =
     \<lparr>onConnect = (\<lambda>p. (p, [])), onReceive = (\<lambda>p bs. (True, p, [])), onUnplug = (\<lambda>p. p),
      supportsLoadingFromSnapshot = (\<lambda>_. loads), getSnapshotTypeId = (\<lambda>_. asc ''silent''),
      saveStateToSnapshot = (\<lambda>_. (True, []))\<rparr>"

definition silent_stream :: "u32 \<Rightarrow> unit vsock_stream" where
  "silent_stream guest = (new_stream guest 5000)\<lparr>plug := Some (), hostToGuestBuf := \<lparr>mBuf = [1, 2], mConsumed = 1\<rparr>\<rparr>"

definition silent_device :: "(unit, guest_vq) vsock_device" where
  "silent_device = (realize \<lparr>guest_cid = 3, vq_avail = [64], vq_used = []\<rparr> empty_device)
     \<lparr>mStreams := [silent_stream 7, silent_stream 8]\<rparr>"

lemma silent_device_streams [simp]: "mStreams silent_device = [silent_stream 7, silent_stream 8]"
  and silent_device_orphans [simp]: "mOrphanPackets silent_device = []"
  by (simp_all add: silent_device_def realize_def empty_device_def)

lemma silent_device_inv: "dev_inv silent_device"
  by (simp add: silent_device_def dev_inv_def realize_def empty_device_def port_inv_def dyn_ports_def
      alloc_inv_def ids_in_use_def empty_allocator_def kDynamicPortsStart_val stream_key_def stream_ok_def
      silent_stream_def new_stream_def buf_inv_def)

theorem snapshot_resets_unrestorable_streams_witness:
  "\<exists>bs. saveToSnapshot (silent_plug False) DequeWriter_write None silent_device [] = Some (0, bs) \<and>
    loadFromSnapshot virtio_vsock_send_packet_host_to_guest DequeReader_read (\<lambda>_. None) None
        (preparePacketHeader 0 0 0 0 0) silent_device bs =
      map_option (\<lambda>d'. (0, d', []))
        (sendPacketsAndNotifyLocked virtio_vsock_send_packet_host_to_guest
           (silent_device\<lparr>mSrcPortAllocator := mSrcPortAllocator silent_device, mStreams := [],
               mOrphanPackets := [prepareStreamHeader (silent_stream 7) OP_RST 0,
                                  prepareStreamHeader (silent_stream 8) OP_RST 0]\<rparr>))"
proof -
  have "\<forall>s \<in> set (mStreams silent_device). \<not> can_load (silent_plug False) s"
    by (simp add: can_load_def silent_stream_def silent_plug_def)
  from snapshot_resets_unrestorable_streams [OF silent_device_inv this,
    where dev = silent_device and junk = "preparePacketHeader 0 0 0 0 0" and
    S = virtio_vsock_send_packet_host_to_guest] show ?thesis by simp
qed

text \<open>
  loading stops at the first stream whose plug could be restored, and reports failure: only
  that stream is brought back, though every stream was saved successfully.
\<close>

theorem snapshot_load_stops_at_first_plug:
  assumes "dev_inv d" and "mStreams d = s # ss" and "\<forall>t \<in> set (s # ss). savable P t"
    and "plug s = Some p" and "supportsLoadingFromSnapshot P p" and "loads_back (\<lambda>bs. bs) P loaders p"
    and "length (buf_pending (hostToGuestBuf s)) < 2 ^ 32" and "\<not> bit (sendOpMask s) 0"
    and "length (mOrphanPackets d) < 2 ^ 64" and "length (s # ss) < 2 ^ 64"
  shows "\<exists>bs d' rest. saveToSnapshot P DequeWriter_write None d [] = Some (0, bs) \<and>
    loadFromSnapshot S DequeReader_read loaders None junk dev bs = Some (1, d', rest) \<and>
    mStreams d' = [restored s p] \<and> rest = concat (map (stream_bytes P) ss)"
proof -
  let ?hs = "mOrphanPackets d" and ?ss = "s # ss"
  obtain bs where bs: "saveToSnapshot P DequeWriter_write None d [] = Some (0, bs)" "bs = device_bytes P d"
    using deque_w.contents_saveToSnapshot [of d P "[]"] assms(2,3) by auto
  have inv: "alloc_inv (mSrcPortAllocator d)" using assms(1) by (simp add: dev_inv_def port_inv_def)
  obtain r1 where 1: "alloc_load DequeReader_read bs = (mSrcPortAllocator d, r1)"
    "r1 = encode_unsigned (of_nat (length ?hs)) @ (concat (map orphan_bytes ?hs) @
       encode_unsigned (of_nat (length ?ss)) @ concat (map (stream_bytes P) ?ss))"
    by (rule deque_r.alloc_load_bytes [OF _ inv]) (use bs assms(2) in \<open>auto simp: device_bytes_def\<close>)
  obtain r2 where 2: "getUnsigned DequeReader_read r1 = (of_nat (length ?hs), r2)"
    "r2 = concat (map orphan_bytes ?hs) @ (encode_unsigned (of_nat (length ?ss)) @ concat (map (stream_bytes P) ?ss))"
    by (rule deque_r.getUnsigned_encode [OF 1(2)])
  obtain r3 where 3: "load_orphans DequeReader_read junk (length ?hs) r2 = (map (orphan_image junk) ?hs, r3)"
    "r3 = encode_unsigned (of_nat (length ?ss)) @ concat (map (stream_bytes P) ?ss)"
    by (rule deque_r.load_orphans_bytes [OF 2(2)])
  obtain r4 where 4: "getUnsigned DequeReader_read r3 = (of_nat (length ?ss), r4)"
    "r4 = concat (map (stream_bytes P) ?ss)"
    by (rule deque_r.getUnsigned_encode [OF 3(2)])
  have c4: "r4 = stream_head True s @ stream_body P s @ concat (map (stream_bytes P) ss)"
    using 4(2) assms(4,5) by (simp add: stream_bytes_def can_load_def)
  let ?d1 = "dev\<lparr>mSrcPortAllocator := mSrcPortAllocator d, mOrphanPackets := map (orphan_image junk) ?hs, mStreams := []\<rparr>"
  have none: "find_stream (stream_key s) (mStreams ?d1) = None" by (simp add: find_stream_def)
  obtain r5 where 5: "load_stream DequeReader_read loaders r4 ?d1 =
      (Some 1, ?d1\<lparr>mStreams := insert_stream (restored s p) (mStreams ?d1)\<rparr>, r5)"
    "r5 = concat (map (stream_bytes P) ss)"
    by (rule deque_r.load_stream_loads [OF c4 assms(4) none assms(7,8,6)])
  have n: "unat (of_nat (length ?hs) :: u64) = length ?hs" "unat (of_nat (length ?ss) :: u64) = Suc (length ss)"
    using assms(9,10) by (simp_all add: unat_of_nat take_bit_nat_eq_self del: of_nat_Suc)
  have "loadFromSnapshot S DequeReader_read loaders None junk dev bs =
      Some (1, ?d1\<lparr>mStreams := [restored s p]\<rparr>, concat (map (stream_bytes P) ss))"
    using 1(1) 2(1) 3(1) 4(1) 5 n by (simp add: loadFromSnapshot_def Let_def del: of_nat_Suc)
  with bs(1) show ?thesis by simp
qed

theorem snapshot_load_stops_at_first_plug_witness:
  "\<exists>bs d' rest. saveToSnapshot (silent_plug True) DequeWriter_write None silent_device [] = Some (0, bs) \<and>
    loadFromSnapshot virtio_vsock_send_packet_host_to_guest DequeReader_read [asc ''silent'' \<mapsto> \<lambda>r. (Some (), r)]
      None (preparePacketHeader 0 0 0 0 0) silent_device bs = Some (1, d', rest) \<and>
    mStreams d' = [restored (silent_stream 7) ()] \<and> rest \<noteq> []"
proof -
  let ?P = "silent_plug True"
  have sv: "\<forall>t \<in> set [silent_stream 7, silent_stream 8]. savable ?P t"
    by (simp add: savable_def stream_ok_def silent_stream_def buf_inv_def can_load_def silent_plug_def
        new_stream_def asc_def)
  have lb: "loads_back (\<lambda>bs. bs) ?P [asc ''silent'' \<mapsto> \<lambda>r. (Some (), r)] ()"
    by (simp add: loads_back_def silent_plug_def asc_def)
  have "stream_bytes ?P (silent_stream 8) \<noteq> []" by (simp add: stream_bytes_def stream_head_def)
  moreover have "length (buf_pending (hostToGuestBuf (silent_stream 7))) < 2 ^ 32"
    "\<not> bit (sendOpMask (silent_stream 7)) 0" "plug (silent_stream 7) = Some ()"
    "supportsLoadingFromSnapshot ?P ()"
    by (simp_all add: silent_stream_def new_stream_def buf_pending_def silent_plug_def)
  ultimately show ?thesis
    using snapshot_load_stops_at_first_plug [OF silent_device_inv silent_device_streams sv _ _ lb,
    where dev = silent_device and junk = "preparePacketHeader 0 0 0 0 0" and
    S = virtio_vsock_send_packet_host_to_guest]
    by force
qed

end
