(* ===== verification/Text.thy ===== *)
theory Text
  imports Prelude
begin

text \<open>
  The text functions of the C library and of the C++ string streams that the components use, on
  bytes: decimal numbers, zero-terminated strings, comparison without case, and reading by lines.
  A \<^verbatim>\<open>long\<close> and a \<^verbatim>\<open>long long\<close> have 64 bits.
\<close>

section \<open>Decimal numbers\<close>

text \<open>The decimal form of an integer, as \<^verbatim>\<open>printf("%d")\<close>, \<^verbatim>\<open>absl::StrFormat("%d")\<close> and \<^verbatim>\<open>std::to_string\<close> print it.\<close>

function dec_digits :: "nat \<Rightarrow> bytes" where
  "dec_digits n = (if n < 10 then [0x30 + of_nat n] else dec_digits (n div 10) @ [0x30 + of_nat (n mod 10)])"
  by auto
termination by (relation "measure id") auto

declare dec_digits.simps [simp del]

definition dec_int :: "int \<Rightarrow> bytes" where
  "dec_int i = (if i < 0 then asc ''-'' @ dec_digits (nat (- i)) else dec_digits (nat i))"

definition isdigit :: "u8 \<Rightarrow> bool" where
  "isdigit c \<longleftrightarrow> 0x30 \<le> c \<and> c \<le> 0x39"

definition isspace :: "u8 \<Rightarrow> bool" where
  "isspace c \<longleftrightarrow> c = 0x20 \<or> 0x09 \<le> c \<and> c \<le> 0x0D"

definition digits_value :: "bytes \<Rightarrow> nat" where
  "digits_value ds = foldl (\<lambda>n d. 10 * n + unat (d - 0x30)) 0 ds"

text \<open>\<^verbatim>\<open>strtol\<close> and \<^verbatim>\<open>strtoll\<close>, base 10: the value, the rest of the text, and whether \<^verbatim>\<open>errno\<close> is set.\<close>

definition strtoll :: "bytes \<Rightarrow> int \<times> bytes \<times> bool" where
  "strtoll s =
     (let s1 = dropWhile isspace s;
          neg = (s1 \<noteq> [] \<and> hd s1 = 0x2D);
          s2 = (if s1 \<noteq> [] \<and> hd s1 \<in> {0x2B, 0x2D} then tl s1 else s1);
          ds = takeWhile isdigit s2;
          v = (if neg then - int (digits_value ds) else int (digits_value ds))
      in if ds = [] then (0, s, False)
         else if v < - (2 ^ 63) then (- (2 ^ 63), dropWhile isdigit s2, True)
         else if v \<ge> 2 ^ 63 then (2 ^ 63 - 1, dropWhile isdigit s2, True)
         else (v, dropWhile isdigit s2, False))"

section \<open>Strings\<close>

definition c_str :: "bytes \<Rightarrow> bytes" where
  "c_str s = takeWhile (\<lambda>c. c \<noteq> 0) s"

text \<open>The character a pointer to a zero-terminated string refers to.\<close>

definition c_head :: "bytes \<Rightarrow> u8" where
  "c_head s = (case s of [] \<Rightarrow> 0 | c # _ \<Rightarrow> c)"

definition tolower :: "u8 \<Rightarrow> u8" where
  "tolower c = (if 0x41 \<le> c \<and> c \<le> 0x5A then c + 0x20 else c)"

text \<open>Whether \<^verbatim>\<open>strncasecmp\<close> returns zero.\<close>

fun strncasecmp_eq :: "nat \<Rightarrow> bytes \<Rightarrow> bytes \<Rightarrow> bool" where
  "strncasecmp_eq 0 a b \<longleftrightarrow> True"
| "strncasecmp_eq (Suc n) a b \<longleftrightarrow>
     tolower (c_head a) = tolower (c_head b) \<and> (c_head a = 0 \<or> strncasecmp_eq n (tl a) (tl b))"

text \<open>The lines \<^verbatim>\<open>std::getline\<close> returns until it fails.\<close>

function getlines :: "bytes \<Rightarrow> bytes list" where
  "getlines s =
     (if s = [] then []
      else takeWhile (\<lambda>c. c \<noteq> 0x0A) s # getlines (tl (dropWhile (\<lambda>c. c \<noteq> 0x0A) s)))"
  by auto
termination
proof (relation "measure length", goal_cases)
  case (2 s)
  have "length (tl (dropWhile (\<lambda>c. c \<noteq> 0x0A) s)) \<le> length s - 1"
    using length_dropWhile_le [of "\<lambda>c. c \<noteq> 0x0A" s] by simp
  with 2 show ?case by (cases s) (simp_all add: less_Suc_eq_le)
qed simp

declare getlines.simps [simp del]

section \<open>Facts\<close>

lemma isdigit_digit: "n < 10 \<Longrightarrow> isdigit (0x30 + of_nat n)"
  by (auto simp: isdigit_def word_le_nat_alt unat_word_ariths unat_of_nat)

lemma digit_value: "n < 10 \<Longrightarrow> unat (0x30 + of_nat n - 0x30 :: u8) = n"
  by (simp add: unat_of_nat)

lemma dec_digits_nonempty [simp]: "dec_digits n \<noteq> []"
  by (subst dec_digits.simps) simp

lemma dec_digits_isdigit: "c \<in> set (dec_digits n) \<Longrightarrow> isdigit c"
  by (induction n rule: dec_digits.induct)
    (subst (asm) (2) dec_digits.simps, auto simp: isdigit_digit split: if_splits)

lemma digits_value_dec_digits [simp]: "digits_value (dec_digits n) = n"
proof (induction n rule: dec_digits.induct)
  case (1 n)
  show ?case
  proof (cases "n < 10")
    case True
    then show ?thesis by (subst dec_digits.simps) (simp add: digits_value_def unat_of_nat)
  next
    case False
    then show ?thesis
      using 1 by (subst dec_digits.simps) (simp add: digits_value_def unat_of_nat)
  qed
qed

lemma not_digit [simp]: "\<not> isdigit 0x2D" "\<not> isdigit 0x2B" "\<not> isdigit 0"
  by (simp_all add: isdigit_def)

lemma digit_not_space: "isdigit c \<Longrightarrow> \<not> isspace c \<and> c \<noteq> 0x2B \<and> c \<noteq> 0x2D \<and> c \<noteq> 0"
  by (auto simp: isdigit_def isspace_def word_le_nat_alt)

lemma dec_int_nonempty [simp]: "dec_int i \<noteq> []"
  by (simp add: dec_int_def asc_def)

lemma dec_digits_hd: "isdigit (hd (dec_digits n))"
  using dec_digits_isdigit hd_in_set [OF dec_digits_nonempty] by blast

text \<open>Reading back a printed number that fits gives the number and leaves what follows.\<close>

lemma strtoll_dec_int:
  assumes "- (2 ^ 63) \<le> i" and "i < 2 ^ 63" and "rest = [] \<or> \<not> isdigit (hd rest)"
  shows "strtoll (dec_int i @ rest) = (i, rest, False)"
proof -
  have drop: "dropWhile isdigit (dec_digits n @ rest) = rest"
    and take: "takeWhile isdigit (dec_digits n @ rest) = dec_digits n" for n
    using assms(3) dec_digits_isdigit
    by (cases rest; simp add: dropWhile_append takeWhile_append)+
  have space: "dropWhile isspace (dec_digits n @ rest) = dec_digits n @ rest" for n
    using dec_digits_hd [of n] digit_not_space by (cases "dec_digits n") auto
  have hd: "hd (dec_digits n) \<noteq> 0x2D" "hd (dec_digits n) \<noteq> 0x2B" for n
    using dec_digits_hd [of n] digit_not_space [of "hd (dec_digits n)"] by auto
  show ?thesis
  proof (cases "i < 0")
    case True
    have "dropWhile isspace (0x2D # dec_digits (nat (- i)) @ rest) = 0x2D # dec_digits (nat (- i)) @ rest"
      by (simp add: isspace_def)
    then show ?thesis
      using True assms(1) by (simp add: strtoll_def dec_int_def asc_def Let_def take drop)
  next
    case False
    then show ?thesis
      using assms(2) by (simp add: strtoll_def dec_int_def Let_def space hd take drop nat_less_iff not_le)
  qed
qed

lemma c_str_id: "0 \<notin> set s \<Longrightarrow> c_str s = s"
  by (auto simp: c_str_def takeWhile_eq_all_conv)

lemma dec_int_no_zero: "0 \<notin> set (dec_int i)"
  using dec_digits_isdigit [of 0] by (auto simp: dec_int_def asc_def)

lemma getlines_Nil [simp]: "getlines [] = []"
  by (simp add: getlines.simps)

lemma getlines_line: "0x0A \<notin> set l \<Longrightarrow> getlines (l @ 0x0A # rest) = l # getlines rest"
  by (subst getlines.simps) (simp add: takeWhile_tail dropWhile_append3 dropWhile_append)

end
