(* ===== verification/Connector.thy ===== *)
theory Connector
  imports Cable Text
begin

text \<open>
  The connector (\<^verbatim>\<open>emulator/devices/Connector.cpp\<close>): the plug a guest talks to first.  It collects a
  request up to a zero byte, finds the device the request names and replaces itself by that
  device's plug, or by a plug that refuses everything.  The plugs that can sit on a connector's
  socket are a datatype over the plugs \<open>'p\<close> of the devices; a device entry has a name and a factory
  that makes a plug from the arguments of the request.
\<close>

section \<open>State\<close>

datatype 'p any_plug = ConnectorPlug bytes | ErrorPlug | DevicePlug 'p

record 'p device_entry =
  qname :: bytes
  factory :: "bytes \<Rightarrow> 'p"

text \<open>\<^verbatim>\<open>0 == strncmp(a, b, n)\<close>: characters are compared up to a common end of string.\<close>

fun strncmp_eq :: "nat \<Rightarrow> bytes \<Rightarrow> bytes \<Rightarrow> bool" where
  "strncmp_eq 0 a b \<longleftrightarrow> True"
| "strncmp_eq (Suc n) a b \<longleftrightarrow> c_head a = c_head b \<and> (c_head a = 0 \<or> strncmp_eq n (tl a) (tl b))"

definition qnameEquals :: "u8 \<Rightarrow> bytes \<Rightarrow> bytes \<Rightarrow> bool" where
  "qnameEquals q name qn \<longleftrightarrow> q = c_head qn \<and> strncmp_eq (length name) name (tl qn) \<and>
     c_head (drop (length name + 1) qn) = 0"

abbreviation (input) colon :: u8 where "colon \<equiv> 0x3A"

section \<open>Requests\<close>

text \<open>
  The device plug that takes over, with the calls it makes while it receives the data left over
  after the request; \<^const>\<open>None\<close> when no entry has the name.
\<close>

definition switchTo ::
  "'p plug_ops \<Rightarrow> 'p device_entry list \<Rightarrow> bool \<Rightarrow> bytes \<Rightarrow> bytes \<Rightarrow> bytes \<Rightarrow> ('p \<times> 'p socket_call list) option" where
  "switchTo D entries isQemud device args unconsumed =
     (let q = (if isQemud then of_char (CHR ''q'') else of_char (CHR ''-'')) :: u8
      in map_option
           (\<lambda>de. case onReceive D (factory de args) unconsumed of (_, p, cs) \<Rightarrow> (p, cs))
           (List.find (\<lambda>de. qnameEquals q device (qname de)) entries))"

definition starts_with :: "bytes \<Rightarrow> bytes \<Rightarrow> bool" where
  "starts_with pre s \<longleftrightarrow> take (length pre) s = pre"

definition processRequest ::
  "'p plug_ops \<Rightarrow> 'p device_entry list \<Rightarrow> bytes \<Rightarrow> bytes \<Rightarrow> ('p \<times> 'p socket_call list) option" where
  "processRequest D entries request unconsumed =
     (if starts_with (asc ''pipe:'') request then
        (let request1 = drop (length (asc ''pipe:'')) request;
             isQemud = starts_with (asc ''qemud:'') request1;
             request2 = (if isQemud then drop (length (asc ''qemud:'')) request1 else request1);
             device = takeWhile (\<lambda>c. c \<noteq> colon) request2;
             args = drop (length device + 1) request2
         in if device = [] then None else switchTo D entries isQemud device args unconsumed)
      else None)"

definition Connector_onReceive ::
  "'p plug_ops \<Rightarrow> 'p device_entry list \<Rightarrow> bytes \<Rightarrow> bytes \<Rightarrow> bool \<times> 'p any_plug \<times> 'p any_plug socket_call list" where
  "Connector_onReceive D entries buf data =
     (if 0 \<in> set data then
        (let mBuffer = buf @ data;
             requestSize = length mBuffer - length (dropWhile (\<lambda>c. c \<noteq> 0) data);
             result =
               (if buf = []
                then processRequest D entries (takeWhile (\<lambda>c. c \<noteq> 0) data) (tl (dropWhile (\<lambda>c. c \<noteq> 0) data))
                else processRequest D entries (take requestSize mBuffer) (drop (requestSize + 1) mBuffer))
         in case result of
              Some (p, cs) \<Rightarrow> (True, ConnectorPlug [], SwitchPlug (DevicePlug p) # map (map_socket_call DevicePlug) cs)
            | None \<Rightarrow> (False, ConnectorPlug [], [SwitchPlug ErrorPlug]))
      else (True, ConnectorPlug (buf @ data), []))"

section \<open>All plugs of a connector's socket\<close>

definition Connector_saveState :: "bytes \<Rightarrow> bytes" where
  "Connector_saveState buf = encode_unsigned (of_nat (length buf)) @ buf"

definition any_plug_ops :: "'p plug_ops \<Rightarrow> 'p device_entry list \<Rightarrow> 'p any_plug plug_ops" where
  "any_plug_ops D entries =
     \<lparr>onConnect = (\<lambda>p. case p of
         DevicePlug x \<Rightarrow> (case onConnect D x of (x', cs) \<Rightarrow> (DevicePlug x', map (map_socket_call DevicePlug) cs))
       | _ \<Rightarrow> (p, [])),
      onReceive = (\<lambda>p data. case p of
         ConnectorPlug buf \<Rightarrow> Connector_onReceive D entries buf data
       | ErrorPlug \<Rightarrow> (False, ErrorPlug, [])
       | DevicePlug x \<Rightarrow> (case onReceive D x data of
           (ok, x', cs) \<Rightarrow> (ok, DevicePlug x', map (map_socket_call DevicePlug) cs))),
      onUnplug = (\<lambda>p. case p of DevicePlug x \<Rightarrow> DevicePlug (onUnplug D x) | _ \<Rightarrow> p),
      supportsLoadingFromSnapshot = (\<lambda>p. case p of
         ConnectorPlug _ \<Rightarrow> True | ErrorPlug \<Rightarrow> False | DevicePlug x \<Rightarrow> supportsLoadingFromSnapshot D x),
      getSnapshotTypeId = (\<lambda>p. case p of
         ConnectorPlug _ \<Rightarrow> asc ''Connector'' | ErrorPlug \<Rightarrow> [] | DevicePlug x \<Rightarrow> getSnapshotTypeId D x),
      saveStateToSnapshot = (\<lambda>p. case p of
         ConnectorPlug buf \<Rightarrow> (True, Connector_saveState buf) | ErrorPlug \<Rightarrow> (False, [])
       | DevicePlug x \<Rightarrow> saveStateToSnapshot D x)\<rparr>"

section \<open>Names\<close>

lemma strncmp_eq_iff:
  "0 \<notin> set a \<Longrightarrow> 0 \<notin> set b \<Longrightarrow> strncmp_eq (length a) a b \<longleftrightarrow> take (length a) b = a"
proof (induction a arbitrary: b)
  case Nil
  then show ?case by simp
next
  case (Cons x a)
  then show ?case by (cases b) (auto simp: c_head_def)
qed

lemma c_head_eq_0: "0 \<notin> set s \<Longrightarrow> c_head s = 0 \<longleftrightarrow> s = []"
  by (cases s) (auto simp: c_head_def)

lemma qnameEquals_iff:
  assumes "q \<noteq> 0" and "0 \<notin> set name" and "0 \<notin> set qn"
  shows "qnameEquals q name qn \<longleftrightarrow> qn = q # name"
proof (cases qn)
  case Nil
  then show ?thesis using assms by (simp add: qnameEquals_def c_head_def)
next
  case (Cons c s)
  have "0 \<notin> set (drop (length name) s)" using assms(3) Cons by (auto dest: in_set_dropD)
  then show ?thesis
    using Cons assms by (auto simp: qnameEquals_def strncmp_eq_iff c_head_eq_0 c_head_def [of "c # s"])
qed

text \<open>The entry that a name selects, as a finite map.\<close>

lemma find_entry:
  assumes "\<forall>de \<in> set entries. 0 \<notin> set (qname de)" and "q \<noteq> 0" and "0 \<notin> set name"
  shows "List.find (\<lambda>de. qnameEquals q name (qname de)) entries = List.find (\<lambda>de. qname de = q # name) entries"
  using assms by (induction entries) (auto simp: qnameEquals_iff)

section \<open>Requests in pieces\<close>

lemma request_bytes:
  assumes "0 \<notin> set a"
  shows "takeWhile (\<lambda>c. c \<noteq> 0) (a @ 0 # b) = a" "dropWhile (\<lambda>c. c \<noteq> 0) (a @ 0 # b) = 0 # (b :: bytes)"
  using assms by (auto simp: takeWhile_append dropWhile_append)

lemma Connector_whole_request:
  assumes "0 \<notin> set b" and "0 \<notin> set buf"
  shows "Connector_onReceive D entries buf (b @ 0 # u) =
    (case processRequest D entries (buf @ b) u of
       Some (p, cs) \<Rightarrow> (True, ConnectorPlug [], SwitchPlug (DevicePlug p) # map (map_socket_call DevicePlug) cs)
     | None \<Rightarrow> (False, ConnectorPlug [], [SwitchPlug ErrorPlug]))"
  using assms by (simp add: Connector_onReceive_def Let_def request_bytes)

text \<open>A plug that is fed piece by piece, with the plug switches it asks for, until it refuses one.\<close>

definition switched :: "'p \<Rightarrow> 'p socket_call list \<Rightarrow> 'p" where
  "switched p cs = fold (\<lambda>c p. case c of SwitchPlug q \<Rightarrow> q | SendAsync _ \<Rightarrow> p) cs p"

fun feed_plug :: "'p plug_ops \<Rightarrow> 'p \<Rightarrow> bytes list \<Rightarrow> bool \<times> 'p \<times> bytes list" where
  "feed_plug P p [] = (True, p, [])"
| "feed_plug P p (c # cs) =
     (case onReceive P p c of (ok, p', calls) \<Rightarrow>
        if ok then feed_plug P (switched p' calls) cs else (False, switched p' calls, cs))"

lemma feed_plug_append:
  "feed_plug P p (cs @ ds) =
     (case feed_plug P p cs of (ok, p', rest) \<Rightarrow> if ok then feed_plug P p' ds else (False, p', rest @ ds))"
  by (induction cs arbitrary: p) (auto split: prod.splits)

lemma feed_no_request:
  assumes "\<forall>c \<in> set cs. 0 \<notin> set c"
  shows "feed_plug (any_plug_ops D entries) (ConnectorPlug buf) cs = (True, ConnectorPlug (buf @ concat cs), [])"
  using assms
  by (induction cs arbitrary: buf) (auto simp: any_plug_ops_def Connector_onReceive_def switched_def)

section \<open>Properties\<close>

definition request_of :: "bool \<Rightarrow> bytes \<Rightarrow> bytes \<Rightarrow> bytes" where
  "request_of isQemud name args = asc ''pipe:'' @ (if isQemud then asc ''qemud:'' else []) @ name @ colon # args"

definition entry_name :: "bool \<Rightarrow> bytes \<Rightarrow> bytes" where
  "entry_name isQemud name = (if isQemud then of_char (CHR ''q'') else of_char (CHR ''-'')) # name"

lemma starts_with_simps [simp]:
  "starts_with pre (pre @ s)" "starts_with [] s" "\<not> starts_with (a # pre) []"
  "starts_with (a # pre) (b # s) \<longleftrightarrow> a = b \<and> starts_with pre s"
  by (auto simp: starts_with_def)

lemma prefix_and_colon:
  "colon \<notin> set p \<Longrightarrow> colon \<notin> set name \<Longrightarrow> starts_with (p @ [colon]) (name @ colon # args) \<Longrightarrow> p = name"
proof (induction p arbitrary: name)
  case Nil
  then show ?case by (cases name) auto
next
  case (Cons x p)
  then show ?case by (cases name) auto
qed

lemma processRequest_request_of:
  assumes "name \<noteq> []" and "colon \<notin> set name" and "0 \<notin> set name" and "isQemud \<or> name \<noteq> asc ''qemud''"
    and "\<forall>de \<in> set entries. 0 \<notin> set (qname de)"
  shows "processRequest D entries (request_of isQemud name args) u =
    map_option (\<lambda>de. case onReceive D (factory de args) u of (_, p, cs) \<Rightarrow> (p, cs))
      (List.find (\<lambda>de. qname de = entry_name isQemud name) entries)"
proof -
  have split: "asc ''qemud:'' = asc ''qemud'' @ [colon]" "colon \<notin> set (asc ''qemud'')" by (simp_all add: asc_def)
  have tw: "takeWhile (\<lambda>c. c \<noteq> colon) (name @ colon # args) = name"
    using assms(2) by (auto simp: takeWhile_append)
  have "\<not> starts_with (asc ''qemud:'') (name @ colon # args)" if "\<not> isQemud"
    using prefix_and_colon [OF split(2) assms(2), of args] assms(4) that unfolding split(1) by auto
  then have "processRequest D entries (request_of isQemud name args) u = switchTo D entries isQemud name args u"
    using tw assms(1) by (cases isQemud) (simp_all add: processRequest_def request_of_def Let_def)
  moreover have "(of_char (CHR ''q'') :: u8) \<noteq> 0" "(of_char (CHR ''-'') :: u8) \<noteq> 0" by simp_all
  ultimately show ?thesis
    using find_entry [OF assms(5) _ assms(3)] by (cases isQemud) (simp_all add: switchTo_def entry_name_def)
qed

lemma request_no_zero: "0 \<notin> set (name @ args) \<Longrightarrow> 0 \<notin> set (request_of isQemud name args)"
  by (auto simp: request_of_def asc_def)

text \<open>What the connector does with the piece that completes a request.\<close>

lemma Connector_last_piece:
  assumes "0 \<notin> set (name @ args)" and "concat cs @ b = request_of isQemud name args"
  shows "onReceive (any_plug_ops D entries) (ConnectorPlug (concat cs)) (b @ 0 # u) =
    (case processRequest D entries (request_of isQemud name args) u of
       Some (p, cs) \<Rightarrow> (True, ConnectorPlug [], SwitchPlug (DevicePlug p) # map (map_socket_call DevicePlug) cs)
     | None \<Rightarrow> (False, ConnectorPlug [], [SwitchPlug ErrorPlug]))"
proof -
  have "0 \<notin> set (concat cs)" "0 \<notin> set b"
    using request_no_zero [OF assms(1)] assms(2) by (metis Un_iff set_append)+
  then show ?thesis
    using Connector_whole_request [of b "concat cs"] assms(2) by (simp add: any_plug_ops_def)
qed

text \<open>
  C9: a request \<open>pipe:[qemud:]name:args\<close> brings up exactly the device registered under that kind
  and name, with these arguments and with the data that followed the request, in whatever pieces
  the request arrives; when there is no such device the connection is refused for good.
\<close>

theorem connector_selects_device:
  assumes "\<forall>de \<in> set entries. 0 \<notin> set (qname de)"
    and "name \<noteq> []" and "colon \<notin> set name" and "isQemud \<or> name \<noteq> asc ''qemud''"
    and "0 \<notin> set (name @ args)"
    and "concat cs @ b = request_of isQemud name args"
  shows "feed_plug (any_plug_ops D entries) (ConnectorPlug []) (cs @ [b @ 0 # u]) =
    (case List.find (\<lambda>de. qname de = entry_name isQemud name) entries of
       None \<Rightarrow> (False, ErrorPlug, [])
     | Some de \<Rightarrow> (case onReceive D (factory de args) u of
         (_, p, calls) \<Rightarrow> (True, switched (DevicePlug p) (map (map_socket_call DevicePlug) calls), [])))"
proof -
  have z: "0 \<notin> set (concat cs)" using request_no_zero [OF assms(5)] assms(6) by (metis Un_iff set_append)
  then have "\<forall>c \<in> set cs. 0 \<notin> set c" by auto
  note fed = feed_no_request [OF this, of D entries "[]"]
  from Connector_last_piece [OF assms(5,6), of D entries u] show ?thesis
    using fed assms by (simp add: feed_plug_append processRequest_request_of switched_def split: option.splits prod.splits)
qed

definition sample_plug :: "bytes plug_ops" where
  "sample_plug =
     \<lparr>onConnect = (\<lambda>p. (p, [])), onReceive = (\<lambda>p bs. (True, p @ bs, [])), onUnplug = (\<lambda>p. p),
      supportsLoadingFromSnapshot = (\<lambda>_. False), getSnapshotTypeId = (\<lambda>_. []),
      saveStateToSnapshot = (\<lambda>_. (False, []))\<rparr>"

theorem connector_selects_device_witness:
  "feed_plug (any_plug_ops sample_plug [\<lparr>qname = asc ''-gps'', factory = \<lambda>a. a\<rparr>, \<lparr>qname = asc ''qgps'', factory = \<lambda>a. a @ a\<rparr>])
     (ConnectorPlug []) [asc ''pipe:qe'', asc ''mud:gps:'', asc ''x'' @ 0 # asc ''data''] =
   (True, DevicePlug (asc ''xxdata''), [])"
  using connector_selects_device [of "[\<lparr>qname = asc ''-gps'', factory = \<lambda>a. a\<rparr>, \<lparr>qname = asc ''qgps'', factory = \<lambda>a. a @ a\<rparr>]"
      "asc ''gps''" True "asc ''x''" "[asc ''pipe:qe'', asc ''mud:gps:'']" "asc ''x''" sample_plug "asc ''data''"]
  by (simp add: asc_def request_of_def entry_name_def sample_plug_def switched_def)

end
