(* ===== verification/Events.thy ===== *)
theory Events
  imports Prelude "HOL-Library.Multiset" "HOL-Library.AList"
begin

text \<open>
  The two notification mechanisms of the emulator: the topics of
  \<^verbatim>\<open>libs/broadcasting/include/goldfish/broadcasting.h\<close>, whose subscriptions are unsubscribed with a
  ticket, and the listeners and callbacks of \<^verbatim>\<open>android/event-support\<close>.  Both keep their subscribers
  in hash tables; the model keeps the iteration order of the table as the order of a list.
\<close>

section \<open>Topics\<close>

record 'c topic =
  mSubscriptions :: "(u32 \<times> 'c) list"
  mLastTicket :: u32

definition new_topic :: "'c topic" where
  "new_topic = \<lparr>mSubscriptions = [], mLastTicket = 0\<rparr>"

text \<open>The loop that looks for a free ticket value goes on for ever when all of them are taken.\<close>

partial_function (option) topic_subscribe :: "'c \<Rightarrow> 'c topic \<Rightarrow> (u32 \<times> 'c topic) option" where
  "topic_subscribe callback t =
     (let ticket = mLastTicket t + 1; t1 = t\<lparr>mLastTicket := ticket\<rparr>
      in if map_of (mSubscriptions t1) ticket = None
         then Some (ticket, t1\<lparr>mSubscriptions := (ticket, callback) # mSubscriptions t1\<rparr>)
         else topic_subscribe callback t1)"

declare topic_subscribe.simps [code]

definition unsubscribeImpl :: "u32 \<Rightarrow> 'c topic \<Rightarrow> 'c topic" where
  "unsubscribeImpl ticket t = t\<lparr>mSubscriptions := AList.delete ticket (mSubscriptions t)\<rparr>"

text \<open>
  A callback runs on the state \<open>'w\<close> of its owners and answers with a ticket value when it
  unsubscribes; the assertions that it is its own ticket make the result \<^const>\<open>None\<close> otherwise.
\<close>

fun broadcast_loop ::
  "('c \<Rightarrow> 'w \<Rightarrow> u32 option \<times> 'w) \<Rightarrow> (u32 \<times> 'c) list \<Rightarrow> 'w \<Rightarrow> ((u32 \<times> 'c) list \<times> 'w) option" where
  "broadcast_loop call [] w = Some ([], w)"
| "broadcast_loop call ((ticket, c) # subs) w =
     (case call c w of
        (None, w') \<Rightarrow> map_option (\<lambda>(subs', w''). ((ticket, c) # subs', w'')) (broadcast_loop call subs w')
      | (Some v, w') \<Rightarrow> if v = ticket then broadcast_loop call subs w' else None)"

definition broadcast :: "('c \<Rightarrow> 'w \<Rightarrow> u32 option \<times> 'w) \<Rightarrow> 'c topic \<Rightarrow> 'w \<Rightarrow> ('c topic \<times> 'w) option" where
  "broadcast call t w =
     map_option (\<lambda>(subs, w'). (t\<lparr>mSubscriptions := subs\<rparr>, w')) (broadcast_loop call (mSubscriptions t) w)"

section \<open>Listeners and callbacks\<close>

text \<open>A listener is an object of a client or the bridge that \<^verbatim>\<open>WithCallbacks\<close> registers for itself.\<close>

datatype listener = Internal | External nat

record 'c event_support =
  mListeners :: "listener list"
  mCallbacks :: "(u64 \<times> 'c) list"
  mNextId :: u64
  mInternalListener :: bool

definition new_event_support :: "'c event_support" where
  "new_event_support = \<lparr>mListeners = [], mCallbacks = [], mNextId = 0, mInternalListener = False\<rparr>"

definition addListener :: "listener \<Rightarrow> 'c event_support \<Rightarrow> 'c event_support" where
  "addListener l e = e\<lparr>mListeners := List.insert l (mListeners e)\<rparr>"

definition removeListener :: "listener \<Rightarrow> 'c event_support \<Rightarrow> 'c event_support" where
  "removeListener l e = e\<lparr>mListeners := removeAll l (mListeners e)\<rparr>"

definition addCallback :: "'c \<Rightarrow> 'c event_support \<Rightarrow> u64 \<times> 'c event_support" where
  "addCallback callback e =
     (let i = mNextId e;
          e1 = e\<lparr>mNextId := i + 1, mCallbacks := AList.update i callback (mCallbacks e)\<rparr>
      in (i, if length (mCallbacks e1) = 1 then addListener Internal (e1\<lparr>mInternalListener := True\<rparr>) else e1))"

definition removeCallback :: "u64 \<Rightarrow> 'c event_support \<Rightarrow> 'c event_support" where
  "removeCallback i e =
     (let e1 = e\<lparr>mCallbacks := AList.delete i (mCallbacks e)\<rparr>
      in if mCallbacks e1 = [] \<and> mInternalListener e1 then removeListener Internal e1 else e1)"

definition callbackCount :: "'c event_support \<Rightarrow> nat" where
  "callbackCount e = length (mCallbacks e)"

text \<open>Who an event reaches, in order.\<close>

datatype 'c recipient = Listener nat | Callback 'c

definition notifyCallbacks :: "'c event_support \<Rightarrow> 'c recipient list" where
  "notifyCallbacks e = map (\<lambda>(_, c). Callback c) (mCallbacks e)"

definition fireEvent :: "'c event_support \<Rightarrow> 'c recipient list" where
  "fireEvent e =
     concat (map (\<lambda>l. case l of Internal \<Rightarrow> notifyCallbacks e | External n \<Rightarrow> [Listener n]) (mListeners e))"

section \<open>Callbacks attached to another event source\<close>

text \<open>
  \<^verbatim>\<open>EventCallbacks\<close> listens to an event source it does not own: its internal listener, here the
  external listener \<open>ec_listener\<close> of that source, is there from construction to destruction.
\<close>

record 'c event_callbacks =
  ec_listener :: nat
  ec_callbacks :: "(u64 \<times> 'c) list"
  ec_next_id :: u64

definition EventCallbacks_new :: "nat \<Rightarrow> 'd event_support \<Rightarrow> 'c event_callbacks \<times> 'd event_support" where
  "EventCallbacks_new n e =
     (\<lparr>ec_listener = n, ec_callbacks = [], ec_next_id = 0\<rparr>, addListener (External n) e)"

definition EventCallbacks_delete :: "'c event_callbacks \<Rightarrow> 'd event_support \<Rightarrow> 'd event_support" where
  "EventCallbacks_delete ec e = removeListener (External (ec_listener ec)) e"

definition EventCallbacks_addCallback :: "'c \<Rightarrow> 'c event_callbacks \<Rightarrow> u64 \<times> 'c event_callbacks" where
  "EventCallbacks_addCallback callback ec =
     (let i = ec_next_id ec
      in (i, ec\<lparr>ec_next_id := i + 1, ec_callbacks := AList.update i callback (ec_callbacks ec)\<rparr>))"

definition EventCallbacks_removeCallback :: "u64 \<Rightarrow> 'c event_callbacks \<Rightarrow> 'c event_callbacks" where
  "EventCallbacks_removeCallback i ec = ec\<lparr>ec_callbacks := AList.delete i (ec_callbacks ec)\<rparr>"

definition EventCallbacks_callbackCount :: "'c event_callbacks \<Rightarrow> nat" where
  "EventCallbacks_callbackCount ec = length (ec_callbacks ec)"

definition EventCallbacks_notifyCallbacks :: "'c event_callbacks \<Rightarrow> 'c recipient list" where
  "EventCallbacks_notifyCallbacks ec = map (\<lambda>(_, c). Callback c) (ec_callbacks ec)"

text \<open>A scoped callback is the id it removes when it goes; a moved-from one has the largest id.\<close>

definition Scoped_new :: "'c \<Rightarrow> 'c event_support \<Rightarrow> u64 \<times> 'c event_support" where
  "Scoped_new callback e = addCallback callback e"

definition Scoped_delete :: "u64 \<Rightarrow> 'c event_support \<Rightarrow> 'c event_support" where
  "Scoped_delete i e = removeCallback i e"

definition Scoped_void_delete :: "u64 \<Rightarrow> 'c event_support \<Rightarrow> 'c event_support" where
  "Scoped_void_delete i e = (if i \<noteq> - 1 then removeCallback i e else e)"

text \<open>The id of the new object and of the one moved from.\<close>

definition Scoped_move :: "u64 \<Rightarrow> u64 \<times> u64" where
  "Scoped_move other = (other, - 1)"

section \<open>The contract of a subscription service\<close>

text \<open>
  Adding a subscriber gives back a key that nobody else has, removing one by its key takes away
  that subscriber only.
\<close>

locale subscription_service =
  fixes add :: "'c \<Rightarrow> 's \<Rightarrow> ('k \<times> 's) option"
    and remove :: "'k \<Rightarrow> 's \<Rightarrow> 's"
    and subscribers :: "'s \<Rightarrow> 'k \<Rightarrow> 'c option"
    and inv :: "'s \<Rightarrow> bool"
    and room :: "'s \<Rightarrow> bool"
  assumes add_law: "inv s \<Longrightarrow> room s \<Longrightarrow> \<exists>k s'. add c s = Some (k, s') \<and> inv s' \<and>
      subscribers s k = None \<and> subscribers s' = (subscribers s)(k \<mapsto> c)"
    and remove_law: "inv s \<Longrightarrow> inv (remove k s) \<and> subscribers (remove k s) = (subscribers s)(k := None)"
begin

lemma add_then_remove:
  assumes "inv s" and "room s"
  obtains k s' where "add c s = Some (k, s')" and "subscribers s' k = Some c"
    and "subscribers (remove k s') = subscribers s"
proof -
  obtain k s' where a: "add c s = Some (k, s')" "inv s'" "subscribers s k = None"
    "subscribers s' = (subscribers s)(k \<mapsto> c)"
    using add_law [OF assms] by blast
  then have "subscribers (remove k s') = subscribers s" using remove_law [of s' k] by auto
  with a show ?thesis using that by simp
qed

lemma added_keys_distinct:
  assumes "inv s" and "room s" and "add c s = Some (k, s')" and "room s'" and "add c' s' = Some (k', s'')"
  shows "k' \<noteq> k \<and> subscribers s'' k = Some c \<and> subscribers s'' k' = Some c'"
  using add_law [OF assms(1,2), of c] add_law [of s' c'] assms by auto

end

section \<open>Topics keep the contract\<close>

definition topic_inv :: "'c topic \<Rightarrow> bool" where
  "topic_inv t \<longleftrightarrow> distinct (map fst (mSubscriptions t))"

definition topic_room :: "'c topic \<Rightarrow> bool" where
  "topic_room t \<longleftrightarrow> (\<exists>v. map_of (mSubscriptions t) v = None)"

abbreviation topic_subscribers :: "'c topic \<Rightarrow> u32 \<Rightarrow> 'c option" where
  "topic_subscribers t \<equiv> map_of (mSubscriptions t)"

lemma topic_subscribe_within:
  "topic_subscribers t (mLastTicket t + 1 + of_nat n) = None \<Longrightarrow>
   \<exists>v. topic_subscribe c t = Some (v, t\<lparr>mLastTicket := v, mSubscriptions := (v, c) # mSubscriptions t\<rparr>) \<and>
       topic_subscribers t v = None"
proof (induction n arbitrary: t)
  case 0
  then show ?case by (subst topic_subscribe.simps) (auto simp: Let_def)
next
  case (Suc n)
  let ?v = "mLastTicket t + 1"
  show ?case
  proof (cases "topic_subscribers t ?v")
    case None
    then show ?thesis by (subst topic_subscribe.simps) (auto simp: Let_def)
  next
    case (Some x)
    let ?t = "t\<lparr>mLastTicket := ?v\<rparr>"
    have "topic_subscribers ?t (mLastTicket ?t + 1 + of_nat n) = None"
      using Suc.prems by (simp add: add.assoc)
    from Suc.IH [OF this] Some show ?thesis
      by (subst topic_subscribe.simps) (simp add: Let_def)
  qed
qed

lemma topic_subscribe_returns:
  assumes "topic_room t"
  obtains v where "topic_subscribe c t = Some (v, t\<lparr>mLastTicket := v, mSubscriptions := (v, c) # mSubscriptions t\<rparr>)"
    and "topic_subscribers t v = None"
proof -
  from assms obtain v where v: "topic_subscribers t v = None" by (auto simp: topic_room_def)
  have "mLastTicket t + 1 + of_nat (unat (v - (mLastTicket t + 1))) = v" by simp
  with v topic_subscribe_within [of t "unat (v - (mLastTicket t + 1))" c] that show ?thesis by auto
qed

interpretation topics: subscription_service topic_subscribe unsubscribeImpl topic_subscribers topic_inv topic_room
proof
  fix t :: "'c topic" and c
  assume "topic_inv t" and "topic_room t"
  obtain v where "topic_subscribe c t = Some (v, t\<lparr>mLastTicket := v, mSubscriptions := (v, c) # mSubscriptions t\<rparr>)"
    "topic_subscribers t v = None"
    by (rule topic_subscribe_returns [OF \<open>topic_room t\<close>])
  with \<open>topic_inv t\<close> show "\<exists>k s'. topic_subscribe c t = Some (k, s') \<and> topic_inv s' \<and>
      topic_subscribers t k = None \<and> topic_subscribers s' = (topic_subscribers t)(k \<mapsto> c)"
    by (auto simp: topic_inv_def map_of_eq_None_iff)
next
  fix t :: "'c topic" and k
  assume "topic_inv t"
  then show "topic_inv (unsubscribeImpl k t) \<and>
      topic_subscribers (unsubscribeImpl k t) = (topic_subscribers t)(k := None)"
    by (simp add: topic_inv_def unsubscribeImpl_def AList.delete_conv' AList.distinct_delete)
qed

fun call_all :: "('c \<Rightarrow> 'w \<Rightarrow> 'r \<times> 'w) \<Rightarrow> 'c list \<Rightarrow> 'w \<Rightarrow> 'r list \<times> 'w" where
  "call_all call [] w = ([], w)"
| "call_all call (c # cs) w =
     (let (r, w1) = call c w; (rs, w2) = call_all call cs w1 in (r # rs, w2))"

lemma broadcast_loop_calls:
  assumes "\<And>v c w. (v, c) \<in> set subs \<Longrightarrow> fst (call c w) \<in> {None, Some v}"
  shows "broadcast_loop call subs w =
    (case call_all call (map snd subs) w of
       (rs, w') \<Rightarrow> Some (map fst (filter (\<lambda>(_, r). r = None) (zip subs rs)), w'))"
  using assms
proof (induction subs arbitrary: w)
  case Nil
  then show ?case by simp
next
  case (Cons s subs)
  obtain ticket c where s: "s = (ticket, c)" by (cases s)
  obtain r w1 where c: "call c w = (r, w1)" by (cases "call c w")
  then have r: "r = None \<or> r = Some ticket" using Cons.prems [of ticket c w] s by auto
  have "broadcast_loop call subs w1 =
    (case call_all call (map snd subs) w1 of
       (rs, w') \<Rightarrow> Some (map fst (filter (\<lambda>(_, r). r = None) (zip subs rs)), w'))"
    by (rule Cons.IH) (use Cons.prems in auto)
  with s c r show ?case by (auto split: prod.splits)
qed

section \<open>Listeners and callbacks keep the contract\<close>

definition event_inv :: "'c event_support \<Rightarrow> bool" where
  "event_inv e \<longleftrightarrow> distinct (mListeners e) \<and> distinct (map fst (mCallbacks e)) \<and>
     (\<forall>i \<in> set (map fst (mCallbacks e)). i < mNextId e) \<and>
     (Internal \<in> set (mListeners e) \<longleftrightarrow> mCallbacks e \<noteq> []) \<and>
     (mCallbacks e \<noteq> [] \<longrightarrow> mInternalListener e)"

lemma event_inv_new: "event_inv new_event_support"
  by (simp add: event_inv_def new_event_support_def)

lemma event_inv_addListener: "event_inv e \<Longrightarrow> event_inv (addListener (External n) e)"
  by (simp add: event_inv_def addListener_def)

lemma event_inv_removeListener: "event_inv e \<Longrightarrow> event_inv (removeListener (External n) e)"
  by (auto simp: event_inv_def removeListener_def distinct_removeAll)

lemma addCallback_inv:
  assumes "event_inv e" and "mNextId e \<noteq> - 1" and "addCallback c e = (i, e')"
  shows "event_inv e' \<and> map_of (mCallbacks e) i = None \<and> map_of (mCallbacks e') = (map_of (mCallbacks e))(i \<mapsto> c)"
proof -
  have i: "i = mNextId e" using assms(3) by (simp add: addCallback_def Let_def)
  have fresh: "i \<notin> fst ` set (mCallbacks e)" using assms(1) i by (force simp: event_inv_def)
  have cb: "mCallbacks e' = mCallbacks e @ [(i, c)]" "mNextId e' = mNextId e + 1"
    using assms(3) i update_fresh [OF fresh, of c] by (auto simp: addCallback_def Let_def addListener_def split: if_splits)
  have "\<forall>j \<in> fst ` set (mCallbacks e). j < mNextId e + 1"
    using assms(1,2) word_le_succ_iff [OF assms(2)] by (fastforce simp: event_inv_def order.order_iff_strict)
  moreover have "mNextId e < mNextId e + 1"
    using word_le_succ_iff [OF assms(2), of "mNextId e"] assms(2) by (auto simp: order.order_iff_strict)
  moreover have "mListeners e' = (if mCallbacks e = [] then List.insert Internal (mListeners e) else mListeners e)"
    "mInternalListener e' = (mCallbacks e = [] \<or> mInternalListener e)"
    using assms(3) i update_fresh [OF fresh, of c] by (auto simp: addCallback_def Let_def addListener_def split: if_splits)
  ultimately have "event_inv e'"
    using assms(1) cb fresh i by (auto simp: event_inv_def)
  moreover have "map_of (mCallbacks e) i = None" using fresh by (simp add: map_of_eq_None_iff)
  moreover have "map_of (mCallbacks e') = (map_of (mCallbacks e))(i \<mapsto> c)"
    using cb(1) fresh map_add_comm [of "[i \<mapsto> c]" "map_of (mCallbacks e)"]
    by (simp add: dom_map_of_conv_image_fst)
  ultimately show ?thesis by blast
qed

lemma removeCallback_inv:
  assumes "event_inv e"
  shows "event_inv (removeCallback i e) \<and> map_of (mCallbacks (removeCallback i e)) = (map_of (mCallbacks e))(i := None)"
proof -
  let ?cb = "AList.delete i (mCallbacks e)"
  have cb: "mCallbacks (removeCallback i e) = ?cb"
    by (simp add: removeCallback_def removeListener_def Let_def)
  have sub: "set ?cb \<subseteq> set (mCallbacks e)" "mCallbacks e = [] \<Longrightarrow> ?cb = []" "distinct (map fst ?cb)"
    using assms by (auto simp: AList.delete_eq event_inv_def distinct_map_filter)
  then have "event_inv (removeCallback i e)"
    using assms by (auto simp: event_inv_def removeCallback_def removeListener_def Let_def distinct_removeAll)
  with cb show ?thesis by (simp add: AList.delete_conv')
qed

interpretation callbacks: subscription_service "\<lambda>c e. Some (addCallback c e)" removeCallback
  "\<lambda>e. map_of (mCallbacks e)" event_inv "\<lambda>e. mNextId e \<noteq> - 1"
proof
  fix e :: "'c event_support" and c
  assume "event_inv e" and "mNextId e \<noteq> - 1"
  then show "\<exists>k s'. Some (addCallback c e) = Some (k, s') \<and> event_inv s' \<and> map_of (mCallbacks e) k = None \<and>
      map_of (mCallbacks s') = (map_of (mCallbacks e))(k \<mapsto> c)"
    using addCallback_inv by (cases "addCallback c e") fastforce
next
  fix e :: "'c event_support" and k
  assume "event_inv e"
  then show "event_inv (removeCallback k e) \<and> map_of (mCallbacks (removeCallback k e)) = (map_of (mCallbacks e))(k := None)"
    by (rule removeCallback_inv)
qed

definition event_callbacks_inv :: "'c event_callbacks \<Rightarrow> bool" where
  "event_callbacks_inv ec \<longleftrightarrow> distinct (map fst (ec_callbacks ec)) \<and>
     (\<forall>i \<in> set (map fst (ec_callbacks ec)). i < ec_next_id ec)"

interpretation event_callbacks: subscription_service "\<lambda>c ec. Some (EventCallbacks_addCallback c ec)"
  EventCallbacks_removeCallback "\<lambda>ec. map_of (ec_callbacks ec)" event_callbacks_inv "\<lambda>ec. ec_next_id ec \<noteq> - 1"
proof
  fix ec :: "'c event_callbacks" and c
  assume inv: "event_callbacks_inv ec" and room: "ec_next_id ec \<noteq> - 1"
  let ?i = "ec_next_id ec"
  have fresh: "?i \<notin> fst ` set (ec_callbacks ec)" using inv by (force simp: event_callbacks_inv_def)
  have "j < ?i + 1" if "j < ?i \<or> j = ?i" for j
    using that word_le_succ_iff [OF room, of j] word_le_succ_iff [OF room, of ?i] room
    by (auto simp: order.order_iff_strict eq_neg_iff_add_eq_0)
  then have "event_callbacks_inv (snd (EventCallbacks_addCallback c ec))"
    using inv fresh by (auto simp: event_callbacks_inv_def EventCallbacks_addCallback_def Let_def update_fresh)
  moreover have "map_of (ec_callbacks (snd (EventCallbacks_addCallback c ec))) = (map_of (ec_callbacks ec))(?i \<mapsto> c)"
    by (simp add: EventCallbacks_addCallback_def Let_def update_conv')
  ultimately show "\<exists>k s'. Some (EventCallbacks_addCallback c ec) = Some (k, s') \<and> event_callbacks_inv s' \<and>
      map_of (ec_callbacks ec) k = None \<and> map_of (ec_callbacks s') = (map_of (ec_callbacks ec))(k \<mapsto> c)"
    using fresh by (auto simp: EventCallbacks_addCallback_def Let_def map_of_eq_None_iff)
next
  fix ec :: "'c event_callbacks" and k
  assume "event_callbacks_inv ec"
  then show "event_callbacks_inv (EventCallbacks_removeCallback k ec) \<and>
      map_of (ec_callbacks (EventCallbacks_removeCallback k ec)) = (map_of (ec_callbacks ec))(k := None)"
    using AList.delete_conv' [of k "ec_callbacks ec"]
    by (auto simp: event_callbacks_inv_def EventCallbacks_removeCallback_def AList.delete_eq
        distinct_map_filter)
qed

text \<open>
  A scoped callback is registered for as long as the object lives, and for no longer: moving it
  keeps the registration, and the destruction of the moved-from object changes nothing.
\<close>

lemma scoped_callback_lifetime:
  assumes "event_inv e" and "mNextId e \<noteq> - 1" and "Scoped_new c e = (i, e1)"
    and "Scoped_move i = (j, rest)"
  shows "map_of (mCallbacks (Scoped_delete rest e1)) j = Some c"
    and "map_of (mCallbacks (Scoped_void_delete rest e1)) j = Some c"
    and "map_of (mCallbacks (Scoped_delete j (Scoped_delete rest e1))) = map_of (mCallbacks e)"
proof -
  have moved: "j = i" "rest = - 1" using assms(4) by (simp_all add: Scoped_move_def)
  have add: "event_inv e1" "map_of (mCallbacks e) i = None" "map_of (mCallbacks e1) = (map_of (mCallbacks e))(i \<mapsto> c)"
    using addCallback_inv [OF assms(1,2)] assms(3) by (auto simp: Scoped_new_def)
  have "i = mNextId e" using assms(3) by (simp add: Scoped_new_def addCallback_def Let_def)
  then have ne: "rest \<noteq> i" using assms(2) moved by auto
  have rest: "map_of (mCallbacks e) rest = None"
  proof (rule ccontr)
    assume "map_of (mCallbacks e) rest \<noteq> None"
    then have "rest \<in> fst ` set (mCallbacks e)" by (simp add: map_of_eq_None_iff)
    then have "rest < mNextId e" using assms(1) by (auto simp: event_inv_def)
    then show False by (simp add: moved(2) not_less [symmetric])
  qed
  have del: "map_of (mCallbacks (Scoped_delete rest e1)) = map_of (mCallbacks e1)"
    using removeCallback_inv [OF add(1), of rest] rest ne add(3) by (auto simp: Scoped_delete_def)
  then show "map_of (mCallbacks (Scoped_delete rest e1)) j = Some c" by (simp add: add(3) moved)
  show "map_of (mCallbacks (Scoped_void_delete rest e1)) j = Some c"
    by (simp add: Scoped_void_delete_def add(3) moved)
  have "event_inv (Scoped_delete rest e1)" using removeCallback_inv [OF add(1)] by (simp add: Scoped_delete_def)
  from removeCallback_inv [OF this, of j] show
    "map_of (mCallbacks (Scoped_delete j (Scoped_delete rest e1))) = map_of (mCallbacks e)"
    using del add(2,3) moved by (auto simp: Scoped_delete_def)
qed

fun externals :: "listener list \<Rightarrow> nat list" where
  "externals [] = []"
| "externals (Internal # ls) = externals ls"
| "externals (External n # ls) = n # externals ls"

lemma fireEvent_mset:
  "distinct ls \<Longrightarrow> mset (concat (map (\<lambda>l. case l of Internal \<Rightarrow> cbs | External n \<Rightarrow> [Listener n]) ls)) =
    mset (map Listener (externals ls)) + (if Internal \<in> set ls then mset cbs else {#})"
  by (induction ls rule: externals.induct) auto

section \<open>Locks\<close>

text \<open>
  The order in which the operations take their two mutexes.  A thread is the list of what it still
  has to do; a mutex is held by at most one thread.
\<close>

datatype lock_id = ListenerLock | CallbackLock
datatype lock_action = Acquire lock_id | Release lock_id

definition fireEvent_locks :: "'c event_support \<Rightarrow> lock_action list" where
  "fireEvent_locks e =
     Acquire ListenerLock #
     concat (map (\<lambda>l. case l of Internal \<Rightarrow> [Acquire CallbackLock, Release CallbackLock] | External _ \<Rightarrow> []) (mListeners e)) @
     [Release ListenerLock]"

definition removeCallback_locks :: "u64 \<Rightarrow> 'c event_support \<Rightarrow> lock_action list" where
  "removeCallback_locks i e =
     Acquire CallbackLock #
     (if AList.delete i (mCallbacks e) = [] \<and> mInternalListener e
      then [Acquire ListenerLock, Release ListenerLock] else []) @
     [Release CallbackLock]"

record lock_state =
  holder :: "lock_id \<Rightarrow> nat option"
  todo :: "lock_action list list"

inductive lock_step :: "lock_state \<Rightarrow> lock_state \<Rightarrow> bool" where
  acquires: "i < length (todo s) \<Longrightarrow> todo s ! i = Acquire l # rest \<Longrightarrow> holder s l = None \<Longrightarrow>
    lock_step s (s\<lparr>holder := (holder s)(l \<mapsto> i), todo := (todo s)[i := rest]\<rparr>)"
| releases: "i < length (todo s) \<Longrightarrow> todo s ! i = Release l # rest \<Longrightarrow> holder s l = Some i \<Longrightarrow>
    lock_step s (s\<lparr>holder := (holder s)(l := None), todo := (todo s)[i := rest]\<rparr>)"

inductive_cases lock_stepE: "lock_step s s'"

definition deadlocked :: "lock_state \<Rightarrow> bool" where
  "deadlocked s \<longleftrightarrow> (\<exists>i < length (todo s). todo s ! i \<noteq> []) \<and> (\<nexists>s'. lock_step s s')"

lemma lock_order_inversion:
  assumes "l \<noteq> m"
  shows "\<exists>s'. lock_step\<^sup>*\<^sup>*
      \<lparr>holder = (\<lambda>_. None), todo = [Acquire l # Acquire m # xs, Acquire m # Acquire l # ys]\<rparr> s' \<and> deadlocked s'"
proof -
  let ?s0 = "\<lparr>holder = (\<lambda>_. None), todo = [Acquire l # Acquire m # xs, Acquire m # Acquire l # ys]\<rparr>"
  let ?s1 = "\<lparr>holder = [l \<mapsto> 0], todo = [Acquire m # xs, Acquire m # Acquire l # ys]\<rparr>"
  let ?s2 = "\<lparr>holder = [l \<mapsto> 0, m \<mapsto> 1], todo = [Acquire m # xs, Acquire l # ys]\<rparr>"
  have "lock_step ?s0 ?s1" using acquires [of 0 ?s0 l "Acquire m # xs"] by simp
  moreover have "lock_step ?s1 ?s2" using acquires [of 1 ?s1 m "Acquire l # ys"] assms by simp
  moreover have "\<not> lock_step ?s2 s'" for s'
  proof
    assume "lock_step ?s2 s'"
    then show False
    proof (cases rule: lock_step.cases)
      case (acquires i k rest)
      then show False using assms by (cases i) (auto split: if_splits)
    next
      case (releases i k rest)
      then show False by (cases i) auto
    qed
  qed
  then have "deadlocked ?s2" by (auto simp: deadlocked_def)
  ultimately show ?thesis by (meson converse_rtranclp_into_rtranclp rtranclp.rtrancl_refl)
qed

section \<open>Properties\<close>

text \<open>
  subscribing to a topic always comes back with a ticket nobody holds, as long as not all four
  billion are taken; the ticket unsubscribes this subscription and no other.
\<close>

theorem topic_tickets_unique:
  assumes "topic_inv t" and "topic_room t"
  shows "\<exists>k t'. topic_subscribe c t = Some (k, t') \<and> topic_inv t' \<and> map_of (mSubscriptions t) k = None \<and>
    map_of (mSubscriptions t') = (map_of (mSubscriptions t))(k \<mapsto> c) \<and>
    map_of (mSubscriptions (unsubscribeImpl k t')) = map_of (mSubscriptions t)"
proof -
  obtain k t' where "topic_subscribe c t = Some (k, t')" "topic_inv t'" "topic_subscribers t k = None"
    "topic_subscribers t' = (topic_subscribers t)(k \<mapsto> c)"
    using topics.add_law [OF assms] by blast
  moreover from this(2-) have "topic_subscribers (unsubscribeImpl k t') = topic_subscribers t"
    using topics.remove_law [of t' k] by auto
  ultimately show ?thesis by blast
qed

theorem topic_tickets_unique_witness:
  "\<exists>k t'. topic_subscribe (7 :: nat) \<lparr>mSubscriptions = [(0, 5), (4294967295, 6)], mLastTicket = 4294967294\<rparr> = Some (k, t') \<and>
     map_of (mSubscriptions t') = [0 \<mapsto> 5, 4294967295 \<mapsto> 6, k \<mapsto> 7]"
proof -
  let ?t = "\<lparr>mSubscriptions = [(0, 5), (4294967295, 6)], mLastTicket = 4294967294\<rparr> :: nat topic"
  have inv: "topic_inv ?t" by (simp add: topic_inv_def)
  have room: "topic_room ?t" unfolding topic_room_def by (rule exI [of _ 1]) simp
  from topic_tickets_unique [OF inv room, of 7] show ?thesis by fastforce
qed

text \<open>
  a broadcast calls every subscriber once, in the order of the table, each with the effects of
  those before it, and drops exactly the subscriptions whose callback gave its ticket back.
\<close>

theorem broadcast_calls_everyone_once:
  assumes "\<forall>(v, c) \<in> set (mSubscriptions t). \<forall>w. fst (call c w) \<in> {None, Some v}"
  shows "broadcast call t w =
    (case call_all call (map snd (mSubscriptions t)) w of
       (rs, w') \<Rightarrow> Some (t\<lparr>mSubscriptions := map fst (filter (\<lambda>(_, r). r = None) (zip (mSubscriptions t) rs))\<rparr>, w'))"
proof -
  have "\<And>v c w. (v, c) \<in> set (mSubscriptions t) \<Longrightarrow> fst (call c w) \<in> {None, Some v}" using assms by (auto 0 4)
  from broadcast_loop_calls [where subs = "mSubscriptions t" and call = call and w = w, OF this] show ?thesis by (simp add: broadcast_def split: prod.splits)
qed

theorem broadcast_calls_everyone_once_witness:
  "broadcast (\<lambda>c w. (if c = 5 then Some 1 else None, w @ [c])) \<lparr>mSubscriptions = [(2, 4), (1, 5), (3, 6)], mLastTicket = 3\<rparr> [] =
   Some (\<lparr>mSubscriptions = [(2, 4 :: nat), (3, 6)], mLastTicket = 3\<rparr>, [4, 5, 6])"
  using broadcast_calls_everyone_once [of "\<lparr>mSubscriptions = [(2, 4), (1, 5 :: nat), (3, 6)], mLastTicket = 3\<rparr>"
      "\<lambda>c w. (if c = 5 then Some 1 else None, w @ [c])" "[]"] by simp

text \<open>
  an event reaches every registered listener and every registered callback exactly once,
  whatever was added and removed before.
\<close>

theorem event_reaches_everyone_once:
  assumes "event_inv e"
  shows "mset (fireEvent e) = mset (map Listener (externals (mListeners e))) + mset (map (\<lambda>(_, c). Callback c) (mCallbacks e))"
proof -
  have "distinct (mListeners e)" and "Internal \<in> set (mListeners e) \<longleftrightarrow> mCallbacks e \<noteq> []"
    using assms by (simp_all add: event_inv_def)
  with fireEvent_mset [of "mListeners e" "notifyCallbacks e"] show ?thesis
    unfolding fireEvent_def by (auto simp: notifyCallbacks_def)
qed

theorem event_reaches_everyone_once_witness:
  "mset (fireEvent (snd (addCallback (8 :: nat) (addListener (External 3) (snd (addCallback 7 new_event_support)))))) =
   {#Listener 3, Callback 7, Callback 8#}"
proof -
  let ?e1 = "snd (addCallback (7 :: nat) new_event_support)"
  let ?e = "snd (addCallback (8 :: nat) (addListener (External 3) ?e1))"
  have e1: "addCallback 7 new_event_support = (0, ?e1)" and e: "addCallback 8 (addListener (External 3) ?e1) = (1, ?e)"
    by (simp_all add: addListener_def addCallback_def new_event_support_def Let_def)
  have n: "mNextId (new_event_support :: nat event_support) \<noteq> - 1" "mNextId (addListener (External 3) ?e1) \<noteq> - 1"
    by (simp_all add: addListener_def addCallback_def new_event_support_def Let_def)
  have "event_inv ?e1" using addCallback_inv [OF event_inv_new n(1) e1] by blast
  from addCallback_inv [OF event_inv_addListener [OF this] n(2) e] have "event_inv ?e" by blast
  from event_reaches_everyone_once [OF this] show ?thesis
    by (simp add: addListener_def addCallback_def new_event_support_def Let_def)
qed



end
