(* ===== verification/Registry.thy ===== *)
theory Registry
  imports Connector Events
begin

text \<open>
  The registry of devices a guest can connect to (\<^verbatim>\<open>emulator/devices/connector_registry.cpp\<close> and its
  header), and the plug that waits for a connection to come up
  (\<^verbatim>\<open>emulator/devices/connection_awaiter.cpp\<close>).  A weak pointer to a plug is the identity of the plug;
  whether it can still be locked is asked of a predicate \<open>alive\<close>.
\<close>

section \<open>The registry\<close>

record 'f registry =
  mAcceptingRegistries :: bool
  mEntries :: "(bytes \<times> 'f) list"
  mDevices :: "(bytes \<times> 'f) list"
  mActivePlugs :: "bytes \<Rightarrow> nat option"
  fired :: "bytes list"

definition new_registry :: "'f registry" where
  "new_registry = \<lparr>mAcceptingRegistries = True, mEntries = [], mDevices = [], mActivePlugs = (\<lambda>_. None), fired = []\<rparr>"

definition registerQemuDevice :: "bytes \<Rightarrow> 'f \<Rightarrow> 'f registry \<Rightarrow> bool \<times> 'f registry" where
  "registerQemuDevice name f r =
     (if mAcceptingRegistries r
      then (True, r\<lparr>mEntries := AList.update (asc ''q'' @ name) f (mEntries r)\<rparr>) else (False, r))"

definition registerDevice :: "bytes \<Rightarrow> 'f \<Rightarrow> 'f registry \<Rightarrow> bool \<times> 'f registry" where
  "registerDevice name f r =
     (if mAcceptingRegistries r
      then (True, r\<lparr>mEntries := AList.update (asc ''-'' @ name) f (mEntries r)\<rparr>) else (False, r))"

text \<open>
  \<open>order\<close> is the order in which the hash table of the entries is walked; \<open>ok\<close> is the answer of the
  function that starts the listener.
\<close>

definition registry_listen :: "(bytes \<times> 'f) list \<Rightarrow> bool \<Rightarrow> 'f registry \<Rightarrow> bool \<times> 'f registry" where
  "registry_listen order ok r = (ok, r\<lparr>mAcceptingRegistries := False, mDevices := mDevices r @ order\<rparr>)"

definition registerInternal :: "bytes \<Rightarrow> nat \<Rightarrow> 'f registry \<Rightarrow> 'f registry" where
  "registerInternal registryName plug r =
     r\<lparr>mActivePlugs := (mActivePlugs r)(registryName \<mapsto> plug), fired := fired r @ [registryName]\<rparr>"

text \<open>The factory of an entry: the plug it made is registered under the name without its prefix.\<close>

definition registerfn :: "bytes \<Rightarrow> nat \<Rightarrow> 'f registry \<Rightarrow> 'f registry" where
  "registerfn key connector r = registerInternal (drop 1 key) connector r"

text \<open>\<open>isT\<close> is the dynamic cast to the type asked for.\<close>

definition activeDevice ::
  "(nat \<Rightarrow> bool) \<Rightarrow> (nat \<Rightarrow> bool) \<Rightarrow> bytes \<Rightarrow> 'f registry \<Rightarrow> nat option \<times> 'f registry" where
  "activeDevice alive isT serviceName r =
     (case mActivePlugs r serviceName of
        Some p \<Rightarrow>
          if alive p then (if isT p then (Some p, r) else (None, r))
          else (None, r\<lparr>mActivePlugs := (mActivePlugs r)(serviceName := None)\<rparr>)
      | None \<Rightarrow> (None, r))"

section \<open>Waiting for a device\<close>

text \<open>
  \<^verbatim>\<open>DeviceRegistrationListener\<close>: its own callbacks, on an event support, and the devices it announced
  to them.  Adding a callback announces a device that is already there, to all callbacks.
\<close>

record 'c registration_listener =
  support :: "'c event_support"
  announced :: "('c recipient \<times> nat option) list"

definition announce :: "nat option \<Rightarrow> 'c registration_listener \<Rightarrow> 'c registration_listener" where
  "announce device l = l\<lparr>announced := announced l @ map (\<lambda>x. (x, device)) (fireEvent (support l))\<rparr>"

definition on_registered ::
  "(nat \<Rightarrow> bool) \<Rightarrow> (nat \<Rightarrow> bool) \<Rightarrow> bytes \<Rightarrow> bytes \<Rightarrow> 'f registry \<Rightarrow> 'c registration_listener \<Rightarrow>
   'f registry \<times> 'c registration_listener" where
  "on_registered alive isT serviceName name r l =
     (if name = serviceName
      then (case activeDevice alive isT serviceName r of (device, r') \<Rightarrow> (r', announce device l))
      else (r, l))"

definition listener_addCallback ::
  "(nat \<Rightarrow> bool) \<Rightarrow> (nat \<Rightarrow> bool) \<Rightarrow> bytes \<Rightarrow> 'c \<Rightarrow> 'f registry \<Rightarrow> 'c registration_listener \<Rightarrow>
   u64 \<times> 'f registry \<times> 'c registration_listener" where
  "listener_addCallback alive isT serviceName callback r l =
     (case addCallback callback (support l) of (i, e) \<Rightarrow>
        (case activeDevice alive isT serviceName r of (device, r') \<Rightarrow>
           (i, r', if device \<noteq> None then announce device (l\<lparr>support := e\<rparr>) else l\<lparr>support := e\<rparr>)))"

section \<open>The connection awaiter\<close>

text \<open>
  Sockets are identities; \<open>closed\<close> are the sockets whose owning pointer was overwritten or destroyed,
  \<open>handed_over\<close> what the connection callback was given.
\<close>

record awaiter =
  mIsConnected :: bool
  mSocket :: "nat option"
  handed_over :: "nat option list"
  closed :: "nat list"
  retrying :: bool

definition new_awaiter :: awaiter where
  "new_awaiter = \<lparr>mIsConnected = False, mSocket = None, handed_over = [], closed = [], retrying = True\<rparr>"

definition attemptConnection :: "nat option \<Rightarrow> awaiter \<Rightarrow> bool \<times> awaiter" where
  "attemptConnection created a =
     (if mIsConnected a then (False, a\<lparr>retrying := False\<rparr>)
      else (True, a\<lparr>mSocket := created, closed := closed a @ (case mSocket a of None \<Rightarrow> [] | Some s \<Rightarrow> [s])\<rparr>))"

definition awaiter_onConnect :: "awaiter \<Rightarrow> awaiter" where
  "awaiter_onConnect a =
     a\<lparr>mIsConnected := True, retrying := False, handed_over := handed_over a @ [mSocket a], mSocket := None\<rparr>"

definition awaiter_onUnplug :: "awaiter \<Rightarrow> nat option \<times> awaiter" where
  "awaiter_onUnplug a = (mSocket a, a\<lparr>mSocket := None\<rparr>)"

section \<open>Facts\<close>

text \<open>One registration, by kind and name.\<close>

definition register :: "bool \<times> bytes \<times> 'f \<Rightarrow> 'f registry \<Rightarrow> 'f registry" where
  "register x r = (case x of (isQemud, name, f) \<Rightarrow>
     snd (if isQemud then registerQemuDevice name f r else registerDevice name f r))"

lemma entry_name_asc: "entry_name isQemud name = (if isQemud then asc ''q'' else asc ''-'') @ name"
  by (simp add: entry_name_def asc_def)

lemma register_open:
  "mAcceptingRegistries r \<Longrightarrow> register (isQemud, name, f) r = r\<lparr>mEntries := AList.update (entry_name isQemud name) f (mEntries r)\<rparr>"
  by (simp add: register_def registerQemuDevice_def registerDevice_def entry_name_asc)

lemma fold_register:
  assumes "mAcceptingRegistries r" and "distinct (map fst (mEntries r))"
  shows "mAcceptingRegistries (fold register regs r) \<and> mDevices (fold register regs r) = mDevices r \<and>
    distinct (map fst (mEntries (fold register regs r))) \<and>
    map_of (mEntries (fold register regs r)) = map_of (mEntries r) ++ map_of (rev (map (\<lambda>(q, n, f). (entry_name q n, f)) regs))"
  using assms
proof (induction regs arbitrary: r)
  case Nil
  then show ?case by simp
next
  case (Cons x regs)
  obtain q n f where x: "x = (q, n, f)" by (cases x)
  let ?r = "register x r"
  have "mAcceptingRegistries ?r" "distinct (map fst (mEntries ?r))" "mDevices ?r = mDevices r"
    "map_of (mEntries ?r) = (map_of (mEntries r))(entry_name q n \<mapsto> f)"
    using Cons.prems by (simp_all add: x register_open AList.distinct_update AList.update_conv')
  with Cons.IH [of ?r] x show ?case by (auto simp: fun_eq_iff map_add_def split: option.splits)
qed

lemma map_of_mset:
  assumes "distinct (map fst xs)" and "mset xs = mset ys"
  shows "map_of xs = map_of ys"
proof -
  have "distinct (map fst ys)" using assms by (metis distinct_map mset_eq_imp_distinct_iff mset_eq_setD mset_map)
  then show ?thesis using assms by (metis map_of_eqI mset_eq_setD map_of_inject_set)
qed

datatype awaiter_event = Attempt "nat option" | Connected

fun awaiter_step :: "awaiter_event \<Rightarrow> nat option list \<times> awaiter \<Rightarrow> nat option list \<times> awaiter" where
  "awaiter_step (Attempt s) (made, a) =
     (case attemptConnection s a of (True, a') \<Rightarrow> (made @ [s], a') | (False, a') \<Rightarrow> (made, a'))"
| "awaiter_step Connected (made, a) = (made, awaiter_onConnect a)"

definition sockets :: "nat option list \<Rightarrow> nat multiset" where
  "sockets os = mset (map the (filter (\<lambda>x. x \<noteq> None) os))"

lemma sockets_append [simp]: "sockets (xs @ ys) = sockets xs + sockets ys"
  by (simp add: sockets_def)

lemma sockets_single [simp]: "sockets [x] = (case x of None \<Rightarrow> {#} | Some s \<Rightarrow> {#s#})" "sockets [] = {#}"
  by (auto simp: sockets_def split: option.splits)

lemma awaiter_run_accounts:
  assumes "fold awaiter_step evs (made, a) = (made', a')"
    and "sockets made = mset (closed a) + sockets (handed_over a) + sockets [mSocket a]"
  shows "sockets made' = mset (closed a') + sockets (handed_over a') + sockets [mSocket a']"
  using assms
proof (induction evs arbitrary: made a)
  case Nil
  then show ?case by simp
next
  case (Cons ev evs)
  obtain made1 a1 where s: "awaiter_step ev (made, a) = (made1, a1)" by (cases "awaiter_step ev (made, a)")
  have "sockets made1 = mset (closed a1) + sockets (handed_over a1) + sockets [mSocket a1]"
    using s Cons.prems(2)
    by (cases ev) (auto simp: attemptConnection_def awaiter_onConnect_def split: if_splits option.splits)
  with Cons s show ?case by simp
qed

section \<open>Properties\<close>

text \<open>
  once the registry listens, a request for a kind and name finds the factory registered last
  under them, independently of the order in which the hash table is walked, and no further
  registration is accepted.
\<close>

theorem registry_finds_last_registered:
  assumes "mset order = mset (mEntries (fold register regs new_registry))"
    and "registry_listen order ok (fold register regs new_registry) = (ok', r)"
  shows "ok' = ok \<and>
    map_of (mDevices r) (entry_name isQemud name) =
      map_of (rev (map (\<lambda>(q, n, f). (entry_name q n, f)) regs)) (entry_name isQemud name) \<and>
    registerQemuDevice name f r = (False, r) \<and> registerDevice name f r = (False, r)"
proof -
  let ?r = "fold register regs new_registry"
  have f: "distinct (map fst (mEntries ?r))" "mDevices ?r = []"
    "map_of (mEntries ?r) = map_of (rev (map (\<lambda>(q, n, f). (entry_name q n, f)) regs))"
    using fold_register [of new_registry regs] by (simp_all add: new_registry_def)
  have "map_of order = map_of (mEntries ?r)" using map_of_mset [OF f(1)] assms(1) by metis
  with f assms(2) show ?thesis
    by (auto simp: registry_listen_def registerQemuDevice_def registerDevice_def)
qed

theorem registry_finds_last_registered_witness:
  "map_of (mDevices (snd (registry_listen [(asc ''qgps'', 3), (asc ''-gps'', 2)] True
       (fold register [(True, asc ''gps'', 1 :: nat), (False, asc ''gps'', 2), (True, asc ''gps'', 3)] new_registry))))
     (entry_name True (asc ''gps'')) = Some 3"
proof -
  let ?regs = "[(True, asc ''gps'', 1 :: nat), (False, asc ''gps'', 2), (True, asc ''gps'', 3)]"
  let ?order = "[(asc ''qgps'', 3), (asc ''-gps'', 2)]"
  have "mset ?order = mset (mEntries (fold register ?regs new_registry))"
    by (simp add: register_def registerQemuDevice_def registerDevice_def new_registry_def asc_def)
  from registry_finds_last_registered [OF this, where isQemud = True and name = "asc ''gps''"] show ?thesis
    by (simp add: registry_listen_def entry_name_def asc_def)
qed

text \<open>
  a registered device is found by its service name for as long as it lives, and only when it
  has the type asked for; the entry of a device that is gone is dropped.
\<close>

theorem active_device_lookup:
  "activeDevice alive isT name (registerfn (c # name) p r) =
     (if alive p then (if isT p then Some p else None, registerfn (c # name) p r)
      else (None, (registerfn (c # name) p r)\<lparr>mActivePlugs := (mActivePlugs r)(name := None)\<rparr>))"
  by (auto simp: activeDevice_def registerfn_def registerInternal_def)

text \<open>
  a callback added while the device is active announces it to every callback that was already
  there, not just to the new one.
\<close>

theorem add_callback_announces_to_all:
  assumes "event_inv (support l)" and "mNextId (support l) \<noteq> - 1"
    and "mActivePlugs r name = Some p" and "alive p" and "isT p"
    and "listener_addCallback alive isT name c r l = (i, r', l')"
  shows "mset (announced l') = mset (announced l) +
    image_mset (\<lambda>x. (x, Some p)) (mset (map Listener (externals (mListeners (support l')))) +
      mset (map (\<lambda>(_, c). Callback c) (mCallbacks (support l)))) + {#(Callback c, Some p)#}"
proof -
  obtain e where a: "addCallback c (support l) = (i, e)" "l' = announce (Some p) (l\<lparr>support := e\<rparr>)"
    using assms(3-6) by (auto simp: listener_addCallback_def activeDevice_def split: prod.splits)
  have inv: "event_inv e" using addCallback_inv [OF assms(1,2) a(1)] by blast
  have fresh: "i \<notin> fst ` set (mCallbacks (support l))"
    using addCallback_inv [OF assms(1,2) a(1)] by (simp add: map_of_eq_None_iff)
  have "i = mNextId (support l)" using a(1) by (simp add: addCallback_def Let_def)
  with a(1) update_fresh [OF fresh, of c] have cb: "mCallbacks e = mCallbacks (support l) @ [(i, c)]"
    by (auto simp: addCallback_def Let_def addListener_def split: if_splits)
  have "distinct (mListeners e)" "Internal \<in> set (mListeners e)"
    using inv cb by (auto simp: event_inv_def)
  then have "mset (fireEvent e) = mset (map Listener (externals (mListeners e))) + mset (map (\<lambda>(_, c). Callback c) (mCallbacks e))"
    using fireEvent_mset [of "mListeners e" "notifyCallbacks e"] unfolding fireEvent_def by (auto simp: notifyCallbacks_def)
  then show ?thesis using a(2) cb by (simp add: announce_def)
qed

theorem add_callback_announces_to_all_witness:
  "\<exists>i r' l'. listener_addCallback (\<lambda>_. True) (\<lambda>_. True) (asc ''gps'') (2 :: nat)
      (registerfn (asc ''qgps'') 9 (new_registry :: unit registry))
      \<lparr>support = snd (addCallback 1 new_event_support), announced = []\<rparr> = (i, r', l') \<and>
    mset (announced l') = {#(Callback 1, Some 9), (Callback 2, Some 9)#}"
proof -
  let ?e = "snd (addCallback (1 :: nat) new_event_support)"
  let ?l = "\<lparr>support = ?e, announced = []\<rparr>"
  let ?r = "registerfn (asc ''qgps'') 9 (new_registry :: unit registry)"
  obtain i r' l' where res: "listener_addCallback (\<lambda>_. True) (\<lambda>_. True) (asc ''gps'') 2 ?r ?l = (i, r', l')"
    by (cases "listener_addCallback (\<lambda>_. True) (\<lambda>_. True) (asc ''gps'') 2 ?r ?l")
  have inv: "event_inv (support ?l)" "mNextId (support ?l) \<noteq> - 1"
    by (simp_all add: event_inv_def addCallback_def new_event_support_def addListener_def Let_def)
  have act: "mActivePlugs ?r (asc ''gps'') = Some 9"
    by (simp add: registerfn_def registerInternal_def asc_def)
  have "externals (mListeners (support l')) = []"
    using res by (auto simp: listener_addCallback_def activeDevice_def act announce_def addCallback_def
        new_event_support_def addListener_def Let_def)
  with add_callback_announces_to_all [OF inv act _ _ res] res show ?thesis
    by (simp add: addCallback_def new_event_support_def addListener_def Let_def)
qed

text \<open>
  whatever attempts and connections happen, every socket the awaiter made is accounted for: it
  was closed, handed over, or is the one still held.
\<close>

theorem awaiter_accounts_for_sockets:
  assumes "fold awaiter_step evs ([], new_awaiter) = (made, a)"
  shows "sockets made = mset (closed a) + sockets (handed_over a) + sockets [mSocket a]"
  by (rule awaiter_run_accounts [OF assms]) (simp add: new_awaiter_def)

theorem awaiter_accounts_for_sockets_witness:
  "\<exists>made a. fold awaiter_step [Attempt None, Attempt (Some 1), Attempt (Some 2), Connected, Attempt (Some 3)] ([], new_awaiter) = (made, a) \<and>
     sockets made = {#1, 2#} \<and> sockets made = mset (closed a) + sockets (handed_over a) + sockets [mSocket a]"
proof -
  obtain made a where r: "fold awaiter_step [Attempt None, Attempt (Some 1), Attempt (Some 2), Connected, Attempt (Some 3)] ([], new_awaiter) = (made, a)"
    by (cases "fold awaiter_step [Attempt None, Attempt (Some 1), Attempt (Some 2), Connected, Attempt (Some 3)] ([], new_awaiter)")
  then have "sockets made = {#1, 2#}"
    by (auto simp: attemptConnection_def awaiter_onConnect_def new_awaiter_def sockets_def)
  with awaiter_accounts_for_sockets [OF r] r show ?thesis by blast
qed

end
