(* ===== verification/Qemud.thy ===== *)
theory Qemud
  imports Cable
begin

text \<open>
  The QEMUD framing of \<^verbatim>\<open>emulator/devices/qemud.cpp\<close>: a four byte size, in hexadecimal or binary,
  then the payload.  The parser gets its input in arbitrary pieces; a sink is a state \<open>'s\<close> with the
  function called for every whole packet.
\<close>

section \<open>Sizes\<close>

definition parseHex1 :: "u8 \<Rightarrow> u64" where
  "parseHex1 c =
     (if 0x30 \<le> c \<and> c \<le> 0x39 then ucast (c - 0x30)
      else if 0x41 \<le> c \<and> c \<le> 0x46 then ucast (c - 0x41 + 10)
      else if 0x61 \<le> c \<and> c \<le> 0x66 then ucast (c - 0x61 + 10)
      else 0)"

definition dict :: "u32 \<Rightarrow> u8" where
  "dict i = asc ''0123456789ABCDEF'' ! unat i"

definition encodeRequestSize :: "u32 \<Rightarrow> bytes" where
  "encodeRequestSize n =
     (if n \<le> 0xFFFF then
        [dict (drop_bit 12 n), dict (drop_bit 8 n AND 0xF), dict (drop_bit 4 n AND 0xF), dict (n AND 0xF)]
      else
        [ucast (0x80 OR drop_bit 24 n), ucast (drop_bit 16 n), ucast (drop_bit 8 n), ucast n])"

text \<open>The first four bytes of the argument; the callers have checked that there are four.\<close>

fun decodeRequestSize :: "bytes \<Rightarrow> u64" where
  "decodeRequestSize (d0 # d1 # d2 # d3 # _) =
     (if d0 AND 0x80 \<noteq> 0 then
        push_bit 24 (ucast (d0 AND 0x7F)) OR push_bit 16 (ucast d1) OR push_bit 8 (ucast d2) OR ucast d3
      else
        push_bit 12 (parseHex1 d0) OR push_bit 8 (parseHex1 d1) OR push_bit 4 (parseHex1 d2) OR parseHex1 d3)"
| "decodeRequestSize _ = 0"

abbreviation (input) kSizeSize :: nat where "kSizeSize \<equiv> 4"

abbreviation requestSize :: "bytes \<Rightarrow> nat" where
  "requestSize data \<equiv> unat (decodeRequestSize data)"

section \<open>The parser\<close>

type_synonym 's sink = "'s \<Rightarrow> bytes \<Rightarrow> bool \<times> 's"

text \<open>The inner loop: whole packets are handed on straight from the input.\<close>

function drain :: "'s sink \<Rightarrow> 's \<Rightarrow> bytes \<Rightarrow> bool \<times> 's \<times> bytes" where
  "drain sink st data =
     (if length data \<ge> kSizeSize \<and> length data \<ge> kSizeSize + requestSize data then
        (let (ok, st1) = sink st (take (requestSize data) (drop kSizeSize data));
             (ok', st2, rest) = drain sink st1 (drop (kSizeSize + requestSize data) data)
         in (ok \<and> ok', st2, rest))
      else (True, st, data))"
  by auto
termination by (relation "measure (\<lambda>(_, _, data). length data)") auto

declare drain.simps [simp del]

text \<open>
  \<^verbatim>\<open>Parser::onReceive\<close>; the size of the last \<^verbatim>\<open>consume\<close> is computed in \<^verbatim>\<open>size_t\<close>, so it is the whole
  input when the buffer is longer than the packet it starts with.
\<close>

function Parser_onReceive :: "'s sink \<Rightarrow> 's \<Rightarrow> bytes \<Rightarrow> bytes \<Rightarrow> bool \<times> 's \<times> bytes" where
  "Parser_onReceive sink st buf data =
     (if data = [] then (True, st, buf)
      else if buf = [] then drain sink st data
      else if length buf < kSizeSize then
        (let consume = min (kSizeSize - length buf) (length data)
         in Parser_onReceive sink st (buf @ take consume data) (drop consume data))
      else if length buf = kSizeSize then
        (let n = requestSize buf
         in if length data \<ge> n then
              (let (ok, st1) = sink st (take n data); (ok', st2, buf') = Parser_onReceive sink st1 [] (drop n data)
               in (ok \<and> ok', st2, buf'))
            else (True, st, buf @ data))
      else
        (let n = requestSize buf;
             consume = (if length buf \<le> kSizeSize + n then min (kSizeSize + n - length buf) (length data)
                        else length data);
             buf1 = buf @ take consume data
         in if length buf + consume = kSizeSize + n then
              (let (ok, st1) = sink st (take n (drop kSizeSize buf1));
                   (ok', st2, buf') = Parser_onReceive sink st1 [] (drop consume data)
               in (ok \<and> ok', st2, buf'))
            else Parser_onReceive sink st buf1 (drop consume data)))"
  by auto
termination
  by (relation "measures [\<lambda>(_, _, buf, data). length data, \<lambda>(_, _, buf, data). length buf]")
    (auto simp: min_def split: if_splits)

declare Parser_onReceive.simps [simp del]

text \<open>Input that arrives in several pieces.\<close>

fun Parser_feed :: "'s sink \<Rightarrow> 's \<Rightarrow> bytes \<Rightarrow> bytes list \<Rightarrow> bool \<times> 's \<times> bytes" where
  "Parser_feed sink st buf [] = (True, st, buf)"
| "Parser_feed sink st buf (c # cs) =
     (let (ok, st1, buf1) = Parser_onReceive sink st buf c; (ok', st2, buf2) = Parser_feed sink st1 buf1 cs
      in (ok \<and> ok', st2, buf2))"

section \<open>Snapshots and sending\<close>

definition Parser_saveToSnapshot :: "'w write_fn \<Rightarrow> bytes \<Rightarrow> 'w \<Rightarrow> 'w" where
  "Parser_saveToSnapshot wr buf w = wr (put_size wr w (length buf)) buf"

text \<open>A short read leaves the rest of the resized buffer at zero.\<close>

definition Parser_loadFromSnapshot :: "'r read_fn \<Rightarrow> 'r \<Rightarrow> (bool \<times> bytes) \<times> 'r" where
  "Parser_loadFromSnapshot rd r =
     (let (n, r1) = getUnsigned rd r; (bs, r2) = rd r1 (unat n)
      in ((length bs \<noteq> 0, bs @ replicate (unat n - length bs) 0), r2))"

definition qemud_sendAsync :: "bytes \<Rightarrow> 'p socket_call list" where
  "qemud_sendAsync data = [SendAsync (encodeRequestSize (of_nat (length data))), SendAsync data]"

section \<open>What a stream of bytes means\<close>

text \<open>The packets of a stream and the incomplete rest, without regard to how the stream was cut.\<close>

function frames :: "bytes \<Rightarrow> bytes list \<times> bytes" where
  "frames data =
     (if length data \<ge> kSizeSize \<and> length data \<ge> kSizeSize + requestSize data then
        (let (ps, rest) = frames (drop (kSizeSize + requestSize data) data)
         in (take (requestSize data) (drop kSizeSize data) # ps, rest))
      else ([], data))"
  by auto
termination by (relation "measure length") auto

declare frames.simps [simp del]

fun run_sink :: "'s sink \<Rightarrow> 's \<Rightarrow> bytes list \<Rightarrow> bool \<times> 's" where
  "run_sink sink st [] = (True, st)"
| "run_sink sink st (p # ps) =
     (let (ok, st1) = sink st p; (ok', st2) = run_sink sink st1 ps in (ok \<and> ok', st2))"

text \<open>A buffer is short of the packet it starts with, or is exactly a header.\<close>

definition partial_packet :: "bytes \<Rightarrow> bool" where
  "partial_packet buf \<longleftrightarrow> length buf \<le> kSizeSize \<or> length buf < kSizeSize + requestSize buf"

lemma decodeRequestSize_append: "length buf \<ge> kSizeSize \<Longrightarrow> decodeRequestSize (buf @ xs) = decodeRequestSize buf"
  by (cases buf rule: decodeRequestSize.cases) auto

lemma frames_whole:
  "length data \<ge> kSizeSize \<Longrightarrow> length data \<ge> kSizeSize + requestSize data \<Longrightarrow>
   frames data = (take (requestSize data) (drop kSizeSize data) # fst (frames (drop (kSizeSize + requestSize data) data)),
     snd (frames (drop (kSizeSize + requestSize data) data)))"
  by (subst frames.simps) (simp add: Let_def split_beta)

lemma frames_partial: "\<not> (length data \<ge> kSizeSize \<and> length data \<ge> kSizeSize + requestSize data) \<Longrightarrow> frames data = ([], data)"
  by (subst frames.simps) auto

lemma drain_frames:
  "drain sink st data = (case run_sink sink st (fst (frames data)) of (ok, st') \<Rightarrow> (ok, st', snd (frames data)))"
proof (induction sink st data rule: drain.induct)
  case (1 sink st data)
  show ?case
  proof (cases "length data \<ge> kSizeSize \<and> length data \<ge> kSizeSize + requestSize data")
    case True
    then have "drain sink st1 (drop (kSizeSize + requestSize data) data) =
      (case run_sink sink st1 (fst (frames (drop (kSizeSize + requestSize data) data))) of
        (ok, st') \<Rightarrow> (ok, st', snd (frames (drop (kSizeSize + requestSize data) data))))"
      if "sink st (take (requestSize data) (drop kSizeSize data)) = (ok, st1)" for ok st1
      using 1 that by auto
    with True show ?thesis
      by (subst drain.simps) (simp add: frames_whole split: prod.splits)
  next
    case False
    then show ?thesis by (subst drain.simps) (auto simp: frames_partial)
  qed
qed

lemma frames_rest: "frames (snd (frames data)) = ([], snd (frames data))"
proof (induction data rule: frames.induct)
  case (1 data)
  show ?case
  proof (cases "length data \<ge> kSizeSize \<and> length data \<ge> kSizeSize + requestSize data")
    case True
    then show ?thesis using "1.IH" by (simp add: frames_whole)
  next
    case False
    then show ?thesis by (simp add: frames_partial)
  qed
qed

lemma frames_rest_partial: "partial_packet (snd (frames data))"
  using frames_rest [of data] frames_whole [of "snd (frames data)"]
  by (auto simp: partial_packet_def not_le dest: leI)

lemma frames_append:
  "frames (a @ b) = (fst (frames a) @ fst (frames (snd (frames a) @ b)), snd (frames (snd (frames a) @ b)))"
proof (induction a rule: frames.induct)
  case (1 a)
  show ?case
  proof (cases "length a \<ge> kSizeSize \<and> length a \<ge> kSizeSize + requestSize a")
    case True
    then show ?thesis
      using "1.IH" by (simp add: frames_whole [of a] frames_whole [of "a @ b"] decodeRequestSize_append)
  next
    case False
    then show ?thesis by (simp add: frames_partial [of a])
  qed
qed

lemma frames_snoc_packet:
  assumes "length buf \<ge> kSizeSize" and "length buf + length x = kSizeSize + requestSize buf"
  shows "frames (buf @ x @ y) = (drop kSizeSize (buf @ x) # fst (frames y), snd (frames y))"
  using assms frames_whole [of "buf @ x @ y"]
  by (simp add: decodeRequestSize_append)

lemma run_sink_append:
  "run_sink sink st (ps @ qs) = (case run_sink sink st ps of (ok, st1) \<Rightarrow>
     (case run_sink sink st1 qs of (ok', st2) \<Rightarrow> (ok \<and> ok', st2)))"
  by (induction ps arbitrary: st) (auto split: prod.splits)

definition stream_step :: "'s sink \<Rightarrow> 's \<Rightarrow> bytes \<Rightarrow> bool \<times> 's \<times> bytes \<Rightarrow> bool" where
  "stream_step sink st bs res \<longleftrightarrow> (case res of (ok, st', buf') \<Rightarrow>
     \<exists>ps. run_sink sink st ps = (ok, st') \<and> frames bs = (ps @ fst (frames buf'), snd (frames buf')) \<and>
          partial_packet buf')"

lemma stream_step_after_packet:
  assumes "sink st p = (ok, st1)" and "stream_step sink st1 bs res"
    and "frames bs' = (p # fst (frames bs), snd (frames bs))"
  shows "stream_step sink st bs' (case res of (ok', st2, buf') \<Rightarrow> (ok \<and> ok', st2, buf'))"
proof -
  obtain ok' st2 buf' where res: "res = (ok', st2, buf')" by (cases res)
  with assms(2) obtain ps where ps: "run_sink sink st1 ps = (ok', st2)"
    "frames bs = (ps @ fst (frames buf'), snd (frames buf'))" "partial_packet buf'"
    by (auto simp: stream_step_def)
  show ?thesis
    using assms(1,3) ps res by (auto simp: stream_step_def intro!: exI [of _ "p # ps"])
qed

lemma partial_packet_Nil [simp]: "partial_packet []"
  by (simp add: partial_packet_def)

lemma Parser_onReceive_frames:
  "partial_packet buf \<Longrightarrow> stream_step sink st (buf @ data) (Parser_onReceive sink st buf data)"
proof (induction sink st buf data rule: Parser_onReceive.induct)
  case (1 sink st buf data)
  let ?n = "requestSize buf"
  note unf = Parser_onReceive.simps [of sink st buf data]
  consider (empty) "data = []" | (direct) "data \<noteq> []" "buf = []"
    | (header) "data \<noteq> []" "buf \<noteq> []" "length buf < kSizeSize"
    | (body) "data \<noteq> []" "length buf = kSizeSize" | (rest) "data \<noteq> []" "length buf > kSizeSize"
    by linarith
  then show ?case
  proof cases
    case empty
    with "1.prems" show ?thesis unfolding unf by (auto simp: stream_step_def intro!: exI [of _ "[]"])
  next
    case direct
    then show ?thesis unfolding unf
      by (auto simp: drain_frames stream_step_def frames_rest frames_rest_partial split: prod.splits)
  next
    case header
    let ?c = "min (kSizeSize - length buf) (length data)"
    have "partial_packet (buf @ take ?c data)" using header by (auto simp: partial_packet_def min_def)
    from "1.IH"(1) [OF header(1,2,3) refl this] header show ?thesis by (simp add: unf Let_def)
  next
    case body
    then have ne: "buf \<noteq> []" by auto
    show ?thesis
    proof (cases "length data \<ge> ?n")
      case True
      obtain ok st1 where s: "sink st (take ?n data) = (ok, st1)" by (cases "sink st (take ?n data)")
      have "stream_step sink st1 ([] @ drop ?n data) (Parser_onReceive sink st1 [] (drop ?n data))"
        using "1.IH"(2) [OF body(1) ne _ body(2) refl True s [symmetric] refl] body by simp
      moreover have "frames (buf @ data) = (take ?n data # fst (frames (drop ?n data)), snd (frames (drop ?n data)))"
        using frames_snoc_packet [of buf "take ?n data" "drop ?n data"] body True by simp
      ultimately show ?thesis
        using stream_step_after_packet [of sink st "take ?n data" ok st1 "drop ?n data" _ "buf @ data"]
          body ne True s by (simp add: unf split_beta Let_def)
    next
      case False
      then have "partial_packet (buf @ data)" "frames (buf @ data) = ([], buf @ data)"
        using body by (auto simp: partial_packet_def decodeRequestSize_append intro!: frames_partial)
      with body ne False show ?thesis by (simp add: unf Let_def stream_step_def)
    qed
  next
    case rest
    then have ne: "buf \<noteq> []" by auto
    have short: "length buf < kSizeSize + ?n" using "1.prems" rest by (simp add: partial_packet_def)
    let ?c = "min (kSizeSize + ?n - length buf) (length data)"
    let ?buf1 = "buf @ take ?c data"
    show ?thesis
    proof (cases "length buf + ?c = kSizeSize + ?n")
      case True
      have pk: "take ?n (drop kSizeSize ?buf1) = drop kSizeSize ?buf1" by (rule take_all) (use True rest in auto)
      obtain ok st1 where s: "sink st (drop kSizeSize ?buf1) = (ok, st1)" by (cases "sink st (drop kSizeSize ?buf1)")
      have "stream_step sink st1 ([] @ drop ?c data) (Parser_onReceive sink st1 [] (drop ?c data))"
        using "1.IH"(3) [OF rest(1) ne, of ?n ?c ?buf1] rest short True s pk by (simp add: not_less)
      moreover have "frames (buf @ data) = (drop kSizeSize ?buf1 # fst (frames (drop ?c data)), snd (frames (drop ?c data)))"
        using frames_snoc_packet [of buf "take ?c data" "drop ?c data"] rest True by simp
      ultimately show ?thesis
        using stream_step_after_packet [of sink st "drop kSizeSize ?buf1" ok st1 "drop ?c data" _ "buf @ data"]
          rest ne short True s pk by (simp add: unf split_beta Let_def)
    next
      case False
      then have "partial_packet ?buf1"
        using rest short by (auto simp: partial_packet_def decodeRequestSize_append)
      then have "stream_step sink st (?buf1 @ drop ?c data) (Parser_onReceive sink st ?buf1 (drop ?c data))"
        using "1.IH"(4) [OF rest(1) ne, of ?n ?c ?buf1] rest short False by (simp add: not_less)
      moreover have "length buf + length data < kSizeSize + ?n"
        using False short by (auto simp: min_def split: if_splits)
      ultimately show ?thesis using rest ne short by (simp add: unf Let_def)
    qed
  qed
qed

lemma Parser_feed_frames:
  "partial_packet buf \<Longrightarrow> stream_step sink st (buf @ concat cs) (Parser_feed sink st buf cs)"
proof (induction cs arbitrary: st buf)
  case Nil
  then show ?case by (auto simp: stream_step_def intro!: exI [of _ "[]"])
next
  case (Cons c cs)
  obtain ok st1 buf1 where p: "Parser_onReceive sink st buf c = (ok, st1, buf1)"
    by (cases "Parser_onReceive sink st buf c")
  obtain ps where ps: "run_sink sink st ps = (ok, st1)" "frames (buf @ c) = (ps @ fst (frames buf1), snd (frames buf1))"
    "partial_packet buf1"
    using Parser_onReceive_frames [OF Cons.prems, of sink st c] p by (auto simp: stream_step_def)
  obtain ok' st2 buf2 where f: "Parser_feed sink st1 buf1 cs = (ok', st2, buf2)"
    by (cases "Parser_feed sink st1 buf1 cs")
  obtain qs where qs: "run_sink sink st1 qs = (ok', st2)" "partial_packet buf2"
    "frames (buf1 @ concat cs) = (qs @ fst (frames buf2), snd (frames buf2))"
    using Cons.IH [OF ps(3), of st1] f by (auto simp: stream_step_def)
  have "frames (buf @ concat (c # cs)) = (ps @ qs @ fst (frames buf2), snd (frames buf2))"
    using frames_append [of "buf @ c" "concat cs"] frames_append [of buf1 "concat cs"] ps(2) qs(3) by simp
  then show ?case
    using p f ps(1) qs(1,2) by (auto simp: stream_step_def run_sink_append intro!: exI [of _ "ps @ qs"])
qed

section \<open>The size field\<close>

lemma mask4_u32: "(0xF :: u32) = mask 4"
  by (simp add: mask_eq_exp_minus_1)

lemma bit_0x80_u32: "bit (0x80 :: u32) n \<longleftrightarrow> n = 7"
  using bit_exp_iff [where 'a = u32, of 7 n] by auto

lemma word_below_16:
  assumes "(i :: u32) < 16"
  shows "i \<in> {0, 1, 2, 3, 4, 5, 6, 7, 8, 9, 10, 11, 12, 13, 14, 15}"
proof -
  have "unat i < 16" using assms by (simp add: word_less_nat_alt)
  then have "unat i \<in> {0, 1, 2, 3, 4, 5, 6, 7, 8, 9, 10, 11, 12, 13, 14, 15}"
    unfolding insert_iff empty_iff by presburger
  then show ?thesis by (simp add: word_unat_eq_iff)
qed

lemma dict_digit:
  assumes "i < 16"
  shows "parseHex1 (dict i) = ucast i" and "dict i AND 0x80 = 0"
  using word_below_16 [OF assms] by (auto simp: dict_def parseHex1_def asc_def of_char_of [symmetric])

lemma and_0xF_less: "(x :: u32) AND 0xF < 16"
proof -
  have "x AND 0xF \<le> 0xF" by (rule word_and_le1)
  then show ?thesis by (simp add: word_le_nat_alt word_less_nat_alt)
qed

lemma join_nibbles:
  fixes n :: u32
  shows "push_bit 12 (ucast (drop_bit 12 n)) OR push_bit 8 (ucast (drop_bit 8 n AND 0xF)) OR
     push_bit 4 (ucast (drop_bit 4 n AND 0xF)) OR ucast (n AND 0xF) = (ucast n :: u64)"
  unfolding mask4_u32
proof (rule bit_word_eqI)
  fix i assume "i < LENGTH(64)"
  show "bit (push_bit 12 (ucast (drop_bit 12 n)) OR push_bit 8 (ucast (drop_bit 8 n AND mask 4)) OR
     push_bit 4 (ucast (drop_bit 4 n AND mask 4)) OR ucast (n AND mask 4) :: u64) i = bit (ucast n :: u64) i"
    using bit_imp_le_length [of n i]
    by (cases "12 \<le> i"; cases "8 \<le> i"; cases "4 \<le> i") (auto simp: bit_simps simp del: push_bit_and)
qed

lemma join_bytes:
  fixes n :: u32
  assumes "\<not> bit n 31"
  shows "push_bit 24 (ucast (ucast (0x80 OR drop_bit 24 n) AND 0x7F :: u8)) OR
     push_bit 16 (ucast (ucast (drop_bit 16 n) :: u8)) OR push_bit 8 (ucast (ucast (drop_bit 8 n) :: u8)) OR
     ucast (ucast n :: u8) = (ucast n :: u64)" (is "?l = _")
  unfolding mask7_u8
proof (rule bit_word_eqI)
  fix i assume "i < LENGTH(64)"
  have top: "i < 31" if "bit n i" using bit_imp_le_length [OF that] assms that by (cases "i = 31") auto
  show "bit (push_bit 24 (ucast (ucast (0x80 OR drop_bit 24 n) AND mask 7 :: u8)) OR
     push_bit 16 (ucast (ucast (drop_bit 16 n) :: u8)) OR push_bit 8 (ucast (ucast (drop_bit 8 n) :: u8)) OR
     ucast (ucast n :: u8) :: u64) i = bit (ucast n :: u64) i"
    using top by (cases "24 \<le> i"; cases "16 \<le> i"; cases "8 \<le> i")
      (auto simp: bit_simps bit_0x80 bit_0x80_u32 simp del: push_bit_and)
qed

lemma first_byte_binary: "(ucast (0x80 OR drop_bit 24 (n :: u32)) :: u8) AND 0x80 \<noteq> 0"
proof -
  have "bit ((ucast (0x80 OR drop_bit 24 n) :: u8) AND 0x80) 7"
    by (simp add: bit_simps bit_0x80 bit_0x80_u32)
  then show ?thesis by auto
qed

lemma drop_12_less: "n \<le> 0xFFFF \<Longrightarrow> drop_bit 12 (n :: u32) < 16"
  by (simp add: word_le_nat_alt word_less_nat_alt drop_bit_eq_div unat_div)

lemma decode_encode_size:
  assumes "unat n < 2 ^ 31"
  shows "decodeRequestSize (encodeRequestSize n @ rest) = ucast n"
proof (cases "n \<le> 0xFFFF")
  case True
  then show ?thesis
    using dict_digit [OF drop_12_less [OF True]] dict_digit [OF and_0xF_less]
    by (simp add: encodeRequestSize_def join_nibbles)
next
  case False
  have "\<not> bit n 31"
    using assms unfolding bit_iff_odd by (simp add: odd_iff_mod_2_eq_one word_arith_nat_div)
  with False show ?thesis
    using first_byte_binary [of n] by (simp add: encodeRequestSize_def join_bytes)
qed

lemma length_encodeRequestSize [simp]: "length (encodeRequestSize n) = kSizeSize"
  by (simp add: encodeRequestSize_def)

lemma frames_encoded:
  assumes "length p < 2 ^ 31"
  shows "frames (encodeRequestSize (of_nat (length p)) @ p @ rest) = (p # fst (frames rest), snd (frames rest))"
proof -
  have n: "unat (of_nat (length p) :: u32) = length p"
    using assms by (simp add: unat_of_nat take_bit_nat_eq_self)
  let ?h = "encodeRequestSize (of_nat (length p))"
  have "unat (decodeRequestSize (?h @ [])) = length p"
    using decode_encode_size [of "of_nat (length p)" "[]"] n assms
    by (simp add: unsigned_ucast_eq unat_of_nat take_bit_nat_eq_self)
  then show ?thesis using frames_snoc_packet [of ?h p rest] by simp
qed

lemma frames_of_partial:
  assumes "partial_packet buf"
  shows "frames buf = ([], buf) \<or> frames buf = ([[]], []) \<and> length buf = kSizeSize"
proof (cases "length buf \<ge> kSizeSize \<and> length buf \<ge> kSizeSize + requestSize buf")
  case True
  then have "requestSize buf = 0" "length buf = kSizeSize" using assms by (auto simp: partial_packet_def)
  moreover have "frames [] = ([], [])" by (simp add: frames_partial)
  ultimately show ?thesis using frames_whole [of buf] by simp
next
  case False
  then show ?thesis by (simp add: frames_partial)
qed

section \<open>Properties\<close>

definition collect :: "bytes list sink" where
  "collect st p = (True, st @ [p])"

lemma run_collect: "run_sink collect st ps = (True, st @ ps)"
  by (induction ps arbitrary: st) (simp_all add: collect_def)

definition call_bytes :: "'p socket_call list \<Rightarrow> bytes" where
  "call_bytes cs = concat (map (\<lambda>c. case c of SendAsync bs \<Rightarrow> bs | SwitchPlug _ \<Rightarrow> []) cs)"

lemma frames_sent:
  "\<forall>p \<in> set ps. length p < 2 ^ 31 \<Longrightarrow> frames (call_bytes (concat (map qemud_sendAsync ps))) = (ps, [])"
proof (induction ps)
  case Nil
  then show ?case by (simp add: call_bytes_def frames_partial)
next
  case (Cons p ps)
  then show ?case using frames_encoded [of p] by (simp add: call_bytes_def qemud_sendAsync_def)
qed




text \<open>
  an empty packet whose header arrives in two pieces is not delivered until more data comes,
  although the same header in one piece is delivered at once.
\<close>

theorem empty_packet_delayed:
  assumes "encodeRequestSize 0 = a @ b" and "a \<noteq> []" and "b \<noteq> []"
  shows "Parser_feed collect [] [] [a @ b] = (True, [[]], []) \<and> Parser_feed collect [] [] [a, b] = (True, [], a @ b)"
proof -
  let ?h = "encodeRequestSize 0"
  have len: "length a + length b = kSizeSize" using arg_cong [OF assms(1), of length] by simp
  have "frames (?h @ []) = ([[]], [])" using frames_encoded [of "[]" "[]"] by (simp add: frames_partial)
  then have one: "drain collect [] (a @ b) = (True, [[]], [])"
    using assms(1) by (simp add: drain_frames collect_def)
  have short: "length a < kSizeSize" using len assms(3) by (cases b) auto
  have two: "Parser_onReceive collect [] [] a = (True, [], a)"
    using assms(2) short by (simp add: Parser_onReceive.simps [of collect "[]" "[]" a] drain_frames frames_partial)
  have "Parser_onReceive collect [] (a @ b) [] = (True, [], a @ b)"
    by (subst Parser_onReceive.simps) simp
  moreover have "min (kSizeSize - length a) (length b) = length b" using len by simp
  ultimately have "Parser_onReceive collect [] a b = (True, [], a @ b)"
    using assms(2,3) short by (subst Parser_onReceive.simps) simp
  with two one assms(2) show ?thesis
    by (simp add: Parser_onReceive.simps [of collect "[]" "[]" "a @ b"])
qed

theorem empty_packet_delayed_witness:
  "Parser_feed collect [] [] [asc ''00'', asc ''00''] = (True, [], asc ''0000'')"
  using empty_packet_delayed [of "asc ''00''" "asc ''00''"]
  by (simp add: encodeRequestSize_def dict_def asc_def)

text \<open>
  a saved parser is restored with the bytes it had, but loading reports failure exactly when
  there were none.
\<close>

theorem parser_snapshot_roundtrip:
  assumes "length buf < 2 ^ 64"
  shows "Parser_loadFromSnapshot DequeReader_read (Parser_saveToSnapshot DequeWriter_write buf []) = ((buf \<noteq> [], buf), [])"
proof -
  let ?w = "Parser_saveToSnapshot DequeWriter_write buf []"
  have w: "?w = encode_unsigned (of_nat (length buf)) @ buf"
    by (simp add: Parser_saveToSnapshot_def deque_w.contents_write deque_w.contents_put)
  obtain r1 where r1: "getUnsigned DequeReader_read ?w = (of_nat (length buf), r1)" "r1 = buf"
    by (rule deque_r.getUnsigned_encode [OF w])
  have n: "unat (of_nat (length buf) :: u64) = length buf"
    using assms by (simp add: unat_of_nat take_bit_nat_eq_self)
  have "DequeReader_read buf (length buf) = (buf, [])" by (simp add: DequeReader_read_def)
  with r1 n show ?thesis by (simp add: Parser_loadFromSnapshot_def)
qed

theorem parser_snapshot_roundtrip_witness:
  "Parser_loadFromSnapshot DequeReader_read (Parser_saveToSnapshot DequeWriter_write [1, 2] []) = ((True, [1, 2]), [])"
  using parser_snapshot_roundtrip [of "[1, 2]"] by simp

end
