(* ===== verification/Hal_Devices.thy ===== *)
theory Hal_Devices
  imports Qemud Text
begin

text \<open>
  The simple guest devices of \<^verbatim>\<open>emulator/hal\<close>: clipboard, guest status, boot properties and
  fingerprint.  A device is the state of its plug; what it sends is a list of calls on its socket,
  the events it fires are collected in its state.
\<close>

section \<open>Clipboard\<close>

text \<open>
  The transfer state: the four bytes of \<^verbatim>\<open>dataSize\<close> are kept as they lie in memory, in the host's
  little-endian order.  A copy beyond the memory it goes to is \<^const>\<open>None\<close>.
\<close>

record read_write_state =
  rw_buffer :: bytes
  dataSizeBytes :: bytes
  processedBytes :: nat
  dataSizeTransferred :: bool

record clipboard_device =
  mGuestReadState :: read_write_state
  mClipboardData :: bytes
  mEnabled :: bool
  clip_events :: "bytes list"

definition Store32 :: "u32 \<Rightarrow> bytes" where
  "Store32 n = [ucast n, ucast (drop_bit 8 n), ucast (drop_bit 16 n), ucast (drop_bit 24 n)]"

definition rw_reset :: read_write_state where
  "rw_reset = \<lparr>rw_buffer = [], dataSizeBytes = replicate 4 0, processedBytes = 0, dataSizeTransferred = False\<rparr>"

definition dataSize :: "read_write_state \<Rightarrow> nat" where
  "dataSize s = unat (of_le32 (dataSizeBytes s))"

definition rw_size :: "read_write_state \<Rightarrow> int" where
  "rw_size s = int (if dataSizeTransferred s then length (rw_buffer s) else 4) - int (processedBytes s)"

definition isFinished :: "read_write_state \<Rightarrow> bool" where
  "isFinished s \<longleftrightarrow> dataSizeTransferred s \<and> processedBytes s = dataSize s"

text \<open>\<^verbatim>\<open>memcpy\<close> of \<open>src\<close> into \<open>dst\<close> at a position.\<close>

definition mem_copy :: "bytes \<Rightarrow> nat \<Rightarrow> bytes \<Rightarrow> bytes option" where
  "mem_copy dst pos src =
     (if pos + length src \<le> length dst then Some (take pos dst @ src @ drop (pos + length src) dst) else None)"

definition rw_copy :: "bytes \<Rightarrow> read_write_state \<Rightarrow> read_write_state option" where
  "rw_copy data s =
     (if dataSizeTransferred s
      then map_option (\<lambda>b. s\<lparr>rw_buffer := b, processedBytes := processedBytes s + length data\<rparr>)
             (mem_copy (rw_buffer s) (processedBytes s) data)
      else map_option (\<lambda>b. s\<lparr>dataSizeBytes := b, processedBytes := processedBytes s + length data\<rparr>)
             (mem_copy (dataSizeBytes s) (processedBytes s) data))"

definition clipboard_new :: clipboard_device where
  "clipboard_new = \<lparr>mGuestReadState = rw_reset, mClipboardData = [], mEnabled = True, clip_events = []\<rparr>"

definition clipboard_onReceive :: "bytes \<Rightarrow> clipboard_device \<Rightarrow> clipboard_device option" where
  "clipboard_onReceive data c =
     (let s = mGuestReadState c;
          s1 = (if rw_size s = 0 \<and> \<not> dataSizeTransferred s
                then s\<lparr>dataSizeTransferred := True, processedBytes := 0, rw_buffer := replicate (dataSize s) 0\<rparr>
                else s)
      in map_option
           (\<lambda>s2. if isFinished s2
                 then c\<lparr>mGuestReadState := rw_reset, mClipboardData := rw_buffer s2,
                        clip_events := clip_events c @ [rw_buffer s2]\<rparr>
                 else c\<lparr>mGuestReadState := s2\<rparr>)
           (rw_copy data s1))"

definition clipboard_enable :: "bool \<Rightarrow> clipboard_device \<Rightarrow> clipboard_device" where
  "clipboard_enable e c = c\<lparr>mEnabled := e\<rparr>"

definition clipboard_setContents :: "bytes \<Rightarrow> clipboard_device \<Rightarrow> 'p socket_call list" where
  "clipboard_setContents contents c =
     (if \<not> mEnabled c then []
      else [SendAsync (Store32 (of_nat (length contents))), SendAsync contents])"

fun clipboard_feed :: "bytes list \<Rightarrow> clipboard_device \<Rightarrow> clipboard_device option" where
  "clipboard_feed [] c = Some c"
| "clipboard_feed (d # ds) c = Option.bind (clipboard_onReceive d c) (clipboard_feed ds)"

section \<open>Guest status\<close>

text \<open>Times are milliseconds; \<open>now\<close> is the process's wall clock when the operation runs.\<close>

datatype guest_status_event = BootCompletedEvent int | ResetEvent | HeartbeatEvent u64

record guest_status_device =
  mHeartbeat :: u64
  mBootTime :: int
  mResetTimestampMs :: int
  status_events :: "guest_status_event list"

definition guest_status_new :: guest_status_device where
  "guest_status_new = \<lparr>mHeartbeat = 0, mBootTime = 0, mResetTimestampMs = 0, status_events = []\<rparr>"

definition guest_status_bootTime :: "guest_status_device \<Rightarrow> int option" where
  "guest_status_bootTime d = (if mBootTime d = 0 then None else Some (mBootTime d))"

definition msg_starts :: "string \<Rightarrow> bytes \<Rightarrow> bool" where
  "msg_starts pre msg \<longleftrightarrow> take (length pre) msg = asc pre"

definition guest_status_onReceive ::
  "int \<Rightarrow> bytes \<Rightarrow> guest_status_device \<Rightarrow> guest_status_device \<times> 'p socket_call list" where
  "guest_status_onReceive now msg d =
     ((if msg_starts ''heartbeat'' msg then
         (let h = mHeartbeat d + 1 in d\<lparr>mHeartbeat := h, status_events := status_events d @ [HeartbeatEvent h]\<rparr>)
       else if msg_starts ''bootcomplete'' msg then
         (let t = now - mResetTimestampMs d
          in d\<lparr>mBootTime := t, status_events := status_events d @ [BootCompletedEvent t]\<rparr>)
       else d),
      qemud_sendAsync (asc ''KO''))"

definition guest_status_reset :: "int \<Rightarrow> guest_status_device \<Rightarrow> guest_status_device" where
  "guest_status_reset now d =
     d\<lparr>mBootTime := 0, mResetTimestampMs := now, status_events := status_events d @ [ResetEvent]\<rparr>"

section \<open>Boot properties\<close>

datatype property_error = LengthError | InvalidPropertyName u8

definition LimitedString_set :: "nat \<Rightarrow> bytes \<Rightarrow> property_error + bytes" where
  "LimitedString_set n str = (if length str > n then Inl LengthError else Inr str)"

definition reject :: bytes where
  "reject = asc '' =$*?'' @ [0x27, 0x22]"

definition BootPropertyString_set :: "nat \<Rightarrow> bytes \<Rightarrow> property_error + bytes" where
  "BootPropertyString_set n str =
     (case List.find (\<lambda>c. c \<in> set reject) str of
        Some c \<Rightarrow> Inl (InvalidPropertyName c)
      | None \<Rightarrow> LimitedString_set n str)"

record boot_properties_device =
  mProperties :: "(bytes \<times> bytes) list"
  mDataPartitionMounted :: bool
  mounted_events :: "bool list"

definition property_line :: "bytes \<times> bytes \<Rightarrow> bytes" where
  "property_line nv = fst nv @ asc ''='' @ snd nv"

definition boot_properties_onReceive ::
  "bytes \<Rightarrow> boot_properties_device \<Rightarrow> boot_properties_device \<times> 'p socket_call list" where
  "boot_properties_onReceive cmd d =
     (if cmd = asc ''list''
      then (d\<lparr>mDataPartitionMounted := True, mounted_events := mounted_events d @ [True]\<rparr>,
            concat (map (\<lambda>nv. qemud_sendAsync (property_line nv)) (mProperties d)))
      else (d, []))"

definition boot_properties_reset :: "boot_properties_device \<Rightarrow> boot_properties_device" where
  "boot_properties_reset d = d\<lparr>mDataPartitionMounted := False, mounted_events := mounted_events d @ [False]\<rparr>"

text \<open>The device as a plug; it does not take part in snapshots.\<close>

definition boot_properties_plug :: "boot_properties_device plug_ops" where
  "boot_properties_plug =
     \<lparr>onConnect = (\<lambda>d. (d, [])), onReceive = (\<lambda>d data. case boot_properties_onReceive data d of (d', cs) \<Rightarrow> (True, d', cs)),
      onUnplug = (\<lambda>d. d), supportsLoadingFromSnapshot = (\<lambda>_. False), getSnapshotTypeId = (\<lambda>_. []),
      saveStateToSnapshot = (\<lambda>_. (False, []))\<rparr>"

section \<open>Fingerprint\<close>

definition fingerprint_onReceive :: "bytes \<Rightarrow> bool \<times> 'p socket_call list" where
  "fingerprint_onReceive data = (True, [])"

definition fingerprint_touch :: "32 word \<Rightarrow> 'p socket_call list" where
  "fingerprint_touch i = qemud_sendAsync (asc ''on:'' @ dec_int (sint i))"

definition fingerprint_release :: "'p socket_call list" where
  "fingerprint_release = qemud_sendAsync (asc ''off'')"

section \<open>Facts on transfers\<close>

lemma of_le32_Store32: "of_le32 (Store32 n) = n"
  by (simp only: Store32_def of_le32_bytes)

lemma length_Store32 [simp]: "length (Store32 n) = 4"
  by (simp add: Store32_def)

text \<open>The states a transfer goes through: part of the size has come, or part of the contents.\<close>

definition size_part :: "bytes \<Rightarrow> read_write_state" where
  "size_part p = \<lparr>rw_buffer = [], dataSizeBytes = p @ replicate (4 - length p) 0, processedBytes = length p,
     dataSizeTransferred = False\<rparr>"

definition contents_part :: "u32 \<Rightarrow> bytes \<Rightarrow> read_write_state" where
  "contents_part n p = \<lparr>rw_buffer = p @ replicate (unat n - length p) 0, dataSizeBytes = Store32 n,
     processedBytes = length p, dataSizeTransferred = True\<rparr>"

lemma rw_reset_part: "rw_reset = size_part []"
  by (simp add: rw_reset_def size_part_def)

lemma receive_size_part:
  assumes "length p < 4" and "length p + length d \<le> 4" and "mGuestReadState c = size_part p"
  shows "clipboard_onReceive d c = Some (c\<lparr>mGuestReadState := size_part (p @ d)\<rparr>)"
proof -
  have "4 - length p - length d = 4 - (length p + length d)" by simp
  with assms show ?thesis
    by (simp add: clipboard_onReceive_def rw_size_def size_part_def rw_copy_def mem_copy_def isFinished_def Let_def)
qed

lemma receive_contents_part:
  assumes "length (p @ d) \<le> unat n"
    and "mGuestReadState c = contents_part n p \<or> p = [] \<and> mGuestReadState c = size_part (Store32 n)"
  shows "clipboard_onReceive d c =
    Some (if length (p @ d) = unat n
          then c\<lparr>mGuestReadState := rw_reset, mClipboardData := p @ d, clip_events := clip_events c @ [p @ d]\<rparr>
          else c\<lparr>mGuestReadState := contents_part n (p @ d)\<rparr>)"
proof -
  let ?s = "mGuestReadState c"
  let ?s1 = "if rw_size ?s = 0 \<and> \<not> dataSizeTransferred ?s
     then ?s\<lparr>dataSizeTransferred := True, processedBytes := 0, rw_buffer := replicate (dataSize ?s) 0\<rparr> else ?s"
  have "?s1 = contents_part n p"
    using assms(2) by (auto simp: rw_size_def size_part_def contents_part_def dataSize_def of_le32_Store32)
  moreover have "rw_copy d (contents_part n p) = Some (contents_part n (p @ d))"
    using assms(1) by (simp add: rw_copy_def contents_part_def mem_copy_def)
  moreover have "isFinished (contents_part n (p @ d)) \<longleftrightarrow> length (p @ d) = unat n"
    by (simp add: isFinished_def contents_part_def dataSize_def of_le32_Store32)
  moreover have "rw_buffer (contents_part n (p @ d)) = p @ d" if "length (p @ d) = unat n"
    using that by (simp add: contents_part_def)
  ultimately show ?thesis by (auto simp: clipboard_onReceive_def Let_def)
qed

lemma clipboard_feed_append: "clipboard_feed (ds @ es) c = Option.bind (clipboard_feed ds c) (clipboard_feed es)"
proof (induction ds arbitrary: c)
  case Nil
  then show ?case by simp
next
  case (Cons d ds)
  then show ?case by (cases "clipboard_onReceive d c") simp_all
qed

lemma feed_size:
  assumes "\<forall>d \<in> set ds. d \<noteq> []" and "length (p @ concat ds) \<le> 4" and "mGuestReadState c = size_part p"
  shows "clipboard_feed ds c = Some (c\<lparr>mGuestReadState := size_part (p @ concat ds)\<rparr>)"
  using assms
proof (induction ds arbitrary: p c)
  case Nil
  then show ?case by simp
next
  case (Cons d ds)
  have "length p < 4" using Cons.prems by (cases d) auto
  then have "clipboard_onReceive d c = Some (c\<lparr>mGuestReadState := size_part (p @ d)\<rparr>)"
    using Cons.prems by (intro receive_size_part) auto
  with Cons.IH [of "p @ d" "c\<lparr>mGuestReadState := size_part (p @ d)\<rparr>"] Cons.prems show ?case by simp
qed

lemma feed_contents:
  assumes "\<forall>d \<in> set ds. d \<noteq> []" and "ds \<noteq> []" and "length (p @ concat ds) = unat n"
    and "mGuestReadState c = contents_part n p \<or> p = [] \<and> mGuestReadState c = size_part (Store32 n)"
  shows "clipboard_feed ds c =
    Some (c\<lparr>mGuestReadState := rw_reset, mClipboardData := p @ concat ds, clip_events := clip_events c @ [p @ concat ds]\<rparr>)"
  using assms
proof (induction ds arbitrary: p c)
  case Nil
  then show ?case by simp
next
  case (Cons d ds)
  have le: "length (p @ d) \<le> unat n" using Cons.prems by simp
  note r = receive_contents_part [OF le Cons.prems(4)]
  show ?case
  proof (cases "ds = []")
    case True
    with r Cons.prems show ?thesis by simp
  next
    case False
    then have ne: "length (p @ d) \<noteq> unat n" using Cons.prems by (cases ds) (auto simp: neq_Nil_conv)
    let ?c = "c\<lparr>mGuestReadState := contents_part n (p @ d)\<rparr>"
    have "clipboard_onReceive d c = Some ?c" using r ne by simp
    with Cons.IH [of "p @ d" ?c] Cons.prems False show ?thesis by simp
  qed
qed

section \<open>Properties\<close>

text \<open>
  a guest that sends the size and then the contents of its clipboard, in any pieces that do not
  mix the two, updates the host's clipboard to exactly these contents and leaves the device ready
  for the next transfer.
\<close>

theorem clipboard_transfer:
  assumes "mGuestReadState c = rw_reset" and "\<forall>d \<in> set (hs @ cs). d \<noteq> []"
    and "concat hs = Store32 (of_nat (length (concat cs)))" and "cs \<noteq> []" and "length (concat cs) < 2 ^ 32"
  shows "clipboard_feed (hs @ cs) c =
    Some (c\<lparr>mGuestReadState := rw_reset, mClipboardData := concat cs, clip_events := clip_events c @ [concat cs]\<rparr>)"
proof -
  let ?n = "of_nat (length (concat cs)) :: u32"
  have n: "unat ?n = length (concat cs)" using assms(5) by (simp add: unat_of_nat take_bit_nat_eq_self)
  have "clipboard_feed hs c = Some (c\<lparr>mGuestReadState := size_part (Store32 ?n)\<rparr>)"
    using feed_size [of hs "[]" c] assms(1-3) by (simp add: rw_reset_part)
  moreover have "clipboard_feed cs (c\<lparr>mGuestReadState := size_part (Store32 ?n)\<rparr>) =
    Some (c\<lparr>mGuestReadState := rw_reset, mClipboardData := concat cs, clip_events := clip_events c @ [concat cs]\<rparr>)"
    using feed_contents [of cs "[]" ?n "c\<lparr>mGuestReadState := size_part (Store32 ?n)\<rparr>"] assms(2,4) n by simp
  ultimately show ?thesis by (simp add: clipboard_feed_append)
qed

theorem clipboard_transfer_witness:
  "clipboard_feed [[3, 0], [0, 0], asc ''a'', asc ''bc''] clipboard_new =
   Some (clipboard_new\<lparr>mClipboardData := asc ''abc'', clip_events := [asc ''abc'']\<rparr>)"
  using clipboard_transfer [of clipboard_new "[[3, 0], [0, 0]]" "[asc ''a'', asc ''bc'']"]
  by (simp add: clipboard_new_def Store32_def asc_def)

text \<open>
  the device trusts the guest with the length of its messages: data beyond the four bytes of
  the size in one message, or anything after an empty clipboard, is copied past the end of the
  memory it goes to.
\<close>

theorem clipboard_overruns:
  assumes "data \<noteq> []"
  shows "clipboard_feed [Store32 n @ data] clipboard_new = None \<and> clipboard_feed [Store32 0, data] clipboard_new = None"
proof -
  have "clipboard_onReceive (Store32 0) clipboard_new = Some (clipboard_new\<lparr>mGuestReadState := size_part (Store32 0)\<rparr>)"
    using receive_size_part [of "[]" "Store32 0" clipboard_new] by (simp add: clipboard_new_def rw_reset_part)
  moreover have "clipboard_onReceive data (clipboard_new\<lparr>mGuestReadState := size_part (Store32 0)\<rparr>) = None"
    using assms by (simp add: clipboard_onReceive_def rw_size_def size_part_def dataSize_def of_le32_Store32
        rw_copy_def mem_copy_def)
  moreover have "clipboard_onReceive (Store32 n @ data) clipboard_new = None"
    using assms by (simp add: clipboard_onReceive_def clipboard_new_def rw_reset_def rw_size_def rw_copy_def mem_copy_def)
  ultimately show ?thesis by simp
qed

theorem clipboard_overruns_witness: "clipboard_feed [[1, 0, 0, 0, 65]] clipboard_new = None"
  using clipboard_overruns [of "[65]" 1] by (simp add: Store32_def)

text \<open>
  the answer to a \<open>list\<close> command is one qemud packet per boot property, in order, from which
  name and value can be read back, since a valid name has no equals sign.
\<close>

lemma boot_properties_list_readable:
  assumes "\<forall>(n, v) \<in> set (mProperties d). BootPropertyString_set 32 n = Inr n \<and> LimitedString_set 92 v = Inr v"
    and "boot_properties_onReceive (asc ''list'') d = (d', cs)"
  shows "mDataPartitionMounted d' \<and>
    (\<exists>ps. frames (call_bytes cs) = (ps, []) \<and>
       map (\<lambda>p. (takeWhile (\<lambda>c. c \<noteq> 0x3D) p, tl (dropWhile (\<lambda>c. c \<noteq> 0x3D) p))) ps = mProperties d)"
proof -
  let ?ps = "map property_line (mProperties d)"
  have cs: "cs = concat (map qemud_sendAsync ?ps)" "mDataPartitionMounted d'"
    using assms(2) by (auto simp: boot_properties_onReceive_def o_def)
  have valid: "length n \<le> 32 \<and> length v \<le> 92 \<and> 0x3D \<notin> set n" if "(n, v) \<in> set (mProperties d)" for n v
  proof -
    have "BootPropertyString_set 32 n = Inr n" "LimitedString_set 92 v = Inr v" using assms(1) that by auto
    moreover have "(0x3D :: u8) \<in> set reject" by (simp add: reject_def asc_def)
    ultimately show ?thesis
      by (auto simp: BootPropertyString_set_def LimitedString_set_def find_None_iff split: option.splits if_splits)
  qed
  then have "\<forall>p \<in> set ?ps. length p < 2 ^ 31" by (fastforce simp: property_line_def)
  then have "frames (call_bytes cs) = (?ps, [])" unfolding cs(1) by (rule frames_sent)
  moreover have "(takeWhile (\<lambda>c. c \<noteq> 0x3D) (property_line nv), tl (dropWhile (\<lambda>c. c \<noteq> 0x3D) (property_line nv))) = nv"
    if "nv \<in> set (mProperties d)" for nv
  proof -
    have "0x3D \<notin> set (fst nv)" using valid [of "fst nv" "snd nv"] that by simp
    then show ?thesis
      by (simp add: property_line_def asc_def takeWhile_append dropWhile_append prod_eq_iff)
  qed
  then have "map (\<lambda>p. (takeWhile (\<lambda>c. c \<noteq> 0x3D) p, tl (dropWhile (\<lambda>c. c \<noteq> 0x3D) p))) ?ps = mProperties d"
    by (simp add: o_def map_idI)
  ultimately show ?thesis using cs(2) by blast
qed

end
