(* ===== verification/Touch_Input.thy ===== *)
theory Touch_Input
  imports Prelude
begin

text \<open>
  Touch and pen input of the emulator controller
  (\<^verbatim>\<open>android-grpc/services/emulator-controller/input\<close>): the registry that maps the identifiers of
  touches to the slots of the guest's multi-touch protocol, the translation of touches into evdev
  events, and the dispatch of whole touch events to a display.  Times are integers; \<open>now\<close> is what
  \<^verbatim>\<open>absl::Now()\<close> returns during the operation.
\<close>

section \<open>Slots\<close>

datatype evdev_type = EV_SYN | EV_KEY | EV_ABS

datatype evdev_code =
    SYN_REPORT | BTN_TOOL_RUBBER | BTN_STYLUS
  | ABS_MT_SLOT | ABS_MT_TOUCH_MAJOR | ABS_MT_TOUCH_MINOR | ABS_MT_ORIENTATION | ABS_MT_POSITION_X
  | ABS_MT_POSITION_Y | ABS_MT_TOOL_TYPE | ABS_MT_TRACKING_ID | ABS_MT_PRESSURE

datatype evdev_event = EvDevEvent evdev_type evdev_code u32

abbreviation (input) MTS_POINTERS_NUM :: nat where "MTS_POINTERS_NUM \<equiv> 10"
abbreviation (input) MTS_POINTER_UP :: u32 where "MTS_POINTER_UP \<equiv> - 1"

text \<open>\<^verbatim>\<open>mIdLastUsedEpoch\<close> is a list in the order its hash table is walked.\<close>

record slot_registry =
  mUsedSlots :: "bool list"
  mIdMap :: "u32 \<Rightarrow> nat option"
  mIdLastUsedEpoch :: "(u32 \<times> int) list"
  mSlotExpiration :: int

definition new_slot_registry :: "int \<Rightarrow> slot_registry" where
  "new_slot_registry expiration =
     \<lparr>mUsedSlots = replicate MTS_POINTERS_NUM False, mIdMap = (\<lambda>_. None), mIdLastUsedEpoch = [],
      mSlotExpiration = expiration\<rparr>"

fun free_slot_from :: "nat \<Rightarrow> bool list \<Rightarrow> nat option" where
  "free_slot_from i [] = None"
| "free_slot_from i (b # bs) = (if \<not> b then Some i else free_slot_from (Suc i) bs)"

definition findNextFreeSlot :: "slot_registry \<Rightarrow> nat option" where
  "findNextFreeSlot r = free_slot_from 0 (mUsedSlots r)"

definition set_epoch :: "u32 \<Rightarrow> int \<Rightarrow> (u32 \<times> int) list \<Rightarrow> (u32 \<times> int) list" where
  "set_epoch i t es =
     (if i \<in> fst ` set es then map (\<lambda>(j, u). if j = i then (j, t) else (j, u)) es else es @ [(i, t)])"

text \<open>The slot is \<^const>\<open>None\<close> where the source returns -1.\<close>

definition acquireSlot :: "int \<Rightarrow> u32 \<Rightarrow> slot_registry \<Rightarrow> nat option \<times> slot_registry" where
  "acquireSlot now i r =
     (case mIdMap r i of
        Some slot \<Rightarrow> (Some slot, r)
      | None \<Rightarrow>
          (case findNextFreeSlot r of
             None \<Rightarrow> (None, r)
           | Some slot \<Rightarrow>
               (Some slot,
                r\<lparr>mIdMap := (mIdMap r)(i \<mapsto> slot), mUsedSlots := (mUsedSlots r)[slot := True],
                  mIdLastUsedEpoch := set_epoch i (now + mSlotExpiration r) (mIdLastUsedEpoch r)\<rparr>)))"

definition isIdentifierRegistered :: "u32 \<Rightarrow> slot_registry \<Rightarrow> bool" where
  "isIdentifierRegistered i r \<longleftrightarrow> mIdMap r i \<noteq> None"

text \<open>\<^verbatim>\<open>std::bitset::test\<close> throws outside of the set.\<close>

definition isSlotRegistered :: "nat \<Rightarrow> slot_registry \<Rightarrow> bool option" where
  "isSlotRegistered slot r = (if slot < length (mUsedSlots r) then Some (mUsedSlots r ! slot) else None)"

definition updateSlotExpiration :: "int \<Rightarrow> u32 \<Rightarrow> slot_registry \<Rightarrow> slot_registry option" where
  "updateSlotExpiration now i r =
     (if i \<in> fst ` set (mIdLastUsedEpoch r)
      then Some (r\<lparr>mIdLastUsedEpoch := set_epoch i (now + mSlotExpiration r) (mIdLastUsedEpoch r)\<rparr>)
      else None)"

definition releaseSlot :: "u32 \<Rightarrow> slot_registry \<Rightarrow> slot_registry" where
  "releaseSlot i r =
     (case mIdMap r i of
        None \<Rightarrow> r
      | Some slot \<Rightarrow>
          r\<lparr>mIdMap := (mIdMap r)(i := None), mUsedSlots := (mUsedSlots r)[slot := False],
            mIdLastUsedEpoch := filter (\<lambda>(j, _). j \<noteq> i) (mIdLastUsedEpoch r)\<rparr>)"

text \<open>The loop over \<^verbatim>\<open>mIdLastUsedEpoch\<close>; an identifier without a slot fails the assertion.\<close>

fun expire_loop ::
  "int \<Rightarrow> (u32 \<times> int) list \<Rightarrow> slot_registry \<Rightarrow> (evdev_event list \<times> slot_registry) option" where
  "expire_loop now [] r = Some ([], r)"
| "expire_loop now ((i, t) # es) r =
     (if t < now then
        (case mIdMap r i of
           None \<Rightarrow> None
         | Some slot \<Rightarrow>
             map_option
               (\<lambda>(evs, r'). (EvDevEvent EV_ABS ABS_MT_SLOT (of_nat slot) #
                             EvDevEvent EV_ABS ABS_MT_TRACKING_ID MTS_POINTER_UP # evs, r'))
               (expire_loop now es
                  (r\<lparr>mIdMap := (mIdMap r)(i := None),
                     mIdLastUsedEpoch := filter (\<lambda>(j, _). j \<noteq> i) (mIdLastUsedEpoch r),
                     mUsedSlots := (mUsedSlots r)[slot := False]\<rparr>)))
      else expire_loop now es r)"

definition expireOldSlots :: "int \<Rightarrow> slot_registry \<Rightarrow> (evdev_event list \<times> slot_registry) option" where
  "expireOldSlots now r = expire_loop now (mIdLastUsedEpoch r) r"

definition setSlotExpiration :: "int \<Rightarrow> slot_registry \<Rightarrow> slot_registry" where
  "setSlotExpiration e r = r\<lparr>mSlotExpiration := e\<rparr>"

section \<open>Touches\<close>

definition scaleAxis :: "u32 \<Rightarrow> u32 \<Rightarrow> u32 \<Rightarrow> u32" where
  "scaleAxis val min_in max_in =
     (let min_out = 0; range_out = 0x7FFF - min_out; range_in = max_in - min_in
      in if range_in < 1 then min_out + range_out div 2
         else (val - min_in) * range_out div range_in + min_out)"

record touch =
  touch_x :: u32
  touch_y :: u32
  touch_identifier :: u32
  pressure :: u32
  touch_major :: u32
  touch_minor :: u32
  orientation :: u32

text \<open>
  \<^verbatim>\<open>acquireSlot\<close> returns an \<^verbatim>\<open>int\<close> that is kept in a \<^verbatim>\<open>uint32_t\<close>: without a free slot it is the largest
  value, and the test \<^verbatim>\<open>slot < 0\<close> that follows never holds.
\<close>

definition slot_value :: "nat option \<Rightarrow> u32" where
  "slot_value s = (case s of None \<Rightarrow> - 1 | Some n \<Rightarrow> of_nat n)"

definition Touch_toEvDevEvents ::
  "int \<Rightarrow> u32 \<Rightarrow> u32 \<Rightarrow> touch \<Rightarrow> slot_registry \<Rightarrow> evdev_event list \<times> slot_registry" where
  "Touch_toEvDevEvents now w h t r =
     (let isRegistered = isIdentifierRegistered (touch_identifier t) r
      in if pressure t = 0 \<and> \<not> isRegistered then ([], r)
         else
           (let (s, r1) = acquireSlot now (touch_identifier t) r; slot = slot_value s
            in if slot < 0 then ([], r1)
               else
                 ((if \<not> isRegistered then [EvDevEvent EV_ABS ABS_MT_TRACKING_ID slot] else []) @
                  [EvDevEvent EV_ABS ABS_MT_SLOT slot] @
                  (if touch_major t > 0 then [EvDevEvent EV_ABS ABS_MT_TOUCH_MAJOR (touch_major t)] else []) @
                  (if touch_minor t > 0 then [EvDevEvent EV_ABS ABS_MT_TOUCH_MINOR (touch_minor t)] else []) @
                  (if orientation t > 0 then [EvDevEvent EV_ABS ABS_MT_ORIENTATION (orientation t)] else []) @
                  [EvDevEvent EV_ABS ABS_MT_PRESSURE (pressure t),
                   EvDevEvent EV_ABS ABS_MT_POSITION_X (scaleAxis (touch_x t) 0 w),
                   EvDevEvent EV_ABS ABS_MT_POSITION_Y (scaleAxis (touch_y t) 0 h)] @
                  (if pressure t = 0
                   then [EvDevEvent EV_ABS ABS_MT_TRACKING_ID MTS_POINTER_UP, EvDevEvent EV_ABS ABS_MT_ORIENTATION 0]
                   else []),
                  if pressure t = 0 then releaseSlot (touch_identifier t) r1 else r1)))"

record pen = touch +
  button_pressed :: bool
  rubber_pointer :: bool

abbreviation (input) MT_TOOL_PEN :: u32 where "MT_TOOL_PEN \<equiv> 1"
abbreviation (input) MT_TOOL_MAX :: u32 where "MT_TOOL_MAX \<equiv> 0xF"

definition Pen_toEvDevEvents ::
  "int \<Rightarrow> u32 \<Rightarrow> u32 \<Rightarrow> pen \<Rightarrow> slot_registry \<Rightarrow> evdev_event list \<times> slot_registry" where
  "Pen_toEvDevEvents now w h p r =
     (let pressed = (if button_pressed p then 1 else 0);
          (evs, r') = Touch_toEvDevEvents now w h (touch.truncate p) r
      in ((if rubber_pointer p
           then [EvDevEvent EV_ABS ABS_MT_TOOL_TYPE MT_TOOL_MAX, EvDevEvent EV_KEY BTN_TOOL_RUBBER pressed]
           else [EvDevEvent EV_ABS ABS_MT_TOOL_TYPE MT_TOOL_PEN]) @
          [EvDevEvent EV_KEY BTN_STYLUS pressed] @ evs, r'))"

section \<open>Dispatch\<close>

fun touches_events ::
  "('t \<Rightarrow> slot_registry \<Rightarrow> evdev_event list \<times> slot_registry) \<Rightarrow> 't list \<Rightarrow> slot_registry \<Rightarrow> evdev_event list \<times> slot_registry" where
  "touches_events f [] r = ([], r)"
| "touches_events f (t # ts) r =
     (let (evs, r1) = f t r; (evs', r2) = touches_events f ts r1 in (evs @ evs', r2))"

text \<open>What a display of width \<open>w\<close> and height \<open>h\<close> is sent.\<close>

definition sendEvents ::
  "int \<Rightarrow> u32 \<Rightarrow> u32 \<Rightarrow> touch list \<Rightarrow> slot_registry \<Rightarrow> (evdev_event list \<times> slot_registry) option" where
  "sendEvents now w h ts r =
     (case touches_events (Touch_toEvDevEvents now w h) ts r of
        (evs, r1) \<Rightarrow>
          map_option (\<lambda>(old, r2). (evs @ old @ [EvDevEvent EV_SYN SYN_REPORT 0], r2)) (expireOldSlots now r1))"

definition sendPenEvents ::
  "int \<Rightarrow> u32 \<Rightarrow> u32 \<Rightarrow> pen list \<Rightarrow> slot_registry \<Rightarrow> (evdev_event list \<times> slot_registry) option" where
  "sendPenEvents now w h ps r =
     (case touches_events (Pen_toEvDevEvents now w h) ps r of
        (evs, r1) \<Rightarrow>
          map_option (\<lambda>(old, r2). (evs @ old @ [EvDevEvent EV_SYN SYN_REPORT 0], r2)) (expireOldSlots now r1))"

text \<open>
  The messages of the controller's protocol.  Their integers are signed; the conversion to the
  unsigned fields of a touch keeps the bits.
\<close>

record proto_touch =
  proto_x :: u32
  proto_y :: u32
  proto_identifier :: u32
  proto_pressure :: u32
  proto_touch_major :: u32
  proto_touch_minor :: u32
  proto_orientation :: u32

record proto_pen =
  location :: proto_touch
  proto_button_pressed :: bool
  proto_rubber_pointer :: bool

definition MultiTouchEvent_fromProto :: "proto_touch list \<Rightarrow> touch list" where
  "MultiTouchEvent_fromProto ts =
     map (\<lambda>t. \<lparr>touch_x = proto_x t, touch_y = proto_y t, touch_identifier = proto_identifier t,
               pressure = proto_pressure t, touch_major = proto_touch_major t,
               touch_minor = proto_touch_minor t, orientation = proto_orientation t\<rparr>) ts"

definition PenTouchEvent_fromProto :: "proto_pen list \<Rightarrow> pen list" where
  "PenTouchEvent_fromProto ps =
     map (\<lambda>p. let t = location p
               in \<lparr>touch_x = proto_x t, touch_y = proto_y t, touch_identifier = 0x0a,
                   pressure = proto_pressure t, touch_major = proto_touch_major t,
                   touch_minor = proto_touch_minor t, orientation = proto_orientation t,
                   button_pressed = proto_button_pressed p, rubber_pointer = proto_rubber_pointer p\<rparr>) ps"

section \<open>The sender\<close>

datatype send_error = InvalidDisplay nat | Unimplemented

datatype display_call = SendEvDevEvent evdev_event | SendRawEvent u16 u16 u32 | SendMouseEvent u32 u32 u32

text \<open>\<open>displays\<close> gives the width and height of the displays that are there.\<close>

definition tryLockDisplay :: "(nat \<Rightarrow> (u32 \<times> u32) option) \<Rightarrow> nat \<Rightarrow> send_error + u32 \<times> u32" where
  "tryLockDisplay displays display =
     (case displays display of None \<Rightarrow> Inl (InvalidDisplay display) | Some d \<Rightarrow> Inr d)"

definition send_android_event ::
  "(nat \<Rightarrow> (u32 \<times> u32) option) \<Rightarrow> nat \<Rightarrow> u16 \<Rightarrow> u16 \<Rightarrow> u32 \<Rightarrow> send_error + display_call list" where
  "send_android_event displays display t c v =
     (case tryLockDisplay displays display of Inl e \<Rightarrow> Inl e | Inr _ \<Rightarrow> Inr [SendRawEvent t c v])"

definition send_mouse_event ::
  "(nat \<Rightarrow> (u32 \<times> u32) option) \<Rightarrow> nat \<Rightarrow> u32 \<Rightarrow> u32 \<Rightarrow> u32 \<Rightarrow> send_error + display_call list" where
  "send_mouse_event displays display x y buttons =
     (case tryLockDisplay displays display of Inl e \<Rightarrow> Inl e | Inr _ \<Rightarrow> Inr [SendMouseEvent x y buttons])"

definition send_wheel_event :: "send_error + display_call list" where
  "send_wheel_event = Inl Unimplemented"

definition send_touch_event ::
  "(nat \<Rightarrow> (u32 \<times> u32) option) \<Rightarrow> int \<Rightarrow> nat \<Rightarrow> proto_touch list \<Rightarrow> slot_registry \<Rightarrow>
   ((send_error + display_call list) \<times> slot_registry) option" where
  "send_touch_event displays now display ts r =
     (case tryLockDisplay displays display of
        Inl e \<Rightarrow> Some (Inl e, r)
      | Inr (w, h) \<Rightarrow> map_option (\<lambda>(evs, r'). (Inr (map SendEvDevEvent evs), r'))
                      (sendEvents now w h (MultiTouchEvent_fromProto ts) r))"

definition send_pen_event ::
  "(nat \<Rightarrow> (u32 \<times> u32) option) \<Rightarrow> int \<Rightarrow> nat \<Rightarrow> proto_pen list \<Rightarrow> slot_registry \<Rightarrow>
   ((send_error + display_call list) \<times> slot_registry) option" where
  "send_pen_event displays now display ps r =
     (case tryLockDisplay displays display of
        Inl e \<Rightarrow> Some (Inl e, r)
      | Inr (w, h) \<Rightarrow> map_option (\<lambda>(evs, r'). (Inr (map SendEvDevEvent evs), r'))
                      (sendPenEvents now w h (PenTouchEvent_fromProto ps) r))"

section \<open>The invariant of the registry\<close>

definition slot_of_id :: "slot_registry \<Rightarrow> nat \<Rightarrow> bool" where
  "slot_of_id r s \<longleftrightarrow> (\<exists>i. mIdMap r i = Some s)"

definition slots_ok :: "slot_registry \<Rightarrow> bool" where
  "slots_ok r \<longleftrightarrow>
     length (mUsedSlots r) = MTS_POINTERS_NUM \<and>
     distinct (map fst (mIdLastUsedEpoch r)) \<and>
     dom (mIdMap r) = fst ` set (mIdLastUsedEpoch r) \<and>
     inj_on (mIdMap r) (dom (mIdMap r)) \<and>
     (\<forall>s. slot_of_id r s \<longrightarrow> s < MTS_POINTERS_NUM) \<and>
     (\<forall>s < MTS_POINTERS_NUM. mUsedSlots r ! s \<longleftrightarrow> slot_of_id r s)"

lemma free_slot_from_Some:
  "free_slot_from i bs = Some s \<Longrightarrow> i \<le> s \<and> s < i + length bs \<and> \<not> bs ! (s - i)"
proof (induction bs arbitrary: i)
  case (Cons b bs)
  show ?case
    using Cons.prems Cons.IH [of "Suc i"] by (cases b) (auto simp: nth_Cons')
qed simp

lemma free_slot_from_None: "free_slot_from i bs = None \<longleftrightarrow> (\<forall>b \<in> set bs. b)"
  by (induction bs arbitrary: i) auto

lemma new_slot_registry_ok [inv_intros]: "slots_ok (new_slot_registry e)"
  by (auto simp: slots_ok_def new_slot_registry_def slot_of_id_def)

lemma fst_set_epoch [simp]: "fst ` set (set_epoch i t es) = insert i (fst ` set es)"
  by (force simp: set_epoch_def image_iff)

lemma distinct_set_epoch [simp]:
  "distinct (map fst es) \<Longrightarrow> distinct (map fst (set_epoch i t es))"
  by (auto simp: set_epoch_def comp_def case_prod_beta if_distrib [of fst] image_iff cong: if_cong)

lemma acquireSlot_ok [inv_intros]:
  assumes "slots_ok r" and "acquireSlot now i r = (s, r')"
  shows "slots_ok r'"
proof (cases "mIdMap r i = None \<and> findNextFreeSlot r \<noteq> None")
  case True
  then obtain k where k: "mIdMap r i = None" "findNextFreeSlot r = Some k" by auto
  have free: "k < MTS_POINTERS_NUM" "\<not> mUsedSlots r ! k"
    using free_slot_from_Some [of 0 "mUsedSlots r" k] k(2) assms(1)
    by (auto simp: findNextFreeSlot_def slots_ok_def)
  then have fresh: "\<not> slot_of_id r k" using assms(1) by (simp add: slots_ok_def)
  let ?r = "r\<lparr>mIdMap := (mIdMap r)(i \<mapsto> k)\<rparr>"
  have owns: "slot_of_id ?r s \<longleftrightarrow> s = k \<or> slot_of_id r s" for s
    using k(1) by (simp add: slot_of_id_def) (metis option.distinct(1))
  have "inj_on (mIdMap ?r) (dom (mIdMap ?r))"
    using assms(1) fresh k(1) by (auto simp: slots_ok_def slot_of_id_def inj_on_def)
  moreover have same: "mIdMap r' = mIdMap ?r"
    using assms(2) k by (auto simp: acquireSlot_def)
  moreover have "slot_of_id r' = slot_of_id ?r"
    unfolding slot_of_id_def fun_eq_iff same by simp
  moreover have "mUsedSlots r' = (mUsedSlots r)[k := True]"
    and "mIdLastUsedEpoch r' = set_epoch i (now + mSlotExpiration r) (mIdLastUsedEpoch r)"
    using assms(2) k by (auto simp: acquireSlot_def)
  ultimately show ?thesis
    using assms(1) free owns by (simp add: slots_ok_def nth_list_update)
qed (use assms in \<open>auto simp: acquireSlot_def split: option.splits\<close>)

definition drop_id :: "u32 \<Rightarrow> slot_registry \<Rightarrow> slot_registry" where
  "drop_id i r =
     r\<lparr>mIdMap := (mIdMap r)(i := None),
       mIdLastUsedEpoch := filter (\<lambda>(j, _). j \<noteq> i) (mIdLastUsedEpoch r),
       mUsedSlots := (mUsedSlots r)[the (mIdMap r i) := False]\<rparr>"

lemma releaseSlot_drop: "releaseSlot i r = (if mIdMap r i = None then r else drop_id i r)"
  by (cases r) (auto simp: releaseSlot_def drop_id_def split: option.splits)

lemma drop_id_ok:
  assumes "slots_ok r" and "mIdMap r i \<noteq> None"
  shows "slots_ok (drop_id i r)"
proof -
  obtain k where k: "mIdMap r i = Some k" using assms(2) by auto
  have only: "mIdMap r j = Some k \<Longrightarrow> j = i" for j
    using assms(1) k unfolding slots_ok_def inj_on_def by (metis domI)
  have "slot_of_id (drop_id i r) s \<longleftrightarrow> (\<exists>j. j \<noteq> i \<and> mIdMap r j = Some s)" for s
    by (auto simp: slot_of_id_def drop_id_def)
  then have owns: "slot_of_id (drop_id i r) s \<longleftrightarrow> s \<noteq> k \<and> slot_of_id r s" for s
    unfolding slot_of_id_def using k only by (metis option.inject)
  have "inj_on (mIdMap (drop_id i r)) (dom (mIdMap (drop_id i r)))"
    using assms(1) by (auto simp: slots_ok_def drop_id_def inj_on_def)
  moreover have "dom (mIdMap (drop_id i r)) = dom (mIdMap r) - {i}" by (auto simp: drop_id_def)
  moreover have "fst ` set (mIdLastUsedEpoch (drop_id i r)) = fst ` set (mIdLastUsedEpoch r) - {i}"
    by (auto simp: drop_id_def)
  moreover have "mUsedSlots (drop_id i r) = (mUsedSlots r)[k := False]"
    by (simp add: drop_id_def k)
  moreover have "distinct (map fst (mIdLastUsedEpoch (drop_id i r)))"
    using assms(1) by (simp add: slots_ok_def drop_id_def distinct_map_filter)
  moreover have "k < MTS_POINTERS_NUM" using assms(1) k by (auto simp: slots_ok_def slot_of_id_def)
  ultimately show ?thesis using assms(1) owns by (simp add: slots_ok_def nth_list_update)
qed

lemma releaseSlot_ok [inv_intros]: "slots_ok r \<Longrightarrow> slots_ok (releaseSlot i r)"
  by (simp add: releaseSlot_drop drop_id_ok)

lemma updateSlotExpiration_ok [inv_intros]:
  assumes "slots_ok r" and "isIdentifierRegistered i r"
  shows "\<exists>r'. updateSlotExpiration now i r = Some r' \<and> slots_ok r' \<and> mIdMap r' = mIdMap r"
proof -
  have "i \<in> fst ` set (mIdLastUsedEpoch r)"
    using assms by (auto simp: slots_ok_def isIdentifierRegistered_def)
  then show ?thesis
    using assms by (auto simp: updateSlotExpiration_def slots_ok_def slot_of_id_def)
qed

text \<open>The loop drops exactly the expired identifiers and announces each of them.\<close>

definition expired :: "int \<Rightarrow> (u32 \<times> int) list \<Rightarrow> u32 \<Rightarrow> bool" where
  "expired now es i \<longleftrightarrow> (\<exists>t. (i, t) \<in> set es \<and> t < now)"

definition up_events :: "slot_registry \<Rightarrow> u32 \<Rightarrow> evdev_event list" where
  "up_events r i =
     [EvDevEvent EV_ABS ABS_MT_SLOT (of_nat (the (mIdMap r i))),
      EvDevEvent EV_ABS ABS_MT_TRACKING_ID MTS_POINTER_UP]"

lemma expire_loop_spec:
  assumes "slots_ok r" and "distinct (map fst es)" and "fst ` set es \<subseteq> dom (mIdMap r)"
  shows "\<exists>r'. expire_loop now es r =
      Some (concat (map (\<lambda>(i, t). if t < now then up_events r i else []) es), r') \<and>
    slots_ok r' \<and>
    mIdMap r' = (\<lambda>i. if expired now es i then None else mIdMap r i) \<and>
    mIdLastUsedEpoch r' = filter (\<lambda>(i, _). \<not> expired now es i) (mIdLastUsedEpoch r)"
  using assms
proof (induction es arbitrary: r)
  case Nil
  then show ?case by (auto simp: expired_def fun_eq_iff)
next
  case (Cons e es)
  obtain i t where e: "e = (i, t)" by (cases e)
  have i: "i \<notin> fst ` set es" using Cons.prems(2) e by auto
  then have old: "expired now (e # es) j \<longleftrightarrow> j = i \<and> t < now \<or> expired now es j" for j
    by (auto simp: expired_def e)
  show ?case
  proof (cases "t < now")
    case True
    obtain s where s: "mIdMap r i = Some s" using Cons.prems(3) e by auto
    let ?r = "drop_id i r"
    have map: "mIdMap ?r = (mIdMap r)(i := None)" by (simp add: drop_id_def)
    have "slots_ok ?r" using Cons.prems(1) s by (simp add: drop_id_ok)
    moreover have "fst ` set es \<subseteq> dom (mIdMap ?r)" using Cons.prems(3) e i by (auto simp: map)
    ultimately obtain r' where r': "expire_loop now es ?r =
        Some (concat (map (\<lambda>(i, t). if t < now then up_events ?r i else []) es), r')"
      "slots_ok r'" "mIdMap r' = (\<lambda>j. if expired now es j then None else mIdMap ?r j)"
      "mIdLastUsedEpoch r' = filter (\<lambda>(j, _). \<not> expired now es j) (mIdLastUsedEpoch ?r)"
      using Cons.IH [of ?r] Cons.prems(2) by auto
    have same: "map (\<lambda>(i, t). if t < now then up_events ?r i else []) es =
          map (\<lambda>(i, t). if t < now then up_events r i else []) es"
      using i by (force simp: up_events_def map)
    have "expire_loop now (e # es) r =
        map_option (\<lambda>(evs, r'). (up_events r i @ evs, r')) (expire_loop now es ?r)"
      using True s e by (simp add: up_events_def drop_id_def)
    moreover have "mIdLastUsedEpoch r' =
        filter (\<lambda>(j, _). \<not> expired now (e # es) j) (mIdLastUsedEpoch r)"
      using True r'(4) by (auto simp: drop_id_def old intro!: filter_cong)
    ultimately have "expire_loop now (e # es) r =
        Some (up_events r i @ concat (map (\<lambda>(i, t). if t < now then up_events r i else []) es), r')"
      and "mIdLastUsedEpoch r' = filter (\<lambda>(j, _). \<not> expired now (e # es) j) (mIdLastUsedEpoch r)"
      using r'(1) unfolding same by simp_all
    moreover have "mIdMap r' = (\<lambda>j. if expired now (e # es) j then None else mIdMap r j)"
      using True by (simp add: r'(3) map old fun_eq_iff)
    ultimately show ?thesis using True r'(2) e by (intro exI [of _ r']) simp
  next
    case False
    then show ?thesis
      using Cons.IH [of r] Cons.prems e by (auto simp: old [unfolded e])
  qed
qed

lemma expireOldSlots_spec:
  assumes "slots_ok r"
  shows "\<exists>r'. expireOldSlots now r =
      Some (concat (map (\<lambda>(i, t). if t < now then up_events r i else []) (mIdLastUsedEpoch r)), r') \<and>
    slots_ok r' \<and>
    mIdMap r' = (\<lambda>i. if expired now (mIdLastUsedEpoch r) i then None else mIdMap r i) \<and>
    (\<forall>(i, t) \<in> set (mIdLastUsedEpoch r'). now \<le> t)"
proof -
  have "distinct (map fst (mIdLastUsedEpoch r))" "fst ` set (mIdLastUsedEpoch r) \<subseteq> dom (mIdMap r)"
    using assms by (auto simp: slots_ok_def)
  from expire_loop_spec [OF assms this, of now] show ?thesis
    by (fastforce simp: expireOldSlots_def expired_def not_less)
qed

section \<open>Touches and the registry\<close>

lemma Touch_ok [inv_intros]: "slots_ok r \<Longrightarrow> slots_ok (snd (Touch_toEvDevEvents now w h t r))"
  using acquireSlot_ok releaseSlot_ok
  by (fastforce simp: Touch_toEvDevEvents_def Let_def split: prod.splits)

lemma Pen_ok [inv_intros]: "slots_ok r \<Longrightarrow> slots_ok (snd (Pen_toEvDevEvents now w h p r))"
  using Touch_ok [of r now w h "touch.truncate p"]
  by (auto simp: Pen_toEvDevEvents_def Let_def split: prod.splits)

lemma touches_events_ok:
  assumes "\<And>t r. slots_ok r \<Longrightarrow> slots_ok (snd (f t r))" and "slots_ok r"
  shows "slots_ok (snd (touches_events f ts r))"
  using assms(2)
proof (induction ts arbitrary: r)
  case (Cons t ts)
  then show ?case using assms(1) [of r t] by (fastforce split: prod.splits)
qed simp

lemma sendEvents_ok:
  assumes "slots_ok r"
  shows "\<exists>evs r'. sendEvents now w h ts r = Some (evs @ [EvDevEvent EV_SYN SYN_REPORT 0], r') \<and>
    slots_ok r' \<and> (\<forall>(i, t) \<in> set (mIdLastUsedEpoch r'). now \<le> t)"
proof -
  obtain evs r1 where r1: "touches_events (Touch_toEvDevEvents now w h) ts r = (evs, r1)"
    by (cases "touches_events (Touch_toEvDevEvents now w h) ts r")
  then have "slots_ok r1" using touches_events_ok [where f = "Touch_toEvDevEvents now w h" and ts = ts, OF Touch_ok assms] by simp
  from expireOldSlots_spec [OF this, of now] show ?thesis using r1 by (fastforce simp: sendEvents_def)
qed

lemma sendPenEvents_ok:
  assumes "slots_ok r"
  shows "\<exists>evs r'. sendPenEvents now w h ts r = Some (evs @ [EvDevEvent EV_SYN SYN_REPORT 0], r') \<and>
    slots_ok r' \<and> (\<forall>(i, t) \<in> set (mIdLastUsedEpoch r'). now \<le> t)"
proof -
  obtain evs r1 where r1: "touches_events (Pen_toEvDevEvents now w h) ts r = (evs, r1)"
    by (cases "touches_events (Pen_toEvDevEvents now w h) ts r")
  then have "slots_ok r1" using touches_events_ok [where f = "Pen_toEvDevEvents now w h" and ts = ts, OF Pen_ok assms] by simp
  from expireOldSlots_spec [OF this, of now] show ?thesis using r1 by (fastforce simp: sendPenEvents_def)
qed

text \<open>C12: From any registry that satisfies the invariant (the empty registry does), the touch and the pen
  handler return: the assertion that an expiring identifier has a slot never fails, the invariant
  (the used slots are exactly the distinct slots below 10 of the registered identifiers, each with
  an expiration time) holds again, a report ends with \<^verbatim>\<open>SYN_REPORT\<close>, and no identifier whose time is
  over stays registered.\<close>

theorem touch_dispatch_keeps_slots:
  assumes "slots_ok r"
  shows "(\<exists>res r'. send_touch_event displays now d ts r = Some (res, r') \<and> slots_ok r' \<and>
      (case res of Inl e \<Rightarrow> displays d = None \<and> r' = r
       | Inr calls \<Rightarrow> calls \<noteq> [] \<and> last calls = SendEvDevEvent (EvDevEvent EV_SYN SYN_REPORT 0) \<and>
                      (\<forall>(i, t) \<in> set (mIdLastUsedEpoch r'). now \<le> t))) \<and>
    (\<exists>res r'. send_pen_event displays now d ps r = Some (res, r') \<and> slots_ok r' \<and>
      (case res of Inl e \<Rightarrow> displays d = None \<and> r' = r
       | Inr calls \<Rightarrow> calls \<noteq> [] \<and> last calls = SendEvDevEvent (EvDevEvent EV_SYN SYN_REPORT 0) \<and>
                      (\<forall>(i, t) \<in> set (mIdLastUsedEpoch r'). now \<le> t))) \<and>
    (slots_ok (new_slot_registry e))"
proof (intro conjI)
  show "\<exists>res r'. send_touch_event displays now d ts r = Some (res, r') \<and> slots_ok r' \<and>
      (case res of Inl e \<Rightarrow> displays d = None \<and> r' = r
       | Inr calls \<Rightarrow> calls \<noteq> [] \<and> last calls = SendEvDevEvent (EvDevEvent EV_SYN SYN_REPORT 0) \<and>
                      (\<forall>(i, t) \<in> set (mIdLastUsedEpoch r'). now \<le> t))"
  proof (cases "displays d")
    case (Some wh)
    then show ?thesis
      using sendEvents_ok [OF assms, of now "fst wh" "snd wh" "MultiTouchEvent_fromProto ts"]
      by (cases wh) (auto simp: send_touch_event_def tryLockDisplay_def)
  qed (simp add: send_touch_event_def tryLockDisplay_def assms)
  show "\<exists>res r'. send_pen_event displays now d ps r = Some (res, r') \<and> slots_ok r' \<and>
      (case res of Inl e \<Rightarrow> displays d = None \<and> r' = r
       | Inr calls \<Rightarrow> calls \<noteq> [] \<and> last calls = SendEvDevEvent (EvDevEvent EV_SYN SYN_REPORT 0) \<and>
                      (\<forall>(i, t) \<in> set (mIdLastUsedEpoch r'). now \<le> t))"
  proof (cases "displays d")
    case (Some wh)
    then show ?thesis
      using sendPenEvents_ok [OF assms, of now "fst wh" "snd wh" "PenTouchEvent_fromProto ps"]
      by (cases wh) (auto simp: send_pen_event_def tryLockDisplay_def)
  qed (simp add: send_pen_event_def tryLockDisplay_def assms)
qed (rule new_slot_registry_ok)

definition finger :: "u32 \<Rightarrow> u32 \<Rightarrow> touch" where
  "finger i pr = \<lparr>touch_x = 50, touch_y = 100, touch_identifier = i, pressure = pr, touch_major = 0,
                touch_minor = 0, orientation = 0\<rparr>"

lemma touch_dispatch_keeps_slots_witness:
  "\<exists>res r'. send_touch_event (\<lambda>_. Some (100, 200)) 5 0 [\<lparr>proto_x = 50, proto_y = 100, proto_identifier = 3,
      proto_pressure = 1, proto_touch_major = 0, proto_touch_minor = 0, proto_orientation = 0\<rparr>]
      (new_slot_registry 120) = Some (Inr res, r') \<and> slots_ok r'"
  using touch_dispatch_keeps_slots [OF new_slot_registry_ok [of 120], of "\<lambda>_. Some (100, 200)" 5 0
      "[\<lparr>proto_x = 50, proto_y = 100, proto_identifier = 3,
      proto_pressure = 1, proto_touch_major = 0, proto_touch_minor = 0, proto_orientation = 0\<rparr>]", THEN conjunct1]
  by (fastforce split: sum.splits)

section \<open>The life of a touch\<close>

lemma acquireSlot_new:
  assumes "slots_ok r" and "mIdMap r i = None" and "False \<in> set (mUsedSlots r)"
  obtains s r' where "acquireSlot now i r = (Some s, r')" "s < MTS_POINTERS_NUM" "\<not> slot_of_id r s"
    "mIdMap r' = (mIdMap r)(i \<mapsto> s)" "mUsedSlots r' = (mUsedSlots r)[s := True]"
    "mIdLastUsedEpoch r' = mIdLastUsedEpoch r @ [(i, now + mSlotExpiration r)]"
proof -
  obtain s where s: "findNextFreeSlot r = Some s"
    using assms(3) free_slot_from_None [of 0 "mUsedSlots r"] by (auto simp: findNextFreeSlot_def)
  then have "s < MTS_POINTERS_NUM" "\<not> mUsedSlots r ! s"
    using free_slot_from_Some [of 0 "mUsedSlots r" s] assms(1) by (auto simp: findNextFreeSlot_def slots_ok_def)
  moreover have "i \<notin> fst ` set (mIdLastUsedEpoch r)" using assms by (auto simp: slots_ok_def)
  ultimately show ?thesis
    using s assms that by (simp add: acquireSlot_def slots_ok_def set_epoch_def)
qed

text \<open>Putting a finger down takes a slot that no other finger has and lifting it gives the slot
  back: the registry is then as before, the other fingers keep their slots throughout, and every
  event of the finger is for its slot.\<close>

theorem press_and_lift:
  assumes "slots_ok r" and "mIdMap r i = None" and "False \<in> set (mUsedSlots r)"
    and "touch_identifier t = i" "pressure t \<noteq> 0" and "touch_identifier u = i" "pressure u = 0"
    and "Touch_toEvDevEvents now w h t r = (down, r1)" and "Touch_toEvDevEvents later w h u r1 = (up, r2)"
  shows "\<exists>s < MTS_POINTERS_NUM.
    \<not> slot_of_id r s \<and> mIdMap r1 = (mIdMap r)(i \<mapsto> s) \<and>
    take 2 down = [EvDevEvent EV_ABS ABS_MT_TRACKING_ID (of_nat s), EvDevEvent EV_ABS ABS_MT_SLOT (of_nat s)] \<and>
    hd up = EvDevEvent EV_ABS ABS_MT_SLOT (of_nat s) \<and>
    EvDevEvent EV_ABS ABS_MT_TRACKING_ID MTS_POINTER_UP \<in> set up \<and>
    r2 = r"
proof -
  obtain s r' where s: "acquireSlot now i r = (Some s, r')" "s < MTS_POINTERS_NUM" "\<not> slot_of_id r s"
    "mIdMap r' = (mIdMap r)(i \<mapsto> s)" "mUsedSlots r' = (mUsedSlots r)[s := True]"
    "mIdLastUsedEpoch r' = mIdLastUsedEpoch r @ [(i, now + mSlotExpiration r)]"
    using acquireSlot_new [OF assms(1-3)] by metis
  have r1: "r1 = r'" and down: "take 2 down =
      [EvDevEvent EV_ABS ABS_MT_TRACKING_ID (of_nat s), EvDevEvent EV_ABS ABS_MT_SLOT (of_nat s)]"
    using assms(2,4,5,8) s(1)
    by (auto simp: Touch_toEvDevEvents_def Let_def isIdentifierRegistered_def slot_value_def)
  have "mIdMap r' i = Some s" using s(4) by simp
  then have r2: "r2 = releaseSlot i r'" and up: "hd up = EvDevEvent EV_ABS ABS_MT_SLOT (of_nat s)"
    "EvDevEvent EV_ABS ABS_MT_TRACKING_ID MTS_POINTER_UP \<in> set up"
    using assms(6,7,9) r1
    by (auto simp: Touch_toEvDevEvents_def Let_def isIdentifierRegistered_def slot_value_def acquireSlot_def)
  have "\<not> mUsedSlots r ! s" using assms(1) s(2,3) by (simp add: slots_ok_def)
  then have "(mUsedSlots r)[s := False] = mUsedSlots r"
    using list_update_id [of "mUsedSlots r" s] by simp
  moreover have "(mIdMap r)(i := None) = mIdMap r" using assms(2) by auto
  moreover have "filter (\<lambda>(j, _). j \<noteq> i) (mIdLastUsedEpoch r) = mIdLastUsedEpoch r"
    using assms(1,2) by (force simp: slots_ok_def filter_id_conv dom_def)
  moreover have "mSlotExpiration r' = mSlotExpiration r"
    using s(1) by (auto simp: acquireSlot_def split: option.splits)
  ultimately have "r2 = r"
    using r2 s(4-6) by (simp add: releaseSlot_def)
  then show ?thesis using s(2-4) r1 down up by auto
qed

lemma press_and_lift_witness:
  "\<exists>s < 10. take 2 (fst (Touch_toEvDevEvents 5 100 200 (finger 3 1) (new_slot_registry 120))) =
      [EvDevEvent EV_ABS ABS_MT_TRACKING_ID (of_nat s), EvDevEvent EV_ABS ABS_MT_SLOT (of_nat s)] \<and>
    snd (Touch_toEvDevEvents 6 100 200 (finger 3 0)
          (snd (Touch_toEvDevEvents 5 100 200 (finger 3 1) (new_slot_registry 120)))) = new_slot_registry 120"
proof -
  have "mIdMap (new_slot_registry 120) 3 = None" "False \<in> set (mUsedSlots (new_slot_registry 120))"
    by (simp_all add: new_slot_registry_def)
  from press_and_lift [OF new_slot_registry_ok this, where t = "finger 3 1" and u = "finger 3 0",
      OF _ _ _ _ prod.collapse [symmetric] prod.collapse [symmetric]]
  show ?thesis by (simp add: finger_def) blast
qed

text \<open>When all ten slots are taken, a touch of a new finger is not dropped: the error value -1 of
  \<^verbatim>\<open>acquireSlot\<close> is stored in an unsigned variable, the test for it is never true, and the guest
  receives a full set of events for slot 4294967295, whose tracking id is the one of a lifted
  finger.  The registry does not change.\<close>

theorem eleventh_touch_sent_to_invalid_slot:
  assumes "slots_ok r" and "False \<notin> set (mUsedSlots r)"
    and "\<not> isIdentifierRegistered (touch_identifier t) r" and "pressure t \<noteq> 0"
  shows "\<exists>rest. Touch_toEvDevEvents now w h t r =
    (EvDevEvent EV_ABS ABS_MT_TRACKING_ID MTS_POINTER_UP # EvDevEvent EV_ABS ABS_MT_SLOT 0xFFFFFFFF # rest, r) \<and>
    EvDevEvent EV_ABS ABS_MT_PRESSURE (pressure t) \<in> set rest"
proof -
  have "findNextFreeSlot r = None"
    using assms(2) free_slot_from_None [of 0 "mUsedSlots r"]
    by (auto simp: findNextFreeSlot_def)
  then have "acquireSlot now (touch_identifier t) r = (None, r)"
    using assms(3) by (auto simp: acquireSlot_def isIdentifierRegistered_def)
  then show ?thesis
    using assms(3,4) by (auto simp: Touch_toEvDevEvents_def Let_def slot_value_def)
qed

definition full_registry :: slot_registry where
  "full_registry = fold (\<lambda>i r. snd (acquireSlot 5 i r)) [0, 1, 2, 3, 4, 5, 6, 7, 8, 9] (new_slot_registry 120)"

lemma fold_acquireSlot_ok: "slots_ok r \<Longrightarrow> slots_ok (fold (\<lambda>i r. snd (acquireSlot now i r)) is r)"
  by (induction "is" arbitrary: r) (simp_all add: acquireSlot_ok [OF _ prod.collapse [symmetric]])

lemma eleventh_touch_sent_to_invalid_slot_witness:
  "EvDevEvent EV_ABS ABS_MT_SLOT 0xFFFFFFFF \<in>
     set (fst (Touch_toEvDevEvents 5 100 200 (finger 10 1) full_registry))"
proof -
  have "slots_ok full_registry"
    by (simp only: full_registry_def fold_acquireSlot_ok new_slot_registry_ok)
  moreover have "False \<notin> set (mUsedSlots full_registry)" by code_simp
  moreover have "\<not> isIdentifierRegistered (touch_identifier (finger 10 1)) full_registry" by code_simp
  moreover have "pressure (finger 10 1) \<noteq> 0" by (simp add: finger_def)
  ultimately show ?thesis
    using eleventh_touch_sent_to_invalid_slot [of full_registry "finger 10 1" 5 100 200] by auto
qed

text \<open>A finger that stays down expires once the configured time after it was put down is over,
  however many of its movements were reported since: moving it does not renew its time, and the
  report of such a movement ends with the finger being lifted and its slot free.\<close>

theorem held_touch_expires:
  assumes "slots_ok r" and "mIdMap r (touch_identifier t) = Some s"
    and "(touch_identifier t, e) \<in> set (mIdLastUsedEpoch r)"
  shows "(mIdLastUsedEpoch (snd (Touch_toEvDevEvents now w h t r)) =
      (if pressure t = 0 then filter (\<lambda>(j, _). j \<noteq> touch_identifier t) (mIdLastUsedEpoch r)
       else mIdLastUsedEpoch r)) \<and>
    (\<exists>evs r'. sendEvents now w h [t] r = Some (evs, r') \<and>
      (if pressure t \<noteq> 0 \<and> now \<le> e then mIdMap r' (touch_identifier t) = Some s
       else mIdMap r' (touch_identifier t) = None \<and>
            EvDevEvent EV_ABS ABS_MT_TRACKING_ID MTS_POINTER_UP \<in> set evs))"
proof (intro conjI)
  have acq: "acquireSlot now (touch_identifier t) r = (Some s, r)"
    using assms(2) by (simp add: acquireSlot_def)
  let ?r1 = "snd (Touch_toEvDevEvents now w h t r)" and ?evs = "fst (Touch_toEvDevEvents now w h t r)"
  have r1: "?r1 = (if pressure t = 0 then releaseSlot (touch_identifier t) r else r)"
    using acq assms(2) by (simp add: Touch_toEvDevEvents_def Let_def isIdentifierRegistered_def)
  then show "mIdLastUsedEpoch ?r1 =
      (if pressure t = 0 then filter (\<lambda>(j, _). j \<noteq> touch_identifier t) (mIdLastUsedEpoch r)
       else mIdLastUsedEpoch r)"
    using assms(2) by (simp add: releaseSlot_def)
  have up: "pressure t = 0 \<Longrightarrow> EvDevEvent EV_ABS ABS_MT_TRACKING_ID MTS_POINTER_UP \<in> set ?evs"
    using acq assms(2) by (simp add: Touch_toEvDevEvents_def Let_def isIdentifierRegistered_def)
  obtain r2 where r2: "expireOldSlots now ?r1 =
      Some (concat (map (\<lambda>(i, t). if t < now then up_events ?r1 i else []) (mIdLastUsedEpoch ?r1)), r2)"
    "mIdMap r2 = (\<lambda>i. if expired now (mIdLastUsedEpoch ?r1) i then None else mIdMap ?r1 i)"
    using expireOldSlots_spec [OF Touch_ok [OF assms(1)], of now now w h t] by auto
  have send: "sendEvents now w h [t] r =
      Some (?evs @ concat (map (\<lambda>(i, t). if t < now then up_events ?r1 i else []) (mIdLastUsedEpoch ?r1)) @
            [EvDevEvent EV_SYN SYN_REPORT 0], r2)"
    using r2(1) by (simp add: sendEvents_def split: prod.splits) auto
  have only: "(touch_identifier t, e') \<in> set (mIdLastUsedEpoch r) \<longleftrightarrow> e' = e" for e'
    using assms(1,3) eq_key_imp_eq_value unfolding slots_ok_def by metis
  show "\<exists>evs r'. sendEvents now w h [t] r = Some (evs, r') \<and>
      (if pressure t \<noteq> 0 \<and> now \<le> e then mIdMap r' (touch_identifier t) = Some s
       else mIdMap r' (touch_identifier t) = None \<and>
            EvDevEvent EV_ABS ABS_MT_TRACKING_ID MTS_POINTER_UP \<in> set evs)"
  proof (cases "pressure t = 0")
    case True
    then have "mIdMap ?r1 (touch_identifier t) = None" by (simp add: r1 releaseSlot_def assms(2))
    then show ?thesis using True send r2(2) up by simp
  next
    case False
    then have "expired now (mIdLastUsedEpoch ?r1) (touch_identifier t) \<longleftrightarrow> e < now"
      by (simp add: r1 expired_def only)
    moreover have "EvDevEvent EV_ABS ABS_MT_TRACKING_ID MTS_POINTER_UP \<in>
        set (concat (map (\<lambda>(i, t). if t < now then up_events ?r1 i else []) (mIdLastUsedEpoch ?r1)))"
      if "e < now"
      using that assms(3) False by (force simp: r1 up_events_def)
    ultimately show ?thesis using False send r2(2) assms(2) by (auto simp: r1)
  qed
qed

lemma held_touch_expires_witness:
  "\<exists>evs r'. sendEvents 126 100 200 [finger 3 1]
      (snd (acquireSlot 5 3 (new_slot_registry 120))) = Some (evs, r') \<and> mIdMap r' 3 = None"
proof -
  let ?r = "snd (acquireSlot 5 3 (new_slot_registry 120))"
  have "slots_ok ?r" using acquireSlot_ok [OF new_slot_registry_ok] by (metis prod.collapse)
  moreover have "mIdMap ?r (touch_identifier (finger 3 1)) = Some 0"
    "(touch_identifier (finger 3 1), 125) \<in> set (mIdLastUsedEpoch ?r)"
    by (simp_all add: acquireSlot_def new_slot_registry_def findNextFreeSlot_def finger_def set_epoch_def
        numeral_eq_Suc)
  ultimately show ?thesis
    using held_touch_expires [of ?r "finger 3 1" 0 125 126 100 200, THEN conjunct2] by (auto simp: finger_def)
qed

text \<open>The guest's axis is 0 to 0x7FFF: a coordinate on the display is mapped into it, as long as
  the product fits 32 bits.\<close>

lemma scaleAxis_bounds:
  assumes "v \<le> m" and "0 < m" and "unat v * 0x7FFF < 2 ^ 32"
  shows "unat (scaleAxis v 0 m) = unat v * 0x7FFF div unat m" and "scaleAxis v 0 m \<le> 0x7FFF"
proof -
  have ge: "\<not> m < 1" using assms(2) by (simp add: word_less_nat_alt)
  have "unat (v * 0x7FFF) = unat v * 0x7FFF" using assms(3) by (simp add: unat_word_ariths)
  then show eq: "unat (scaleAxis v 0 m) = unat v * 0x7FFF div unat m"
    using ge by (simp add: scaleAxis_def unat_div_distrib)
  have "unat v * 0x7FFF div unat m \<le> unat m * 0x7FFF div unat m"
    using assms(1) by (intro div_le_mono mult_le_mono1) (simp add: word_le_nat_alt)
  also have "\<dots> = 0x7FFF" using assms(2) by (simp add: word_less_nat_alt)
  finally show "scaleAxis v 0 m \<le> 0x7FFF" by (simp add: word_le_nat_alt eq)
qed

end
