(* ===== verification/Keyboard.thy ===== *)
theory Keyboard
  imports Text
begin

text \<open>
  Keyboard input of the emulator controller
  (\<^verbatim>\<open>android-grpc/services/emulator-controller/keyboard\<close>): the numbers that stand for DOM keys and
  their UTF-8 form (\<^verbatim>\<open>dom_key.h\<close>), the tables that turn characters and key codes into QEMU key
  codes (\<^verbatim>\<open>KeyConversion.cpp\<close>), and the sender (\<^verbatim>\<open>KeyEventSender.cpp\<close>).  The tables
  \<^verbatim>\<open>dom_key_data.inc\<close> and \<^verbatim>\<open>keycode_converter_data.inc\<close> and QEMU's own key maps are arguments of the
  functions that search them.
\<close>

section \<open>DOM keys\<close>

abbreviation (input) VALUE_MASK :: u32 where "VALUE_MASK \<equiv> 0x1FFFFF"
abbreviation (input) TYPE_MASK :: u32 where "TYPE_MASK \<equiv> 0x600000"
abbreviation (input) TYPE_UNICODE :: u32 where "TYPE_UNICODE \<equiv> 0x400000"
abbreviation (input) TYPE_NON_UNICODE :: u32 where "TYPE_NON_UNICODE \<equiv> 0x200000"
abbreviation (input) TYPE_DEAD :: u32 where "TYPE_DEAD \<equiv> 0x600000"
abbreviation (input) DomKey_NONE :: u32 where "DomKey_NONE \<equiv> 0"

definition IsValid :: "u32 \<Rightarrow> bool" where
  "IsValid k \<longleftrightarrow> k AND TYPE_MASK \<noteq> 0"

definition IsCharacter :: "u32 \<Rightarrow> bool" where
  "IsCharacter k \<longleftrightarrow> k AND TYPE_MASK = TYPE_UNICODE"

definition IsDeadKey :: "u32 \<Rightarrow> bool" where
  "IsDeadKey k \<longleftrightarrow> k AND TYPE_MASK = TYPE_DEAD"

definition ToCharacter :: "u32 \<Rightarrow> u32" where
  "ToCharacter k = k AND VALUE_MASK"

definition ToUtf8 :: "u32 \<Rightarrow> bytes" where
  "ToUtf8 k =
     (let codepoint = ToCharacter k
      in if codepoint \<le> 0x7F then [ucast codepoint]
         else if codepoint \<le> 0x7FF then
           [ucast (0xC0 OR drop_bit 6 codepoint), ucast (0x80 OR (codepoint AND 0x3F))]
         else if codepoint \<le> 0xFFFF then
           [ucast (0xE0 OR drop_bit 12 codepoint), ucast (0x80 OR (drop_bit 6 codepoint AND 0x3F)),
            ucast (0x80 OR (codepoint AND 0x3F))]
         else
           [ucast (0xF0 OR drop_bit 18 codepoint), ucast (0x80 OR (drop_bit 12 codepoint AND 0x3F)),
            ucast (0x80 OR (drop_bit 6 codepoint AND 0x3F)), ucast (0x80 OR (codepoint AND 0x3F))])"

definition FromCharacter :: "u32 \<Rightarrow> u32" where
  "FromCharacter character = TYPE_UNICODE OR character"

definition DeadKeyFromCombiningCharacter :: "u32 \<Rightarrow> u32" where
  "DeadKeyFromCombiningCharacter character = TYPE_DEAD OR character"

text \<open>The number of continuation bytes a first byte announces, with the bits it contributes.\<close>

definition utf8_lead :: "u8 \<Rightarrow> (nat \<times> u32) option" where
  "utf8_lead firstByte =
     (if firstByte < 0x80 then Some (0, ucast firstByte)
      else if firstByte AND 0xE0 = 0xC0 then Some (1, ucast (firstByte AND 0x1F))
      else if firstByte AND 0xF0 = 0xE0 then Some (2, ucast (firstByte AND 0x0F))
      else if firstByte AND 0xF8 = 0xF0 then Some (3, ucast (firstByte AND 0x07))
      else if firstByte AND 0xFC = 0xF8 then Some (4, ucast (firstByte AND 0x03))
      else if firstByte AND 0xFE = 0xFC then Some (5, ucast (firstByte AND 0x01))
      else None)"

fun utf8_continue :: "u32 \<Rightarrow> bytes \<Rightarrow> u32 option" where
  "utf8_continue codepoint [] = Some codepoint"
| "utf8_continue codepoint (c # cs) =
     (if c AND 0xC0 \<noteq> 0x80 then None
      else utf8_continue (push_bit 6 codepoint OR ucast (c AND 0x3F)) cs)"

definition FromCharacter_utf8 :: "bytes \<Rightarrow> u32" where
  "FromCharacter_utf8 ch =
     (case ch of
        [] \<Rightarrow> DomKey_NONE
      | firstByte # rest \<Rightarrow>
          (case utf8_lead firstByte of
             None \<Rightarrow> DomKey_NONE
           | Some (numContinuationBytes, codepoint) \<Rightarrow>
               if length ch \<noteq> numContinuationBytes + 1 then DomKey_NONE
               else (case utf8_continue codepoint rest of None \<Rightarrow> DomKey_NONE | Some cp \<Rightarrow> FromCharacter cp)))"

section \<open>Key codes\<close>

datatype QKeyCode =
  Q_KEY_CODE_UNMAPPED | Q_KEY_CODE_SHIFT | Q_KEY_CODE_ALT | Q_KEY_CODE_OTHER nat
  | Q_KEY_CODE_A | Q_KEY_CODE_B | Q_KEY_CODE_C | Q_KEY_CODE_D | Q_KEY_CODE_E
  | Q_KEY_CODE_F | Q_KEY_CODE_G | Q_KEY_CODE_H | Q_KEY_CODE_I | Q_KEY_CODE_J
  | Q_KEY_CODE_K | Q_KEY_CODE_L | Q_KEY_CODE_M | Q_KEY_CODE_N | Q_KEY_CODE_O
  | Q_KEY_CODE_P | Q_KEY_CODE_Q | Q_KEY_CODE_R | Q_KEY_CODE_S | Q_KEY_CODE_T
  | Q_KEY_CODE_U | Q_KEY_CODE_V | Q_KEY_CODE_W | Q_KEY_CODE_X | Q_KEY_CODE_Y
  | Q_KEY_CODE_Z | Q_KEY_CODE_COMMA | Q_KEY_CODE_DOT | Q_KEY_CODE_SLASH | Q_KEY_CODE_SPC
  | Q_KEY_CODE_LF | Q_KEY_CODE_0 | Q_KEY_CODE_1 | Q_KEY_CODE_2 | Q_KEY_CODE_3
  | Q_KEY_CODE_4 | Q_KEY_CODE_5 | Q_KEY_CODE_6 | Q_KEY_CODE_7 | Q_KEY_CODE_8
  | Q_KEY_CODE_9 | Q_KEY_CODE_TAB | Q_KEY_CODE_GRAVE_ACCENT | Q_KEY_CODE_MINUS | Q_KEY_CODE_EQUAL
  | Q_KEY_CODE_BRACKET_LEFT | Q_KEY_CODE_BRACKET_RIGHT | Q_KEY_CODE_BACKSLASH | Q_KEY_CODE_SEMICOLON | Q_KEY_CODE_APOSTROPHE

datatype QemuKeyEvent = QemuKeyEvent QKeyCode bool

datatype SkinKeyEntry =
  SkinKeyEntry (entry_code: QKeyCode) (entry_base: u16) (entry_caps: u16) (entry_fn: u16)
    (entry_caps_fn: u16) (entry_number: u16)

definition cmap :: "SkinKeyEntry list" where
  "cmap = [
      SkinKeyEntry Q_KEY_CODE_A 0x61 0x41 0xe1 0xc1 0x61,
      SkinKeyEntry Q_KEY_CODE_B 0x62 0x42 0x62 0x42 0x62,
      SkinKeyEntry Q_KEY_CODE_C 0x63 0x43 0xa9 0xa2 0x63,
      SkinKeyEntry Q_KEY_CODE_D 0x64 0x44 0xf0 0xd0 0x27,
      SkinKeyEntry Q_KEY_CODE_E 0x65 0x45 0xe9 0xc9 0x22,
      SkinKeyEntry Q_KEY_CODE_F 0x66 0x46 0x5b 0x5b 0x5b,
      SkinKeyEntry Q_KEY_CODE_G 0x67 0x47 0x5d 0x5d 0x5d,
      SkinKeyEntry Q_KEY_CODE_H 0x68 0x48 0x3c 0x3c 0x3c,
      SkinKeyEntry Q_KEY_CODE_I 0x69 0x49 0xed 0xcd 0x2d,
      SkinKeyEntry Q_KEY_CODE_J 0x6a 0x4a 0x3e 0x3e 0x3e,
      SkinKeyEntry Q_KEY_CODE_K 0x6b 0x4b 0x3b 0x4b 0x3b,
      SkinKeyEntry Q_KEY_CODE_L 0x6c 0x4c 0xf8 0xd8 0x3a,
      SkinKeyEntry Q_KEY_CODE_M 0x6d 0x4d 0xb5 0x4d 0x25,
      SkinKeyEntry Q_KEY_CODE_N 0x6e 0x4e 0xf1 0xd1 0x6e,
      SkinKeyEntry Q_KEY_CODE_O 0x6f 0x4f 0xf3 0xd3 0x2b,
      SkinKeyEntry Q_KEY_CODE_P 0x70 0x50 0xf6 0xd6 0x3d,
      SkinKeyEntry Q_KEY_CODE_Q 0x71 0x51 0xe4 0xc4 0x7c,
      SkinKeyEntry Q_KEY_CODE_R 0x72 0x52 0xae 0x52 0x60,
      SkinKeyEntry Q_KEY_CODE_S 0x73 0x53 0xdf 0xa7 0x5c,
      SkinKeyEntry Q_KEY_CODE_T 0x74 0x54 0xfe 0xde 0x7d,
      SkinKeyEntry Q_KEY_CODE_U 0x75 0x55 0xfa 0xda 0x5f,
      SkinKeyEntry Q_KEY_CODE_V 0x76 0x56 0x76 0x56 0x76,
      SkinKeyEntry Q_KEY_CODE_W 0x77 0x57 0xe5 0xc5 0x7e,
      SkinKeyEntry Q_KEY_CODE_X 0x78 0x58 0x78 0x58 0x78,
      SkinKeyEntry Q_KEY_CODE_Y 0x79 0x59 0xfc 0xdc 0x7d,
      SkinKeyEntry Q_KEY_CODE_Z 0x7a 0x5a 0xe6 0xc6 0x7a,
      SkinKeyEntry Q_KEY_CODE_COMMA 0x2c 0x3c 0xe7 0xc7 0x2c,
      SkinKeyEntry Q_KEY_CODE_DOT 0x2e 0x3e 0x2e 0x2026 0x2e,
      SkinKeyEntry Q_KEY_CODE_SLASH 0x2f 0x3f 0xbf 0x3f 0x2f,
      SkinKeyEntry Q_KEY_CODE_SPC 0x20 0x20 0x9 0x9 0x20,
      SkinKeyEntry Q_KEY_CODE_LF 0xa 0xa 0xa 0xa 0xa,
      SkinKeyEntry Q_KEY_CODE_0 0x30 0x29 0x2bc 0x29 0x30,
      SkinKeyEntry Q_KEY_CODE_1 0x31 0x21 0xa1 0xb9 0x31,
      SkinKeyEntry Q_KEY_CODE_2 0x32 0x40 0xb2 0x40 0x32,
      SkinKeyEntry Q_KEY_CODE_3 0x33 0x23 0xb3 0x23 0x33,
      SkinKeyEntry Q_KEY_CODE_4 0x34 0x24 0xa4 0xa3 0x34,
      SkinKeyEntry Q_KEY_CODE_5 0x35 0x25 0x20ac 0x25 0x35,
      SkinKeyEntry Q_KEY_CODE_6 0x36 0x5e 0xbc 0x0302 0x36,
      SkinKeyEntry Q_KEY_CODE_7 0x37 0x26 0xbd 0x26 0x37,
      SkinKeyEntry Q_KEY_CODE_8 0x38 0x2a 0xbe 0x2a 0x38,
      SkinKeyEntry Q_KEY_CODE_9 0x39 0x28 0x2bb 0x28 0x39,
      SkinKeyEntry Q_KEY_CODE_TAB 0x9 0x9 0x9 0x9 0x9,
      SkinKeyEntry Q_KEY_CODE_GRAVE_ACCENT 0x60 0x7e 0x300 0x0303 0x60,
      SkinKeyEntry Q_KEY_CODE_MINUS 0x2d 0x5f 0xa5 0x5f 0x2d,
      SkinKeyEntry Q_KEY_CODE_EQUAL 0x3d 0x2b 0xd7 0xf7 0x3d,
      SkinKeyEntry Q_KEY_CODE_BRACKET_LEFT 0x5b 0x7b 0xab 0x7b 0x5b,
      SkinKeyEntry Q_KEY_CODE_BRACKET_RIGHT 0x5d 0x7d 0xbb 0x7d 0x5d,
      SkinKeyEntry Q_KEY_CODE_BACKSLASH 0x5c 0x7c 0xac 0xa6 0x5c,
      SkinKeyEntry Q_KEY_CODE_SEMICOLON 0x3b 0x3a 0xb6 0xb0 0x3b,
      SkinKeyEntry Q_KEY_CODE_APOSTROPHE 0x27 0x22 0x301 0x308 0x27]"

text \<open>An entry has 14 bytes and is aligned to 4, so \<^verbatim>\<open>sizeof(cmap)\<close> is sixteen times the number of entries.\<close>

definition sizeof_cmap :: nat where
  "sizeof_cmap = 16 * length cmap"

text \<open>
  A search over the entries below \<open>n\<close>: \<^term>\<open>None\<close> when it reads behind the last entry, otherwise the
  first entry that matches, if any.
\<close>

fun scan :: "('e \<Rightarrow> bool) \<Rightarrow> nat \<Rightarrow> 'e list \<Rightarrow> 'e option option" where
  "scan p 0 es = Some None"
| "scan p (Suc n) [] = None"
| "scan p (Suc n) (e # es) = (if p e then Some (Some e) else scan p n es)"

text \<open>\<^verbatim>\<open>ascii_to_qcode\<close> with the bound of its four loops as an argument.\<close>

definition ascii_to_qcode_upto :: "nat \<Rightarrow> u16 \<Rightarrow> bool \<Rightarrow> QemuKeyEvent list option" where
  "ascii_to_qcode_upto bound unicode down =
     (case scan (\<lambda>e. entry_base e = unicode) bound cmap of
        None \<Rightarrow> None
      | Some (Some e) \<Rightarrow> Some [QemuKeyEvent (entry_code e) down]
      | Some None \<Rightarrow>
     (case scan (\<lambda>e. entry_caps e = unicode) bound cmap of
        None \<Rightarrow> None
      | Some (Some e) \<Rightarrow>
          Some (if down then [QemuKeyEvent Q_KEY_CODE_SHIFT down, QemuKeyEvent (entry_code e) down]
                else [QemuKeyEvent (entry_code e) down, QemuKeyEvent Q_KEY_CODE_SHIFT down])
      | Some None \<Rightarrow>
     (case scan (\<lambda>e. entry_fn e = unicode) bound cmap of
        None \<Rightarrow> None
      | Some (Some e) \<Rightarrow>
          Some (if down then [QemuKeyEvent Q_KEY_CODE_ALT down, QemuKeyEvent (entry_code e) down]
                else [QemuKeyEvent (entry_code e) down, QemuKeyEvent Q_KEY_CODE_ALT down])
      | Some None \<Rightarrow>
     (case scan (\<lambda>e. entry_caps_fn e = unicode) bound cmap of
        None \<Rightarrow> None
      | Some (Some e) \<Rightarrow>
          Some (if down then [QemuKeyEvent Q_KEY_CODE_SHIFT down, QemuKeyEvent Q_KEY_CODE_ALT down,
                              QemuKeyEvent (entry_code e) down]
                else [QemuKeyEvent (entry_code e) down, QemuKeyEvent Q_KEY_CODE_ALT down,
                      QemuKeyEvent Q_KEY_CODE_SHIFT down])
      | Some None \<Rightarrow> Some []))))"

definition ascii_to_qcode :: "u16 \<Rightarrow> bool \<Rightarrow> QemuKeyEvent list option" where
  "ascii_to_qcode unicode down = ascii_to_qcode_upto sizeof_cmap unicode down"

definition evdev_to_qcode :: "QKeyCode list \<Rightarrow> u32 \<Rightarrow> QKeyCode" where
  "evdev_to_qcode linux_to_qcode evdev =
     (if unat evdev \<ge> length linux_to_qcode then Q_KEY_CODE_UNMAPPED else linux_to_qcode ! unat evdev)"

datatype KeyCodeType = usb_type | evdev_type | xkb_type | win_type | mac_type

record KeycodeMapEntry =
  dom_id :: u32
  usb_code :: u32
  evdev_code :: u32
  xkb_code :: u32
  win_code :: u32
  mac_code :: u32

definition dom_to_evdev :: "KeycodeMapEntry list \<Rightarrow> u32 \<Rightarrow> u32" where
  "dom_to_evdev usb_keycode_map key =
     (case List.find (\<lambda>entry. dom_id entry = key) usb_keycode_map of None \<Rightarrow> 0 | Some entry \<Rightarrow> evdev_code entry)"

definition dom_to_qcode :: "QKeyCode list \<Rightarrow> KeycodeMapEntry list \<Rightarrow> u32 \<Rightarrow> QKeyCode" where
  "dom_to_qcode linux_to_qcode usb_keycode_map key = evdev_to_qcode linux_to_qcode (dom_to_evdev usb_keycode_map key)"

definition entry_value :: "KeyCodeType \<Rightarrow> KeycodeMapEntry \<Rightarrow> u32" where
  "entry_value source entry =
     (case source of usb_type \<Rightarrow> usb_code entry | evdev_type \<Rightarrow> evdev_code entry | xkb_type \<Rightarrow> xkb_code entry
      | win_type \<Rightarrow> win_code entry | mac_type \<Rightarrow> mac_code entry)"

definition keycode_to_evdev :: "KeycodeMapEntry list \<Rightarrow> u32 \<Rightarrow> KeyCodeType \<Rightarrow> u32" where
  "keycode_to_evdev usb_keycode_map from source =
     (case List.find (\<lambda>entry. entry_value source entry = from) usb_keycode_map of
        None \<Rightarrow> 0 | Some entry \<Rightarrow> evdev_code entry)"

definition keycode_to_qcode :: "QKeyCode list \<Rightarrow> KeycodeMapEntry list \<Rightarrow> u32 \<Rightarrow> KeyCodeType \<Rightarrow> QKeyCode" where
  "keycode_to_qcode linux_to_qcode usb_keycode_map from source =
     evdev_to_qcode linux_to_qcode (keycode_to_evdev usb_keycode_map from source)"

section \<open>The sender\<close>

text \<open>Pairs of a DOM code, which is the USB code of its key, and a DOM key.\<close>

definition kNonPrintableCodeMap :: "(u32 \<times> u32) list" where
  "kNonPrintableCodeMap = [
      \<comment> \<open>ABORT, CANCEL\<close> (0x07009B, TYPE_NON_UNICODE OR 0x504),
      \<comment> \<open>AGAIN, AGAIN\<close> (0x070079, TYPE_NON_UNICODE OR 0x502),
      \<comment> \<open>ALT_LEFT, ALT\<close> (0x0700E2, TYPE_NON_UNICODE OR 0x102),
      \<comment> \<open>ALT_RIGHT, ALT\<close> (0x0700E6, TYPE_NON_UNICODE OR 0x102),
      \<comment> \<open>ARROW_DOWN, ARROW_DOWN\<close> (0x070051, TYPE_NON_UNICODE OR 0x301),
      \<comment> \<open>ARROW_LEFT, ARROW_LEFT\<close> (0x070050, TYPE_NON_UNICODE OR 0x302),
      \<comment> \<open>ARROW_RIGHT, ARROW_RIGHT\<close> (0x07004F, TYPE_NON_UNICODE OR 0x303),
      \<comment> \<open>ARROW_UP, ARROW_UP\<close> (0x070052, TYPE_NON_UNICODE OR 0x304),
      \<comment> \<open>BACKSPACE, BACKSPACE\<close> (0x07002A, TYPE_UNICODE OR 0x8),
      \<comment> \<open>BASS_BOOST, AUDIO_BASS_BOOST_TOGGLE\<close> (0x0C00E5, TYPE_NON_UNICODE OR 0xE02),
      \<comment> \<open>BRIGHTNESS_DOWN, BRIGHTNESS_DOWN\<close> (0x0C0070, TYPE_NON_UNICODE OR 0x601),
      \<comment> \<open>BRIGHTNESS_UP, BRIGHTNESS_UP\<close> (0x0C006F, TYPE_NON_UNICODE OR 0x602),
      \<comment> \<open>BROWSER_BACK, BROWSER_BACK\<close> (0x0C0224, TYPE_NON_UNICODE OR 0xC01),
      \<comment> \<open>BROWSER_FAVORITES, BROWSER_FAVORITES\<close> (0x0C022A, TYPE_NON_UNICODE OR 0xC02),
      \<comment> \<open>BROWSER_FORWARD, BROWSER_FORWARD\<close> (0x0C0225, TYPE_NON_UNICODE OR 0xC03),
      \<comment> \<open>BROWSER_HOME, BROWSER_HOME\<close> (0x0C0223, TYPE_NON_UNICODE OR 0xC04),
      \<comment> \<open>BROWSER_REFRESH, BROWSER_REFRESH\<close> (0x0C0227, TYPE_NON_UNICODE OR 0xC05),
      \<comment> \<open>BROWSER_SEARCH, BROWSER_SEARCH\<close> (0x0C0221, TYPE_NON_UNICODE OR 0xC06),
      \<comment> \<open>BROWSER_STOP, BROWSER_STOP\<close> (0x0C0226, TYPE_NON_UNICODE OR 0xC07),
      \<comment> \<open>CAPS_LOCK, CAPS_LOCK\<close> (0x070039, TYPE_NON_UNICODE OR 0x104),
      \<comment> \<open>CHANNEL_DOWN, CHANNEL_DOWN\<close> (0x0C009D, TYPE_NON_UNICODE OR 0xD0A),
      \<comment> \<open>CHANNEL_UP, CHANNEL_UP\<close> (0x0C009C, TYPE_NON_UNICODE OR 0xD0B),
      \<comment> \<open>CLOSE, CLOSE\<close> (0x0C0203, TYPE_NON_UNICODE OR 0xA01),
      \<comment> \<open>CLOSED_CAPTION_TOGGLE, CLOSED_CAPTION_TOGGLE\<close> (0x0C0061, TYPE_NON_UNICODE OR 0xD12),
      \<comment> \<open>CONTEXT_MENU, CONTEXT_MENU\<close> (0x070065, TYPE_NON_UNICODE OR 0x505),
      \<comment> \<open>CONTROL_LEFT, CONTROL\<close> (0x0700E0, TYPE_NON_UNICODE OR 0x105),
      \<comment> \<open>CONTROL_RIGHT, CONTROL\<close> (0x0700E4, TYPE_NON_UNICODE OR 0x105),
      \<comment> \<open>CONVERT, CONVERT\<close> (0x07008A, TYPE_NON_UNICODE OR 0x705),
      \<comment> \<open>COPY, COPY\<close> (0x07007C, TYPE_NON_UNICODE OR 0x402),
      \<comment> \<open>CUT, CUT\<close> (0x07007B, TYPE_NON_UNICODE OR 0x404),
      \<comment> \<open>DEL, DEL\<close> (0x07004C, TYPE_UNICODE OR 0x7F),
      \<comment> \<open>EJECT, EJECT\<close> (0x0C00B8, TYPE_NON_UNICODE OR 0x604),
      \<comment> \<open>END, END\<close> (0x07004D, TYPE_NON_UNICODE OR 0x305),
      \<comment> \<open>ENTER, ENTER\<close> (0x070028, TYPE_UNICODE OR 0xD),
      \<comment> \<open>ESCAPE, ESCAPE\<close> (0x070029, TYPE_UNICODE OR 0x1B),
      \<comment> \<open>EXIT, EXIT\<close> (0x0C0094, TYPE_NON_UNICODE OR 0xD15),
      \<comment> \<open>F1, F1\<close> (0x07003A, TYPE_NON_UNICODE OR 0x801),
      \<comment> \<open>F2, F2\<close> (0x07003B, TYPE_NON_UNICODE OR 0x802),
      \<comment> \<open>F3, F3\<close> (0x07003C, TYPE_NON_UNICODE OR 0x803),
      \<comment> \<open>F4, F4\<close> (0x07003D, TYPE_NON_UNICODE OR 0x804),
      \<comment> \<open>F5, F5\<close> (0x07003E, TYPE_NON_UNICODE OR 0x805),
      \<comment> \<open>F6, F6\<close> (0x07003F, TYPE_NON_UNICODE OR 0x806),
      \<comment> \<open>F7, F7\<close> (0x070040, TYPE_NON_UNICODE OR 0x807),
      \<comment> \<open>F8, F8\<close> (0x070041, TYPE_NON_UNICODE OR 0x808),
      \<comment> \<open>F9, F9\<close> (0x070042, TYPE_NON_UNICODE OR 0x809),
      \<comment> \<open>F10, F10\<close> (0x070043, TYPE_NON_UNICODE OR 0x80A),
      \<comment> \<open>F11, F11\<close> (0x070044, TYPE_NON_UNICODE OR 0x80B),
      \<comment> \<open>F12, F12\<close> (0x070045, TYPE_NON_UNICODE OR 0x80C),
      \<comment> \<open>F13, F13\<close> (0x070068, TYPE_NON_UNICODE OR 0x80D),
      \<comment> \<open>F14, F14\<close> (0x070069, TYPE_NON_UNICODE OR 0x80E),
      \<comment> \<open>F15, F15\<close> (0x07006A, TYPE_NON_UNICODE OR 0x80F),
      \<comment> \<open>F16, F16\<close> (0x07006B, TYPE_NON_UNICODE OR 0x810),
      \<comment> \<open>F17, F17\<close> (0x07006C, TYPE_NON_UNICODE OR 0x811),
      \<comment> \<open>F18, F18\<close> (0x07006D, TYPE_NON_UNICODE OR 0x812),
      \<comment> \<open>F19, F19\<close> (0x07006E, TYPE_NON_UNICODE OR 0x813),
      \<comment> \<open>F20, F20\<close> (0x07006F, TYPE_NON_UNICODE OR 0x814),
      \<comment> \<open>F21, F21\<close> (0x070070, TYPE_NON_UNICODE OR 0x815),
      \<comment> \<open>F22, F22\<close> (0x070071, TYPE_NON_UNICODE OR 0x816),
      \<comment> \<open>F23, F23\<close> (0x070072, TYPE_NON_UNICODE OR 0x817),
      \<comment> \<open>F24, F24\<close> (0x070073, TYPE_NON_UNICODE OR 0x818),
      \<comment> \<open>FIND, FIND\<close> (0x07007E, TYPE_NON_UNICODE OR 0x507),
      \<comment> \<open>FN, FN\<close> (0x000012, TYPE_NON_UNICODE OR 0x106),
      \<comment> \<open>FN_LOCK, FN_LOCK\<close> (0x000013, TYPE_NON_UNICODE OR 0x107),
      \<comment> \<open>HELP, HELP\<close> (0x070075, TYPE_NON_UNICODE OR 0x508),
      \<comment> \<open>HOME, HOME\<close> (0x07004A, TYPE_NON_UNICODE OR 0x306),
      \<comment> \<open>HYPER, HYPER\<close> (0x000010, TYPE_NON_UNICODE OR 0x108),
      \<comment> \<open>INFO, INFO\<close> (0x0C0060, TYPE_NON_UNICODE OR 0xD25),
      \<comment> \<open>INSERT, INSERT\<close> (0x070049, TYPE_NON_UNICODE OR 0x407),
      \<comment> \<open>KANA_MODE, KANA_MODE\<close> (0x070088, TYPE_NON_UNICODE OR 0x718),
      \<comment> \<open>LANG1, HANGUL_MODE\<close> (0x070090, TYPE_NON_UNICODE OR 0x711),
      \<comment> \<open>LANG2, HANJA_MODE\<close> (0x070091, TYPE_NON_UNICODE OR 0x712),
      \<comment> \<open>LANG3, KATAKANA\<close> (0x070092, TYPE_NON_UNICODE OR 0x71A),
      \<comment> \<open>LANG4, HIRAGANA\<close> (0x070093, TYPE_NON_UNICODE OR 0x716),
      \<comment> \<open>LANG5, ZENKAKU_HANKAKU\<close> (0x070094, TYPE_NON_UNICODE OR 0x71D),
      \<comment> \<open>LAUNCH_APP1, LAUNCH_MY_COMPUTER\<close> (0x0C0194, TYPE_NON_UNICODE OR 0xB06),
      \<comment> \<open>LAUNCH_APP2, LAUNCH_CALCULATOR\<close> (0x0C0192, TYPE_NON_UNICODE OR 0xB01),
      \<comment> \<open>LAUNCH_ASSISTANT, LAUNCH_ASSISTANT\<close> (0x0C01CB, TYPE_NON_UNICODE OR 0xB0E),
      \<comment> \<open>LAUNCH_AUDIO_BROWSER, LAUNCH_MUSIC_PLAYER\<close> (0x0C01B7, TYPE_NON_UNICODE OR 0xB05),
      \<comment> \<open>LAUNCH_CALENDAR, LAUNCH_CALENDAR\<close> (0x0C018E, TYPE_NON_UNICODE OR 0xB02),
      \<comment> \<open>LAUNCH_CONTACTS, LAUNCH_CONTACTS\<close> (0x0C018D, TYPE_NON_UNICODE OR 0xB0C),
      \<comment> \<open>LAUNCH_CONTROL_PANEL, SETTINGS\<close> (0x0C019F, TYPE_NON_UNICODE OR 0xD43),
      \<comment> \<open>LAUNCH_INTERNET_BROWSER, LAUNCH_WEB_BROWSER\<close> (0x0C0196, TYPE_NON_UNICODE OR 0xB09),
      \<comment> \<open>LAUNCH_MAIL, LAUNCH_MAIL\<close> (0x0C018A, TYPE_NON_UNICODE OR 0xB03),
      \<comment> \<open>LAUNCH_PHONE, LAUNCH_PHONE\<close> (0x0C008C, TYPE_NON_UNICODE OR 0xB0D),
      \<comment> \<open>LAUNCH_SCREEN_SAVER, LAUNCH_SCREEN_SAVER\<close> (0x0C01B1, TYPE_NON_UNICODE OR 0xB07),
      \<comment> \<open>LAUNCH_SPREADSHEET, LAUNCH_SPREADSHEET\<close> (0x0C0186, TYPE_NON_UNICODE OR 0xB08),
      \<comment> \<open>LOCK_SCREEN, LAUNCH_SCREEN_SAVER\<close> (0x0C019E, TYPE_NON_UNICODE OR 0xB07),
      \<comment> \<open>LOG_OFF, LOG_OFF\<close> (0x0C019C, TYPE_NON_UNICODE OR 0x605),
      \<comment> \<open>MAIL_FORWARD, MAIL_FORWARD\<close> (0x0C028B, TYPE_NON_UNICODE OR 0xA02),
      \<comment> \<open>MAIL_REPLY, MAIL_REPLY\<close> (0x0C0289, TYPE_NON_UNICODE OR 0xA03),
      \<comment> \<open>MAIL_SEND, MAIL_SEND\<close> (0x0C028C, TYPE_NON_UNICODE OR 0xA04),
      \<comment> \<open>MEDIA_FAST_FORWARD, MEDIA_FAST_FORWARD\<close> (0x0C00B3, TYPE_NON_UNICODE OR 0xD2C),
      \<comment> \<open>MEDIA_LAST, MEDIA_LAST\<close> (0x0C0083, TYPE_NON_UNICODE OR 0xD2D),
      \<comment> \<open>MEDIA_PLAY, MEDIA_PLAY\<close> (0x0C00B0, TYPE_NON_UNICODE OR 0xD2F),
      \<comment> \<open>MEDIA_PLAY_PAUSE, MEDIA_PLAY_PAUSE\<close> (0x0C00CD, TYPE_NON_UNICODE OR 0xA05),
      \<comment> \<open>MEDIA_RECORD, MEDIA_RECORD\<close> (0x0C00B2, TYPE_NON_UNICODE OR 0xD30),
      \<comment> \<open>MEDIA_REWIND, MEDIA_REWIND\<close> (0x0C00B4, TYPE_NON_UNICODE OR 0xD31),
      \<comment> \<open>MEDIA_SELECT, LAUNCH_MEDIA_PLAYER\<close> (0x0C0183, TYPE_NON_UNICODE OR 0xB04),
      \<comment> \<open>MEDIA_STOP, MEDIA_STOP\<close> (0x0C00B7, TYPE_NON_UNICODE OR 0xA07),
      \<comment> \<open>MEDIA_TRACK_NEXT, MEDIA_TRACK_NEXT\<close> (0x0C00B5, TYPE_NON_UNICODE OR 0xA08),
      \<comment> \<open>MEDIA_TRACK_PREVIOUS, MEDIA_TRACK_PREVIOUS\<close> (0x0C00B6, TYPE_NON_UNICODE OR 0xA09),
      \<comment> \<open>NEW, NEW\<close> (0x0C0201, TYPE_NON_UNICODE OR 0xA0A),
      \<comment> \<open>NON_CONVERT, NON_CONVERT\<close> (0x07008B, TYPE_NON_UNICODE OR 0x70D),
      \<comment> \<open>NUM_LOCK, NUM_LOCK\<close> (0x070053, TYPE_NON_UNICODE OR 0x10A),
      \<comment> \<open>NUMPAD_BACKSPACE, BACKSPACE\<close> (0x0700BB, TYPE_UNICODE OR 0x8),
      \<comment> \<open>NUMPAD_CLEAR, CLEAR\<close> (0x0700D8, TYPE_NON_UNICODE OR 0x401),
      \<comment> \<open>NUMPAD_ENTER, ENTER\<close> (0x070058, TYPE_UNICODE OR 0xD),
      \<comment> \<open>OPEN, OPEN\<close> (0x070074, TYPE_NON_UNICODE OR 0xA0B),
      \<comment> \<open>META_LEFT, META\<close> (0x0700E3, TYPE_NON_UNICODE OR 0x109),
      \<comment> \<open>META_RIGHT, META\<close> (0x0700E7, TYPE_NON_UNICODE OR 0x109),
      \<comment> \<open>PAGE_DOWN, PAGE_DOWN\<close> (0x07004E, TYPE_NON_UNICODE OR 0x307),
      \<comment> \<open>PAGE_UP, PAGE_UP\<close> (0x07004B, TYPE_NON_UNICODE OR 0x308),
      \<comment> \<open>PASTE, PASTE\<close> (0x07007D, TYPE_NON_UNICODE OR 0x408),
      \<comment> \<open>PAUSE, PAUSE\<close> (0x070048, TYPE_NON_UNICODE OR 0x509),
      \<comment> \<open>POWER, POWER\<close> (0x070066, TYPE_NON_UNICODE OR 0x606),
      \<comment> \<open>PRINT, PRINT\<close> (0x0C0208, TYPE_NON_UNICODE OR 0xA0C),
      \<comment> \<open>PRINT_SCREEN, PRINT_SCREEN\<close> (0x070046, TYPE_NON_UNICODE OR 0x608),
      \<comment> \<open>PROGRAM_GUIDE, GUIDE\<close> (0x0C008D, TYPE_NON_UNICODE OR 0xD22),
      \<comment> \<open>PROPS, PROPS\<close> (0x0700A3, TYPE_NON_UNICODE OR 0x50B),
      \<comment> \<open>REDO, REDO\<close> (0x0C0279, TYPE_NON_UNICODE OR 0x409),
      \<comment> \<open>SAVE, SAVE\<close> (0x0C0207, TYPE_NON_UNICODE OR 0xA0D),
      \<comment> \<open>SCROLL_LOCK, SCROLL_LOCK\<close> (0x070047, TYPE_NON_UNICODE OR 0x10C),
      \<comment> \<open>SELECT, SELECT\<close> (0x070077, TYPE_NON_UNICODE OR 0x50C),
      \<comment> \<open>SELECT_TASK, APP_SWITCH\<close> (0x0C01A2, TYPE_NON_UNICODE OR 0x1001),
      \<comment> \<open>SHIFT_LEFT, SHIFT\<close> (0x0700E1, TYPE_NON_UNICODE OR 0x10D),
      \<comment> \<open>SHIFT_RIGHT, SHIFT\<close> (0x0700E5, TYPE_NON_UNICODE OR 0x10D),
      \<comment> \<open>SPEECH_INPUT_TOGGLE, SPEECH_INPUT_TOGGLE\<close> (0x0C00CF, TYPE_NON_UNICODE OR 0xF02),
      \<comment> \<open>SPELL_CHECK, SPELL_CHECK\<close> (0x0C01AB, TYPE_NON_UNICODE OR 0xA0E),
      \<comment> \<open>SUPER, SUPER\<close> (0x000011, TYPE_NON_UNICODE OR 0x10E),
      \<comment> \<open>TAB, TAB\<close> (0x07002B, TYPE_UNICODE OR 0x9),
      \<comment> \<open>UNDO, UNDO\<close> (0x07007A, TYPE_NON_UNICODE OR 0x40A),
      \<comment> \<open>VOLUME_DOWN, AUDIO_VOLUME_DOWN\<close> (0x070081, TYPE_NON_UNICODE OR 0xA0F),
      \<comment> \<open>VOLUME_MUTE, AUDIO_VOLUME_MUTE\<close> (0x07007F, TYPE_NON_UNICODE OR 0xA11),
      \<comment> \<open>VOLUME_UP, AUDIO_VOLUME_UP\<close> (0x070080, TYPE_NON_UNICODE OR 0xA10),
      \<comment> \<open>WAKE_UP, WAKE_UP\<close> (0x010083, TYPE_NON_UNICODE OR 0x60B),
      \<comment> \<open>ZOOM_IN, ZOOM_IN\<close> (0x0C022D, TYPE_NON_UNICODE OR 0x50D),
      \<comment> \<open>ZOOM_OUT, ZOOM_OUT\<close> (0x0C022E, TYPE_NON_UNICODE OR 0x50E),
      \<comment> \<open>ZOOM_TOGGLE, ZOOM_TOGGLE\<close> (0x0C0232, TYPE_NON_UNICODE OR 0xD4E),
      \<comment> \<open>GO_BACK, GO_BACK\<close> (0x0C0224, TYPE_NON_UNICODE OR 0x1005),
      \<comment> \<open>GO_HOME, GO_HOME\<close> (0x0C01AA, TYPE_NON_UNICODE OR 0x1006),
      \<comment> \<open>APP_SWITCH, APP_SWITCH\<close> (0x0C01A2, TYPE_NON_UNICODE OR 0x1001),
      \<comment> \<open>SLEEP, STANDBY\<close> (0x010082, TYPE_NON_UNICODE OR 0x60A)]"

abbreviation (input) DomCode_NONE :: u32 where "DomCode_NONE \<equiv> 0"

definition domKeyAsNonPrintableDomCode :: "u32 \<Rightarrow> u32" where
  "domKeyAsNonPrintableDomCode key =
     (case List.find (\<lambda>(_, dom_key). dom_key = key) kNonPrintableCodeMap of
        None \<Rightarrow> DomCode_NONE | Some (dom_code, _) \<Rightarrow> dom_code)"

definition browserKeyToDomKey :: "(bytes \<times> u32) list \<Rightarrow> bytes \<Rightarrow> u32" where
  "browserKeyToDomKey dom_key_map key =
     (if key = [] then DomKey_NONE
      else
        (case map_of dom_key_map key of
           Some dom_key \<Rightarrow> dom_key
         | None \<Rightarrow>
             if key = asc ''Dead'' then DeadKeyFromCombiningCharacter 0xFFFF
             else if length key = 1 then FromCharacter_utf8 key
             else DomKey_NONE))"

datatype KeyEventType = keydown | keyup | keypress

record KeyboardEvent =
  event_key :: bytes
  event_text :: bytes
  event_keycode :: "32 word"
  event_codetype :: KeyCodeType
  event_eventtype :: KeyEventType

record key_tables =
  linux_to_qcode :: "QKeyCode list"
  usb_keycode_map :: "KeycodeMapEntry list"
  dom_key_map :: "(bytes \<times> u32) list"

definition sendKeyCode :: "key_tables \<Rightarrow> u32 \<Rightarrow> KeyCodeType \<Rightarrow> KeyEventType \<Rightarrow> QemuKeyEvent list" where
  "sendKeyCode T code codeType eventType =
     (let qcode = keycode_to_qcode (linux_to_qcode T) (usb_keycode_map T) code codeType
      in (if eventType = keydown \<or> eventType = keypress then [QemuKeyEvent qcode True] else []) @
         (if eventType = keyup \<or> eventType = keypress then [QemuKeyEvent qcode False] else []))"

text \<open>Both in a row, unless one of them fails.\<close>

definition both :: "'a list option \<Rightarrow> 'a list option \<Rightarrow> 'a list option" where
  "both x y = (case x of None \<Rightarrow> None | Some xs \<Rightarrow> map_option (\<lambda>ys. xs @ ys) y)"

text \<open>
  The loop of \<^verbatim>\<open>sendUtf8String\<close>: \<open>chr\<close> are the bytes from \<open>start\<close> to \<open>end\<close>.  \<open>conv\<close> is
  \<^verbatim>\<open>ascii_to_qcode\<close>; its argument is the first byte, as a signed character.
\<close>

fun sendUtf8_loop :: "(u16 \<Rightarrow> bool \<Rightarrow> 'e list option) \<Rightarrow> bytes \<Rightarrow> bytes \<Rightarrow> 'e list option" where
  "sendUtf8_loop conv chr [] = Some []"
| "sendUtf8_loop conv chr (ch # rest) =
     (let chr' = chr @ [ch]
      in if ch AND 0xC0 \<noteq> 0x80 then
           (if length chr' > 4 then None
            else both (both (conv (scast (hd chr')) True) (conv (scast (hd chr')) False))
                   (sendUtf8_loop conv [] rest))
         else sendUtf8_loop conv chr' rest)"

definition sendUtf8String :: "(u16 \<Rightarrow> bool \<Rightarrow> 'e list option) \<Rightarrow> bytes \<Rightarrow> 'e list option" where
  "sendUtf8String conv utf8 = sendUtf8_loop conv [] (c_str utf8)"

definition send_key :: "key_tables \<Rightarrow> KeyboardEvent \<Rightarrow> QemuKeyEvent list option" where
  "send_key T request =
     (let domkey = browserKeyToDomKey (dom_key_map T) (event_key request);
          code = domKeyAsNonPrintableDomCode domkey; eventType = event_eventtype request
      in if domkey = DomKey_NONE then Some []
         else if code = DomCode_NONE then
           (let character = ucast (ToCharacter domkey)
            in both (if eventType = keydown \<or> eventType = keypress then ascii_to_qcode character True else Some [])
                    (if eventType = keyup \<or> eventType = keypress then ascii_to_qcode character False else Some []))
         else Some (sendKeyCode T (dom_to_evdev (usb_keycode_map T) code) evdev_type eventType))"

definition doSend :: "key_tables \<Rightarrow> KeyboardEvent \<Rightarrow> QemuKeyEvent list option" where
  "doSend T request =
     (let domkey = browserKeyToDomKey (dom_key_map T) (event_key request)
      in if domkey \<noteq> DomKey_NONE \<and> domKeyAsNonPrintableDomCode domkey = DomCode_NONE \<and> ToCharacter domkey > 0xFF
         then Some []
         else
           both (both (if event_key request \<noteq> [] then send_key T request else Some [])
                      (if event_text request \<noteq> [] then sendUtf8String ascii_to_qcode (event_text request) else Some []))
                (Some (if sint (event_keycode request) > 0
                       then sendKeyCode T (event_keycode request) (event_codetype request) (event_eventtype request)
                       else [])))"

section \<open>UTF-8\<close>

lemma small_word_cases:
  fixes x :: u32
  assumes "\<forall>n \<in> set [0..<m]. P (of_nat n)" and "unat x < m"
  shows "P x"
  using assms(1) [rule_format, of "unat x"] assms(2) by simp

lemma utf8_cont_byte:
  fixes c :: u32
  shows "(ucast (0x80 OR (c AND 0x3F)) :: u8) AND 0xC0 = 0x80"
    and "ucast ((ucast (0x80 OR (c AND 0x3F)) :: u8) AND 0x3F) = c AND 0x3F"
proof -
  let ?P = "\<lambda>x :: u32. (ucast (0x80 OR x) :: u8) AND 0xC0 = 0x80 \<and> ucast ((ucast (0x80 OR x) :: u8) AND 0x3F) = x"
  have "\<forall>n \<in> set [0..<64]. ?P (of_nat n)" by code_simp
  moreover have "c AND 0x3F = take_bit 6 c"
    by (simp add: take_bit_eq_mask mask_eq_exp_minus_1)
  then have "unat (c AND 0x3F) < 64" using take_bit_nat_less_exp [of 6 "unat c"] by (simp add: unsigned_take_bit_eq)
  ultimately have "?P (c AND 0x3F)" by (rule small_word_cases)
  then show "(ucast (0x80 OR (c AND 0x3F)) :: u8) AND 0xC0 = 0x80"
    and "ucast ((ucast (0x80 OR (c AND 0x3F)) :: u8) AND 0x3F) = c AND 0x3F" by simp_all
qed

lemma utf8_lead_bytes:
  fixes c :: u32
  shows "unat c < 128 \<Longrightarrow> utf8_lead (ucast c) = Some (0, c)"
    and "unat c < 32 \<Longrightarrow> utf8_lead (ucast (0xC0 OR c)) = Some (1, c)"
    and "unat c < 16 \<Longrightarrow> utf8_lead (ucast (0xE0 OR c)) = Some (2, c)"
    and "unat c < 8 \<Longrightarrow> utf8_lead (ucast (0xF0 OR c)) = Some (3, c)"
proof -
  have "\<forall>n \<in> set [0..<128]. utf8_lead (ucast (of_nat n :: u32)) = Some (0, of_nat n)" by code_simp
  then show "unat c < 128 \<Longrightarrow> utf8_lead (ucast c) = Some (0, c)" by (rule small_word_cases)
  have "\<forall>n \<in> set [0..<32]. utf8_lead (ucast (0xC0 OR of_nat n :: u32)) = Some (1, of_nat n)" by code_simp
  then show "unat c < 32 \<Longrightarrow> utf8_lead (ucast (0xC0 OR c)) = Some (1, c)" by (rule small_word_cases)
  have "\<forall>n \<in> set [0..<16]. utf8_lead (ucast (0xE0 OR of_nat n :: u32)) = Some (2, of_nat n)" by code_simp
  then show "unat c < 16 \<Longrightarrow> utf8_lead (ucast (0xE0 OR c)) = Some (2, c)" by (rule small_word_cases)
  have "\<forall>n \<in> set [0..<8]. utf8_lead (ucast (0xF0 OR of_nat n :: u32)) = Some (3, of_nat n)" by code_simp
  then show "unat c < 8 \<Longrightarrow> utf8_lead (ucast (0xF0 OR c)) = Some (3, c)" by (rule small_word_cases)
qed

lemma join6: "push_bit 6 (drop_bit (6 + n) c) OR (drop_bit n c AND 0x3F) = drop_bit n (c :: u32)"
proof -
  have m: "(0x3F :: u32) = mask 6" by (simp add: mask_eq_exp_minus_1)
  show ?thesis unfolding m take_bit_eq_mask [symmetric]
    by (rule bit_word_eqI) (auto simp: bit_simps add.commute add.left_commute not_less)
qed

lemma join6_steps:
  "push_bit 6 (drop_bit 6 c) OR (c AND 0x3F) = (c :: u32)"
  "push_bit 6 (drop_bit 12 c) OR (drop_bit 6 c AND 0x3F) = drop_bit 6 c"
  "push_bit 6 (drop_bit 18 c) OR (drop_bit 12 c AND 0x3F) = drop_bit 12 c"
  using join6 [of 0 c] join6 [of 6 c] join6 [of 12 c] by simp_all

lemma ToCharacter_FromCharacter: "c \<le> 0x1FFFFF \<Longrightarrow> ToCharacter (FromCharacter c) = c"
proof -
  assume "c \<le> 0x1FFFFF"
  then have "unat c < 2 ^ 21" by (simp add: word_le_nat_alt)
  then have c: "take_bit 21 c = c" by (simp add: word_unat_eq_iff unsigned_take_bit_eq take_bit_nat_eq_self_iff)
  have m: "(0x1FFFFF :: u32) = mask 21" "(0x400000 :: u32) = push_bit 22 1" by (simp_all add: mask_eq_exp_minus_1)
  show ?thesis
    unfolding ToCharacter_def FromCharacter_def m take_bit_eq_mask [symmetric]
    using c by simp
qed

text \<open>The UTF-8 form of a character key is read back as the same key, for every 21 bit code point.\<close>

theorem utf8_roundtrip:
  assumes "c \<le> 0x1FFFFF"
  shows "(FromCharacter_utf8 (ToUtf8 (FromCharacter c)) = FromCharacter c) \<and>
    (ToCharacter (FromCharacter c) = c)"
proof (intro conjI)
  show t: "ToCharacter (FromCharacter c) = c" using assms by (rule ToCharacter_FromCharacter)
  have u: "unat c \<le> 0x1FFFFF" using assms by (simp add: word_le_nat_alt)
  have d: "unat (drop_bit k c) = unat c div 2 ^ k" for k unfolding unat_drop_bit_eq by (simp add: drop_bit_eq_div)
  consider "c \<le> 0x7F" | "\<not> c \<le> 0x7F" "c \<le> 0x7FF" | "\<not> c \<le> 0x7FF" "\<not> c \<le> 0x7F" "c \<le> 0xFFFF"
    | "\<not> c \<le> 0xFFFF" "\<not> c \<le> 0x7FF" "\<not> c \<le> 0x7F"
    by (metis)
  then show "FromCharacter_utf8 (ToUtf8 (FromCharacter c)) = FromCharacter c"
  proof cases
    case 1
    then have "unat c < 128" by (simp add: word_le_nat_alt)
    then show ?thesis using 1 by (simp add: ToUtf8_def t FromCharacter_utf8_def utf8_lead_bytes)
  next
    case 2
    then have "unat (drop_bit 6 c) < 32" by (simp add: word_le_nat_alt d div_less_iff_less_mult)
    then show ?thesis using 2
      by (simp add: ToUtf8_def t FromCharacter_utf8_def utf8_lead_bytes utf8_cont_byte join6_steps)
  next
    case 3
    then have "unat (drop_bit 12 c) < 16" by (simp add: word_le_nat_alt d div_less_iff_less_mult)
    then show ?thesis using 3
      by (simp add: ToUtf8_def t FromCharacter_utf8_def utf8_lead_bytes utf8_cont_byte join6_steps)
  next
    case 4
    have "unat (drop_bit 18 c) < 8" using u by (simp add: d div_less_iff_less_mult)
    then show ?thesis using 4
      by (simp add: ToUtf8_def t FromCharacter_utf8_def utf8_lead_bytes utf8_cont_byte join6_steps)
  qed
qed

lemma utf8_roundtrip_witness: "FromCharacter_utf8 (ToUtf8 (FromCharacter 0x20AC)) = FromCharacter 0x20AC"
  by (rule utf8_roundtrip [THEN conjunct1]) simp

section \<open>Characters\<close>

lemma scan_overrun: "(\<forall>e \<in> set es. \<not> p e) \<Longrightarrow> length es < n \<Longrightarrow> scan p n es = None"
  by (induction p n es rule: scan.induct) auto

lemma scan_find: "length es \<le> n \<Longrightarrow> (\<exists>e \<in> set es. p e) \<Longrightarrow> scan p n es = Some (List.find p es)"
  by (induction p n es rule: scan.induct) auto

lemma scan_exact: "scan p (length es) es = Some (List.find p es)"
  by (induction es) auto

text \<open>The search for the key of a character is bounded by the size of the table in bytes: a
  character is translated only if it is on the unshifted layer of some key; for every other one, all
  capital letters included, the search reads behind the end of the table.\<close>

theorem shifted_characters_read_out_of_bounds:
  "ascii_to_qcode c down =
     (case List.find (\<lambda>e. entry_base e = c) cmap of
        Some e \<Rightarrow> Some [QemuKeyEvent (entry_code e) down] | None \<Rightarrow> None)"
proof -
  have len: "length cmap < sizeof_cmap" by (simp add: sizeof_cmap_def cmap_def)
  show ?thesis
  proof (cases "\<exists>e \<in> set cmap. entry_base e = c")
    case True
    then obtain e where "List.find (\<lambda>e. entry_base e = c) cmap = Some e"
      by (metis (mono_tags, lifting) find_None_iff option.exhaust)
    then show ?thesis
      using scan_find [of cmap sizeof_cmap "\<lambda>e. entry_base e = c"] True len
      by (simp add: ascii_to_qcode_def ascii_to_qcode_upto_def)
  next
    case False
    then have "List.find (\<lambda>e. entry_base e = c) cmap = None" by (simp add: find_None_iff)
    moreover have "scan (\<lambda>e. entry_base e = c) sizeof_cmap cmap = None"
      using False len by (intro scan_overrun) auto
    ultimately show ?thesis by (simp add: ascii_to_qcode_def ascii_to_qcode_upto_def)
  qed
qed

text \<open>With the number of entries as the bound, every character is translated, and a release undoes
  a press in the opposite order.\<close>

definition released :: "QemuKeyEvent \<Rightarrow> QemuKeyEvent" where
  "released e = (case e of QemuKeyEvent code _ \<Rightarrow> QemuKeyEvent code False)"

lemma bounded_ascii_mirrored:
  "\<exists>evs. ascii_to_qcode_upto (length cmap) c True = Some evs \<and>
         ascii_to_qcode_upto (length cmap) c False = Some (rev (map released evs))"
  by (auto simp: ascii_to_qcode_upto_def scan_exact released_def split: option.splits)

section \<open>Text\<close>

lemma ascii_byte: "(c :: u8) < 0x80 \<Longrightarrow> c AND 0xC0 \<noteq> 0x80"
proof -
  assume "c < 0x80"
  then have "unat c \<in> set [0..<128]" by (simp add: word_less_nat_alt)
  moreover have "\<forall>n \<in> set [0..<128]. (of_nat n :: u8) AND 0xC0 \<noteq> 0x80" by code_simp
  ultimately have "(of_nat (unat c) :: u8) AND 0xC0 \<noteq> 0x80" by blast
  then show ?thesis by simp
qed

text \<open>What is sent for one character: its keys are pressed and released.\<close>

definition key_stroke :: "(u16 \<Rightarrow> bool \<Rightarrow> 'e list option) \<Rightarrow> u8 \<Rightarrow> 'e list option" where
  "key_stroke conv c = both (conv (scast c) True) (conv (scast c) False)"

lemma sendUtf8_ascii:
  "\<forall>c \<in> set s. c < 0x80 \<Longrightarrow> sendUtf8_loop conv [] s = foldr both (map (key_stroke conv) s) (Some [])"
  by (induction s) (simp_all add: ascii_byte key_stroke_def Let_def)

text \<open>Text that is sent to the guest: ASCII text is sent as one key stroke per character, in order.
  After a character of two bytes, however, the next ASCII character is lost: its place is taken by
  the second byte of the character before it, which is not a character at all.\<close>

theorem text_after_multibyte_is_lost:
  shows "((\<forall>c \<in> set s. c < 0x80 \<and> c \<noteq> 0) \<longrightarrow>
      sendUtf8String conv s = foldr both (map (key_stroke conv) s) (Some [])) \<and>
    (b \<noteq> 0 \<and> b AND 0xC0 \<noteq> 0x80 \<and> c AND 0xC0 = 0x80 \<and> a < 0x80 \<and> a \<noteq> 0 \<longrightarrow>
      sendUtf8String conv (b # c # a # rest) =
        both (key_stroke conv b) (both (key_stroke conv c) (sendUtf8String conv rest)))"
proof (intro conjI)
  show "(\<forall>c \<in> set s. c < 0x80 \<and> c \<noteq> 0) \<longrightarrow>
      sendUtf8String conv s = foldr both (map (key_stroke conv) s) (Some [])"
  proof
    assume "\<forall>c \<in> set s. c < 0x80 \<and> c \<noteq> 0"
    moreover from this have "c_str s = s" by (intro c_str_id) auto
    ultimately show "sendUtf8String conv s = foldr both (map (key_stroke conv) s) (Some [])"
      using sendUtf8_ascii [of s conv] by (simp add: sendUtf8String_def)
  qed
  show "b \<noteq> 0 \<and> b AND 0xC0 \<noteq> 0x80 \<and> c AND 0xC0 = 0x80 \<and> a < 0x80 \<and> a \<noteq> 0 \<longrightarrow>
      sendUtf8String conv (b # c # a # rest) =
        both (key_stroke conv b) (both (key_stroke conv c) (sendUtf8String conv rest))"
    using ascii_byte [of a] by (auto simp: sendUtf8String_def c_str_def key_stroke_def Let_def)
qed

lemma text_after_multibyte_is_lost_witness:
  "sendUtf8String (\<lambda>c down. Some [(c, down)]) (ToUtf8 (FromCharacter 0xE9) @ asc ''ab'') =
     Some [(0xFFC3, True), (0xFFC3, False), (0xFFA9, True), (0xFFA9, False), (0x62, True), (0x62, False)]"
proof -
  have u: "ToUtf8 (FromCharacter 0xE9) = [0xC3, 0xA9]" by code_simp
  have r: "sendUtf8String (\<lambda>c down. Some [(c, down)]) (asc ''b'') = Some [(0x62 :: u16, True), (0x62, False)]"
    by code_simp
  have k: "key_stroke (\<lambda>c down. Some [(c, down)]) 0xC3 = Some [(0xFFC3 :: u16, True), (0xFFC3, False)]"
    "key_stroke (\<lambda>c down. Some [(c, down)]) 0xA9 = Some [(0xFFA9 :: u16, True), (0xFFA9, False)]"
    by code_simp+
  show ?thesis
    using text_after_multibyte_is_lost [where b = "0xC3" and c = "0xA9" and a = "0x61" and
        conv = "\<lambda>c down. Some [(c :: u16, down)]" and rest = "asc ''b''", THEN conjunct2]
    unfolding u r k by (simp add: asc_def both_def)
qed

text \<open>The lookup of a non-printable key is \<^verbatim>\<open>DomCode::NONE\<close> exactly for the keys that are not in the
  table.\<close>

lemma non_printable_iff:
  "domKeyAsNonPrintableDomCode k = DomCode_NONE \<longleftrightarrow> k \<notin> snd ` set kNonPrintableCodeMap"
proof (cases "List.find (\<lambda>(_, dom_key). dom_key = k) kNonPrintableCodeMap")
  case None
  then have "k \<notin> snd ` set kNonPrintableCodeMap" by (auto simp: find_None_iff)
  with None show ?thesis by (simp add: domKeyAsNonPrintableDomCode_def)
next
  case (Some ck)
  then have "ck \<in> set kNonPrintableCodeMap" "snd ck = k"
    by (auto simp: find_Some_iff in_set_conv_nth)
  moreover have "0 \<notin> set (map fst kNonPrintableCodeMap)" by code_simp
  ultimately have "fst ck \<noteq> 0" "k \<in> snd ` set kNonPrintableCodeMap" by (metis image_eqI set_map, blast)
  with Some show ?thesis by (simp add: domKeyAsNonPrintableDomCode_def case_prod_beta)
qed

end
