(* ===== verification/Ini_File.thy ===== *)
theory Ini_File
  imports Text
begin

text \<open>
  Configuration files (\<^verbatim>\<open>android/files/src/aemu/base/files/IniFile.cpp\<close>): reading, typed access, and
  writing with a backup of the old file.  \<^verbatim>\<open>mData\<close> is the table as an association list in the order of
  \<^verbatim>\<open>mOrderList\<close>, which holds a pointer to every entry of the table once, in the order of insertion.
\<close>

section \<open>State\<close>

record ini_file =
  mData :: "(bytes \<times> bytes) list"
  mComments :: "(int \<times> bytes) list"
  mBackingFilePath :: bytes
  mDirty :: bool

definition new_ini :: "bytes \<Rightarrow> ini_file" where
  "new_ini path = \<lparr>mData = [], mComments = [], mBackingFilePath = path, mDirty = True\<rparr>"

definition setBackingFile :: "bytes \<Rightarrow> ini_file \<Rightarrow> ini_file" where
  "setBackingFile path ini = ini\<lparr>mDirty := True, mBackingFilePath := path\<rparr>"

section \<open>Parsing\<close>

definition isSpaceChar :: "u8 \<Rightarrow> bool" where
  "isSpaceChar c \<longleftrightarrow> c = 0x20 \<or> c = 0x0D \<or> c = 0x09"

definition isValueChar :: "u8 \<Rightarrow> bool" where
  "isValueChar c \<longleftrightarrow> c \<noteq> 0x0D \<and> c \<noteq> 0x0A"

text \<open>A character is signed and is extended to an unsigned integer before it is classified.\<close>

definition isKeyStartChar :: "u8 \<Rightarrow> bool" where
  "isKeyStartChar c \<longleftrightarrow>
     (let uc = scast c :: u32 in uc - 0x61 < 26 \<or> uc - 0x41 < 26 \<or> uc = 0x5F)"

definition isKeyChar :: "u8 \<Rightarrow> bool" where
  "isKeyChar c \<longleftrightarrow>
     (let uc = scast c :: u32 in isKeyStartChar c \<or> uc - 0x30 < 10 \<or> uc = 0x2E \<or> uc = 0x2D)"

fun eat :: "('a \<Rightarrow> bool) \<Rightarrow> 'a list \<Rightarrow> 'a list" where
  "eat p [] = []"
| "eat p (c # cs) = (if p c then eat p cs else c # cs)"

datatype ini_line = Comment | Skipped | Assignment bytes bytes

definition parse_line :: "bytes \<Rightarrow> ini_line" where
  "parse_line line =
     (case eat isSpaceChar line of
        [] \<Rightarrow> Comment
      | c # cs \<Rightarrow>
          if c = 0x23 \<or> c = 0x3B then Comment
          else if \<not> isKeyStartChar c then Skipped
          else
            (let rest = eat isKeyChar cs;
                 key = c # take (length cs - length rest) cs
             in case eat isSpaceChar rest of
                  [] \<Rightarrow> Skipped
                | e # es \<Rightarrow>
                    if e \<noteq> 0x3D then Skipped
                    else
                      (let start = eat isSpaceChar es;
                           end = eat isValueChar start;
                           val = rev (eat isSpaceChar (rev (take (length start - length end) start)))
                       in if eat isSpaceChar end \<noteq> [] then Skipped else Assignment key val)))"

fun parse_lines :: "bool \<Rightarrow> int \<Rightarrow> bytes list \<Rightarrow> ini_file \<Rightarrow> ini_file" where
  "parse_lines keepComments outputLineno [] ini = ini"
| "parse_lines keepComments outputLineno (line # lines) ini =
     (case parse_line line of
        Comment \<Rightarrow>
          parse_lines keepComments (outputLineno + 1) lines
            (if keepComments then ini\<lparr>mComments := mComments ini @ [(outputLineno + 1, line)]\<rparr> else ini)
      | Skipped \<Rightarrow> parse_lines keepComments outputLineno lines ini
      | Assignment k v \<Rightarrow>
          parse_lines keepComments (outputLineno + 1) lines (ini\<lparr>mData := AList.update k v (mData ini)\<rparr>))"

definition parseStream :: "bool \<Rightarrow> bytes \<Rightarrow> ini_file \<Rightarrow> ini_file" where
  "parseStream keepComments text ini = parse_lines keepComments 0 (getlines text) ini"

definition clear_ini :: "ini_file \<Rightarrow> ini_file" where
  "clear_ini ini = ini\<lparr>mDirty := False, mData := [], mComments := []\<rparr>"

text \<open>\<open>files\<close> are the files that can be opened for reading.\<close>

type_synonym file_system = "bytes \<Rightarrow> bytes option"

definition read_ini :: "file_system \<Rightarrow> bool \<Rightarrow> ini_file \<Rightarrow> bool \<times> ini_file" where
  "read_ini files keepComments ini =
     (let ini1 = clear_ini ini
      in if mBackingFilePath ini = [] then (False, ini1)
         else
           (case files (mBackingFilePath ini) of
              None \<Rightarrow> (False, ini1)
            | Some text \<Rightarrow>
                if length text > 655360 then (False, ini1)
                else (True, parseStream keepComments text ini1)))"

definition readFromMemory :: "bytes \<Rightarrow> ini_file \<Rightarrow> bool \<times> ini_file" where
  "readFromMemory data ini = (True, parseStream True data (clear_ini ini))"

section \<open>Writing\<close>

fun write_comments :: "int \<Rightarrow> (int \<times> bytes) list \<Rightarrow> bytes \<times> (int \<times> bytes) list \<times> int" where
  "write_comments lineno [] = ([], [], lineno)"
| "write_comments lineno ((n, c) # cs) =
     (if lineno \<ge> n then
        (case write_comments (lineno + 1) cs of (out, rest) \<Rightarrow> (c @ asc [CHR 0x0A] @ out, rest))
      else ([], (n, c) # cs, lineno))"

fun write_entries :: "bool \<Rightarrow> int \<Rightarrow> (int \<times> bytes) list \<Rightarrow> (bytes \<times> bytes) list \<Rightarrow> bytes" where
  "write_entries discardEmpty lineno comments [] = []"
| "write_entries discardEmpty lineno comments ((key, val) # entries) =
     (case write_comments (lineno + 1) comments of
        (out, comments', lineno') \<Rightarrow>
          out @ (if discardEmpty \<and> val = [] then [] else key @ asc '' = '' @ val @ asc [CHR 0x0A]) @
          write_entries discardEmpty lineno' comments' entries)"

text \<open>
  What the environment decides while a file is written: whether the new file can be opened, what
  of the written data reaches it (the stream is not asked), and which steps on the file system
  fail.  A rename that fails has no effect; a removal that fails throws.
\<close>

datatype write_step = RemoveOld | MoveToOld | MoveNew | MoveBack | RemoveNew | RemoveOldAgain

record write_env =
  can_open :: bool
  disk :: "bytes \<Rightarrow> bytes"
  step_fails :: "write_step \<Rightarrow> bool"

datatype write_outcome = Returned bool | Threw

definition move_file :: "bool \<Rightarrow> bytes \<Rightarrow> bytes \<Rightarrow> file_system \<Rightarrow> bool \<times> file_system" where
  "move_file fails from to files =
     (if fails \<or> files from = None then (False, files)
      else (True, (files(to := files from))(from := None)))"

definition writeCommonImpl :: "write_env \<Rightarrow> bool \<Rightarrow> bytes \<Rightarrow> ini_file \<Rightarrow> file_system \<Rightarrow> bool \<times> ini_file \<times> file_system" where
  "writeCommonImpl env discardEmpty path ini files =
     (if \<not> can_open env then (False, ini, files)
      else (True, ini\<lparr>mDirty := False\<rparr>,
            files(path \<mapsto> disk env (write_entries discardEmpty 0 (mComments ini) (mData ini)))))"

definition writeCommon :: "write_env \<Rightarrow> bool \<Rightarrow> ini_file \<Rightarrow> file_system \<Rightarrow> write_outcome \<times> ini_file \<times> file_system" where
  "writeCommon env discardEmpty ini files =
     (let path = mBackingFilePath ini; iniFileNew = path @ asc ''.new''; iniFileOld = path @ asc ''.old''
      in if path = [] then (Returned False, ini, files)
         else
           (case writeCommonImpl env discardEmpty iniFileNew ini files of
              (False, ini1, files1) \<Rightarrow> (Returned False, ini1, files1)
            | (True, ini1, files1) \<Rightarrow>
                if step_fails env RemoveOld then (Threw, ini1, files1)
                else
                  (let (deleteOldConfig, files2) =
                         move_file (step_fails env MoveToOld) path iniFileOld (files1(iniFileOld := None));
                       (moved, files3) = move_file (step_fails env MoveNew) iniFileNew path files2
                   in if \<not> moved then
                        (let files4 = (if deleteOldConfig
                                       then snd (move_file (step_fails env MoveBack) iniFileOld path files3)
                                       else files3)
                         in if step_fails env RemoveNew then (Threw, ini1, files4)
                            else (Returned False, ini1, files4(iniFileNew := None)))
                      else if deleteOldConfig then
                        (if step_fails env RemoveOldAgain then (Threw, ini1, files3)
                         else (Returned True, ini1, files3(iniFileOld := None)))
                      else (Returned True, ini1, files3))))"

definition write_ini :: "write_env \<Rightarrow> ini_file \<Rightarrow> file_system \<Rightarrow> write_outcome \<times> ini_file \<times> file_system" where
  "write_ini env ini files = writeCommon env False ini files"

definition writeDiscardingEmpty :: "write_env \<Rightarrow> ini_file \<Rightarrow> file_system \<Rightarrow> write_outcome \<times> ini_file \<times> file_system" where
  "writeDiscardingEmpty env ini files = writeCommon env True ini files"

definition writeIfChanged :: "write_env \<Rightarrow> ini_file \<Rightarrow> file_system \<Rightarrow> write_outcome \<times> ini_file \<times> file_system" where
  "writeIfChanged env ini files =
     (if \<not> mDirty ini then (Returned True, ini, files) else writeCommon env False ini files)"

section \<open>Keys and values\<close>

definition ini_size :: "ini_file \<Rightarrow> nat" where
  "ini_size ini = length (mData ini)"

definition hasKey :: "bytes \<Rightarrow> ini_file \<Rightarrow> bool" where
  "hasKey key ini \<longleftrightarrow> map_of (mData ini) (c_str key) \<noteq> None"

definition hex_digit :: "nat \<Rightarrow> u8" where
  "hex_digit n = (if n < 10 then 0x30 + of_nat n else 0x37 + of_nat n)"

text \<open>\<^verbatim>\<open>static_cast<int>(c)\<close> printed in hexadecimal: a negative one has eight digits.\<close>

definition hex_int :: "u8 \<Rightarrow> bytes" where
  "hex_int c =
     (let ds = map (\<lambda>i. hex_digit (unat (drop_bit (4 * i) (scast c :: u32) AND 0xF))) [7, 6, 5, 4, 3, 2, 1, 0]
      in if c < 0x80 then drop 6 ds else ds)"

definition makeValidKey :: "bytes \<Rightarrow> bytes" where
  "makeValidKey str = 0x5F # concat (map (\<lambda>c. if isKeyChar c then [c] else 0x2E # hex_int c) str)"

definition makeValidValue :: "bytes \<Rightarrow> bytes" where
  "makeValidValue str = concat (map (\<lambda>c. if c = 0x25 then [c, c] else [c]) (c_str str))"

text \<open>The loop of \<^verbatim>\<open>envSubst\<close>; \<open>var\<close> is the name being read, if one is open.  \<open>env\<close> is the environment.\<close>

fun envSubst_loop :: "(bytes \<Rightarrow> bytes) \<Rightarrow> bytes \<Rightarrow> bytes option \<Rightarrow> bytes \<Rightarrow> bytes" where
  "envSubst_loop env res None [] = res"
| "envSubst_loop env res (Some var) [] = res @ [0x25] @ var"
| "envSubst_loop env res (Some var) (ch # fix) =
     (if ch \<noteq> 0x25 then envSubst_loop env res (Some (var @ [ch])) fix
      else envSubst_loop env (res @ env var) None fix)"
| "envSubst_loop env res None [ch] =
     (if ch \<noteq> 0x25 then envSubst_loop env (res @ [ch]) None []
      else envSubst_loop env res (Some []) [])"
| "envSubst_loop env res None (ch # next # fix) =
     (if ch \<noteq> 0x25 then envSubst_loop env (res @ [ch]) None (next # fix)
      else if next = 0x25 then envSubst_loop env (res @ [ch]) None fix
      else envSubst_loop env res (Some []) (next # fix))"

definition envSubst :: "(bytes \<Rightarrow> bytes) \<Rightarrow> bytes \<Rightarrow> bytes" where
  "envSubst env fix = envSubst_loop env [] None fix"

definition ini_getString :: "(bytes \<Rightarrow> bytes) \<Rightarrow> bytes \<Rightarrow> bytes \<Rightarrow> ini_file \<Rightarrow> bytes" where
  "ini_getString env key defaultValue ini =
     envSubst env (case map_of (mData ini) key of None \<Rightarrow> defaultValue | Some v \<Rightarrow> v)"

definition getInt :: "(bytes \<Rightarrow> bytes) \<Rightarrow> bytes \<Rightarrow> u32 \<Rightarrow> ini_file \<Rightarrow> u32" where
  "getInt env key defaultValue ini =
     (if map_of (mData ini) key = None then defaultValue
      else
        (case strtoll (c_str (ini_getString env key [] ini)) of
           (v, end, erange) \<Rightarrow> if erange \<or> end \<noteq> [] then defaultValue else of_int v))"

definition getInt64 :: "(bytes \<Rightarrow> bytes) \<Rightarrow> bytes \<Rightarrow> u64 \<Rightarrow> ini_file \<Rightarrow> u64" where
  "getInt64 env key defaultValue ini =
     (if map_of (mData ini) key = None then defaultValue
      else
        (case strtoll (c_str (ini_getString env key [] ini)) of
           (v, end, erange) \<Rightarrow> if erange \<or> end \<noteq> [] then defaultValue else of_int v))"

definition isBoolTrue :: "bytes \<Rightarrow> bool" where
  "isBoolTrue val \<longleftrightarrow>
     strncasecmp_eq (length val) (asc ''yes'') val \<or> strncasecmp_eq (length val) (asc ''true'') val \<or>
     strncasecmp_eq (length val) (asc ''1'') val"

definition isBoolFalse :: "bytes \<Rightarrow> bool" where
  "isBoolFalse val \<longleftrightarrow>
     strncasecmp_eq (length val) (asc ''no'') val \<or> strncasecmp_eq (length val) (asc ''false'') val \<or>
     strncasecmp_eq (length val) (asc ''0'') val"

definition getBool :: "(bytes \<Rightarrow> bytes) \<Rightarrow> bytes \<Rightarrow> bool \<Rightarrow> ini_file \<Rightarrow> bool" where
  "getBool env key defaultValue ini =
     (if map_of (mData ini) key = None then defaultValue
      else
        (let val = ini_getString env key [] ini
         in if isBoolTrue val then True else if isBoolFalse val then False else defaultValue))"

definition getBool_text :: "(bytes \<Rightarrow> bytes) \<Rightarrow> bytes \<Rightarrow> bytes \<Rightarrow> ini_file \<Rightarrow> bool" where
  "getBool_text env key defaultValue ini = getBool env key (isBoolTrue defaultValue) ini"

text \<open>The size, or \<^const>\<open>None\<close> when the text is malformed.\<close>

definition parseDiskSize :: "bytes \<Rightarrow> u64 option" where
  "parseDiskSize valueStr =
     (case strtoll (c_str valueStr) of
        (v, end, erange) \<Rightarrow>
          if erange then None
          else
            (let c = c_head end; result = of_int v :: u64
             in if c = 0 then Some result
                else if c = of_char (CHR ''k'') \<or> c = of_char (CHR ''K'') then Some (result * 1024)
                else if c = of_char (CHR ''m'') \<or> c = of_char (CHR ''M'') then Some (result * (1024 * 1024))
                else if c = of_char (CHR ''g'') \<or> c = of_char (CHR ''G'') then Some (result * (1024 * 1024 * 1024))
                else None))"

definition getDiskSize :: "(bytes \<Rightarrow> bytes) \<Rightarrow> bytes \<Rightarrow> u64 \<Rightarrow> ini_file \<Rightarrow> u64" where
  "getDiskSize env key defaultValue ini =
     (if \<not> hasKey key ini then defaultValue
      else (case parseDiskSize (ini_getString env key [] ini) of None \<Rightarrow> defaultValue | Some v \<Rightarrow> v))"

definition getDiskSize_text :: "(bytes \<Rightarrow> bytes) \<Rightarrow> bytes \<Rightarrow> bytes \<Rightarrow> ini_file \<Rightarrow> u64" where
  "getDiskSize_text env key defaultValue ini =
     getDiskSize env key (case parseDiskSize defaultValue of None \<Rightarrow> 0 | Some v \<Rightarrow> v) ini"

definition updateData :: "bytes \<Rightarrow> bytes \<Rightarrow> ini_file \<Rightarrow> ini_file" where
  "updateData key val ini = ini\<lparr>mDirty := True, mData := AList.update key val (mData ini)\<rparr>"

definition setString :: "bytes \<Rightarrow> bytes \<Rightarrow> ini_file \<Rightarrow> ini_file" where
  "setString key val ini = updateData key (c_str val) ini"

definition setInt :: "bytes \<Rightarrow> u32 \<Rightarrow> ini_file \<Rightarrow> ini_file" where
  "setInt key val ini = updateData key (dec_int (sint val)) ini"

definition setInt64 :: "bytes \<Rightarrow> u64 \<Rightarrow> ini_file \<Rightarrow> ini_file" where
  "setInt64 key val ini = updateData key (dec_int (sint val)) ini"

definition setBool :: "bytes \<Rightarrow> bool \<Rightarrow> ini_file \<Rightarrow> ini_file" where
  "setBool key val ini = updateData key (if val then asc ''true'' else asc ''false'') ini"

definition setDiskSize :: "bytes \<Rightarrow> u64 \<Rightarrow> ini_file \<Rightarrow> ini_file" where
  "setDiskSize key val ini =
     (let kKilo = 1024; kMega = 1024 * kKilo; kGiga = 1024 * kMega;
          (val', suffix) =
            (if val \<ge> kGiga \<and> val mod kGiga = 0 then (val div kGiga, asc ''g'')
             else if val \<ge> kMega \<and> val mod kMega = 0 then (val div kMega, asc ''m'')
             else if val \<ge> kKilo \<and> val mod kKilo = 0 then (val div kKilo, asc ''k'')
             else (val, []))
      in updateData key (dec_int (uint val') @ suffix) ini)"

section \<open>Facts on parsing\<close>

lemma eat_dropWhile: "eat p xs = dropWhile p xs"
  by (induction xs) auto

lemma take_eaten: "take (length xs - length (dropWhile p xs)) xs = takeWhile p xs"
proof -
  have "length xs - length (dropWhile p xs) = length (takeWhile p xs)"
    using arg_cong [OF takeWhile_dropWhile_id [of p xs], of length] by (simp only: length_append)
  then show ?thesis by (simp add: takeWhile_eq_take [symmetric])
qed

lemmas parse_line_simps = parse_line_def eat_dropWhile take_eaten Let_def

definition valid_key :: "bytes \<Rightarrow> bool" where
  "valid_key k \<longleftrightarrow> k \<noteq> [] \<and> isKeyStartChar (hd k) \<and> (\<forall>c \<in> set k. isKeyChar c)"

definition valid_value :: "bytes \<Rightarrow> bool" where
  "valid_value v \<longleftrightarrow> (\<forall>c \<in> set v. isValueChar c) \<and>
     (v \<noteq> [] \<longrightarrow> \<not> isSpaceChar (hd v) \<and> \<not> isSpaceChar (last v))"

definition valid_comment :: "bytes \<Rightarrow> bool" where
  "valid_comment c \<longleftrightarrow> parse_line c = Comment \<and> 0x0A \<notin> set c"

definition valid_ini :: "ini_file \<Rightarrow> bool" where
  "valid_ini ini \<longleftrightarrow> distinct (map fst (mData ini)) \<and>
     (\<forall>(k, v) \<in> set (mData ini). valid_key k \<and> valid_value v) \<and>
     (\<forall>(n, c) \<in> set (mComments ini). valid_comment c)"

lemma key_char_not: "isKeyChar c \<Longrightarrow> c \<noteq> 0x20 \<and> c \<noteq> 0x0D \<and> c \<noteq> 0x09 \<and> c \<noteq> 0x0A \<and> c \<noteq> 0x23 \<and> c \<noteq> 0x3B \<and> c \<noteq> 0"
  by (auto simp: isKeyChar_def isKeyStartChar_def)

lemma separator_chars: "\<not> isKeyChar 0x20" "isSpaceChar 0x20" "\<not> isSpaceChar 0x3D"
  by (simp_all add: isKeyChar_def isKeyStartChar_def isSpaceChar_def)

lemma parse_entry:
  assumes "valid_key k" and "valid_value v"
  shows "parse_line (k @ asc '' = '' @ v) = Assignment k v"
proof -
  obtain c cs where k: "k = c # cs" using assms(1) by (cases k) (auto simp: valid_key_def)
  have c: "isKeyStartChar c" "isKeyChar c" "\<forall>x \<in> set cs. isKeyChar x"
    using assms(1) by (auto simp: valid_key_def k)
  have start: "dropWhile isSpaceChar v = v"
    using assms(2) by (cases v) (auto simp: valid_value_def)
  have all: "takeWhile isValueChar v = v" "dropWhile isValueChar v = []"
    using assms(2) by (auto simp: valid_value_def takeWhile_eq_all_conv dropWhile_eq_Nil_conv)
  have trim: "rev (dropWhile isSpaceChar (rev v)) = v"
    using assms(2) by (cases v rule: rev_cases) (auto simp: valid_value_def)
  have key: "takeWhile isKeyChar (cs @ 0x20 # rest) = cs" "dropWhile isKeyChar (cs @ 0x20 # rest) = 0x20 # rest" for rest
    using c(3) separator_chars(1) by (simp_all add: takeWhile_append dropWhile_append)
  have "\<not> isSpaceChar c" using key_char_not [OF c(2)] by (auto simp: isSpaceChar_def)
  then show ?thesis
    using c(1,2) key_char_not [OF c(2)]
    by (simp add: parse_line_simps k asc_def key separator_chars start all trim)
qed

section \<open>Written lines\<close>

text \<open>The lines of a written file, each a kept comment or an entry.\<close>

fun comment_lines :: "int \<Rightarrow> (int \<times> bytes) list \<Rightarrow> bytes list" where
  "comment_lines lineno [] = []"
| "comment_lines lineno ((n, c) # cs) = (if lineno \<ge> n then c # comment_lines (lineno + 1) cs else [])"

fun file_lines :: "bool \<Rightarrow> int \<Rightarrow> (int \<times> bytes) list \<Rightarrow> (bytes \<times> bytes) list \<Rightarrow> bytes list" where
  "file_lines discardEmpty lineno comments [] = []"
| "file_lines discardEmpty lineno comments ((key, val) # entries) =
     comment_lines (lineno + 1) comments @
     (if discardEmpty \<and> val = [] then [] else [key @ asc '' = '' @ val]) @
     file_lines discardEmpty (snd (snd (write_comments (lineno + 1) comments)))
       (fst (snd (write_comments (lineno + 1) comments))) entries"

definition unlines :: "bytes list \<Rightarrow> bytes" where
  "unlines ls = concat (map (\<lambda>l. l @ [0x0A]) ls)"

lemma unlines_simps [simp]: "unlines [] = []" "unlines (l # ls) = l @ 0x0A # unlines ls"
  "unlines (ls @ ms) = unlines ls @ unlines ms"
  by (simp_all add: unlines_def)

lemma getlines_unlines: "\<forall>l \<in> set ls. 0x0A \<notin> set l \<Longrightarrow> getlines (unlines ls) = ls"
  by (induction ls) (simp_all add: getlines_line)

lemma write_comments_lines: "fst (write_comments n cs) = unlines (comment_lines n cs)"
  by (induction n cs rule: write_comments.induct) (auto simp: asc_def split: prod.splits)

lemma write_comments_rest: "set (fst (snd (write_comments n cs))) \<subseteq> set cs"
  by (induction n cs rule: write_comments.induct) (auto split: prod.splits)

lemma write_entries_lines: "write_entries d n cs es = unlines (file_lines d n cs es)"
proof (induction d n cs es rule: write_entries.induct)
  case (2 d n cs k v es)
  obtain out cs' n' where w: "write_comments (n + 1) cs = (out, cs', n')" by (metis prod_cases3)
  from 2 [OF w [symmetric] refl] write_comments_lines [of "n + 1" cs] w show ?case
    by (simp add: asc_def)
qed simp

lemma comment_lines_valid:
  "\<forall>(n, c) \<in> set cs. valid_comment c \<Longrightarrow> l \<in> set (comment_lines n cs) \<Longrightarrow> valid_comment l"
  by (induction n cs rule: comment_lines.induct) (auto split: if_splits)

lemma parse_comments:
  "\<forall>l \<in> set ls. valid_comment l \<Longrightarrow>
   \<exists>m ini'. (\<forall>rest. parse_lines b n (ls @ rest) ini = parse_lines b m rest ini') \<and> mData ini' = mData ini"
proof (induction ls arbitrary: n ini)
  case (Cons l ls)
  let ?ini = "if b then ini\<lparr>mComments := mComments ini @ [(n + 1, l)]\<rparr> else ini"
  have "parse_line l = Comment" using Cons.prems by (simp add: valid_comment_def)
  then have step: "parse_lines b n ((l # ls) @ rest) ini = parse_lines b (n + 1) (ls @ rest) ?ini" for rest by simp
  obtain m ini' where "\<forall>rest. parse_lines b (n + 1) (ls @ rest) ?ini = parse_lines b m rest ini'"
    "mData ini' = mData ?ini"
    using Cons.IH [of "n + 1" ?ini] Cons.prems by auto
  then have "(\<forall>rest. parse_lines b n ((l # ls) @ rest) ini = parse_lines b m rest ini') \<and> mData ini' = mData ini"
    unfolding step by simp
  then show ?case by blast
qed auto

definition kept :: "bool \<Rightarrow> (bytes \<times> bytes) list \<Rightarrow> (bytes \<times> bytes) list" where
  "kept d es = (if d then filter (\<lambda>(k, v). v \<noteq> []) es else es)"

lemma parse_file_lines:
  assumes "\<forall>(k, v) \<in> set es. valid_key k \<and> valid_value v" and "\<forall>(n, c) \<in> set cs. valid_comment c"
    and "distinct (map fst (mData ini @ es))"
  shows "mData (parse_lines b m (file_lines d n cs es) ini) = mData ini @ kept d es"
  using assms
proof (induction d n cs es arbitrary: m ini rule: file_lines.induct)
  case (1 d n cs)
  then show ?case by (simp add: kept_def)
next
  case (2 d n cs k v es)
  let ?rest = "file_lines d (snd (snd (write_comments (n + 1) cs))) (fst (snd (write_comments (n + 1) cs))) es"
  obtain m' ini' where skip:
    "\<And>rest. parse_lines b m (comment_lines (n + 1) cs @ rest) ini = parse_lines b m' rest ini'"
    "mData ini' = mData ini"
    using parse_comments [of "comment_lines (n + 1) cs" b m ini] comment_lines_valid [OF 2(3)] by blast
  have sub: "\<forall>(n, c) \<in> set (fst (snd (write_comments (n + 1) cs))). valid_comment c"
    using 2(3) write_comments_rest [of "n + 1" cs] by blast
  have IH: "distinct (map fst (mData ini'' @ es)) \<Longrightarrow>
      mData (parse_lines b m'' ?rest ini'') = mData ini'' @ kept d es" for m'' ini''
    using 2(1) [of ini'' m''] 2(2) sub by simp
  have entry: "parse_line (k @ asc '' = '' @ v) = Assignment k v" using 2(2) by (simp add: parse_entry)
  have fresh: "k \<notin> fst ` set (mData ini)" using 2(4) by auto
  show ?case
  proof (cases "d \<and> v = []")
    case True
    then show ?thesis using IH [of ini' m'] 2(4) skip by (simp add: kept_def)
  next
    case False
    let ?ini = "ini'\<lparr>mData := AList.update k v (mData ini')\<rparr>"
    have "mData ?ini = mData ini @ [(k, v)]" using fresh by (simp add: skip(2) update_fresh)
    moreover have "kept d ((k, v) # es) = (k, v) # kept d es" using False by (auto simp: kept_def)
    ultimately show ?thesis
      using IH [of ?ini "m' + 1"] 2(4) False entry by (auto simp: skip(1))
  qed
qed

lemma file_lines_no_newline:
  assumes "\<forall>(k, v) \<in> set es. valid_key k \<and> valid_value v" and "\<forall>(n, c) \<in> set cs. valid_comment c"
    and "l \<in> set (file_lines d n cs es)"
  shows "0x0A \<notin> set l"
  using assms
proof (induction d n cs es rule: file_lines.induct)
  case (2 d n cs k v es)
  have "0x0A \<notin> set (k @ asc '' = '' @ v)"
    using 2(2) key_char_not by (auto simp: valid_key_def valid_value_def isValueChar_def asc_def)
  moreover have "0x0A \<notin> set x" if "x \<in> set (comment_lines (n + 1) cs)" for x
    using comment_lines_valid [OF 2(3) that] by (simp add: valid_comment_def)
  moreover have "\<forall>(n, c) \<in> set (fst (snd (write_comments (n + 1) cs))). valid_comment c"
    using 2(3) write_comments_rest [of "n + 1" cs] by blast
  ultimately show ?case using 2(1,2,4) by (auto split: if_splits)
qed simp

section \<open>Writing the file\<close>

abbreviation ini_new :: "ini_file \<Rightarrow> bytes" where "ini_new ini \<equiv> mBackingFilePath ini @ asc ''.new''"
abbreviation ini_old :: "ini_file \<Rightarrow> bytes" where "ini_old ini \<equiv> mBackingFilePath ini @ asc ''.old''"

abbreviation ini_text :: "bool \<Rightarrow> ini_file \<Rightarrow> bytes" where
  "ini_text discardEmpty ini \<equiv> write_entries discardEmpty 0 (mComments ini) (mData ini)"

lemma suffix_neq [simp]:
  "asc ''.new'' \<noteq> []" "asc ''.old'' \<noteq> []" "asc ''.new'' \<noteq> asc ''.old''" "asc ''.old'' \<noteq> asc ''.new''"
  by (simp_all add: asc_def)

lemma writeCommon_ini:
  assumes "writeCommon env d ini files = (r, ini', files')"
  shows "ini' = (if mBackingFilePath ini = [] \<or> \<not> can_open env then ini else ini\<lparr>mDirty := False\<rparr>)"
  using assms
  by (auto simp: writeCommon_def writeCommonImpl_def Let_def split: if_splits prod.splits)

lemma writeCommon_success:
  assumes "writeCommon env d ini files = (Returned True, ini', files')"
  shows "files' (mBackingFilePath ini) = Some (disk env (ini_text d ini))"
    and "files' (ini_new ini) = None" and "files' (ini_old ini) = None" and "mBackingFilePath ini \<noteq> []"
  using assms
  by (auto simp: writeCommon_def writeCommonImpl_def move_file_def Let_def split: if_splits)

lemma writeCommon_failure:
  assumes "writeCommon env d ini files = (r, ini', files')" and "r \<noteq> Returned True"
    and "files (mBackingFilePath ini) = Some text"
  shows "files' (mBackingFilePath ini) = Some text \<or> files' (ini_old ini) = Some text"
  using assms
  by (auto simp: writeCommon_def writeCommonImpl_def move_file_def Let_def split: if_splits)

lemma writeCommon_frame:
  assumes "writeCommon env d ini files = (r, ini', files')"
    and "q \<notin> {mBackingFilePath ini, ini_new ini, ini_old ini}"
  shows "files' q = files q"
  using assms
  by (auto simp: writeCommon_def writeCommonImpl_def move_file_def Let_def split: if_splits)

lemma writeCommon_returns:
  assumes "mBackingFilePath ini \<noteq> []" and "can_open env" and "\<And>s. \<not> step_fails env s"
  shows "fst (writeCommon env d ini files) = Returned True"
  using assms by (simp add: writeCommon_def writeCommonImpl_def move_file_def Let_def)

lemma parse_lines_dirty: "mDirty (parse_lines b n ls ini) = mDirty ini"
  by (induction ls arbitrary: n ini) (auto split: ini_line.splits)


definition sample_ini :: ini_file where
  "sample_ini = \<lparr>mData = [(asc ''hw.gps'', asc ''yes''), (asc ''skin'', [])], mComments = [(2, asc ''# display'')],
                mBackingFilePath = asc ''c.ini'', mDirty = True\<rparr>"

definition sample_env :: "(write_step \<Rightarrow> bool) \<Rightarrow> write_env" where
  "sample_env f = \<lparr>can_open = True, disk = (\<lambda>text. text), step_fails = f\<rparr>"


text \<open>A write whose data was collected but could not be moved into place reports failure and still
  marks the table as unchanged, so that \<^verbatim>\<open>writeIfChanged\<close> afterwards reports success without writing
  anything.\<close>

theorem failed_write_forgets_changes:
  assumes "mBackingFilePath ini \<noteq> []" and "can_open env" and "step_fails env MoveNew"
    and "\<not> step_fails env RemoveOld" and "\<not> step_fails env RemoveNew"
  shows "\<exists>ini' files'. writeCommon env discardEmpty ini files = (Returned False, ini', files') \<and>
    mData ini' = mData ini \<and> writeIfChanged env' ini' files'' = (Returned True, ini', files'')"
  using assms
  by (auto simp: writeCommon_def writeCommonImpl_def writeIfChanged_def move_file_def Let_def)

lemma failed_write_forgets_changes_witness:
  "\<exists>ini' files'. writeCommon (sample_env (\<lambda>s. s = MoveNew)) False sample_ini (\<lambda>_. None) = (Returned False, ini', files') \<and>
    writeIfChanged (sample_env (\<lambda>_. False)) ini' (\<lambda>_. None) = (Returned True, ini', \<lambda>_. None)"
proof -
  have "mBackingFilePath sample_ini \<noteq> []" by (simp add: sample_ini_def asc_def)
  from failed_write_forgets_changes [OF this, of "sample_env (\<lambda>s. s = MoveNew)" False "\<lambda>_. None"
      "sample_env (\<lambda>_. False)" "\<lambda>_. None"]
  show ?thesis by (simp add: sample_env_def) blast
qed

section \<open>Round trips\<close>

text \<open>C11: Reading a file that was written from a table with well-formed entries gives back the entries,
  values included, in the same order, whatever comments are interleaved; \<^verbatim>\<open>writeDiscardingEmpty\<close>
  drops exactly the entries with an empty value.\<close>

theorem ini_write_read:
  assumes "valid_ini ini" and "disk env = (\<lambda>text. text)"
    and "writeCommon env discardEmpty ini files = (Returned True, ini', files')"
    and "length (write_entries discardEmpty 0 (mComments ini) (mData ini)) \<le> 655360"
  shows "\<exists>ini''. read_ini files' b ini' = (True, ini'') \<and>
    mData ini'' = (if discardEmpty then filter (\<lambda>(k, v). v \<noteq> []) (mData ini) else mData ini) \<and> \<not> mDirty ini''"
proof -
  have path: "mBackingFilePath ini' = mBackingFilePath ini" "mBackingFilePath ini \<noteq> []"
    using writeCommon_ini [OF assms(3)] writeCommon_success(4) [OF assms(3)] by auto
  have written: "files' (mBackingFilePath ini) = Some (ini_text discardEmpty ini)"
    using writeCommon_success(1) [OF assms(3)] assms(2) by simp
  have valid: "\<forall>(k, v) \<in> set (mData ini). valid_key k \<and> valid_value v"
    "\<forall>(n, c) \<in> set (mComments ini). valid_comment c" "distinct (map fst (mData ini))"
    using assms(1) by (auto simp: valid_ini_def)
  have "getlines (ini_text discardEmpty ini) = file_lines discardEmpty 0 (mComments ini) (mData ini)"
    using getlines_unlines file_lines_no_newline [OF valid(1,2)] by (simp add: write_entries_lines)
  then have "mData (parseStream b (ini_text discardEmpty ini) (clear_ini ini')) = kept discardEmpty (mData ini)"
    using parse_file_lines [OF valid(1,2), of "clear_ini ini'"] valid(3)
    by (simp add: parseStream_def clear_ini_def)
  then show ?thesis
    using path written assms(4)
    by (simp add: read_ini_def Let_def kept_def parseStream_def parse_lines_dirty) (simp add: clear_ini_def)
qed

lemma sample_ini_valid: "valid_ini sample_ini"
proof -
  have "valid_key (asc ''hw.gps'')" "valid_key (asc ''skin'')"
    by (simp_all add: valid_key_def isKeyChar_def isKeyStartChar_def asc_def)
  then show ?thesis
    by (simp add: valid_ini_def sample_ini_def valid_value_def valid_comment_def isValueChar_def isSpaceChar_def
        parse_line_simps asc_def)
qed

lemma ini_write_read_witness:
  "\<exists>ini''. read_ini (snd (snd (writeCommon (sample_env (\<lambda>_. False)) False sample_ini (\<lambda>_. None)))) True
      (sample_ini\<lparr>mDirty := False\<rparr>) = (True, ini'') \<and>
    mData ini'' = [(asc ''hw.gps'', asc ''yes''), (asc ''skin'', [])]"
proof -
  let ?w = "writeCommon (sample_env (\<lambda>_. False)) False sample_ini (\<lambda>_. None)"
  have "?w = (Returned True, sample_ini\<lparr>mDirty := False\<rparr>, snd (snd ?w))"
    by (simp add: writeCommon_def writeCommonImpl_def move_file_def sample_env_def sample_ini_def asc_def Let_def)
  from ini_write_read [OF sample_ini_valid _ this, of True] show ?thesis
    by (simp add: sample_env_def sample_ini_def asc_def) blast
qed

section \<open>Typed access\<close>

lemma map_of_updateData [simp]: "map_of (mData (updateData k v ini)) k = Some v"
  by (simp add: updateData_def update_conv')

lemma envSubst_plain: "0x25 \<notin> set v \<Longrightarrow> envSubst_loop env res None v = res @ v"
proof (induction v arbitrary: res)
  case (Cons c v)
  then show ?case by (cases v) simp_all
qed simp

lemma envSubst_escaped:
  "envSubst_loop env res None (concat (map (\<lambda>c. if c = 0x25 then [c, c] else [c]) v)) = res @ v"
proof (induction v arbitrary: res)
  case (Cons c v)
  let ?rest = "concat (map (\<lambda>c. if c = 0x25 then [c, c] else [c]) v)"
  show ?case
  proof (cases "c = 0x25")
    case True
    then show ?thesis using Cons.IH [of "res @ [c]"] by simp
  next
    case False
    then show ?thesis using Cons.IH [of "res @ [c]"] by (cases ?rest) simp_all
  qed
qed simp

lemma escaped_no_zero: "0 \<notin> set (makeValidValue v)"
  using set_takeWhileD [of 0 "\<lambda>c. c \<noteq> 0" v] by (auto simp: makeValidValue_def c_str_def split: if_splits)

lemma dec_int_plain: "0x25 \<notin> set (dec_int i)"
  using dec_digits_isdigit [of "0x25"] by (auto simp: dec_int_def asc_def isdigit_def)

lemma strtoll_printed:
  assumes "- (2 ^ 63) \<le> i" and "i < 2 ^ 63"
  shows "strtoll (c_str (dec_int i)) = (i, [], False)"
  using strtoll_dec_int [OF assms, of "[]"] by (simp add: c_str_id dec_int_no_zero)

lemma parseDiskSize_printed:
  assumes "i < 2 ^ 63" and "suffix \<in> {asc ''g'', asc ''m'', asc ''k'', []}"
  shows "parseDiskSize (dec_int (int i) @ suffix) =
    Some (of_nat i * (if suffix = asc ''g'' then 1024 * 1024 * 1024
                      else if suffix = asc ''m'' then 1024 * 1024 else if suffix = asc ''k'' then 1024 else 1))"
proof -
  have "0 \<notin> set (dec_int (int i) @ suffix)" using dec_int_no_zero assms(2) by (auto simp: asc_def)
  moreover have "suffix = [] \<or> \<not> isdigit (hd suffix)" using assms(2) by (auto simp: asc_def isdigit_def)
  moreover have "int i < 2 ^ 63" using assms(1) by (simp add: nat_less_iff)
  ultimately have "strtoll (c_str (dec_int (int i) @ suffix)) = (int i, suffix, False)"
    using strtoll_dec_int [of "int i" suffix] by (simp add: c_str_id)
  then show ?thesis using assms(2) by (auto simp: parseDiskSize_def Let_def c_head_def asc_def)
qed

lemma scaled_back:
  fixes v m :: u64
  assumes "m \<noteq> 0" and "v mod m = 0"
  shows "of_nat (unat (v div m)) * m = v"
  using assms div_mult_mod_eq [of v m] by simp

lemma getDiskSize_setDiskSize:
  assumes "0 \<notin> set key" and "unat v < 2 ^ 63"
  shows "getDiskSize env key d (setDiskSize key v ini) = v"
proof -
  define w where "w = (if v \<ge> 0x40000000 \<and> v mod 0x40000000 = 0 then (v div 0x40000000, asc ''g'')
             else if v \<ge> 0x100000 \<and> v mod 0x100000 = 0 then (v div 0x100000, asc ''m'')
             else if v \<ge> 0x400 \<and> v mod 0x400 = 0 then (v div 0x400, asc ''k'')
             else (v, []))"
  have set: "setDiskSize key v ini = updateData key (dec_int (int (unat (fst w))) @ snd w) ini"
    by (simp add: setDiskSize_def w_def Let_def)
  have has: "hasKey key (setDiskSize key v ini)"
    using assms(1) by (simp add: hasKey_def set c_str_id)
  have "unat (v div x) \<le> unat v" for x by (simp add: unat_div_distrib)
  then have bound: "unat (fst w) < 2 ^ 63" using assms(2) by (auto simp: w_def intro: le_less_trans)
  have suffix: "snd w \<in> {asc ''g'', asc ''m'', asc ''k'', []}" by (auto simp: w_def)
  have "0x25 \<notin> set (dec_int (int (unat (fst w))) @ snd w)"
    using dec_int_plain suffix by (auto simp: asc_def)
  then have "ini_getString env key [] (setDiskSize key v ini) = dec_int (int (unat (fst w))) @ snd w"
    by (simp add: ini_getString_def set envSubst_def envSubst_plain)
  moreover have "parseDiskSize (dec_int (int (unat (fst w))) @ snd w) = Some v"
    using parseDiskSize_printed [OF bound suffix] scaled_back [of "0x40000000" v] scaled_back [of "0x100000" v]
      scaled_back [of "0x400" v]
    by (auto simp: w_def asc_def split: if_splits)
  ultimately show ?thesis using has by (simp add: getDiskSize_def)
qed

text \<open>What is stored under a key is read back, for every type: text that went through
  \<^verbatim>\<open>makeValidValue\<close> whatever the environment holds, 32 and 64 bit integers, booleans, and disk sizes
  below the largest signed 64 bit integer in spite of their unit suffix.\<close>

theorem ini_typed_roundtrip:
  assumes "0 \<notin> set key"
  shows "(0 \<notin> set v \<longrightarrow> ini_getString env key d (setString key (makeValidValue v) ini) = v) \<and>
    (getInt env key d1 (setInt key i ini) = i) \<and>
    (getInt64 env key d2 (setInt64 key j ini) = j) \<and>
    (getBool env key d3 (setBool key b ini) = b) \<and>
    (unat w < 2 ^ 63 \<longrightarrow> getDiskSize env key d4 (setDiskSize key w ini) = w)"
proof (intro conjI)
  show "0 \<notin> set v \<longrightarrow> ini_getString env key d (setString key (makeValidValue v) ini) = v"
    using envSubst_escaped [of env "[]" v]
    by (simp add: ini_getString_def setString_def c_str_id escaped_no_zero envSubst_def makeValidValue_def)
  have "- (2 ^ 63) \<le> sint i" "sint i < 2 ^ 63" using sint_range_size [of i] by (auto simp: word_size)
  then show "getInt env key d1 (setInt key i ini) = i"
    by (simp add: getInt_def setInt_def ini_getString_def envSubst_def envSubst_plain dec_int_plain strtoll_printed)
  have "- (2 ^ 63) \<le> sint j" "sint j < 2 ^ 63" using sint_range_size [of j] by (auto simp: word_size)
  then show "getInt64 env key d2 (setInt64 key j ini) = j"
    by (simp add: getInt64_def setInt64_def ini_getString_def envSubst_def envSubst_plain dec_int_plain strtoll_printed)
  show "getBool env key d3 (setBool key b ini) = b"
    by (cases b) (simp_all add: getBool_def setBool_def ini_getString_def envSubst_def envSubst_plain asc_def
        isBoolTrue_def isBoolFalse_def tolower_def c_head_def)
  show "unat w < 2 ^ 63 \<longrightarrow> getDiskSize env key d4 (setDiskSize key w ini) = w"
    by (simp add: getDiskSize_setDiskSize assms)
qed

lemma ini_typed_roundtrip_witness:
  "ini_getString (\<lambda>_. asc ''x'') (asc ''k'') [] (setString (asc ''k'') (makeValidValue (asc ''100%%HOME%'')) sample_ini) =
     asc ''100%%HOME%''"
  using ini_typed_roundtrip [of "asc ''k''" "asc ''100%%HOME%''" "\<lambda>_. asc ''x''" "[]" sample_ini, THEN conjunct1]
  by (simp add: asc_def)

text \<open>A boolean key with an empty value reads as true whatever the default, and so does every
  shortened form of a word for true, because the comparison stops at the length of the value.\<close>

theorem empty_bool_is_true:
  assumes "map_of (mData ini) key = Some val" and "val \<in> {[], asc ''y'', asc ''T'', asc ''tRu''}"
  shows "getBool env key defaultValue ini"
  using assms
  by (auto simp: getBool_def ini_getString_def envSubst_def envSubst_plain asc_def isBoolTrue_def tolower_def c_head_def Let_def)

lemma empty_bool_is_true_witness: "getBool (\<lambda>_. []) (asc ''skin'') False sample_ini"
  by (rule empty_bool_is_true [of _ _ "[]"]) (simp_all add: sample_ini_def asc_def)

text \<open>A comment below the last entry is not written back.\<close>

lemma trailing_comment_lost:
  "n > int (length es) + m \<Longrightarrow> write_entries d m [(n, c)] es = write_entries d m [] es"
  by (induction es arbitrary: m) auto

end
