(* ===== verification/Authorization.thy ===== *)
theory Authorization
  imports Prelude
begin

text \<open>
  Who may call which method of the emulator's gRPC services
  (\<^verbatim>\<open>android-grpc/security\<close>): the allow list with its caches, and the validators of the tokens that
  come with a call.  Regular expressions, random numbers and the verification of a JSON web token
  come from libraries: \<open>full_match\<close>, \<open>victim\<close> and \<open>verify\<close> are arguments of the definitions that use
  them.
\<close>

section \<open>The allow list\<close>

datatype allow_group = GroupNone | Green | Yellow

record 'r caching_allow_list =
  mSecurityMap :: "allow_group \<Rightarrow> bytes \<Rightarrow> 'r list option"
  mRejectionCache :: "allow_group \<Rightarrow> bytes \<Rightarrow> bytes list"
  mAcceptCache :: "allow_group \<Rightarrow> bytes \<Rightarrow> bytes list"

abbreviation UNPROTECTED :: bytes where "UNPROTECTED \<equiv> asc ''__everyone__''"
abbreviation (input) MAX_URI_CACHE :: nat where "MAX_URI_CACHE \<equiv> 256"

definition new_allow_list :: "(allow_group \<Rightarrow> bytes \<Rightarrow> 'r list option) \<Rightarrow> 'r caching_allow_list" where
  "new_allow_list security =
     \<lparr>mSecurityMap = security, mRejectionCache = (\<lambda>_ _. []), mAcceptCache = (\<lambda>_ _. [])\<rparr>"

text \<open>A set of the cache is a list without duplicates; \<open>victim\<close> is what \<^verbatim>\<open>rand()\<close> returns.\<close>

definition insert_cache ::
  "nat \<Rightarrow> allow_group \<Rightarrow> bytes \<Rightarrow> bytes \<Rightarrow> (allow_group \<Rightarrow> bytes \<Rightarrow> bytes list) \<Rightarrow> allow_group \<Rightarrow> bytes \<Rightarrow> bytes list" where
  "insert_cache victim color iss path cache =
     (let entries = cache color iss;
          room = (if length entries \<ge> MAX_URI_CACHE
                  then (let i = victim mod length entries in take i entries @ drop (Suc i) entries) else entries)
      in cache(color := (cache color)(iss := List.insert path room)))"

definition isAllowed_group ::
  "('r \<Rightarrow> bytes \<Rightarrow> bool) \<Rightarrow> nat \<Rightarrow> allow_group \<Rightarrow> bytes \<Rightarrow> bytes \<Rightarrow> 'r caching_allow_list \<Rightarrow> bool \<times> 'r caching_allow_list" where
  "isAllowed_group full_match victim color sub path l =
     (case mSecurityMap l color sub of
        None \<Rightarrow> (False, l)
      | Some access \<Rightarrow>
          if path \<in> set (mRejectionCache l color sub) then (False, l)
          else if path \<in> set (mAcceptCache l color sub) then (True, l)
          else if \<exists>re \<in> set access. full_match re path
          then (True, l\<lparr>mAcceptCache := insert_cache victim color sub path (mAcceptCache l)\<rparr>)
          else (False, l\<lparr>mRejectionCache := insert_cache victim color sub path (mRejectionCache l)\<rparr>))"

text \<open>The interface of an allow list, with its state passed on.\<close>

record 's allow_ops =
  requiresAuthentication :: "bytes \<Rightarrow> 's \<Rightarrow> bool \<times> 's"
  isAllowed :: "bytes \<Rightarrow> bytes \<Rightarrow> 's \<Rightarrow> bool \<times> 's"
  isProtected :: "bytes \<Rightarrow> bytes \<Rightarrow> 's \<Rightarrow> bool \<times> 's"

definition CachingAllowList :: "('r \<Rightarrow> bytes \<Rightarrow> bool) \<Rightarrow> nat \<Rightarrow> 'r caching_allow_list allow_ops" where
  "CachingAllowList full_match victim =
     \<lparr>requiresAuthentication =
        (\<lambda>path l. case isAllowed_group full_match victim GroupNone UNPROTECTED path l of (b, l') \<Rightarrow> (\<not> b, l')),
      isAllowed = isAllowed_group full_match victim Green,
      isProtected = isAllowed_group full_match victim Yellow\<rparr>"

definition DisableAccess :: "'s allow_ops" where
  "DisableAccess =
     \<lparr>requiresAuthentication = (\<lambda>path s. (True, s)), isAllowed = (\<lambda>sub path s. (False, s)),
      isProtected = (\<lambda>sub path s. (False, s))\<rparr>"

definition isRed :: "'s allow_ops \<Rightarrow> bytes \<Rightarrow> bytes \<Rightarrow> 's \<Rightarrow> bool \<times> 's" where
  "isRed L sub path s =
     (case isAllowed L sub path s of
        (True, s1) \<Rightarrow> (False, s1)
      | (False, s1) \<Rightarrow> (case isProtected L sub path s1 of (b, s2) \<Rightarrow> (\<not> b, s2)))"

section \<open>Reading the allow list\<close>

text \<open>
  The members of the JSON object the reader looks at; a missing member is \<^const>\<open>None\<close>.  \<open>compile\<close> is the
  regular expression compiler, which refuses a malformed expression.
\<close>

record allow_json_entry =
  json_iss :: "bytes option"
  json_allowed :: "bytes list option"
  json_protected :: "bytes list option"

record allow_json =
  json_unprotected :: "bytes list option"
  json_allowlist :: "allow_json_entry list option"

fun parseAccessList :: "(bytes \<Rightarrow> 'r option) \<Rightarrow> bytes list \<Rightarrow> 'r list" where
  "parseAccessList compile [] = []"
| "parseAccessList compile (expr # exprs) =
     (case compile expr of
        None \<Rightarrow> parseAccessList compile exprs
      | Some re \<Rightarrow> re # parseAccessList compile exprs)"

type_synonym 'r security_map = "allow_group \<Rightarrow> bytes \<Rightarrow> 'r list option"

definition set_access :: "allow_group \<Rightarrow> bytes \<Rightarrow> 'r list \<Rightarrow> 'r security_map \<Rightarrow> 'r security_map" where
  "set_access color iss access security = security(color := (security color)(iss \<mapsto> access))"

definition parse_entry :: "(bytes \<Rightarrow> 'r option) \<Rightarrow> allow_json_entry \<Rightarrow> 'r security_map \<Rightarrow> 'r security_map" where
  "parse_entry compile entry secure =
     (case json_iss entry of
        None \<Rightarrow> secure
      | Some iss \<Rightarrow>
          if json_allowed entry = None \<and> json_protected entry = None then secure
          else if iss = UNPROTECTED then secure
          else
            (let secure1 = (case json_allowed entry of None \<Rightarrow> secure
                            | Some es \<Rightarrow> set_access Green iss (parseAccessList compile es) secure)
             in case json_protected entry of None \<Rightarrow> secure1
                | Some es \<Rightarrow> set_access Yellow iss (parseAccessList compile es) secure1))"

text \<open>\<^const>\<open>None\<close> is malformed JSON, which gives a list without any access.\<close>

definition parseJsonObject :: "(bytes \<Rightarrow> 'r option) \<Rightarrow> allow_json option \<Rightarrow> 'r security_map option" where
  "parseJsonObject compile json =
     map_option
       (\<lambda>j. fold (parse_entry compile) (case json_allowlist j of None \<Rightarrow> [] | Some es \<Rightarrow> es)
              (case json_unprotected j of
                 None \<Rightarrow> (\<lambda>_ _. None)
               | Some es \<Rightarrow> set_access GroupNone UNPROTECTED (parseAccessList compile es) (\<lambda>_ _. None)))
       json"

section \<open>Tokens\<close>

datatype auth_status =
    AuthOK | NoPath | MissingHeader | NoValidatorForToken | InvalidToken | NotOnAllowList
  | TinkError | InvalidHeader | NoKeySet | BadToken | MissingIss | MissingAud | MissingClaim | NoValidator

text \<open>The gRPC code of a status; what the token library reports is passed on as it is.\<close>

datatype status_code = OK | INTERNAL | UNAUTHENTICATED | PERMISSION_DENIED | LIBRARY_STATUS

definition grpc_code :: "auth_status \<Rightarrow> status_code" where
  "grpc_code r =
     (case r of
        AuthOK \<Rightarrow> OK
      | NoPath \<Rightarrow> INTERNAL | NoValidator \<Rightarrow> INTERNAL
      | MissingHeader \<Rightarrow> UNAUTHENTICATED | NoValidatorForToken \<Rightarrow> UNAUTHENTICATED
      | InvalidToken \<Rightarrow> UNAUTHENTICATED | InvalidHeader \<Rightarrow> UNAUTHENTICATED
      | NoKeySet \<Rightarrow> UNAUTHENTICATED | MissingIss \<Rightarrow> UNAUTHENTICATED
      | NotOnAllowList \<Rightarrow> PERMISSION_DENIED | MissingAud \<Rightarrow> PERMISSION_DENIED
      | MissingClaim \<Rightarrow> PERMISSION_DENIED
      | TinkError \<Rightarrow> LIBRARY_STATUS | BadToken \<Rightarrow> LIBRARY_STATUS)"

record jwt =
  jwt_iss :: "bytes option"
  jwt_aud :: "bytes list option"

datatype 'k validator =
    StaticTokenAuth (static_token: bytes) (static_issuer: bytes)
  | JwtTokenAuth (tink_initialized: bool) (active_keyset: "'k option")

abbreviation DEFAULT_BEARER :: bytes where "DEFAULT_BEARER \<equiv> asc ''Bearer ''"

definition new_static_token :: "bytes \<Rightarrow> bytes \<Rightarrow> 'k validator" where
  "new_static_token token iss = StaticTokenAuth (DEFAULT_BEARER @ token) iss"

text \<open>A key set is replaced only once the library is initialised.\<close>

definition updateKeysetHandle :: "'k option \<Rightarrow> 'k validator \<Rightarrow> 'k validator" where
  "updateKeysetHandle incoming v =
     (case v of
        StaticTokenAuth t i \<Rightarrow> StaticTokenAuth t i
      | JwtTokenAuth ok active \<Rightarrow> JwtTokenAuth ok (if ok then incoming else active))"

definition StaticTokenAuth_canHandleToken :: "bytes \<Rightarrow> bytes \<Rightarrow> bool" where
  "StaticTokenAuth_canHandleToken mStaticToken token \<longleftrightarrow> token = mStaticToken"

definition JwtTokenAuth_canHandleToken :: "bytes \<Rightarrow> bool" where
  "JwtTokenAuth_canHandleToken token \<longleftrightarrow>
     (if length token \<le> length DEFAULT_BEARER then False
      else length (filter (\<lambda>c. c = 0x2E) token) = 2)"

definition canHandleToken :: "bytes \<Rightarrow> 'k validator \<Rightarrow> bool" where
  "canHandleToken token v =
     (case v of
        StaticTokenAuth mStaticToken _ \<Rightarrow> StaticTokenAuth_canHandleToken mStaticToken token
      | JwtTokenAuth _ _ \<Rightarrow> JwtTokenAuth_canHandleToken token)"

definition StaticTokenAuth_isTokenValid ::
  "'s allow_ops \<Rightarrow> bytes \<Rightarrow> bytes \<Rightarrow> bytes \<Rightarrow> bytes \<Rightarrow> 's \<Rightarrow> auth_status \<times> 's" where
  "StaticTokenAuth_isTokenValid L mStaticToken mIssuer path token s =
     (if \<not> StaticTokenAuth_canHandleToken mStaticToken token then (InvalidToken, s)
      else (case isRed L mIssuer path s of (True, s1) \<Rightarrow> (NotOnAllowList, s1) | (False, s1) \<Rightarrow> (AuthOK, s1)))"

text \<open>
  \<open>verify\<close> is the verification of a token with a key set; \<^const>\<open>None\<close> when the key set cannot verify or
  the token is not signed by it.
\<close>

definition JwtTokenAuth_isTokenValid ::
  "('k \<Rightarrow> bytes \<Rightarrow> jwt option) \<Rightarrow> 's allow_ops \<Rightarrow> bool \<Rightarrow> 'k option \<Rightarrow> bytes \<Rightarrow> bytes \<Rightarrow> 's \<Rightarrow> auth_status \<times> 's" where
  "JwtTokenAuth_isTokenValid verify L initialized mActiveKeyset path token s =
     (if \<not> initialized then (TinkError, s)
      else if length token \<le> length DEFAULT_BEARER then (InvalidHeader, s)
      else
        (case mActiveKeyset of
           None \<Rightarrow> (NoKeySet, s)
         | Some keys \<Rightarrow>
             (case verify keys (drop (length DEFAULT_BEARER) token) of
                None \<Rightarrow> (BadToken, s)
              | Some jwt \<Rightarrow>
                  (case jwt_iss jwt of
                     None \<Rightarrow> (MissingIss, s)
                   | Some iss \<Rightarrow>
                       (case isAllowed L iss path s of
                          (True, s1) \<Rightarrow> (AuthOK, s1)
                        | (False, s1) \<Rightarrow>
                            (case isRed L iss path s1 of
                               (True, s2) \<Rightarrow> (NotOnAllowList, s2)
                             | (False, s2) \<Rightarrow>
                                 (case jwt_aud jwt of
                                    None \<Rightarrow> (MissingAud, s2)
                                  | Some auds \<Rightarrow> (if path \<in> set auds then AuthOK else MissingClaim, s2))))))))"

definition isTokenValid ::
  "('k \<Rightarrow> bytes \<Rightarrow> jwt option) \<Rightarrow> 's allow_ops \<Rightarrow> bytes \<Rightarrow> bytes \<Rightarrow> 'k validator \<Rightarrow> 's \<Rightarrow> auth_status \<times> 's" where
  "isTokenValid verify L path token v s =
     (case v of
        StaticTokenAuth mStaticToken mIssuer \<Rightarrow> StaticTokenAuth_isTokenValid L mStaticToken mIssuer path token s
      | JwtTokenAuth initialized mActiveKeyset \<Rightarrow>
          JwtTokenAuth_isTokenValid verify L initialized mActiveKeyset path token s)"

definition AnyTokenAuth_canHandleToken :: "bytes \<Rightarrow> 'k validator list \<Rightarrow> bool" where
  "AnyTokenAuth_canHandleToken token vs \<longleftrightarrow> vs = [] \<or> (\<exists>v \<in> set vs. canHandleToken token v)"

definition AnyTokenAuth_isTokenValid ::
  "('k \<Rightarrow> bytes \<Rightarrow> jwt option) \<Rightarrow> 's allow_ops \<Rightarrow> bytes \<Rightarrow> bytes \<Rightarrow> 'k validator list \<Rightarrow> 's \<Rightarrow> auth_status \<times> 's" where
  "AnyTokenAuth_isTokenValid verify L path token vs s =
     (if vs = [] then (AuthOK, s)
      else
        (case List.find (canHandleToken token) vs of
           Some v \<Rightarrow> isTokenValid verify L path token v s
         | None \<Rightarrow> (NoValidator, s)))"

text \<open>
  \<^verbatim>\<open>BasicTokenAuth::Process\<close> of the processor the server installs: it asks any of its validators, which
  share its allow list.  \<open>metadata\<close> gives the first value of a header.
\<close>

definition Process ::
  "('k \<Rightarrow> bytes \<Rightarrow> jwt option) \<Rightarrow> 's allow_ops \<Rightarrow> bytes \<Rightarrow> 'k validator list \<Rightarrow> (bytes \<Rightarrow> bytes option) \<Rightarrow> 's \<Rightarrow> auth_status \<times> 's" where
  "Process verify L mHeader vs metadata s =
     (case metadata (asc '':path'') of
        None \<Rightarrow> (NoPath, s)
      | Some uri \<Rightarrow>
          (case requiresAuthentication L uri s of
             (False, s1) \<Rightarrow> (AuthOK, s1)
           | (True, s1) \<Rightarrow>
               (case metadata mHeader of
                  None \<Rightarrow> (MissingHeader, s1)
                | Some token \<Rightarrow>
                    if \<not> AnyTokenAuth_canHandleToken token vs then (NoValidatorForToken, s1)
                    else AnyTokenAuth_isTokenValid verify L uri token vs s1)))"

section \<open>What a policy grants\<close>

text \<open>The rules without states and caches: \<open>policy\<close> says which subject is in which group for a path.\<close>

definition token_grants ::
  "(allow_group \<Rightarrow> bytes \<Rightarrow> bytes \<Rightarrow> bool) \<Rightarrow> ('k \<Rightarrow> bytes \<Rightarrow> jwt option) \<Rightarrow> bytes \<Rightarrow> bytes \<Rightarrow> 'k validator \<Rightarrow> bool" where
  "token_grants policy verify path token v \<longleftrightarrow>
     (case v of
        StaticTokenAuth t iss \<Rightarrow> token = t \<and> (policy Green iss path \<or> policy Yellow iss path)
      | JwtTokenAuth initialized keyset \<Rightarrow>
          initialized \<and> length token > 7 \<and>
          (\<exists>keys jwt iss. keyset = Some keys \<and> verify keys (drop 7 token) = Some jwt \<and> jwt_iss jwt = Some iss \<and>
             (policy Green iss path \<or>
              policy Yellow iss path \<and> (\<exists>auds. jwt_aud jwt = Some auds \<and> path \<in> set auds))))"

definition call_granted ::
  "(allow_group \<Rightarrow> bytes \<Rightarrow> bytes \<Rightarrow> bool) \<Rightarrow> ('k \<Rightarrow> bytes \<Rightarrow> jwt option) \<Rightarrow> bytes \<Rightarrow> 'k validator list \<Rightarrow>
   (bytes \<Rightarrow> bytes option) \<Rightarrow> bool" where
  "call_granted policy verify mHeader vs metadata \<longleftrightarrow>
     (\<exists>uri. metadata (asc '':path'') = Some uri \<and>
        (policy GroupNone UNPROTECTED uri \<or>
         (\<exists>token. metadata mHeader = Some token \<and>
            (vs = [] \<or>
             (\<exists>v. List.find (canHandleToken token) vs = Some v \<and> token_grants policy verify uri token v)))))"

lemma grpc_code_OK: "grpc_code r = OK \<longleftrightarrow> r = AuthOK"
  by (cases r) (simp_all add: grpc_code_def)

lemma length_bearer: "length DEFAULT_BEARER = 7"
  by simp

lemmas isTokenValid_bearer = isTokenValid_def JwtTokenAuth_isTokenValid_def [unfolded length_bearer]

text \<open>An allow list that answers by a policy whatever its state.\<close>

locale access_policy =
  fixes L :: "'s allow_ops"
    and inv :: "'s \<Rightarrow> bool"
    and policy :: "allow_group \<Rightarrow> bytes \<Rightarrow> bytes \<Rightarrow> bool"
  assumes requires_law: "inv s \<Longrightarrow> \<exists>s'. requiresAuthentication L path s = (\<not> policy GroupNone UNPROTECTED path, s') \<and> inv s'"
    and allowed_law: "inv s \<Longrightarrow> \<exists>s'. isAllowed L sub path s = (policy Green sub path, s') \<and> inv s'"
    and protected_law: "inv s \<Longrightarrow> \<exists>s'. isProtected L sub path s = (policy Yellow sub path, s') \<and> inv s'"
begin

lemma red_law:
  assumes "inv s"
  shows "\<exists>s'. isRed L sub path s = (\<not> policy Green sub path \<and> \<not> policy Yellow sub path, s') \<and> inv s'"
proof -
  obtain s1 where s1: "isAllowed L sub path s = (policy Green sub path, s1)" "inv s1"
    using allowed_law [OF assms] by blast
  obtain s2 where "isProtected L sub path s1 = (policy Yellow sub path, s2)" "inv s2"
    using protected_law [OF s1(2)] by blast
  with s1 show ?thesis by (simp add: isRed_def split: bool.splits)
qed

lemma static_token_law:
  assumes "inv s"
  shows "\<exists>s' r. isTokenValid verify L path token (StaticTokenAuth t iss) s = (r, s') \<and> inv s' \<and>
    (r = AuthOK \<longleftrightarrow> token_grants policy verify path token (StaticTokenAuth t iss))"
proof -
  obtain s' where "isRed L iss path s = (\<not> policy Green iss path \<and> \<not> policy Yellow iss path, s')" "inv s'"
    using red_law [OF assms] by blast
  then show ?thesis
    using assms by (auto simp: isTokenValid_def StaticTokenAuth_isTokenValid_def StaticTokenAuth_canHandleToken_def
        token_grants_def split: bool.splits)
qed

lemma jwt_token_law:
  assumes "inv s"
  shows "\<exists>s' r. isTokenValid verify L path token (JwtTokenAuth ok ks) s = (r, s') \<and> inv s' \<and>
    (r = AuthOK \<longleftrightarrow> token_grants policy verify path token (JwtTokenAuth ok ks))"
proof (cases "ok \<and> length token > 7 \<and>
    (\<exists>keys jwt iss. ks = Some keys \<and> verify keys (drop 7 token) = Some jwt \<and> jwt_iss jwt = Some iss)")
  case True
  then obtain keys jwt iss where k: "ks = Some keys" "verify keys (drop 7 token) = Some jwt" "jwt_iss jwt = Some iss"
    by blast
  obtain s1 where s1: "isAllowed L iss path s = (policy Green iss path, s1)" "inv s1"
    using allowed_law [OF assms] by blast
  obtain s2 where s2: "isRed L iss path s1 = (\<not> policy Green iss path \<and> \<not> policy Yellow iss path, s2)" "inv s2"
    using red_law [OF s1(2)] by blast
  show ?thesis
    using True k s1 s2 by (auto simp: isTokenValid_bearer token_grants_def split: bool.splits option.splits)
next
  case False
  then show ?thesis
    using assms by (auto simp: isTokenValid_bearer token_grants_def split: option.splits)
qed

lemma token_valid_law:
  assumes "inv s"
  shows "\<exists>s' r. isTokenValid verify L path token v s = (r, s') \<and> inv s' \<and>
    (r = AuthOK \<longleftrightarrow> token_grants policy verify path token v)"
  using static_token_law [OF assms] jwt_token_law [OF assms] by (cases v) simp_all

lemma process_law:
  assumes "inv s"
  shows "\<exists>s' r. Process verify L mHeader vs metadata s = (r, s') \<and> inv s' \<and>
    (r = AuthOK \<longleftrightarrow> call_granted policy verify mHeader vs metadata)"
proof (cases "metadata (asc '':path'')")
  case None
  then show ?thesis using assms by (simp add: Process_def call_granted_def)
next
  case (Some uri)
  obtain s1 where s1: "requiresAuthentication L uri s = (\<not> policy GroupNone UNPROTECTED uri, s1)" "inv s1"
    using requires_law [OF assms] by blast
  show ?thesis
  proof (cases "policy GroupNone UNPROTECTED uri \<or> metadata mHeader = None")
    case True
    then show ?thesis using Some s1 by (auto simp: Process_def call_granted_def split: bool.splits)
  next
    case False
    then obtain token where token: "metadata mHeader = Some token" by auto
    show ?thesis
    proof (cases "List.find (canHandleToken token) vs")
      case None
      then have "AnyTokenAuth_canHandleToken token vs \<longleftrightarrow> vs = []"
        by (auto simp: AnyTokenAuth_canHandleToken_def find_None_iff)
      then show ?thesis
        using None Some False s1 token
        by (auto simp: Process_def call_granted_def AnyTokenAuth_isTokenValid_def)
    next
      case (Some v)
      then have "vs \<noteq> []" "AnyTokenAuth_canHandleToken token vs"
        by (auto simp: AnyTokenAuth_canHandleToken_def find_Some_iff)
      then show ?thesis
        using Some \<open>metadata (asc '':path'') = Some uri\<close> False s1 token
          token_valid_law [OF s1(2), where verify = verify and path = uri and token = token and v = v]
        by (auto simp: Process_def call_granted_def AnyTokenAuth_isTokenValid_def)
    qed
  qed
qed

end

interpretation no_access: access_policy DisableAccess "\<lambda>_. True" "\<lambda>_ _ _. False"
  by unfold_locales (simp_all add: DisableAccess_def)

section \<open>The caches are exact\<close>

definition list_policy :: "('r \<Rightarrow> bytes \<Rightarrow> bool) \<Rightarrow> 'r security_map \<Rightarrow> allow_group \<Rightarrow> bytes \<Rightarrow> bytes \<Rightarrow> bool" where
  "list_policy full_match security color sub path \<longleftrightarrow>
     (\<exists>access. security color sub = Some access \<and> (\<exists>re \<in> set access. full_match re path))"

definition cache_ok :: "('r \<Rightarrow> bytes \<Rightarrow> bool) \<Rightarrow> 'r security_map \<Rightarrow> 'r caching_allow_list \<Rightarrow> bool" where
  "cache_ok full_match security l \<longleftrightarrow>
     mSecurityMap l = security \<and>
     (\<forall>color sub.
        (\<forall>path \<in> set (mAcceptCache l color sub). list_policy full_match security color sub path) \<and>
        (\<forall>path \<in> set (mRejectionCache l color sub). \<not> list_policy full_match security color sub path) \<and>
        length (mAcceptCache l color sub) \<le> MAX_URI_CACHE \<and> length (mRejectionCache l color sub) \<le> MAX_URI_CACHE)"

lemma cache_ok_new [inv_intros]: "cache_ok full_match security (new_allow_list security)"
  by (simp add: cache_ok_def new_allow_list_def)

lemma insert_cache_entry:
  assumes "length (cache color iss) \<le> MAX_URI_CACHE"
  shows "set (insert_cache victim color iss path cache color iss) \<subseteq> insert path (set (cache color iss))"
    and "length (insert_cache victim color iss path cache color iss) \<le> MAX_URI_CACHE"
    and "path \<in> set (insert_cache victim color iss path cache color iss)"
proof -
  let ?es = "cache color iss" and ?i = "victim mod length (cache color iss)"
  let ?room = "if length ?es \<ge> MAX_URI_CACHE then take ?i ?es @ drop (Suc ?i) ?es else ?es"
  have eq: "insert_cache victim color iss path cache color iss = List.insert path ?room"
    by (simp add: insert_cache_def Let_def)
  have sub: "set ?room \<subseteq> set ?es" using set_take_subset [of ?i ?es] set_drop_subset [of "Suc ?i" ?es] by auto
  have len: "length ?room < MAX_URI_CACHE"
  proof (cases "length ?es \<ge> MAX_URI_CACHE")
    case True
    then have "?es \<noteq> []" by auto
    then have "?i < length ?es" by simp
    then show ?thesis using True assms by simp
  qed simp
  show "set (insert_cache victim color iss path cache color iss) \<subseteq> insert path (set ?es)"
    and "path \<in> set (insert_cache victim color iss path cache color iss)"
    using sub by (auto simp: eq)
  show "length (insert_cache victim color iss path cache color iss) \<le> MAX_URI_CACHE"
    using len by (simp add: eq List.insert_def)
qed

lemma insert_cache_other:
  "color' \<noteq> color \<or> iss' \<noteq> iss \<Longrightarrow> insert_cache victim color iss path cache color' iss' = cache color' iss'"
  by (auto simp: insert_cache_def Let_def)

lemma insert_cache_keeps:
  assumes "\<And>c i. (\<forall>x \<in> set (cache c i). Q c i x) \<and> length (cache c i) \<le> MAX_URI_CACHE" and "Q color iss path"
  shows "(\<forall>x \<in> set (insert_cache victim color iss path cache c i). Q c i x) \<and>
    length (insert_cache victim color iss path cache c i) \<le> MAX_URI_CACHE"
proof (cases "c = color \<and> i = iss")
  case True
  then show ?thesis
    using insert_cache_entry(1,2) [of cache color iss victim path] assms(1) [of color iss] assms(2) by blast
next
  case False
  then show ?thesis using assms(1) [of c i] insert_cache_other [of c color i iss] by simp
qed

lemma isAllowed_group_law:
  assumes "cache_ok full_match security l"
  shows "\<exists>l'. isAllowed_group full_match victim color sub path l = (list_policy full_match security color sub path, l') \<and>
    cache_ok full_match security l'"
proof (cases "mSecurityMap l color sub")
  case None
  then show ?thesis using assms by (auto simp: isAllowed_group_def list_policy_def cache_ok_def)
next
  case (Some access)
  let ?p = "list_policy full_match security color sub path"
  have sec: "mSecurityMap l = security"
    and acc: "\<forall>x \<in> set (mAcceptCache l c s). list_policy full_match security c s x"
    and rej: "\<forall>x \<in> set (mRejectionCache l c s). \<not> list_policy full_match security c s x"
    and len: "length (mAcceptCache l c s) \<le> MAX_URI_CACHE" "length (mRejectionCache l c s) \<le> MAX_URI_CACHE" for c s
    using assms by (auto simp: cache_ok_def)
  have p: "?p \<longleftrightarrow> (\<exists>re \<in> set access. full_match re path)" using Some sec by (simp add: list_policy_def)
  have ins_acc: "cache_ok full_match security (l\<lparr>mAcceptCache := insert_cache victim color sub path (mAcceptCache l)\<rparr>)" if ?p
    using insert_cache_keeps [where cache = "mAcceptCache l" and Q = "list_policy full_match security"] acc rej len that sec
    by (simp add: cache_ok_def)
  have ins_rej: "cache_ok full_match security (l\<lparr>mRejectionCache := insert_cache victim color sub path (mRejectionCache l)\<rparr>)" if "\<not> ?p"
    using insert_cache_keeps [where cache = "mRejectionCache l" and Q = "\<lambda>c i x. \<not> list_policy full_match security c i x"]
      acc rej len that sec
    by (simp add: cache_ok_def)
  show ?thesis
    using Some p acc rej ins_acc ins_rej assms by (auto simp: isAllowed_group_def)
qed

interpretation caching: access_policy "CachingAllowList full_match victim" "cache_ok full_match security"
  "list_policy full_match security" for full_match victim security
proof
  fix s path
  assume "cache_ok full_match security s"
  then show "\<exists>s'. requiresAuthentication (CachingAllowList full_match victim) path s =
      (\<not> list_policy full_match security GroupNone UNPROTECTED path, s') \<and> cache_ok full_match security s'"
    using isAllowed_group_law [of full_match security s victim GroupNone UNPROTECTED path]
    by (auto simp: CachingAllowList_def)
qed (simp_all add: CachingAllowList_def isAllowed_group_law)

section \<open>The policy of a file\<close>

lemma set_parseAccessList: "re \<in> set (parseAccessList compile es) \<longleftrightarrow> (\<exists>e \<in> set es. compile e = Some re)"
  by (induction es) (auto split: option.splits)

text \<open>The expressions an entry has for a group.\<close>

definition entry_exprs :: "allow_group \<Rightarrow> allow_json_entry \<Rightarrow> bytes list option" where
  "entry_exprs color entry =
     (case color of GroupNone \<Rightarrow> None | Green \<Rightarrow> json_allowed entry | Yellow \<Rightarrow> json_protected entry)"

lemma parse_entry_at:
  "parse_entry compile entry secure color sub =
     (if json_iss entry = Some sub \<and> sub \<noteq> UNPROTECTED \<and> entry_exprs color entry \<noteq> None
      then Some (parseAccessList compile (the (entry_exprs color entry))) else secure color sub)"
  by (cases color) (auto simp: parse_entry_def set_access_def entry_exprs_def Let_def split: option.splits)

lemma fold_parse_entry:
  assumes "fold (parse_entry compile) entries secure color sub = Some access"
  shows "secure color sub = Some access \<or>
    (sub \<noteq> UNPROTECTED \<and> (\<exists>entry \<in> set entries. \<exists>es. json_iss entry = Some sub \<and> entry_exprs color entry = Some es \<and>
       access = parseAccessList compile es))"
  using assms
proof (induction entries arbitrary: secure)
  case (Cons entry entries)
  then have "fold (parse_entry compile) entries (parse_entry compile entry secure) color sub = Some access" by simp
  from Cons.IH [OF this] show ?case by (auto simp: parse_entry_at split: if_splits)
qed simp

section \<open>Properties\<close>


definition sample_security :: "bytes security_map" where
  "sample_security = set_access Green (asc ''studio'') [asc ''/start''] (\<lambda>_ _. None)"


text \<open>A query of the allow list gives the answer of the configured expressions, whatever the caches
  hold and whichever entry is evicted, and the caches stay below their limit of 256 paths per
  subject.\<close>

theorem allow_list_cache_is_exact:
  assumes "cache_ok full_match security l"
  shows "\<exists>l'. isAllowed_group full_match victim color sub path l =
      ((\<exists>access. security color sub = Some access \<and> (\<exists>re \<in> set access. full_match re path)), l') \<and>
    mSecurityMap l' = security \<and>
    (\<forall>c i. length (mAcceptCache l' c i) \<le> 256 \<and> length (mRejectionCache l' c i) \<le> 256) \<and>
    cache_ok full_match security l'"
  using isAllowed_group_law [OF assms, of victim color sub path] unfolding list_policy_def cache_ok_def by blast

lemma allow_list_cache_is_exact_witness:
  "\<exists>l'. isAllowed_group (=) 7 Green (asc ''studio'') (asc ''/stop'') (new_allow_list sample_security) = (False, l')"
  using allow_list_cache_is_exact [OF cache_ok_new, where full_match = "(=)" and security = sample_security and
      victim = 7 and color = Green and sub = "asc ''studio''" and path = "asc ''/stop''"]
  by (auto simp: sample_security_def set_access_def asc_def)

text \<open>C32: The access an allow list file gives is never more than what it says: a path is open to
  everyone only by the unprotected section, a subject has a path only by a well-formed expression of
  an entry with its issuer, and the reserved issuer gets nothing by an entry; a malformed file gives
  no access at all.\<close>

theorem parsed_policy_is_no_wider:
  assumes "parseJsonObject compile json = Some security"
    and "list_policy full_match security color sub path"
  shows "\<exists>j expr re. json = Some j \<and> compile expr = Some re \<and> full_match re path \<and>
    (if color = GroupNone
     then sub = UNPROTECTED \<and> (\<exists>es. json_unprotected j = Some es \<and> expr \<in> set es)
     else sub \<noteq> UNPROTECTED \<and>
          (\<exists>entries entry es. json_allowlist j = Some entries \<and> entry \<in> set entries \<and> json_iss entry = Some sub \<and>
             (if color = Green then json_allowed entry else json_protected entry) = Some es \<and> expr \<in> set es))"
proof -
  obtain j where j: "json = Some j" using assms(1) by (auto simp: parseJsonObject_def)
  let ?entries = "case json_allowlist j of None \<Rightarrow> [] | Some es \<Rightarrow> es"
  let ?open = "case json_unprotected j of None \<Rightarrow> (\<lambda>_ _. None)
    | Some es \<Rightarrow> set_access GroupNone UNPROTECTED (parseAccessList compile es) (\<lambda>_ _. None)"
  obtain access re where a: "security color sub = Some access" "re \<in> set access" "full_match re path"
    using assms(2) by (auto simp: list_policy_def)
  then have "fold (parse_entry compile) ?entries ?open color sub = Some access"
    using assms(1) by (simp add: parseJsonObject_def j)
  from fold_parse_entry [OF this] show ?thesis
  proof
    assume "?open color sub = Some access"
    then show ?thesis
      using a j by (auto simp: set_access_def set_parseAccessList split: option.splits if_splits) blast
  next
    assume "sub \<noteq> UNPROTECTED \<and> (\<exists>entry \<in> set ?entries. \<exists>es. json_iss entry = Some sub \<and>
      entry_exprs color entry = Some es \<and> access = parseAccessList compile es)"
    then obtain entry es where e: "sub \<noteq> UNPROTECTED" "entry \<in> set ?entries" "json_iss entry = Some sub"
      "entry_exprs color entry = Some es" "access = parseAccessList compile es" by blast
    then obtain expr where "expr \<in> set es" "compile expr = Some re" using a(2) by (auto simp: set_parseAccessList)
    moreover obtain entries where "json_allowlist j = Some entries" "entry \<in> set entries"
      using e(2) by (cases "json_allowlist j") auto
    ultimately show ?thesis
      using e a(3) j by (cases color) (auto simp: entry_exprs_def)
  qed
qed

definition sample_json :: allow_json where
  "sample_json = \<lparr>json_unprotected = None,
     json_allowlist = Some [\<lparr>json_iss = Some (asc ''gradle''), json_allowed = None, json_protected = Some [asc ''/stop'']\<rparr>]\<rparr>"

lemma parsed_policy_is_no_wider_witness:
  "\<exists>security. parseJsonObject Some (Some sample_json) = Some security \<and>
     list_policy (=) security Yellow (asc ''gradle'') (asc ''/stop'') \<and> asc ''gradle'' \<noteq> UNPROTECTED"
proof -
  obtain security where sec: "parseJsonObject Some (Some sample_json) = Some security"
    by (simp add: parseJsonObject_def)
  then have "list_policy (=) security Yellow (asc ''gradle'') (asc ''/stop'')"
    by (auto simp: parseJsonObject_def sample_json_def parse_entry_def set_access_def list_policy_def asc_def)
  with parsed_policy_is_no_wider [OF sec this] sec show ?thesis by auto
qed

end
