(* ===== verification/Port_Forward.thy ===== *)
theory Port_Forward
  imports Prelude
begin

text \<open>
  The forwarding of a TCP port of the host to a vsock port of the guest
  (\<^verbatim>\<open>plugin/vsock_goldfish/vsock_port_fwd.cpp\<close>).  A connection has a socket on each side; what it sends
  is recorded in \<open>to_guest\<close> and \<open>to_host\<close>.  The listening server and QEMU's object model are not part of
  the model.
\<close>

section \<open>A connection\<close>

text \<open>\<open>mGuestSocket\<close> tells whether the socket is held; \<open>host_open\<close> whether the host socket is not disposed of.\<close>

record fwd_connection =
  mDisposing :: bool
  mGuestPort :: u32
  mGuestSocket :: bool
  mConnected :: bool
  mPreConnectedBuffer :: bytes
  host_open :: bool
  to_guest :: "bytes list"
  to_host :: "bytes list"
  guest_unplugs :: nat

definition HostToGuestConnection :: "u32 \<Rightarrow> fwd_connection" where
  "HostToGuestConnection guestPort =
     \<lparr>mDisposing = False, mGuestPort = guestPort, mGuestSocket = False, mConnected = False,
      mPreConnectedBuffer = [], host_open = True, to_guest = [], to_host = [], guest_unplugs = 0\<rparr>"

definition receiveHost :: "bytes \<Rightarrow> fwd_connection \<Rightarrow> fwd_connection" where
  "receiveHost bs c =
     (if \<not> mConnected c then c\<lparr>mPreConnectedBuffer := mPreConnectedBuffer c @ bs\<rparr>
      else if \<not> mGuestSocket c then c
      else c\<lparr>to_guest := to_guest c @ [bs]\<rparr>)"

text \<open>\<^verbatim>\<open>ISocket::unplug\<close> does nothing when there is no socket.\<close>

definition closeHost :: "fwd_connection \<Rightarrow> fwd_connection" where
  "closeHost c =
     (if \<not> mDisposing c
      then c\<lparr>host_open := False, mDisposing := True,
             guest_unplugs := guest_unplugs c + (if mGuestSocket c then 1 else 0), mGuestSocket := False\<rparr>
      else c)"

text \<open>\<open>connected\<close> is what \<^verbatim>\<open>vsock::connect\<close> returned.\<close>

definition connectToGuest :: "bool \<Rightarrow> fwd_connection \<Rightarrow> fwd_connection" where
  "connectToGuest connected c = c\<lparr>mGuestSocket := connected\<rparr>"

text \<open>The two parts of \<^verbatim>\<open>onConnect\<close>: the flag, and the flush of the buffer, which needs the socket.\<close>

definition onConnect_flag :: "fwd_connection \<Rightarrow> fwd_connection" where
  "onConnect_flag c = c\<lparr>mConnected := True\<rparr>"

definition onConnect_flush :: "fwd_connection \<Rightarrow> fwd_connection option" where
  "onConnect_flush c =
     (if mPreConnectedBuffer c = [] then Some c
      else if \<not> mGuestSocket c then None
      else Some (c\<lparr>to_guest := to_guest c @ [mPreConnectedBuffer c], mPreConnectedBuffer := []\<rparr>))"

definition fwd_onConnect :: "fwd_connection \<Rightarrow> fwd_connection option" where
  "fwd_onConnect c = onConnect_flush (onConnect_flag c)"

text \<open>\<open>sent\<close> is how much of the data the host socket took.\<close>

definition fwd_onReceive :: "nat \<Rightarrow> bytes \<Rightarrow> fwd_connection \<Rightarrow> bool \<times> fwd_connection" where
  "fwd_onReceive sent data c = (sent = length data, c\<lparr>to_host := to_host c @ [take sent data]\<rparr>)"

definition fwd_onUnplug :: "fwd_connection \<Rightarrow> bool \<times> fwd_connection" where
  "fwd_onUnplug c =
     (let c1 = (if \<not> mDisposing c then c\<lparr>mDisposing := True, host_open := False\<rparr> else c)
      in (mGuestSocket c1, c1\<lparr>mGuestSocket := False\<rparr>))"

section \<open>The device's ports\<close>

record vsock_fwd_dev =
  host_port :: u32
  guest_port :: u32

definition vsock_fwd_set_host_port :: "u32 option \<Rightarrow> vsock_fwd_dev \<Rightarrow> bool \<times> vsock_fwd_dev" where
  "vsock_fwd_set_host_port visited d =
     (case visited of
        None \<Rightarrow> (False, d)
      | Some v \<Rightarrow> if v < 0 \<or> v > 65535 then (False, d) else (True, d\<lparr>host_port := v\<rparr>))"

definition vsock_fwd_set_guest_port :: "u32 option \<Rightarrow> vsock_fwd_dev \<Rightarrow> bool \<times> vsock_fwd_dev" where
  "vsock_fwd_set_guest_port visited d =
     (case visited of
        None \<Rightarrow> (False, d)
      | Some v \<Rightarrow> if v < 0 \<or> v > 65535 then (False, d) else (True, d\<lparr>guest_port := v\<rparr>))"

section \<open>Threads\<close>

text \<open>
  The events of a connection.  \<open>fwd_step\<close> lets the host thread receive at any time, in particular
  between the two parts of \<^verbatim>\<open>onConnect\<close>: \<^verbatim>\<open>receiveHost\<close> looks at the flag without the lock and takes
  the lock only while the flag is not set.
\<close>

inductive fwd_step :: "bytes list \<Rightarrow> fwd_connection \<Rightarrow> fwd_connection \<Rightarrow> bool" where
  receives: "fwd_step [bs] c (receiveHost bs c)"
| flag: "\<not> mConnected c \<Longrightarrow> fwd_step [] c (onConnect_flag c)"
| flush: "mConnected c \<Longrightarrow> onConnect_flush c = Some c' \<Longrightarrow> fwd_step [] c c'"

inductive fwd_run :: "bytes list \<Rightarrow> fwd_connection \<Rightarrow> fwd_connection \<Rightarrow> bool" where
  idle: "fwd_run [] c c"
| more: "fwd_run received c c' \<Longrightarrow> fwd_step new c' c'' \<Longrightarrow> fwd_run (received @ new) c c''"

text \<open>The same with \<^verbatim>\<open>onConnect\<close> in one step.\<close>

inductive fwd_atomic_run :: "bytes list \<Rightarrow> fwd_connection \<Rightarrow> fwd_connection \<Rightarrow> bool" where
  start: "fwd_atomic_run [] c c"
| host_data: "fwd_atomic_run received c c' \<Longrightarrow> fwd_atomic_run (received @ [bs]) c (receiveHost bs c')"
| established: "fwd_atomic_run received c c' \<Longrightarrow> fwd_onConnect c' = Some c'' \<Longrightarrow> fwd_atomic_run received c c''"

inductive_simps fwd_step_simps: "fwd_step bs c c'"

section \<open>Properties\<close>

lemma atomic_run_order:
  "fwd_atomic_run received c c' \<Longrightarrow>
   mGuestSocket c \<Longrightarrow> (mConnected c \<longrightarrow> mPreConnectedBuffer c = []) \<Longrightarrow>
   mGuestSocket c' \<and> (mConnected c' \<longrightarrow> mPreConnectedBuffer c' = []) \<and>
   concat (to_guest c') @ mPreConnectedBuffer c' = concat (to_guest c) @ mPreConnectedBuffer c @ concat received"
proof (induction rule: fwd_atomic_run.induct)
  case (host_data received c c' bs)
  then show ?case by (auto simp: receiveHost_def)
next
  case (established received c c' c'')
  then show ?case
    by (auto simp: fwd_onConnect_def onConnect_flush_def onConnect_flag_def split: if_splits)
qed simp

lemma atomic_connect_succeeds: "mGuestSocket c \<Longrightarrow> fwd_onConnect c \<noteq> None"
  by (simp add: fwd_onConnect_def onConnect_flush_def onConnect_flag_def)

text \<open>What the host sends is forwarded to the guest completely and in order: bytes that arrive before
  the connection is established wait for it and go first, as long as \<^verbatim>\<open>onConnect\<close> runs without the host
  thread in between; and establishing the connection does not fail while the socket is there.\<close>

theorem forwarded_in_order:
  assumes "fwd_atomic_run received (connectToGuest True (HostToGuestConnection port)) c"
  shows "(concat (to_guest c) @ mPreConnectedBuffer c = concat received) \<and>
    (mConnected c \<longrightarrow> concat (to_guest c) = concat received) \<and>
    (fwd_onConnect c \<noteq> None)"
  using atomic_run_order [OF assms] atomic_connect_succeeds [of c]
  by (auto simp: connectToGuest_def HostToGuestConnection_def)

lemma forwarded_in_order_witness:
  "\<exists>c. fwd_atomic_run [[1], [2]] (connectToGuest True (HostToGuestConnection 22)) c \<and> concat (to_guest c) = [1, 2]"
proof -
  let ?c0 = "connectToGuest True (HostToGuestConnection 22)"
  let ?c1 = "receiveHost [1] ?c0"
  obtain c2 where c2: "fwd_onConnect ?c1 = Some c2" "mConnected (receiveHost [2] c2)"
    by (simp add: fwd_onConnect_def onConnect_flush_def onConnect_flag_def receiveHost_def connectToGuest_def
        HostToGuestConnection_def)
  have "fwd_atomic_run [[1]] ?c0 ?c1" using host_data [OF start [of ?c0], of "[1]"] by simp
  then have "fwd_atomic_run [[1]] ?c0 c2" using c2(1) by (rule established)
  then have "fwd_atomic_run [[1], [2]] ?c0 (receiveHost [2] c2)" using host_data [of "[[1]]" ?c0 c2 "[2]"] by simp
  with forwarded_in_order [OF this, THEN conjunct2, THEN conjunct1] c2(2) show ?thesis by auto
qed

text \<open>When the host thread receives data between the two parts of \<^verbatim>\<open>onConnect\<close>, the new data overtakes
  the data that was waiting: the guest gets the bytes in the wrong order.\<close>

theorem forwarding_can_reorder:
  assumes "x \<noteq> []"
  shows "\<exists>c. fwd_run [x, y] (connectToGuest True (HostToGuestConnection port)) c \<and>
    mPreConnectedBuffer c = [] \<and> to_guest c = [y, x]"
proof -
  let ?c0 = "connectToGuest True (HostToGuestConnection port)"
  let ?c1 = "receiveHost x ?c0" and ?c2 = "onConnect_flag (receiveHost x ?c0)"
  let ?c3 = "receiveHost y ?c2"
  note defs = receiveHost_def connectToGuest_def HostToGuestConnection_def onConnect_flag_def onConnect_flush_def
  have "fwd_run [x] ?c0 ?c1" using more [OF idle receives] by fastforce
  moreover have "fwd_step [] ?c1 ?c2" by (rule flag) (simp add: defs)
  ultimately have "fwd_run [x] ?c0 ?c2" using more by fastforce
  then have "fwd_run [x, y] ?c0 ?c3" using more [OF _ receives, of "[x]" ?c0 ?c2 y] by simp
  moreover obtain c4 where "onConnect_flush ?c3 = Some c4" "mPreConnectedBuffer c4 = []" "to_guest c4 = [y, x]"
    using assms by (simp add: defs)
  moreover have "mConnected ?c3" by (simp add: defs)
  ultimately show ?thesis using more [OF _ flush, of "[x, y]" ?c0 ?c3] by fastforce
qed

lemma forwarding_can_reorder_witness:
  "\<exists>c. fwd_run [[1], [2]] (connectToGuest True (HostToGuestConnection 22)) c \<and> to_guest c = [[2], [1]]"
  using forwarding_can_reorder [of "[1]" "[2]" 22] by auto

text \<open>The guest socket is unplugged at most once, by whichever side closes first.\<close>

lemma closed_once:
  "guest_unplugs (closeHost (closeHost c)) = guest_unplugs (closeHost c)"
  "mGuestSocket c \<Longrightarrow> \<not> mDisposing c \<Longrightarrow>
   guest_unplugs (closeHost (snd (fwd_onUnplug c))) = guest_unplugs c \<and> fst (fwd_onUnplug c)"
  by (auto simp: closeHost_def fwd_onUnplug_def Let_def)

text \<open>A port the device accepts fits 16 bits.\<close>

lemma accepted_ports_fit:
  "fst (vsock_fwd_set_host_port (Some v) d) \<longleftrightarrow> unat v < 2 ^ 16"
  "fst (vsock_fwd_set_guest_port (Some v) d) \<longleftrightarrow> unat v < 2 ^ 16"
  by (auto simp: vsock_fwd_set_host_port_def vsock_fwd_set_guest_port_def word_less_nat_alt)

end
