(* ===== verification/Battery.thy ===== *)
theory Battery
  imports Prelude
begin

text \<open>
  The battery: the memory mapped device \<^verbatim>\<open>goldfish_battery.c\<close> with its registers, its interrupt
  and its saved fields, and the class \<^verbatim>\<open>Battery\<close> of \<^verbatim>\<open>battery.cpp\<close> through which the host sets
  and reads it.  The interrupt line is the last level given to \<^verbatim>\<open>qemu_set_irq\<close>; the lookup of the
  device by its id finds it once it has been realized, because only then has it the id.
\<close>

section \<open>The device\<close>

datatype power_supply_property =
    POWER_SUPPLY_PROP_STATUS
  | POWER_SUPPLY_PROP_HAS_BATTERY
  | POWER_SUPPLY_PROP_HEALTH
  | POWER_SUPPLY_PROP_PRESENT
  | POWER_SUPPLY_PROP_ONLINE
  | POWER_SUPPLY_PROP_TECHNOLOGY
  | POWER_SUPPLY_PROP_CYCLE_COUNT
  | POWER_SUPPLY_PROP_VOLTAGE_MAX
  | POWER_SUPPLY_PROP_VOLTAGE_MIN
  | POWER_SUPPLY_PROP_VOLTAGE_MAX_DESIGN
  | POWER_SUPPLY_PROP_VOLTAGE_MIN_DESIGN
  | POWER_SUPPLY_PROP_VOLTAGE_NOW
  | POWER_SUPPLY_PROP_VOLTAGE_AVG
  | POWER_SUPPLY_PROP_CURRENT_MAX
  | POWER_SUPPLY_PROP_CURRENT_NOW
  | POWER_SUPPLY_PROP_CURRENT_AVG
  | POWER_SUPPLY_PROP_CHARGE_FULL_DESIGN
  | POWER_SUPPLY_PROP_CHARGE_EMPTY_DESIGN
  | POWER_SUPPLY_PROP_CHARGE_FULL
  | POWER_SUPPLY_PROP_CHARGE_EMPTY
  | POWER_SUPPLY_PROP_CHARGE_NOW
  | POWER_SUPPLY_PROP_CHARGE_AVG
  | POWER_SUPPLY_PROP_CHARGE_COUNTER
  | POWER_SUPPLY_PROP_ENERGY_FULL_DESIGN
  | POWER_SUPPLY_PROP_ENERGY_EMPTY_DESIGN
  | POWER_SUPPLY_PROP_ENERGY_FULL
  | POWER_SUPPLY_PROP_ENERGY_EMPTY
  | POWER_SUPPLY_PROP_ENERGY_NOW
  | POWER_SUPPLY_PROP_ENERGY_AVG
  | POWER_SUPPLY_PROP_CAPACITY
  | POWER_SUPPLY_PROP_CAPACITY_LEVEL
  | POWER_SUPPLY_PROP_TEMP
  | POWER_SUPPLY_PROP_TEMP_AMBIENT
  | POWER_SUPPLY_PROP_TIME_TO_EMPTY_NOW
  | POWER_SUPPLY_PROP_TIME_TO_EMPTY_AVG
  | POWER_SUPPLY_PROP_TIME_TO_FULL_NOW
  | POWER_SUPPLY_PROP_TIME_TO_FULL_AVG
  | POWER_SUPPLY_PROP_MODEL_NAME
  | POWER_SUPPLY_PROP_MANUFACTURER

abbreviation (input) BATTERY_INT_STATUS :: u64 where "BATTERY_INT_STATUS \<equiv> 0x00"
abbreviation (input) BATTERY_INT_ENABLE :: u64 where "BATTERY_INT_ENABLE \<equiv> 0x04"
abbreviation (input) BATTERY_CAPACITY :: u64 where "BATTERY_CAPACITY \<equiv> 0x18"

definition BATTERY_STATUS_CHANGED :: u32 where "BATTERY_STATUS_CHANGED = 1"
definition AC_STATUS_CHANGED :: u32 where "AC_STATUS_CHANGED = 2"

definition POWER_SUPPLY_STATUS_UNKNOWN :: u32 where "POWER_SUPPLY_STATUS_UNKNOWN = 0"
definition POWER_SUPPLY_STATUS_CHARGING :: u32 where "POWER_SUPPLY_STATUS_CHARGING = 1"
definition POWER_SUPPLY_STATUS_DISCHARGING :: u32 where "POWER_SUPPLY_STATUS_DISCHARGING = 2"
definition POWER_SUPPLY_STATUS_NOT_CHARGING :: u32 where "POWER_SUPPLY_STATUS_NOT_CHARGING = 3"
definition POWER_SUPPLY_STATUS_FULL :: u32 where "POWER_SUPPLY_STATUS_FULL = 4"

definition POWER_SUPPLY_HEALTH_UNKNOWN :: u32 where "POWER_SUPPLY_HEALTH_UNKNOWN = 0"
definition POWER_SUPPLY_HEALTH_GOOD :: u32 where "POWER_SUPPLY_HEALTH_GOOD = 1"
definition POWER_SUPPLY_HEALTH_OVERHEAT :: u32 where "POWER_SUPPLY_HEALTH_OVERHEAT = 2"
definition POWER_SUPPLY_HEALTH_DEAD :: u32 where "POWER_SUPPLY_HEALTH_DEAD = 3"
definition POWER_SUPPLY_HEALTH_OVERVOLTAGE :: u32 where "POWER_SUPPLY_HEALTH_OVERVOLTAGE = 4"
definition POWER_SUPPLY_HEALTH_UNSPEC_FAILURE :: u32 where "POWER_SUPPLY_HEALTH_UNSPEC_FAILURE = 5"

lemmas battery_consts = BATTERY_STATUS_CHANGED_def AC_STATUS_CHANGED_def
  POWER_SUPPLY_STATUS_UNKNOWN_def POWER_SUPPLY_STATUS_CHARGING_def POWER_SUPPLY_STATUS_DISCHARGING_def
  POWER_SUPPLY_STATUS_NOT_CHARGING_def POWER_SUPPLY_STATUS_FULL_def
  POWER_SUPPLY_HEALTH_UNKNOWN_def POWER_SUPPLY_HEALTH_GOOD_def POWER_SUPPLY_HEALTH_OVERHEAT_def
  POWER_SUPPLY_HEALTH_DEAD_def POWER_SUPPLY_HEALTH_OVERVOLTAGE_def POWER_SUPPLY_HEALTH_UNSPEC_FAILURE_def

record goldfish_battery_state =
  irq :: u32
  int_status :: u32
  int_enable :: u32
  ac_online :: u32
  bat_status :: u32
  health :: u32
  present :: u32
  capacity :: u32
  hw_has_battery :: u32
  voltage :: u32
  temp :: u32
  charge_counter :: u32
  voltage_max :: u32
  current_max :: u32
  current_now :: u32
  current_avg :: u32
  charge_full_uah :: u32
  cycle_count :: u32

text \<open>The two static variables of the file, and the device the bus knows by its id.\<close>

record battery_machine =
  sBatteryIsRealized :: bool
  sDeviceHasBattery :: u32
  found_device :: "goldfish_battery_state option"

definition battery_power_on :: battery_machine where
  "battery_power_on = \<lparr>sBatteryIsRealized = False, sDeviceHasBattery = 0, found_device = None\<rparr>"

section \<open>The registers\<close>

definition goldfish_battery_read :: "u64 \<Rightarrow> goldfish_battery_state \<Rightarrow> u64 \<times> goldfish_battery_state" where
  "goldfish_battery_read offset s =
     (if offset = 0x00 then
        (let ret = int_status s AND int_enable s
         in (ucast ret, if ret \<noteq> 0 then s\<lparr>irq := 0, int_status := 0\<rparr> else s))
      else (ucast (
        if offset = 0x04 then int_enable s
        else if offset = 0x08 then ac_online s
        else if offset = 0x0C then bat_status s
        else if offset = 0x10 then health s
        else if offset = 0x14 then present s
        else if offset = 0x18 then capacity s
        else if offset = 0x1C then voltage s
        else if offset = 0x20 then temp s
        else if offset = 0x24 then charge_counter s
        else if offset = 0x28 then voltage_max s
        else if offset = 0x2C then current_max s
        else if offset = 0x30 then current_now s
        else if offset = 0x34 then current_avg s
        else if offset = 0x38 then charge_full_uah s
        else if offset = 0x40 then cycle_count s
        else 0), s))"

definition goldfish_battery_write :: "u64 \<Rightarrow> u64 \<Rightarrow> goldfish_battery_state \<Rightarrow> goldfish_battery_state" where
  "goldfish_battery_write offset v s =
     (if offset = 0x04 then
        (let s1 = s\<lparr>int_enable := ucast v\<rparr>; now_active = int_enable s1 AND int_status s1
         in if now_active \<noteq> 0 then s1\<lparr>irq := now_active\<rparr> else s1)
      else s)"

section \<open>The properties the host sees\<close>

definition goldfish_battery_read_prop :: "power_supply_property \<Rightarrow> battery_machine \<Rightarrow> u32" where
  "goldfish_battery_read_prop prop m =
     (case found_device m of
        None \<Rightarrow> 0
      | Some s \<Rightarrow>
          (case prop of
             POWER_SUPPLY_PROP_ONLINE \<Rightarrow> ac_online s
           | POWER_SUPPLY_PROP_STATUS \<Rightarrow> bat_status s
           | POWER_SUPPLY_PROP_HEALTH \<Rightarrow> health s
           | POWER_SUPPLY_PROP_HAS_BATTERY \<Rightarrow> hw_has_battery s
           | POWER_SUPPLY_PROP_PRESENT \<Rightarrow> present s
           | POWER_SUPPLY_PROP_CAPACITY \<Rightarrow> capacity s
           | POWER_SUPPLY_PROP_VOLTAGE_NOW \<Rightarrow> voltage s
           | POWER_SUPPLY_PROP_TEMP \<Rightarrow> temp s
           | POWER_SUPPLY_PROP_CHARGE_COUNTER \<Rightarrow> charge_counter s
           | POWER_SUPPLY_PROP_VOLTAGE_MAX \<Rightarrow> voltage_max s
           | POWER_SUPPLY_PROP_CURRENT_MAX \<Rightarrow> current_max s
           | POWER_SUPPLY_PROP_CURRENT_NOW \<Rightarrow> current_now s
           | POWER_SUPPLY_PROP_CURRENT_AVG \<Rightarrow> current_avg s
           | POWER_SUPPLY_PROP_CHARGE_FULL \<Rightarrow> charge_full_uah s
           | POWER_SUPPLY_PROP_CYCLE_COUNT \<Rightarrow> cycle_count s
           | _ \<Rightarrow> 0))"

definition battery_store :: "bool \<Rightarrow> power_supply_property \<Rightarrow> u32 \<Rightarrow> goldfish_battery_state \<Rightarrow> goldfish_battery_state" where
  "battery_store ac prop value s =
     (if ac then
        (case prop of
           POWER_SUPPLY_PROP_ONLINE \<Rightarrow> s\<lparr>ac_online := value\<rparr>
         | _ \<Rightarrow> s)
      else
        (case prop of
           POWER_SUPPLY_PROP_STATUS \<Rightarrow> s\<lparr>bat_status := value\<rparr>
         | POWER_SUPPLY_PROP_HEALTH \<Rightarrow> s\<lparr>health := value\<rparr>
         | POWER_SUPPLY_PROP_PRESENT \<Rightarrow> s\<lparr>present := value\<rparr>
         | POWER_SUPPLY_PROP_CAPACITY \<Rightarrow> s\<lparr>capacity := value\<rparr>
         | POWER_SUPPLY_PROP_CURRENT_NOW \<Rightarrow> s\<lparr>current_now := value\<rparr>
         | POWER_SUPPLY_PROP_CURRENT_AVG \<Rightarrow> s\<lparr>current_avg := value\<rparr>
         | POWER_SUPPLY_PROP_CHARGE_FULL \<Rightarrow> s\<lparr>charge_full_uah := value\<rparr>
         | POWER_SUPPLY_PROP_CYCLE_COUNT \<Rightarrow> s\<lparr>cycle_count := value\<rparr>
         | _ \<Rightarrow> s))"

definition battery_signal :: "u32 \<Rightarrow> goldfish_battery_state \<Rightarrow> goldfish_battery_state" where
  "battery_signal new_status s =
     (if new_status \<noteq> int_status s then
        (let s1 = s\<lparr>int_status := int_status s OR new_status\<rparr>
         in s1\<lparr>irq := int_status s1 AND int_enable s1\<rparr>)
      else s)"

definition goldfish_battery_set_prop :: "bool \<Rightarrow> power_supply_property \<Rightarrow> u32 \<Rightarrow> battery_machine \<Rightarrow> battery_machine" where
  "goldfish_battery_set_prop ac prop value m =
     (if \<not> sBatteryIsRealized m then
        (if prop = POWER_SUPPLY_PROP_HAS_BATTERY then m\<lparr>sDeviceHasBattery := value\<rparr> else m)
      else
        (let new_status = (if ac then AC_STATUS_CHANGED else BATTERY_STATUS_CHANGED)
         in case found_device m of
              None \<Rightarrow> m
            | Some s \<Rightarrow>
                if hw_has_battery s = 0 then m
                else m\<lparr>found_device := Some (battery_signal new_status (battery_store ac prop value s))\<rparr>))"

section \<open>Realization and snapshots\<close>

definition zero_battery :: goldfish_battery_state where
  "zero_battery = \<lparr>irq = 0, int_status = 0, int_enable = 0, ac_online = 0, bat_status = 0, health = 0, present = 0,
     capacity = 0, hw_has_battery = 0, voltage = 0, temp = 0, charge_counter = 0, voltage_max = 0,
     current_max = 0, current_now = 0, current_avg = 0, charge_full_uah = 0, cycle_count = 0\<rparr>"

definition goldfish_battery_realize :: "battery_machine \<Rightarrow> battery_machine" where
  "goldfish_battery_realize m =
     (let s = zero_battery\<lparr>ac_online := 1, voltage := 5000000, temp := 250, voltage_max := 5000000,
                current_max := 5000000, current_now := 900000, current_avg := 900000,
                charge_full_uah := 3000000, cycle_count := 10\<rparr>;
          s1 = (if sDeviceHasBattery m \<noteq> 0 then
                  s\<lparr>hw_has_battery := 1, bat_status := POWER_SUPPLY_STATUS_CHARGING,
                    health := POWER_SUPPLY_HEALTH_GOOD, present := 1, capacity := 100,
                    charge_counter := 10000\<rparr>
                else
                  s\<lparr>hw_has_battery := 0, bat_status := POWER_SUPPLY_STATUS_UNKNOWN,
                    health := POWER_SUPPLY_HEALTH_UNKNOWN, present := 0, capacity := 0,
                    charge_counter := 0\<rparr>)
      in m\<lparr>found_device := Some s1, sBatteryIsRealized := True\<rparr>)"

text \<open>The fields of \<^verbatim>\<open>goldfish_battery_vmsd\<close>, in its order; QEMU saves them and loads them back.\<close>

definition battery_vmsd_save :: "goldfish_battery_state \<Rightarrow> u32 list" where
  "battery_vmsd_save s = [int_status s, int_enable s, ac_online s, bat_status s, health s, present s, capacity s,
     hw_has_battery s]"

fun battery_vmsd_load :: "u32 list \<Rightarrow> goldfish_battery_state \<Rightarrow> goldfish_battery_state option" where
  "battery_vmsd_load [a, b, c, d, e, f, g, h] s =
     Some (s\<lparr>int_status := a, int_enable := b, ac_online := c, bat_status := d, health := e, present := f,
             capacity := g, hw_has_battery := h\<rparr>)"
| "battery_vmsd_load _ s = None"

section \<open>The class Battery\<close>

datatype charger_type = ChargerType_NONE | ChargerType_AC | ChargerType_USB | ChargerType_WIRELESS
  | ChargerType_NUM_ENTRIES
datatype health_type = Health_GOOD | Health_FAILED | Health_DEAD | Health_OVERVOLTAGE | Health_OVERHEATED
  | Health_UNKNOWN | Health_NUM_ENTRIES
datatype status_type = Status_UNKNOWN | Status_CHARGING | Status_DISCHARGING | Status_NOT_CHARGING
  | Status_FULL | Status_NUM_ENTRIES

definition setHasBattery :: "bool \<Rightarrow> battery_machine \<Rightarrow> battery_machine" where
  "setHasBattery b = goldfish_battery_set_prop False POWER_SUPPLY_PROP_HAS_BATTERY (of_bool b)"

definition hasBattery :: "battery_machine \<Rightarrow> bool" where
  "hasBattery m = (goldfish_battery_read_prop POWER_SUPPLY_PROP_HAS_BATTERY m \<noteq> 0)"

definition setPresent :: "bool \<Rightarrow> battery_machine \<Rightarrow> battery_machine" where
  "setPresent b = goldfish_battery_set_prop False POWER_SUPPLY_PROP_PRESENT (of_bool b)"

definition isPresent :: "battery_machine \<Rightarrow> bool" where
  "isPresent m = (goldfish_battery_read_prop POWER_SUPPLY_PROP_PRESENT m \<noteq> 0)"

definition setCharging :: "bool \<Rightarrow> battery_machine \<Rightarrow> battery_machine" where
  "setCharging b = goldfish_battery_set_prop True POWER_SUPPLY_PROP_ONLINE (of_bool b)"

definition isCharging :: "battery_machine \<Rightarrow> bool" where
  "isCharging m = (goldfish_battery_read_prop POWER_SUPPLY_PROP_ONLINE m \<noteq> 0)"

definition setChargerType :: "charger_type \<Rightarrow> battery_machine \<Rightarrow> battery_machine" where
  "setChargerType charger = setCharging (charger \<noteq> ChargerType_NONE)"

definition getChargerType :: "battery_machine \<Rightarrow> charger_type" where
  "getChargerType m = (if isCharging m then ChargerType_AC else ChargerType_NONE)"

definition setChargeLevel :: "u32 \<Rightarrow> battery_machine \<Rightarrow> battery_machine" where
  "setChargeLevel percentFull m =
     (if sint percentFull < 0 \<or> sint percentFull > 100 then m
      else goldfish_battery_set_prop False POWER_SUPPLY_PROP_CAPACITY percentFull m)"

definition getChargeLevel :: "battery_machine \<Rightarrow> u32" where
  "getChargeLevel = goldfish_battery_read_prop POWER_SUPPLY_PROP_CAPACITY"

definition health_value :: "health_type \<Rightarrow> u32" where
  "health_value h =
     (case h of
        Health_GOOD \<Rightarrow> POWER_SUPPLY_HEALTH_GOOD
      | Health_FAILED \<Rightarrow> POWER_SUPPLY_HEALTH_UNSPEC_FAILURE
      | Health_DEAD \<Rightarrow> POWER_SUPPLY_HEALTH_DEAD
      | Health_OVERVOLTAGE \<Rightarrow> POWER_SUPPLY_HEALTH_OVERVOLTAGE
      | Health_OVERHEATED \<Rightarrow> POWER_SUPPLY_HEALTH_OVERHEAT
      | _ \<Rightarrow> POWER_SUPPLY_HEALTH_UNKNOWN)"

definition setHealth :: "health_type \<Rightarrow> battery_machine \<Rightarrow> battery_machine" where
  "setHealth h = goldfish_battery_set_prop False POWER_SUPPLY_PROP_HEALTH (health_value h)"

definition getHealth :: "battery_machine \<Rightarrow> health_type" where
  "getHealth m =
     (let v = goldfish_battery_read_prop POWER_SUPPLY_PROP_HEALTH m
      in if v = POWER_SUPPLY_HEALTH_GOOD then Health_GOOD
         else if v = POWER_SUPPLY_HEALTH_UNSPEC_FAILURE then Health_FAILED
         else if v = POWER_SUPPLY_HEALTH_DEAD then Health_DEAD
         else if v = POWER_SUPPLY_HEALTH_OVERVOLTAGE then Health_OVERVOLTAGE
         else if v = POWER_SUPPLY_HEALTH_OVERHEAT then Health_OVERHEATED
         else Health_UNKNOWN)"

definition status_value :: "status_type \<Rightarrow> u32" where
  "status_value st =
     (case st of
        Status_UNKNOWN \<Rightarrow> POWER_SUPPLY_STATUS_UNKNOWN
      | Status_CHARGING \<Rightarrow> POWER_SUPPLY_STATUS_CHARGING
      | Status_DISCHARGING \<Rightarrow> POWER_SUPPLY_STATUS_DISCHARGING
      | Status_NOT_CHARGING \<Rightarrow> POWER_SUPPLY_STATUS_NOT_CHARGING
      | Status_FULL \<Rightarrow> POWER_SUPPLY_STATUS_FULL
      | _ \<Rightarrow> POWER_SUPPLY_STATUS_UNKNOWN)"

definition Battery_setStatus :: "status_type \<Rightarrow> battery_machine \<Rightarrow> battery_machine" where
  "Battery_setStatus st = goldfish_battery_set_prop False POWER_SUPPLY_PROP_STATUS (status_value st)"

definition Battery_getStatus :: "battery_machine \<Rightarrow> status_type" where
  "Battery_getStatus m =
     (let v = goldfish_battery_read_prop POWER_SUPPLY_PROP_STATUS m
      in if v = POWER_SUPPLY_STATUS_UNKNOWN then Status_UNKNOWN
         else if v = POWER_SUPPLY_STATUS_CHARGING then Status_CHARGING
         else if v = POWER_SUPPLY_STATUS_DISCHARGING then Status_DISCHARGING
         else if v = POWER_SUPPLY_STATUS_NOT_CHARGING then Status_NOT_CHARGING
         else if v = POWER_SUPPLY_STATUS_FULL then Status_FULL
         else Status_UNKNOWN)"

section \<open>The machine and its steps\<close>

text \<open>
  Interrupts are not lost (a pending change the guest has enabled holds the line up) and every
  register stays in the range its enumeration has.
\<close>

definition device_ok :: "goldfish_battery_state \<Rightarrow> bool" where
  "device_ok s \<longleftrightarrow>
     (int_status s AND int_enable s \<noteq> 0 \<longrightarrow> irq s \<noteq> 0) \<and> int_status s \<in> {0, 1, 2, 3} \<and>
     capacity s \<le> 100 \<and> health s \<le> 5 \<and> bat_status s \<le> 4 \<and> present s \<le> 1 \<and> ac_online s \<le> 1 \<and>
     hw_has_battery s \<le> 1 \<and> (hw_has_battery s = 0 \<longrightarrow> present s = 0 \<and> capacity s = 0 \<and> int_status s = 0)"

definition machine_ok :: "battery_machine \<Rightarrow> bool" where
  "machine_ok m \<longleftrightarrow>
     (case found_device m of
        None \<Rightarrow> \<not> sBatteryIsRealized m
      | Some s \<Rightarrow> sBatteryIsRealized m \<and> device_ok s)"

inductive battery_step :: "battery_machine \<Rightarrow> battery_machine \<Rightarrow> bool" where
  realize: "\<not> sBatteryIsRealized m \<Longrightarrow> battery_step m (goldfish_battery_realize m)"
| has_battery: "battery_step m (setHasBattery b m)"
| presence: "battery_step m (setPresent b m)"
| charging: "battery_step m (setCharging b m)"
| charger: "battery_step m (setChargerType c m)"
| level: "battery_step m (setChargeLevel p m)"
| health_set: "battery_step m (setHealth h m)"
| status_set: "battery_step m (Battery_setStatus st m)"
| guest_read: "found_device m = Some s \<Longrightarrow> goldfish_battery_read off s = (v, s') \<Longrightarrow>
    battery_step m (m\<lparr>found_device := Some s'\<rparr>)"
| guest_write: "found_device m = Some s \<Longrightarrow>
    battery_step m (m\<lparr>found_device := Some (goldfish_battery_write off w s)\<rparr>)"

definition battery_value_ok :: "bool \<Rightarrow> power_supply_property \<Rightarrow> u32 \<Rightarrow> bool" where
  "battery_value_ok ac prop v =
     (if ac then prop = POWER_SUPPLY_PROP_ONLINE \<longrightarrow> v \<le> 1
      else (case prop of
              POWER_SUPPLY_PROP_STATUS \<Rightarrow> v \<le> 4
            | POWER_SUPPLY_PROP_HEALTH \<Rightarrow> v \<le> 5
            | POWER_SUPPLY_PROP_PRESENT \<Rightarrow> v \<le> 1
            | POWER_SUPPLY_PROP_CAPACITY \<Rightarrow> v \<le> 100
            | _ \<Rightarrow> True))"

section \<open>The invariant\<close>

lemma store_keeps [simp]:
  "int_status (battery_store ac prop v s) = int_status s"
  "int_enable (battery_store ac prop v s) = int_enable s"
  "irq (battery_store ac prop v s) = irq s"
  "hw_has_battery (battery_store ac prop v s) = hw_has_battery s"
  by (simp_all add: battery_store_def split: power_supply_property.split)

lemma store_ok:
  assumes "device_ok s" and "battery_value_ok ac prop v" and "hw_has_battery s \<noteq> 0"
  shows "device_ok (battery_store ac prop v s)"
  using assms unfolding device_ok_def battery_value_ok_def battery_store_def
  by (cases ac; cases "prop") simp_all

lemma signal_ok:
  assumes "device_ok s" and "n \<in> {1, 2}" and "hw_has_battery s \<noteq> 0"
  shows "device_ok (battery_signal n s)"
  using assms unfolding device_ok_def battery_signal_def Let_def
  by (auto simp: ac_simps)

lemma signal_pending:
  assumes "n \<in> {1, 2}" and "int_status s \<in> {0, 1, 2, 3}"
  shows "int_status (battery_signal n s) AND n = n"
  using assms by (auto simp: battery_signal_def)

lemma signal_keeps [simp]:
  "int_enable (battery_signal n s) = int_enable s"
  "hw_has_battery (battery_signal n s) = hw_has_battery s"
  "ac_online (battery_signal n s) = ac_online s"
  "bat_status (battery_signal n s) = bat_status s"
  "health (battery_signal n s) = health s"
  "present (battery_signal n s) = present s"
  "capacity (battery_signal n s) = capacity s"
  by (simp_all add: battery_signal_def)

lemma set_prop_ok [inv_intros]:
  assumes "machine_ok m" and "battery_value_ok ac prop v"
  shows "machine_ok (goldfish_battery_set_prop ac prop v m)"
  using assms store_ok [of _ ac "prop" v] signal_ok
  unfolding machine_ok_def goldfish_battery_set_prop_def Let_def battery_consts
  by (auto split: option.splits)

lemma small_value_ok:
  assumes "v \<le> 1" shows "battery_value_ok ac prop v"
proof -
  have "v \<le> 4" "v \<le> 5" "v \<le> 100" using assms by (simp_all add: word_le_nat_alt)
  then show ?thesis using assms by (simp add: battery_value_ok_def split: power_supply_property.split)
qed

lemma health_value_ok: "battery_value_ok False POWER_SUPPLY_PROP_HEALTH (health_value h)"
  by (cases h) (simp_all add: battery_value_ok_def health_value_def battery_consts)

lemma status_value_ok: "battery_value_ok False POWER_SUPPLY_PROP_STATUS (status_value st)"
  by (cases st) (simp_all add: battery_value_ok_def status_value_def battery_consts)

lemma percent_range: "\<not> (sint (p :: u32) < 0 \<or> sint p > 100) \<longleftrightarrow> p \<le> 100"
  using uint_lt2p [of p] by (auto simp: sint_u32 word_le_def)

lemma read_ok:
  assumes "device_ok s" shows "device_ok (snd (goldfish_battery_read off s))"
  using assms by (simp add: goldfish_battery_read_def device_ok_def Let_def)

lemma write_ok:
  assumes "device_ok s" shows "device_ok (goldfish_battery_write off w s)"
  using assms by (auto simp: goldfish_battery_write_def device_ok_def Let_def ac_simps)

lemma realize_ok: "machine_ok (goldfish_battery_realize m)"
  by (simp add: machine_ok_def goldfish_battery_realize_def Let_def device_ok_def zero_battery_def battery_consts)

lemma battery_step_ok:
  assumes "battery_step m m'" and "machine_ok m"
  shows "machine_ok m'"
  using assms
proof cases
  case realize
  then show ?thesis by (simp add: realize_ok)
next
  case (level p)
  then show ?thesis using assms(2) percent_range [of p]
    by (auto simp: setChargeLevel_def battery_value_ok_def intro!: inv_intros)
next
  case (guest_read s off v s')
  then show ?thesis using assms(2) read_ok [of s off] by (auto simp: machine_ok_def)
next
  case (guest_write s off w)
  then show ?thesis using assms(2) write_ok [of s off w] by (auto simp: machine_ok_def)
qed (auto simp: setHasBattery_def setPresent_def setCharging_def setChargerType_def setHealth_def Battery_setStatus_def
    intro!: inv_intros small_value_ok health_value_ok status_value_ok assms(2))

section \<open>What the host sets is what the host and the guest read\<close>

definition powered :: "battery_machine \<Rightarrow> bool" where
  "powered m \<longleftrightarrow>
     (case found_device m of None \<Rightarrow> False | Some s \<Rightarrow> hw_has_battery s \<noteq> 0 \<and> device_ok s \<and> sBatteryIsRealized m)"

text \<open>
  The contract of an attribute of the battery: its setter and its getter agree for the values it
  accepts, the change is announced in the status register, and nothing happens on a device
  without a battery.
\<close>

locale battery_attribute =
  fixes set_attr :: "'v \<Rightarrow> battery_machine \<Rightarrow> battery_machine"
    and get_attr :: "battery_machine \<Rightarrow> 'v"
    and accepts :: "'v \<Rightarrow> bool"
    and change :: u32
  assumes change_range: "change \<in> {1, 2}"
    and set_powered: "powered m \<Longrightarrow> powered (set_attr v m)"
    and get_set: "powered m \<Longrightarrow> accepts v \<Longrightarrow> get_attr (set_attr v m) = v"
    and set_signals: "powered m \<Longrightarrow> accepts v \<Longrightarrow> found_device m = Some s \<Longrightarrow>
      \<exists>s'. found_device (set_attr v m) = Some s' \<and> int_status s' AND change = change \<and> int_enable s' = int_enable s"
    and set_unpowered: "machine_ok m \<Longrightarrow> \<not> powered m \<Longrightarrow> set_attr v m = m"
begin

lemma fold_powered: "powered m \<Longrightarrow> powered (fold set_attr vs m)"
  by (induction vs arbitrary: m) (auto intro: set_powered)

lemma last_set_wins:
  assumes "powered m" and "accepts v"
  shows "get_attr (set_attr v (fold set_attr vs m)) = v"
  using assms by (intro get_set fold_powered)

lemma guest_is_told:
  assumes "powered m" and "accepts v" and "found_device m = Some s" and "int_enable s AND change = change"
  shows "\<exists>s'. found_device (set_attr v m) = Some s' \<and> irq s' \<noteq> 0 \<and>
    fst (goldfish_battery_read 0 s') AND ucast change = ucast change \<and>
    irq (snd (goldfish_battery_read 0 s')) = 0"
proof -
  obtain s' where s': "found_device (set_attr v m) = Some s'" "int_status s' AND change = change"
    "int_enable s' = int_enable s"
    using set_signals [OF assms(1-3)] by blast
  have both: "(int_status s' AND int_enable s') AND change = change"
    using s'(2,3) assms(4) by (metis and.assoc)
  then have "int_status s' AND int_enable s' \<noteq> 0" using change_range by auto
  moreover have "device_ok s'" using set_powered [OF assms(1), of v] s'(1) by (simp add: powered_def)
  ultimately show ?thesis using s'(1) both
    by (simp add: device_ok_def goldfish_battery_read_def flip: unsigned_and_eq)
qed

end

lemma set_prop_powered:
  assumes "powered m" and "battery_value_ok ac prop v"
  shows "powered (goldfish_battery_set_prop ac prop v m)"
  using assms store_ok [of _ ac "prop" v] signal_ok
  unfolding powered_def goldfish_battery_set_prop_def Let_def battery_consts
  by (auto split: option.splits)

lemma set_prop_signals:
  assumes "powered m" and "found_device m = Some s"
  shows "\<exists>s'. found_device (goldfish_battery_set_prop ac prop v m) = Some s' \<and>
    int_status s' AND (if ac then 2 else 1) = (if ac then 2 else 1) \<and> int_enable s' = int_enable s"
  using assms signal_pending
  unfolding powered_def goldfish_battery_set_prop_def Let_def battery_consts
  by (auto simp: device_ok_def)

lemma set_prop_unpowered:
  assumes "machine_ok m" and "\<not> powered m" and "prop \<noteq> POWER_SUPPLY_PROP_HAS_BATTERY"
  shows "goldfish_battery_set_prop ac prop v m = m"
  using assms unfolding machine_ok_def powered_def goldfish_battery_set_prop_def
  by (auto split: option.splits)

lemma set_prop_read:
  assumes "powered m"
  shows "goldfish_battery_read_prop POWER_SUPPLY_PROP_PRESENT (goldfish_battery_set_prop False POWER_SUPPLY_PROP_PRESENT v m) = v"
    and "goldfish_battery_read_prop POWER_SUPPLY_PROP_ONLINE (goldfish_battery_set_prop True POWER_SUPPLY_PROP_ONLINE v m) = v"
    and "goldfish_battery_read_prop POWER_SUPPLY_PROP_CAPACITY (goldfish_battery_set_prop False POWER_SUPPLY_PROP_CAPACITY v m) = v"
    and "goldfish_battery_read_prop POWER_SUPPLY_PROP_HEALTH (goldfish_battery_set_prop False POWER_SUPPLY_PROP_HEALTH v m) = v"
    and "goldfish_battery_read_prop POWER_SUPPLY_PROP_STATUS (goldfish_battery_set_prop False POWER_SUPPLY_PROP_STATUS v m) = v"
  using assms
  by (auto simp: powered_def goldfish_battery_set_prop_def goldfish_battery_read_prop_def battery_store_def Let_def
      split: option.splits)

lemmas set_prop_laws = set_prop_powered set_prop_read set_prop_unpowered small_value_ok health_value_ok status_value_ok

interpretation presence: battery_attribute setPresent isPresent "\<lambda>_. True" 1
  by unfold_locales
    (auto simp: setPresent_def isPresent_def set_prop_laws intro: set_prop_signals [where ac = False, simplified])

interpretation charging: battery_attribute setCharging isCharging "\<lambda>_. True" 2
  by unfold_locales
    (auto simp: setCharging_def isCharging_def set_prop_laws intro: set_prop_signals [where ac = True, simplified])

lemma setChargeLevel_in_range:
  "setChargeLevel p m =
     (if p \<le> 100 then goldfish_battery_set_prop False POWER_SUPPLY_PROP_CAPACITY p m else m)"
  using percent_range [of p] by (auto simp: setChargeLevel_def)

interpretation charge_level: battery_attribute setChargeLevel getChargeLevel "\<lambda>p. p \<le> 100" 1
  by unfold_locales
    (auto simp: setChargeLevel_in_range getChargeLevel_def battery_value_ok_def set_prop_laws
      intro: set_prop_signals [where ac = False, simplified])

interpretation health_state: battery_attribute setHealth getHealth "\<lambda>h. h \<noteq> Health_NUM_ENTRIES" 1
  by unfold_locales
    (auto simp: setHealth_def getHealth_def set_prop_laws health_value_def battery_consts battery_value_ok_def
      intro: set_prop_signals [where ac = False, simplified] split: health_type.split)

interpretation charge_status: battery_attribute Battery_setStatus Battery_getStatus "\<lambda>st. st \<noteq> Status_NUM_ENTRIES" 1
  by unfold_locales
    (auto simp: Battery_setStatus_def Battery_getStatus_def set_prop_laws status_value_def battery_consts battery_value_ok_def
      intro: set_prop_signals [where ac = False, simplified] split: status_type.split)

section \<open>Properties\<close>

text \<open>
  C37: Whatever the host sets through \<^verbatim>\<open>Battery\<close> and the guest reads and writes, in any order: a
  change the guest has enabled and not yet read holds the interrupt line up, the charge level stays
  within 0 and 100, health, status and the flags stay within their enumerations, and a machine
  without a battery never shows one.
\<close>

theorem battery_registers_in_range:
  assumes "battery_step\<^sup>*\<^sup>* battery_power_on m"
  shows "machine_ok m"
  using assms
proof induction
  case base
  show ?case by (simp add: machine_ok_def battery_power_on_def)
qed (rule battery_step_ok)

lemma battery_registers_in_range_witness:
  "machine_ok (setChargeLevel 40 (goldfish_battery_realize (setHasBattery True battery_power_on))) \<and>
   getChargeLevel (setChargeLevel 40 (goldfish_battery_realize (setHasBattery True battery_power_on))) = 40"
proof
  let ?m1 = "setHasBattery True battery_power_on" and ?m2 = "goldfish_battery_realize (setHasBattery True battery_power_on)"
  have "\<not> sBatteryIsRealized ?m1" by code_simp
  then have "battery_step\<^sup>*\<^sup>* battery_power_on ?m2"
    by (meson battery_step.intros(1,2) rtranclp.rtrancl_into_rtrancl rtranclp.rtrancl_refl)
  then have "battery_step\<^sup>*\<^sup>* battery_power_on (setChargeLevel 40 ?m2)"
    by (rule rtranclp.rtrancl_into_rtrancl) (rule battery_step.intros)
  then show "machine_ok (setChargeLevel 40 ?m2)" by (rule battery_registers_in_range)
  show "getChargeLevel (setChargeLevel 40 ?m2) = 40" by code_simp
qed

text \<open>
  On a machine with a battery the getter of each attribute returns what the last call of its
  setter gave it (the charge level for values from 0 to 100), and a change of the charge level
  that the guest listens to raises the interrupt, is what the guest finds in the status register, which
  lowers the line, and can then be read from the capacity register.
\<close>

theorem battery_set_get:
  assumes "powered m"
  shows "isPresent (setPresent b (fold setPresent bs m)) = b \<and>
    isCharging (setCharging b (fold setCharging bs m)) = b \<and>
    (p \<le> 100 \<longrightarrow> getChargeLevel (setChargeLevel p (fold setChargeLevel ps m)) = p) \<and>
    (h \<noteq> Health_NUM_ENTRIES \<longrightarrow> getHealth (setHealth h (fold setHealth hs m)) = h) \<and>
    (st \<noteq> Status_NUM_ENTRIES \<longrightarrow> Battery_getStatus (Battery_setStatus st (fold Battery_setStatus sts m)) = st) \<and>
    (\<forall>s. p \<le> 100 \<and> found_device m = Some s \<and> bit (int_enable s) 0 \<longrightarrow>
      (\<exists>s'. found_device (setChargeLevel p m) = Some s' \<and> irq s' \<noteq> 0 \<and>
        bit (fst (goldfish_battery_read BATTERY_INT_STATUS s')) 0 \<and>
        irq (snd (goldfish_battery_read BATTERY_INT_STATUS s')) = 0 \<and>
        fst (goldfish_battery_read BATTERY_CAPACITY (snd (goldfish_battery_read BATTERY_INT_STATUS s'))) = ucast p))"
proof (intro conjI allI impI)
  fix s
  assume p: "p \<le> 100 \<and> found_device m = Some s \<and> bit (int_enable s) 0"
  have one: "x AND 1 = 1 \<longleftrightarrow> bit x 0" for x :: "'a :: len word"
    by (simp add: and_one_eq bit_0 odd_iff_mod_2_eq_one)
  from charge_level.guest_is_told [OF assms, of p s] p obtain s' where
    s': "found_device (setChargeLevel p m) = Some s'" "irq s' \<noteq> 0"
      "bit (fst (goldfish_battery_read 0 s')) 0" "irq (snd (goldfish_battery_read 0 s')) = 0"
    by (auto simp: one)
  have "capacity s' = p"
    using charge_level.get_set [OF assms, of p] p s'(1) by (simp add: getChargeLevel_def goldfish_battery_read_prop_def)
  then have "fst (goldfish_battery_read 0x18 (snd (goldfish_battery_read 0 s'))) = ucast p"
    by (simp add: goldfish_battery_read_def Let_def)
  with s' show "\<exists>s'. found_device (setChargeLevel p m) = Some s' \<and> irq s' \<noteq> 0 \<and>
      bit (fst (goldfish_battery_read 0 s')) 0 \<and> irq (snd (goldfish_battery_read 0 s')) = 0 \<and>
      fst (goldfish_battery_read 0x18 (snd (goldfish_battery_read 0 s'))) = ucast p"
    by blast
qed (use assms presence.last_set_wins charging.last_set_wins charge_level.last_set_wins
    health_state.last_set_wins charge_status.last_set_wins in blast)+

lemma battery_set_get_witness:
  "getHealth (setHealth Health_DEAD (goldfish_battery_realize (setHasBattery True battery_power_on))) = Health_DEAD"
proof -
  have "powered (goldfish_battery_realize (setHasBattery True battery_power_on))" by code_simp
  from battery_set_get [OF this, of _ "[]" _ "[]" Health_DEAD "[]"] show ?thesis by simp
qed

text \<open>
  Two ways in which an interrupt goes wrong.  When the guest masks all interrupts while the
  line is up, the line stays up, and reading the status register, which shows nothing then, does
  not lower it.  When the guest reads a change it has enabled, a pending change it has masked is
  dropped as well: enabling it afterwards raises nothing.
\<close>

theorem battery_interrupt_flaws:
  assumes "irq s \<noteq> 0"
  shows "irq (snd (goldfish_battery_read BATTERY_INT_STATUS (goldfish_battery_write BATTERY_INT_ENABLE 0 s))) = irq s \<and>
    fst (goldfish_battery_read BATTERY_INT_STATUS (goldfish_battery_write BATTERY_INT_ENABLE 0 s)) = 0 \<and>
    (int_status s AND int_enable s \<noteq> 0 \<longrightarrow>
      irq (goldfish_battery_write BATTERY_INT_ENABLE w (snd (goldfish_battery_read BATTERY_INT_STATUS s))) = 0)"
  using assms by (simp add: goldfish_battery_write_def goldfish_battery_read_def Let_def)

lemma battery_interrupt_flaws_witness:
  "\<exists>s. found_device (setCharging False (goldfish_battery_realize (setHasBattery True battery_power_on))) = Some s \<and>
     irq (goldfish_battery_write BATTERY_INT_ENABLE 3 s) \<noteq> 0 \<and>
     irq (snd (goldfish_battery_read BATTERY_INT_STATUS (goldfish_battery_write BATTERY_INT_ENABLE 0
       (goldfish_battery_write BATTERY_INT_ENABLE 3 s)))) \<noteq> 0"
proof -
  let ?m = "setCharging False (goldfish_battery_realize (setHasBattery True battery_power_on))"
  have i: "irq (goldfish_battery_write 4 3 (the (found_device ?m))) \<noteq> 0" by code_simp
  have "found_device ?m = Some (the (found_device ?m))" by code_simp
  with i battery_interrupt_flaws [OF i] show ?thesis by (metis (no_types, lifting))
qed

text \<open>
  Loading a snapshot into a machine restores the saved registers; the fields that are not in the
  description, such as the current and the cycle count, keep the values of the loading machine.
\<close>

lemma battery_snapshot:
  "\<exists>s'. battery_vmsd_load (battery_vmsd_save s) t = Some s' \<and> battery_vmsd_save s' = battery_vmsd_save s \<and>
     voltage s' = voltage t \<and> temp s' = temp t \<and> charge_counter s' = charge_counter t \<and>
     current_now s' = current_now t \<and> current_avg s' = current_avg t \<and>
     charge_full_uah s' = charge_full_uah t \<and> cycle_count s' = cycle_count t \<and> irq s' = irq t"
  by (simp add: battery_vmsd_save_def)

end
