(* ===== verification/Socket_Waiter.thy ===== *)
theory Socket_Waiter
  imports Prelude
begin

text \<open>
  \<^verbatim>\<open>SelectSocketWaiter\<close> of \<^verbatim>\<open>SocketWaiter.cpp\<close>: the sets of file descriptors a looper waits for, with a
  cached bound on the largest of them, and the enumeration of the descriptors that became ready.
  The answers of \<^verbatim>\<open>select\<close> are arguments.  Accesses to a set outside of its \<^verbatim>\<open>FD_SETSIZE\<close> bits are
  undefined in C; they are the result \<^const>\<open>None\<close>.
\<close>

section \<open>State\<close>

definition FD_SETSIZE :: int where "FD_SETSIZE = 1024"

abbreviation (input) kEventRead :: u32 where "kEventRead \<equiv> 1"
abbreviation (input) kEventWrite :: u32 where "kEventWrite \<equiv> 2"

record socket_waiter =
  mReads :: "int set"
  mWrites :: "int set"
  mReadsResult :: "int set"
  mWritesResult :: "int set"
  mMaxFd :: int
  mMaxFdValid :: bool
  mPendingFd :: int

definition waiter_reset :: socket_waiter where
  "waiter_reset = \<lparr>mReads = {}, mWrites = {}, mReadsResult = {}, mWritesResult = {}, mMaxFd = - 1,
     mMaxFdValid = True, mPendingFd = 0\<rparr>"

definition isValidFd :: "int \<Rightarrow> bool" where
  "isValidFd fd \<longleftrightarrow> 0 \<le> fd \<and> fd < FD_SETSIZE"

section \<open>Operations\<close>

definition event_flags :: "int \<Rightarrow> int set \<Rightarrow> int set \<Rightarrow> u32" where
  "event_flags fd rs ws = (if fd \<in> rs then kEventRead else 0) OR (if fd \<in> ws then kEventWrite else 0)"

definition wantedEventsFor :: "int \<Rightarrow> socket_waiter \<Rightarrow> u32" where
  "wantedEventsFor fd w = (if \<not> isValidFd fd then 0 else event_flags fd (mReads w) (mWrites w))"

definition pendingEventsFor :: "int \<Rightarrow> socket_waiter \<Rightarrow> u32" where
  "pendingEventsFor fd w = (if \<not> isValidFd fd then 0 else event_flags fd (mReadsResult w) (mWritesResult w))"

definition change_fd :: "bool \<Rightarrow> bool \<Rightarrow> int \<Rightarrow> int set \<Rightarrow> int set option" where
  "change_fd changed wanted fd fds =
     (if \<not> changed then Some fds
      else if \<not> isValidFd fd then None
      else Some (if wanted then insert fd fds else fds - {fd}))"

definition waiter_update :: "int \<Rightarrow> u32 \<Rightarrow> socket_waiter \<Rightarrow> socket_waiter option" where
  "waiter_update fd events w =
     (let oldEvents = wantedEventsFor fd w; changed = events XOR oldEvents
      in if events = oldEvents then Some w
         else
           (case change_fd (changed AND kEventRead \<noteq> 0) (events AND kEventRead \<noteq> 0) fd (mReads w) of
              None \<Rightarrow> None
            | Some rs \<Rightarrow>
                (case change_fd (changed AND kEventWrite \<noteq> 0) (events AND kEventWrite \<noteq> 0) fd (mWrites w) of
                   None \<Rightarrow> None
                 | Some ws \<Rightarrow>
                     (let w1 = w\<lparr>mReads := rs, mWrites := ws\<rparr>
                      in Some (if oldEvents = 0 \<and> mMaxFdValid w1 \<and> fd > mMaxFd w1 then w1\<lparr>mMaxFd := fd\<rparr>
                               else if events = 0 \<and> mMaxFdValid w1 \<and> fd = mMaxFd w1 then w1\<lparr>mMaxFdValid := False\<rparr>
                               else w1)))))"

text \<open>The scan for the largest descriptor, and the cached count.\<close>

definition scan_max_fd :: "socket_waiter \<Rightarrow> int" where
  "scan_max_fd w =
     fold (\<lambda>fd maxFd. if fd \<notin> mReads w \<and> fd \<notin> mWrites w then maxFd else fd) [0..FD_SETSIZE - 1] (- 1)"

definition getFdCount :: "socket_waiter \<Rightarrow> int \<times> socket_waiter" where
  "getFdCount w =
     (if mMaxFdValid w then (mMaxFd w + 1, w)
      else (let maxFd = scan_max_fd w in (maxFd + 1, w\<lparr>mMaxFd := maxFd, mMaxFdValid := True\<rparr>)))"

definition hasFds :: "socket_waiter \<Rightarrow> bool \<times> socket_waiter" where
  "hasFds w = (let (count, w1) = getFdCount w in (count > 0, w1))"

text \<open>The \<^verbatim>\<open>timeval\<close> given to \<^verbatim>\<open>select\<close>; \<^const>\<open>None\<close> waits for ever.\<close>

definition select_timeout :: "int \<Rightarrow> (int \<times> int) option" where
  "select_timeout timeout_ms =
     (if timeout_ms < 0 \<or> timeout_ms = 2 ^ 63 - 1 then None
      else (let tv_sec = timeout_ms div 1000 in Some (tv_sec, (timeout_ms - 1000 * tv_sec) * 1000)))"

datatype select_answer = Interrupted | Failed | Ready int "int set" "int set"

text \<open>
  \<^verbatim>\<open>wait\<close>: the answers are those of the successive calls of \<^verbatim>\<open>select\<close>; the loop calls it again when it
  was interrupted.  A failed call leaves the result sets as they were copied.
\<close>

fun select_loop :: "select_answer list \<Rightarrow> socket_waiter \<Rightarrow> (int \<times> socket_waiter) option" where
  "select_loop [] w = None"
| "select_loop (Interrupted # as) w = select_loop as w"
| "select_loop (Failed # as) w = Some (- 1, w\<lparr>mReadsResult := mReads w, mWritesResult := mWrites w\<rparr>)"
| "select_loop (Ready n rs ws # as) w = Some (n, w\<lparr>mReadsResult := rs, mWritesResult := ws\<rparr>)"

definition waiter_wait :: "select_answer list \<Rightarrow> socket_waiter \<Rightarrow> (int \<times> socket_waiter) option" where
  "waiter_wait as w =
     (let (count, w1) = getFdCount w; w2 = w1\<lparr>mPendingFd := 0\<rparr>
      in if count \<le> 0 then Some (0, w2) else select_loop as w2)"

text \<open>The search for the next ready descriptor: \<^const>\<open>None\<close> when it looks past the end of the sets.\<close>

function next_pending :: "int \<Rightarrow> int \<Rightarrow> int set \<Rightarrow> int set \<Rightarrow> (int \<times> u32) option" where
  "next_pending count fd rs ws =
     (if fd < count then
        (let fd' = fd + 1
         in if \<not> isValidFd fd' then None
            else if event_flags fd' rs ws \<noteq> 0 then Some (fd', event_flags fd' rs ws)
            else next_pending count fd' rs ws)
      else Some (- 1, 0))"
  by auto
termination
  by (relation "measure (\<lambda>(count, fd, _). nat (count - fd))") auto

declare next_pending.simps [simp del]

definition nextPendingFd :: "socket_waiter \<Rightarrow> (int \<times> u32 \<times> socket_waiter) option" where
  "nextPendingFd w =
     (let (count, w1) = getFdCount w
      in map_option (\<lambda>(fd, events). (fd, events, if fd < 0 then w1 else w1\<lparr>mPendingFd := fd\<rparr>))
           (next_pending count (mPendingFd w1) (mReadsResult w1) (mWritesResult w1)))"

text \<open>The calls of a looper: \<^verbatim>\<open>nextPendingFd\<close> until it returns a negative number.\<close>

fun pending_fds :: "nat \<Rightarrow> socket_waiter \<Rightarrow> ((int \<times> u32) list \<times> socket_waiter) option" where
  "pending_fds 0 w = None"
| "pending_fds (Suc fuel) w =
     (case nextPendingFd w of
        None \<Rightarrow> None
      | Some (fd, events, w1) \<Rightarrow>
          if fd < 0 then Some ([], w1)
          else map_option (\<lambda>(fds, w2). ((fd, events) # fds, w2)) (pending_fds fuel w1))"

section \<open>The cached maximum\<close>

definition wanted :: "socket_waiter \<Rightarrow> int set" where
  "wanted w = mReads w \<union> mWrites w"

definition waiter_ok :: "socket_waiter \<Rightarrow> bool" where
  "waiter_ok w \<longleftrightarrow> (\<forall>fd \<in> wanted w. isValidFd fd) \<and> (mMaxFdValid w \<longrightarrow> mMaxFd w = Max (insert (- 1) (wanted w)))"

lemma wanted_finite: "waiter_ok w \<Longrightarrow> finite (wanted w)"
  by (rule finite_subset [of _ "{0..<FD_SETSIZE}"]) (auto simp: waiter_ok_def isValidFd_def)

lemma fold_last_wanted:
  "fold (\<lambda>fd m. if fd \<notin> A \<and> fd \<notin> B then m else fd) [0..int n - 1] (- 1) =
     Max (insert (- 1) ((A \<union> B) \<inter> {0..<int n}))"
proof (induction n)
  case (Suc n)
  have "[0..int (Suc n) - 1] = [0..int n - 1] @ [int n]" using upto_rec2 [of 0 "int n"] by simp
  moreover have "{0..<int (Suc n)} = insert (int n) {0..<int n}" by auto
  moreover have "Max (insert (int n) (insert (- 1) ((A \<union> B) \<inter> {0..<int n}))) = int n"
    by (rule Max_eqI) auto
  ultimately show ?case using Suc by (auto simp: insert_commute)
qed simp

lemma scan_max_fd_Max:
  assumes "waiter_ok w"
  shows "scan_max_fd w = Max (insert (- 1) (wanted w))"
proof -
  have "wanted w \<inter> {0..<FD_SETSIZE} = wanted w" using assms by (auto simp: waiter_ok_def isValidFd_def)
  then show ?thesis
    using fold_last_wanted [of "mReads w" "mWrites w" 1024] by (simp add: scan_max_fd_def wanted_def FD_SETSIZE_def)
qed

lemma getFdCount_ok:
  assumes "waiter_ok w"
  shows "\<exists>w'. getFdCount w = (Max (insert (- 1) (wanted w)) + 1, w') \<and> waiter_ok w' \<and>
    w' = w\<lparr>mMaxFd := Max (insert (- 1) (wanted w)), mMaxFdValid := True\<rparr>"
proof (cases "mMaxFdValid w")
  case True
  then have "w = w\<lparr>mMaxFd := Max (insert (- 1) (wanted w)), mMaxFdValid := True\<rparr>" using assms by (simp add: waiter_ok_def)
  then show ?thesis using True assms by (auto simp: getFdCount_def waiter_ok_def)
next
  case False
  then show ?thesis using assms scan_max_fd_Max [OF assms] by (simp add: getFdCount_def waiter_ok_def wanted_def Let_def)
qed

lemma change_fd_valid: "isValidFd fd \<Longrightarrow> change_fd c v fd fds = Some (if c then (if v then insert fd fds else fds - {fd}) else fds)"
  by (simp add: change_fd_def)

lemma event_flags_bits:
  "event_flags fd rs ws AND 1 \<noteq> 0 \<longleftrightarrow> fd \<in> rs"
  "event_flags fd rs ws AND 2 \<noteq> 0 \<longleftrightarrow> fd \<in> ws"
  "event_flags fd rs ws = 0 \<longleftrightarrow> fd \<notin> rs \<and> fd \<notin> ws"
  by (simp_all add: event_flags_def)

lemma update_sets:
  assumes "isValidFd fd" and "events \<in> {0, 1, 2, 3}"
  shows "\<exists>w'. waiter_update fd events w = Some w' \<and>
    mReads w' = (if events AND 1 \<noteq> 0 then insert fd (mReads w) else mReads w - {fd}) \<and>
    mWrites w' = (if events AND 2 \<noteq> 0 then insert fd (mWrites w) else mWrites w - {fd}) \<and>
    (mMaxFdValid w', mMaxFd w') =
      (if fd \<notin> wanted w \<and> events \<noteq> 0 \<and> mMaxFdValid w \<and> fd > mMaxFd w then (True, fd)
       else if events = 0 \<and> fd \<in> wanted w \<and> mMaxFdValid w \<and> fd = mMaxFd w then (False, mMaxFd w)
       else (mMaxFdValid w, mMaxFd w))"
  using assms(2) unfolding waiter_update_def wantedEventsFor_def Let_def change_fd_valid [OF assms(1)] wanted_def
  by (cases "fd \<in> mReads w"; cases "fd \<in> mWrites w") (auto simp: assms(1) event_flags_def insert_absorb)

lemma Max_remove_smaller:
  fixes x :: int
  assumes "finite A" and "x \<noteq> Max (insert b A)" and "x \<noteq> b"
  shows "Max (insert b (A - {x})) = Max (insert b A)"
proof (rule Max_eqI)
  show "Max (insert b A) \<in> insert b (A - {x})" using Max_in [of "insert b A"] assms by auto
qed (use assms in auto)

lemma update_ok:
  assumes "waiter_ok w" and "isValidFd fd" and "events \<in> {0, 1, 2, 3}"
  shows "\<exists>w'. waiter_update fd events w = Some w' \<and> waiter_ok w' \<and>
    wanted w' = (if events = 0 then wanted w - {fd} else insert fd (wanted w)) \<and>
    (\<forall>fd'. isValidFd fd' \<longrightarrow> wantedEventsFor fd' w' = (if fd' = fd then events else wantedEventsFor fd' w))"
proof -
  obtain w' where w': "waiter_update fd events w = Some w'"
    "mReads w' = (if events AND 1 \<noteq> 0 then insert fd (mReads w) else mReads w - {fd})"
    "mWrites w' = (if events AND 2 \<noteq> 0 then insert fd (mWrites w) else mWrites w - {fd})"
    and max: "(mMaxFdValid w', mMaxFd w') =
      (if fd \<notin> wanted w \<and> events \<noteq> 0 \<and> mMaxFdValid w \<and> fd > mMaxFd w then (True, fd)
       else if events = 0 \<and> fd \<in> wanted w \<and> mMaxFdValid w \<and> fd = mMaxFd w then (False, mMaxFd w)
       else (mMaxFdValid w, mMaxFd w))"
    using update_sets [OF assms(2,3), of w] by blast
  have set': "wanted w' = (if events = 0 then wanted w - {fd} else insert fd (wanted w))"
    using assms(3) w'(2,3) by (auto simp: wanted_def)
  have fin: "finite (wanted w)" using assms(1) by (rule wanted_finite)
  have neg: "fd \<noteq> - 1" using assms(2) by (simp add: isValidFd_def)
  have "mMaxFd w' = Max (insert (- 1) (wanted w'))" if v': "mMaxFdValid w'"
  proof -
    have v: "mMaxFdValid w" using v' max by (auto split: if_splits)
    then have m: "mMaxFd w = Max (insert (- 1) (wanted w))" using assms(1) by (simp add: waiter_ok_def)
    show ?thesis
    proof (cases "events = 0")
      case True
      then have "fd \<in> wanted w \<Longrightarrow> fd \<noteq> Max (insert (- 1) (wanted w))" using v v' max m by (auto split: if_splits)
      then have "Max (insert (- 1) (wanted w - {fd})) = Max (insert (- 1) (wanted w))"
        using Max_remove_smaller [OF fin _ neg] by (cases "fd \<in> wanted w") simp_all
      then show ?thesis using True max m v v' set' by (auto split: if_splits)
    next
      case False
      have "Max (insert fd (insert (- 1) (wanted w))) = max fd (Max (insert (- 1) (wanted w)))"
        using fin by (simp add: Max_insert)
      moreover have "fd \<in> wanted w \<Longrightarrow> fd \<le> Max (insert (- 1) (wanted w))" using fin by (simp add: Max_ge)
      ultimately show ?thesis using False max m v set' by (auto simp: insert_commute max_def split: if_splits)
    qed
  qed
  then have "waiter_ok w'" using assms(1,2) set' by (auto simp: waiter_ok_def split: if_splits)
  moreover have "wantedEventsFor fd' w' = (if fd' = fd then events else wantedEventsFor fd' w)" if "isValidFd fd'" for fd'
    using that assms(3) w'(2,3) by (auto simp: wantedEventsFor_def event_flags_def)
  ultimately show ?thesis using w'(1) set' by blast
qed

lemma reset_ok: "waiter_ok waiter_reset"
  by (simp add: waiter_ok_def waiter_reset_def wanted_def)

text \<open>A looper's updates: each for a descriptor in range, with the two events there are.\<close>

fun waiter_updates :: "(int \<times> u32) list \<Rightarrow> socket_waiter \<Rightarrow> socket_waiter option" where
  "waiter_updates [] w = Some w"
| "waiter_updates ((fd, events) # us) w = Option.bind (waiter_update fd events w) (waiter_updates us)"

lemma updates_ok:
  assumes "waiter_ok w" and "\<forall>(fd, events) \<in> set us. isValidFd fd \<and> events \<in> {0, 1, 2, 3}"
  shows "\<exists>w'. waiter_updates us w = Some w' \<and> waiter_ok w' \<and>
    (\<forall>fd. isValidFd fd \<longrightarrow> wantedEventsFor fd w' =
      (case map_of (rev us) fd of None \<Rightarrow> wantedEventsFor fd w | Some e \<Rightarrow> e))"
  using assms
proof (induction us arbitrary: w)
  case (Cons u us)
  obtain fd e where u: "u = (fd, e)" by fastforce
  obtain w1 where w1: "waiter_update fd e w = Some w1" "waiter_ok w1"
    "\<forall>fd'. isValidFd fd' \<longrightarrow> wantedEventsFor fd' w1 = (if fd' = fd then e else wantedEventsFor fd' w)"
    using update_ok [OF Cons.prems(1), of fd e] Cons.prems(2) u by auto
  obtain w' where "waiter_updates us w1 = Some w'" "waiter_ok w'"
    "\<forall>fd. isValidFd fd \<longrightarrow> wantedEventsFor fd w' =
      (case map_of (rev us) fd of None \<Rightarrow> wantedEventsFor fd w1 | Some e \<Rightarrow> e)"
    using Cons.IH [OF w1(2)] Cons.prems(2) by auto
  then show ?case using w1 u by (auto simp: map_add_def split: option.splits)
qed auto

section \<open>The ready descriptors\<close>

lemma filter_upto_Cons:
  "filter P [i..j] = f # fs \<Longrightarrow> i \<le> f \<and> f \<le> j \<and> P f \<and> fs = filter P [f + 1..j]"
proof (induction i j rule: upto.induct)
  case (1 i j)
  then show ?case by (cases "i \<le> j"; cases "P i") (auto simp: upto_rec1)
qed

lemma next_pending_spec:
  assumes "0 \<le> fd" and "count < FD_SETSIZE"
  shows "next_pending count fd rs ws =
    (case filter (\<lambda>f. f \<in> rs \<union> ws) [fd + 1..count] of
       [] \<Rightarrow> Some (- 1, 0) | f # _ \<Rightarrow> Some (f, event_flags f rs ws))"
  using assms
proof (induction count fd rs ws rule: next_pending.induct)
  case (1 count fd rs ws)
  show ?case
  proof (cases "fd < count")
    case True
    then have "isValidFd (fd + 1)" using 1 by (simp add: isValidFd_def)
    moreover have "[fd + 1..count] = (fd + 1) # [fd + 1 + 1..count]" using True by (simp add: upto_rec1)
    ultimately show ?thesis using 1 True
      by (subst next_pending.simps) (auto simp: Let_def event_flags_bits)
  qed (simp add: next_pending.simps)
qed

definition ready :: "socket_waiter \<Rightarrow> int \<Rightarrow> bool" where
  "ready w fd \<longleftrightarrow> fd \<in> mReadsResult w \<union> mWritesResult w"

lemma pending_fds_spec:
  assumes "waiter_ok w" and "0 \<le> mPendingFd w" and "FD_SETSIZE - 1 \<notin> wanted w"
    and "length (filter (ready w) [mPendingFd w + 1..Max (insert (- 1) (wanted w)) + 1]) < fuel"
  shows "\<exists>w'. pending_fds fuel w =
    Some (map (\<lambda>fd. (fd, event_flags fd (mReadsResult w) (mWritesResult w)))
            (filter (ready w) [mPendingFd w + 1..Max (insert (- 1) (wanted w)) + 1]), w') \<and>
    waiter_ok w' \<and> wanted w' = wanted w"
  using assms
proof (induction fuel arbitrary: w)
  case (Suc fuel)
  let ?c = "Max (insert (- 1) (wanted w)) + 1"
  obtain w1 where w1: "getFdCount w = (?c, w1)" "waiter_ok w1"
    "w1 = w\<lparr>mMaxFd := Max (insert (- 1) (wanted w)), mMaxFdValid := True\<rparr>"
    using getFdCount_ok [OF Suc.prems(1)] by blast
  have "Max (insert (- 1) (wanted w)) \<in> insert (- 1) (wanted w)"
    using wanted_finite [OF Suc.prems(1)] by (intro Max_in) auto
  then have "?c < FD_SETSIZE" using Suc.prems(1,3) unfolding waiter_ok_def isValidFd_def
    by (cases "Max (insert (- 1) (wanted w)) = FD_SETSIZE - 1") (force simp: FD_SETSIZE_def)+
  from next_pending_spec [OF Suc.prems(2) this]
  have np: "next_pending ?c (mPendingFd w) (mReadsResult w) (mWritesResult w) =
      (case filter (ready w) [mPendingFd w + 1..?c] of
         [] \<Rightarrow> Some (- 1, 0) | f # _ \<Rightarrow> Some (f, event_flags f (mReadsResult w) (mWritesResult w)))"
    by (simp add: ready_def [abs_def])
  show ?case
  proof (cases "filter (ready w) [mPendingFd w + 1..?c]")
    case Nil
    then show ?thesis using np w1 by (simp add: nextPendingFd_def wanted_def)
  next
    case (Cons f fs)
    let ?w = "w1\<lparr>mPendingFd := f\<rparr>"
    have f: "mPendingFd w + 1 \<le> f" "fs = filter (ready w) [f + 1..?c]" using filter_upto_Cons [OF Cons] by auto
    have wanted: "wanted ?w = wanted w" and ready: "ready ?w = ready w" by (auto simp: w1(3) wanted_def ready_def)
    have "waiter_ok ?w" using w1(2) by (simp add: waiter_ok_def wanted_def)
    then have "\<exists>w'. pending_fds fuel ?w =
        Some (map (\<lambda>fd. (fd, event_flags fd (mReadsResult w) (mWritesResult w))) fs, w') \<and>
        waiter_ok w' \<and> wanted w' = wanted w"
      using Suc.IH [of ?w] Suc.prems f Cons unfolding wanted ready by (simp add: w1(3))
    then show ?thesis using np Cons w1 f(1) Suc.prems(2) by (auto simp: nextPendingFd_def)
  qed
qed simp

lemma select_loop_keeps:
  assumes "select_loop as v = Some (n, w1)" and "waiter_ok v"
  shows "waiter_ok w1 \<and> wanted w1 = wanted v \<and> mPendingFd w1 = mPendingFd v"
  using assms by (induction as v rule: select_loop.induct) (auto simp: waiter_ok_def wanted_def)

lemma wait_ok:
  assumes "waiter_ok w" and "waiter_wait as w = Some (n, w1)"
  shows "waiter_ok w1 \<and> wanted w1 = wanted w \<and> mPendingFd w1 = 0"
proof -
  obtain w0 where w0: "getFdCount w = (Max (insert (- 1) (wanted w)) + 1, w0)" "waiter_ok w0" "wanted w0 = wanted w"
    using getFdCount_ok [OF assms(1)] by (auto simp: wanted_def)
  have "waiter_ok (w0\<lparr>mPendingFd := 0\<rparr>)" "wanted (w0\<lparr>mPendingFd := 0\<rparr>) = wanted w"
    using w0(2,3) by (simp_all add: waiter_ok_def wanted_def)
  then show ?thesis
    using assms(2) w0(1) select_loop_keeps [of as "w0\<lparr>mPendingFd := 0\<rparr>"]
    by (auto simp: waiter_wait_def Let_def split: if_splits)
qed

section \<open>Properties\<close>



text \<open>
  When \<^verbatim>\<open>select\<close> has answered, with a subset of the descriptors it was asked for, the calls of
  \<^verbatim>\<open>nextPendingFd\<close> return every ready descriptor but descriptor 0 once, in ascending order, with its
  events, and then end, as long as the last descriptor of the sets is not waited for.
\<close>

theorem ready_descriptors_enumerated:
  assumes "waiter_ok w" and "FD_SETSIZE - 1 \<notin> wanted w" and "wanted w \<noteq> {}"
    and "waiter_wait as w = Some (n, w1)"
    and "mReadsResult w1 \<subseteq> mReads w" and "mWritesResult w1 \<subseteq> mWrites w"
  shows "\<exists>fds w2. pending_fds 1025 w1 = Some (fds, w2) \<and> sorted_wrt (<) (map fst fds) \<and>
    set fds = {(fd, pendingEventsFor fd w1) |fd. fd \<in> mReadsResult w1 \<union> mWritesResult w1 \<and> fd \<noteq> 0}"
proof -
  have fin: "finite (wanted w)" using assms(1) by (rule wanted_finite)
  have le: "fd \<le> Max (insert (- 1) (wanted w))" if "fd \<in> wanted w" for fd using that fin by simp
  have w1: "waiter_ok w1" "wanted w1 = wanted w" "mPendingFd w1 = 0" using wait_ok [OF assms(1,4)] by auto
  let ?c = "Max (insert (- 1) (wanted w)) + 1"
  have "Max (insert (- 1) (wanted w)) < FD_SETSIZE"
    using assms(1) fin by (auto simp: waiter_ok_def isValidFd_def FD_SETSIZE_def)
  then have "length (filter (ready w1) [1..?c]) < 1025"
    using length_filter_le [of "ready w1" "[1..?c]"] by (simp add: FD_SETSIZE_def)
  then obtain w2 where p: "pending_fds 1025 w1 =
      Some (map (\<lambda>fd. (fd, event_flags fd (mReadsResult w1) (mWritesResult w1))) (filter (ready w1) [1..?c]), w2)"
      (is "_ = Some (?fds, w2)")
    using pending_fds_spec [OF w1(1), of 1025] assms(2) w1(2,3) by auto
  have sorted: "sorted_wrt (<) (map fst ?fds)" by (simp add: comp_def sorted_wrt_filter)
  have "ready w1 fd \<Longrightarrow> fd \<in> wanted w" for fd using assms(5,6) by (auto simp: ready_def wanted_def)
  then have valid: "ready w1 fd \<Longrightarrow> isValidFd fd" and upper: "ready w1 fd \<Longrightarrow> fd \<le> ?c" for fd
    using assms(1) le [of fd] by (auto simp: waiter_ok_def)
  have iff: "ready w1 fd \<and> 1 \<le> fd \<and> fd \<le> ?c \<longleftrightarrow> fd \<in> mReadsResult w1 \<union> mWritesResult w1 \<and> fd \<noteq> 0" for fd
    using valid [of fd] upper [of fd] unfolding ready_def isValidFd_def by auto
  have "set ?fds = (\<lambda>fd. (fd, pendingEventsFor fd w1)) ` {fd. ready w1 fd \<and> 1 \<le> fd \<and> fd \<le> ?c}"
    using valid by (force simp: pendingEventsFor_def)
  then have "set ?fds = {(fd, pendingEventsFor fd w1) |fd. fd \<in> mReadsResult w1 \<union> mWritesResult w1 \<and> fd \<noteq> 0}"
    unfolding iff by blast
  with p sorted show ?thesis by blast
qed

lemma ready_descriptors_enumerated_witness:
  "\<exists>fds w2. pending_fds 1025 (waiter_reset\<lparr>mReads := {0, 4, 9}, mMaxFd := 9, mReadsResult := {0, 9}\<rparr>) = Some (fds, w2) \<and>
     set fds = {(9, 1)}"
proof -
  let ?w = "waiter_reset\<lparr>mReads := {0, 4, 9}, mMaxFd := 9\<rparr>" and ?r = "{0, 9} :: int set"
  have "waiter_ok ?w" "FD_SETSIZE - 1 \<notin> wanted ?w" "wanted ?w \<noteq> {}"
    by (auto simp: waiter_ok_def wanted_def waiter_reset_def isValidFd_def FD_SETSIZE_def)
  moreover have "waiter_wait [Interrupted, Ready 2 ?r {}] ?w = Some (2, ?w\<lparr>mReadsResult := ?r\<rparr>)"
    by (simp add: waiter_wait_def getFdCount_def waiter_reset_def)
  ultimately obtain fds w2 where fds: "pending_fds 1025 (?w\<lparr>mReadsResult := ?r\<rparr>) = Some (fds, w2)"
    "set fds = {(fd, pendingEventsFor fd (?w\<lparr>mReadsResult := ?r\<rparr>)) |fd. fd \<in> ?r \<union> {} \<and> fd \<noteq> 0}"
    using ready_descriptors_enumerated [of ?w "[Interrupted, Ready 2 ?r {}]" 2 "?w\<lparr>mReadsResult := ?r\<rparr>"]
    by (auto simp: waiter_reset_def)
  have "pendingEventsFor 9 (?w\<lparr>mReadsResult := ?r\<rparr>) = 1"
    by (simp add: pendingEventsFor_def isValidFd_def FD_SETSIZE_def event_flags_def waiter_reset_def)
  then have "set fds = {(9, 1)}" using fds(2) by auto
  then show ?thesis using fds(1) by (intro exI) simp
qed

text \<open>
  Outside of these conditions the code leaves the sets: waiting for a descriptor that does not fit
  into a set writes past its end, and while the last descriptor is waited for, every
  enumeration ends by reading the bit after the end.
\<close>

lemma large_descriptor_overruns:
  assumes "FD_SETSIZE \<le> fd" and "events \<in> {1, 2, 3}"
  shows "waiter_update fd events w = None"
  using assms by (auto simp: waiter_update_def wantedEventsFor_def isValidFd_def change_fd_def Let_def)

lemma last_descriptor_overruns:
  assumes "waiter_ok w" and "FD_SETSIZE - 1 \<in> wanted w" and "\<forall>fd > mPendingFd w. \<not> ready w fd"
    and "mPendingFd w < FD_SETSIZE"
  shows "nextPendingFd w = None"
proof -
  have "Max (insert (- 1) (wanted w)) = FD_SETSIZE - 1"
    using assms(1,2) wanted_finite [OF assms(1)] by (intro Max_eqI) (auto simp: waiter_ok_def isValidFd_def FD_SETSIZE_def)
  moreover have "next_pending FD_SETSIZE fd rs ws = None"
    if "fd < FD_SETSIZE" "\<forall>f > fd. f \<notin> rs \<union> ws" for fd rs ws
    using that
  proof (induction "FD_SETSIZE" fd rs ws rule: next_pending.induct)
    case (1 fd rs ws)
    then show ?case by (subst next_pending.simps) (auto simp: isValidFd_def event_flags_bits Let_def)
  qed
  ultimately show ?thesis
    using getFdCount_ok [OF assms(1)] assms(3,4) by (auto simp: nextPendingFd_def ready_def)
qed

end
