(* ===== verification/Looper.thy ===== *)
theory Looper
  imports Socket_Waiter "HOL-Library.Monad_Syntax"
begin

text \<open>
  The event loop \<^verbatim>\<open>DefaultLooper\<close>: timers, watches on file descriptors and tasks, whose callbacks may
  call the looper again.  Objects are named by numbers; the maps \<open>timers\<close>, \<open>watches\<close> and \<open>tasks\<close> hold
  the live ones, so a pointer to a deleted object is a number outside of the map.  An
  iterator stored in \<^verbatim>\<open>mTimers\<close> or \<^verbatim>\<open>mFdWatches\<close> is modelled by the list its node is in.  The result
  \<^const>\<open>None\<close> stands for undefined behaviour (a dangling pointer, an iterator erased from a list it
  does not belong to), a failed check, or a loop that does not end.  Callbacks are a parameter: what
  a callback does is a list of operations on the looper, which may depend on its state.
\<close>

section \<open>State\<close>

abbreviation (input) kDurationInfinite :: int where "kDurationInfinite \<equiv> 2 ^ 63 - 1"
abbreviation (input) kEventMask :: u32 where "kEventMask \<equiv> 3"

datatype list_place = AtEnd | InActive | InPending | Erased

record looper_timer =
  mDeadline :: int
  timer_mPending :: bool

record looper_watch =
  mFd :: int
  mWantedEvents :: u32
  mLastEvents :: u32
  watch_mPending :: bool

datatype callback = TimerCb nat | WatchCb nat int u32 | TaskCb nat

text \<open>
  \<open>running\<close> is the local variable \<^verbatim>\<open>tasks\<close> of an iteration, without the tasks that are through;
  \<open>fired\<close> records the callbacks in the order of their calls.
\<close>

record looper =
  timers :: "nat \<rightharpoonup> looper_timer"
  mTimers :: "nat \<rightharpoonup> list_place"
  mActiveTimers :: "nat list"
  mPendingTimers :: "nat list"
  watches :: "nat \<rightharpoonup> looper_watch"
  mFdWatches :: "(nat \<times> list_place) list"
  mPendingFdWatches :: "nat list"
  mWaiter :: socket_waiter
  tasks :: "nat \<rightharpoonup> bool"
  mScheduledTasks :: "nat list"
  mForcedExit :: bool
  running :: "nat list"
  fired :: "callback list"

definition new_looper :: looper where
  "new_looper = \<lparr>timers = Map.empty, mTimers = Map.empty, mActiveTimers = [], mPendingTimers = [],
     watches = Map.empty, mFdWatches = [], mPendingFdWatches = [], mWaiter = waiter_reset,
     tasks = Map.empty, mScheduledTasks = [], mForcedExit = False, running = [], fired = []\<rparr>"

section \<open>Timers\<close>

definition addTimer :: "nat \<Rightarrow> looper \<Rightarrow> looper" where
  "addTimer t L = L\<lparr>mTimers := (mTimers L)(t \<mapsto> AtEnd)\<rparr>"

definition delTimer :: "nat \<Rightarrow> looper \<Rightarrow> looper" where
  "delTimer t L = L\<lparr>mTimers := (mTimers L)(t := None)\<rparr>"

definition Timer_new :: "nat \<Rightarrow> looper \<Rightarrow> looper option" where
  "Timer_new t L =
     (if timers L t \<noteq> None then None
      else Some (addTimer t (L\<lparr>timers := (timers L)(t \<mapsto> \<lparr>mDeadline = kDurationInfinite, timer_mPending = False\<rparr>)\<rparr>)))"

text \<open>The position before the first timer that expires later; the search reads the deadlines of the list.\<close>

fun insert_by_deadline :: "(nat \<Rightarrow> int option) \<Rightarrow> int \<Rightarrow> nat \<Rightarrow> nat list \<Rightarrow> nat list option" where
  "insert_by_deadline dl d t [] = Some [t]"
| "insert_by_deadline dl d t (u # us) =
     (case dl u of
        None \<Rightarrow> None
      | Some e \<Rightarrow> if e > d then Some (t # u # us) else map_option ((#) u) (insert_by_deadline dl d t us))"

definition deadline :: "looper \<Rightarrow> nat \<Rightarrow> int option" where
  "deadline L t = map_option mDeadline (timers L t)"

definition enableTimer :: "nat \<Rightarrow> looper \<Rightarrow> looper option" where
  "enableTimer t L =
     do {
       d \<leftarrow> deadline L t;
       ts \<leftarrow> insert_by_deadline (deadline L) d t (mActiveTimers L);
       Some (L\<lparr>mActiveTimers := ts, mTimers := (mTimers L)(t \<mapsto> InActive)\<rparr>)
     }"

definition disableTimer :: "nat \<Rightarrow> looper \<Rightarrow> looper option" where
  "disableTimer t L =
     (if mTimers L t = Some InActive
      then Some (L\<lparr>mActiveTimers := remove1 t (mActiveTimers L), mTimers := (mTimers L)(t \<mapsto> Erased)\<rparr>)
      else None)"

definition addPendingTimer :: "nat \<Rightarrow> looper \<Rightarrow> looper" where
  "addPendingTimer t L =
     L\<lparr>mPendingTimers := mPendingTimers L @ [t], mTimers := (mTimers L)(t \<mapsto> InPending)\<rparr>"

definition delPendingTimer :: "nat \<Rightarrow> looper \<Rightarrow> looper option" where
  "delPendingTimer t L =
     (if mTimers L t = Some InPending
      then Some (L\<lparr>mPendingTimers := remove1 t (mPendingTimers L), mTimers := (mTimers L)(t \<mapsto> Erased)\<rparr>)
      else None)"

definition startAbsolute :: "nat \<Rightarrow> int \<Rightarrow> looper \<Rightarrow> looper option" where
  "startAbsolute t deadlineMs L =
     do {
       tm \<leftarrow> timers L t;
       L1 \<leftarrow> (if mDeadline tm \<noteq> kDurationInfinite then disableTimer t L else Some L);
       let L2 = L1\<lparr>timers := (timers L1)(t \<mapsto> tm\<lparr>mDeadline := deadlineMs\<rparr>)\<rparr>;
       if deadlineMs \<noteq> kDurationInfinite then enableTimer t L2 else Some L2
     }"

text \<open>The sum of a relative start overflows outside of 64 bits.\<close>

definition startRelative :: "nat \<Rightarrow> int \<Rightarrow> int \<Rightarrow> looper \<Rightarrow> looper option" where
  "startRelative t deadlineMs now L =
     (if deadlineMs = kDurationInfinite then startAbsolute t deadlineMs L
      else if - (2 ^ 63) \<le> deadlineMs + now \<and> deadlineMs + now < 2 ^ 63 then startAbsolute t (deadlineMs + now) L
      else None)"

definition Timer_stop :: "nat \<Rightarrow> looper \<Rightarrow> looper option" where
  "Timer_stop t = startAbsolute t kDurationInfinite"

definition Timer_isActive :: "nat \<Rightarrow> looper \<Rightarrow> bool option" where
  "Timer_isActive t L = map_option (\<lambda>tm. mDeadline tm \<noteq> kDurationInfinite) (timers L t)"

definition Timer_setPending :: "nat \<Rightarrow> looper \<Rightarrow> looper option" where
  "Timer_setPending t L =
     map_option (\<lambda>tm. addPendingTimer t (L\<lparr>timers := (timers L)(t \<mapsto> tm\<lparr>timer_mPending := True\<rparr>)\<rparr>)) (timers L t)"

definition Timer_clearPending :: "nat \<Rightarrow> looper \<Rightarrow> looper option" where
  "Timer_clearPending t L =
     do {
       tm \<leftarrow> timers L t;
       if timer_mPending tm
       then map_option (\<lambda>L1. L1\<lparr>timers := (timers L1)(t \<mapsto> tm\<lparr>timer_mPending := False, mDeadline := kDurationInfinite\<rparr>)\<rparr>)
              (delPendingTimer t L)
       else Some L
     }"

definition Timer_delete :: "nat \<Rightarrow> looper \<Rightarrow> looper option" where
  "Timer_delete t L =
     map_option (\<lambda>L1. (delTimer t L1)\<lparr>timers := (timers L1)(t := None)\<rparr>) (Timer_clearPending t L)"

definition Timer_save :: "nat \<Rightarrow> looper \<Rightarrow> u64 option" where
  "Timer_save t L = map_option (\<lambda>tm. word_of_int (mDeadline tm)) (timers L t)"

definition Timer_load :: "nat \<Rightarrow> u64 \<Rightarrow> looper \<Rightarrow> looper option" where
  "Timer_load t v = startAbsolute t (sint v)"

section \<open>Watches\<close>

definition addFdWatch :: "nat \<Rightarrow> looper \<Rightarrow> looper" where
  "addFdWatch w L = L\<lparr>mFdWatches := mFdWatches L @ [(w, AtEnd)]\<rparr>"

definition delFdWatch :: "nat \<Rightarrow> looper \<Rightarrow> looper" where
  "delFdWatch w L = L\<lparr>mFdWatches := AList.delete w (mFdWatches L)\<rparr>"

definition addPendingFdWatch :: "nat \<Rightarrow> looper \<Rightarrow> looper" where
  "addPendingFdWatch w L =
     L\<lparr>mPendingFdWatches := mPendingFdWatches L @ [w], mFdWatches := AList.update w InPending (mFdWatches L)\<rparr>"

definition delPendingFdWatch :: "nat \<Rightarrow> looper \<Rightarrow> looper option" where
  "delPendingFdWatch w L =
     (if map_of (mFdWatches L) w = Some InPending
      then Some (L\<lparr>mPendingFdWatches := remove1 w (mPendingFdWatches L),
                   mFdWatches := AList.update w Erased (mFdWatches L)\<rparr>)
      else None)"

definition FdWatch_new :: "nat \<Rightarrow> int \<Rightarrow> looper \<Rightarrow> looper option" where
  "FdWatch_new w fd L =
     (if watches L w \<noteq> None then None
      else Some (addFdWatch w (L\<lparr>watches := (watches L)(w \<mapsto>
             \<lparr>mFd = fd, mWantedEvents = 0, mLastEvents = 0, watch_mPending = False\<rparr>)\<rparr>)))"

definition updateFdWatch :: "int \<Rightarrow> u32 \<Rightarrow> looper \<Rightarrow> looper option" where
  "updateFdWatch fd events L = map_option (\<lambda>wt. L\<lparr>mWaiter := wt\<rparr>) (waiter_update fd events (mWaiter L))"

definition FdWatch_clearPending :: "nat \<Rightarrow> looper \<Rightarrow> looper option" where
  "FdWatch_clearPending w L =
     do {
       wt \<leftarrow> watches L w;
       if watch_mPending wt
       then map_option (\<lambda>L1. L1\<lparr>watches := (watches L1)(w \<mapsto> wt\<lparr>watch_mPending := False\<rparr>)\<rparr>) (delPendingFdWatch w L)
       else Some L
     }"

definition addEvents :: "nat \<Rightarrow> u32 \<Rightarrow> looper \<Rightarrow> looper option" where
  "addEvents w events L =
     do {
       wt \<leftarrow> watches L w;
       let newEvents = mWantedEvents wt OR (events AND kEventMask);
       if newEvents \<noteq> mWantedEvents wt
       then updateFdWatch (mFd wt) newEvents (L\<lparr>watches := (watches L)(w \<mapsto> wt\<lparr>mWantedEvents := newEvents\<rparr>)\<rparr>)
       else Some L
     }"

definition removeEvents :: "nat \<Rightarrow> u32 \<Rightarrow> looper \<Rightarrow> looper option" where
  "removeEvents w events0 L =
     do {
       wt \<leftarrow> watches L w;
       let events = events0 AND kEventMask;
       let newEvents = mWantedEvents wt AND NOT events;
       L1 \<leftarrow> (if newEvents \<noteq> mWantedEvents wt
              then do {
                L2 \<leftarrow> updateFdWatch (mFd wt) newEvents (L\<lparr>watches := (watches L)(w \<mapsto> wt\<lparr>mWantedEvents := newEvents\<rparr>)\<rparr>);
                if newEvents = 0 then FdWatch_clearPending w L2 else Some L2
              }
              else Some L);
       wt1 \<leftarrow> watches L1 w;
       Some (L1\<lparr>watches := (watches L1)(w \<mapsto> wt1\<lparr>mLastEvents := mLastEvents wt1 AND NOT events\<rparr>)\<rparr>)
     }"

definition FdWatch_setPending :: "nat \<Rightarrow> u32 \<Rightarrow> looper \<Rightarrow> looper option" where
  "FdWatch_setPending w events L =
     do {
       wt \<leftarrow> watches L w;
       if watch_mPending wt then None
       else Some (addPendingFdWatch w
              (L\<lparr>watches := (watches L)(w \<mapsto> wt\<lparr>watch_mPending := True, mLastEvents := events AND kEventMask\<rparr>)\<rparr>))
     }"

definition FdWatch_delete :: "nat \<Rightarrow> looper \<Rightarrow> looper option" where
  "FdWatch_delete w L =
     do {
       L1 \<leftarrow> removeEvents w kEventWrite L;
       L2 \<leftarrow> removeEvents w kEventRead L1;
       L3 \<leftarrow> FdWatch_clearPending w L2;
       Some ((delFdWatch w L3)\<lparr>watches := (watches L3)(w := None)\<rparr>)
     }"

section \<open>Tasks\<close>

definition addTask :: "nat \<Rightarrow> looper \<Rightarrow> looper" where
  "addTask k L = L\<lparr>mScheduledTasks := List.insert k (mScheduledTasks L)\<rparr>"

definition delTask :: "nat \<Rightarrow> looper \<Rightarrow> looper" where
  "delTask k L = L\<lparr>mScheduledTasks := removeAll k (mScheduledTasks L)\<rparr>"

definition Task_new :: "nat \<Rightarrow> bool \<Rightarrow> looper \<Rightarrow> looper option" where
  "Task_new k selfDeleting L =
     (if tasks L k \<noteq> None then None else Some (L\<lparr>tasks := (tasks L)(k \<mapsto> selfDeleting)\<rparr>))"

definition Task_schedule :: "nat \<Rightarrow> looper \<Rightarrow> looper option" where
  "Task_schedule k L = (if tasks L k = None then None else Some (addTask k L))"

definition Task_cancel :: "nat \<Rightarrow> looper \<Rightarrow> looper option" where
  "Task_cancel k L = (if tasks L k = None then None else Some (delTask k L))"

definition Task_delete :: "nat \<Rightarrow> looper \<Rightarrow> looper option" where
  "Task_delete k L = map_option (\<lambda>L1. L1\<lparr>tasks := (tasks L1)(k := None)\<rparr>) (Task_cancel k L)"

definition scheduleCallback :: "nat \<Rightarrow> looper \<Rightarrow> looper option" where
  "scheduleCallback k L = Option.bind (Task_new k True L) (Task_schedule k)"

section \<open>Callbacks\<close>

datatype looper_op =
    CreateTimer nat | DeleteTimer nat | StartAbsolute nat int | StartRelative nat int int | StopTimer nat
  | CreateFdWatch nat int | DeleteFdWatch nat | AddEvents nat u32 | RemoveEvents nat u32
  | CreateTask nat | DeleteTask nat | ScheduleTask nat | CancelTask nat | ScheduleCallback nat
  | ForceQuit

fun exec_op :: "looper_op \<Rightarrow> looper \<Rightarrow> looper option" where
  "exec_op (CreateTimer t) L = Timer_new t L"
| "exec_op (DeleteTimer t) L = Timer_delete t L"
| "exec_op (StartAbsolute t d) L = startAbsolute t d L"
| "exec_op (StartRelative t d now) L = startRelative t d now L"
| "exec_op (StopTimer t) L = Timer_stop t L"
| "exec_op (CreateFdWatch w fd) L = FdWatch_new w fd L"
| "exec_op (DeleteFdWatch w) L = FdWatch_delete w L"
| "exec_op (AddEvents w e) L = addEvents w e L"
| "exec_op (RemoveEvents w e) L = removeEvents w e L"
| "exec_op (CreateTask k) L = Task_new k False L"
| "exec_op (DeleteTask k) L = Task_delete k L"
| "exec_op (ScheduleTask k) L = Task_schedule k L"
| "exec_op (CancelTask k) L = Task_cancel k L"
| "exec_op (ScheduleCallback k) L = scheduleCallback k L"
| "exec_op ForceQuit L = Some (L\<lparr>mForcedExit := True\<rparr>)"

fun exec_ops :: "looper_op list \<Rightarrow> looper \<Rightarrow> looper option" where
  "exec_ops [] L = Some L"
| "exec_ops (x # xs) L = Option.bind (exec_op x L) (exec_ops xs)"

type_synonym callbacks = "callback \<Rightarrow> looper \<Rightarrow> looper_op list"

definition fire :: "callbacks \<Rightarrow> callback \<Rightarrow> looper \<Rightarrow> looper option" where
  "fire cb c L = (let L1 = L\<lparr>fired := fired L @ [c]\<rparr> in exec_ops (cb c L1) L1)"

definition FdWatch_fire :: "callbacks \<Rightarrow> nat \<Rightarrow> looper \<Rightarrow> looper option" where
  "FdWatch_fire cb w L =
     do {
       wt \<leftarrow> watches L w;
       fire cb (WatchCb w (mFd wt) (mLastEvents wt)) (L\<lparr>watches := (watches L)(w \<mapsto> wt\<lparr>mLastEvents := 0\<rparr>)\<rparr>)
     }"

text \<open>A task that deletes itself is read again after its callback.\<close>

definition Task_run :: "callbacks \<Rightarrow> nat \<Rightarrow> looper \<Rightarrow> looper option" where
  "Task_run cb k L =
     (if tasks L k = None then None
      else do {
        L1 \<leftarrow> fire cb (TaskCb k) L;
        selfDeleting \<leftarrow> tasks L1 k;
        if selfDeleting then Task_delete k L1 else Some L1
      })"

section \<open>The loop\<close>

text \<open>What the system answers during one iteration.\<close>

record iteration_env =
  now_before :: int
  task_order :: "nat list \<Rightarrow> nat list"
  select_answers :: "select_answer list"
  now_after :: int

fun run_tasks :: "callbacks \<Rightarrow> nat list \<Rightarrow> looper \<Rightarrow> looper option" where
  "run_tasks cb [] L = Some (L\<lparr>running := []\<rparr>)"
| "run_tasks cb (k # ks) L = Option.bind (Task_run cb k (L\<lparr>running := k # ks\<rparr>)) (run_tasks cb ks)"

fun queue_watches :: "(int \<times> u32) list \<Rightarrow> looper \<Rightarrow> looper option" where
  "queue_watches [] L = Some L"
| "queue_watches ((fd, events) # fds) L =
     (case List.find (\<lambda>(w, _). map_option mFd (watches L w) = Some fd) (mFdWatches L) of
        None \<Rightarrow> queue_watches fds L
      | Some (w, _) \<Rightarrow> Option.bind (FdWatch_setPending w events L) (queue_watches fds))"

fun expire_timers :: "int \<Rightarrow> nat list \<Rightarrow> looper \<Rightarrow> looper option" where
  "expire_timers kNow [] L = Some (L\<lparr>mActiveTimers := []\<rparr>)"
| "expire_timers kNow (t # ts) L =
     (case deadline L t of
        None \<Rightarrow> None
      | Some d \<Rightarrow>
          if d \<le> kNow then Option.bind (Timer_setPending t L) (expire_timers kNow ts)
          else Some (L\<lparr>mActiveTimers := t # ts\<rparr>))"

partial_function (option) fire_timers :: "callbacks \<Rightarrow> looper \<Rightarrow> looper option" where
  "fire_timers cb L =
     (case mPendingTimers L of
        [] \<Rightarrow> Some L
      | t # _ \<Rightarrow>
          do {
            L1 \<leftarrow> Timer_clearPending t L;
            L2 \<leftarrow> fire cb (TimerCb t) L1;
            fire_timers cb L2
          })"

partial_function (option) fire_watches :: "callbacks \<Rightarrow> looper \<Rightarrow> looper option" where
  "fire_watches cb L =
     (case mPendingFdWatches L of
        [] \<Rightarrow> Some L
      | w # _ \<Rightarrow>
          do {
            L1 \<leftarrow> FdWatch_clearPending w L;
            L2 \<leftarrow> FdWatch_fire cb w L1;
            fire_watches cb L2
          })"

declare fire_timers.simps [code] fire_watches.simps [code]

text \<open>
  The time to wait.  A subtraction that leaves 64 bits is undefined; timers that have been started with a
  deadline before the smallest such number plus the present time do not occur in practice.
\<close>

definition iteration_timeout :: "int \<Rightarrow> int \<Rightarrow> looper \<Rightarrow> int option" where
  "iteration_timeout deadlineMs now L =
     do {
       first \<leftarrow> (case mActiveTimers L of [] \<Rightarrow> Some kDurationInfinite | t # _ \<Rightarrow> deadline L t);
       let nextDeadline = (if first > deadlineMs then deadlineMs else first);
       timeOut \<leftarrow> (if nextDeadline < kDurationInfinite
                   then (if nextDeadline - now < - (2 ^ 63) then None else Some (max 0 (nextDeadline - now)))
                   else Some (2 ^ 63 - 1));
       Some (if mScheduledTasks L \<noteq> [] then 0 else timeOut)
     }"

text \<open>The wait: \<open>Inl\<close> leaves the iteration with \<^verbatim>\<open>false\<close>.\<close>

definition wait_for_events :: "iteration_env \<Rightarrow> int \<Rightarrow> looper \<Rightarrow> (looper + looper) option" where
  "wait_for_events env timeOut L =
     (if mFdWatches L = [] then
        Some (if timeOut = 2 ^ 63 - 1 then Inl L else Inr L)
      else do {
        (ret, wt) \<leftarrow> waiter_wait (select_answers env) (mWaiter L);
        let L1 = L\<lparr>mWaiter := wt\<rparr>;
        if ret < 0 then Some (Inl L1)
        else if mPendingFdWatches L1 \<noteq> [] then None
        else if ret > 0 then do {
          (fds, wt2) \<leftarrow> pending_fds 1025 wt;
          L2 \<leftarrow> queue_watches fds (L1\<lparr>mWaiter := wt2\<rparr>);
          Some (Inr L2)
        }
        else Some (Inr L1)
      })"

definition runOneIterationWithDeadlineMs ::
  "callbacks \<Rightarrow> iteration_env \<Rightarrow> int \<Rightarrow> looper \<Rightarrow> (bool \<times> looper) option" where
  "runOneIterationWithDeadlineMs cb env deadlineMs L =
     do {
       timeOut \<leftarrow> iteration_timeout deadlineMs (now_before env) L;
       let ks = task_order env (mScheduledTasks L);
       L1 \<leftarrow> run_tasks cb ks (L\<lparr>mScheduledTasks := []\<rparr>);
       w \<leftarrow> wait_for_events env timeOut L1;
       (case w of
          Inl L2 \<Rightarrow> Some (False, L2)
        | Inr L2 \<Rightarrow>
            if mPendingTimers L2 \<noteq> [] then None
            else do {
              L3 \<leftarrow> expire_timers (now_after env) (mActiveTimers L2) L2;
              L4 \<leftarrow> fire_timers cb L3;
              L5 \<leftarrow> fire_watches cb L4;
              Some (True, L5)
            })
     }"

datatype run_result = Run_EWOULDBLOCK | Run_ETIMEDOUT | Run_zero | Still_running

text \<open>The loop around the iterations, for as many iterations as the list has environments.\<close>

fun run_loop :: "callbacks \<Rightarrow> (int \<times> iteration_env) list \<Rightarrow> int \<Rightarrow> looper \<Rightarrow> (run_result \<times> looper) option" where
  "run_loop cb envs deadlineMs L =
     (if mForcedExit L then Some (Run_zero, L)
      else if mFdWatches L = [] \<and> mActiveTimers L = [] \<and> mScheduledTasks L = [] then Some (Run_EWOULDBLOCK, L)
      else
        (case envs of
           [] \<Rightarrow> Some (Still_running, L)
         | (now, env) # envs' \<Rightarrow>
             if now > deadlineMs then Some (Run_ETIMEDOUT, L)
             else
               (case runOneIterationWithDeadlineMs cb env deadlineMs L of
                  None \<Rightarrow> None
                | Some (ok, L1) \<Rightarrow> if \<not> ok then Some (Run_zero, L1) else run_loop cb envs' deadlineMs L1)))"

definition runWithDeadlineMs ::
  "callbacks \<Rightarrow> (int \<times> iteration_env) list \<Rightarrow> int \<Rightarrow> looper \<Rightarrow> (run_result \<times> looper) option" where
  "runWithDeadlineMs cb envs deadlineMs L = run_loop cb envs deadlineMs (L\<lparr>mForcedExit := False\<rparr>)"

end
