(* ===== verification/Looper_Invariant.thy ===== *)
theory Looper_Invariant
  imports Looper
begin

text \<open>
  The invariant of the looper's timers, watches and tasks, the conditions under which a callback may
  call the looper, and the proof that an iteration then never leaves defined behaviour.
\<close>

section \<open>The invariant\<close>

definition deadline_of :: "looper \<Rightarrow> nat \<Rightarrow> int" where
  "deadline_of L t = mDeadline (the (timers L t))"

definition timer_ok :: "looper \<Rightarrow> nat \<Rightarrow> bool" where
  "timer_ok L t \<longleftrightarrow>
     (case timers L t of
        None \<Rightarrow> t \<notin> set (mActiveTimers L) \<and> t \<notin> set (mPendingTimers L)
      | Some tm \<Rightarrow>
          (t \<in> set (mPendingTimers L) \<longleftrightarrow> timer_mPending tm) \<and> (timer_mPending tm \<longrightarrow> mDeadline tm \<noteq> kDurationInfinite) \<and>
          (t \<in> set (mActiveTimers L) \<longleftrightarrow> \<not> timer_mPending tm \<and> mDeadline tm \<noteq> kDurationInfinite) \<and>
          (t \<in> set (mPendingTimers L) \<longrightarrow> mTimers L t = Some InPending) \<and>
          (t \<in> set (mActiveTimers L) \<longrightarrow> mTimers L t = Some InActive))"

definition timers_ok :: "looper \<Rightarrow> bool" where
  "timers_ok L \<longleftrightarrow> distinct (mActiveTimers L) \<and> distinct (mPendingTimers L) \<and> (\<forall>t. timer_ok L t) \<and>
     sorted (map (deadline_of L) (mActiveTimers L))"

definition watch_ok :: "looper \<Rightarrow> nat \<Rightarrow> bool" where
  "watch_ok L w \<longleftrightarrow>
     (case watches L w of
        None \<Rightarrow> w \<notin> fst ` set (mFdWatches L) \<and> w \<notin> set (mPendingFdWatches L)
      | Some wt \<Rightarrow>
          w \<in> fst ` set (mFdWatches L) \<and> (w \<in> set (mPendingFdWatches L) \<longleftrightarrow> watch_mPending wt) \<and>
          (w \<in> set (mPendingFdWatches L) \<longrightarrow> map_of (mFdWatches L) w = Some InPending) \<and>
          0 \<le> mFd wt \<and> mFd wt < FD_SETSIZE - 1 \<and> mWantedEvents wt \<in> {0, 1, 2, 3})"

definition watches_ok :: "looper \<Rightarrow> bool" where
  "watches_ok L \<longleftrightarrow> distinct (map fst (mFdWatches L)) \<and> distinct (mPendingFdWatches L) \<and> (\<forall>w. watch_ok L w) \<and>
     waiter_ok (mWaiter L) \<and> FD_SETSIZE - 1 \<notin> wanted (mWaiter L)"

definition tasks_ok :: "looper \<Rightarrow> bool" where
  "tasks_ok L \<longleftrightarrow> distinct (mScheduledTasks L) \<and> set (mScheduledTasks L) \<subseteq> dom (tasks L) \<and> set (running L) \<subseteq> dom (tasks L)"

definition looper_ok :: "looper \<Rightarrow> bool" where
  "looper_ok L \<longleftrightarrow> timers_ok L \<and> watches_ok L \<and> tasks_ok L"

text \<open>What a callback may do: see the text of each case for the reason in the code.\<close>

fun op_allowed :: "looper \<Rightarrow> looper_op \<Rightarrow> bool" where
  "op_allowed L (CreateTimer t) = (timers L t = None)"
| "op_allowed L (DeleteTimer t) = (timers L t \<noteq> None \<and> t \<notin> set (mActiveTimers L))"
| "op_allowed L (StartAbsolute t d) = (timers L t \<noteq> None \<and> t \<notin> set (mPendingTimers L))"
| "op_allowed L (StartRelative t d now) =
     (timers L t \<noteq> None \<and> t \<notin> set (mPendingTimers L) \<and>
      (d \<noteq> kDurationInfinite \<longrightarrow> - (2 ^ 63) \<le> d + now \<and> d + now < 2 ^ 63))"
| "op_allowed L (StopTimer t) = (timers L t \<noteq> None \<and> t \<notin> set (mPendingTimers L))"
| "op_allowed L (CreateFdWatch w fd) = (watches L w = None \<and> 0 \<le> fd \<and> fd < FD_SETSIZE - 1)"
| "op_allowed L (DeleteFdWatch w) = (watches L w \<noteq> None)"
| "op_allowed L (AddEvents w e) = (watches L w \<noteq> None)"
| "op_allowed L (RemoveEvents w e) = (watches L w \<noteq> None)"
| "op_allowed L (CreateTask k) = (tasks L k = None)"
| "op_allowed L (DeleteTask k) = (tasks L k \<noteq> None \<and> k \<notin> set (running L))"
| "op_allowed L (ScheduleTask k) = (tasks L k \<noteq> None)"
| "op_allowed L (CancelTask k) = (tasks L k \<noteq> None)"
| "op_allowed L (ScheduleCallback k) = (tasks L k = None)"
| "op_allowed L ForceQuit = True"

fun ops_allowed :: "looper_op list \<Rightarrow> looper \<Rightarrow> bool" where
  "ops_allowed [] L = True"
| "ops_allowed (x # xs) L \<longleftrightarrow> op_allowed L x \<and> (case exec_op x L of None \<Rightarrow> True | Some L1 \<Rightarrow> ops_allowed xs L1)"

definition well_behaved :: "callbacks \<Rightarrow> bool" where
  "well_behaved cb \<longleftrightarrow> (\<forall>c L. looper_ok L \<longrightarrow> ops_allowed (cb c L) L)"

lemmas ok_defs = timers_ok_def watches_ok_def tasks_ok_def

lemma new_looper_ok: "looper_ok new_looper"
  by (simp add: looper_ok_def ok_defs timer_ok_def watch_ok_def new_looper_def reset_ok)
    (simp add: waiter_reset_def wanted_def)

text \<open>The parts of the state an operation leaves alone.\<close>

definition same_timers :: "looper \<Rightarrow> looper \<Rightarrow> bool" where
  "same_timers L L' \<longleftrightarrow> timers L' = timers L \<and> mTimers L' = mTimers L \<and> mActiveTimers L' = mActiveTimers L \<and>
     mPendingTimers L' = mPendingTimers L"

definition same_watches :: "looper \<Rightarrow> looper \<Rightarrow> bool" where
  "same_watches L L' \<longleftrightarrow> watches L' = watches L \<and> mFdWatches L' = mFdWatches L \<and>
     mPendingFdWatches L' = mPendingFdWatches L \<and> mWaiter L' = mWaiter L"

definition same_tasks :: "looper \<Rightarrow> looper \<Rightarrow> bool" where
  "same_tasks L L' \<longleftrightarrow> tasks L' = tasks L \<and> mScheduledTasks L' = mScheduledTasks L \<and> running L' = running L \<and> fired L' = fired L"

lemmas same_defs = same_timers_def same_watches_def same_tasks_def

lemma same_timers_ok: "same_timers L L' \<Longrightarrow> timers_ok L' \<longleftrightarrow> timers_ok L"
  by (simp add: same_timers_def timers_ok_def timer_ok_def deadline_of_def cong: option.case_cong map_cong)

lemma same_watches_ok: "same_watches L L' \<Longrightarrow> watches_ok L' \<longleftrightarrow> watches_ok L"
  by (simp add: same_watches_def watches_ok_def watch_ok_def cong: option.case_cong)

lemma same_tasks_ok: "same_tasks L L' \<Longrightarrow> tasks_ok L' \<longleftrightarrow> tasks_ok L"
  by (simp add: same_tasks_def tasks_ok_def)

section \<open>Timers\<close>

lemma insert_by_deadline_split:
  assumes "\<forall>u \<in> set us. dl u = Some (f u)"
  shows "insert_by_deadline dl d t us = Some (takeWhile (\<lambda>u. f u \<le> d) us @ t # dropWhile (\<lambda>u. f u \<le> d) us)"
  using assms by (induction us) auto

lemma insert_by_deadline_ok:
  assumes "\<forall>u \<in> set us. dl u = Some (f u)" and "f t = d" and "distinct us" and "t \<notin> set us" and "sorted (map f us)"
  shows "\<exists>ts. insert_by_deadline dl d t us = Some ts \<and> distinct ts \<and> set ts = insert t (set us) \<and> sorted (map f ts)"
proof -
  let ?P = "\<lambda>u. f u \<le> d"
  have split: "us = takeWhile ?P us @ dropWhile ?P us" by simp
  have low: "f u \<le> d" if "u \<in> set (takeWhile ?P us)" for u using set_takeWhileD [OF that] by simp
  have high: "d < f u" if "u \<in> set (dropWhile ?P us)" for u
    using that assms(5)
  proof (induction us)
    case (Cons x xs)
    then show ?case by (cases "f x \<le> d") (force simp: not_le)+
  qed simp
  obtain a b where ab: "takeWhile ?P us = a" "dropWhile ?P us = b" "us = a @ b" using split by metis
  have "distinct (a @ t # b)" "set (a @ t # b) = insert t (set us)" "sorted (map f (a @ t # b))"
    using assms(2-5) low high unfolding ab(1,2) unfolding ab(3) by (auto simp: sorted_append less_imp_le)
  then show ?thesis using insert_by_deadline_split [OF assms(1), of d t] ab(1,2) by auto
qed

lemma sorted_map_cong: "(\<And>x. x \<in> set xs \<Longrightarrow> f x = g x) \<Longrightarrow> sorted (map f xs) \<longleftrightarrow> sorted (map g xs)"
  by (metis map_eq_conv)

text \<open>The two halves of a start: taking the timer out of the active list, and putting it in.\<close>

lemma take_out_ok:
  assumes "timers_ok L" and "timers L t = Some tm" and "t \<notin> set (mPendingTimers L)"
  shows "\<exists>L1. (if mDeadline tm \<noteq> kDurationInfinite then disableTimer t L else Some L) = Some L1 \<and>
    timers L1 = timers L \<and> mPendingTimers L1 = mPendingTimers L \<and> mActiveTimers L1 = remove1 t (mActiveTimers L) \<and>
    (\<forall>u. u \<noteq> t \<longrightarrow> mTimers L1 u = mTimers L u) \<and>
    L1 = L\<lparr>mActiveTimers := mActiveTimers L1, mTimers := mTimers L1\<rparr>"
proof -
  have t: "timer_ok L t" using assms(1) by (simp add: timers_ok_def)
  then have "\<not> timer_mPending tm" using assms(2,3) by (simp add: timer_ok_def)
  then have "t \<in> set (mActiveTimers L) \<longleftrightarrow> mDeadline tm \<noteq> kDurationInfinite"
    using t assms(2) by (simp add: timer_ok_def)
  then show ?thesis using t assms(2)
    by (auto simp: disableTimer_def timer_ok_def remove1_idem)
qed

lemma startAbsolute_ok:
  assumes "timers_ok L" and "timers L t \<noteq> None" and "t \<notin> set (mPendingTimers L)"
  shows "\<exists>L'. startAbsolute t d L = Some L' \<and> timers_ok L' \<and> mPendingTimers L' = mPendingTimers L \<and>
    same_watches L L' \<and> same_tasks L L'"
proof -
  obtain tm where tm: "timers L t = Some tm" using assms(2) by auto
  have ok: "timer_ok L u" for u using assms(1) by (simp add: timers_ok_def)
  have np: "\<not> timer_mPending tm" using ok [of t] tm assms(3) by (simp add: timer_ok_def)
  obtain L1 where L1: "(if mDeadline tm \<noteq> kDurationInfinite then disableTimer t L else Some L) = Some L1"
    "timers L1 = timers L" "mPendingTimers L1 = mPendingTimers L" "mActiveTimers L1 = remove1 t (mActiveTimers L)"
    "\<forall>u. u \<noteq> t \<longrightarrow> mTimers L1 u = mTimers L u" "L1 = L\<lparr>mActiveTimers := mActiveTimers L1, mTimers := mTimers L1\<rparr>"
    using take_out_ok [OF assms(1) tm assms(3)] by blast
  define L2 where "L2 = L1\<lparr>timers := (timers L1)(t \<mapsto> tm\<lparr>mDeadline := d\<rparr>)\<rparr>"
  have L2: "timers L2 = (timers L)(t \<mapsto> tm\<lparr>mDeadline := d\<rparr>)" "mPendingTimers L2 = mPendingTimers L"
    "mActiveTimers L2 = remove1 t (mActiveTimers L)" "\<forall>u. u \<noteq> t \<longrightarrow> mTimers L2 u = mTimers L u"
    using L1(2-5) by (simp_all add: L2_def)
  have dist: "distinct (mActiveTimers L)" and srt: "sorted (map (deadline_of L) (mActiveTimers L))"
    using assms(1) by (auto simp: timers_ok_def)
  have act: "set (mActiveTimers L2) = set (mActiveTimers L) - {t}" "distinct (mActiveTimers L2)"
    using dist by (simp_all add: L2(3))
  have other: "timer_ok L2 u" if "u \<noteq> t" for u
    using that ok [of u] L2(4) act(1) by (auto simp: timer_ok_def L2(1,2) split: option.splits)
  have same: "deadline_of L2 u = deadline_of L u" if "u \<noteq> t" for u using that by (simp add: deadline_of_def L2(1))
  have srt2: "sorted (map (deadline_of L2) (mActiveTimers L2))"
  proof -
    have "sorted (map (deadline_of L) (mActiveTimers L2))" using sorted_map_remove1 [OF srt] by (simp add: L2(3))
    then show ?thesis using sorted_map_cong [of "mActiveTimers L2" "deadline_of L2" "deadline_of L"] same act(1) by auto
  qed
  have frame: "same_watches L L2" "same_tasks L L2"
    unfolding L2_def by (subst L1(6), simp add: same_defs)+
  show ?thesis
  proof (cases "d = kDurationInfinite")
    case True
    then have "startAbsolute t d L = Some L2" using L1(1) tm by (simp add: startAbsolute_def L2_def)
    moreover have "timer_ok L2 t" using True np act(1) assms(3) by (simp add: timer_ok_def L2(1,2))
    then have "timer_ok L2 u" for u using other by (cases "u = t") auto
    moreover note L2(2)
    ultimately show ?thesis using act(2) srt2 frame assms(1) by (auto simp: timers_ok_def)
  next
    case False
    have "deadline L2 u = Some (deadline_of L2 u)" if "u \<in> set (mActiveTimers L2)" for u
      using other [of u] that act(1) by (cases "timers L2 u") (auto simp: deadline_def deadline_of_def timer_ok_def)
    moreover have d: "deadline_of L2 t = d" by (simp add: deadline_of_def L2(1))
    ultimately obtain ts where ts: "insert_by_deadline (deadline L2) d t (mActiveTimers L2) = Some ts" "distinct ts"
      "set ts = insert t (set (mActiveTimers L2))" "sorted (map (deadline_of L2) ts)"
      using insert_by_deadline_ok [of "mActiveTimers L2" "deadline L2" "deadline_of L2" t d] act srt2 by auto
    let ?L = "L2\<lparr>mActiveTimers := ts, mTimers := (mTimers L2)(t \<mapsto> InActive)\<rparr>"
    have "enableTimer t L2 = Some ?L" using ts(1) by (simp add: enableTimer_def deadline_def L2(1))
    then have "startAbsolute t d L = Some ?L"
      using L1(1) tm False by (simp add: startAbsolute_def Let_def flip: L2_def)
    moreover have "timer_ok ?L u" for u
      using other [of u] np False ts(3) assms(3) by (cases "u = t") (auto simp: timer_ok_def L2(1,2) split: option.splits)
    moreover have "deadline_of ?L = deadline_of L2" by (simp add: deadline_of_def fun_eq_iff)
    ultimately show ?thesis using ts(2,4) assms(1) L2(2) frame by (auto simp: timers_ok_def same_defs)
  qed
qed

lemma Timer_new_ok:
  assumes "timers_ok L" and "timers L t = None"
  shows "\<exists>L'. Timer_new t L = Some L' \<and> timers_ok L' \<and> mPendingTimers L' = mPendingTimers L \<and>
    same_watches L L' \<and> same_tasks L L'"
proof -
  let ?L = "addTimer t (L\<lparr>timers := (timers L)(t \<mapsto> \<lparr>mDeadline = kDurationInfinite, timer_mPending = False\<rparr>)\<rparr>)"
  have ok: "timer_ok L u" for u using assms(1) by (simp add: timers_ok_def)
  have t: "t \<notin> set (mActiveTimers L)" "t \<notin> set (mPendingTimers L)" using ok [of t] assms(2) by (simp_all add: timer_ok_def)
  have "timer_ok ?L u" for u
    using ok [of u] t by (cases "u = t") (auto simp: timer_ok_def addTimer_def split: option.splits)
  moreover have "deadline_of ?L u = deadline_of L u" if "u \<in> set (mActiveTimers L)" for u
    using that t by (auto simp: deadline_of_def addTimer_def)
  then have "map (deadline_of ?L) (mActiveTimers ?L) = map (deadline_of L) (mActiveTimers L)"
    by (simp add: addTimer_def)
  ultimately have "timers_ok ?L" using assms(1) by (simp add: timers_ok_def) (simp add: addTimer_def)
  then show ?thesis using assms(2) by (simp add: Timer_new_def same_defs) (simp add: addTimer_def)
qed

lemma clearPending_timer_ok:
  assumes "timers_ok L" and "timers L t \<noteq> None"
  shows "\<exists>L'. Timer_clearPending t L = Some L' \<and> timers_ok L' \<and> mPendingTimers L' = remove1 t (mPendingTimers L) \<and>
    mActiveTimers L' = mActiveTimers L \<and> timers L' t \<noteq> None \<and> same_watches L L' \<and> same_tasks L L'"
proof -
  obtain tm where tm: "timers L t = Some tm" using assms(2) by auto
  have ok: "timer_ok L u" for u using assms(1) by (simp add: timers_ok_def)
  show ?thesis
  proof (cases "timer_mPending tm")
    case False
    then show ?thesis using assms tm ok [of t] by (simp add: Timer_clearPending_def timer_ok_def remove1_idem same_defs)
  next
    case True
    then have t: "t \<in> set (mPendingTimers L)" "t \<notin> set (mActiveTimers L)" "mTimers L t = Some InPending"
      using ok [of t] tm by (simp_all add: timer_ok_def)
    let ?L = "L\<lparr>mPendingTimers := remove1 t (mPendingTimers L), mTimers := (mTimers L)(t \<mapsto> Erased),
        timers := (timers L)(t \<mapsto> tm\<lparr>timer_mPending := False, mDeadline := kDurationInfinite\<rparr>)\<rparr>"
    have dist: "distinct (mPendingTimers L)" using assms(1) by (simp add: timers_ok_def)
    have "timer_ok ?L u" for u
      using ok [of u] t dist by (cases "u = t") (auto simp: timer_ok_def split: option.splits)
    moreover have "deadline_of ?L u = deadline_of L u" if "u \<in> set (mActiveTimers L)" for u
      using that t(2) by (auto simp: deadline_of_def)
    then have "map (deadline_of ?L) (mActiveTimers ?L) = map (deadline_of L) (mActiveTimers L)" by simp
    ultimately have "timers_ok ?L" using assms(1) dist by (simp add: timers_ok_def cong: map_cong)
    moreover have "Timer_clearPending t L = Some ?L" using tm True t(3) by (simp add: Timer_clearPending_def delPendingTimer_def)
    ultimately show ?thesis by (simp add: same_defs)
  qed
qed

lemma Timer_delete_ok:
  assumes "timers_ok L" and "timers L t \<noteq> None" and "t \<notin> set (mActiveTimers L)"
  shows "\<exists>L'. Timer_delete t L = Some L' \<and> timers_ok L' \<and> mPendingTimers L' = remove1 t (mPendingTimers L) \<and>
    same_watches L L' \<and> same_tasks L L'"
proof -
  obtain L1 where L1: "Timer_clearPending t L = Some L1" "timers_ok L1" "mPendingTimers L1 = remove1 t (mPendingTimers L)"
    "mActiveTimers L1 = mActiveTimers L" "same_watches L L1" "same_tasks L L1"
    using clearPending_timer_ok [OF assms(1,2)] by blast
  let ?L = "(delTimer t L1)\<lparr>timers := (timers L1)(t := None)\<rparr>"
  have ok: "timer_ok L1 u" for u using L1(2) by (simp add: timers_ok_def)
  have t: "t \<notin> set (mPendingTimers L1)" "t \<notin> set (mActiveTimers L1)"
    using assms(1,3) L1(3,4) by (auto simp: timers_ok_def)
  have "timer_ok ?L u" for u
    using ok [of u] t by (cases "u = t") (auto simp: timer_ok_def delTimer_def split: option.splits)
  moreover have "deadline_of ?L u = deadline_of L1 u" if "u \<in> set (mActiveTimers L1)" for u
    using that t(2) by (auto simp: deadline_of_def)
  then have "map (deadline_of ?L) (mActiveTimers ?L) = map (deadline_of L1) (mActiveTimers L1)"
    by (simp add: delTimer_def)
  ultimately have "timers_ok ?L" using L1(2) by (simp add: timers_ok_def) (simp add: delTimer_def)
  moreover have "Timer_delete t L = Some ?L" using L1(1) by (simp add: Timer_delete_def)
  ultimately show ?thesis using L1(3,5,6) by (simp add: same_defs) (simp add: delTimer_def)
qed

text \<open>Expired timers move to the pending list; the list of active timers that is left is passed along.\<close>

lemma setPending_timer_ok:
  assumes "timers_ok (L\<lparr>mActiveTimers := t # ts\<rparr>)"
  shows "\<exists>L'. Timer_setPending t L = Some L' \<and> timers_ok (L'\<lparr>mActiveTimers := ts\<rparr>) \<and>
    mPendingTimers L' = mPendingTimers L @ [t] \<and> (\<forall>u \<in> set ts. deadline L' u = deadline L u) \<and>
    same_watches L L' \<and> same_tasks L L'"
proof -
  let ?K = "L\<lparr>mActiveTimers := t # ts\<rparr>"
  have ok: "timer_ok ?K u" for u using assms by (simp add: timers_ok_def)
  have t: "t \<notin> set ts" using assms by (simp add: timers_ok_def)
  obtain tm where tm: "timers L t = Some tm" "\<not> timer_mPending tm" "t \<notin> set (mPendingTimers L)"
    using ok [of t] by (auto simp: timer_ok_def split: option.splits)
  let ?L = "addPendingTimer t (L\<lparr>timers := (timers L)(t \<mapsto> tm\<lparr>timer_mPending := True\<rparr>)\<rparr>)"
  have "timer_ok (?L\<lparr>mActiveTimers := ts\<rparr>) u" for u
    using ok [of u] t tm(1) by (cases "u = t") (auto simp: timer_ok_def addPendingTimer_def split: option.splits)
  moreover have d: "deadline_of (?L\<lparr>mActiveTimers := ts\<rparr>) u = deadline_of ?K u" if "u \<in> set ts" for u
    using that t by (auto simp: deadline_of_def addPendingTimer_def)
  then have "map (deadline_of (?L\<lparr>mActiveTimers := ts\<rparr>)) ts = map (deadline_of ?K) ts" by simp
  ultimately have "timers_ok (?L\<lparr>mActiveTimers := ts\<rparr>)" using assms tm(3)
    by (simp add: timers_ok_def) (simp add: addPendingTimer_def cong: map_cong)
  moreover have "deadline ?L u = deadline L u" if "u \<in> set ts" for u
    using that t by (auto simp: deadline_def addPendingTimer_def)
  moreover have "Timer_setPending t L = Some ?L" using tm(1) by (simp add: Timer_setPending_def)
  ultimately show ?thesis by (simp add: same_defs) (simp add: addPendingTimer_def)
qed

lemma expire_timers_ok:
  assumes "timers_ok (L\<lparr>mActiveTimers := ts\<rparr>)"
  shows "\<exists>L'. expire_timers now ts L = Some L' \<and> timers_ok L' \<and>
    mPendingTimers L' = mPendingTimers L @ filter (\<lambda>t. deadline_of L t \<le> now) ts \<and>
    mActiveTimers L' = filter (\<lambda>t. now < deadline_of L t) ts \<and> same_watches L L' \<and> same_tasks L L'"
  using assms
proof (induction ts arbitrary: L)
  case Nil
  then show ?case by (simp add: same_defs)
next
  case (Cons t ts)
  have "timer_ok (L\<lparr>mActiveTimers := t # ts\<rparr>) t" using Cons.prems by (simp add: timers_ok_def)
  then have d: "deadline L t = Some (deadline_of L t)"
    by (auto simp: deadline_def deadline_of_def timer_ok_def split: option.splits)
  show ?case
  proof (cases "deadline_of L t \<le> now")
    case True
    obtain L1 where L1: "Timer_setPending t L = Some L1" "timers_ok (L1\<lparr>mActiveTimers := ts\<rparr>)"
      "mPendingTimers L1 = mPendingTimers L @ [t]" "\<forall>u \<in> set ts. deadline L1 u = deadline L u"
      "same_watches L L1" "same_tasks L L1"
      using setPending_timer_ok [OF Cons.prems] by blast
    have "deadline_of L1 u = deadline_of L u" if "u \<in> set ts" for u
    proof -
      have "timer_ok (L1\<lparr>mActiveTimers := ts\<rparr>) u" using L1(2) by (simp add: timers_ok_def)
      then have "timers L1 u \<noteq> None" using that by (auto simp: timer_ok_def split: option.splits)
      then show ?thesis using bspec [OF L1(4) that] by (cases "timers L u") (auto simp: deadline_def deadline_of_def)
    qed
    then have "filter (\<lambda>t. deadline_of L1 t \<le> now) ts = filter (\<lambda>t. deadline_of L t \<le> now) ts"
      "filter (\<lambda>t. now < deadline_of L1 t) ts = filter (\<lambda>t. now < deadline_of L t) ts"
      by (auto cong: filter_cong)
    then show ?thesis using Cons.IH [OF L1(2)] L1(1,3,5,6) d True by (auto simp: same_defs)
  next
    case False
    have "deadline_of L t \<le> deadline_of L u" if "u \<in> set ts" for u
    proof -
      have "deadline_of (L\<lparr>mActiveTimers := t # ts\<rparr>) = deadline_of L" by (simp add: deadline_of_def fun_eq_iff)
      then show ?thesis using Cons.prems that by (simp add: timers_ok_def)
    qed
    then have "filter (\<lambda>t. deadline_of L t \<le> now) ts = []" "filter (\<lambda>t. now < deadline_of L t) ts = ts"
      using False by (fastforce simp: filter_empty_conv filter_id_conv)+
    then show ?thesis using False d Cons.prems by (simp add: same_defs)
  qed
qed

section \<open>Watches\<close>

lemma FdWatch_new_ok:
  assumes "watches_ok L" and "watches L w = None" and "0 \<le> fd" and "fd < FD_SETSIZE - 1"
  shows "\<exists>L'. FdWatch_new w fd L = Some L' \<and> watches_ok L' \<and> mPendingFdWatches L' = mPendingFdWatches L \<and>
    same_timers L L' \<and> same_tasks L L'"
proof -
  let ?L = "addFdWatch w (L\<lparr>watches := (watches L)(w \<mapsto> \<lparr>mFd = fd, mWantedEvents = 0, mLastEvents = 0, watch_mPending = False\<rparr>)\<rparr>)"
  have ok: "watch_ok L u" for u using assms(1) by (simp add: watches_ok_def)
  have w: "w \<notin> fst ` set (mFdWatches L)" "w \<notin> set (mPendingFdWatches L)" using ok [of w] assms(2) by (simp_all add: watch_ok_def)
  have "watch_ok ?L u" for u
    using ok [of u] w assms(3,4) by (cases "u = w") (auto simp: watch_ok_def addFdWatch_def split: option.splits)
  then have "watches_ok ?L" using assms(1) w by (simp add: watches_ok_def) (simp add: addFdWatch_def)
  then show ?thesis using assms(2) by (simp add: FdWatch_new_def same_defs) (simp add: addFdWatch_def)
qed

lemma updateFdWatch_ok:
  assumes "waiter_ok (mWaiter L)" and "FD_SETSIZE - 1 \<notin> wanted (mWaiter L)"
    and "0 \<le> fd" and "fd < FD_SETSIZE - 1" and "e \<in> {0, 1, 2, 3}"
  shows "\<exists>wt. updateFdWatch fd e L = Some (L\<lparr>mWaiter := wt\<rparr>) \<and> waiter_ok wt \<and> FD_SETSIZE - 1 \<notin> wanted wt"
  using update_ok [OF assms(1), of fd e] assms by (auto simp: updateFdWatch_def isValidFd_def)

lemma clearPending_watch_ok:
  assumes "watches_ok L" and "watches L w \<noteq> None"
  shows "\<exists>L'. FdWatch_clearPending w L = Some L' \<and> watches_ok L' \<and>
    mPendingFdWatches L' = remove1 w (mPendingFdWatches L) \<and> watches L' w \<noteq> None \<and> same_timers L L' \<and> same_tasks L L'"
proof -
  obtain wt where wt: "watches L w = Some wt" using assms(2) by auto
  have ok: "watch_ok L u" for u using assms(1) by (simp add: watches_ok_def)
  show ?thesis
  proof (cases "watch_mPending wt")
    case False
    then show ?thesis using assms wt ok [of w] by (simp add: FdWatch_clearPending_def watch_ok_def remove1_idem same_defs)
  next
    case True
    then have w: "w \<in> set (mPendingFdWatches L)" "map_of (mFdWatches L) w = Some InPending" "w \<in> fst ` set (mFdWatches L)"
      using ok [of w] wt by (simp_all add: watch_ok_def)
    let ?L = "L\<lparr>mPendingFdWatches := remove1 w (mPendingFdWatches L), mFdWatches := AList.update w Erased (mFdWatches L),
        watches := (watches L)(w \<mapsto> wt\<lparr>watch_mPending := False\<rparr>)\<rparr>"
    have dist: "distinct (mPendingFdWatches L)" using assms(1) by (simp add: watches_ok_def)
    have keys: "fst ` set (AList.update w Erased (mFdWatches L)) = fst ` set (mFdWatches L)"
      using w(3) by (simp add: dom_update insert_absorb)
    have "watch_ok ?L u" for u
      using ok [of u] ok [of w] w dist wt keys by (cases "u = w") (auto simp: watch_ok_def update_conv split: option.splits)
    then have "watches_ok ?L" using assms(1) dist by (simp add: watches_ok_def distinct_update)
    moreover have "FdWatch_clearPending w L = Some ?L" using wt True w(2) by (simp add: FdWatch_clearPending_def delPendingFdWatch_def)
    ultimately show ?thesis by (simp add: same_defs)
  qed
qed

lemma setPending_watch_ok:
  assumes "watches_ok L" and "watches L w = Some wt" and "w \<notin> set (mPendingFdWatches L)"
  shows "\<exists>L'. FdWatch_setPending w e L = Some L' \<and> watches_ok L' \<and>
    mPendingFdWatches L' = mPendingFdWatches L @ [w] \<and> map_option mFd \<circ> watches L' = map_option mFd \<circ> watches L \<and>
    same_timers L L' \<and> same_tasks L L'"
proof -
  have ok: "watch_ok L u" for u using assms(1) by (simp add: watches_ok_def)
  have w: "\<not> watch_mPending wt" "w \<in> fst ` set (mFdWatches L)" using ok [of w] assms(2,3) by (simp_all add: watch_ok_def)
  let ?L = "addPendingFdWatch w (L\<lparr>watches := (watches L)(w \<mapsto> wt\<lparr>watch_mPending := True, mLastEvents := e AND kEventMask\<rparr>)\<rparr>)"
  have keys: "fst ` set (AList.update w InPending (mFdWatches L)) = fst ` set (mFdWatches L)"
    using w(2) by (simp add: dom_update insert_absorb)
  have "watch_ok ?L u" for u
    using ok [of u] ok [of w] assms(2) keys
    by (cases "u = w") (auto simp: watch_ok_def addPendingFdWatch_def update_conv split: option.splits)
  then have "watches_ok ?L" using assms(1,3) by (simp add: watches_ok_def) (simp add: addPendingFdWatch_def distinct_update)
  moreover have "FdWatch_setPending w e L = Some ?L" using assms(2) w(1) by (simp add: FdWatch_setPending_def)
  moreover have "map_option mFd \<circ> watches ?L = map_option mFd \<circ> watches L"
    using assms(2) by (auto simp: addPendingFdWatch_def fun_eq_iff)
  ultimately show ?thesis by (simp add: same_defs) (simp add: addPendingFdWatch_def)
qed

text \<open>A change of a watch that keeps its descriptor and its place in the lists.\<close>

lemma change_watch_ok:
  assumes "watches_ok L" and "watches L w = Some wt" and "mFd wt' = mFd wt" and "watch_mPending wt' = watch_mPending wt"
    and "mWantedEvents wt' \<in> {0, 1, 2, 3}" and "waiter_ok v" and "FD_SETSIZE - 1 \<notin> wanted v"
  shows "watches_ok (L\<lparr>watches := (watches L)(w \<mapsto> wt'), mWaiter := v\<rparr>)"
proof -
  have ok: "watch_ok L u" for u using assms(1) by (simp add: watches_ok_def)
  have "watch_ok (L\<lparr>watches := (watches L)(w \<mapsto> wt'), mWaiter := v\<rparr>) u" for u
    using ok [of u] assms(2-5) by (cases "u = w") (auto simp: watch_ok_def split: option.splits)
  then show ?thesis using assms(1,6,7) by (simp add: watches_ok_def)
qed

lemma two_bits: "x \<in> {0, 1, 2, 3} \<longleftrightarrow> x AND 3 = x" for x :: u32
proof
  assume "x AND 3 = x"
  then have "take_bit 2 x = x" by (simp add: take_bit_eq_mask mask_eq_exp_minus_1)
  then have "x mod 4 = x" by (simp add: take_bit_eq_mod)
  moreover have "unat (x mod 4) < 4" by (simp add: unat_mod)
  ultimately have "unat x < 4" by simp
  then show "x \<in> {0, 1, 2, 3}" by (auto simp: word_unat_eq_iff)
qed auto

lemma two_bits_or: "a \<in> {0, 1, 2, 3} \<Longrightarrow> a OR (b AND 3) \<in> {0, 1, 2, 3}" for a b :: u32
  unfolding two_bits by (simp add: bit.conj_disj_distrib2 and.assoc)

lemma two_bits_and: "a \<in> {0, 1, 2, 3} \<Longrightarrow> a AND b \<in> {0, 1, 2, 3}" for a b :: u32
  unfolding two_bits by (metis and.assoc and.commute)

lemma addEvents_ok:
  assumes "watches_ok L" and "watches L w \<noteq> None"
  shows "\<exists>L'. addEvents w e L = Some L' \<and> watches_ok L' \<and> mPendingFdWatches L' = mPendingFdWatches L \<and>
    same_timers L L' \<and> same_tasks L L'"
proof -
  obtain wt where wt: "watches L w = Some wt" using assms(2) by auto
  let ?e = "mWantedEvents wt OR (e AND kEventMask)"
  let ?L = "L\<lparr>watches := (watches L)(w \<mapsto> wt\<lparr>mWantedEvents := ?e\<rparr>)\<rparr>"
  have w: "watch_ok L w" and waiter: "waiter_ok (mWaiter L)" "FD_SETSIZE - 1 \<notin> wanted (mWaiter L)"
    using assms(1) by (simp_all add: watches_ok_def)
  then have fd: "0 \<le> mFd wt" "mFd wt < FD_SETSIZE - 1" and e: "?e \<in> {0, 1, 2, 3}"
    using wt two_bits_or by (simp_all add: watch_ok_def)
  obtain v where v: "updateFdWatch (mFd wt) ?e ?L = Some (?L\<lparr>mWaiter := v\<rparr>)" "waiter_ok v" "FD_SETSIZE - 1 \<notin> wanted v"
    using updateFdWatch_ok [of ?L "mFd wt" ?e] waiter fd e by auto
  have "watches_ok (?L\<lparr>mWaiter := v\<rparr>)"
    using change_watch_ok [OF assms(1) wt _ _ _ v(2,3), of "wt\<lparr>mWantedEvents := ?e\<rparr>"] e by simp
  then show ?thesis using v(1) wt assms(1) by (simp add: addEvents_def Let_def same_defs)
qed

lemma removeEvents_ok:
  assumes "watches_ok L" and "watches L w \<noteq> None"
  shows "\<exists>L'. removeEvents w e L = Some L' \<and> watches_ok L' \<and>
    mPendingFdWatches L' \<in> {mPendingFdWatches L, remove1 w (mPendingFdWatches L)} \<and> watches L' w \<noteq> None \<and>
    same_timers L L' \<and> same_tasks L L'"
proof -
  obtain wt where wt: "watches L w = Some wt" using assms(2) by auto
  let ?m = "e AND kEventMask"
  let ?e = "mWantedEvents wt AND NOT ?m"
  let ?L = "L\<lparr>watches := (watches L)(w \<mapsto> wt\<lparr>mWantedEvents := ?e\<rparr>)\<rparr>"
  have w: "watch_ok L w" and waiter: "waiter_ok (mWaiter L)" "FD_SETSIZE - 1 \<notin> wanted (mWaiter L)"
    using assms(1) by (simp_all add: watches_ok_def)
  then have fd: "0 \<le> mFd wt" "mFd wt < FD_SETSIZE - 1" and e: "?e \<in> {0, 1, 2, 3}"
    using wt two_bits_and by (simp_all add: watch_ok_def)
  obtain v where v: "updateFdWatch (mFd wt) ?e ?L = Some (?L\<lparr>mWaiter := v\<rparr>)" "waiter_ok v" "FD_SETSIZE - 1 \<notin> wanted v"
    using updateFdWatch_ok [of ?L "mFd wt" ?e] waiter fd e by auto
  have ok2: "watches_ok (?L\<lparr>mWaiter := v\<rparr>)"
    using change_watch_ok [OF assms(1) wt _ _ _ v(2,3), of "wt\<lparr>mWantedEvents := ?e\<rparr>"] e by simp
  obtain L3 where L3: "FdWatch_clearPending w (?L\<lparr>mWaiter := v\<rparr>) = Some L3" "watches_ok L3"
    "mPendingFdWatches L3 = remove1 w (mPendingFdWatches L)" "watches L3 w \<noteq> None"
    "same_timers L L3" "same_tasks L L3"
    using clearPending_watch_ok [OF ok2, of w] by (auto simp: same_defs)
  let ?step = "if ?e \<noteq> mWantedEvents wt
      then Option.bind (updateFdWatch (mFd wt) ?e ?L) (\<lambda>L2. if ?e = 0 then FdWatch_clearPending w L2 else Some L2)
      else Some L"
  obtain L1 where L1: "?step = Some L1" "watches_ok L1"
    "mPendingFdWatches L1 \<in> {mPendingFdWatches L, remove1 w (mPendingFdWatches L)}" "watches L1 w \<noteq> None"
    "same_timers L L1" "same_tasks L L1"
  proof (cases "?e = mWantedEvents wt")
    case True
    then show ?thesis using that [of L] assms by (simp add: same_defs)
  next
    case False
    then show ?thesis using that [of L3] that [of "?L\<lparr>mWaiter := v\<rparr>"] v(1) L3 ok2
      by (cases "?e = 0") (simp_all add: same_defs)
  qed
  obtain wt1 where wt1: "watches L1 w = Some wt1" using L1(4) by auto
  let ?L' = "L1\<lparr>watches := (watches L1)(w \<mapsto> wt1\<lparr>mLastEvents := mLastEvents wt1 AND NOT ?m\<rparr>)\<rparr>"
  have "removeEvents w e L = Option.bind ?step (\<lambda>L1. Option.bind (watches L1 w)
      (\<lambda>wt1. Some (L1\<lparr>watches := (watches L1)(w \<mapsto> wt1\<lparr>mLastEvents := mLastEvents wt1 AND NOT ?m\<rparr>)\<rparr>)))"
    using wt unfolding removeEvents_def Let_def by simp
  then have "removeEvents w e L = Some ?L'" unfolding L1(1) using wt1 by simp
  moreover have "mWantedEvents wt1 \<in> {0, 1, 2, 3}" "waiter_ok (mWaiter L1)" "FD_SETSIZE - 1 \<notin> wanted (mWaiter L1)"
    using L1(2) spec [of "watch_ok L1" w] wt1 by (simp_all add: watches_ok_def watch_ok_def)
  then have "watches_ok ?L'"
    using change_watch_ok [OF L1(2) wt1, of "wt1\<lparr>mLastEvents := mLastEvents wt1 AND NOT ?m\<rparr>" "mWaiter L1"] by simp
  ultimately show ?thesis using L1(3,5,6) by (simp add: same_defs)
qed

lemma remove1_length: "length (remove1 x xs) \<le> length xs"
  by (simp add: length_remove1)

lemma FdWatch_delete_ok:
  assumes "watches_ok L" and "watches L w \<noteq> None"
  shows "\<exists>L'. FdWatch_delete w L = Some L' \<and> watches_ok L' \<and> length (mPendingFdWatches L') \<le> length (mPendingFdWatches L) \<and>
    same_timers L L' \<and> same_tasks L L'"
proof -
  obtain L1 where L1: "removeEvents w kEventWrite L = Some L1" "watches_ok L1"
    "mPendingFdWatches L1 \<in> {mPendingFdWatches L, remove1 w (mPendingFdWatches L)}" "watches L1 w \<noteq> None"
    "same_timers L L1" "same_tasks L L1"
    using removeEvents_ok [OF assms] by blast
  obtain L2 where L2: "removeEvents w kEventRead L1 = Some L2" "watches_ok L2"
    "mPendingFdWatches L2 \<in> {mPendingFdWatches L1, remove1 w (mPendingFdWatches L1)}" "watches L2 w \<noteq> None"
    "same_timers L1 L2" "same_tasks L1 L2"
    using removeEvents_ok [OF L1(2,4)] by blast
  obtain L3 where L3: "FdWatch_clearPending w L2 = Some L3" "watches_ok L3"
    "mPendingFdWatches L3 = remove1 w (mPendingFdWatches L2)" "same_timers L2 L3" "same_tasks L2 L3"
    using clearPending_watch_ok [OF L2(2,4)] by blast
  have ok: "watch_ok L3 u" for u using L3(2) by (simp add: watches_ok_def)
  have w: "w \<notin> set (mPendingFdWatches L3)" using L2(2) L3(3) by (simp add: watches_ok_def)
  have keys_deleted: "fst ` set (AList.delete w (mFdWatches L3)) = fst ` set (mFdWatches L3) - {w}"
    using arg_cong [OF delete_keys [of w "mFdWatches L3"], of set] by simp
  let ?L = "(delFdWatch w L3)\<lparr>watches := (watches L3)(w := None)\<rparr>"
  have "watch_ok ?L u" for u
    using ok [of u] w by (cases "u = w") (auto simp: watch_ok_def delFdWatch_def delete_conv' keys_deleted split: option.splits)
  then have "watches_ok ?L" using L3(2) by (simp add: watches_ok_def) (simp add: delFdWatch_def distinct_delete)
  moreover have "FdWatch_delete w L = Some ?L" using L1(1) L2(1) L3(1) by (simp add: FdWatch_delete_def)
  moreover have "length (mPendingFdWatches ?L) \<le> length (mPendingFdWatches L)"
    using L1(3) L2(3) L3(3) by (auto simp: delFdWatch_def length_remove1)
  ultimately show ?thesis using L1(5,6) L2(5,6) L3(4,5) by (simp add: same_defs) (simp add: delFdWatch_def)
qed

section \<open>Operations\<close>

lemma Task_delete_ok:
  assumes "tasks_ok L" and "tasks L k \<noteq> None" and "k \<notin> set (running L)"
  shows "\<exists>L'. Task_delete k L = Some L' \<and> tasks_ok L' \<and> running L' = running L \<and> fired L' = fired L \<and>
    same_timers L L' \<and> same_watches L L'"
  using assms by (auto simp: Task_delete_def Task_cancel_def delTask_def tasks_ok_def same_defs distinct_removeAll)

lemma task_op_ok:
  assumes "tasks_ok L" and "op_allowed L x"
    and "x \<in> {CreateTask k, DeleteTask k, ScheduleTask k, CancelTask k, ScheduleCallback k}"
  shows "\<exists>L'. exec_op x L = Some L' \<and> tasks_ok L' \<and> running L' = running L \<and> fired L' = fired L \<and>
    same_timers L L' \<and> same_watches L L'"
  using assms Task_delete_ok [OF assms(1), of k]
  by (auto simp: Task_new_def Task_schedule_def Task_cancel_def scheduleCallback_def addTask_def delTask_def
      tasks_ok_def same_defs distinct_removeAll)

definition pending_shrinks :: "looper \<Rightarrow> looper \<Rightarrow> bool" where
  "pending_shrinks L L' \<longleftrightarrow> length (mPendingTimers L') \<le> length (mPendingTimers L) \<and>
     length (mPendingFdWatches L') \<le> length (mPendingFdWatches L) \<and> running L' = running L"

lemma pending_shrinks_trans: "pending_shrinks L L' \<Longrightarrow> pending_shrinks L' L'' \<Longrightarrow> pending_shrinks L L''"
  by (auto simp: pending_shrinks_def)

fun deletes_timer :: "looper_op \<Rightarrow> bool" where
  "deletes_timer (DeleteTimer t) = True"
| "deletes_timer _ = False"

lemma timer_part:
  assumes "looper_ok L" and "timers_ok L'" and "length (mPendingTimers L') \<le> length (mPendingTimers L)"
    and "same_watches L L'" and "same_tasks L L'"
  shows "looper_ok L'" and "pending_shrinks L L'" and "fired L' = fired L"
  using assms same_watches_ok [OF assms(4)] same_tasks_ok [OF assms(5)]
  by (simp_all add: looper_ok_def pending_shrinks_def same_defs)

lemma watch_part:
  assumes "looper_ok L" and "watches_ok L'" and "length (mPendingFdWatches L') \<le> length (mPendingFdWatches L)"
    and "same_timers L L'" and "same_tasks L L'"
  shows "looper_ok L'" and "pending_shrinks L L'" and "fired L' = fired L" and "mPendingTimers L' = mPendingTimers L"
  using assms same_timers_ok [OF assms(4)] same_tasks_ok [OF assms(5)]
  by (simp_all add: looper_ok_def pending_shrinks_def same_defs)

lemma task_part:
  assumes "looper_ok L" and "tasks_ok L'" and "running L' = running L" and "same_timers L L'" and "same_watches L L'"
  shows "looper_ok L'" and "pending_shrinks L L'" and "mPendingTimers L' = mPendingTimers L"
  using assms same_timers_ok [OF assms(4)] same_watches_ok [OF assms(5)]
  by (simp_all add: looper_ok_def pending_shrinks_def same_defs)

text \<open>An allowed operation is defined and keeps the invariant; only deletions take timers out of the pending list.\<close>

definition op_result :: "looper \<Rightarrow> looper \<Rightarrow> bool \<Rightarrow> bool" where
  "op_result L L' del \<longleftrightarrow> looper_ok L' \<and> pending_shrinks L L' \<and> fired L' = fired L \<and>
     (\<not> del \<longrightarrow> mPendingTimers L' = mPendingTimers L)"

lemma op_resultI_timer:
  assumes "looper_ok L" and "\<exists>L'. f = Some L' \<and> timers_ok L' \<and> mPendingTimers L' = mPendingTimers L \<and> same_watches L L' \<and> same_tasks L L'"
  shows "\<exists>L'. f = Some L' \<and> op_result L L' d"
  using assms timer_part [OF assms(1)] unfolding op_result_def by (metis order_refl)

lemma op_resultI_watch:
  assumes "looper_ok L" and "\<exists>L'. f = Some L' \<and> watches_ok L' \<and> length (mPendingFdWatches L') \<le> length (mPendingFdWatches L) \<and>
    same_timers L L' \<and> same_tasks L L'"
  shows "\<exists>L'. f = Some L' \<and> op_result L L' d"
  using assms watch_part [OF assms(1)] unfolding op_result_def by metis

lemma op_resultI_task:
  assumes "looper_ok L" and "\<exists>L'. f = Some L' \<and> tasks_ok L' \<and> running L' = running L \<and> fired L' = fired L \<and>
    same_timers L L' \<and> same_watches L L'"
  shows "\<exists>L'. f = Some L' \<and> op_result L L' d"
  using assms task_part [OF assms(1)] unfolding op_result_def by metis

lemma exec_op_ok:
  assumes "looper_ok L" and "op_allowed L x"
  shows "\<exists>L'. exec_op x L = Some L' \<and> op_result L L' (deletes_timer x)"
proof -
  have T: "timers_ok L" and W: "watches_ok L" and K: "tasks_ok L" using assms(1) by (simp_all add: looper_ok_def)
  note timer = op_resultI_timer [OF assms(1)] and watch = op_resultI_watch [OF assms(1)] and task = op_resultI_task [OF assms(1)]
  show ?thesis
  proof (cases x)
    case (DeleteTimer t)
    then obtain L' where "Timer_delete t L = Some L'" "timers_ok L'" "mPendingTimers L' = remove1 t (mPendingTimers L)"
      "same_watches L L'" "same_tasks L L'"
      using Timer_delete_ok [OF T, of t] assms(2) by auto
    then show ?thesis using DeleteTimer timer_part [OF assms(1)] remove1_length [of t "mPendingTimers L"]
      by (auto simp: op_result_def)
  next
    case (StartRelative t d now)
    then show ?thesis using timer [OF startAbsolute_ok [OF T, of t]] assms(2)
      by (cases "d = kDurationInfinite") (simp_all add: startRelative_def)
  next
    case (RemoveEvents w e)
    then obtain L' where L': "removeEvents w e L = Some L'" "watches_ok L'"
      "mPendingFdWatches L' \<in> {mPendingFdWatches L, remove1 w (mPendingFdWatches L)}" "same_timers L L'" "same_tasks L L'"
      using removeEvents_ok [OF W, of w e] assms(2) by auto
    have "length (mPendingFdWatches L') \<le> length (mPendingFdWatches L)"
      using L'(3) remove1_length [of w "mPendingFdWatches L"] by auto
    then show ?thesis using RemoveEvents L' watch_part [OF assms(1)] by (simp add: op_result_def)
  next
    case ForceQuit
    have "timers_ok (L\<lparr>mForcedExit := True\<rparr>)" using T same_timers_ok [of L "L\<lparr>mForcedExit := True\<rparr>"] by (simp add: same_timers_def)
    then show ?thesis using timer [of "Some (L\<lparr>mForcedExit := True\<rparr>)"] ForceQuit by (simp add: same_defs)
  next
    case (CreateTask k)
    then show ?thesis using task [OF task_op_ok [OF K assms(2), of k]] by simp
  next
    case (DeleteTask k)
    then show ?thesis using task [OF task_op_ok [OF K assms(2), of k]] by simp
  next
    case (ScheduleTask k)
    then show ?thesis using task [OF task_op_ok [OF K assms(2), of k]] by simp
  next
    case (CancelTask k)
    then show ?thesis using task [OF task_op_ok [OF K assms(2), of k]] by simp
  next
    case (ScheduleCallback k)
    then show ?thesis using task [OF task_op_ok [OF K assms(2), of k]] by simp
  next
    case (CreateFdWatch w fd)
    then show ?thesis using watch [of "FdWatch_new w fd L"] FdWatch_new_ok [OF W, of w fd] assms(2) by auto
  next
    case (AddEvents w e)
    then show ?thesis using watch [of "addEvents w e L"] addEvents_ok [OF W, of w e] assms(2) by auto
  next
    case (DeleteFdWatch w)
    then show ?thesis using watch [of "FdWatch_delete w L"] FdWatch_delete_ok [OF W, of w] assms(2) by auto
  qed (use T assms(2) timer [OF Timer_new_ok [OF T]] timer [OF startAbsolute_ok [OF T]] in \<open>simp_all add: Timer_stop_def\<close>)
qed

lemma exec_ops_ok:
  assumes "looper_ok L" and "ops_allowed xs L"
  shows "\<exists>L'. exec_ops xs L = Some L' \<and> op_result L L' (\<exists>x \<in> set xs. deletes_timer x)"
  using assms
proof (induction xs arbitrary: L)
  case Nil
  then show ?case by (simp add: op_result_def pending_shrinks_def)
next
  case (Cons x xs)
  obtain L1 where L1: "exec_op x L = Some L1" "op_result L L1 (deletes_timer x)"
    using exec_op_ok [OF Cons.prems(1)] Cons.prems(2) by auto
  then obtain L' where "exec_ops xs L1 = Some L'" "op_result L1 L' (\<exists>x \<in> set xs. deletes_timer x)"
    using Cons.IH [of L1] Cons.prems(2) by (auto simp: op_result_def)
  then show ?case using L1 by (auto simp: op_result_def intro: pending_shrinks_trans)
qed

end
