(* ===== verification/Looper_Properties.thy ===== *)
theory Looper_Properties
  imports Looper_Invariant "HOL-Library.Multiset"
begin

text \<open>
  Iterations of the looper: with callbacks that keep to the rules an iteration always comes to its end
  with nothing left pending, fires the expired timers in the order of their deadlines, and
  without these rules it may follow pointers to deleted timers.
\<close>

section \<open>Callbacks\<close>

lemma looper_ok_fired [simp]: "looper_ok (L\<lparr>fired := c\<rparr>) \<longleftrightarrow> looper_ok L"
  by (simp add: looper_ok_def ok_defs timer_ok_def watch_ok_def deadline_of_def [abs_def] cong: option.case_cong)

definition keeps_timers :: "callbacks \<Rightarrow> bool" where
  "keeps_timers cb \<longleftrightarrow> (\<forall>c L. \<forall>x \<in> set (cb c L). \<not> deletes_timer x)"

lemma fire_ok:
  assumes "looper_ok L" and "well_behaved cb"
  shows "\<exists>L'. fire cb c L = Some L' \<and> looper_ok L' \<and> pending_shrinks L L' \<and> fired L' = fired L @ [c] \<and>
    (keeps_timers cb \<longrightarrow> mPendingTimers L' = mPendingTimers L)"
proof -
  let ?L = "L\<lparr>fired := fired L @ [c]\<rparr>"
  have "looper_ok ?L" using assms(1) by simp
  moreover from this have "ops_allowed (cb c ?L) ?L" using assms(2) by (simp add: well_behaved_def)
  ultimately obtain L' where "exec_ops (cb c ?L) ?L = Some L'" "op_result ?L L' (\<exists>x \<in> set (cb c ?L). deletes_timer x)"
    using exec_ops_ok by blast
  then show ?thesis by (auto simp: fire_def Let_def op_result_def pending_shrinks_def keeps_timers_def)
qed

lemma fire_timers_ok:
  assumes "looper_ok L" and "well_behaved cb"
  shows "\<exists>L' ts. fire_timers cb L = Some L' \<and> looper_ok L' \<and> mPendingTimers L' = [] \<and> pending_shrinks L L' \<and>
    fired L' = fired L @ map TimerCb ts \<and> (keeps_timers cb \<longrightarrow> ts = mPendingTimers L)"
  using assms(1)
proof (induction "length (mPendingTimers L)" arbitrary: L rule: less_induct)
  case less
  show ?case
  proof (cases "mPendingTimers L")
    case Nil
    then show ?thesis using less.prems by (auto simp: fire_timers.simps pending_shrinks_def)
  next
    case (Cons t ts)
    have T: "timers_ok L" using less.prems by (simp add: looper_ok_def)
    then have "timer_ok L t" by (simp add: timers_ok_def)
    then have "timers L t \<noteq> None" using Cons by (auto simp: timer_ok_def split: option.splits)
    then obtain L1 where L1: "Timer_clearPending t L = Some L1" "timers_ok L1" "mPendingTimers L1 = ts"
      "same_watches L L1" "same_tasks L L1"
      using clearPending_timer_ok [OF T] Cons by fastforce
    have ok1: "looper_ok L1" "pending_shrinks L L1" "fired L1 = fired L"
      using timer_part [OF less.prems L1(2) _ L1(4,5)] L1(3) Cons by simp_all
    then obtain L2 where L2: "fire cb (TimerCb t) L1 = Some L2" "looper_ok L2" "pending_shrinks L1 L2"
      "fired L2 = fired L @ [TimerCb t]" "keeps_timers cb \<longrightarrow> mPendingTimers L2 = ts"
      using fire_ok [OF _ assms(2), of L1 "TimerCb t"] L1(3) by metis
    have "length (mPendingTimers L2) < length (mPendingTimers L)"
      using L2(3) L1(3) Cons by (simp add: pending_shrinks_def)
    from less.hyps [OF this L2(2)] obtain L' us where L': "fire_timers cb L2 = Some L'" "looper_ok L'"
      "mPendingTimers L' = []" "pending_shrinks L2 L'" "fired L' = fired L2 @ map TimerCb us"
      "keeps_timers cb \<longrightarrow> us = mPendingTimers L2" by blast
    have "fire_timers cb L = Some L'" using Cons L1(1) L2(1) L'(1) by (subst fire_timers.simps) simp
    moreover have "fired L' = fired L @ map TimerCb (t # us)" using L'(5) L2(4) by simp
    moreover have "keeps_timers cb \<longrightarrow> t # us = mPendingTimers L" using L'(6) L2(5) Cons by simp
    ultimately show ?thesis
      using L'(2-4) pending_shrinks_trans [OF ok1(2) pending_shrinks_trans [OF L2(3)]] by blast
  qed
qed

lemma FdWatch_fire_ok:
  assumes "looper_ok L" and "well_behaved cb" and "watches L w \<noteq> None"
  shows "\<exists>L' fd e. FdWatch_fire cb w L = Some L' \<and> looper_ok L' \<and> pending_shrinks L L' \<and> fired L' = fired L @ [WatchCb w fd e]"
proof -
  obtain wt where wt: "watches L w = Some wt" using assms(3) by auto
  let ?L = "L\<lparr>watches := (watches L)(w \<mapsto> wt\<lparr>mLastEvents := 0\<rparr>)\<rparr>"
  have W: "watches_ok L" using assms(1) by (simp add: looper_ok_def)
  then have "watch_ok L w" by (simp add: watches_ok_def)
  then have "watches_ok ?L"
    using change_watch_ok [OF W wt, of "wt\<lparr>mLastEvents := 0\<rparr>" "mWaiter L"] W wt by (simp add: watches_ok_def watch_ok_def)
  then have "looper_ok ?L" by (rule watch_part(1) [OF assms(1)]) (simp_all add: same_defs)
  from fire_ok [OF this assms(2), of "WatchCb w (mFd wt) (mLastEvents wt)"]
  show ?thesis using wt by (auto simp: FdWatch_fire_def pending_shrinks_def)
qed

lemma fire_watches_ok:
  assumes "looper_ok L" and "well_behaved cb"
  shows "\<exists>L' cs. fire_watches cb L = Some L' \<and> looper_ok L' \<and> mPendingFdWatches L' = [] \<and> pending_shrinks L L' \<and>
    fired L' = fired L @ cs \<and> (\<forall>c \<in> set cs. \<exists>w fd e. c = WatchCb w fd e)"
  using assms(1)
proof (induction "length (mPendingFdWatches L)" arbitrary: L rule: less_induct)
  case less
  show ?case
  proof (cases "mPendingFdWatches L")
    case Nil
    then show ?thesis using less.prems by (auto simp: fire_watches.simps pending_shrinks_def)
  next
    case (Cons w ws)
    have W: "watches_ok L" using less.prems by (simp add: looper_ok_def)
    then have "watch_ok L w" by (simp add: watches_ok_def)
    then have "watches L w \<noteq> None" using Cons by (auto simp: watch_ok_def split: option.splits)
    then obtain L1 where L1: "FdWatch_clearPending w L = Some L1" "watches_ok L1" "mPendingFdWatches L1 = ws"
      "watches L1 w \<noteq> None" "same_timers L L1" "same_tasks L L1"
      using clearPending_watch_ok [OF W] Cons by fastforce
    have ok1: "looper_ok L1" "pending_shrinks L L1" "fired L1 = fired L"
      using watch_part [OF less.prems L1(2) _ L1(5,6)] L1(3) Cons by simp_all
    obtain L2 fd e where L2: "FdWatch_fire cb w L1 = Some L2" "looper_ok L2" "pending_shrinks L1 L2"
      "fired L2 = fired L @ [WatchCb w fd e]"
      using FdWatch_fire_ok [OF ok1(1) assms(2) L1(4)] ok1(3) by metis
    have "length (mPendingFdWatches L2) < length (mPendingFdWatches L)"
      using L2(3) L1(3) Cons by (simp add: pending_shrinks_def)
    from less.hyps [OF this L2(2)] obtain L' cs where L': "fire_watches cb L2 = Some L'" "looper_ok L'"
      "mPendingFdWatches L' = []" "pending_shrinks L2 L'" "fired L' = fired L2 @ cs"
      "\<forall>c \<in> set cs. \<exists>w fd e. c = WatchCb w fd e" by blast
    have "fire_watches cb L = Some L'" using Cons L1(1) L2(1) L'(1) by (subst fire_watches.simps) simp
    moreover have "fired L' = fired L @ WatchCb w fd e # cs" using L'(5) L2(4) by simp
    moreover have "\<forall>c \<in> set (WatchCb w fd e # cs). \<exists>w fd e. c = WatchCb w fd e" using L'(6) by auto
    ultimately show ?thesis
      using L'(2-4) pending_shrinks_trans [OF ok1(2) pending_shrinks_trans [OF L2(3)]] by blast
  qed
qed

section \<open>Tasks\<close>

text \<open>No timer and no watch is pending, as between the phases of an iteration before the timers expire.\<close>

definition quiet :: "looper \<Rightarrow> bool" where
  "quiet L \<longleftrightarrow> mPendingTimers L = [] \<and> mPendingFdWatches L = []"

lemma quiet_shrinks: "quiet L \<Longrightarrow> pending_shrinks L L' \<Longrightarrow> quiet L'"
  by (simp add: quiet_def pending_shrinks_def)

lemma looper_ok_running:
  assumes "looper_ok L" and "set ks \<subseteq> dom (tasks L)"
  shows "looper_ok (L\<lparr>running := ks\<rparr>)"
proof -
  have "same_timers L (L\<lparr>running := ks\<rparr>)" "same_watches L (L\<lparr>running := ks\<rparr>)" by (simp_all add: same_defs)
  moreover have "tasks_ok (L\<lparr>running := ks\<rparr>)" using assms by (simp add: looper_ok_def tasks_ok_def)
  ultimately show ?thesis using assms(1) same_timers_ok same_watches_ok by (simp add: looper_ok_def)
qed

lemma self_delete_ok:
  assumes "looper_ok L" and "tasks L k \<noteq> None" and "running L = k # ks" and "distinct (k # ks)"
  shows "\<exists>L'. Task_delete k L = Some L' \<and> looper_ok (L'\<lparr>running := ks\<rparr>) \<and> pending_shrinks L L' \<and> fired L' = fired L"
proof -
  have ok: "looper_ok (L\<lparr>running := ks\<rparr>)"
    using assms(1,3) by (intro looper_ok_running) (auto simp: looper_ok_def tasks_ok_def)
  then obtain L' where L': "Task_delete k (L\<lparr>running := ks\<rparr>) = Some L'" "tasks_ok L'" "running L' = ks"
    "same_timers (L\<lparr>running := ks\<rparr>) L'" "same_watches (L\<lparr>running := ks\<rparr>) L'"
    using Task_delete_ok [of "L\<lparr>running := ks\<rparr>" k] assms(2,4) by (auto simp: looper_ok_def)
  have "looper_ok L'" using task_part(1) [OF ok L'(2) _ L'(4,5)] L'(3) by simp
  moreover have "Task_delete k L = Some (L'\<lparr>running := k # ks\<rparr>)"
    using L'(1) assms(2,3) by (auto simp: Task_delete_def Task_cancel_def delTask_def)
  moreover have "L'\<lparr>running := ks\<rparr> = L'" using L'(3) by simp
  ultimately show ?thesis using L'(1) assms(2,3)
    by (auto simp: pending_shrinks_def Task_delete_def Task_cancel_def delTask_def)
qed

lemma run_tasks_ok:
  assumes "looper_ok L" and "well_behaved cb" and "set ks \<subseteq> dom (tasks L)" and "distinct ks" and "quiet L"
  shows "\<exists>L' cs. run_tasks cb ks L = Some L' \<and> looper_ok L' \<and> quiet L' \<and> running L' = [] \<and> fired L' = fired L @ cs"
  using assms(1,3-5)
proof (induction ks arbitrary: L)
  case Nil
  then show ?case using looper_ok_running [of L "[]"] by (simp add: quiet_def)
next
  case (Cons k ks)
  let ?L = "L\<lparr>running := k # ks\<rparr>"
  have "looper_ok ?L" using Cons.prems by (intro looper_ok_running) auto
  then obtain L1 where L1: "fire cb (TaskCb k) ?L = Some L1" "looper_ok L1" "pending_shrinks ?L L1"
    "fired L1 = fired L @ [TaskCb k]"
    using fire_ok [OF _ assms(2)] by fastforce
  have run: "running L1 = k # ks" using L1(3) by (simp add: pending_shrinks_def)
  then have dom: "set (k # ks) \<subseteq> dom (tasks L1)" using L1(2) by (simp add: looper_ok_def tasks_ok_def)
  have quiet: "quiet L1" using quiet_shrinks [OF _ L1(3)] Cons.prems(4) by (simp add: quiet_def)
  obtain L2 where L2: "Task_run cb k ?L = Some L2" "looper_ok (L2\<lparr>running := ks\<rparr>)" "quiet L2" "fired L2 = fired L1"
  proof (cases "tasks L1 k")
    case None
    then show ?thesis using dom by auto
  next
    case (Some b)
    obtain b0 where "tasks L k = Some b0" using Cons.prems(2) by auto
    then have r: "Task_run cb k ?L = (if b then Task_delete k L1 else Some L1)"
      using L1(1) Some by (simp add: Task_run_def)
    show ?thesis
    proof (cases b)
      case True
      then show ?thesis
        using that r self_delete_ok [OF L1(2) _ run Cons.prems(3)] Some quiet quiet_shrinks by fastforce
    next
      case False
      then show ?thesis using that r quiet looper_ok_running [OF L1(2), of ks] dom by auto
    qed
  qed
  have "run_tasks cb ks L2 = run_tasks cb ks (L2\<lparr>running := ks\<rparr>)" by (cases ks) simp_all
  moreover have "set ks \<subseteq> dom (tasks (L2\<lparr>running := ks\<rparr>))" using L2(2) by (simp add: looper_ok_def tasks_ok_def)
  moreover have "quiet (L2\<lparr>running := ks\<rparr>)" using L2(3) by (simp add: quiet_def)
  ultimately obtain L' cs where "run_tasks cb ks L2 = Some L'" "looper_ok L'" "quiet L'" "running L' = []"
    "fired L' = fired L2 @ cs"
    using Cons.IH [OF L2(2)] Cons.prems(3) by auto
  then show ?case using L2(1,4) L1(4) by simp
qed

section \<open>Descriptors\<close>

lemma queue_watches_ok:
  assumes "watches_ok L" and "distinct (map fst fds)"
    and "\<forall>w \<in> set (mPendingFdWatches L). \<forall>wt. watches L w = Some wt \<longrightarrow> mFd wt \<notin> fst ` set fds"
  shows "\<exists>L'. queue_watches fds L = Some L' \<and> watches_ok L' \<and> same_timers L L' \<and> same_tasks L L'"
  using assms
proof (induction fds arbitrary: L)
  case Nil
  then show ?case by (simp add: same_defs)
next
  case (Cons x fds)
  obtain fd e where x: "x = (fd, e)" by fastforce
  show ?case
  proof (cases "List.find (\<lambda>(w, _). map_option mFd (watches L w) = Some fd) (mFdWatches L)")
    case None
    then show ?thesis using Cons x by auto
  next
    case (Some wp)
    obtain w p where wp: "wp = (w, p)" by fastforce
    have "map_option mFd (watches L w) = Some fd" using Some wp by (auto simp: find_Some_iff)
    then obtain wt where wt: "watches L w = Some wt" "mFd wt = fd" by auto
    then have "w \<notin> set (mPendingFdWatches L)" using Cons.prems(3) x by auto
    then obtain L1 where L1: "FdWatch_setPending w e L = Some L1" "watches_ok L1" "mPendingFdWatches L1 = mPendingFdWatches L @ [w]"
      "map_option mFd \<circ> watches L1 = map_option mFd \<circ> watches L" "same_timers L L1" "same_tasks L L1"
      using setPending_watch_ok [OF Cons.prems(1) wt(1)] by blast
    have fds: "map_option mFd (watches L1 u) = map_option mFd (watches L u)" for u using fun_cong [OF L1(4), of u] by simp
    have "mFd wt' \<notin> fst ` set fds" if u: "u \<in> set (mPendingFdWatches L1)" "watches L1 u = Some wt'" for u wt'
    proof -
      obtain wt0 where wt0: "watches L u = Some wt0" "mFd wt0 = mFd wt'" using fds [of u] u(2) by (cases "watches L u") auto
      then have "u \<noteq> w \<Longrightarrow> mFd wt0 \<notin> fst ` set fds" using bspec [OF Cons.prems(3), of u] u(1) L1(3) by auto
      then show ?thesis using wt0 wt Cons.prems(2) x by (cases "u = w") auto
    qed
    then obtain L' where "queue_watches fds L1 = Some L'" "watches_ok L'" "same_timers L1 L'" "same_tasks L1 L'"
      using Cons.IH [OF L1(2)] Cons.prems(2) by auto
    then show ?thesis using Some wp x L1(1,5,6) by (auto simp: same_defs)
  qed
qed

text \<open>\<^verbatim>\<open>select\<close> answers in the end.\<close>

definition env_ok :: "iteration_env \<Rightarrow> bool" where
  "env_ok env \<longleftrightarrow> (\<exists>a \<in> set (select_answers env). a \<noteq> Interrupted) \<and> (\<forall>ks. mset (task_order env ks) = mset ks)"

lemma select_loop_returns:
  assumes "\<exists>a \<in> set as. a \<noteq> Interrupted" shows "\<exists>n w'. select_loop as w = Some (n, w')"
  using assms by (induction as w rule: select_loop.induct) auto

lemma wait_for_events_ok:
  assumes "looper_ok L" and "quiet L" and "env_ok env"
  shows "\<exists>x L'. wait_for_events env tmo L = Some x \<and> x \<in> {Inl L', Inr L'} \<and> looper_ok L' \<and>
    (x = Inl L' \<longrightarrow> quiet L') \<and> same_timers L L' \<and> same_tasks L L'"
proof (cases "mFdWatches L = []")
  case True
  then show ?thesis using assms by (auto simp: wait_for_events_def same_defs)
next
  case False
  have W: "watches_ok L" "waiter_ok (mWaiter L)" "FD_SETSIZE - 1 \<notin> wanted (mWaiter L)"
    using assms(1) by (simp_all add: looper_ok_def watches_ok_def)
  obtain n wt where wait: "waiter_wait (select_answers env) (mWaiter L) = Some (n, wt)"
    using select_loop_returns assms(3) by (fastforce simp: waiter_wait_def env_ok_def Let_def split: prod.split)
  have wt: "waiter_ok wt" "wanted wt = wanted (mWaiter L)" "mPendingFd wt = 0" using wait_ok [OF W(2) wait] by auto
  have change: "watches_ok (L\<lparr>mWaiter := v\<rparr>)" if "waiter_ok v" "wanted v = wanted (mWaiter L)" for v
  proof -
    have "watch_ok (L\<lparr>mWaiter := v\<rparr>) u \<longleftrightarrow> watch_ok L u" for u by (simp add: watch_ok_def cong: option.case_cong)
    then show ?thesis using W that by (simp add: watches_ok_def)
  qed
  have ok: "looper_ok (L\<lparr>mWaiter := v\<rparr>)" if "waiter_ok v" "wanted v = wanted (mWaiter L)" for v
    by (rule watch_part(1) [OF assms(1) change [OF that]]) (simp_all add: same_defs)
  have bound: "Max (insert (- 1) (wanted wt)) < FD_SETSIZE"
    using wt(1) wanted_finite [OF wt(1)] by (auto simp: waiter_ok_def isValidFd_def FD_SETSIZE_def)
  let ?fds = "filter (ready wt) [1..Max (insert (- 1) (wanted wt)) + 1]"
  have "length ?fds < 1025"
    using length_filter_le [of "ready wt" "[1..Max (insert (- 1) (wanted wt)) + 1]"] bound by (simp add: FD_SETSIZE_def)
  then obtain wt2 where wt2: "pending_fds 1025 wt = Some (map (\<lambda>fd. (fd, event_flags fd (mReadsResult wt) (mWritesResult wt))) ?fds, wt2)"
    "waiter_ok wt2" "wanted wt2 = wanted (mWaiter L)"
    using pending_fds_spec [OF wt(1), of 1025] wt(2,3) W(3) by auto
  let ?evs = "map (\<lambda>fd. (fd, event_flags fd (mReadsResult wt) (mWritesResult wt))) ?fds"
  have "distinct (map fst ?evs)" by (simp add: comp_def)
  then obtain L2 where L2: "queue_watches ?evs (L\<lparr>mWaiter := wt2\<rparr>) = Some L2" "watches_ok L2"
    "same_timers L L2" "same_tasks L L2"
    using queue_watches_ok [OF change [OF wt2(2,3)], of ?evs] assms(2) by (auto simp: quiet_def same_defs)
  have "looper_ok L2"
    using assms(1) L2(2) same_timers_ok [OF L2(3)] same_tasks_ok [OF L2(4)] by (simp add: looper_ok_def)
  moreover have "looper_ok (L\<lparr>mWaiter := wt\<rparr>)" using ok [OF wt(1,2)] .
  moreover have "quiet (L\<lparr>mWaiter := wt\<rparr>)" "mPendingFdWatches L = []" using assms(2) by (simp_all add: quiet_def)
  moreover have "same_timers L (L\<lparr>mWaiter := wt\<rparr>)" "same_tasks L (L\<lparr>mWaiter := wt\<rparr>)" by (simp_all add: same_defs)
  ultimately show ?thesis
    using False wait wt2(1) L2 by (cases "n < 0"; cases "n > 0") (auto simp: wait_for_events_def Let_def)
qed

section \<open>An iteration\<close>

lemma iteration_timeout_defined:
  assumes "timers_ok L" and "now - 2 ^ 63 \<le> deadlineMs" and "\<forall>t \<in> set (mActiveTimers L). now - 2 ^ 63 \<le> deadline_of L t"
  shows "\<exists>n. iteration_timeout deadlineMs now L = Some n"
proof -
  have "deadline L t = Some (deadline_of L t)" if "t \<in> set (mActiveTimers L)" for t
    using assms(1) that unfolding timers_ok_def timer_ok_def
    by (fastforce simp: deadline_def deadline_of_def split: option.splits dest: spec [of _ t])
  then have "\<exists>first. (case mActiveTimers L of [] \<Rightarrow> Some kDurationInfinite | t # _ \<Rightarrow> deadline L t) = Some first \<and>
      (first = kDurationInfinite \<or> now - 2 ^ 63 \<le> first)"
    using assms(3) by (cases "mActiveTimers L") auto
  then show ?thesis using assms(2) by (auto simp: iteration_timeout_def Let_def)
qed

definition idle :: "looper \<Rightarrow> bool" where
  "idle L \<longleftrightarrow> looper_ok L \<and> quiet L \<and> running L = []"

definition times_ok :: "iteration_env \<Rightarrow> int \<Rightarrow> looper \<Rightarrow> bool" where
  "times_ok env deadlineMs L \<longleftrightarrow> now_before env - 2 ^ 63 \<le> deadlineMs \<and>
     (\<forall>t \<in> set (mActiveTimers L). now_before env - 2 ^ 63 \<le> deadline_of L t)"

lemma iteration_ok:
  assumes "idle L" and "well_behaved cb" and "env_ok env" and "times_ok env deadlineMs L"
  shows "\<exists>b L'. runOneIterationWithDeadlineMs cb env deadlineMs L = Some (b, L') \<and> idle L' \<and>
    (b \<and> keeps_timers cb \<longrightarrow> (\<exists>cs L1 ws. fired L' =
        fired L @ cs @ map TimerCb (filter (\<lambda>t. deadline_of L1 t \<le> now_after env) (mActiveTimers L1)) @ ws \<and>
        (mScheduledTasks L = [] \<longrightarrow> cs = [] \<and> mActiveTimers L1 = mActiveTimers L \<and> timers L1 = timers L) \<and>
        (\<forall>c \<in> set ws. \<exists>w fd e. c = WatchCb w fd e)))"
proof -
  have ok: "looper_ok L" "timers_ok L" "tasks_ok L" "quiet L" "running L = []"
    using assms(1) by (simp_all add: idle_def looper_ok_def)
  obtain n where n: "iteration_timeout deadlineMs (now_before env) L = Some n"
    using iteration_timeout_defined [OF ok(2), of "now_before env" deadlineMs] assms(4) by (auto simp: times_ok_def)
  let ?ks = "task_order env (mScheduledTasks L)" and ?L = "L\<lparr>mScheduledTasks := []\<rparr>"
  have perm: "mset ?ks = mset (mScheduledTasks L)" using assms(3) by (simp add: env_ok_def)
  have "same_timers L ?L" "same_watches L ?L" by (simp_all add: same_defs)
  moreover have "tasks_ok ?L" using ok(3) by (simp add: tasks_ok_def)
  ultimately have okL: "looper_ok ?L" using task_part(1) [OF ok(1), of ?L] by simp
  have ks: "set ?ks \<subseteq> dom (tasks ?L)" "distinct ?ks"
    using ok(3) perm mset_eq_setD [OF perm] mset_eq_imp_distinct_iff [OF perm] by (simp_all add: tasks_ok_def)
  have "quiet ?L" using ok(4) by (simp add: quiet_def)
  then obtain L1 cs where L1: "run_tasks cb ?ks ?L = Some L1" "looper_ok L1" "quiet L1" "running L1 = []"
    "fired L1 = fired L @ cs"
    using run_tasks_ok [OF okL assms(2) ks] by auto
  have notasks: "mScheduledTasks L = [] \<longrightarrow> cs = [] \<and> mActiveTimers L1 = mActiveTimers L \<and> timers L1 = timers L"
    using L1(1,5) perm by auto
  obtain x L2 where x: "wait_for_events env n L1 = Some x" "x \<in> {Inl L2, Inr L2}" "looper_ok L2"
    "x = Inl L2 \<longrightarrow> quiet L2" "same_timers L1 L2" "same_tasks L1 L2"
    using wait_for_events_ok [OF L1(2,3) assms(3)] by blast
  show ?thesis
  proof (cases "x = Inl L2")
    case True
    then show ?thesis using n L1(1,4) x by (auto simp: runOneIterationWithDeadlineMs_def idle_def same_defs Let_def)
  next
    case False
    then have x': "x = Inr L2" using x(2) by auto
    have pend: "mPendingTimers L2 = []" using x(5) L1(3) by (simp add: same_defs quiet_def)
    obtain L3 where L3: "expire_timers (now_after env) (mActiveTimers L2) L2 = Some L3" "timers_ok L3"
      "mPendingTimers L3 = filter (\<lambda>t. deadline_of L2 t \<le> now_after env) (mActiveTimers L2)"
      "same_watches L2 L3" "same_tasks L2 L3"
      using expire_timers_ok [where L = L2 and ts = "mActiveTimers L2" and now = "now_after env"] x(3) pend by (auto simp: looper_ok_def)
    have "looper_ok L3"
      using x(3) L3(2) same_watches_ok [OF L3(4)] same_tasks_ok [OF L3(5)] by (simp add: looper_ok_def)
    then obtain L4 ts where L4: "fire_timers cb L3 = Some L4" "looper_ok L4" "mPendingTimers L4 = []" "pending_shrinks L3 L4"
      "fired L4 = fired L3 @ map TimerCb ts" "keeps_timers cb \<longrightarrow> ts = mPendingTimers L3"
      using fire_timers_ok [OF _ assms(2)] by blast
    obtain L5 ws where L5: "fire_watches cb L4 = Some L5" "looper_ok L5" "mPendingFdWatches L5 = []" "pending_shrinks L4 L5"
      "fired L5 = fired L4 @ ws" "\<forall>c \<in> set ws. \<exists>w fd e. c = WatchCb w fd e"
      using fire_watches_ok [OF L4(2) assms(2)] by blast
    have run: "runOneIterationWithDeadlineMs cb env deadlineMs L = Some (True, L5)"
      using n L1(1) x(1) x' pend L3(1) L4(1) L5(1) by (simp add: runOneIterationWithDeadlineMs_def Let_def)
    have "idle L5" using L5(2-4) L4(3,4) L3(5) x(6) L1(4) by (auto simp: idle_def quiet_def pending_shrinks_def same_defs)
    moreover have "deadline_of L2 = deadline_of L1" using x(5) by (auto simp: same_defs deadline_of_def)
    then have "keeps_timers cb \<longrightarrow> fired L5 = fired L @ cs @
        map TimerCb (filter (\<lambda>t. deadline_of L1 t \<le> now_after env) (mActiveTimers L1)) @ ws"
      using L5(5) L4(5,6) L3(3,5) x(5,6) L1(5) by (simp add: same_defs)
    ultimately show ?thesis using run notasks L5(6) by blast
  qed
qed

section \<open>Properties\<close>


definition looper_sample_env :: iteration_env where
  "looper_sample_env = \<lparr>now_before = 1000, task_order = (\<lambda>ks. ks), select_answers = [Failed], now_after = 1005\<rparr>"

text \<open>A callback that starts its own timer again, when it still exists.\<close>

definition sample_callbacks :: callbacks where
  "sample_callbacks c L =
     (case c of
        TimerCb t \<Rightarrow> if timers L t \<noteq> None \<and> t \<notin> set (mPendingTimers L) then [StartAbsolute t 2000] else []
      | _ \<Rightarrow> [])"

definition sample_looper :: looper where
  "sample_looper = the (exec_ops [CreateTimer 1, CreateTimer 2, StartAbsolute 1 1004, StartAbsolute 2 1003] new_looper)"

lemma sample_ok:
  "idle sample_looper" "well_behaved sample_callbacks" "keeps_timers sample_callbacks" "env_ok looper_sample_env"
  "times_ok looper_sample_env 5000 sample_looper"
proof -
  have "ops_allowed [CreateTimer 1, CreateTimer 2, StartAbsolute 1 1004, StartAbsolute 2 1003] new_looper" by code_simp
  from exec_ops_ok [OF new_looper_ok this] have "looper_ok sample_looper" unfolding sample_looper_def op_result_def by auto
  moreover have "mPendingTimers sample_looper = []" "mPendingFdWatches sample_looper = []" "running sample_looper = []"
    by code_simp+
  ultimately show "idle sample_looper" by (simp add: idle_def quiet_def)
  have "ops_allowed [StartAbsolute t 2000] L" if "timers L t \<noteq> None" "t \<notin> set (mPendingTimers L)" for t L
    using that by (auto split: option.splits)
  then show "well_behaved sample_callbacks"
    by (auto simp: well_behaved_def sample_callbacks_def split: callback.splits)
  show "keeps_timers sample_callbacks" by (auto simp: keeps_timers_def sample_callbacks_def split: callback.splits if_splits)
  show "env_ok looper_sample_env" by (simp add: env_ok_def looper_sample_env_def)
  show "times_ok looper_sample_env 5000 sample_looper" by code_simp
qed




text \<open>
  The interface promises that timers may be freed and stopped at any time, also from callbacks.  The code
  does not keep that promise.  Deleting a running timer leaves its pointer in the list of active timers, and the
  next iteration follows it; stopping, or restarting, a timer that waits to be fired in the same
  iteration erases it from a list it is not in.
\<close>

theorem deleting_running_timer_dangles:
  assumes "looper_ok L" and "mActiveTimers L = t # ts" and "u \<in> set (mPendingTimers L)"
  shows "(\<exists>L'. Timer_delete t L = Some L' \<and> t \<in> set (mActiveTimers L') \<and> timers L' t = None \<and>
      runOneIterationWithDeadlineMs cb env deadlineMs L' = None) \<and>
    Timer_stop u L = None \<and> startAbsolute u d L = None"
proof -
  have T: "timers_ok L" using assms(1) by (simp add: looper_ok_def)
  have ok: "timer_ok L t" "timer_ok L u" using T by (simp_all add: timers_ok_def)
  have t: "timers L t \<noteq> None" using ok(1) assms(2) by (auto simp: timer_ok_def split: option.splits)
  obtain L1 where L1: "Timer_clearPending t L = Some L1" "mActiveTimers L1 = t # ts"
    using clearPending_timer_ok [OF T t] assms(2) by auto
  let ?L = "(delTimer t L1)\<lparr>timers := (timers L1)(t := None)\<rparr>"
  have del: "Timer_delete t L = Some ?L" using L1(1) by (simp add: Timer_delete_def)
  have "mActiveTimers ?L = t # ts" using L1(2) by (simp add: delTimer_def)
  then have "iteration_timeout deadlineMs (now_before env) ?L = None"
    by (simp add: iteration_timeout_def deadline_def)
  then have "runOneIterationWithDeadlineMs cb env deadlineMs ?L = None"
    by (simp add: runOneIterationWithDeadlineMs_def)
  moreover have "startAbsolute u e L = None" for e
    using ok(2) assms(3) by (auto simp: timer_ok_def startAbsolute_def disableTimer_def split: option.splits)
  ultimately show ?thesis using del \<open>mActiveTimers ?L = t # ts\<close> by (simp add: Timer_stop_def)
qed

lemma deleting_running_timer_dangles_witness:
  "Timer_stop 2 (the (expire_timers 1003 [2, 1] sample_looper)) = None \<and>
   (\<exists>L'. Timer_delete 1 (the (expire_timers 1003 [2, 1] sample_looper)) = Some L' \<and> 1 \<in> set (mActiveTimers L'))"
proof -
  have act: "mActiveTimers sample_looper = [2, 1]" by code_simp
  have ok: "looper_ok sample_looper" using sample_ok(1) by (simp add: idle_def)
  then obtain L where L: "expire_timers 1003 (mActiveTimers sample_looper) sample_looper = Some L" "timers_ok L"
    "same_watches sample_looper L" "same_tasks sample_looper L"
    using expire_timers_ok [where L = sample_looper and ts = "mActiveTimers sample_looper" and now = 1003]
    by (auto simp: looper_ok_def)
  have "looper_ok L"
    using ok L(2) same_watches_ok [OF L(3)] same_tasks_ok [OF L(4)] by (simp add: looper_ok_def)
  moreover have "map_option mActiveTimers (expire_timers 1003 [2, 1] sample_looper) = Some [1]"
    "map_option mPendingTimers (expire_timers 1003 [2, 1] sample_looper) = Some [2]"
    by code_simp+
  ultimately show ?thesis
    using deleting_running_timer_dangles [of L 1 "[]" 2 sample_callbacks looper_sample_env 5000 0] L(1) [unfolded act]
    by (simp del: expire_timers.simps) blast
qed

end
