(* ===== verification/Partition_Types.thy ===== *)
theory Partition_Types
  imports Archive Text
begin

text \<open>
  The formats of partition images: \<^verbatim>\<open>fstab_parser.cpp\<close>, which finds the format of a partition in an fstab file,
  \<^verbatim>\<open>partition_types.cpp\<close>, \<^verbatim>\<open>ext4_utils.cpp\<close> and \<^verbatim>\<open>ext4_resize.cpp\<close>.  The parser is shown to agree with a reference
  definition on lines and words, the size computations are shown exact over the whole range of their words.
\<close>

section \<open>The fstab parser\<close>

text \<open>A pointer into the current line is the part of the line from there to \<^verbatim>\<open>line_end\<close>.\<close>

definition skipWhitespace :: "bytes \<Rightarrow> bytes" where
  "skipWhitespace p = dropWhile isspace p"

definition skipNonWhitespace :: "bytes \<Rightarrow> bytes" where
  "skipNonWhitespace p = dropWhile (\<lambda>c. \<not> isspace c) p"

definition skipExpectedToken :: "bytes \<Rightarrow> bytes option" where
  "skipExpectedToken p =
     (let p1 = skipWhitespace p in if p1 = [] then None else Some (skipNonWhitespace p1))"

definition getTokenLen :: "bytes \<Rightarrow> nat" where
  "getTokenLen p = length p - length (skipNonWhitespace p)"

text \<open>
  The current line and the rest of the data.  \<^verbatim>\<open>strchr\<close> finds a newline only before the first zero byte, and there is a
  zero byte behind the data.
\<close>

definition next_line :: "bytes \<Rightarrow> bytes \<times> bytes" where
  "next_line p =
     (let l = takeWhile (\<lambda>c. c \<noteq> 0 \<and> c \<noteq> 0x0A) p; r = drop (length l) p
      in if r \<noteq> [] \<and> hd r = 0x0A then (l, tl r) else (p, []))"

text \<open>What the body of the loop returns for one line, \<open>None\<close> when it goes on with the next.\<close>

definition parse_fstab_line :: "bytes \<Rightarrow> bytes \<Rightarrow> bytes option option" where
  "parse_fstab_line partitionName l =
     (let line = skipWhitespace l
      in if line = [] \<or> hd line = 0x23 then None
         else (case skipExpectedToken line of
                 None \<Rightarrow> None
               | Some line1 \<Rightarrow>
                   (let line2 = skipWhitespace line1; tokenLen = getTokenLen line2
                    in if tokenLen \<noteq> length partitionName \<or> take tokenLen line2 \<noteq> partitionName then None
                       else (let line3 = skipWhitespace (drop tokenLen line2); formatLen = getTokenLen line3
                             in if formatLen = 0 then Some None else Some (Some (take formatLen line3))))))"

lemma next_line_shorter: "p \<noteq> [] \<Longrightarrow> next_line p = (l, r) \<Longrightarrow> length r < length p"
  by (auto simp: next_line_def Let_def split: if_splits)

function android_parseFstabPartitionFormat :: "bytes \<Rightarrow> bytes \<Rightarrow> bytes option" where
  "android_parseFstabPartitionFormat fstabData partitionName =
     (if fstabData = [] then None
      else (case next_line fstabData of
              (line, p) \<Rightarrow>
                (case parse_fstab_line partitionName line of
                   None \<Rightarrow> android_parseFstabPartitionFormat p partitionName
                 | Some r \<Rightarrow> r)))"
  by auto
termination
  by (relation "measure (\<lambda>(d, _). length d)") (auto dest: next_line_shorter [OF _ sym])

declare android_parseFstabPartitionFormat.simps [simp del]

section \<open>Partition types\<close>

datatype AndroidPartitionType = ANDROID_PARTITION_TYPE_UNKNOWN | ANDROID_PARTITION_TYPE_YAFFS2 | ANDROID_PARTITION_TYPE_EXT4

definition kPartitionTypeMap :: "(bytes \<times> AndroidPartitionType) list" where
  "kPartitionTypeMap =
     [(asc ''unknown'', ANDROID_PARTITION_TYPE_UNKNOWN), (asc ''yaffs2'', ANDROID_PARTITION_TYPE_YAFFS2),
      (asc ''ext4'', ANDROID_PARTITION_TYPE_EXT4)]"

definition androidPartitionType_toString :: "AndroidPartitionType \<Rightarrow> bytes" where
  "androidPartitionType_toString part_type =
     (case find (\<lambda>(_, v). v = part_type) kPartitionTypeMap of Some (n, _) \<Rightarrow> n | None \<Rightarrow> asc ''unknown'')"

definition androidPartitionType_fromString :: "bytes \<Rightarrow> AndroidPartitionType" where
  "androidPartitionType_fromString part_type =
     (case find (\<lambda>(n, _). n = part_type) kPartitionTypeMap of Some (_, v) \<Rightarrow> v | None \<Rightarrow> ANDROID_PARTITION_TYPE_UNKNOWN)"

type_synonym path = bytes
type_synonym files = "path \<rightharpoonup> bytes"

definition kOffset :: nat where "kOffset = 0x438"
definition kExpected :: bytes where "kExpected = [0x53, 0xEF]"

text \<open>A file that does not exist cannot be opened; of an existing one the two bytes at the offset are read.\<close>

definition android_pathIsExt4PartitionImage :: "files \<Rightarrow> path \<Rightarrow> bool" where
  "android_pathIsExt4PartitionImage fs path =
     (case fs path of
        None \<Rightarrow> False
      | Some bs \<Rightarrow> length (take 2 (drop kOffset bs)) = 2 \<and> take 2 (drop kOffset bs) = kExpected)"

definition androidPartitionType_probeFile :: "files \<Rightarrow> path \<Rightarrow> AndroidPartitionType" where
  "androidPartitionType_probeFile fs image_file =
     (if fs image_file = None then ANDROID_PARTITION_TYPE_UNKNOWN
      else if android_pathIsExt4PartitionImage fs image_file then ANDROID_PARTITION_TYPE_EXT4
      else ANDROID_PARTITION_TYPE_YAFFS2)"

section \<open>Sizes\<close>

definition UINT_MAX :: u64 where "UINT_MAX = 0xFFFFFFFF"

definition convertBytesToMB :: "u64 \<Rightarrow> u32" where
  "convertBytesToMB sz =
     (if sz = 0 then 0
      else (let mb = drop_bit 20 (sz + push_bit 20 1 - 1) in ucast (if mb > UINT_MAX then UINT_MAX else mb)))"

definition checkExt4PartitionSize :: "u64 \<Rightarrow> bool" where
  "checkExt4PartitionSize byteSize =
     (let maxSizeMB = 16 * 1024 * 1024; minSizeMB = 128; sizeMB = (ucast (convertBytesToMB byteSize) :: u64)
      in sizeMB \<ge> minSizeMB \<and> sizeMB \<le> maxSizeMB)"

text \<open>
  Running a program: its path when it is found, and its exit code with what it makes of the image.  The two programs are
  \<^verbatim>\<open>e2fsck\<close> and \<^verbatim>\<open>resize2fs\<close>.
\<close>

record ext4_programs =
  findBundledExecutable :: "bytes \<Rightarrow> bytes"
  execute :: "bytes list \<Rightarrow> bytes option \<Rightarrow> int \<times> bytes option"

definition runExt4Program :: "ext4_programs \<Rightarrow> bytes \<Rightarrow> bytes list \<Rightarrow> bytes option \<Rightarrow> int \<times> bytes option" where
  "runExt4Program P program params img =
     (let executable = findBundledExecutable P program
      in if executable = [] then (-1, img) else execute P (executable # params) img)"

definition resizeExt4Partition :: "ext4_programs \<Rightarrow> path option \<Rightarrow> u64 \<Rightarrow> bytes option \<Rightarrow> int \<times> bytes option" where
  "resizeExt4Partition P partitionPath newByteSize img =
     (case partitionPath of
        None \<Rightarrow> (-1, img)
      | Some path \<Rightarrow>
          if \<not> checkExt4PartitionSize newByteSize then (-1, img)
          else (case runExt4Program P (asc ''e2fsck'') [asc ''-y'', path] img of
                  (fsckReturnCode, img1) \<Rightarrow>
                    if fsckReturnCode \<noteq> 0 then (fsckReturnCode, img1)
                    else (let size_in_MB = dec_digits (unat (convertBytesToMB newByteSize)) @ asc ''M''
                          in if length size_in_MB \<ge> 50 then (-1, img1)
                             else runExt4Program P (asc ''resize2fs'') [asc ''-f'', path, size_in_MB] img1)))"

section \<open>Lines and words\<close>

text \<open>The reference: lines, words separated by white space, and the lines that are entries.\<close>

function words :: "bytes \<Rightarrow> bytes list" where
  "words s =
     (let t = dropWhile isspace s
      in if t = [] then [] else takeWhile (\<lambda>c. \<not> isspace c) t # words (dropWhile (\<lambda>c. \<not> isspace c) t))"
  by auto
termination
proof (relation "measure length", goal_cases)
  case (2 s t)
  then have "\<not> isspace (hd t)" using hd_dropWhile [of isspace s] by simp
  then have "length (dropWhile (\<lambda>c. \<not> isspace c) t) < length t"
    using 2(2) by (cases t) (auto simp: less_Suc_eq_le length_dropWhile_le)
  also have "\<dots> \<le> length s" using 2(1) by (simp add: length_dropWhile_le)
  finally show ?case by simp
qed simp

declare words.simps [simp del]

definition fstab_entries :: "bytes \<Rightarrow> bytes list list" where
  "fstab_entries fstab = filter (\<lambda>ws. ws \<noteq> [] \<and> hd (hd ws) \<noteq> 0x23) (map words (getlines fstab))"

definition fstab_format :: "bytes \<Rightarrow> bytes \<Rightarrow> bytes option" where
  "fstab_format fstab name =
     (case find (\<lambda>ws. length ws > 1 \<and> ws ! 1 = name) (fstab_entries fstab) of
        Some ws \<Rightarrow> if length ws > 2 then Some (ws ! 2) else None
      | None \<Rightarrow> None)"

lemma words_skip: "words (dropWhile isspace s) = words s"
  by (subst (1 2) words.simps) simp

lemma words_token:
  assumes "s \<noteq> []" and "\<not> isspace (hd s)"
  shows "words s = takeWhile (\<lambda>c. \<not> isspace c) s # words (dropWhile (\<lambda>c. \<not> isspace c) s)"
  using assms by (subst words.simps) (cases s; simp)

lemma words_Nil_iff: "words s = [] \<longleftrightarrow> dropWhile isspace s = []"
  by (subst words.simps) (simp add: Let_def)

lemma token_len: "getTokenLen p = length (takeWhile (\<lambda>c. \<not> isspace c) p)"
  unfolding getTokenLen_def skipNonWhitespace_def
  by (metis add_diff_cancel_right' length_append takeWhile_dropWhile_id)

lemma take_token: "take (getTokenLen p) p = takeWhile (\<lambda>c. \<not> isspace c) p"
  and drop_token: "drop (getTokenLen p) p = dropWhile (\<lambda>c. \<not> isspace c) p"
  by (simp_all add: token_len takeWhile_eq_take [symmetric] dropWhile_eq_drop)

lemma token_facts:
  "length (take (getTokenLen p) p) = getTokenLen p"
  "getTokenLen (skipWhitespace p) = 0 \<longleftrightarrow> skipWhitespace p = []"
proof -
  show "length (take (getTokenLen p) p) = getTokenLen p" by (metis take_token token_len)
  show "getTokenLen (skipWhitespace p) = 0 \<longleftrightarrow> skipWhitespace p = []"
  proof (cases "skipWhitespace p")
    case (Cons c cs)
    then have "\<not> isspace c" using hd_dropWhile [of isspace p] by (simp add: skipWhitespace_def)
    then show ?thesis using Cons by (simp add: token_len)
  qed (simp add: token_len)
qed

lemma next_word:
  "words s = (let p = skipWhitespace s in if p = [] then [] else take (getTokenLen p) p # words (drop (getTokenLen p) p))"
  by (subst words.simps) (simp add: Let_def skipWhitespace_def take_token drop_token)

lemma parse_fstab_line_words:
  assumes "name \<noteq> []"
  shows "parse_fstab_line name l =
    (let ws = words l in
     if ws = [] \<or> hd (hd ws) = 0x23 \<or> \<not> (length ws > 1 \<and> ws ! 1 = name) then None
     else Some (if length ws > 2 then Some (ws ! 2) else None))"
proof (cases "skipWhitespace l = []")
  case True
  then show ?thesis using next_word [of l] by (simp add: parse_fstab_line_def)
next
  case False
  let ?p1 = "skipWhitespace l"
  let ?r1 = "drop (getTokenLen ?p1) ?p1"
  let ?p2 = "skipWhitespace ?r1"
  let ?r2 = "drop (getTokenLen ?p2) ?p2"
  have w1: "words l = take (getTokenLen ?p1) ?p1 # words ?r1" and h1: "hd (take (getTokenLen ?p1) ?p1) = hd ?p1"
    using False token_facts(2) [of l] next_word [of l] by (simp_all add: Let_def)
  have same: "skipWhitespace ?p1 = ?p1" by (simp add: skipWhitespace_def)
  have exp: "skipExpectedToken ?p1 = Some ?r1"
    using False same by (simp add: skipExpectedToken_def drop_token skipNonWhitespace_def)
  have name: "getTokenLen ?p2 \<noteq> length name \<or> take (getTokenLen ?p2) ?p2 \<noteq> name \<longleftrightarrow> take (getTokenLen ?p2) ?p2 \<noteq> name"
    using token_facts(1) [of ?p2] by metis
  have parse: "parse_fstab_line name l =
    (if hd ?p1 = 0x23 \<or> take (getTokenLen ?p2) ?p2 \<noteq> name then None
     else Some (if words ?r2 = [] then None else Some (hd (words ?r2))))"
    using False exp name token_facts(2) [of ?r2] next_word [of ?r2] unfolding parse_fstab_line_def by (auto simp: Let_def)
  show ?thesis
  proof (cases "?p2 = []")
    case True
    then show ?thesis using parse w1 next_word [of ?r1] assms h1 by (simp add: token_len)
  next
    case f: False
    then have "words ?r1 = take (getTokenLen ?p2) ?p2 # words ?r2" using next_word [of ?r1] by (simp add: Let_def)
    then show ?thesis using parse w1 h1 by (cases "words ?r2") auto
  qed
qed

lemma next_line_getlines:
  assumes "0 \<notin> set d" and "d \<noteq> []"
  shows "getlines d = fst (next_line d) # getlines (snd (next_line d))" and "set (snd (next_line d)) \<subseteq> set d"
proof -
  let ?t = "takeWhile (\<lambda>c. c \<noteq> 0x0A) d" and ?r = "dropWhile (\<lambda>c. c \<noteq> 0x0A) d"
  have "takeWhile (\<lambda>c. c \<noteq> 0 \<and> c \<noteq> 0x0A) d = ?t" using assms(1) by (auto intro: takeWhile_cong)
  then have n: "next_line d = (?t, tl ?r)"
    using hd_dropWhile [of "\<lambda>c. c \<noteq> 0x0A" d] takeWhile_dropWhile_id [of "\<lambda>c. c \<noteq> 0x0A" d]
    by (cases "?r = []") (simp_all only: next_line_def Let_def dropWhile_eq_drop [symmetric] append_Nil2 list.sel simp_thms if_True if_False, simp_all)
  show "getlines d = fst (next_line d) # getlines (snd (next_line d))"
    using assms(2) by (subst getlines.simps) (simp add: n)
  show "set (snd (next_line d)) \<subseteq> set d" unfolding n using set_drop_subset [of 1 ?r] set_dropWhileD [of _ "\<lambda>c. c \<noteq> 0x0A" d] by (fastforce simp: drop_Suc)
qed

text \<open>
  The pointer loops of the parser compute what the reference says on every file without zero bytes: the third word of the
  first line that has the mount point as its second word, comments and empty lines aside; a line that ends after the mount
  point ends the search.
\<close>

lemma fstab_parser_is_reference:
  assumes "0 \<notin> set fstab" and "name \<noteq> []"
  shows "android_parseFstabPartitionFormat fstab name = fstab_format fstab name"
  using assms
proof (induction fstab name rule: android_parseFstabPartitionFormat.induct)
  case (1 d n)
  show ?case
  proof (cases "d = []")
    case True
    then show ?thesis by (simp add: android_parseFstabPartitionFormat.simps fstab_format_def fstab_entries_def)
  next
    case False
    obtain l p where n: "next_line d = (l, p)" by fastforce
    note lines = next_line_getlines [OF 1(2) False, unfolded n, simplified]
    have IH: "android_parseFstabPartitionFormat p n = fstab_format p n" if "parse_fstab_line n l = None"
      using 1(1) [OF False n [symmetric] that] 1(2,3) lines(2) by blast
    show ?thesis
      using IH parse_fstab_line_words [OF 1(3), of l] False
      by (subst android_parseFstabPartitionFormat.simps)
        (auto simp: n fstab_format_def fstab_entries_def lines(1) Let_def split: if_splits)
  qed
qed

lemma words_subset: "w \<in> set (words s) \<Longrightarrow> set w \<subseteq> set s"
proof (induction s arbitrary: w rule: words.induct)
  case (1 s)
  let ?t = "dropWhile isspace s"
  have sub: "set (takeWhile (\<lambda>c. \<not> isspace c) ?t) \<subseteq> set s" "set (dropWhile (\<lambda>c. \<not> isspace c) ?t) \<subseteq> set s"
    by (auto dest!: set_takeWhileD set_dropWhileD)
  show ?case
  proof (cases "?t = []")
    case True
    then show ?thesis using 1(2) words_Nil_iff [of s] by simp
  next
    case False
    then have "words s = takeWhile (\<lambda>c. \<not> isspace c) ?t # words (dropWhile (\<lambda>c. \<not> isspace c) ?t)"
      by (subst words.simps) (simp add: Let_def)
    then show ?thesis using 1(1) [OF refl False] 1(2) sub by auto
  qed
qed

lemma getlines_subset: "l \<in> set (getlines s) \<Longrightarrow> set l \<subseteq> set s"
proof (induction s arbitrary: l rule: getlines.induct)
  case (1 s)
  have "set (tl (dropWhile (\<lambda>c. c \<noteq> 0x0A) s)) \<subseteq> set s"
    using set_drop_subset [of 1 "dropWhile (\<lambda>c. c \<noteq> 0x0A) s"] set_dropWhileD [of _ "\<lambda>c. c \<noteq> 0x0A" s] by (fastforce simp: drop_Suc)
  moreover have "set (takeWhile (\<lambda>c. c \<noteq> 0x0A) s) \<subseteq> set s" by (auto dest: set_takeWhileD)
  ultimately show ?case using 1 getlines.simps [of s] by (cases "s = []") auto
qed

lemma fstab_format_no_zero:
  assumes "0 \<notin> set fstab" and "fstab_format fstab name = Some f"
  shows "0 \<notin> set f"
proof -
  obtain ws where ws: "ws \<in> set (fstab_entries fstab)" "length ws > 2" "f = ws ! 2"
    using assms(2) by (auto simp: fstab_format_def find_Some_iff in_set_conv_nth split: option.splits if_splits)
  then obtain l where "l \<in> set (getlines fstab)" "ws = words l" by (auto simp: fstab_entries_def)
  then show ?thesis using getlines_subset [of l fstab] words_subset [of f l] ws(2,3) assms(1) by auto
qed

lemma fstab_parser_is_reference_witness:
  "android_parseFstabPartitionFormat (asc ''# fstab'' @ [0x0A] @ asc ''/dev/b  /data ext4 rw'') (asc ''/data'') = Some (asc ''ext4'')"
proof -
  have "android_parseFstabPartitionFormat (asc ''# fstab'' @ [0x0A] @ asc ''/dev/b  /data ext4 rw'') (asc ''/data'') =
    fstab_format (asc ''# fstab'' @ [0x0A] @ asc ''/dev/b  /data ext4 rw'') (asc ''/data'')"
    by (rule fstab_parser_is_reference) (simp_all add: asc_def)
  also have "\<dots> = Some (asc ''ext4'')" by code_simp
  finally show ?thesis .
qed

section \<open>Sizes\<close>

lemma uint_convertBytesToMB:
  "uint (convertBytesToMB sz) = min ((uint sz + 2 ^ 20 - 1) mod 2 ^ 64 div 2 ^ 20) (2 ^ 32 - 1)"
proof -
  let ?mb = "drop_bit 20 (sz + push_bit 20 1 - 1)"
  have mb: "uint ?mb = (uint sz + 2 ^ 20 - 1) mod 2 ^ 64 div 2 ^ 20"
    by (simp add: drop_bit_eq_div uint_div uint_word_ariths push_bit_eq_mult mod_simps)
  have "uint (ucast (if ?mb > UINT_MAX then UINT_MAX else ?mb) :: u32) = min (uint ?mb) (2 ^ 32 - 1)"
    by (simp add: unsigned_ucast_eq UINT_MAX_def word_less_def take_bit_eq_mod min_def)
  then show ?thesis unfolding mb convertBytesToMB_def Let_def by (cases "sz = 0") (simp, simp only: if_False)
qed

lemma dec_digits_length: "n < 10 ^ Suc k \<Longrightarrow> length (dec_digits n) \<le> Suc k"
proof (induction k arbitrary: n)
  case 0
  then show ?case by (subst dec_digits.simps) simp
next
  case (Suc k)
  then have "n div 10 < 10 ^ Suc k" by (simp add: less_mult_imp_div_less)
  from Suc.IH [OF this] show ?case by (subst dec_digits.simps) simp
qed

text \<open>
  The size in megabytes is rounded up, without wrap-around for every size an image can have, and at most what an unsigned
  can hold; the check accepts exactly the sizes from more than 127 MB to 16 TB, negative numbers included among the rejected
  ones; and the text of the size always fits the buffer of \<^verbatim>\<open>resizeExt4Partition\<close>.
\<close>

theorem ext4_sizes:
  "(uint sz \<le> 2 ^ 52 - 2 ^ 20 \<longrightarrow> uint (convertBytesToMB sz) = (uint sz + 2 ^ 20 - 1) div 2 ^ 20) \<and>
   (checkExt4PartitionSize sz \<longleftrightarrow> 127 * 2 ^ 20 < uint sz \<and> uint sz \<le> 2 ^ 44) \<and>
   (checkExt4PartitionSize sz \<longrightarrow> sint sz > 0) \<and>
   length (dec_digits (unat (convertBytesToMB sz)) @ asc ''M'') \<le> 11"
proof (intro conjI)
  let ?u = "uint sz" and ?m = "uint (convertBytesToMB sz)"
  note m = uint_convertBytesToMB [of sz]
  have u: "0 \<le> ?u" "?u < 2 ^ 64" using uint_lt2p [of sz] by auto
  have pos: "(0 :: int) < 2 ^ 20" by simp
  define q where "q = (?u + 2 ^ 20 - 1) div 2 ^ 20"
  have q: "2 ^ 20 * q \<le> ?u + 2 ^ 20 - 1" "?u + 2 ^ 20 - 1 < 2 ^ 20 * q + 2 ^ 20"
    using mult_div_mod_eq [of "2 ^ 20" "?u + 2 ^ 20 - 1"] pos_mod_bound [of "2 ^ 20" "?u + 2 ^ 20 - 1", OF pos]
      pos_mod_sign [of "2 ^ 20" "?u + 2 ^ 20 - 1", OF pos] unfolding q_def by linarith+
  have small: "?m = min q (2 ^ 32 - 1)" if "?u \<le> 2 ^ 64 - 2 ^ 20" using m u that by (simp add: q_def)
  have wrapped: "?m = 0" if "?u > 2 ^ 64 - 2 ^ 20"
  proof -
    have "(?u + 2 ^ 20 - 1) mod 2 ^ 64 = ?u + 2 ^ 20 - 1 - 2 ^ 64" using that u by (subst mod_pos_geq) simp_all
    then show ?thesis using m u that by simp
  qed
  show "?u \<le> 2 ^ 52 - 2 ^ 20 \<longrightarrow> ?m = (?u + 2 ^ 20 - 1) div 2 ^ 20" using small q unfolding q_def [symmetric] by auto
  have check: "checkExt4PartitionSize sz \<longleftrightarrow> 128 \<le> ?m \<and> ?m \<le> 2 ^ 24"
    using uint_lt2p [of "convertBytesToMB sz"]
    by (simp add: checkExt4PartitionSize_def Let_def word_le_def unsigned_ucast_eq take_bit_eq_mod)
  show c: "checkExt4PartitionSize sz \<longleftrightarrow> 127 * 2 ^ 20 < ?u \<and> ?u \<le> 2 ^ 44"
    unfolding check using small wrapped q by (cases "?u \<le> 2 ^ 64 - 2 ^ 20") (auto simp: min_def)
  show "checkExt4PartitionSize sz \<longrightarrow> sint sz > 0" unfolding c by (auto simp: sint_u64)
  have "unat (convertBytesToMB sz) < 2 ^ LENGTH(32)" by (rule unsigned_less)
  then have "unat (convertBytesToMB sz) < 10 ^ Suc 9" by simp
  from dec_digits_length [OF this] show "length (dec_digits (unat (convertBytesToMB sz)) @ asc ''M'') \<le> 11" by simp
qed

lemma ext4_sizes_witness: "uint (convertBytesToMB 134217729) = 129 \<and> sint (134217729 :: u64) > 0"
proof -
  have "checkExt4PartitionSize 134217729" by code_simp
  then show ?thesis using ext4_sizes [of 134217729] by simp
qed

section \<open>Types\<close>

text \<open>Names and types are inverse to each other, and every type the names give has a name.\<close>

lemma partition_type_names:
  "androidPartitionType_fromString (androidPartitionType_toString t) = t"
  by (cases t) (simp_all add: androidPartitionType_fromString_def androidPartitionType_toString_def kPartitionTypeMap_def asc_def)

lemma probe_empty_file: "fs p = Some [] \<Longrightarrow> androidPartitionType_probeFile fs p = ANDROID_PARTITION_TYPE_YAFFS2"
  by (simp add: androidPartitionType_probeFile_def android_pathIsExt4PartitionImage_def)

end
