(* ===== verification/Ramdisk.thy ===== *)
theory Ramdisk
  imports Text
begin

text \<open>
  \<^verbatim>\<open>ramdisk_extractor.cpp\<close>: looking up a file in a gzipped cpio archive.  zlib is a parameter, the record
  \<open>gz_ops\<close>; what the code relies on is the predicate \<open>gz_reads\<close>, zlib's documented behaviour for a file that
  decompresses without errors.  The archive format is stated by the writer \<open>cpio_entry\<close>.
\<close>

section \<open>The gzip stream\<close>

record 'f gz_ops =
  gzread :: "'f \<Rightarrow> nat \<Rightarrow> int \<times> bytes \<times> 'f"
  gzeof :: "'f \<Rightarrow> bool"
  gzerror :: "'f \<Rightarrow> int"
  gzseek :: "'f \<Rightarrow> nat \<Rightarrow> bool \<times> 'f"

record 'f gzip_input_stream =
  mFile :: "'f"
  mError :: int

definition kIntMax :: nat where "kIntMax = 2 ^ 31 - 1"
definition kEIO :: int where "kEIO = 5"
definition kEINVAL :: int where "kEINVAL = 22"

function tryRead_loop :: "'f gz_ops \<Rightarrow> nat \<Rightarrow> bytes \<Rightarrow> 'f gzip_input_stream \<Rightarrow> bytes \<times> 'f gzip_input_stream" where
  "tryRead_loop Z len buff st =
     (if len > 0 then
        (case gzread Z (mFile st) (min len kIntMax) of
           (ret, bs, f) \<Rightarrow>
             if ret < 0 then (buff, st\<lparr>mFile := f, mError := gzerror Z f\<rparr>)
             else if ret = 0 then
               (if gzeof Z f then (buff, st\<lparr>mFile := f\<rparr>) else (buff, st\<lparr>mFile := f, mError := gzerror Z f\<rparr>))
             else tryRead_loop Z (len - nat ret) (buff @ bs) (st\<lparr>mFile := f\<rparr>))
      else (buff, st))"
  by auto
termination by (relation "measure (\<lambda>(_, len, _, _). len)") auto

declare tryRead_loop.simps [simp del]

definition tryRead :: "'f gz_ops \<Rightarrow> nat \<Rightarrow> 'f gzip_input_stream \<Rightarrow> bool \<times> bytes \<times> 'f gzip_input_stream" where
  "tryRead Z len st =
     (if mError st \<noteq> 0 then (False, [], st)
      else if len = 0 then (True, [], st)
      else (case tryRead_loop Z len [] st of (bs, st1) \<Rightarrow> (mError st1 = 0 \<and> length bs > 0, bs, st1)))"

definition doRead :: "'f gz_ops \<Rightarrow> nat \<Rightarrow> 'f gzip_input_stream \<Rightarrow> bool \<times> bytes \<times> 'f gzip_input_stream" where
  "doRead Z len st =
     (case tryRead Z len st of
        (ok, bs, st1) \<Rightarrow>
          if \<not> ok then (False, bs, st1)
          else if length bs < len then (False, bs, st1\<lparr>mError := kEIO\<rparr>)
          else (True, bs, st1))"

definition doSkip :: "'f gz_ops \<Rightarrow> nat \<Rightarrow> 'f gzip_input_stream \<Rightarrow> bool \<times> 'f gzip_input_stream" where
  "doSkip Z len st =
     (if mError st \<noteq> 0 then (False, st)
      else (case gzseek Z (mFile st) len of
              (ok, f) \<Rightarrow> if \<not> ok then (False, st\<lparr>mFile := f, mError := gzerror Z f\<rparr>) else (True, st\<lparr>mFile := f\<rparr>)))"

section \<open>Headers\<close>

definition hex_digit_value :: "u8 \<Rightarrow> u32 option" where
  "hex_digit_value b =
     (let c = scast b :: u32; d = c - 0x30; e = c - 0x61; g = c - 0x41
      in if d < 10 then Some d
         else if e < 6 then Some (e + 10)
         else if g < 6 then Some (g + 10)
         else None)"

fun parse_hex :: "u32 \<Rightarrow> bytes \<Rightarrow> u32 option" where
  "parse_hex result [] = Some result"
| "parse_hex result (c # cs) =
     (case hex_digit_value c of
        None \<Rightarrow> None
      | Some d \<Rightarrow> parse_hex (push_bit 4 result OR d) cs)"

definition parse_hex8 :: "bytes \<Rightarrow> u32 option" where
  "parse_hex8 input = parse_hex 0 (take 8 input)"

definition header_size :: nat where "header_size = 110"

definition c_magic :: "bytes \<Rightarrow> bytes" where "c_magic h = take 6 h"
definition c_filesize :: "bytes \<Rightarrow> bytes" where "c_filesize h = take 8 (drop 54 h)"
definition c_namesize :: "bytes \<Rightarrow> bytes" where "c_namesize h = take 8 (drop 94 h)"

definition kTrailer :: bytes where "kTrailer = asc ''TRAILER!!!''"

section \<open>The search\<close>

text \<open>
  The outcomes: the data of the file; failure with \<^verbatim>\<open>errno\<close> untouched or set; and failure after the buffer for
  the data has been handed to the caller.
\<close>

datatype extract_result = ExtractOk bytes | ExtractFailed "int option" | ExtractTruncated nat

text \<open>One round of the loop: the result, or the stream from which the next round goes on.\<close>

definition extract_step :: "'f gz_ops \<Rightarrow> bytes \<Rightarrow> 'f gzip_input_stream \<Rightarrow> extract_result + 'f gzip_input_stream" where
  "extract_step Z fileName st =
     (let (ok, header, st1) = doRead Z header_size st
      in if \<not> ok then Inl (ExtractFailed None)
         else if c_magic header \<noteq> asc ''070701'' then Inl (ExtractFailed (Some kEINVAL))
         else
           (case (parse_hex8 (c_namesize header), parse_hex8 (c_filesize header)) of
              (Some nameSize, Some entrySize) \<Rightarrow>
                (let skipName = (header_size + unat nameSize + 3) div 4 * 4 - header_size;
                     skipFile = unat ((entrySize + 3) AND 0xFFFFFFFC);
                     skipCount = skipName + skipFile;
                     skip_on = (\<lambda>n st2. let (ok, st3) = doSkip Z n st2
                                        in if ok then Inr st3 else Inl (ExtractFailed (Some (mError st3))))
                 in if (entrySize = 0 \<or> unat nameSize \<noteq> length (c_str fileName) + 1) \<and> unat nameSize \<noteq> length kTrailer + 1
                    then skip_on skipCount st1
                    else
                      (let nameLen = unat nameSize - 1; (ok, entryName, st2) = doRead Z nameLen st1
                       in if \<not> ok then Inl (ExtractFailed (Some (mError st2)))
                          else if nameLen = length kTrailer \<and> c_str entryName = kTrailer then Inl (ExtractFailed None)
                          else if c_str entryName = c_str fileName
                          then (let (ok, st3) = doSkip Z (skipName - nameLen) st2
                                in if \<not> ok then Inl (ExtractFailed (Some (mError st3)))
                                   else (let (ok, data, _) = doRead Z (unat entrySize) st3
                                         in Inl (if ok then ExtractOk data else ExtractTruncated (unat entrySize))))
                          else skip_on (skipCount - nameLen) st2))
            | _ \<Rightarrow> Inl (ExtractFailed (Some (mError st1)))))"

partial_function (option) search_entry :: "'f gz_ops \<Rightarrow> bytes \<Rightarrow> 'f gzip_input_stream \<Rightarrow> extract_result option" where
  "search_entry Z fileName st =
     (case extract_step Z fileName st of Inl r \<Rightarrow> Some r | Inr st1 \<Rightarrow> search_entry Z fileName st1)"

declare search_entry.simps [code]

text \<open>\<open>opened\<close> is the file handle, or the error of \<^verbatim>\<open>gzopen\<close>.\<close>

definition android_extractRamdiskFile :: "'f gz_ops \<Rightarrow> int + 'f \<Rightarrow> bytes \<Rightarrow> extract_result option" where
  "android_extractRamdiskFile Z opened fileName =
     (case opened of
        Inl e \<Rightarrow> Some (ExtractFailed (Some e))
      | Inr f \<Rightarrow> search_entry Z fileName \<lparr>mFile = f, mError = 0\<rparr>)"

section \<open>The format\<close>

text \<open>What zlib documents for a file that decompresses to \<open>contents f\<close> from its present position on.\<close>

definition gz_reads :: "'f gz_ops \<Rightarrow> ('f \<Rightarrow> bytes) \<Rightarrow> bool" where
  "gz_reads Z contents \<longleftrightarrow>
     (\<forall>f n. n > 0 \<and> contents f \<noteq> [] \<longrightarrow>
        (\<exists>k f'. 0 < k \<and> k \<le> n \<and> k \<le> length (contents f) \<and> gzread Z f n = (int k, take k (contents f), f') \<and>
          contents f' = drop k (contents f))) \<and>
     (\<forall>f n. n > 0 \<and> contents f = [] \<longrightarrow> (\<exists>f'. gzread Z f n = (0, [], f') \<and> contents f' = [] \<and> gzeof Z f')) \<and>
     (\<forall>f n. \<exists>f'. gzseek Z f n = (True, f') \<and> contents f' = drop n (contents f))"

definition hex_char :: "nat \<Rightarrow> u8" where
  "hex_char d = (if d < 10 then of_nat (0x30 + d) else of_nat (0x57 + d))"

definition hex8 :: "nat \<Rightarrow> bytes" where
  "hex8 n = map (\<lambda>i. hex_char (n div 16 ^ (7 - i) mod 16)) [0..<8]"

definition pad4 :: "nat \<Rightarrow> bytes" where
  "pad4 n = replicate ((n + 3) div 4 * 4 - n) 0"

record cpio_file =
  cpio_ino_to_mtime :: bytes
  cpio_devices :: bytes
  cpio_check :: bytes
  cpio_name :: bytes
  cpio_data :: bytes

definition cpio_entry :: "cpio_file \<Rightarrow> bytes" where
  "cpio_entry e =
     asc ''070701'' @ cpio_ino_to_mtime e @ hex8 (length (cpio_data e)) @ cpio_devices e @
     hex8 (length (cpio_name e) + 1) @ cpio_check e @ cpio_name e @ [0] @ pad4 (header_size + length (cpio_name e) + 1) @
     cpio_data e @ pad4 (length (cpio_data e))"

definition cpio_ok :: "cpio_file \<Rightarrow> bool" where
  "cpio_ok e \<longleftrightarrow> length (cpio_ino_to_mtime e) = 48 \<and> length (cpio_devices e) = 32 \<and> length (cpio_check e) = 8 \<and>
     0 \<notin> set (cpio_name e) \<and> length (cpio_name e) + 1 < 2 ^ 32 \<and> length (cpio_data e) + 3 < 2 ^ 32"

definition cpio_trailer :: "cpio_file \<Rightarrow> bool" where
  "cpio_trailer e \<longleftrightarrow> cpio_name e = kTrailer"

section \<open>Reading\<close>

lemma tryRead_loop_reads:
  assumes "gz_reads Z contents" and "mError st = 0" and "len \<le> length (contents (mFile st))"
  shows "\<exists>f'. tryRead_loop Z len buff st = (buff @ take len (contents (mFile st)), st\<lparr>mFile := f'\<rparr>) \<and>
    contents f' = drop len (contents (mFile st))"
  using assms(2,3)
proof (induction len arbitrary: buff st rule: less_induct)
  case (less len)
  show ?case
  proof (cases "len = 0")
    case True
    then show ?thesis using less.prems by (auto simp: tryRead_loop.simps intro!: exI [of _ "mFile st"])
  next
    case False
    let ?c = "contents (mFile st)"
    have "min len kIntMax > 0" "?c \<noteq> []" using False less.prems by (auto simp: kIntMax_def)
    then obtain k f where k: "0 < k" "k \<le> min len kIntMax" "k \<le> length ?c"
      "gzread Z (mFile st) (min len kIntMax) = (int k, take k ?c, f)" "contents f = drop k ?c"
      using assms(1) unfolding gz_reads_def by blast
    obtain f' where f': "tryRead_loop Z (len - k) (buff @ take k ?c) (st\<lparr>mFile := f\<rparr>) =
        ((buff @ take k ?c) @ take (len - k) (drop k ?c), st\<lparr>mFile := f'\<rparr>)" "contents f' = drop len ?c"
      using less.IH [of "len - k" "st\<lparr>mFile := f\<rparr>" "buff @ take k ?c"] k less.prems(1) diff_le_mono [OF less.prems(2), of k] False by auto
    have "take k ?c @ take (len - k) (drop k ?c) = take len ?c" using k(2) by (simp flip: take_add)
    then show ?thesis using f' k(1,4) False by (subst tryRead_loop.simps) auto
  qed
qed

lemma doRead_exact:
  assumes "gz_reads Z contents" and "mError st = 0" and "contents (mFile st) = bs @ rest" and "length bs = len"
  shows "\<exists>f'. doRead Z len st = (True, bs, st\<lparr>mFile := f'\<rparr>) \<and> contents f' = rest"
proof (cases "len = 0")
  case True
  then show ?thesis using assms by (auto simp: doRead_def tryRead_def intro!: exI [of _ "mFile st"])
next
  case False
  then show ?thesis using tryRead_loop_reads [OF assms(1,2), of len "[]"] assms(2-4)
    by (auto simp: doRead_def tryRead_def)
qed

lemma doSkip_drops:
  assumes "gz_reads Z contents" and "mError st = 0"
  shows "\<exists>f'. doSkip Z n st = (True, st\<lparr>mFile := f'\<rparr>) \<and> contents f' = drop n (contents (mFile st))"
proof -
  obtain f' where "gzseek Z (mFile st) n = (True, f')" "contents f' = drop n (contents (mFile st))"
    using assms(1) unfolding gz_reads_def by blast
  then show ?thesis using assms(2) by (auto simp: doSkip_def)
qed

section \<open>Numbers\<close>

lemma hex_digit_of_char: "d < 16 \<Longrightarrow> hex_digit_value (hex_char d) = Some (of_nat d)"
proof -
  have "\<forall>d \<in> set [0..<16]. hex_digit_value (hex_char d) = Some (of_nat d)" by code_simp
  then show "d < 16 \<Longrightarrow> hex_digit_value (hex_char d) = Some (of_nat d)" by simp
qed

lemma push_digit: "d < 16 \<Longrightarrow> push_bit 4 r OR (of_nat d :: u32) = r * 16 + of_nat d"
proof -
  assume d: "d < 16"
  then have "take_bit 4 d = d" by (simp add: take_bit_eq_mod)
  then have low: "(of_nat d :: u32) = take_bit 4 (of_nat d)" by (metis take_bit_of_nat)
  have "push_bit 4 r + (of_nat d :: u32) = push_bit 4 r OR of_nat d"
    by (subst (1 2) low, rule disjunctive_add) (auto simp: bit_push_bit_iff bit_take_bit_iff not_le)
  then show ?thesis by (simp add: push_bit_eq_mult)
qed

lemma parse_hex_digits:
  assumes "\<forall>d \<in> set ds. d < 16"
  shows "parse_hex r (map hex_char ds) = Some (foldl (\<lambda>r d. r * 16 + of_nat d) r ds)"
  using assms by (induction ds arbitrary: r) (simp_all add: hex_digit_of_char push_digit)

lemma foldl_hex_digits:
  fixes n :: nat
  assumes "n < 16 ^ 8" and "k \<le> 8"
  shows "foldl (\<lambda>r d. r * 16 + d) 0 (map (\<lambda>i. n div 16 ^ (7 - i) mod 16) [0..<k]) = n div 16 ^ (8 - k)"
  using assms(2)
proof (induction k)
  case (Suc k)
  then have "8 - k = Suc (7 - k)" by simp
  then have "n div 16 ^ (8 - k) = n div 16 ^ (7 - k) div 16" by (metis div_mult2_eq mult.commute power_Suc)
  then show ?case using Suc by simp
qed (use assms(1) in simp)

lemma parse_hex8_hex8: "n < 2 ^ 32 \<Longrightarrow> parse_hex8 (hex8 n @ xs) = Some (of_nat n)"
proof -
  assume n: "n < 2 ^ 32"
  let ?ds = "map (\<lambda>i. n div 16 ^ (7 - i) mod 16) [0..<8]"
  have "foldl (\<lambda>r d. r * 16 + of_nat d) 0 ds = (of_nat (foldl (\<lambda>r d. r * 16 + d) 0 ds) :: u32)" for ds
    by (induction ds rule: rev_induct) simp_all
  moreover have "foldl (\<lambda>r d. r * 16 + d) 0 ?ds = n" using n foldl_hex_digits [of n 8] by simp
  moreover have "take 8 (hex8 n @ xs) = map hex_char ?ds" by (simp add: hex8_def comp_def del: upt_Suc)
  ultimately show ?thesis using parse_hex_digits [of ?ds 0] unfolding parse_hex8_def
    by (simp only:) (simp del: upt_Suc)
qed

section \<open>Entries\<close>

lemma length_hex8 [simp]: "length (hex8 n) = 8"
  by (simp add: hex8_def)

definition cpio_header :: "cpio_file \<Rightarrow> bytes" where
  "cpio_header e = asc ''070701'' @ cpio_ino_to_mtime e @ hex8 (length (cpio_data e)) @ cpio_devices e @
     hex8 (length (cpio_name e) + 1) @ cpio_check e"

lemma cpio_header_fields:
  assumes "cpio_ok e"
  shows "length (cpio_header e) = header_size" and "c_magic (cpio_header e) = asc ''070701''"
    and "parse_hex8 (c_namesize (cpio_header e)) = Some (of_nat (length (cpio_name e) + 1))"
    and "parse_hex8 (c_filesize (cpio_header e)) = Some (of_nat (length (cpio_data e)))"
proof -
  have l: "length (cpio_ino_to_mtime e) = 48" "length (cpio_devices e) = 32" "length (cpio_check e) = 8"
    and n: "length (cpio_name e) + 1 < 2 ^ 32" "length (cpio_data e) < 2 ^ 32"
    using assms by (auto simp: cpio_ok_def)
  show "length (cpio_header e) = header_size" by (simp add: cpio_header_def header_size_def l)
  show "c_magic (cpio_header e) = asc ''070701''" by (simp add: cpio_header_def c_magic_def)
  have "c_namesize (cpio_header e) = hex8 (length (cpio_name e) + 1)" "c_filesize (cpio_header e) = hex8 (length (cpio_data e))"
    by (simp_all add: cpio_header_def c_namesize_def c_filesize_def l)
  then show "parse_hex8 (c_namesize (cpio_header e)) = Some (of_nat (length (cpio_name e) + 1))"
    and "parse_hex8 (c_filesize (cpio_header e)) = Some (of_nat (length (cpio_data e)))"
    using parse_hex8_hex8 [OF n(1), of "[]"] parse_hex8_hex8 [OF n(2), of "[]"] by simp_all
qed

lemma and_round_down: "(w :: u32) AND 0xFFFFFFFC = push_bit 2 (drop_bit 2 w)"
proof -
  have m: "(0xFFFFFFFC :: u32) = NOT (mask 2)" by (simp add: mask_eq_exp_minus_1)
  show ?thesis unfolding m by (rule bit_word_eqI) (auto simp only: bit_and_iff bit_not_iff bit_mask_iff bit_push_bit_iff bit_drop_bit_eq comp_apply not_less le_add_diff_inverse2 le_add_diff_inverse possible_bit_word)
qed

lemma skip_file_padding:
  assumes "n + 3 < 2 ^ 32"
  shows "unat (((of_nat n :: u32) + 3) AND 0xFFFFFFFC) = (n + 3) div 4 * 4"
proof -
  have "(of_nat n :: u32) + 3 = of_nat (n + 3)" by simp
  then have w: "unat ((of_nat n :: u32) + 3) = n + 3"
    using assms by (simp only: unat_of_nat take_bit_eq_mod) simp
  have "unat (push_bit 2 (drop_bit 2 x)) = unat x div 4 * 4" for x :: u32
  proof -
    have "unat (drop_bit 2 x) = unat x div 4" by (simp add: drop_bit_eq_div unat_div)
    moreover have "unat x < 2 ^ LENGTH(32)" by (rule unsigned_less)
    then have "unat x div 4 * 4 < 2 ^ 32" by simp
    ultimately show ?thesis by (simp add: push_bit_eq_mult unat_mult_lem [THEN iffD1])
  qed
  then show ?thesis by (simp add: and_round_down w)
qed

lemma entry_drops:
  assumes "length nm = n" and "length pd = K - n" and "n \<le> K" and "length (dt @ dp) = D"
  shows "drop (K + D) (nm @ pd @ dt @ dp @ rest) = rest" and "drop (K - n) (pd @ dt @ dp @ rest) = dt @ dp @ rest"
    and "drop (K + D - n) (pd @ dt @ dp @ rest) = rest"
  using assms by simp_all

lemma entry_layout:
  assumes "cpio_ok e"
  shows "cpio_entry e @ rest = cpio_header e @ cpio_name e @ ([0] @ pad4 (header_size + length (cpio_name e) + 1)) @
      cpio_data e @ pad4 (length (cpio_data e)) @ rest"
    and "length (pad4 (header_size + length (cpio_name e) + 1)) =
      (header_size + (length (cpio_name e) + 1) + 3) div 4 * 4 - header_size - length (cpio_name e) - 1"
    and "length (cpio_data e @ pad4 (length (cpio_data e))) = (length (cpio_data e) + 3) div 4 * 4"
  by (simp_all add: cpio_entry_def cpio_header_def pad4_def)

definition matches :: "bytes \<Rightarrow> cpio_file \<Rightarrow> bool" where
  "matches name e \<longleftrightarrow> cpio_name e = name \<and> (cpio_data e \<noteq> [] \<or> length name = length kTrailer)"

lemma extract_step_entry:
  assumes gz: "gz_reads Z contents" and err: "mError st = 0" and e: "cpio_ok e"
    and c: "contents (mFile st) = cpio_entry e @ rest"
  shows "if cpio_trailer e then extract_step Z name st = Inl (ExtractFailed None)
    else if matches (c_str name) e then extract_step Z name st = Inl (ExtractOk (cpio_data e))
    else \<exists>st1. extract_step Z name st = Inr st1 \<and> mError st1 = 0 \<and> contents (mFile st1) = rest"
proof -
  let ?n = "length (cpio_name e)" and ?d = "length (cpio_data e)"
  let ?K = "(header_size + (?n + 1) + 3) div 4 * 4 - header_size" and ?D = "(?d + 3) div 4 * 4"
  let ?body = "([0] @ pad4 (header_size + ?n + 1)) @ cpio_data e @ pad4 ?d @ rest"
  note h = cpio_header_fields [OF e] and lay = entry_layout [OF e]
  have bounds: "?n + 1 < 2 ^ 32" "?d < 2 ^ 32" "0 \<notin> set (cpio_name e)" using e by (auto simp: cpio_ok_def)
  then have sizes: "unat (of_nat (?n + 1) :: u32) = ?n + 1" "unat (of_nat ?d :: u32) = ?d" "(of_nat ?d :: u32) = 0 \<longleftrightarrow> cpio_data e = []"
    by (simp_all only: unat_of_nat take_bit_eq_mod len_num1 len_num0 len_bit0 len_of_numeral_defs) (auto simp: word_unat_eq_iff take_bit_eq_mod unat_of_nat)
  have pad: "unat ((of_nat ?d :: u32) + 3 AND 0xFFFFFFFC) = ?D" using skip_file_padding e by (simp add: cpio_ok_def)
  have K: "length ([0 :: u8] @ pad4 (header_size + ?n + 1)) = ?K - ?n" "?n \<le> ?K" using lay(2) by (auto simp: pad4_def)
  obtain f1 where f1: "doRead Z header_size st = (True, cpio_header e, st\<lparr>mFile := f1\<rparr>)" "contents f1 = cpio_name e @ ?body"
    using doRead_exact [OF gz err, of "cpio_header e"] c lay(1) h(1) by auto
  obtain f2 where f2: "doRead Z ?n (st\<lparr>mFile := f1\<rparr>) = (True, cpio_name e, st\<lparr>mFile := f2\<rparr>)" "contents f2 = ?body"
    using doRead_exact [OF gz, of "st\<lparr>mFile := f1\<rparr>" "cpio_name e" ?body] f1 err by auto
  have rest: "drop (?K + ?D) (cpio_name e @ ?body) = rest" "drop (?K - ?n) ?body = cpio_data e @ pad4 ?d @ rest"
    "drop (?K + ?D - ?n) ?body = rest"
    using entry_drops [OF refl K lay(3)] by (simp_all only: append_assoc)
  obtain f3 where f3: "doSkip Z (?K + ?D) (st\<lparr>mFile := f1\<rparr>) = (True, st\<lparr>mFile := f3\<rparr>)" "contents f3 = rest"
    using doSkip_drops [OF gz, of "st\<lparr>mFile := f1\<rparr>" "?K + ?D"] err rest(1) f1(2) by auto
  obtain f4 where f4: "doSkip Z (?K - ?n) (st\<lparr>mFile := f2\<rparr>) = (True, st\<lparr>mFile := f4\<rparr>)" "contents f4 = cpio_data e @ pad4 ?d @ rest"
    using doSkip_drops [OF gz, of "st\<lparr>mFile := f2\<rparr>" "?K - ?n"] err rest(2) f2(2) by auto
  obtain f5 where f5: "doSkip Z (?K + ?D - ?n) (st\<lparr>mFile := f2\<rparr>) = (True, st\<lparr>mFile := f5\<rparr>)" "contents f5 = rest"
    using doSkip_drops [OF gz, of "st\<lparr>mFile := f2\<rparr>" "?K + ?D - ?n"] err rest(3) f2(2) by auto
  obtain f6 where f6: "doRead Z ?d (st\<lparr>mFile := f4\<rparr>) = (True, cpio_data e, st\<lparr>mFile := f6\<rparr>)"
    using doRead_exact [OF gz, of "st\<lparr>mFile := f4\<rparr>" "cpio_data e"] f4 err by auto
  have "extract_step Z name st =
    (if (cpio_data e = [] \<or> ?n + 1 \<noteq> length (c_str name) + 1) \<and> ?n + 1 \<noteq> length kTrailer + 1 then Inr (st\<lparr>mFile := f3\<rparr>)
     else if ?n = length kTrailer \<and> cpio_name e = kTrailer then Inl (ExtractFailed None)
     else if cpio_name e = c_str name then Inl (ExtractOk (cpio_data e)) else Inr (st\<lparr>mFile := f5\<rparr>))"
    by (simp only: extract_step_def Let_def f1(1) f2(1) f3(1) f4(1) f5(1) f6 h(2-4) sizes pad prod.case option.case simp_thms
        if_True if_False add_diff_cancel_right' c_str_id [OF bounds(3)] split: if_split)
  then show ?thesis using err f3(2) f5(2) by (auto simp: matches_def cpio_trailer_def)
qed

lemma extract_step_end:
  assumes "gz_reads Z contents" and "mError st = 0" and "contents (mFile st) = []"
  shows "extract_step Z name st = Inl (ExtractFailed None)"
proof -
  have pos: "min header_size kIntMax > 0" by (simp add: header_size_def kIntMax_def)
  obtain f' where "gzread Z (mFile st) (min header_size kIntMax) = (0, [], f')" "gzeof Z f'"
    using assms(1,3) pos unfolding gz_reads_def by blast
  then have "tryRead_loop Z header_size [] st = ([], st\<lparr>mFile := f'\<rparr>)"
    by (subst tryRead_loop.simps) (simp add: header_size_def)
  then have "fst (doRead Z header_size st) = False" using assms(2)
    by (simp add: doRead_def tryRead_def header_size_def)
  then show ?thesis by (cases "doRead Z header_size st") (simp add: extract_step_def)
qed

lemma search_entry_finds:
  assumes gz: "gz_reads Z contents" and "mError st = 0" and "\<forall>e \<in> set es. cpio_ok e"
    and "contents (mFile st) = concat (map cpio_entry es) @ rest" and "rest = [] \<or> (\<exists>e \<in> set es. cpio_trailer e)"
  shows "search_entry Z name st = Some (case find (matches (c_str name)) (takeWhile (\<lambda>e. \<not> cpio_trailer e) es) of
      None \<Rightarrow> ExtractFailed None | Some e \<Rightarrow> ExtractOk (cpio_data e))"
  using assms(2-)
proof (induction es arbitrary: st)
  case Nil
  then show ?case using extract_step_end [OF gz] by (subst search_entry.simps) simp
next
  case (Cons e es)
  have "contents (mFile st) = cpio_entry e @ concat (map cpio_entry es) @ rest" using Cons.prems by simp
  note step = extract_step_entry [OF gz Cons.prems(1) _ this, of name]
  show ?case
  proof (cases "cpio_trailer e \<or> matches (c_str name) e")
    case True
    then show ?thesis using step Cons.prems(2) by (subst search_entry.simps) (auto split: if_splits)
  next
    case False
    then obtain st1 where st1: "extract_step Z name st = Inr st1" "mError st1 = 0" "contents (mFile st1) = concat (map cpio_entry es) @ rest"
      using step Cons.prems(2) by auto
    then show ?thesis using False Cons.IH [OF st1(2) _ st1(3)] Cons.prems by (subst search_entry.simps) auto
  qed
qed

section \<open>Properties\<close>


definition list_gz :: "bytes gz_ops" where
  "list_gz = \<lparr>gzread = \<lambda>f n. (int (length (take n f)), take n f, drop n f), gzeof = \<lambda>f. f = [], gzerror = \<lambda>_. 0,
     gzseek = \<lambda>f n. (True, drop n f)\<rparr>"

lemma list_gz_reads: "gz_reads list_gz (\<lambda>f. f)"
  unfolding gz_reads_def
proof (intro conjI allI impI)
  fix f :: bytes and n :: nat
  assume "0 < n \<and> f \<noteq> []"
  then show "\<exists>k f'. 0 < k \<and> k \<le> n \<and> k \<le> length f \<and> gzread list_gz f n = (int k, take k f, f') \<and> f' = drop k f"
    by (intro exI [of _ "min (length f) n"] exI [of _ "drop n f"]) (auto simp: list_gz_def min_def)
qed (simp_all add: list_gz_def)

definition sample_file :: "string \<Rightarrow> string \<Rightarrow> cpio_file" where
  "sample_file name data = \<lparr>cpio_ino_to_mtime = replicate 48 0x30, cpio_devices = replicate 32 0x30,
     cpio_check = replicate 8 0x30, cpio_name = asc name, cpio_data = asc data\<rparr>"

definition sample_archive :: "cpio_file list" where
  "sample_archive = [sample_file ''init'' ''#!'',
     sample_file ''fstab.ranchu'' [],
     sample_file ''fstab.ranchu'' ''/dev'',
     sample_file ''TRAILER!!!'' []]"


end
