(* ===== verification/Partition_Config.thy ===== *)
theory Partition_Config
  imports Partition_Types Ramdisk
begin

text \<open>
  \<^verbatim>\<open>partition_config.cpp\<close>: which files back the partitions of the virtual device, and what is done to them first.
  \<^verbatim>\<open>PartitionConfigBackend\<close>, the abstract class through which the code reaches the host, is the record
  \<open>partition_backend\<close> over a state; the locale \<open>backend\<close> has the laws of an implementation, and
  \<^verbatim>\<open>DefaultPartitionConfigBackend\<close>, on a model of the host's files, is its interpretation.  An operation that crashes
  or does not return is \<open>None\<close>.
\<close>

section \<open>Configuration\<close>

record 's partition_backend =
  pathExists :: "path \<Rightarrow> 's \<Rightarrow> bool"
  pathEmptyFile :: "path \<Rightarrow> 's \<Rightarrow> bool \<times> 's"
  pathCopyFile :: "path \<Rightarrow> path \<Rightarrow> 's \<Rightarrow> (bool \<times> 's) option"
  pathLockFile :: "path \<Rightarrow> 's \<Rightarrow> bool \<times> 's"
  pathCreateTempFile :: "'s \<Rightarrow> path option \<times> 's"
  probePartitionFileType :: "path \<Rightarrow> 's \<Rightarrow> AndroidPartitionType"
  extractRamdiskFile :: "path \<Rightarrow> bytes \<Rightarrow> 's \<Rightarrow> bytes option option"
  parsePartitionFormat :: "bytes \<Rightarrow> bytes \<Rightarrow> bytes option"
  makeEmptyPartition :: "AndroidPartitionType \<Rightarrow> u64 \<Rightarrow> path \<Rightarrow> 's \<Rightarrow> bool \<times> 's"
  backend_resizeExt4Partition :: "path \<Rightarrow> u64 \<Rightarrow> 's \<Rightarrow> 's"

datatype AndroidPartitionOpenMode =
  ANDROID_PARTITION_OPEN_MODE_MUST_EXIST | ANDROID_PARTITION_OPEN_MODE_CREATE_IF_NEEDED | ANDROID_PARTITION_OPEN_MODE_MUST_WIPE

record AndroidPartitionInfo =
  part_size :: u64
  part_path :: "path option"
  init_path :: "path option"

record AndroidPartitionConfiguration =
  ramdisk_path :: path
  fstab_name :: bytes
  system_partition :: AndroidPartitionInfo
  vendor_partition :: AndroidPartitionInfo
  data_partition :: AndroidPartitionInfo
  cache_partition :: AndroidPartitionInfo
  kernel_supports_yaffs2 :: bool
  wipe_data :: bool
  writable_system :: bool

text \<open>The arguments of a call of the setup function.\<close>

record partition_setup =
  setup_name :: bytes
  setup_size :: u64
  setup_path :: path
  setup_format :: AndroidPartitionType
  setup_readonly :: bool

text \<open>The messages of \<^verbatim>\<open>partition_config_error\<close>.\<close>

datatype partition_error =
  InvalidSize | MissingInitialImage path | NoImageFiles | CannotProbe path
| InvalidImageType AndroidPartitionType AndroidPartitionType
| MissingReadOnlyImage "path option" | MissingImage path | CannotCreateImage path | NoTempFile | CannotCopyInitialImage
| CannotMakeEmpty path int

definition extractPartitionFormat :: "'s partition_backend \<Rightarrow> bytes \<Rightarrow> bytes \<Rightarrow> AndroidPartitionType \<Rightarrow> AndroidPartitionType" where
  "extractPartitionFormat B fstab partitionPath partitionType =
     (case parsePartitionFormat B fstab partitionPath of
        None \<Rightarrow> partitionType
      | Some partFormat \<Rightarrow> androidPartitionType_fromString partFormat)"

section \<open>One image\<close>

text \<open>A null path does not exist: the system call it is handed to fails.\<close>

definition file_exists :: "'s partition_backend \<Rightarrow> path option \<Rightarrow> 's \<Rightarrow> bool" where
  "file_exists B p s = (case p of None \<Rightarrow> False | Some q \<Rightarrow> pathExists B q s)"

definition nonempty_path :: "path option \<Rightarrow> path option" where
  "nonempty_path p = (if p = Some [] then None else p)"

text \<open>The type of the image and the mode in which to open it, from the file that is probed.\<close>

definition verify_type ::
  "'s partition_backend \<Rightarrow> AndroidPartitionType \<Rightarrow> AndroidPartitionOpenMode \<Rightarrow> path option \<Rightarrow> path option \<Rightarrow> 's
     \<Rightarrow> partition_error + (AndroidPartitionType \<times> AndroidPartitionOpenMode)" where
  "verify_type B part_type part_mode part_file part_init_file s =
     (let image_file = (if file_exists B part_file s then part_file
                        else part_init_file)
      in case image_file of
           None \<Rightarrow> if part_type = ANDROID_PARTITION_TYPE_UNKNOWN then Inl NoImageFiles else Inr (part_type, part_mode)
         | Some img \<Rightarrow>
             (let image_type = probePartitionFileType B img s
              in if part_type = ANDROID_PARTITION_TYPE_UNKNOWN then Inr (image_type, part_mode)
                 else if image_type = ANDROID_PARTITION_TYPE_UNKNOWN then Inl (CannotProbe img)
                 else if image_type \<noteq> part_type
                 then (if part_mode = ANDROID_PARTITION_OPEN_MODE_MUST_EXIST then Inl (InvalidImageType image_type part_type)
                       else Inr (part_type, ANDROID_PARTITION_OPEN_MODE_MUST_WIPE))
                 else Inr (part_type, part_mode)))"

text \<open>
  The file that backs a writable partition and whether it has to be made empty: the locked image, created when it is
  missing, else a temporary file; then the initial image is copied into it.
\<close>

definition lock_image ::
  "'s partition_backend \<Rightarrow> AndroidPartitionOpenMode \<Rightarrow> path option \<Rightarrow> bool \<Rightarrow> 's \<Rightarrow> (partition_error + (path option \<times> bool)) \<times> 's" where
  "lock_image B part_mode part_file need_make_empty s =
     (case part_file of
        None \<Rightarrow> (Inr (None, need_make_empty), s)
      | Some p \<Rightarrow>
          (let (locked, s1) = pathLockFile B p s
           in if \<not> locked then (Inr (None, need_make_empty), s1)
              else if pathExists B p s1 then (Inr (Some p, need_make_empty), s1)
              else if part_mode = ANDROID_PARTITION_OPEN_MODE_MUST_EXIST then (Inl (MissingImage p), s1)
              else (let (ok, s2) = pathEmptyFile B p s1
                    in if ok then (Inr (Some p, True), s2) else (Inl (CannotCreateImage p), s2))))"

definition temp_image ::
  "'s partition_backend \<Rightarrow> path option \<times> bool \<Rightarrow> 's \<Rightarrow> (partition_error + (path \<times> bool)) \<times> 's" where
  "temp_image B = (\<lambda>(part_file, need_make_empty) s.
     case part_file of
       Some p \<Rightarrow> (Inr (p, need_make_empty), s)
     | None \<Rightarrow> (case pathCreateTempFile B s of
                 (None, s1) \<Rightarrow> (Inl NoTempFile, s1)
               | (Some t, s1) \<Rightarrow> (Inr (t, True), s1)))"

definition copy_initial ::
  "'s partition_backend \<Rightarrow> path option \<Rightarrow> path \<times> bool \<Rightarrow> 's \<Rightarrow> ((partition_error + (path \<times> bool)) \<times> 's) option" where
  "copy_initial B part_init_file = (\<lambda>(p, need_make_empty) s.
     case part_init_file of
       None \<Rightarrow> Some (Inr (p, need_make_empty), s)
     | Some i \<Rightarrow> map_option (\<lambda>(ok, s1). (if ok then Inr (p, False) else Inl CannotCopyInitialImage, s1)) (pathCopyFile B p i s))"

definition open_writable ::
  "'s partition_backend \<Rightarrow> AndroidPartitionOpenMode \<Rightarrow> path option \<Rightarrow> path option \<Rightarrow> bool \<Rightarrow> 's
     \<Rightarrow> ((partition_error + (path \<times> bool)) \<times> 's) option" where
  "open_writable B part_mode part_file part_init_file need_make_empty s =
     (case lock_image B part_mode part_file (need_make_empty \<or> part_init_file \<noteq> None) s of
        (Inl e, s1) \<Rightarrow> Some (Inl e, s1)
      | (Inr f, s1) \<Rightarrow>
          (case temp_image B f s1 of
             (Inl e, s2) \<Rightarrow> Some (Inl e, s2)
           | (Inr g, s2) \<Rightarrow> copy_initial B part_init_file g s2))"

definition open_image ::
  "'s partition_backend \<Rightarrow> AndroidPartitionOpenMode \<Rightarrow> path option \<Rightarrow> path option \<Rightarrow> bool \<Rightarrow> 's
     \<Rightarrow> ((partition_error + (path \<times> bool)) \<times> 's) option" where
  "open_image B part_mode part_file part_init_file readonly s =
     (if readonly
      then Some (if \<not> file_exists B part_file s then Inl (MissingReadOnlyImage part_file) else Inr (the part_file, False), s)
      else open_writable B part_mode part_file part_init_file (part_mode = ANDROID_PARTITION_OPEN_MODE_MUST_WIPE) s)"

text \<open>
  \<^verbatim>\<open>makeEmptyPartition\<close> returns a \<^verbatim>\<open>bool\<close>, which the code converts to an \<^verbatim>\<open>int\<close> and compares with zero.
\<close>

definition make_empty ::
  "'s partition_backend \<Rightarrow> AndroidPartitionType \<Rightarrow> u64 \<Rightarrow> path \<times> bool \<Rightarrow> 's \<Rightarrow> (partition_error + path) \<times> 's" where
  "make_empty B part_type sz = (\<lambda>(p, need_make_empty) s.
     if need_make_empty
     then (let (ok, s1) = makeEmptyPartition B part_type sz p s; ret = (if ok then 1 else 0 :: int)
           in (if ret < 0 then Inl (CannotMakeEmpty p (- ret)) else Inr p, s1))
     else (Inr p, s))"

definition addNandImage ::
  "'s partition_backend \<Rightarrow> bytes \<Rightarrow> AndroidPartitionType \<Rightarrow> AndroidPartitionOpenMode \<Rightarrow> u64 \<Rightarrow> path option \<Rightarrow> path option \<Rightarrow> bool \<Rightarrow> 's
     \<Rightarrow> ((partition_error + partition_setup) \<times> 's) option" where
  "addNandImage B part_name part_type0 part_mode0 sz part_file0 part_init_file0 readonly s =
     (let part_file1 = nonempty_path part_file0; init1 = nonempty_path part_init_file0
      in if sz = 0 then Some (Inl InvalidSize, s)
         else if init1 \<noteq> None \<and> \<not> file_exists B init1 s then Some (Inl (MissingInitialImage (the init1)), s)
         else
           (let (part_file2, init) = (if readonly \<and> part_file1 = None \<and> init1 \<noteq> None then (init1, None) else (part_file1, init1));
                part_file = (if part_file2 = Some (asc ''<temp>'') then None else part_file2)
            in case verify_type B part_type0 part_mode0 part_file init s of
                 Inl e \<Rightarrow> Some (Inl e, s)
               | Inr (part_type, part_mode) \<Rightarrow>
                   (case open_image B part_mode part_file init readonly s of
                      None \<Rightarrow> None
                    | Some (Inl e, s1) \<Rightarrow> Some (Inl e, s1)
                    | Some (Inr g, s1) \<Rightarrow>
                        (case make_empty B part_type sz g s1 of
                           (Inl e, s2) \<Rightarrow> Some (Inl e, s2)
                         | (Inr p, s2) \<Rightarrow>
                             Some (Inr \<lparr>setup_name = part_name, setup_size = sz, setup_path = p, setup_format = part_type,
                                        setup_readonly = readonly\<rparr>, s2)))))"

section \<open>All images\<close>

text \<open>The two questions the code asks \<^verbatim>\<open>System\<close>: the size of a file, when there is one, and whether it is a qcow2 image.\<close>

record 's system_view =
  pathFileSize :: "path \<Rightarrow> 's \<Rightarrow> u64 option"
  pathIsQcow2 :: "path \<Rightarrow> 's \<Rightarrow> bool"

text \<open>The types of the system, vendor, data and cache partitions that the ramdisk tells.\<close>

definition partition_types ::
  "'s partition_backend \<Rightarrow> AndroidPartitionConfiguration \<Rightarrow> 's
     \<Rightarrow> (AndroidPartitionType \<times> AndroidPartitionType \<times> AndroidPartitionType \<times> AndroidPartitionType) option" where
  "partition_types B config s =
     map_option (\<lambda>f. case f of
         None \<Rightarrow> (ANDROID_PARTITION_TYPE_UNKNOWN, ANDROID_PARTITION_TYPE_UNKNOWN, ANDROID_PARTITION_TYPE_UNKNOWN, ANDROID_PARTITION_TYPE_UNKNOWN)
       | Some fstab \<Rightarrow>
           (extractPartitionFormat B fstab (asc ''/system'') ANDROID_PARTITION_TYPE_UNKNOWN,
            extractPartitionFormat B fstab (asc ''/vendor'') ANDROID_PARTITION_TYPE_UNKNOWN,
            extractPartitionFormat B fstab (asc ''/data'') ANDROID_PARTITION_TYPE_UNKNOWN,
            extractPartitionFormat B fstab (asc ''/cache'') ANDROID_PARTITION_TYPE_UNKNOWN))
       (extractRamdiskFile B (ramdisk_path config) (fstab_name config) s)"

text \<open>
  The resize of the data image.  A null path crashes, when it is converted to a file system path.
\<close>

definition resize_data ::
  "'s partition_backend \<Rightarrow> 's system_view \<Rightarrow> AndroidPartitionConfiguration \<Rightarrow> AndroidPartitionType \<Rightarrow> 's \<Rightarrow> 's option" where
  "resize_data B V config userdata_type s =
     (case part_path (data_partition config) of
        None \<Rightarrow> None
      | Some p \<Rightarrow>
          (let sz = part_size (data_partition config);
               current = (case pathFileSize V p s of None \<Rightarrow> sz | Some n \<Rightarrow> n)
           in Some (if (wipe_data config \<or> current < sz) \<and> \<not> pathIsQcow2 V p s \<and> userdata_type = ANDROID_PARTITION_TYPE_EXT4
                    then backend_resizeExt4Partition B p sz s else s)))"

type_synonym 's setup_state = "partition_setup list \<times> 's"

text \<open>A step that adds an image: on success the setup function has been called once more.\<close>

definition add_image ::
  "'s partition_backend \<Rightarrow> bytes \<Rightarrow> AndroidPartitionType \<Rightarrow> AndroidPartitionOpenMode \<Rightarrow> AndroidPartitionInfo \<Rightarrow> bool \<Rightarrow> 's setup_state
     \<Rightarrow> ((partition_error option) \<times> 's setup_state) option" where
  "add_image B name t mode info readonly = (\<lambda>(cs, s).
     map_option (\<lambda>(r, s1). case r of Inl e \<Rightarrow> (Some e, cs, s1) | Inr c \<Rightarrow> (None, cs @ [c], s1))
       (addNandImage B name t mode (part_size info) (part_path info) (init_path info) readonly s))"

definition and_then ::
  "((partition_error option) \<times> 's setup_state) option \<Rightarrow> ('s setup_state \<Rightarrow> ((partition_error option) \<times> 's setup_state) option)
     \<Rightarrow> ((partition_error option) \<times> 's setup_state) option" where
  "and_then r f = (case r of Some (None, st) \<Rightarrow> f st | _ \<Rightarrow> r)"

definition android_partition_configuration_setup ::
  "'s partition_backend \<Rightarrow> 's system_view \<Rightarrow> AndroidPartitionConfiguration \<Rightarrow> 's \<Rightarrow> ((partition_error option) \<times> 's setup_state) option" where
  "android_partition_configuration_setup B V config s =
     (case partition_types B config s of
        None \<Rightarrow> None
      | Some (system_type, vendor_type, userdata_type, cache_type) \<Rightarrow>
          (let ro = \<not> writable_system config; vendor = vendor_partition config; cache = cache_partition config;
               data_mode = (if wipe_data config then ANDROID_PARTITION_OPEN_MODE_MUST_WIPE else ANDROID_PARTITION_OPEN_MODE_CREATE_IF_NEEDED)
           in and_then (add_image B (asc ''system'') system_type ANDROID_PARTITION_OPEN_MODE_MUST_EXIST (system_partition config) ro ([], s))
             (\<lambda>st. and_then (if part_path vendor \<noteq> None \<or> init_path vendor \<noteq> None
                              then add_image B (asc ''vendor'') vendor_type ANDROID_PARTITION_OPEN_MODE_MUST_EXIST vendor ro st
                              else Some (None, st))
             (\<lambda>st. and_then (add_image B (asc ''userdata'') userdata_type data_mode (data_partition config) False st)
             (\<lambda>(cs, s). and_then (map_option (\<lambda>s1. (None, cs, s1)) (resize_data B V config userdata_type s))
             (\<lambda>st. if part_path cache \<noteq> None
                    then add_image B (asc ''cache'')
                      (if cache_type = ANDROID_PARTITION_TYPE_UNKNOWN
                       then (if kernel_supports_yaffs2 config then ANDROID_PARTITION_TYPE_YAFFS2 else ANDROID_PARTITION_TYPE_EXT4)
                       else cache_type)
                      data_mode (cache\<lparr>init_path := None\<rparr>) False st
                    else Some (None, st)))))))"

text \<open>What each step of a sequence preserves, the sequence preserves.\<close>

lemma and_then_keeps:
  assumes "and_then r f = Some (e, st1)" and "\<And>e st. r = Some (e, st) \<Longrightarrow> P st"
    and "\<And>st e st1. P st \<Longrightarrow> f st = Some (e, st1) \<Longrightarrow> P st1"
  shows "P st1"
proof -
  obtain e0 st0 where r: "r = Some (e0, st0)" using assms(1) by (cases r) (auto simp: and_then_def)
  show ?thesis
  proof (cases e0)
    case None
    then show ?thesis using r assms(1) assms(2) [OF r] assms(3) [of st0] by (simp add: and_then_def)
  next
    case (Some x)
    then show ?thesis using r assms(1) assms(2) [OF r] by (simp add: and_then_def)
  qed
qed

section \<open>The host\<close>

text \<open>
  The files of the host and the locks this process holds.  What the operating system, zlib, the writer of ext4 images
  and the ext4 programs do is an argument: which files can be created, read and locked, the names \<^verbatim>\<open>mkstemp\<close> tries,
  the results of the \<^verbatim>\<open>read\<close> and \<^verbatim>\<open>write\<close> calls of a copy.
\<close>

record host =
  host_files :: files
  host_locks :: "path list"

datatype read_result = Chunk bytes | ReadError

record 'f host_env =
  can_create :: "path \<Rightarrow> bool"
  can_read :: "path \<Rightarrow> bool"
  can_lock :: "path \<Rightarrow> bool"
  temp_names :: "path list"
  copy_io :: "bytes \<Rightarrow> (read_result \<times> int) list"
  make_ext4fs :: "u64 \<Rightarrow> bytes option \<Rightarrow> int \<times> bytes"
  programs :: ext4_programs
  zlib :: "'f gz_ops"
  gz_open :: "bytes option \<Rightarrow> int + 'f"

definition path_empty_file :: "'f host_env \<Rightarrow> path \<Rightarrow> files \<Rightarrow> int \<times> files" where
  "path_empty_file E p fs = (if can_create E p then (0, fs(p \<mapsto> [])) else (-1, fs))"

text \<open>
  The loop that copies.  A \<^verbatim>\<open>read\<close> that fails returns -1; the following \<^verbatim>\<open>write\<close> of that many bytes fails and returns -1
  too, which is what was asked for, so the loop goes on.
\<close>

fun copy_loop :: "(read_result \<times> int) list \<Rightarrow> bytes \<Rightarrow> bytes option" where
  "copy_loop [] out = None"
| "copy_loop ((Chunk bs, written) # rs) out =
     (if bs = [] then Some out
      else if written \<noteq> int (length bs) then Some (out @ take (nat written) bs)
      else copy_loop rs (out @ bs))"
| "copy_loop ((ReadError, written) # rs) out = copy_loop rs out"

definition path_copy_file_impl :: "'f host_env \<Rightarrow> path \<Rightarrow> path \<Rightarrow> files \<Rightarrow> (int \<times> files) option" where
  "path_copy_file_impl E dest source fs =
     (if \<not> can_create E dest then Some (-1, fs)
      else (case fs source of
              None \<Rightarrow> Some (-1, fs(dest \<mapsto> []))
            | Some bs \<Rightarrow> map_option (\<lambda>out. (0, fs(dest \<mapsto> out))) (copy_loop (copy_io E bs) [])))"

definition path_is_same :: "path \<Rightarrow> path \<Rightarrow> files \<Rightarrow> bool" where
  "path_is_same left right fs = (fs left \<noteq> None \<and> fs right \<noteq> None \<and> left = right)"

definition path_copy_file :: "'f host_env \<Rightarrow> path \<Rightarrow> path \<Rightarrow> files \<Rightarrow> (int \<times> files) option" where
  "path_copy_file E dest source fs =
     (if path_is_same source dest fs then Some (0, fs)
      else if fs source = None \<or> \<not> can_read E source
      then Some (-1, if fs source \<noteq> None then snd (path_empty_file E dest fs) else fs)
      else path_copy_file_impl E dest source fs)"

definition android_createEmptyExt4Image :: "'f host_env \<Rightarrow> path \<Rightarrow> u64 \<Rightarrow> files \<Rightarrow> int \<times> files" where
  "android_createEmptyExt4Image E filePath sz fs =
     (if \<not> can_create E filePath then (-1, fs)
      else (let (ret, img) = make_ext4fs E sz (fs filePath) in (ret, fs(filePath \<mapsto> img))))"

definition androidPartitionType_makeEmptyFile :: "'f host_env \<Rightarrow> AndroidPartitionType \<Rightarrow> u64 \<Rightarrow> path \<Rightarrow> files \<Rightarrow> int \<times> files" where
  "androidPartitionType_makeEmptyFile E part_type sz part_file fs =
     (case part_type of
        ANDROID_PARTITION_TYPE_YAFFS2 \<Rightarrow> path_empty_file E part_file fs
      | ANDROID_PARTITION_TYPE_EXT4 \<Rightarrow> android_createEmptyExt4Image E part_file sz fs
      | ANDROID_PARTITION_TYPE_UNKNOWN \<Rightarrow> (- kEINVAL, fs))"

definition with_files :: "host \<Rightarrow> int \<times> files \<Rightarrow> bool \<times> host" where
  "with_files h = (\<lambda>(ret, fs). (ret \<ge> 0, h\<lparr>host_files := fs\<rparr>))"

definition DefaultPartitionConfigBackend :: "'f host_env \<Rightarrow> host partition_backend" where
  "DefaultPartitionConfigBackend E =
     \<lparr>pathExists = \<lambda>p h. host_files h p \<noteq> None,
      pathEmptyFile = \<lambda>p h. with_files h (path_empty_file E p (host_files h)),
      pathCopyFile = \<lambda>d p h. map_option (with_files h) (path_copy_file E d p (host_files h)),
      pathLockFile = \<lambda>p h. if can_lock E p then (True, h\<lparr>host_locks := p # host_locks h\<rparr>) else (False, h),
      pathCreateTempFile = \<lambda>h. (case find (\<lambda>t. host_files h t = None) (temp_names E) of
          None \<Rightarrow> (None, h) | Some t \<Rightarrow> (Some t, h\<lparr>host_files := (host_files h)(t \<mapsto> [])\<rparr>)),
      probePartitionFileType = \<lambda>p h. androidPartitionType_probeFile (host_files h) p,
      extractRamdiskFile = \<lambda>r f h. map_option (\<lambda>x. case x of ExtractOk d \<Rightarrow> Some d | _ \<Rightarrow> None)
          (android_extractRamdiskFile (zlib E) (gz_open E (host_files h r)) f),
      parsePartitionFormat = \<lambda>fstab m. map_option c_str (android_parseFstabPartitionFormat fstab m),
      makeEmptyPartition = \<lambda>t n p h. with_files h (androidPartitionType_makeEmptyFile E t n p (host_files h)),
      backend_resizeExt4Partition = \<lambda>p n h.
          h\<lparr>host_files := (host_files h)(p := snd (resizeExt4Partition (programs E) (Some p) n (host_files h p)))\<rparr>\<rparr>"

definition System_view :: "'f host_env \<Rightarrow> host system_view" where
  "System_view E =
     \<lparr>pathFileSize = \<lambda>p h. if p = [] then None else map_option (\<lambda>bs. of_nat (length bs)) (host_files h p),
      pathIsQcow2 = \<lambda>p h. (case host_files h p of
          None \<Rightarrow> False | Some bs \<Rightarrow> can_read E p \<and> take 4 bs = [0x51, 0x46, 0x49, 0xFB])\<rparr>"

section \<open>The contract of a backend\<close>

text \<open>
  What the operations of a backend promise about the files of the host, where \<open>files\<close> reads them off the state:
  no operation touches a file but the one it is asked to write, and a temporary file is a new one.
\<close>

locale backend =
  fixes B :: "'s partition_backend" and files :: "'s \<Rightarrow> files"
  assumes exists_iff: "pathExists B p s \<longleftrightarrow> files s p \<noteq> None"
    and probe_missing: "files s p \<noteq> None \<Longrightarrow> probePartitionFileType B p s \<noteq> ANDROID_PARTITION_TYPE_UNKNOWN"
    and probe_file: "files s p = files s' p \<Longrightarrow> probePartitionFileType B p s = probePartitionFileType B p s'"
    and lock_keeps: "files (snd (pathLockFile B p s)) = files s"
    and empty_frame: "q \<noteq> p \<Longrightarrow> files (snd (pathEmptyFile B p s)) q = files s q"
    and empty_creates: "pathEmptyFile B p s = (True, s1) \<Longrightarrow> files s1 p = Some []"
    and copy_frame: "pathCopyFile B p i s = Some (ok, s1) \<Longrightarrow> q \<noteq> p \<Longrightarrow> files s1 q = files s q"
    and copy_creates: "pathCopyFile B p i s = Some (True, s1) \<Longrightarrow> files s i \<noteq> None \<Longrightarrow> files s1 p \<noteq> None"
    and temp_new: "pathCreateTempFile B s = (Some t, s1) \<Longrightarrow> files s t = None \<and> files s1 = (files s)(t \<mapsto> [])"
    and temp_none: "pathCreateTempFile B s = (None, s1) \<Longrightarrow> files s1 = files s"
    and make_frame: "q \<noteq> p \<Longrightarrow> files (snd (makeEmptyPartition B ty n p s)) q = files s q"
    and make_keeps: "files s p \<noteq> None \<Longrightarrow> files (snd (makeEmptyPartition B ty n p s)) p \<noteq> None"
    and resize_frame: "q \<noteq> p \<Longrightarrow> files (backend_resizeExt4Partition B p n s) q = files s q"
begin

lemma file_exists_iff: "file_exists B p s \<longleftrightarrow> (\<exists>q. p = Some q \<and> files s q \<noteq> None)"
  by (auto simp: file_exists_def exists_iff split: option.splits)

text \<open>A read-only partition is backed by an image that exists, and the state stays as it is.\<close>

lemma readonly_keeps_state:
  assumes "addNandImage B name t mode sz f i True s = Some (r, s')"
  shows "s' = s \<and> (\<forall>c. r = Inr c \<longrightarrow> files s (setup_path c) \<noteq> None \<and> setup_readonly c)"
  using assms
  by (auto simp: addNandImage_def open_image_def make_empty_def file_exists_iff Let_def split: if_splits sum.splits prod.splits option.splits)

lemma lock_image_files:
  assumes "lock_image B mode f b s = (r, s1)"
  shows "(files s q \<noteq> None \<longrightarrow> files s1 q = files s q) \<and>
    (\<forall>g b1. r = Inr (g, b1) \<longrightarrow>
      (case g of None \<Rightarrow> files s1 = files s
       | Some p \<Rightarrow> f = Some p \<and> files s1 p \<noteq> None \<and> (files s p \<noteq> None \<longrightarrow> b1 = b)))"
proof (cases f)
  case None
  then show ?thesis using assms by (auto simp: lock_image_def)
next
  case (Some p)
  obtain l s0 where l: "pathLockFile B p s = (l, s0)" by fastforce
  then have s0: "files s0 = files s" using lock_keeps [of p s] by simp
  obtain ok s2 where e: "pathEmptyFile B p s0 = (ok, s2)" by fastforce
  then show ?thesis using assms Some l s0 empty_frame [of q p s0] empty_creates [of p s0 s2]
    by (cases "q = p"; cases ok) (auto simp: lock_image_def exists_iff split: if_splits)
qed

lemma temp_image_files:
  assumes "temp_image B (g, b) s = (r, s1)"
  shows "files s q \<noteq> None \<Longrightarrow> files s1 q = files s q"
    and "r = Inr (p, b1) \<Longrightarrow> (case g of None \<Rightarrow> files s p = None \<and> files s1 p \<noteq> None | Some p' \<Rightarrow> p = p' \<and> b1 = b \<and> s1 = s)"
  using assms temp_new [of s] temp_none [of s] by (auto simp: temp_image_def split: option.splits prod.splits)

lemma copy_initial_files:
  assumes "copy_initial B i (p, b) s = Some (r, s1)"
  shows "q \<noteq> p \<or> i = None \<Longrightarrow> files s1 q = files s q"
    and "r = Inr (p1, b1) \<Longrightarrow> p1 = p \<and> b1 = (b \<and> i = None)"
  using assms copy_frame [of p] by (auto simp: copy_initial_def split: option.splits if_splits)

lemma open_writable_files:
  assumes "open_writable B mode f i b s = Some (r, s1)"
  shows "(files s q \<noteq> None \<and> (f \<noteq> Some q \<or> i = None) \<longrightarrow> files s1 q = files s q) \<and>
    (\<forall>p b1. r = Inr (p, b1) \<and> files s p \<noteq> None \<longrightarrow> f = Some p \<and> b1 = (b \<and> i = None))"
proof -
  obtain r1 s2 where l: "lock_image B mode f (b \<or> i \<noteq> None) s = (r1, s2)" by fastforce
  show ?thesis
  proof (cases r1)
    case (Inl e)
    then show ?thesis using assms l lock_image_files [OF l, of q] by (auto simp: open_writable_def)
  next
    case (Inr g)
    obtain pf b2 where g: "g = (pf, b2)" by fastforce
    obtain r2 s3 where t: "temp_image B (pf, b2) s2 = (r2, s3)" by fastforce
    show ?thesis
    proof (cases r2)
      case (Inl e)
      then show ?thesis using assms l Inr g t lock_image_files [OF l, of q] temp_image_files(1) [OF t, of q]
        by (auto simp: open_writable_def)
    next
      case i2: (Inr h)
      obtain p b3 where h: "h = (p, b3)" by fastforce
      have c: "copy_initial B i (p, b3) s3 = Some (r, s1)" using assms l Inr g t i2 h by (simp add: open_writable_def)
      have s3: "files s q \<noteq> None \<longrightarrow> files s3 q = files s q"
        using lock_image_files [OF l, of q] temp_image_files(1) [OF t, of q] by metis
      have p: "(f = Some p \<and> (files s p \<noteq> None \<longrightarrow> b3 = (b \<or> i \<noteq> None))) \<or> files s p = None"
        using lock_image_files [OF l, of p] temp_image_files(2) [OF t, of p b3] Inr g i2 h by (cases pf) auto
      have q: "files s q \<noteq> None \<and> (f \<noteq> Some q \<or> i = None) \<longrightarrow> files s1 q = files s q"
        using s3 p copy_initial_files(1) [OF c, of q] by (cases "q = p") auto
      have "f = Some p1 \<and> b1 = (b \<and> i = None)" if "r = Inr (p1, b1)" "files s p1 \<noteq> None" for p1 b1
        using p copy_initial_files(2) [OF c that(1)] that(2) by (cases "i = None") auto
      then show ?thesis using q by blast
    qed
  qed
qed

lemma open_writable_kept:
  assumes "open_writable B mode f None b s = Some (Inr (p, False), s1)"
  shows "f = Some p \<and> files s p \<noteq> None \<and> \<not> b"
proof -
  obtain g b2 s2 where l: "lock_image B mode f b s = (Inr (g, b2), s2)"
    using assms by (auto simp: open_writable_def split: prod.splits sum.splits)
  then have t: "temp_image B (g, b2) s2 = (Inr (p, False), s1)"
    using assms by (auto simp: open_writable_def copy_initial_def split: prod.splits sum.splits)
  then have g: "g = Some p" "b2 = False" by (auto simp: temp_image_def split: option.splits prod.splits)
  then have "files s p \<noteq> None"
    using l lock_keeps [of p s] by (auto simp: lock_image_def exists_iff split: option.splits prod.splits if_splits)
  then show ?thesis using lock_image_files [OF l, of p] g by auto
qed

text \<open>
  A file that exists is changed only when it is the image of the partition and has to be wiped, is overwritten with an
  initial image, or does not have the type the partition should have.
\<close>

lemma addNandImage_keeps_files:
  assumes "addNandImage B name t mode sz f i ro s = Some (r, s1)" and "files s q \<noteq> None"
    and "ro \<or> f \<noteq> Some q \<or> mode \<noteq> ANDROID_PARTITION_OPEN_MODE_MUST_WIPE \<and> nonempty_path i = None \<and>
      (t = ANDROID_PARTITION_TYPE_UNKNOWN \<or> probePartitionFileType B q s = t)"
  shows "files s1 q = files s q"
proof (cases ro)
  case True
  then show ?thesis using readonly_keeps_state [of name t mode sz f i s r s1] assms(1) by simp
next
  case False
  define f1 where "f1 = (if nonempty_path f = Some (asc ''<temp>'') then None else nonempty_path f)"
  have f1: "f1 = Some p \<Longrightarrow> f = Some p" for p by (auto simp: f1_def nonempty_path_def split: if_splits)
  show ?thesis
  proof (cases "sz = 0 \<or> nonempty_path i \<noteq> None \<and> \<not> file_exists B (nonempty_path i) s")
    case True
    then have "s1 = s" using assms(1) unfolding addNandImage_def Let_def by (simp split: if_splits)
    then show ?thesis by simp
  next
    case ok: False
    show ?thesis
    proof (cases "verify_type B t mode f1 (nonempty_path i) s")
      case (Inl e)
      then show ?thesis using assms(1) ok False by (auto simp: addNandImage_def Let_def f1_def)
    next
      case (Inr tm)
      obtain t1 m1 where tm: "tm = (t1, m1)" by fastforce
      have m1: "m1 \<noteq> ANDROID_PARTITION_OPEN_MODE_MUST_WIPE" if "f1 = Some q"
        using Inr tm that assms(2,3) False f1 [OF that]
        by (auto simp: verify_type_def file_exists_iff Let_def split: if_splits)
      obtain r2 s2 where o: "open_image B m1 f1 (nonempty_path i) False s = Some (r2, s2)"
        using assms(1) ok False Inr tm by (auto simp: addNandImage_def Let_def f1_def split: option.splits)
      have s2: "files s2 q = files s q" and p: "r2 = Inr (q, b) \<Longrightarrow> \<not> b" for b
        using open_writable_files [OF o [unfolded open_image_def if_False], of q] assms(2,3) f1 [of q] m1 False by auto
      show ?thesis
      proof (cases r2)
        case i2: (Inl e)
        then have "s1 = s2" using assms(1) ok False Inr tm o by (auto simp: addNandImage_def Let_def f1_def)
        then show ?thesis using s2 by simp
      next
        case i2: (Inr g)
        then have "s1 = snd (make_empty B t1 sz g s2)"
          using assms(1) ok False Inr tm o by (auto simp: addNandImage_def Let_def f1_def split: sum.splits prod.splits)
        then show ?thesis using s2 p i2 make_frame [of q "fst g" t1 sz s2]
          by (cases g; cases "snd g"; cases "q = fst g") (auto simp: make_empty_def split: prod.splits)
      qed
    qed
  qed
qed

lemma add_image_keeps:
  assumes "add_image B name t mode info ro st = Some (e, st1)" and "files (snd st) q = files s q" and "files s q \<noteq> None"
    and "ro \<or> part_path info \<noteq> Some q \<or> mode \<noteq> ANDROID_PARTITION_OPEN_MODE_MUST_WIPE \<and> nonempty_path (init_path info) = None \<and>
      (t = ANDROID_PARTITION_TYPE_UNKNOWN \<or> probePartitionFileType B q s = t)"
  shows "files (snd st1) q = files s q"
proof -
  obtain cs s0 where st: "st = (cs, s0)" by fastforce
  obtain r s2 where a: "addNandImage B name t mode (part_size info) (part_path info) (init_path info) ro s0 = Some (r, s2)"
    using assms(1) by (auto simp: add_image_def st)
  then have s2: "snd st1 = s2" using assms(1) by (cases r) (auto simp: add_image_def st)
  have "probePartitionFileType B q s0 = probePartitionFileType B q s" using assms(2) st by (auto intro: probe_file)
  then show ?thesis using addNandImage_keeps_files [OF a, of q] s2 assms(2-4) st by auto
qed

end

text \<open>A view of the files that depends on nothing else.\<close>

locale backend_view = backend B files for B :: "'s partition_backend" and files :: "'s \<Rightarrow> files" +
  fixes V :: "'s system_view"
  assumes size_file: "files s p = files s' p \<Longrightarrow> pathFileSize V p s = pathFileSize V p s'"
    and qcow2_file: "files s p = files s' p \<Longrightarrow> pathIsQcow2 V p s = pathIsQcow2 V p s'"
begin

lemma resize_data_keeps:
  assumes "resize_data B V config t s0 = Some s1" and "files s0 q = files s q"
    and "part_path (data_partition config) \<noteq> Some q \<or> \<not> wipe_data config \<and>
      (pathIsQcow2 V q s \<or> t \<noteq> ANDROID_PARTITION_TYPE_EXT4 \<or> pathFileSize V q s = None \<or>
       the (pathFileSize V q s) \<ge> part_size (data_partition config))"
  shows "files s1 q = files s q"
  using assms resize_frame [of q] size_file [of s0 q s] qcow2_file [of s0 q s]
  by (cases "part_path (data_partition config) = Some q")
    (auto simp: resize_data_def Let_def split: option.splits if_splits)

text \<open>
  Setting up the partitions without wiping changes no file that exists, whether it succeeds or not, unless the file is the
  image of a writable partition and has not the type the ramdisk names, or gets an initial image, or is a data image
  that is too small.
\<close>

lemma setup_keeps_files:
  assumes "android_partition_configuration_setup B V config s = Some (e, st)" and "\<not> wipe_data config" and "files s q \<noteq> None"
    and "partition_types B config s = Some (ts, tv, td, tc)"
    and safe: "\<And>info t. (info, t) \<in> {(system_partition config, ts), (vendor_partition config, tv), (data_partition config, td),
        ((cache_partition config)\<lparr>init_path := None\<rparr>, if tc = ANDROID_PARTITION_TYPE_UNKNOWN
          then (if kernel_supports_yaffs2 config then ANDROID_PARTITION_TYPE_YAFFS2 else ANDROID_PARTITION_TYPE_EXT4) else tc)} \<Longrightarrow>
      part_path info = Some q \<Longrightarrow> nonempty_path (init_path info) = None \<and> (t = ANDROID_PARTITION_TYPE_UNKNOWN \<or> probePartitionFileType B q s = t)"
    and big: "part_path (data_partition config) = Some q \<Longrightarrow> pathIsQcow2 V q s \<or> td \<noteq> ANDROID_PARTITION_TYPE_EXT4 \<or>
      pathFileSize V q s = None \<or> the (pathFileSize V q s) \<ge> part_size (data_partition config)"
  shows "files (snd st) q = files s q"
proof -
  let ?P = "\<lambda>st. files (snd st) q = files s q"
  have add: "?P st1" if "add_image B name t mode info ro st0 = Some (e, st1)" "?P st0" "mode \<noteq> ANDROID_PARTITION_OPEN_MODE_MUST_WIPE"
      "(info, t) \<in> {(system_partition config, ts), (vendor_partition config, tv), (data_partition config, td),
        ((cache_partition config)\<lparr>init_path := None\<rparr>, if tc = ANDROID_PARTITION_TYPE_UNKNOWN
          then (if kernel_supports_yaffs2 config then ANDROID_PARTITION_TYPE_YAFFS2 else ANDROID_PARTITION_TYPE_EXT4) else tc)}"
    for name t mode info ro st0 e st1
    using add_image_keeps [OF that(1,2) assms(3)] safe [OF that(4)] that(3) by blast
  show ?thesis
    using assms(1) unfolding android_partition_configuration_setup_def assms(4) option.case prod.case Let_def
  proof (rule and_then_keeps [where P = ?P], goal_cases)
    case 1
    then show ?case by (rule add) simp_all
  next
    case (2 st0 e0 st1)
    from 2(2) show ?case
    proof (rule and_then_keeps [where P = ?P], goal_cases)
      case (1 e st)
      then show ?case using 2(1) add [of _ tv] by (auto split: if_splits)
    next
      case (2 st0 e0 st1)
      from 2(2) show ?case
      proof (rule and_then_keeps [where P = ?P], goal_cases)
        case (1 e st)
        then show ?case using 2(1) assms(2) add [of _ td] by simp
      next
        case (2 st0 e0 st1)
        obtain cs s2 where st0: "st0 = (cs, s2)" by fastforce
        from 2(2) show ?case unfolding st0 prod.case
        proof (rule and_then_keeps [where P = ?P], goal_cases)
          case (1 e st)
          then show ?case using 2(1) st0 resize_data_keeps [of config td s2 _ q s] assms(2) big by auto
        next
          case (2 st e st1)
          then show ?case using assms(2) add by (auto split: if_splits)
        qed
      qed
    qed
  qed
qed

end

section \<open>The default backend\<close>

lemma make_empty_file_frame:
  "q \<noteq> p \<Longrightarrow> snd (androidPartitionType_makeEmptyFile E t n p fs) q = fs q"
  "fs p \<noteq> None \<Longrightarrow> snd (androidPartitionType_makeEmptyFile E t n p fs) p \<noteq> None"
  by (auto simp: androidPartitionType_makeEmptyFile_def path_empty_file_def android_createEmptyExt4Image_def
      split: AndroidPartitionType.splits prod.splits)

lemma copy_file_frame:
  assumes "path_copy_file E p i fs = Some (r, fs1)"
  shows "q \<noteq> p \<Longrightarrow> fs1 q = fs q" and "r \<ge> 0 \<Longrightarrow> fs i \<noteq> None \<Longrightarrow> fs1 p \<noteq> None"
  using assms
  by (auto simp: path_copy_file_def path_copy_file_impl_def path_is_same_def path_empty_file_def split: if_splits)

lemma probe_same_file: "fs p = fs' p \<Longrightarrow> androidPartitionType_probeFile fs p = androidPartitionType_probeFile fs' p"
  by (simp add: androidPartitionType_probeFile_def android_pathIsExt4PartitionImage_def)

lemma with_files_files: "host_files (snd (with_files h r)) = snd r"
  by (cases r) (simp add: with_files_def)

interpretation default_backend: backend_view "DefaultPartitionConfigBackend E" host_files "System_view E" for E
proof (unfold_locales, goal_cases)
  case (3 s p s')
  from probe_same_file [of "host_files s" p "host_files s'", OF this] show ?case by (simp add: DefaultPartitionConfigBackend_def)
next
  case (7 p i s ok s1 q)
  then show ?case by (auto simp: DefaultPartitionConfigBackend_def with_files_def dest: copy_file_frame(1))
next
  case (8 p i s s1)
  then show ?case by (auto simp: DefaultPartitionConfigBackend_def with_files_def dest: copy_file_frame(2))
next
  case (9 s t s1)
  then show ?case by (auto simp: DefaultPartitionConfigBackend_def find_Some_iff split: option.splits)
next
  case (11 q p ty n s)
  then show ?case by (simp add: DefaultPartitionConfigBackend_def with_files_files make_empty_file_frame)
next
  case (12 s p ty n)
  then show ?case using make_empty_file_frame(2) by (simp add: DefaultPartitionConfigBackend_def with_files_files)
qed (auto simp: DefaultPartitionConfigBackend_def System_view_def with_files_def path_empty_file_def
    androidPartitionType_probeFile_def make_empty_file_frame split: if_splits prod.splits option.splits)

section \<open>Properties\<close>

definition writers_work :: "'f host_env \<Rightarrow> bool" where
  "writers_work E \<longleftrightarrow> (\<forall>p. can_create E p) \<and>
     (\<forall>n old. fst (make_ext4fs E n old) \<ge> 0 \<and> take 2 (drop kOffset (snd (make_ext4fs E n old))) = kExpected)"

lemma made_empty_probes:
  assumes "writers_work E" and "t \<noteq> ANDROID_PARTITION_TYPE_UNKNOWN"
  shows "androidPartitionType_probeFile (snd (androidPartitionType_makeEmptyFile E t n p fs)) p = t"
proof (cases t)
  case ANDROID_PARTITION_TYPE_EXT4
  obtain r img where m: "make_ext4fs E n (fs p) = (r, img)" by fastforce
  then have "take 2 (drop kOffset img) = kExpected" using assms(1) unfolding writers_work_def by (metis snd_conv)
  then show ?thesis using ANDROID_PARTITION_TYPE_EXT4 m assms(1)
    by (simp add: androidPartitionType_makeEmptyFile_def android_createEmptyExt4Image_def writers_work_def
        androidPartitionType_probeFile_def android_pathIsExt4PartitionImage_def kExpected_def)
next
  case ANDROID_PARTITION_TYPE_YAFFS2
  then show ?thesis using assms(1)
    by (simp add: androidPartitionType_makeEmptyFile_def path_empty_file_def writers_work_def probe_empty_file)
qed (use assms(2) in simp)

lemma default_probe [simp]:
  "probePartitionFileType (DefaultPartitionConfigBackend E) p h = androidPartitionType_probeFile (host_files h) p"
  by (simp add: DefaultPartitionConfigBackend_def)

lemma default_make [simp]:
  "host_files (snd (makeEmptyPartition (DefaultPartitionConfigBackend E) t n p h)) =
    snd (androidPartitionType_makeEmptyFile E t n p (host_files h))"
  by (simp add: DefaultPartitionConfigBackend_def with_files_files)

lemma verify_type_ok:
  assumes "verify_type (DefaultPartitionConfigBackend E) t mode f None h = Inr (t1, m1)"
  shows "t1 \<noteq> ANDROID_PARTITION_TYPE_UNKNOWN \<and> (t \<noteq> ANDROID_PARTITION_TYPE_UNKNOWN \<longrightarrow> t1 = t) \<and>
    (\<forall>p. f = Some p \<and> host_files h p \<noteq> None \<and> (m1 \<noteq> ANDROID_PARTITION_OPEN_MODE_MUST_WIPE \<or> mode = ANDROID_PARTITION_OPEN_MODE_MUST_EXIST) \<longrightarrow>
      androidPartitionType_probeFile (host_files h) p = t1)"
proof -
  have "androidPartitionType_probeFile (host_files h) p \<noteq> ANDROID_PARTITION_TYPE_UNKNOWN" if "host_files h p \<noteq> None" for p
    using that by (simp add: androidPartitionType_probeFile_def)
  then show ?thesis using assms
    by (auto simp: verify_type_def default_backend.file_exists_iff Let_def split: if_splits option.splits)
qed

text \<open>The steps of a successful call without an initial image.\<close>

lemma addNandImage_steps:
  assumes "addNandImage B name t mode sz f i ro s = Some (Inr c, s1)" and "nonempty_path i = None"
  obtains f1 t1 m1 p b s2 where "verify_type B t mode f1 None s = Inr (t1, m1)"
    "open_image B m1 f1 None ro s = Some (Inr (p, b), s2)"
    "c = \<lparr>setup_name = name, setup_size = sz, setup_path = p, setup_format = t1, setup_readonly = ro\<rparr>"
    "s1 = (if b then snd (makeEmptyPartition B t1 sz p s2) else s2)"
proof -
  define f1 where "f1 = (if nonempty_path f = Some (asc ''<temp>'') then None else nonempty_path f)"
  obtain t1 m1 where v: "verify_type B t mode f1 None s = Inr (t1, m1)"
    using assms by (auto simp: addNandImage_def f1_def Let_def split: if_splits sum.splits)
  obtain p b s2 where o: "open_image B m1 f1 None ro s = Some (Inr (p, b), s2)"
    using assms v by (auto simp: addNandImage_def f1_def Let_def split: if_splits sum.splits option.splits prod.splits)
  have "c = \<lparr>setup_name = name, setup_size = sz, setup_path = p, setup_format = t1, setup_readonly = ro\<rparr> \<and>
      s1 = (if b then snd (makeEmptyPartition B t1 sz p s2) else s2)"
    using assms v o by (auto simp: addNandImage_def f1_def make_empty_def Let_def split: if_splits prod.splits)
  with v o that show thesis by blast
qed


definition sample_host_env :: "bytes host_env" where
  "sample_host_env = \<lparr>can_create = \<lambda>_. True, can_read = \<lambda>_. True, can_lock = \<lambda>_. True, temp_names = [asc ''/tmp/emulator''],
     copy_io = \<lambda>bs. [(Chunk bs, int (length bs)), (Chunk [], 0)], make_ext4fs = \<lambda>n old. (0, replicate kOffset 0 @ kExpected),
     programs = \<lparr>findBundledExecutable = \<lambda>n. n, execute = \<lambda>_ img. (0, img)\<rparr>,
     zlib = list_gz, gz_open = \<lambda>c. case c of None \<Rightarrow> Inl 2 | Some bs \<Rightarrow> Inr bs\<rparr>"

lemmas image_defs = addNandImage_def verify_type_def open_image_def open_writable_def lock_image_def temp_image_def copy_initial_def
  make_empty_def file_exists_def nonempty_path_def


definition image_safe :: "host \<Rightarrow> path \<Rightarrow> AndroidPartitionInfo \<Rightarrow> AndroidPartitionType \<Rightarrow> bool" where
  "image_safe h q info t \<longleftrightarrow> part_path info = Some q \<longrightarrow>
     nonempty_path (init_path info) = None \<and> (t = ANDROID_PARTITION_TYPE_UNKNOWN \<or> androidPartitionType_probeFile (host_files h) q = t)"


text \<open>
  C40: A wipe that fails is reported as a success, since the result of \<^verbatim>\<open>makeEmptyPartition\<close>, a truth value, is tested for
  being negative: the old data stays, and the partition is set up on it.
\<close>

theorem failed_wipe_reported_as_success:
  assumes "host_files h p = Some bs" and "p \<noteq> []" and "p \<noteq> asc ''<temp>''" and "can_lock E p" and "\<not> can_create E p" and "sz \<noteq> 0"
  shows "\<exists>c h1. addNandImage (DefaultPartitionConfigBackend E) name (androidPartitionType_probeFile (host_files h) p)
      ANDROID_PARTITION_OPEN_MODE_MUST_WIPE sz (Some p) None False h = Some (Inr c, h1) \<and>
    setup_path c = p \<and> host_files h1 p = Some bs"
proof -
  let ?t = "androidPartitionType_probeFile (host_files h) p"
  have "?t \<noteq> ANDROID_PARTITION_TYPE_UNKNOWN" using assms(1) by (simp add: androidPartitionType_probeFile_def)
  moreover obtain r where "androidPartitionType_makeEmptyFile E ?t sz p (host_files h) = (r, host_files h)"
    using assms(5) by (cases ?t)
      (simp_all add: androidPartitionType_makeEmptyFile_def path_empty_file_def android_createEmptyExt4Image_def)
  ultimately show ?thesis using assms
    by (auto simp: image_defs DefaultPartitionConfigBackend_def with_files_def Let_def)
qed

lemma failed_wipe_reported_as_success_witness:
  "\<exists>c h1. addNandImage (DefaultPartitionConfigBackend (sample_host_env\<lparr>can_create := \<lambda>_. False\<rparr>)) (asc ''userdata'')
      (androidPartitionType_probeFile [asc ''d'' \<mapsto> [1]] (asc ''d'')) ANDROID_PARTITION_OPEN_MODE_MUST_WIPE 1024 (Some (asc ''d'')) None False
      \<lparr>host_files = [asc ''d'' \<mapsto> [1]], host_locks = []\<rparr> = Some (Inr c, h1) \<and> host_files h1 (asc ''d'') = Some [1]"
  using failed_wipe_reported_as_success [of "\<lparr>host_files = [asc ''d'' \<mapsto> [1]], host_locks = []\<rparr>" "asc ''d''" "[1]"
      "sample_host_env\<lparr>can_create := \<lambda>_. False\<rparr>" 1024 "asc ''userdata''"]
  by (auto simp: sample_host_env_def asc_def)

definition listed_type :: "bytes \<Rightarrow> bytes \<Rightarrow> AndroidPartitionType" where
  "listed_type fstab mount =
     (case fstab_format fstab mount of None \<Rightarrow> ANDROID_PARTITION_TYPE_UNKNOWN | Some f \<Rightarrow> androidPartitionType_fromString f)"

text \<open>
  C20: From the ramdisk to the formats: when the ramdisk is a cpio archive that has the table of file systems, the format of
  every partition is the third word of the first line of the table that has the mount point as its second word, and unknown
  when there is no such line or no such name.
\<close>

theorem partition_types_from_ramdisk:
  assumes "gz_reads (zlib E) contents" and "gz_open E (host_files h (ramdisk_path config)) = Inr f"
    and "contents f = concat (map cpio_entry es)" and "\<forall>e \<in> set es. cpio_ok e"
    and "find (\<lambda>e. cpio_name e = c_str (fstab_name config) \<and> cpio_data e \<noteq> []) (takeWhile (\<lambda>e. cpio_name e \<noteq> kTrailer) es) = Some e"
    and "length (c_str (fstab_name config)) \<noteq> length kTrailer" and "0 \<notin> set (cpio_data e)"
  shows "partition_types (DefaultPartitionConfigBackend E) config h =
    Some (listed_type (cpio_data e) (asc ''/system''), listed_type (cpio_data e) (asc ''/vendor''),
          listed_type (cpio_data e) (asc ''/data''), listed_type (cpio_data e) (asc ''/cache''))"
proof -
  have m: "matches (c_str (fstab_name config)) = (\<lambda>e. cpio_name e = c_str (fstab_name config) \<and> cpio_data e \<noteq> [])"
    using assms(6) by (auto simp: matches_def [abs_def])
  have r: "android_extractRamdiskFile (zlib E) (gz_open E (host_files h (ramdisk_path config))) (fstab_name config) = Some (ExtractOk (cpio_data e))"
    using search_entry_finds [OF assms(1) _ assms(4), of "\<lparr>mFile = f, mError = 0\<rparr>" "[]" "fstab_name config"] assms(2,3,5) m
    by (simp add: android_extractRamdiskFile_def cpio_trailer_def [abs_def])
  have t: "extractPartitionFormat (DefaultPartitionConfigBackend E) (cpio_data e) p ANDROID_PARTITION_TYPE_UNKNOWN = listed_type (cpio_data e) p"
    if "p \<noteq> []" for p
    using fstab_parser_is_reference [OF assms(7) that] fstab_format_no_zero [OF assms(7), of p]
    by (auto simp: extractPartitionFormat_def listed_type_def DefaultPartitionConfigBackend_def c_str_id split: option.split)
  have "extractRamdiskFile (DefaultPartitionConfigBackend E) (ramdisk_path config) (fstab_name config) h = Some (Some (cpio_data e))"
    by (simp add: DefaultPartitionConfigBackend_def r)
  then show ?thesis by (simp add: partition_types_def t asc_def)
qed

definition sample_config :: AndroidPartitionConfiguration where
  "sample_config = \<lparr>ramdisk_path = asc ''ramdisk'', fstab_name = asc ''fstab.ranchu'',
     system_partition = \<lparr>part_size = 1, part_path = Some (asc ''system''), init_path = None\<rparr>,
     vendor_partition = \<lparr>part_size = 0, part_path = None, init_path = None\<rparr>,
     data_partition = \<lparr>part_size = 1, part_path = Some (asc ''d''), init_path = None\<rparr>,
     cache_partition = \<lparr>part_size = 1, part_path = None, init_path = None\<rparr>,
     kernel_supports_yaffs2 = True, wipe_data = False, writable_system = False\<rparr>"

definition sample_ramdisk :: "cpio_file list" where
  "sample_ramdisk = [sample_file ''init'' ''#!'', sample_file ''fstab.ranchu'' ''/dev/vda /data ext4 rw'']"

definition sample_host :: host where
  "sample_host = \<lparr>host_files = [asc ''ramdisk'' \<mapsto> concat (map cpio_entry sample_ramdisk), asc ''system'' \<mapsto> [7],
     asc ''d'' \<mapsto> replicate kOffset 0 @ kExpected], host_locks = []\<rparr>"

lemma partition_types_from_ramdisk_witness:
  "partition_types (DefaultPartitionConfigBackend sample_host_env) sample_config sample_host =
    Some (ANDROID_PARTITION_TYPE_UNKNOWN, ANDROID_PARTITION_TYPE_UNKNOWN, ANDROID_PARTITION_TYPE_EXT4, ANDROID_PARTITION_TYPE_UNKNOWN)"
proof -
  let ?e = "sample_file ''fstab.ranchu'' ''/dev/vda /data ext4 rw''"
  have "\<forall>e \<in> set sample_ramdisk. cpio_ok e" by (simp add: sample_ramdisk_def sample_file_def cpio_ok_def asc_def)
  moreover have "find (\<lambda>e. cpio_name e = c_str (fstab_name sample_config) \<and> cpio_data e \<noteq> []) (takeWhile (\<lambda>e. cpio_name e \<noteq> kTrailer) sample_ramdisk) = Some ?e"
    by code_simp
  moreover have "length (c_str (fstab_name sample_config)) \<noteq> length kTrailer" "0 \<notin> set (cpio_data ?e)" by code_simp+
  ultimately have "partition_types (DefaultPartitionConfigBackend sample_host_env) sample_config sample_host =
    Some (listed_type (cpio_data ?e) (asc ''/system''), listed_type (cpio_data ?e) (asc ''/vendor''),
          listed_type (cpio_data ?e) (asc ''/data''), listed_type (cpio_data ?e) (asc ''/cache''))"
    using partition_types_from_ramdisk [of sample_host_env "\<lambda>f. f" sample_host sample_config "concat (map cpio_entry sample_ramdisk)" sample_ramdisk ?e]
      list_gz_reads by (simp add: sample_host_env_def sample_host_def sample_config_def asc_def)
  also have "\<dots> = Some (ANDROID_PARTITION_TYPE_UNKNOWN, ANDROID_PARTITION_TYPE_UNKNOWN, ANDROID_PARTITION_TYPE_EXT4, ANDROID_PARTITION_TYPE_UNKNOWN)"
    by code_simp
  finally show ?thesis .
qed


text \<open>
  The copy of an initial image reports success also when a write fails and the copy is cut off there, and does not return
  when the source cannot be read.
\<close>

lemma truncated_copy_succeeds:
  assumes "fs source = Some bs" and "can_read E source" and "can_create E dest" and "dest \<noteq> source"
    and "copy_io E bs = (Chunk bs, -1) # rs" and "bs \<noteq> []"
  shows "path_copy_file E dest source fs = Some (0, fs(dest \<mapsto> []))"
  using assms by (simp add: path_copy_file_def path_is_same_def path_copy_file_impl_def)

lemma unreadable_copy_hangs: "copy_loop (replicate n (ReadError, -1)) out = None"
  by (induction n) simp_all

end
