(* ===== verification/Bootconfig.thy ===== *)
theory Bootconfig
  imports Prelude
begin

text \<open>
  \<^verbatim>\<open>bootconfig.cpp\<close>: the boot configuration that is appended to a ramdisk.  The format is fixed by the kernel that
  reads it; \<open>read_bootconfig\<close> is that reader, as the kernel's documentation describes it, and the blob is shown to be what it
  expects.
\<close>

section \<open>Writing\<close>

definition kBootconfigMagic :: bytes where "kBootconfigMagic = asc ''#BOOTCONFIG'' @ [0x0A]"
definition kBootconfigAlign :: nat where "kBootconfigAlign = 4"

text \<open>
  The copy of a file in pieces: every round is what \<^verbatim>\<open>fread\<close> delivers and the number of bytes \<^verbatim>\<open>fwrite\<close> takes.  An empty piece
  ends the loop.  The result is the error state of the stream that stopped the loop, the number of bytes copied, and the output.
\<close>

record copy_rounds =
  rounds :: "(bytes \<times> nat) list"
  ferror_src :: int
  ferror_dst :: int

fun copyFile_loop :: "int \<Rightarrow> int \<Rightarrow> (bytes \<times> nat) list \<Rightarrow> nat \<Rightarrow> bytes \<Rightarrow> (int \<times> nat) \<times> bytes" where
  "copyFile_loop es ed [] sz out = ((es, sz), out)"
| "copyFile_loop es ed ((r, w) # rs) sz out =
     (if r = [] then ((es, sz), out)
      else if length r \<noteq> w then ((ed, sz), out @ take w r)
      else copyFile_loop es ed rs (sz + length r) (out @ r))"

definition copyFile :: "copy_rounds \<Rightarrow> (int \<times> nat) \<times> bytes" where
  "copyFile io = copyFile_loop (ferror_src io) (ferror_dst io) (rounds io) 0 []"

definition host2le32 :: "u32 \<Rightarrow> bytes" where
  "host2le32 v32 = [ucast v32, ucast (drop_bit 8 v32), ucast (drop_bit 16 v32), ucast (drop_bit 24 v32)]"

definition flattenBootconfig :: "(bytes \<times> bytes) list \<Rightarrow> bytes" where
  "flattenBootconfig bootconfig = concat (map (\<lambda>(k, v). k @ [0x3D, 0x22] @ v @ [0x22, 0x0A]) bootconfig) @ [0]"

definition accumulate :: "bytes \<Rightarrow> u32" where
  "accumulate blob = foldl (\<lambda>z c. z + ucast c) 0 blob"

definition align_blob :: "nat \<Rightarrow> bytes \<Rightarrow> bytes" where
  "align_blob srcSize blob =
     (let unaligned = (srcSize + length blob) mod kBootconfigAlign
      in if unaligned \<noteq> 0 then blob @ replicate (kBootconfigAlign - unaligned) 0x2B else blob)"

definition buildBootconfigBlob :: "nat \<Rightarrow> (bytes \<times> bytes) list \<Rightarrow> bytes" where
  "buildBootconfigBlob srcSize bootconfig =
     (let blob = align_blob srcSize (flattenBootconfig bootconfig); csum = accumulate blob; sz = of_nat (length blob)
      in blob @ host2le32 sz @ host2le32 csum @ kBootconfigMagic)"

text \<open>\<open>written\<close> is the number of bytes \<^verbatim>\<open>fwrite\<close> takes.\<close>

definition appendBootconfig :: "nat \<Rightarrow> int \<Rightarrow> nat \<Rightarrow> (bytes \<times> bytes) list \<Rightarrow> bytes \<Rightarrow> int \<times> bytes" where
  "appendBootconfig written err srcSize bootconfig dst =
     (let blob = buildBootconfigBlob srcSize bootconfig
      in (if length blob \<noteq> written then err else 0, dst @ take written blob))"

text \<open>\<open>None\<close> for a file that cannot be opened.\<close>

definition createRamdiskWithBootconfig ::
  "copy_rounds option \<Rightarrow> bool \<Rightarrow> nat \<Rightarrow> (bytes \<times> bytes) list \<Rightarrow> int \<times> bytes option" where
  "createRamdiskWithBootconfig srcRamdisk dst_opens written bootconfig =
     (case srcRamdisk of
        None \<Rightarrow> (1, None)
      | Some io \<Rightarrow>
          if \<not> dst_opens then (1, None)
          else (case copyFile io of
                  ((err, sz), out) \<Rightarrow>
                    if err \<noteq> 0 then (err, Some out)
                    else (case appendBootconfig written (ferror_dst io) sz bootconfig out of (r, out1) \<Rightarrow> (r, Some out1))))"

section \<open>Reading\<close>

text \<open>
  The kernel looks at the end of the ramdisk for the magic, the checksum and the size before it, and takes that many bytes
  before them, whose sum has to be the checksum; the text ends at the first zero byte.  It gives the ramdisk without the
  boot configuration, and the text.
\<close>

definition read_bootconfig :: "bytes \<Rightarrow> (bytes \<times> bytes) option" where
  "read_bootconfig initrd =
     (let n = length initrd;
          sz = unat (of_le32 (take 4 (drop (n - 20) initrd)));
          csum = of_le32 (take 4 (drop (n - 16) initrd));
          data = take sz (drop (n - 20 - sz) initrd)
      in if n < 20 \<or> drop (n - 12) initrd \<noteq> kBootconfigMagic \<or> sz > n - 20 then None
         else if sum_list (map ucast data) \<noteq> csum then None
         else Some (take (n - 20 - sz) initrd, takeWhile (\<lambda>c. c \<noteq> 0) data))"

section \<open>Facts\<close>

lemma accumulate_sum: "accumulate blob = sum_list (map ucast blob)"
proof -
  have "foldl (\<lambda>z c. z + ucast c) z bs = z + sum_list (map ucast bs)" for z :: u32 and bs :: bytes
    by (induction bs arbitrary: z) (simp_all add: add.assoc)
  then show ?thesis by (simp add: accumulate_def)
qed

lemma align_blob_aligned: "(srcSize + length (align_blob srcSize blob)) mod kBootconfigAlign = 0"
proof -
  have "(n + (4 - n mod 4)) mod 4 = 0" if "n mod 4 \<noteq> 0" for n :: nat using that by presburger
  then show ?thesis by (simp add: align_blob_def Let_def kBootconfigAlign_def add.assoc [symmetric])
qed

lemma align_blob_text: "0 \<in> set blob \<Longrightarrow> takeWhile (\<lambda>c. c \<noteq> 0) (align_blob n blob) = takeWhile (\<lambda>c. c \<noteq> 0) blob"
  by (auto simp: align_blob_def Let_def takeWhile_append)

lemma text_before_zero: "0 \<notin> set bs \<Longrightarrow> takeWhile (\<lambda>c. c \<noteq> 0) (bs @ [0 :: u8]) = bs"
  by (induction bs) auto

lemma read_bootconfig_append:
  assumes "length data < 2 ^ 32"
  shows "read_bootconfig (src @ data @ host2le32 (of_nat (length data)) @ host2le32 (accumulate data) @ kBootconfigMagic) =
    Some (src, takeWhile (\<lambda>c. c \<noteq> 0) data)"
proof -
  let ?s = "host2le32 (of_nat (length data))" and ?c = "host2le32 (accumulate data)"
  let ?i = "src @ data @ ?s @ ?c @ kBootconfigMagic"
  have l: "length ?s = 4" "length ?c = 4" "length kBootconfigMagic = 12" by (simp_all add: host2le32_def kBootconfigMagic_def)
  then have n: "length ?i = length src + length data + 20" by simp
  have "drop (length ?i - 12) ?i = kBootconfigMagic" "take 4 (drop (length ?i - 20) ?i) = ?s" "take 4 (drop (length ?i - 16) ?i) = ?c"
    unfolding n using l by simp_all
  moreover have "unat (of_le32 ?s) = length data" "of_le32 ?c = accumulate data"
    using assms by (simp_all only: host2le32_def of_le32_bytes) (simp add: unat_of_nat take_bit_eq_mod)
  ultimately show ?thesis using n l by (simp add: read_bootconfig_def Let_def accumulate_sum)
qed

lemma copyFile_whole:
  assumes "\<forall>(r, w) \<in> set rs. r \<noteq> [] \<and> w = length r"
  shows "copyFile_loop es ed (rs @ [([], 0)]) sz out = ((es, sz + length (concat (map fst rs))), out @ concat (map fst rs))"
  using assms by (induction rs arbitrary: sz out) auto

section \<open>Properties\<close>



text \<open>Values are not escaped: one that has a quote can define a further entry.\<close>

lemma values_not_escaped:
  "flattenBootconfig [(k, v @ [0x22, 0x0A] @ k' @ asc ''='' @ [0x22] @ v')] = flattenBootconfig [(k, v), (k', v')]"
  by (simp add: flattenBootconfig_def asc_def)

end
