(* ===== verification/Annotation_Buffer.thy ===== *)
theory Annotation_Buffer
  imports Prelude
begin

text \<open>
  The stream buffers behind crash reports: \<^verbatim>\<open>AnnotationCircularStreambuf.h\<close> keeps the last bytes written,
  \<^verbatim>\<open>AnnotationStreambuf.h\<close> the first.  The put area of \<^verbatim>\<open>std::streambuf\<close> is the position \<open>pptr\<close> in the buffer, whose length is
  \<^verbatim>\<open>MaxSize\<close>; both are shown to implement the abstract buffer, which is just the list of all bytes written.
\<close>

section \<open>The circular buffer\<close>

record circular_streambuf =
  mBuffer :: bytes
  pptr :: nat
  mSize :: nat
  annotation_size :: nat
  get_area :: "nat \<times> nat"

definition MaxSize :: "circular_streambuf \<Rightarrow> nat" where
  "MaxSize b = length (mBuffer b)"

definition new_circular :: "nat \<Rightarrow> circular_streambuf" where
  "new_circular n = \<lparr>mBuffer = replicate n 0, pptr = 0, mSize = 0, annotation_size = 0, get_area = (0, 0)\<rparr>"

definition write_at :: "nat \<Rightarrow> bytes \<Rightarrow> bytes \<Rightarrow> bytes" where
  "write_at pos bs buf = take pos buf @ bs @ drop (pos + length bs) buf"

text \<open>The loop of \<^verbatim>\<open>xsputn\<close>; a failed assertion is \<open>None\<close>.\<close>

definition wrap_around :: "circular_streambuf \<Rightarrow> circular_streambuf" where
  "wrap_around b = (if pptr b = MaxSize b then b\<lparr>pptr := 0, mSize := MaxSize b, annotation_size := MaxSize b\<rparr> else b)"

function xsputn_loop :: "bytes \<Rightarrow> circular_streambuf \<Rightarrow> circular_streambuf option" where
  "xsputn_loop p b =
     (if p = [] then Some b
      else (let b1 = wrap_around b; available = MaxSize b1 - pptr b1; toCopy = min (length p) available
            in if toCopy = 0 then None
               else xsputn_loop (drop toCopy p)
                      (b1\<lparr>mBuffer := write_at (pptr b1) (take toCopy p) (mBuffer b1), pptr := pptr b1 + toCopy\<rparr>)))"
  by auto
termination by (relation "measure (\<lambda>(p, _). length p)") auto

declare xsputn_loop.simps [simp del]

definition xsputn :: "bytes \<Rightarrow> circular_streambuf \<Rightarrow> (nat \<times> circular_streambuf) option" where
  "xsputn s b =
     (let n = length s; (p, written) = (if n > MaxSize b then (drop (n - MaxSize b) s, n - MaxSize b) else (s, 0))
      in map_option
           (\<lambda>b1. (written + length p, if mSize b1 \<noteq> MaxSize b1 then b1\<lparr>mSize := pptr b1, annotation_size := pptr b1\<rparr> else b1))
           (xsputn_loop p b))"

definition circular_sync :: "circular_streambuf \<Rightarrow> circular_streambuf" where
  "circular_sync b = b\<lparr>get_area := (0, mSize b)\<rparr>"

definition circular_underflow :: "circular_streambuf \<Rightarrow> u8 option" where
  "circular_underflow b = (case get_area b of (g, e) \<Rightarrow> if g = e then None else Some (mBuffer b ! g))"

definition circular_overflow :: "u8 \<Rightarrow> circular_streambuf \<Rightarrow> u8 option \<times> circular_streambuf" where
  "circular_overflow ch b = (None, b)"

text \<open>\<^verbatim>\<open>std::streambuf::sputc\<close>: a single character goes to the put area, and to \<^verbatim>\<open>overflow\<close> only when there is no room.\<close>

definition sputc :: "u8 \<Rightarrow> circular_streambuf \<Rightarrow> u8 option \<times> circular_streambuf" where
  "sputc ch b =
     (if pptr b < MaxSize b then (Some ch, b\<lparr>mBuffer := (mBuffer b)[pptr b := ch], pptr := pptr b + 1\<rparr>)
      else circular_overflow ch b)"

section \<open>The linear buffer\<close>

record linear_streambuf =
  lBuffer :: bytes
  lpptr :: nat
  lSize :: nat

definition new_linear :: "nat \<Rightarrow> linear_streambuf" where
  "new_linear n = \<lparr>lBuffer = replicate n 0, lpptr = 0, lSize = 0\<rparr>"

definition linear_xsputn :: "bytes \<Rightarrow> linear_streambuf \<Rightarrow> int \<times> linear_streambuf" where
  "linear_xsputn s b =
     (let available = length (lBuffer b) - lpptr b; to_copy = min (length s) available
      in if available = 0 then (-1, b)
         else (int to_copy, b\<lparr>lBuffer := write_at (lpptr b) (take to_copy s) (lBuffer b), lpptr := lpptr b + to_copy, lSize := lpptr b + to_copy\<rparr>))"

section \<open>The abstract buffer\<close>

text \<open>What the circular buffer holds, oldest byte first, and that it is the end of \<open>h\<close>, all that was written.\<close>

definition circular_text :: "circular_streambuf \<Rightarrow> bytes" where
  "circular_text b = drop (pptr b) (take (mSize b) (mBuffer b)) @ take (pptr b) (mBuffer b)"

definition last_bytes :: "nat \<Rightarrow> bytes \<Rightarrow> bytes" where
  "last_bytes n h = drop (length h - n) h"

definition holds :: "nat \<Rightarrow> bytes \<Rightarrow> circular_streambuf \<Rightarrow> bool" where
  "holds M h b \<longleftrightarrow> MaxSize b = M \<and> pptr b \<le> M \<and> annotation_size b = mSize b \<and>
     (if mSize b \<noteq> M then length h \<le> M \<and> pptr b = length h \<and> take (pptr b) (mBuffer b) = h
      else M \<le> length h \<and> drop (pptr b) (mBuffer b) @ take (pptr b) (mBuffer b) = last_bytes M h)"

lemma length_write_at: "pos + length bs \<le> length buf \<Longrightarrow> length (write_at pos bs buf) = length buf"
  by (simp add: write_at_def)

lemma wrap_around_holds: "holds M h b \<Longrightarrow> holds M h (wrap_around b) \<and> (M > 0 \<longrightarrow> pptr (wrap_around b) < M)"
  by (auto simp: holds_def wrap_around_def MaxSize_def last_bytes_def split: if_splits)

lemma write_holds:
  assumes "holds M h b" and "pptr b + length c \<le> M"
  shows "holds M (h @ c) (b\<lparr>mBuffer := write_at (pptr b) c (mBuffer b), pptr := pptr b + length c\<rparr>)"
proof -
  have len: "length (mBuffer b) = M" "pptr b \<le> M" using assms(1) by (auto simp: holds_def MaxSize_def)
  have t: "take (pptr b + length c) (write_at (pptr b) c (mBuffer b)) = take (pptr b) (mBuffer b) @ c"
    and d: "drop (pptr b + length c) (write_at (pptr b) c (mBuffer b)) = drop (pptr b + length c) (mBuffer b)"
    using len by (simp_all add: write_at_def)
  show ?thesis
  proof (cases "mSize b = M")
    case False
    then have "pptr b = length h" "take (pptr b) (mBuffer b) = h" using False assms(1) unfolding holds_def by metis+
    then show ?thesis using False assms len t by (simp add: holds_def MaxSize_def length_write_at)
  next
    case True
    have a: "annotation_size b = mSize b" using assms(1) unfolding holds_def by metis
    have h: "M \<le> length h" "drop (pptr b) (mBuffer b) @ take (pptr b) (mBuffer b) = drop (length h - M) h"
      using assms(1) True by (simp_all add: holds_def last_bytes_def)
    have "drop (length c) (drop (pptr b) (mBuffer b) @ take (pptr b) (mBuffer b)) = drop (pptr b + length c) (mBuffer b) @ take (pptr b) (mBuffer b)"
      using assms(2) len by (simp add: add.commute)
    then have "drop (pptr b + length c) (mBuffer b) @ take (pptr b) (mBuffer b) @ c = drop (length (h @ c) - M) (h @ c)"
      using h assms(2) by (simp add: add.commute)
    then show ?thesis using True a assms(2) len t d h(1) by (simp add: holds_def MaxSize_def length_write_at last_bytes_def)
  qed
qed

lemma xsputn_loop_holds:
  assumes "holds M h b" and "M > 0"
  shows "\<exists>b1. xsputn_loop p b = Some b1 \<and> holds M (h @ p) b1"
  using assms(1)
proof (induction p arbitrary: h b rule: length_induct)
  case (1 p)
  show ?case
  proof (cases "p = []")
    case True
    then show ?thesis using 1(2) by (simp add: xsputn_loop.simps)
  next
    case False
    let ?b1 = "wrap_around b"
    let ?k = "min (length p) (MaxSize ?b1 - pptr ?b1)"
    have w: "holds M h ?b1" "pptr ?b1 < M" "MaxSize ?b1 = M" using wrap_around_holds [OF 1(2)] assms(2) by (auto simp: holds_def)
    then have k: "?k > 0" "pptr ?b1 + length (take ?k p) \<le> M" using False by auto
    let ?b2 = "?b1\<lparr>mBuffer := write_at (pptr ?b1) (take ?k p) (mBuffer ?b1), pptr := pptr ?b1 + ?k\<rparr>"
    have "holds M (h @ take ?k p) ?b2" using write_holds [OF w(1) k(2)] by (simp add: min.absorb2)
    moreover have "length (drop ?k p) < length p" using k(1) False by simp
    ultimately obtain b3 where "xsputn_loop (drop ?k p) ?b2 = Some b3" "holds M ((h @ take ?k p) @ drop ?k p) b3"
      using 1(1) by blast
    then show ?thesis using False k(1) by (subst xsputn_loop.simps) (simp add: Let_def)
  qed
qed

lemma update_size_holds:
  assumes "holds M h b"
  shows "holds M h (if mSize b \<noteq> MaxSize b then b\<lparr>mSize := pptr b, annotation_size := pptr b\<rparr> else b)"
    and "mSize (if mSize b \<noteq> MaxSize b then b\<lparr>mSize := pptr b, annotation_size := pptr b\<rparr> else b) = min M (length h)"
  using assms by (auto simp: holds_def MaxSize_def last_bytes_def split: if_splits)

lemma holds_last:
  assumes "holds M (h @ last_bytes M p) b" and "length p > M" and "mSize b = M"
  shows "holds M (h @ p) b"
proof -
  have "length (last_bytes M p) = M" using assms(2) by (simp add: last_bytes_def)
  then have "last_bytes M (h @ last_bytes M p) = last_bytes M p" by (simp add: last_bytes_def)
  moreover have "last_bytes M (h @ p) = last_bytes M p" using assms(2) by (simp add: last_bytes_def)
  ultimately show ?thesis using assms by (simp add: holds_def)
qed

lemma xsputn_holds:
  assumes "holds M h b" and "M > 0"
  shows "\<exists>b1. xsputn s b = Some (length s, b1) \<and> holds M (h @ s) b1 \<and> mSize b1 = min M (length (h @ s))"
proof -
  have M: "MaxSize b = M" using assms(1) by (simp add: holds_def)
  let ?p = "if length s > M then last_bytes M s else s"
  let ?u = "\<lambda>b. if mSize b \<noteq> MaxSize b then b\<lparr>mSize := pptr b, annotation_size := pptr b\<rparr> else b"
  obtain b1 where b1: "xsputn_loop ?p b = Some b1" "holds M (h @ ?p) b1" using xsputn_loop_holds [OF assms] by blast
  have "xsputn s b = Some (length s, ?u b1)"
    using b1(1) M by (auto simp: xsputn_def Let_def last_bytes_def)
  moreover have "holds M (h @ s) (?u b1) \<and> mSize (?u b1) = min M (length (h @ s))"
  proof (cases "length s > M")
    case True
    then have "mSize (?u b1) = M" using update_size_holds(2) [OF b1(2)] by (simp add: last_bytes_def)
    then show ?thesis using True holds_last [of M h s "?u b1"] update_size_holds(1) [OF b1(2)] by simp
  next
    case False
    then show ?thesis using update_size_holds [OF b1(2)] by simp
  qed
  ultimately show ?thesis by blast
qed

text \<open>A sequence of writes.\<close>

fun xsputn_all :: "bytes list \<Rightarrow> circular_streambuf \<Rightarrow> circular_streambuf option" where
  "xsputn_all [] b = Some b"
| "xsputn_all (s # ss) b = (case xsputn s b of None \<Rightarrow> None | Some (_, b1) \<Rightarrow> xsputn_all ss b1)"

lemma xsputn_all_holds:
  assumes "holds M h b" and "M > 0" and "mSize b = min M (length h)"
  shows "\<exists>b1. xsputn_all ss b = Some b1 \<and> holds M (h @ concat ss) b1 \<and> mSize b1 = min M (length (h @ concat ss))"
  using assms(1,3)
proof (induction ss arbitrary: h b)
  case (Cons s ss)
  obtain b1 where b1: "xsputn s b = Some (length s, b1)" "holds M (h @ s) b1" "mSize b1 = min M (length (h @ s))"
    using xsputn_holds [OF Cons.prems(1) assms(2)] by blast
  then show ?case using Cons.IH [of "h @ s" b1] by simp
qed simp

lemma holds_text:
  assumes "holds M h b" and "mSize b = min M (length h)"
  shows "circular_text b = last_bytes M h"
proof (cases "mSize b = M")
  case True
  then show ?thesis using assms(1) by (simp add: circular_text_def holds_def MaxSize_def)
next
  case False
  then have "pptr b = length h" "take (pptr b) (mBuffer b) = h" "length h \<le> M" using assms(1) unfolding holds_def by metis+
  then show ?thesis using assms(2) by (simp add: circular_text_def last_bytes_def)
qed

section \<open>Properties\<close>



text \<open>
  A character written on its own is not counted in the annotation, and is refused when the write position is at the end.
\<close>

lemma single_character_not_counted:
  "pptr b < MaxSize b \<Longrightarrow> annotation_size (snd (sputc ch b)) = annotation_size b \<and> mSize (snd (sputc ch b)) = mSize b"
  "pptr b = MaxSize b \<Longrightarrow> sputc ch b = (None, b)"
  by (simp_all add: sputc_def circular_overflow_def)

text \<open>The linear buffer keeps the first bytes.\<close>

lemma linear_buffer_keeps_first_bytes:
  assumes "length (lBuffer b) = M" and "lpptr b = min M (length h)" and "take (lpptr b) (lBuffer b) = take M h"
  shows "length (lBuffer (snd (linear_xsputn s b))) = M \<and> lpptr (snd (linear_xsputn s b)) = min M (length (h @ s)) \<and>
    take (lpptr (snd (linear_xsputn s b))) (lBuffer (snd (linear_xsputn s b))) = take M (h @ s)"
  using assms by (auto simp: linear_xsputn_def Let_def write_at_def min_def split: if_splits)

end
