(* ===== verification/Hang_Detector.thy ===== *)
theory Hang_Detector
  imports Prelude
begin

text \<open>
  \<^verbatim>\<open>HangDetector.cpp\<close>: a thread that schedules a task on every watched looper and reports a looper that does not run it
  in time.  Times are milliseconds of the high resolution clock; the clock's readings are arguments.  The mutex of a
  watcher is modelled by the number of unlocks for the one lock.
\<close>

section \<open>One looper\<close>

text \<open>\<open>task_scheduled\<close> is the looper's side of the task: whether it is queued.\<close>

record looper_watcher =
  mTask :: bool
  task_scheduled :: bool
  mIsTaskRunning :: bool
  mLastCheckTime :: int
  mTimeout :: int
  mhangCheckTimeout :: int
  mHangCount :: nat

definition kMaxHangCount :: nat where "kMaxHangCount = 2"

definition LooperWatcher :: "int \<Rightarrow> int \<Rightarrow> looper_watcher" where
  "LooperWatcher hangTimeout hangCheckTimeout =
     \<lparr>mTask = False, task_scheduled = False, mIsTaskRunning = False, mLastCheckTime = 0, mTimeout = hangTimeout,
      mhangCheckTimeout = hangCheckTimeout, mHangCount = 0\<rparr>"

definition startHangCheckLocked :: "int \<Rightarrow> looper_watcher \<Rightarrow> looper_watcher" where
  "startHangCheckLocked now w = w\<lparr>mTask := True, task_scheduled := True, mIsTaskRunning := True, mLastCheckTime := now\<rparr>"

definition startHangCheck :: "int \<Rightarrow> looper_watcher \<Rightarrow> looper_watcher" where
  "startHangCheck now w = startHangCheckLocked now w"

definition cancelHangCheck :: "int \<Rightarrow> looper_watcher \<Rightarrow> looper_watcher" where
  "cancelHangCheck now w =
     (if mTask w then w\<lparr>task_scheduled := False\<rparr> else w)\<lparr>mIsTaskRunning := False, mLastCheckTime := now\<rparr>"

definition taskComplete :: "looper_watcher \<Rightarrow> looper_watcher" where
  "taskComplete w = w\<lparr>mIsTaskRunning := False\<rparr>"

text \<open>The looper runs the task it has queued.\<close>

definition run_task :: "looper_watcher \<Rightarrow> looper_watcher" where
  "run_task w = (if task_scheduled w then taskComplete (w\<lparr>task_scheduled := False\<rparr>) else w)"

text \<open>The two readings of the clock, and whether there is a callback and no debugger.\<close>

record process_env =
  now_ms :: int
  restart_ms :: int
  has_callback :: bool
  debugger :: bool

record process_result =
  watcher :: looper_watcher
  reported :: bool
  unlocks :: nat

definition hanging :: "int \<Rightarrow> looper_watcher \<Rightarrow> bool" where
  "hanging now w \<longleftrightarrow> mLastCheckTime w + mTimeout w < now \<and> now < mLastCheckTime w + 2 * mTimeout w"

definition process :: "process_env \<Rightarrow> looper_watcher \<Rightarrow> process_result" where
  "process e w =
     (if mIsTaskRunning w
      then (if hanging (now_ms e) w
            then (let w1 = w\<lparr>mHangCount := mHangCount w + 1\<rparr>
                  in if mHangCount w1 \<ge> kMaxHangCount \<and> has_callback e \<and> \<not> debugger e
                     then \<lparr>watcher = w1, reported = True, unlocks = 2\<rparr>
                     else \<lparr>watcher = startHangCheckLocked (restart_ms e) w1, reported = False, unlocks = 2\<rparr>)
            else \<lparr>watcher = w, reported = False, unlocks = 1\<rparr>)
      else if now_ms e > mLastCheckTime w + mhangCheckTimeout w
      then \<lparr>watcher = startHangCheckLocked (restart_ms e) (w\<lparr>mHangCount := 0\<rparr>), reported = False, unlocks = 1\<rparr>
      else \<lparr>watcher = w, reported = False, unlocks = 1\<rparr>)"

section \<open>The detector\<close>

record hang_timing =
  hangLoopIterationTimeout :: int
  hangCheckTimeout :: int

definition defaultTiming :: hang_timing where
  "defaultTiming = \<lparr>hangLoopIterationTimeout = 5000, hangCheckTimeout = 15000\<rparr>"

text \<open>\<open>hang_reports\<close> has the messages handed to the callback: the index of the looper, or the text of a predicate.\<close>

record hang_detector =
  mLoopers :: "looper_watcher list"
  mPredicates :: "(nat \<times> bytes) list"
  mPaused :: int
  mStopping :: bool
  mTiming :: hang_timing
  hang_reports :: "(nat + bytes) list"

definition HangDetector_new :: "hang_timing \<Rightarrow> hang_detector" where
  "HangDetector_new timing = \<lparr>mLoopers = [], mPredicates = [], mPaused = 0, mStopping = False, mTiming = timing, hang_reports = []\<rparr>"

definition addWatchedLooper :: "int \<Rightarrow> int \<Rightarrow> hang_detector \<Rightarrow> hang_detector" where
  "addWatchedLooper now taskTimeout d =
     (let w = LooperWatcher taskTimeout (hangCheckTimeout (mTiming d))
      in d\<lparr>mLoopers := mLoopers d @ [if mPaused d = 0 \<and> \<not> mStopping d then startHangCheck now w else w]\<rparr>)"

definition pause :: "int \<Rightarrow> bool \<Rightarrow> hang_detector \<Rightarrow> hang_detector" where
  "pause now paused d =
     (let d1 = d\<lparr>mPaused := (if paused then mPaused d + 1 else mPaused d - 1)\<rparr>
      in if paused \<and> mPaused d1 = 1 then d1\<lparr>mLoopers := map (cancelHangCheck now) (mLoopers d1)\<rparr> else d1)"

definition stop :: "int \<Rightarrow> hang_detector \<Rightarrow> hang_detector" where
  "stop now d = d\<lparr>mLoopers := map (cancelHangCheck now) (mLoopers d), mStopping := True\<rparr>"

definition addPredicateCheck :: "nat \<times> bytes \<Rightarrow> hang_detector \<Rightarrow> hang_detector" where
  "addPredicateCheck p d = d\<lparr>mPredicates := mPredicates d @ [p]\<rparr>"

text \<open>The wait of the worker thread: when it goes on waiting, and until when.\<close>

definition keeps_waiting :: "int \<Rightarrow> int \<Rightarrow> hang_detector \<Rightarrow> bool" where
  "keeps_waiting now waitUntil d \<longleftrightarrow> \<not> mStopping d \<and> (now < waitUntil \<or> mPaused d \<noteq> 0)"

definition next_wait :: "int \<Rightarrow> int \<Rightarrow> int \<Rightarrow> hang_detector \<Rightarrow> int" where
  "next_wait nowUs now waitUntil d =
     (let waitedTooLongUs = waitUntil + hangLoopIterationTimeout (mTiming d)
      in if mPaused d \<noteq> 0 \<or> nowUs \<ge> waitedTooLongUs then now + hangLoopIterationTimeout (mTiming d) else waitUntil)"

text \<open>
  The rest of a round of the thread: \<open>None\<close> when it ends.  Every looper is processed with its own reading of the clock;
  \<open>holds_now\<close> evaluates a predicate.
\<close>

definition worker_round :: "(nat \<Rightarrow> process_env) \<Rightarrow> (nat \<Rightarrow> bool) \<Rightarrow> bool \<Rightarrow> bool \<Rightarrow> hang_detector \<Rightarrow> hang_detector option" where
  "worker_round env holds_now callback attached d =
     (if mStopping d then None
      else if mPaused d \<noteq> 0 then Some d
      else (let rs = map (\<lambda>(i, w). process ((env i)\<lparr>has_callback := callback, debugger := attached\<rparr>) w) (enumerate 0 (mLoopers d));
                looper_reports = map fst (filter (\<lambda>(i, r). reported r) (enumerate 0 rs));
                predicate_reports = (if callback \<and> \<not> attached then map snd (filter (\<lambda>(p, _). holds_now p) (mPredicates d)) else [])
            in Some (d\<lparr>mLoopers := map watcher rs, hang_reports := hang_reports d @ map Inl looper_reports @ map Inr predicate_reports\<rparr>)))"

section \<open>Histories of one looper\<close>

datatype watcher_event = Process process_env | RunTask int | CancelCheck int

fun event_time :: "watcher_event \<Rightarrow> int" where
  "event_time (Process e) = now_ms e"
| "event_time (RunTask t) = t"
| "event_time (CancelCheck t) = t"

text \<open>One event; the second component has the times at which the looper was reported.\<close>

fun watcher_event_step :: "watcher_event \<Rightarrow> looper_watcher \<times> int list \<Rightarrow> looper_watcher \<times> int list" where
  "watcher_event_step (Process e) (w, rs) = (watcher (process e w), rs @ (if reported (process e w) then [now_ms e] else []))"
| "watcher_event_step (RunTask t) (w, rs) = (run_task w, rs)"
| "watcher_event_step (CancelCheck t) (w, rs) = (cancelHangCheck t w, rs)"

text \<open>
  The times of a history do not go back, and a new check that an event starts begins after the event.
\<close>

fun timed :: "int \<Rightarrow> watcher_event list \<Rightarrow> bool" where
  "timed t [] \<longleftrightarrow> True"
| "timed t (Process e # es) \<longleftrightarrow> t \<le> now_ms e \<and> now_ms e \<le> restart_ms e \<and> timed (restart_ms e) es"
| "timed t (RunTask u # es) \<longleftrightarrow> t \<le> u \<and> timed u es"
| "timed t (CancelCheck u # es) \<longleftrightarrow> t \<le> u \<and> timed u es"

text \<open>The times at which the looper showed that it is alive, or checking was called off.\<close>

definition answers :: "watcher_event list \<Rightarrow> int list" where
  "answers es = map event_time (filter (\<lambda>e. case e of Process _ \<Rightarrow> False | _ \<Rightarrow> True) es)"

definition run_history :: "watcher_event list \<Rightarrow> looper_watcher \<Rightarrow> looper_watcher" where
  "run_history es w = fst (fold watcher_event_step es (w, []))"

definition alarms :: "watcher_event list \<Rightarrow> looper_watcher \<Rightarrow> int list" where
  "alarms es w = snd (fold watcher_event_step es (w, []))"

section \<open>The invariant\<close>

text \<open>
  While a check runs, the task is queued, and the last answer \<open>a\<close> came before the check began, by a whole timeout when the check
  is the second one or a later one.
\<close>

definition watch_inv :: "int \<Rightarrow> int \<Rightarrow> int \<Rightarrow> looper_watcher \<Rightarrow> bool" where
  "watch_inv T a t w \<longleftrightarrow> mTimeout w = T \<and> a \<le> t \<and> mLastCheckTime w \<le> t \<and>
     (mIsTaskRunning w \<longrightarrow> task_scheduled w \<and> a + (if mHangCount w \<ge> 1 then T else 0) \<le> mLastCheckTime w)"

lemma watch_inv_process:
  assumes "watch_inv T a t w" and "T \<ge> 0" and "t \<le> now_ms e" and "now_ms e \<le> restart_ms e"
  shows "watch_inv T a (restart_ms e) (watcher (process e w))"
    and "reported (process e w) \<Longrightarrow> a + 2 * T < now_ms e"
  using assms by (auto simp: watch_inv_def process_def hanging_def startHangCheckLocked_def kMaxHangCount_def Let_def split: if_splits)

lemma watch_inv_run: "watch_inv T a t w \<Longrightarrow> t \<le> u \<Longrightarrow> watch_inv T u u (run_task w)"
  by (auto simp: watch_inv_def run_task_def taskComplete_def)

lemma watch_inv_cancel: "watch_inv T a t w \<Longrightarrow> t \<le> u \<Longrightarrow> watch_inv T u u (cancelHangCheck u w)"
  by (auto simp: watch_inv_def cancelHangCheck_def)

lemma fold_step_append:
  "fold watcher_event_step es (w, rs) = (run_history es w, rs @ alarms es w)"
proof (induction es arbitrary: w rs)
  case (Cons e es)
  obtain w1 r1 where s: "watcher_event_step e (w, []) = (w1, r1)" by fastforce
  then have "watcher_event_step e (w, rs) = (w1, rs @ r1)" by (cases e) auto
  then show ?case using Cons [of w1 "rs @ r1"] Cons [of w1 r1] s by (simp add: run_history_def alarms_def)
qed (simp add: run_history_def alarms_def)

lemma alarms_Cons: "alarms (e # es) w = snd (watcher_event_step e (w, [])) @ alarms es (fst (watcher_event_step e (w, [])))"
  using fold_step_append [of es "fst (watcher_event_step e (w, []))" "snd (watcher_event_step e (w, []))"]
  by (simp add: alarms_def)

text \<open>
  An alarm is raised only after the last answer is more than twice the timeout in the past.
\<close>

lemma alarms_late:
  assumes "watch_inv T a t w" and "T \<ge> 0" and "timed t es" and "x \<in> set (alarms es w)"
  shows "a + 2 * T < x"
  using assms(1,3,4)
proof (induction es arbitrary: a t w)
  case (Cons e es)
  note prems = Cons.prems and IH = Cons.IH
  show ?case
  proof (cases e)
    case (Process p)
    then have t: "t \<le> now_ms p" "now_ms p \<le> restart_ms p" "timed (restart_ms p) es" using prems(2) by auto
    show ?thesis
      using IH [OF watch_inv_process(1) [OF prems(1) assms(2) t(1,2)] t(3)] watch_inv_process(2) [OF prems(1) assms(2) t(1,2)]
        prems(3) Process by (auto simp: alarms_Cons split: if_splits)
  next
    case (RunTask u)
    then have u: "t \<le> u" "timed u es" using prems(2) by auto
    have "u + 2 * T < x" using IH [OF watch_inv_run [OF prems(1) u(1)] u(2)] prems(3) RunTask by (simp add: alarms_Cons)
    then show ?thesis using u(1) prems(1) by (simp add: watch_inv_def)
  next
    case (CancelCheck u)
    then have u: "t \<le> u" "timed u es" using prems(2) by auto
    have "u + 2 * T < x" using IH [OF watch_inv_cancel [OF prems(1) u(1)] u(2)] prems(3) CancelCheck by (simp add: alarms_Cons)
    then show ?thesis using u(1) prems(1) by (simp add: watch_inv_def)
  qed
qed (simp add: alarms_def)

lemma history_inv:
  assumes "watch_inv T a t w" and "T \<ge> 0" and "timed t (es @ fs)"
  shows "\<exists>a1 t1. watch_inv T a1 t1 (run_history es w) \<and> timed t1 fs"
  using assms(1,3)
proof (induction es arbitrary: a t w)
  case (Cons e es)
  have r: "run_history (e # es) w = run_history es (fst (watcher_event_step e (w, [])))"
    using fold_step_append [of es "fst (watcher_event_step e (w, []))" "snd (watcher_event_step e (w, []))"] by (simp add: run_history_def)
  show ?case
  proof (cases e)
    case (Process p)
    then show ?thesis using Cons.IH [OF watch_inv_process(1) [OF Cons.prems(1) assms(2)], of p] Cons.prems(2) r by simp
  next
    case (RunTask u)
    then show ?thesis using Cons.IH [OF watch_inv_run [OF Cons.prems(1)], of u] Cons.prems(2) r by simp
  next
    case (CancelCheck u)
    then show ?thesis using Cons.IH [OF watch_inv_cancel [OF Cons.prems(1)], of u] Cons.prems(2) r by simp
  qed
qed (auto simp: run_history_def)

lemma new_watcher_inv: "watch_inv T t t (startHangCheck t (LooperWatcher T c))"
  by (simp add: watch_inv_def startHangCheck_def startHangCheckLocked_def LooperWatcher_def)

section \<open>Detection\<close>

definition check_at :: "int \<Rightarrow> watcher_event" where
  "check_at t = Process \<lparr>now_ms = t, restart_ms = t, has_callback = True, debugger = False\<rparr>"

fun gaps_at_most :: "int \<Rightarrow> int \<Rightarrow> int list \<Rightarrow> bool" where
  "gaps_at_most g t [] \<longleftrightarrow> True"
| "gaps_at_most g t (u # us) \<longleftrightarrow> t \<le> u \<and> u \<le> t + g \<and> gaps_at_most g u us"

lemma hang_detected:
  assumes "g < T" and "gaps_at_most g p ts" and "mIsTaskRunning w" and "mTimeout w = T" and "p \<le> mLastCheckTime w + T"
    and "n = (if mHangCount w \<ge> 1 then 1 else 2)" and "last (p # ts) > mLastCheckTime w + n * (T + g)"
    and "g \<ge> 0"
  shows "\<exists>x \<in> set (alarms (map check_at ts) w). x \<le> mLastCheckTime w + n * (T + g)"
  using assms(2-7)
proof (induction ts arbitrary: p w n)
  case Nil
  have "T + g \<le> n * (T + g)" using assms(1,8) Nil(5) by auto
  then show ?case using Nil(4,6) assms(8) by simp
next
  case (Cons t ts)
  let ?w1 = "fst (watcher_event_step (check_at t) (w, []))"
  note a = alarms_Cons [of "check_at t" "map check_at ts" w]
  show ?case
  proof (cases "t \<le> mLastCheckTime w + T")
    case True
    then have "watcher_event_step (check_at t) (w, []) = (w, [])" using Cons.prems(2,3) by (simp add: check_at_def process_def hanging_def)
    then show ?thesis using Cons.IH [of t w n] Cons.prems True a by simp
  next
    case False
    then have h: "hanging t w" using Cons.prems(1,3,4) assms(1) by (simp add: hanging_def)
    show ?thesis
    proof (cases "mHangCount w \<ge> 1")
      case True
      then have "watcher_event_step (check_at t) (w, []) = (w\<lparr>mHangCount := mHangCount w + 1\<rparr>, [t])"
        using Cons.prems(2) h by (simp add: check_at_def process_def kMaxHangCount_def Let_def)
      moreover have "t \<le> mLastCheckTime w + n * (T + g)" using Cons.prems(1,4,5) True by simp
      ultimately show ?thesis using a by simp
    next
      case k: False
      let ?w1 = "startHangCheckLocked t (w\<lparr>mHangCount := 1\<rparr>)"
      have "mHangCount w = 0" using k by simp
      then have "watcher_event_step (check_at t) (w, []) = (?w1, [])"
        using Cons.prems(2) h by (simp add: check_at_def process_def kMaxHangCount_def Let_def)
      moreover have t: "t \<le> mLastCheckTime w + (T + g)" using Cons.prems(1,4) by simp
      moreover have alarm: "\<exists>x \<in> set (alarms (map check_at ts) ?w1). x \<le> mLastCheckTime ?w1 + 1 * (T + g)"
      proof (rule Cons.IH [of t])
        show "mLastCheckTime ?w1 + 1 * (T + g) < last (t # ts)"
          using Cons.prems(5,6) k t by (simp add: startHangCheckLocked_def)
      qed (use Cons.prems assms(1,8) in \<open>auto simp: startHangCheckLocked_def\<close>)
      then obtain x where "x \<in> set (alarms (map check_at ts) ?w1)" "x \<le> t + (T + g)" by (auto simp: startHangCheckLocked_def)
      ultimately show ?thesis using a Cons.prems(5) k by (intro bexI [of _ x]) auto
    qed
  qed
qed

section \<open>Properties\<close>





text \<open>
  A check that is not looked at within twice the timeout, because the machine slept, is never reported however long the
  looper hangs afterwards; and reporting or repeating a check unlocks the watcher's mutex twice.
\<close>

lemma sleep_hides_hang:
  assumes "mIsTaskRunning w" and "\<forall>t \<in> set ts. t \<ge> mLastCheckTime w + 2 * mTimeout w"
  shows "alarms (map check_at ts) w = []"
proof -
  have "watcher_event_step (check_at t) (w, []) = (w, [])" if "t \<in> set ts" for t
  proof -
    have "\<not> hanging t w" using assms(2) that by (auto simp: hanging_def)
    then show ?thesis using assms(1) by (simp add: check_at_def process_def)
  qed
  then show ?thesis by (induction ts) (simp_all add: alarms_Cons, simp add: alarms_def)
qed

lemma hang_unlocks_twice: "mIsTaskRunning w \<Longrightarrow> hanging (now_ms e) w \<Longrightarrow> unlocks (process e w) = 2"
  by (simp add: process_def Let_def)

section \<open>The whole detector\<close>

inductive detector_step :: "hang_detector \<Rightarrow> hang_detector \<Rightarrow> bool" where
  AddLooper: "detector_step d (addWatchedLooper now timeout d)"
| AddPredicate: "detector_step d (addPredicateCheck p d)"
| Pause: "detector_step d (pause now True d)"
| Resume: "mPaused d > 0 \<Longrightarrow> detector_step d (pause now False d)"
| Stop: "detector_step d (stop now d)"
| Worker: "worker_round env holds_now callback attached d = Some d1 \<Longrightarrow> detector_step d d1"
| Looper: "i < length (mLoopers d) \<Longrightarrow> detector_step d (d\<lparr>mLoopers := (mLoopers d)[i := run_task (mLoopers d ! i)]\<rparr>)"

definition watcher_ok :: "bool \<Rightarrow> looper_watcher \<Rightarrow> bool" where
  "watcher_ok off w \<longleftrightarrow> (mIsTaskRunning w \<longrightarrow> task_scheduled w \<and> \<not> off) \<and> (task_scheduled w \<longrightarrow> mTask w \<and> mIsTaskRunning w)"

definition off :: "hang_detector \<Rightarrow> bool" where
  "off d \<longleftrightarrow> mPaused d > 0 \<or> mStopping d"

lemma watcher_ok_simps:
  "watcher_ok b (LooperWatcher t c)" "watcher_ok False (startHangCheckLocked now w)"
  "watcher_ok b w \<Longrightarrow> watcher_ok b' (cancelHangCheck now w)" "watcher_ok b w \<Longrightarrow> watcher_ok b (run_task w)"
  "watcher_ok b w \<Longrightarrow> b' \<longrightarrow> b \<Longrightarrow> watcher_ok b' w" "watcher_ok False w \<Longrightarrow> watcher_ok False (watcher (process e w))"
  by (auto simp: watcher_ok_def LooperWatcher_def startHangCheckLocked_def cancelHangCheck_def run_task_def taskComplete_def process_def Let_def)

text \<open>
  In every state that operations, loopers and the worker thread can bring about, provided that every resume follows a pause,
  a check is running exactly when its task is queued, and none is while the detector is paused or stopped.
\<close>

theorem paused_detector_checks_nothing:
  assumes "detector_step\<^sup>*\<^sup>* (HangDetector_new timing) d"
  shows "mPaused d \<ge> 0 \<and> (\<forall>w \<in> set (mLoopers d). (mIsTaskRunning w \<longleftrightarrow> task_scheduled w) \<and> (off d \<longrightarrow> \<not> mIsTaskRunning w))"
proof -
  have "mPaused d \<ge> 0 \<and> (\<forall>w \<in> set (mLoopers d). watcher_ok (off d) w)"
    using assms
  proof induction
    case base
    then show ?case by (simp add: HangDetector_new_def)
  next
    case (step d1 d2)
    then have ok: "mPaused d1 \<ge> 0" "\<forall>w \<in> set (mLoopers d1). watcher_ok (off d1) w" by auto
    from step.hyps(2) show ?case
    proof cases
      case (AddLooper now timeout)
      then show ?thesis using ok watcher_ok_simps(1,2) by (auto simp: addWatchedLooper_def startHangCheck_def off_def Let_def split: if_splits)
    next
      case (Pause now)
      show ?thesis
      proof (cases "mPaused d1 = 0")
        case True
        then show ?thesis using Pause ok watcher_ok_simps(3) by (fastforce simp: pause_def Let_def)
      next
        case False
        then have "off d1" using ok(1) by (simp add: off_def)
        then show ?thesis using Pause False ok by (auto simp: pause_def watcher_ok_def off_def Let_def)
      qed
    next
      case (Resume now)
      then show ?thesis using ok watcher_ok_simps(5) [of True _ "off d2"] by (auto simp: pause_def off_def Let_def)
    next
      case (Stop now)
      then show ?thesis using ok watcher_ok_simps(3) by (fastforce simp: stop_def)
    next
      case (Worker env holds_now callback attached)
      show ?thesis
      proof (cases "mPaused d1 = 0")
        case True
        then have "off d1 = False" using Worker by (auto simp: off_def worker_round_def split: if_splits)
        then show ?thesis using Worker True ok watcher_ok_simps(6)
          by (auto simp: worker_round_def Let_def off_def in_set_enumerate_eq split: if_splits)
      next
        case False
        then show ?thesis using Worker ok by (auto simp: worker_round_def split: if_splits)
      qed
    next
      case (Looper i)
      then show ?thesis using ok watcher_ok_simps(4) by (auto simp: off_def dest!: set_update_subset_insert [THEN subsetD])
    qed (use ok in \<open>auto simp: addPredicateCheck_def off_def\<close>)
  qed
  then show ?thesis by (auto simp: watcher_ok_def)
qed

lemma paused_detector_checks_nothing_witness:
  "\<not> mIsTaskRunning (mLoopers (pause 7 True (addWatchedLooper 0 15000 (HangDetector_new defaultTiming))) ! 0)"
proof -
  have "detector_step\<^sup>*\<^sup>* (HangDetector_new defaultTiming) (pause 7 True (addWatchedLooper 0 15000 (HangDetector_new defaultTiming)))"
    by (meson AddLooper Pause converse_rtranclp_into_rtranclp rtranclp.rtrancl_refl)
  from paused_detector_checks_nothing [OF this] show ?thesis
    by (auto simp: pause_def addWatchedLooper_def HangDetector_new_def off_def Let_def)
qed

end
