(* ===== verification/Storage_Capacity.thy ===== *)
theory Storage_Capacity
  imports Text
begin

text \<open>
  \<^verbatim>\<open>storage_capacity.h\<close> and \<^verbatim>\<open>storage_capacity.cpp\<close>: sizes in bytes with their order, their arithmetic, which wraps
  around at 64 bits, alignment, and the reader of sizes with a unit.  The printed form goes through floating point numbers
  and is not modelled.
\<close>

section \<open>Sizes\<close>

datatype StorageCapacity = StorageCapacity (bytes_of: u64)

datatype capacity_unit = B | KiB | MiB | GiB | TiB

fun StorageCapacity_unit :: "u64 \<Rightarrow> capacity_unit \<Rightarrow> StorageCapacity" where
  "StorageCapacity_unit n B = StorageCapacity n"
| "StorageCapacity_unit n KiB = StorageCapacity (n * 1024)"
| "StorageCapacity_unit n MiB = StorageCapacity (n * 1024 * 1024)"
| "StorageCapacity_unit n GiB = StorageCapacity (n * 1024 * 1024 * 1024)"
| "StorageCapacity_unit n TiB = StorageCapacity (n * 1024 * 1024 * 1024 * 1024)"

definition capacity_le :: "StorageCapacity \<Rightarrow> StorageCapacity \<Rightarrow> bool" where
  "capacity_le a b \<longleftrightarrow> bytes_of a \<le> bytes_of b"

definition capacity_less :: "StorageCapacity \<Rightarrow> StorageCapacity \<Rightarrow> bool" where
  "capacity_less a b \<longleftrightarrow> bytes_of a < bytes_of b"

text \<open>The comparison operators make sizes a linear order.\<close>

instantiation StorageCapacity :: linorder
begin

definition less_eq_StorageCapacity :: "StorageCapacity \<Rightarrow> StorageCapacity \<Rightarrow> bool" where
  "less_eq_StorageCapacity = capacity_le"

definition less_StorageCapacity :: "StorageCapacity \<Rightarrow> StorageCapacity \<Rightarrow> bool" where
  "less_StorageCapacity = capacity_less"

instance
  by standard (auto simp: less_eq_StorageCapacity_def less_StorageCapacity_def capacity_le_def capacity_less_def
      intro: StorageCapacity.expand)

end

definition capacity_plus :: "StorageCapacity \<Rightarrow> StorageCapacity \<Rightarrow> StorageCapacity" where
  "capacity_plus a b = StorageCapacity (bytes_of a + bytes_of b)"

definition capacity_minus :: "StorageCapacity \<Rightarrow> StorageCapacity \<Rightarrow> StorageCapacity" where
  "capacity_minus a b = StorageCapacity (bytes_of a - bytes_of b)"

definition capacity_times :: "StorageCapacity \<Rightarrow> u64 \<Rightarrow> StorageCapacity" where
  "capacity_times a scalar = StorageCapacity (bytes_of a * scalar)"

definition capacity_to_int :: "StorageCapacity \<Rightarrow> u32" where
  "capacity_to_int a = ucast (bytes_of a)"

text \<open>\<open>None\<close> for a division by zero.\<close>

definition align :: "StorageCapacity \<Rightarrow> StorageCapacity \<Rightarrow> StorageCapacity option" where
  "align a al =
     (if bytes_of al = 0 then None
      else Some (StorageCapacity ((bytes_of a + bytes_of al - 1) div bytes_of al * bytes_of al)))"

section \<open>Reading\<close>

datatype capacity_error = InvalidNumber | NumberOutOfRange | UnknownLabel

text \<open>\<^verbatim>\<open>std::from_chars\<close> for an unsigned 64-bit number in base 10: no sign, no white space.\<close>

definition from_chars :: "bytes \<Rightarrow> capacity_error + (u64 \<times> bytes)" where
  "from_chars s =
     (let ds = takeWhile isdigit s
      in if ds = [] then Inl InvalidNumber
         else if digits_value ds \<ge> 2 ^ 64 then Inl NumberOutOfRange
         else Inr (of_nat (digits_value ds), dropWhile isdigit s))"

definition parseFromString :: "bytes \<Rightarrow> capacity_error + u64" where
  "parseFromString str =
     (case from_chars str of
        Inl e \<Rightarrow> Inl e
      | Inr (result, ptr) \<Rightarrow>
          if ptr = [] then Inr result
          else if hd ptr \<in> {0x6B, 0x4B} then Inr (result * 1024)
          else if hd ptr \<in> {0x6D, 0x4D} then Inr (result * (1024 * 1024))
          else if hd ptr \<in> {0x67, 0x47} then Inr (result * (1024 * 1024 * 1024))
          else if hd ptr \<in> {0x74, 0x54} then Inr (result * (1024 * 1024 * 1024 * 1024))
          else Inl UnknownLabel)"

definition StorageCapacity_parse :: "bytes \<Rightarrow> capacity_error + StorageCapacity" where
  "StorageCapacity_parse str = map_sum id StorageCapacity (parseFromString str)"

section \<open>Properties\<close>

definition unit_label :: "capacity_unit \<Rightarrow> bytes" where
  "unit_label u = (case u of B \<Rightarrow> [] | KiB \<Rightarrow> asc ''K'' | MiB \<Rightarrow> asc ''M'' | GiB \<Rightarrow> asc ''G'' | TiB \<Rightarrow> asc ''T'')"

definition unit_factor :: "capacity_unit \<Rightarrow> nat" where
  "unit_factor u = (case u of B \<Rightarrow> 1 | KiB \<Rightarrow> 1024 | MiB \<Rightarrow> 1024 ^ 2 | GiB \<Rightarrow> 1024 ^ 3 | TiB \<Rightarrow> 1024 ^ 4)"

lemma from_chars_printed:
  assumes "n < 2 ^ 64" and "rest = [] \<or> \<not> isdigit (hd rest)"
  shows "from_chars (dec_digits n @ rest) = Inr (of_nat n, rest)"
proof -
  have "takeWhile isdigit (dec_digits n @ rest) = dec_digits n" "dropWhile isdigit (dec_digits n @ rest) = rest"
    using assms(2) dec_digits_isdigit by (cases rest; simp add: takeWhile_append dropWhile_append)+
  then show ?thesis using assms(1) by (simp add: from_chars_def)
qed

text \<open>
  A size printed as a number and the letter of a unit is read back as the size in that unit, which is the exact product when it
  fits 64 bits, and is reduced modulo 2^64 without notice when it does not.
\<close>

theorem storage_capacity_roundtrip:
  assumes "n < 2 ^ 64"
  shows "StorageCapacity_parse (dec_digits n @ unit_label u) = Inr (StorageCapacity_unit (of_nat n) u) \<and>
    unat (bytes_of (StorageCapacity_unit (of_nat n) u)) = n * unit_factor u mod 2 ^ 64"
proof
  have "unit_label u = [] \<or> \<not> isdigit (hd (unit_label u))" by (cases u) (simp_all add: unit_label_def asc_def isdigit_def)
  from from_chars_printed [OF assms this]
  show "StorageCapacity_parse (dec_digits n @ unit_label u) = Inr (StorageCapacity_unit (of_nat n) u)"
    by (cases u) (simp_all add: StorageCapacity_parse_def parseFromString_def unit_label_def asc_def mult.assoc)
  show "unat (bytes_of (StorageCapacity_unit (of_nat n) u)) = n * unit_factor u mod 2 ^ 64"
  proof -
    have "bytes_of (StorageCapacity_unit (of_nat n) u) = of_nat (n * unit_factor u)"
      by (cases u) (simp_all add: unit_factor_def mult.assoc)
    then show ?thesis by (simp only: unat_of_nat take_bit_eq_mod) simp
  qed
qed

lemma storage_capacity_roundtrip_witness: "StorageCapacity_parse (dec_digits 512 @ unit_label MiB) = Inr (StorageCapacity 536870912)"
  using storage_capacity_roundtrip [of 512 MiB] by simp

text \<open>Alignment gives the least multiple of the alignment that is not smaller, when that fits 64 bits.\<close>

theorem storage_capacity_align:
  assumes "bytes_of al \<noteq> 0" and "unat (bytes_of a) + unat (bytes_of al) \<le> 2 ^ 64"
  shows "\<exists>b. align a al = Some b \<and> a \<le> b \<and> unat (bytes_of al) dvd unat (bytes_of b) \<and>
    (\<forall>c. a \<le> c \<and> unat (bytes_of al) dvd unat (bytes_of c) \<longrightarrow> b \<le> c)"
proof -
  let ?x = "unat (bytes_of a)" and ?m = "unat (bytes_of al)"
  let ?y = "(?x + ?m - 1) div ?m * ?m"
  have m: "?m > 0" using assms(1) by (simp add: unat_gt_0)
  have "bytes_of a + bytes_of al - 1 = of_nat (?x + ?m - 1)" using m by (simp add: of_nat_diff)
  then have s: "unat (bytes_of a + bytes_of al - 1) = ?x + ?m - 1"
    using assms(2) m by (simp only: unat_of_nat take_bit_eq_mod) simp
  have "?x + ?m - 1 < 2 ^ 64" using assms(2) m by simp
  with div_times_less_eq_dividend have y: "?y < 2 ^ 64" by (rule le_less_trans)
  have d: "unat ((bytes_of a + bytes_of al - 1) div bytes_of al) = (?x + ?m - 1) div ?m" by (simp only: unat_div s)
  then have "unat ((bytes_of a + bytes_of al - 1) div bytes_of al) * ?m < 2 ^ LENGTH(64)" using y by simp
  then have b: "unat ((bytes_of a + bytes_of al - 1) div bytes_of al * bytes_of al) = ?y"
    using d unat_mult_lem [THEN iffD1] by metis
  have up: "?x \<le> ?y" using div_mult_mod_eq [of "?x + ?m - 1" ?m] mod_less_divisor [OF m, of "?x + ?m - 1"] by linarith
  have least: "?y \<le> k * ?m" if "?x \<le> k * ?m" for k
  proof -
    have "?x + ?m - 1 < (k + 1) * ?m" using that m by simp
    then have "(?x + ?m - 1) div ?m < k + 1" by (rule less_mult_imp_div_less)
    then have "(?x + ?m - 1) div ?m \<le> k" by (simp only: Suc_eq_plus1 [symmetric] less_Suc_eq_le)
    then show ?thesis by simp
  qed
  show ?thesis using assms(1) b up least
    by (auto simp: align_def less_eq_StorageCapacity_def capacity_le_def word_le_nat_alt dvd_def mult.commute)
qed

lemma storage_capacity_align_witness: "\<exists>b. align (StorageCapacity 5000) (StorageCapacity 4096) = Some b \<and> StorageCapacity 5000 \<le> b"
  using storage_capacity_align [of "StorageCapacity 4096" "StorageCapacity 5000"] by auto

end
