(* ===== verification/Paths.thy ===== *)
theory Paths
  imports Prelude
begin

text \<open>
  The path functions of \<^verbatim>\<open>path.cpp\<close>, as they are on POSIX systems: parents, escaping, the search for programs and the
  creation of directories.  A string is the list of its bytes before the terminating zero; a pointer into it is the part of
  the string before it.
\<close>

section \<open>Parents\<close>

definition ispathsep :: "u8 \<Rightarrow> bool" where
  "ispathsep c \<longleftrightarrow> c = 0x2F"

definition trim_separators :: "bytes \<Rightarrow> bytes" where
  "trim_separators p = rev (dropWhile ispathsep (rev p))"

text \<open>The part up to the last separator, and the name after it.\<close>

definition up_to_base :: "bytes \<Rightarrow> bytes" where
  "up_to_base p = rev (dropWhile (\<lambda>c. \<not> ispathsep c) (rev p))"

definition base_name :: "bytes \<Rightarrow> bytes" where
  "base_name p = rev (takeWhile (\<lambda>c. \<not> ispathsep c) (rev p))"

lemma length_up_to_base: "length (up_to_base p) \<le> length p"
  by (simp add: up_to_base_def length_dropWhile_le [of _ "rev p", simplified])

lemma length_trim_separators: "length (trim_separators p) \<le> length p"
  by (simp add: trim_separators_def length_dropWhile_le [of _ "rev p", simplified])

function path_parent_loop :: "bytes \<Rightarrow> nat \<Rightarrow> bytes option" where
  "path_parent_loop p levels =
     (if levels = 0 then Some p
      else (let q = trim_separators p; base = up_to_base q; name = base_name q
            in if base = [] then (if name = asc ''.'' \<and> levels = 1 then Some (asc ''..'') else None)
               else path_parent_loop (butlast base)
                      (if name = asc ''.'' then levels else if name = asc ''..'' then levels + 1 else levels - 1)))"
  by auto
termination
proof (relation "measure (\<lambda>(p, _). length p)", goal_cases)
  case (2 p levels q base name)
  then have "length base \<le> length p" using length_up_to_base [of q] length_trim_separators [of p] by simp
  moreover have "base \<noteq> []" using 2 by simp
  ultimately show ?case by (cases base) auto
qed simp

declare path_parent_loop.simps [simp del]

definition path_parent :: "bytes \<Rightarrow> int \<Rightarrow> bytes option" where
  "path_parent path levels = path_parent_loop path (nat levels)"

section \<open>Escaping\<close>

fun path_escape_path :: "bytes \<Rightarrow> bytes" where
  "path_escape_path [] = []"
| "path_escape_path (c # src) =
     (if c = 0x3D then asc ''%E'' else if c = 0x2C then asc ''%C'' else if c = 0x25 then asc ''%P'' else [c]) @ path_escape_path src"

function path_unescape_path :: "bytes \<Rightarrow> bytes" where
  "path_unescape_path [] = []"
| "c \<noteq> 0x25 \<Longrightarrow> path_unescape_path (c # src) = c # path_unescape_path src"
| "path_unescape_path (0x25 # src) =
     (case src of
        [] \<Rightarrow> []
      | d # src' \<Rightarrow>
          if d = 0x43 then 0x2C # path_unescape_path src'
          else if d = 0x45 then 0x3D # path_unescape_path src'
          else if d = 0x50 then 0x25 # path_unescape_path src'
          else path_unescape_path src)"
  by (auto, metis list.exhaust)
termination by (relation "measure length") auto

section \<open>Searching for a program\<close>

definition PATH_MAX :: nat where "PATH_MAX = 4096"

text \<open>
  The loop over the entries of the search path.  \<^verbatim>\<open>snprintf\<close> cuts a name that does not fit the buffer.
\<close>

function search_path :: "(bytes \<Rightarrow> bool) \<Rightarrow> bytes \<Rightarrow> bytes \<Rightarrow> bytes option" where
  "search_path runs filename p =
     (if p = [] then None
      else (let item = takeWhile (\<lambda>c. c \<noteq> 0x3A) p; temp = take (PATH_MAX - 1) (item @ [0x2F] @ filename)
            in if item \<noteq> [] \<and> runs temp then Some temp
               else search_path runs filename (tl (dropWhile (\<lambda>c. c \<noteq> 0x3A) p))))"
  by auto
termination
proof (relation "measure (\<lambda>(_, _, p). length p)", goal_cases)
  case (2 runs filename p)
  have "length (tl (dropWhile (\<lambda>c. c \<noteq> 0x3A) p)) \<le> length p - 1"
    using length_dropWhile_le [of "\<lambda>c. c \<noteq> 0x3A" p] by simp
  then show ?case using 2 by (cases p) (auto simp: less_Suc_eq_le)
qed simp

declare search_path.simps [simp del]

definition path_search_exec :: "(bytes \<Rightarrow> bool) \<Rightarrow> (bytes \<Rightarrow> bool) \<Rightarrow> bytes option \<Rightarrow> bytes \<Rightarrow> bytes option" where
  "path_search_exec exists can_exec sysPath filename =
     (if 0x2F \<in> set filename then (if exists filename then Some filename else None)
      else (case sysPath of
              None \<Rightarrow> None
            | Some p \<Rightarrow> search_path (\<lambda>t. exists t \<and> can_exec t) filename p))"

section \<open>Creating directories\<close>

text \<open>
  \<open>mkdir\<close> is the system call: it fails when its parent is missing or for a reason of its own, and creates the directory
  otherwise.  The file system is the set of paths that exist, without trailing separators.
\<close>

record mkdir_env =
  mkdir_refused :: "bytes \<Rightarrow> bool"

type_synonym path_set = "bytes set"

definition exists_in :: "path_set \<Rightarrow> bytes \<Rightarrow> bool" where
  "exists_in fs p \<longleftrightarrow> trim_separators p \<in> fs \<or> p \<noteq> [] \<and> trim_separators p = []"

definition parent_dir :: "bytes \<Rightarrow> bytes" where
  "parent_dir p = up_to_base p"

text \<open>The result is 0, the error number of \<^verbatim>\<open>ENOENT\<close>, or another error number.\<close>

definition ENOENT :: int where "ENOENT = 2"
definition EACCES :: int where "EACCES = 13"
definition EEXIST :: int where "EEXIST = 17"

definition path_android_mkdir :: "mkdir_env \<Rightarrow> bytes \<Rightarrow> path_set \<Rightarrow> int \<times> path_set" where
  "path_android_mkdir E p fs =
     (let q = trim_separators p
      in if p = [] then (ENOENT, fs)
         else if exists_in fs p then (EEXIST, fs)
         else if parent_dir q \<noteq> [] \<and> \<not> exists_in fs (parent_dir q) then (ENOENT, fs)
         else if mkdir_refused E q then (EACCES, fs)
         else (0, insert q fs))"

lemma up_to_base_shorter: "trim_separators p \<noteq> [] \<Longrightarrow> length (up_to_base (trim_separators p)) < length p"
proof -
  assume "trim_separators p \<noteq> []"
  then have t: "rev (trim_separators p) = dropWhile ispathsep (rev p)" "dropWhile ispathsep (rev p) \<noteq> []"
    by (simp_all add: trim_separators_def)
  then have "\<not> ispathsep (hd (dropWhile ispathsep (rev p)))" using hd_dropWhile by blast
  then have "length (dropWhile (\<lambda>c. \<not> ispathsep c) (rev (trim_separators p))) < length (rev (trim_separators p))"
    unfolding t(1) using t(2) by (cases "dropWhile ispathsep (rev p)") (auto simp: less_Suc_eq_le length_dropWhile_le)
  then show ?thesis using length_trim_separators [of p] by (simp add: up_to_base_def)
qed

function path_mkdir_recursive :: "mkdir_env \<Rightarrow> bytes \<Rightarrow> path_set \<Rightarrow> int \<times> path_set" where
  "path_mkdir_recursive E path fs =
     (let p = trim_separators path; parent = up_to_base p
      in if p = [] then (ENOENT, fs)
         else if parent \<noteq> [] \<and> \<not> exists_in fs parent
         then (case path_mkdir_recursive E parent fs of
                 (ret, fs1) \<Rightarrow> if ret \<noteq> 0 then (ret, fs1) else path_android_mkdir E p fs1)
         else path_android_mkdir E p fs)"
  by auto
termination
  by (relation "measure (\<lambda>(_, p, _). length p)") (auto simp: up_to_base_shorter)

declare path_mkdir_recursive.simps [simp del]

definition MAX_PATH :: nat where "MAX_PATH = 4096"
definition EINVAL :: int where "EINVAL = 22"

definition path_mkdir_if_needed :: "mkdir_env \<Rightarrow> bytes \<Rightarrow> path_set \<Rightarrow> int \<times> path_set" where
  "path_mkdir_if_needed E path fs =
     (if exists_in fs path then (0, fs)
      else (case path_android_mkdir E path fs of
              (ret, fs1) \<Rightarrow>
                if ret = ENOENT
                then (if length path > MAX_PATH - 1 then (EINVAL, fs1) else path_mkdir_recursive E path fs1)
                else (ret, fs1)))"

section \<open>Escaping is invertible\<close>

text \<open>
  A path that is escaped has no character that separates QEMU's options, and unescaping gives the path back.
\<close>

theorem path_escape_roundtrip:
  "path_unescape_path (path_escape_path p) = p \<and> 0x2C \<notin> set (path_escape_path p) \<and> 0x3D \<notin> set (path_escape_path p) \<and>
    length (path_escape_path p) \<le> 2 * length p"
  by (induction p) (auto simp: asc_def)

section \<open>Parents of components\<close>

text \<open>The reference: names joined by separators, and the number of levels to go up, from the last name on.\<close>

fun join_names :: "bytes list \<Rightarrow> bytes" where
  "join_names [] = []"
| "join_names [c] = c"
| "join_names (c # cs) = c @ [0x2F] @ join_names cs"

fun go_up :: "nat \<Rightarrow> bytes list \<Rightarrow> bytes option" where
  "go_up 0 cs = Some (join_names (rev cs))"
| "go_up (Suc n) [] = None"
| "go_up (Suc n) [c] = (if c = asc ''.'' \<and> n = 0 then Some (asc ''..'') else None)"
| "go_up (Suc n) (c # cs) = go_up (if c = asc ''.'' then Suc n else if c = asc ''..'' then Suc (Suc n) else n) cs"

lemma join_names_snoc: "cs \<noteq> [] \<Longrightarrow> join_names (cs @ [c]) = join_names cs @ [0x2F] @ c"
  by (induction cs rule: join_names.induct) auto

lemma last_name:
  assumes "\<forall>x \<in> set c. \<not> ispathsep x" and "c \<noteq> []"
  shows "trim_separators (p @ c) = p @ c" and "up_to_base (p @ [0x2F] @ c) = p @ [0x2F]" and "base_name (p @ [0x2F] @ c) = c"
    and "up_to_base c = []" and "base_name c = c"
proof -
  have r: "\<forall>x \<in> set (rev c). \<not> ispathsep x" using assms(1) by simp
  show "trim_separators (p @ c) = p @ c" using assms by (cases c rule: rev_cases) (auto simp: trim_separators_def)
  show "up_to_base (p @ [0x2F] @ c) = p @ [0x2F]" "base_name (p @ [0x2F] @ c) = c" "up_to_base c = []"
    using r by (simp_all add: up_to_base_def base_name_def dropWhile_append takeWhile_append ispathsep_def)
  have "takeWhile (\<lambda>c. \<not> ispathsep c) (rev c) = rev c" using r by (simp only: takeWhile_eq_all_conv)
  then show "base_name c = c" by (simp only: base_name_def rev_rev_ident)
qed

text \<open>
  Going up on the text of a path is going up on its names: a name takes one level, a dot none, two dots one more; a path that
  has not enough names has no parent, but for the parent of a single dot.
\<close>

theorem path_parent_is_reference:
  assumes "\<forall>c \<in> set cs. c \<noteq> [] \<and> 0x2F \<notin> set c" and "cs \<noteq> []"
  shows "path_parent (join_names cs) levels = go_up (nat levels) (rev cs)"
proof -
  have "path_parent_loop (join_names cs) n = go_up n (rev cs)" for n
    using assms
  proof (induction cs arbitrary: n rule: rev_induct)
    case (snoc c cs)
    have c: "c \<noteq> []" "\<forall>x \<in> set c. \<not> ispathsep x" using snoc.prems by (auto simp: ispathsep_def)
    show ?case
    proof (cases n)
      case 0
      then show ?thesis by (simp add: path_parent_loop.simps)
    next
      case (Suc m)
      show ?thesis
      proof (cases "cs = []")
        case True
        then show ?thesis using Suc last_name(1) [OF c(2,1), of "[]"] last_name(4,5) [OF c(2,1)] by (subst path_parent_loop.simps) simp
      next
        case False
        note j = join_names_snoc [OF False, of c]
        have "path_parent_loop (join_names (cs @ [c])) (Suc m) = path_parent_loop (join_names cs)
            (if c = asc ''.'' then Suc m else if c = asc ''..'' then Suc (Suc m) else m)"
          using last_name(1) [OF c(2,1), of "join_names cs @ [0x2F]"] last_name(2,3) [OF c(2,1), of "join_names cs"]
          unfolding j by (subst path_parent_loop.simps) (simp add: butlast_append)
        moreover obtain d ds where "rev cs = d # ds" using False by (cases "rev cs") auto
        moreover have "path_parent_loop (join_names cs) k = go_up k (rev cs)" for k using snoc.IH snoc.prems False by simp
        ultimately show ?thesis using Suc by simp
      qed
    qed
  qed simp
  then show ?thesis by (simp add: path_parent_def)
qed

lemma path_parent_is_reference_witness: "path_parent (asc ''a/b/../c'') 1 = Some (asc ''a/b/..'')"
proof -
  have "join_names [asc ''a'', asc ''b'', asc ''..'', asc ''c''] = asc ''a/b/../c''" by code_simp
  then show ?thesis using path_parent_is_reference [of "[asc ''a'', asc ''b'', asc ''..'', asc ''c'']" 1] by (simp add: asc_def)
qed

text \<open>The parent of a directory of the root is the empty string, not the root.\<close>

lemma path_parent_of_root_entry: "path_parent (asc ''/a'') 1 = Some []"
proof -
  have "trim_separators (asc ''/a'') = asc ''/a''" "up_to_base (asc ''/a'') = asc ''/''" "base_name (asc ''/a'') = asc ''a''"
    by (code_simp)+
  then show ?thesis by (simp add: path_parent_def path_parent_loop.simps asc_def)
qed

section \<open>Directories\<close>

lemma trim_idem [simp]: "trim_separators (trim_separators p) = trim_separators p"
  by (simp add: trim_separators_def)

lemma exists_in_mono: "exists_in fs p \<Longrightarrow> fs \<subseteq> fs1 \<Longrightarrow> exists_in fs1 p"
  by (auto simp: exists_in_def)

lemma mkdir_recursive_creates:
  assumes "\<forall>q. \<not> mkdir_refused E q" and "trim_separators path \<noteq> []" and "\<not> exists_in fs path"
  shows "\<exists>new. path_mkdir_recursive E path fs = (0, fs \<union> new) \<and> trim_separators path \<in> new \<and>
    (\<forall>q \<in> new. length q \<le> length (trim_separators path))"
  using assms
proof (induction E path fs rule: path_mkdir_recursive.induct)
  case (1 E path fs)
  let ?p = "trim_separators path"
  let ?q = "up_to_base ?p"
  have mk: "path_android_mkdir E ?p fs1 = (0, insert ?p fs1)" if "?p \<notin> fs1" "?q = [] \<or> exists_in fs1 ?q" for fs1
    using that 1(2,3) by (auto simp: path_android_mkdir_def exists_in_def parent_dir_def Let_def)
  have p: "?p \<notin> fs" using 1(3,4) by (simp add: exists_in_def)
  show ?case
  proof (cases "?q \<noteq> [] \<and> \<not> exists_in fs ?q")
    case True
    then have "trim_separators ?q \<noteq> []" by (auto simp: exists_in_def)
    then obtain new where new: "path_mkdir_recursive E ?q fs = (0, fs \<union> new)" "trim_separators ?q \<in> new"
        "\<forall>r \<in> new. length r \<le> length (trim_separators ?q)"
      using 1(1) [OF refl refl 1(3) True 1(2)] True by blast
    have short: "length (trim_separators ?q) < length ?p"
      using length_trim_separators [of ?q] up_to_base_shorter [of ?p] 1(3) by simp
    then have "?p \<notin> fs \<union> new" using p new(3) by auto
    moreover have "exists_in (fs \<union> new) ?q" using new(2) by (simp add: exists_in_def)
    ultimately have "path_mkdir_recursive E path fs = (0, fs \<union> insert ?p new)"
      using mk new(1) True 1(3) by (subst path_mkdir_recursive.simps) (simp add: Let_def)
    then show ?thesis using new(3) short by (intro exI [of _ "insert ?p new"]) auto
  next
    case False
    then have "path_mkdir_recursive E path fs = (0, fs \<union> {?p})"
      using mk [OF p] 1(3) by (subst path_mkdir_recursive.simps) (auto simp: Let_def)
    then show ?thesis by auto
  qed
qed

text \<open>
  Where nothing is refused, making a directory creates it with all its missing parents, whatever is missing, and removes
  nothing; a directory that exists is left alone.
\<close>

theorem mkdir_creates_parents:
  assumes "\<forall>q. \<not> mkdir_refused E q" and "trim_separators path \<noteq> []" and "length path < MAX_PATH"
  shows "\<exists>fs1. path_mkdir_if_needed E path fs = (0, fs1) \<and> exists_in fs1 path \<and> fs \<subseteq> fs1 \<and> (exists_in fs path \<longrightarrow> fs1 = fs)"
proof (cases "exists_in fs path")
  case True
  then show ?thesis by (simp add: path_mkdir_if_needed_def)
next
  case False
  obtain new where new: "path_mkdir_recursive E path fs = (0, fs \<union> new)" "trim_separators path \<in> new"
    using mkdir_recursive_creates [OF assms(1,2) False] by blast
  have "path_android_mkdir E path fs = (ENOENT, fs) \<or> path_android_mkdir E path fs = (0, insert (trim_separators path) fs)"
    using assms(1,2) False by (auto simp: path_android_mkdir_def Let_def)
  then show ?thesis using False assms(3) new by (auto simp: path_mkdir_if_needed_def exists_in_def ENOENT_def)
qed

lemma mkdir_creates_parents_witness:
  "\<exists>fs1. path_mkdir_if_needed \<lparr>mkdir_refused = \<lambda>_. False\<rparr> (asc ''a/b/c'') {asc ''a''} = (0, fs1) \<and> exists_in fs1 (asc ''a/b/c'')"
  using mkdir_creates_parents [of "\<lparr>mkdir_refused = \<lambda>_. False\<rparr>" "asc ''a/b/c''" "{asc ''a''}"]
  by (auto simp: trim_separators_def asc_def MAX_PATH_def ispathsep_def)

end
