(* ===== verification/Ext4_Groups.thy ===== *)
theory Ext4_Groups
  imports Prelude
begin

text \<open>
  The writer of ext4 images: the parameters of a file system (\<^verbatim>\<open>make_ext4fs.c\<close>, \<^verbatim>\<open>ext4_utils.c\<close>) and its block groups with
  their bitmaps (\<^verbatim>\<open>allocate.c\<close>).  The globals \<^verbatim>\<open>info\<close>, \<^verbatim>\<open>aux_info\<close> and the sparse file are one state; what is queued in the
  sparse file is the list of first block and length in bytes.  A function may leave by \<^verbatim>\<open>longjmp\<close>, as the macro \<^verbatim>\<open>error\<close> does
  unless \<^verbatim>\<open>force\<close> is set, by an access outside an array or through an invalid pointer, or not return at all.  Memory allocation
  succeeds.
\<close>

section \<open>Parameters\<close>

definition DIV_ROUND_UP :: "'a :: len word \<Rightarrow> 'a word \<Rightarrow> 'a word" where
  "DIV_ROUND_UP x y = (x + y - 1) div y"

definition ALIGN :: "'a :: len word \<Rightarrow> 'a word \<Rightarrow> 'a word" where
  "ALIGN x y = y * DIV_ROUND_UP x y"

text \<open>The length is an \<^verbatim>\<open>int64_t\<close>, checked to be positive before any of these functions runs.\<close>

record fs_info =
  fs_len :: u64
  block_size :: u32
  blocks_per_group :: u32
  inodes_per_group :: u32
  inode_size :: u32
  fs_inodes :: u32
  journal_blocks :: u32
  feat_ro_compat :: u16
  feat_compat :: u16
  feat_incompat :: u16
  bg_desc_reserve_blocks :: u32
  no_journal :: bool

record fs_aux_info =
  first_data_block :: u32
  len_blocks :: u64
  inode_table_blocks :: u32
  groups :: u32
  bg_desc_blocks :: u32
  default_i_flags :: u32
  blocks_per_ind :: u32
  blocks_per_dind :: u32
  blocks_per_tind :: u32

definition EXT4_FEATURE_RO_COMPAT_SPARSE_SUPER :: u16 where "EXT4_FEATURE_RO_COMPAT_SPARSE_SUPER = 0x0001"
definition EXT4_FEATURE_RO_COMPAT_LARGE_FILE :: u16 where "EXT4_FEATURE_RO_COMPAT_LARGE_FILE = 0x0002"
definition EXT4_FEATURE_RO_COMPAT_GDT_CSUM :: u16 where "EXT4_FEATURE_RO_COMPAT_GDT_CSUM = 0x0010"
definition EXT4_FEATURE_COMPAT_HAS_JOURNAL :: u16 where "EXT4_FEATURE_COMPAT_HAS_JOURNAL = 0x0004"
definition EXT4_FEATURE_COMPAT_EXT_ATTR :: u16 where "EXT4_FEATURE_COMPAT_EXT_ATTR = 0x0008"
definition EXT4_FEATURE_COMPAT_RESIZE_INODE :: u16 where "EXT4_FEATURE_COMPAT_RESIZE_INODE = 0x0010"
definition EXT4_FEATURE_INCOMPAT_FILETYPE :: u16 where "EXT4_FEATURE_INCOMPAT_FILETYPE = 0x0002"
definition EXT4_FEATURE_INCOMPAT_EXTENTS :: u16 where "EXT4_FEATURE_INCOMPAT_EXTENTS = 0x0040"
definition EXT4_BG_INODE_UNINIT :: u16 where "EXT4_BG_INODE_UNINIT = 0x0001"
definition EXT4_NOATIME_FL :: u32 where "EXT4_NOATIME_FL = 0x00000080"

definition GROUP_DESC_SIZE :: u64 where "GROUP_DESC_SIZE = 32"

definition compute_block_size :: u32 where
  "compute_block_size = 4096"

definition len_in_blocks :: "fs_info \<Rightarrow> u64" where
  "len_in_blocks info = DIV_ROUND_UP (fs_len info) (ucast (block_size info))"

definition compute_journal_blocks :: "fs_info \<Rightarrow> u32" where
  "compute_journal_blocks info =
     (let n = ucast (len_in_blocks info div 64);
          n = (if n < 1024 then 1024 else n)
      in if n > 32768 then 32768 else n)"

definition compute_blocks_per_group :: "fs_info \<Rightarrow> u32" where
  "compute_blocks_per_group info = block_size info * 8"

definition compute_inodes :: "fs_info \<Rightarrow> u32" where
  "compute_inodes info = ucast (len_in_blocks info div 4)"

text \<open>The number of inodes is updated to the rounded number.\<close>

definition compute_inodes_per_group :: "fs_info \<Rightarrow> u32 \<times> fs_info" where
  "compute_inodes_per_group info =
     (let blocks = ucast (len_in_blocks info);
          block_groups = DIV_ROUND_UP blocks (blocks_per_group info);
          n = ALIGN (DIV_ROUND_UP (fs_inodes info) block_groups) (block_size info div inode_size info)
      in (n, info \<lparr>fs_inodes := n * block_groups\<rparr>))"

definition compute_bg_desc_reserve_blocks :: "fs_info \<Rightarrow> u32" where
  "compute_bg_desc_reserve_blocks info =
     (let blocks = ucast (len_in_blocks info);
          block_groups = DIV_ROUND_UP blocks (blocks_per_group info);
          desc = ucast (DIV_ROUND_UP (ucast block_groups * GROUP_DESC_SIZE) (ucast (block_size info)));
          n = ucast (DIV_ROUND_UP (ucast (block_groups * 1024) * GROUP_DESC_SIZE) (ucast (block_size info)) - ucast (desc :: u32))
      in if n > block_size info div 4 then block_size info div 4 else n)"

text \<open>The first part of \<^verbatim>\<open>make_ext4fs_internal\<close>, which fills in what the caller left open, in its order.\<close>

definition complete_size :: "fs_info \<Rightarrow> fs_info" where
  "complete_size fi =
     (let fi = (if block_size fi \<le> 0 then fi \<lparr>block_size := compute_block_size\<rparr> else fi)
      in fi \<lparr>fs_len := fs_len fi AND NOT (ucast (block_size fi) - 1)\<rparr>)"

definition complete_journal :: "fs_info \<Rightarrow> fs_info" where
  "complete_journal fi =
     (let fi = (if journal_blocks fi = 0 then fi \<lparr>journal_blocks := compute_journal_blocks fi\<rparr> else fi)
      in if \<not> no_journal fi then fi \<lparr>feat_compat := EXT4_FEATURE_COMPAT_HAS_JOURNAL\<rparr> else fi \<lparr>journal_blocks := 0\<rparr>)"

definition complete_counts :: "fs_info \<Rightarrow> fs_info" where
  "complete_counts fi =
     (let fi = (if blocks_per_group fi \<le> 0 then fi \<lparr>blocks_per_group := compute_blocks_per_group fi\<rparr> else fi);
          fi = (if fs_inodes fi \<le> 0 then fi \<lparr>fs_inodes := compute_inodes fi\<rparr> else fi)
      in if inode_size fi \<le> 0 then fi \<lparr>inode_size := 256\<rparr> else fi)"

definition complete_features :: "fs_info \<Rightarrow> fs_info" where
  "complete_features fi =
     fi \<lparr>feat_compat := feat_compat fi OR (EXT4_FEATURE_COMPAT_RESIZE_INODE OR EXT4_FEATURE_COMPAT_EXT_ATTR),
       feat_ro_compat := feat_ro_compat fi OR
         (EXT4_FEATURE_RO_COMPAT_SPARSE_SUPER OR EXT4_FEATURE_RO_COMPAT_LARGE_FILE OR EXT4_FEATURE_RO_COMPAT_GDT_CSUM),
       feat_incompat := feat_incompat fi OR (EXT4_FEATURE_INCOMPAT_EXTENTS OR EXT4_FEATURE_INCOMPAT_FILETYPE)\<rparr>"

definition complete_info :: "fs_info \<Rightarrow> fs_info" where
  "complete_info fi =
     (let (ipg, fi) = compute_inodes_per_group (complete_counts (complete_journal (complete_size fi)));
          fi = complete_features (fi \<lparr>inodes_per_group := ipg\<rparr>)
      in fi \<lparr>bg_desc_reserve_blocks := compute_bg_desc_reserve_blocks fi\<rparr>)"

text \<open>The base is 3, 5 or 7 in all calls.\<close>

function is_power_of :: "int \<Rightarrow> int \<Rightarrow> bool" where
  "is_power_of a b =
     (if a > b \<and> b > 1 then (if a mod b \<noteq> 0 then False else is_power_of (a div b) b) else a = b)"
  by auto
termination
proof (relation "measure (\<lambda>(a, _). nat a)", goal_cases)
  case (2 a b)
  then have "a div b < a" using int_div_less_self [of a b] by simp
  then show ?case using 2 by simp
qed simp

declare is_power_of.simps [simp del]

definition ext4_bg_has_super_block :: "fs_info \<Rightarrow> int \<Rightarrow> bool" where
  "ext4_bg_has_super_block info bg \<longleftrightarrow>
     feat_ro_compat info AND EXT4_FEATURE_RO_COMPAT_SPARSE_SUPER = 0 \<or> bg = 0 \<or> bg = 1 \<or>
     is_power_of bg 3 \<or> is_power_of bg 5 \<or> is_power_of bg 7"

definition ext4_create_fs_aux_info :: "fs_info \<Rightarrow> fs_aux_info" where
  "ext4_create_fs_aux_info info =
     (let fdb = (if block_size info > 1024 then 0 else 1);
          lb = fs_len info div ucast (block_size info);
          itb = DIV_ROUND_UP (inodes_per_group info * inode_size info) (block_size info);
          gs = ucast (DIV_ROUND_UP (lb - ucast fdb) (ucast (blocks_per_group info)));
          ind = block_size info div 4;
          dind = ind * ind;
          gdb = ucast (DIV_ROUND_UP (ucast gs * GROUP_DESC_SIZE) (ucast (block_size info)));
          last_group_size = ucast (lb mod ucast (blocks_per_group info));
          last_header_size = 2 + itb + (if ext4_bg_has_super_block info (sint (gs - 1)) then 1 + gdb + bg_desc_reserve_blocks info else 0);
          drop = last_group_size > 0 \<and> last_group_size < last_header_size
      in \<lparr>first_data_block = fdb, len_blocks = (if drop then lb - ucast last_group_size else lb), inode_table_blocks = itb,
          groups = (if drop then gs - 1 else gs), bg_desc_blocks = gdb, default_i_flags = EXT4_NOATIME_FL,
          blocks_per_ind = ind, blocks_per_dind = dind, blocks_per_tind = dind * dind\<rparr>)"

section \<open>Block groups\<close>

datatype ext4_exit = Longjmp | BadAccess | NoReturn

type_synonym 'a ext4_result = "ext4_exit + 'a"

definition ext4_error :: "bool \<Rightarrow> 'a ext4_result \<Rightarrow> 'a ext4_result" where
  "ext4_error frc rest = (if frc then rest else Inl Longjmp)"

record block_group_info =
  first_block :: u32
  header_blocks :: u32
  data_blocks_used :: u32
  has_superblock :: bool
  block_bitmap :: bytes
  inode_bitmap :: bytes
  inode_table :: "bytes option"
  bg_free_blocks :: u32
  first_free_block :: u32
  free_inodes :: u32
  first_free_inode :: u32
  bg_flags :: u16
  used_dirs :: u16

record ext4_fs =
  force :: bool
  info :: fs_info
  aux_info :: fs_aux_info
  bgs :: "block_group_info list"
  sparse_data :: "(u32 \<times> u32) list"

definition sparse_file_add_data :: "u32 \<Rightarrow> u32 \<Rightarrow> ext4_fs \<Rightarrow> ext4_fs" where
  "sparse_file_add_data bytes block fs = fs \<lparr>sparse_data := sparse_data fs @ [(block, bytes)]\<rparr>"

text \<open>The result says whether the bit was set before.\<close>

definition bitmap_set_bit :: "bytes \<Rightarrow> u32 \<Rightarrow> (bool \<times> bytes) ext4_result" where
  "bitmap_set_bit bitmap b =
     (let i = unat (b div 8); j = unat (b mod 8)
      in if i \<ge> length bitmap then Inl BadAccess
         else if bit (bitmap ! i) j then Inr (True, bitmap)
         else Inr (False, bitmap[i := set_bit j (bitmap ! i)]))"

definition bitmap_set_8_bits :: "bytes \<Rightarrow> u32 \<Rightarrow> (bool \<times> bytes) ext4_result" where
  "bitmap_set_8_bits bitmap b =
     (let i = unat (b div 8)
      in if i \<ge> length bitmap then Inl BadAccess else Inr (bitmap ! i \<noteq> 0, bitmap[i := 0xFF]))"

text \<open>
  The loops of \<^verbatim>\<open>reserve_blocks\<close>: single bits up to a multiple of eight, whole bytes, single bits.  The results are whether a
  block was reserved before, the counter, the block and the bitmap.
\<close>

function reserve_bits :: "(u32 \<Rightarrow> bool) \<Rightarrow> u32 \<Rightarrow> u32 \<Rightarrow> u32 \<Rightarrow> bytes \<Rightarrow> (bool \<times> u32 \<times> u32 \<times> bytes) ext4_result" where
  "reserve_bits stop num i block bitmap =
     (if i < num \<and> \<not> stop block
      then (case bitmap_set_bit bitmap block of
              Inl e \<Rightarrow> Inl e
            | Inr (busy, bitmap') \<Rightarrow>
                if busy then Inr (True, i, block, bitmap') else reserve_bits stop num (i + 1) (block + 1) bitmap')
      else Inr (False, i, block, bitmap))"
  by auto
termination
proof (relation "measure (\<lambda>(_, num, i, _, _). unat (num - i))", goal_cases)
  case (2 stop num i block bitmap)
  then have "num - i \<noteq> 0" by auto
  then have "unat (num - i - 1) < unat (num - i)" by (simp add: measure_unat)
  then show ?case by (simp add: algebra_simps)
qed simp

declare reserve_bits.simps [simp del]


lemma fewer_zero_bytes:
  assumes "i < length xs" and "xs ! i = 0" and "x \<noteq> (0 :: u8)"
  shows "length (filter (\<lambda>b. b = 0) (xs[i := x])) < length (filter (\<lambda>b. b = 0) xs)"
proof -
  obtain ys zs where "xs = ys @ 0 # zs" "length ys = i"
    using id_take_nth_drop [OF assms(1)] assms(1,2) by (metis length_take min.absorb4)
  then show ?thesis using assms(3) by (simp add: list_update_append)
qed

text \<open>The loop over bytes ends because a byte that is set a second time stops it.\<close>

function reserve_bytes :: "u32 \<Rightarrow> u32 \<Rightarrow> u32 \<Rightarrow> bytes \<Rightarrow> (bool \<times> u32 \<times> u32 \<times> bytes) ext4_result" where
  "reserve_bytes num i block bitmap =
     (if i + 8 \<le> num AND NOT 7
      then (case bitmap_set_8_bits bitmap block of
              Inl e \<Rightarrow> Inl e
            | Inr (busy, bitmap') \<Rightarrow>
                if busy then Inr (True, i, block, bitmap') else reserve_bytes num (i + 8) (block + 8) bitmap')
      else Inr (False, i, block, bitmap))"
  by auto
termination
proof (relation "measure (\<lambda>(_, _, _, bitmap). length (filter (\<lambda>b. b = 0) bitmap))", goal_cases)
  case (2 num i block bitmap r busy bitmap')
  then show ?case by (auto simp: bitmap_set_8_bits_def Let_def intro!: fewer_zero_bytes split: if_splits)
qed simp

declare reserve_bytes.simps [simp del]

definition reserve_loops :: "u32 \<Rightarrow> u32 \<Rightarrow> bytes \<Rightarrow> (bool \<times> bytes) ext4_result" where
  "reserve_loops num start bitmap =
     (case reserve_bits (\<lambda>block. block mod 8 = 0) num 0 start bitmap of
        Inl e \<Rightarrow> Inl e
      | Inr (busy, i, block, bitmap) \<Rightarrow>
          if busy then Inr (True, bitmap)
          else (case reserve_bytes num i block bitmap of
                  Inl e \<Rightarrow> Inl e
                | Inr (busy, i, block, bitmap) \<Rightarrow>
                    if busy then Inr (True, bitmap)
                    else (case reserve_bits (\<lambda>_. False) num i block bitmap of
                            Inl e \<Rightarrow> Inl e
                          | Inr (busy, _, _, bitmap) \<Rightarrow> Inr (busy, bitmap))))"

text \<open>The results say whether the blocks were reserved.\<close>

definition reserve_blocks :: "bool \<Rightarrow> u32 \<Rightarrow> u32 \<Rightarrow> block_group_info \<Rightarrow> (bool \<times> block_group_info) ext4_result" where
  "reserve_blocks frc start num bg =
     (if num > bg_free_blocks bg then Inr (False, bg)
      else (case reserve_loops num start (block_bitmap bg) of
              Inl e \<Rightarrow> Inl e
            | Inr (busy, bitmap) \<Rightarrow>
                if busy then ext4_error frc (Inr (False, bg \<lparr>block_bitmap := bitmap\<rparr>))
                else Inr (True, bg \<lparr>block_bitmap := bitmap, bg_free_blocks := bg_free_blocks bg - num,
                  first_free_block := (if start = first_free_block bg then start + num else first_free_block bg)\<rparr>)))"

fun clear_bits :: "nat \<Rightarrow> u32 \<Rightarrow> bytes \<Rightarrow> bytes ext4_result" where
  "clear_bits 0 block bitmap = Inr bitmap"
| "clear_bits (Suc n) block bitmap =
     (let i = unat (block div 8)
      in if i \<ge> length bitmap then Inl BadAccess
         else clear_bits n (block - 1) (bitmap[i := unset_bit (unat (block mod 8)) (bitmap ! i)]))"

definition free_blocks :: "u32 \<Rightarrow> block_group_info \<Rightarrow> block_group_info ext4_result" where
  "free_blocks num_blocks bg =
     (case clear_bits (unat num_blocks) (first_free_block bg - 1) (block_bitmap bg) of
        Inl e \<Rightarrow> Inl e
      | Inr bitmap \<Rightarrow>
          Inr (bg \<lparr>block_bitmap := bitmap, bg_free_blocks := bg_free_blocks bg + num_blocks,
            first_free_block := first_free_block bg - num_blocks\<rparr>))"

definition super_blocks :: "ext4_fs \<Rightarrow> u32" where
  "super_blocks fs = 1 + bg_desc_blocks (aux_info fs) + bg_desc_reserve_blocks (info fs)"

definition init_bg :: "nat \<Rightarrow> ext4_fs \<Rightarrow> (block_group_info \<times> ext4_fs) ext4_result" where
  "init_bg i fs =
     (let fi = info fs; aux = aux_info fs; bpg = blocks_per_group fi;
          has = ext4_bg_has_super_block fi (int i);
          hb = 2 + inode_table_blocks aux + (if has then super_blocks fs else 0);
          fb = first_data_block aux + of_nat i * bpg;
          fs1 = sparse_file_add_data (2 * block_size fi) (fb + (if has then super_blocks fs else 0)) fs;
          bg = \<lparr>first_block = fb, header_blocks = hb, data_blocks_used = 0, has_superblock = has,
                block_bitmap = replicate (unat (block_size fi)) 0, inode_bitmap = replicate (unat (block_size fi)) 0,
                inode_table = None, bg_free_blocks = bpg, first_free_block = 0, free_inodes = inodes_per_group fi,
                first_free_inode = 1, bg_flags = EXT4_BG_INODE_UNINIT, used_dirs = 0\<rparr>
      in case reserve_blocks (force fs) 0 hb bg of
           Inl e \<Rightarrow> Inl e
         | Inr (ok, bg1) \<Rightarrow>
             (let rest = (if ucast (fb + bpg) > len_blocks aux
                          then (let overrun = ucast (ucast (fb + bpg) - len_blocks aux)
                                in case reserve_blocks (force fs) (bpg - overrun) overrun bg1 of
                                     Inl e \<Rightarrow> Inl e
                                   | Inr (_, bg2) \<Rightarrow> Inr (bg2, fs1))
                          else Inr (bg1, fs1))
              in if ok then rest else ext4_error (force fs) rest))"

fun init_groups :: "nat list \<Rightarrow> ext4_fs \<Rightarrow> ext4_fs ext4_result" where
  "init_groups [] fs = Inr fs"
| "init_groups (i # is) fs =
     (case init_bg i fs of
        Inl e \<Rightarrow> Inl e
      | Inr (bg, fs1) \<Rightarrow> init_groups is (fs1 \<lparr>bgs := bgs fs1 @ [bg]\<rparr>))"

definition block_allocator_init :: "ext4_fs \<Rightarrow> ext4_fs ext4_result" where
  "block_allocator_init fs = init_groups [0..<unat (groups (aux_info fs))] (fs \<lparr>bgs := []\<rparr>)"

section \<open>Allocation from groups\<close>

definition EXT4_ALLOCATE_FAILED :: u32 where
  "EXT4_ALLOCATE_FAILED = - 1"

definition get_free_blocks :: "nat \<Rightarrow> ext4_fs \<Rightarrow> u32 ext4_result" where
  "get_free_blocks bg fs = (if bg < length (bgs fs) then Inr (bg_free_blocks (bgs fs ! bg)) else Inl BadAccess)"

definition ext4_allocate_blocks_from_block_group :: "u32 \<Rightarrow> nat \<Rightarrow> ext4_fs \<Rightarrow> (u32 \<times> ext4_fs) ext4_result" where
  "ext4_allocate_blocks_from_block_group num bg_num fs =
     (case get_free_blocks bg_num fs of
        Inl e \<Rightarrow> Inl e
      | Inr n \<Rightarrow>
          if n < num then Inr (EXT4_ALLOCATE_FAILED, fs)
          else (let bg = bgs fs ! bg_num; block = first_free_block bg
                in case reserve_blocks (force fs) block num bg of
                     Inl e \<Rightarrow> Inl e
                   | Inr (ok, bg1) \<Rightarrow>
                       if \<not> ok
                       then ext4_error (force fs) (Inr (EXT4_ALLOCATE_FAILED, fs \<lparr>bgs := (bgs fs)[bg_num := bg1]\<rparr>))
                       else Inr (first_block bg1 + block,
                              fs \<lparr>bgs := (bgs fs)[bg_num := bg1 \<lparr>data_blocks_used := data_blocks_used bg1 + num\<rparr>]\<rparr>)))"

fun allocate_block_in :: "nat list \<Rightarrow> ext4_fs \<Rightarrow> (u32 \<times> ext4_fs) ext4_result" where
  "allocate_block_in [] fs = Inr (EXT4_ALLOCATE_FAILED, fs)"
| "allocate_block_in (i # is) fs =
     (case ext4_allocate_blocks_from_block_group 1 i fs of
        Inl e \<Rightarrow> Inl e
      | Inr (block, fs1) \<Rightarrow> if block \<noteq> EXT4_ALLOCATE_FAILED then Inr (block, fs1) else allocate_block_in is fs1)"

definition allocate_block :: "ext4_fs \<Rightarrow> (u32 \<times> ext4_fs) ext4_result" where
  "allocate_block fs = allocate_block_in [0..<unat (groups (aux_info fs))] fs"

text \<open>The choice of a group: the smallest that the blocks fit in, or the largest.\<close>

definition better_group :: "u32 \<Rightarrow> u32 \<Rightarrow> u32 \<Rightarrow> bool" where
  "better_group num found_bg_len bg_len \<longleftrightarrow>
     num \<le> bg_len \<and> (found_bg_len = 0 \<or> bg_len < found_bg_len) \<or> num > found_bg_len \<and> bg_len > found_bg_len"

fun find_group :: "u32 \<Rightarrow> nat \<Rightarrow> block_group_info list \<Rightarrow> nat \<times> u32 \<Rightarrow> nat \<times> u32" where
  "find_group num i [] found = found"
| "find_group num i (bg # gs) found =
     find_group num (Suc i) gs (if better_group num (snd found) (bg_free_blocks bg) then (i, bg_free_blocks bg) else found)"

section \<open>Inodes\<close>

definition get_free_inodes :: "nat \<Rightarrow> ext4_fs \<Rightarrow> u32 ext4_result" where
  "get_free_inodes bg fs = (if bg < length (bgs fs) then Inr (free_inodes (bgs fs ! bg)) else Inl BadAccess)"

fun set_inode_bits :: "nat \<Rightarrow> u32 \<Rightarrow> bytes \<Rightarrow> bytes ext4_result" where
  "set_inode_bits 0 inode bitmap = Inr bitmap"
| "set_inode_bits (Suc n) inode bitmap =
     (let i = unat (inode div 8)
      in if i \<ge> length bitmap then Inl BadAccess
         else set_inode_bits n (inode + 1) (bitmap[i := set_bit (unat (inode mod 8)) (bitmap ! i)]))"

definition reserve_inodes :: "nat \<Rightarrow> u32 \<Rightarrow> ext4_fs \<Rightarrow> (u32 \<times> ext4_fs) ext4_result" where
  "reserve_inodes bg num fs =
     (case get_free_inodes bg fs of
        Inl e \<Rightarrow> Inl e
      | Inr n \<Rightarrow>
          if n < num then Inr (EXT4_ALLOCATE_FAILED, fs)
          else (let g = bgs fs ! bg; inode = first_free_inode g
                in case set_inode_bits (unat num) (inode - 1) (inode_bitmap g) of
                     Inl e \<Rightarrow> Inl e
                   | Inr bitmap \<Rightarrow>
                       Inr (inode, fs \<lparr>bgs := (bgs fs)[bg := g \<lparr>inode_bitmap := bitmap, first_free_inode := inode + num,
                         free_inodes := free_inodes g - num\<rparr>]\<rparr>)))"

fun allocate_inode_in :: "nat list \<Rightarrow> ext4_fs \<Rightarrow> (u32 \<times> ext4_fs) ext4_result" where
  "allocate_inode_in [] fs = Inr (EXT4_ALLOCATE_FAILED, fs)"
| "allocate_inode_in (bg # gs) fs =
     (case reserve_inodes bg 1 fs of
        Inl e \<Rightarrow> Inl e
      | Inr (inode, fs1) \<Rightarrow>
          if inode \<noteq> EXT4_ALLOCATE_FAILED then Inr (of_nat bg * inodes_per_group (info fs) + inode, fs1)
          else allocate_inode_in gs fs1)"

definition allocate_inode :: "ext4_fs \<Rightarrow> (u32 \<times> ext4_fs) ext4_result" where
  "allocate_inode fs = allocate_inode_in [0..<unat (groups (aux_info fs))] fs"

definition allocate_bg_inode_table :: "nat \<Rightarrow> ext4_fs \<Rightarrow> ext4_fs ext4_result" where
  "allocate_bg_inode_table bg fs =
     (if bg \<ge> length (bgs fs) then Inl BadAccess
      else (let g = bgs fs ! bg; itb = inode_table_blocks (aux_info fs); bs = block_size (info fs)
            in if inode_table g \<noteq> None then Inr fs
               else Inr (sparse_file_add_data (itb * bs) (first_block g + 2 + (if has_superblock g then super_blocks fs else 0))
                 (fs \<lparr>bgs := (bgs fs)[bg := g \<lparr>inode_table := Some (replicate (unat itb * unat bs) 0),
                   bg_flags := bg_flags g AND NOT EXT4_BG_INODE_UNINIT\<rparr>]\<rparr>))))"

text \<open>An inode's place: the group and the offset in the group's inode table.\<close>

definition get_inode :: "u32 \<Rightarrow> ext4_fs \<Rightarrow> ((nat \<times> u32) \<times> ext4_fs) ext4_result" where
  "get_inode inode fs =
     (let n = inode - 1; bg = unat (n div inodes_per_group (info fs)); k = n mod inodes_per_group (info fs)
      in case allocate_bg_inode_table bg fs of
           Inl e \<Rightarrow> Inl e
         | Inr fs1 \<Rightarrow> Inr ((bg, k * inode_size (info fs)), fs1))"

definition add_directory :: "u32 \<Rightarrow> ext4_fs \<Rightarrow> ext4_fs ext4_result" where
  "add_directory inode fs =
     (let bg = unat ((inode - 1) div inodes_per_group (info fs))
      in if bg \<ge> length (bgs fs) then Inl BadAccess
         else Inr (fs \<lparr>bgs := (bgs fs)[bg := (bgs fs ! bg) \<lparr>used_dirs := used_dirs (bgs fs ! bg) + 1\<rparr>]\<rparr>))"

section \<open>Bitmaps as sets\<close>

text \<open>The blocks or inodes that a bitmap marks.\<close>

definition marked :: "bytes \<Rightarrow> nat set" where
  "marked bitmap = {n. n < 8 * length bitmap \<and> bit (bitmap ! (n div 8)) (n mod 8)}"

lemma unat_div_mod_8: "unat (b div 8 :: u32) = unat b div 8" "unat (b mod 8 :: u32) = unat b mod 8"
  by (simp_all add: unat_div unat_mod_distrib)

lemma marked_update:
  "i < length bitmap \<Longrightarrow> n \<in> marked (bitmap[i := x]) \<longleftrightarrow> (if n div 8 = i then bit x (n mod 8) else n \<in> marked bitmap)"
  by (auto simp: marked_def)

lemma marked_bound: "n \<in> marked bitmap \<Longrightarrow> n < 8 * length bitmap"
  by (simp add: marked_def)

lemma marked_replicate [simp]: "marked (replicate n 0) = {}"
  by (auto simp: marked_def)

lemma div_8_less: "n < 8 * m \<Longrightarrow> n div 8 < (m :: nat)"
  by auto

lemma bitmap_set_bit_marked:
  assumes "unat b < 8 * length bitmap"
  shows "\<exists>bitmap'. bitmap_set_bit bitmap b = Inr (unat b \<in> marked bitmap, bitmap') \<and>
    marked bitmap' = insert (unat b) (marked bitmap) \<and> length bitmap' = length bitmap"
proof (cases "unat b \<in> marked bitmap")
  case True
  then show ?thesis using div_8_less [OF assms] by (auto simp: bitmap_set_bit_def unat_div_mod_8 marked_def Let_def)
next
  case False
  let ?i = "unat b div 8" and ?j = "unat b mod 8"
  have "marked (bitmap[?i := set_bit ?j (bitmap ! ?i)]) = insert (unat b) (marked bitmap)"
  proof (rule set_eqI)
    fix n
    have "n div 8 = ?i \<Longrightarrow> n < 8 * length bitmap" using div_8_less [OF assms] by (metis div_less_iff_less_mult mult.commute zero_less_numeral)
    moreover have "n = unat b \<longleftrightarrow> n div 8 = ?i \<and> n mod 8 = ?j" by (metis mult_div_mod_eq)
    ultimately show "n \<in> marked (bitmap[?i := set_bit ?j (bitmap ! ?i)]) \<longleftrightarrow> n \<in> insert (unat b) (marked bitmap)"
      using div_8_less [OF assms] by (cases "n div 8 = ?i") (auto simp: marked_update bit_simps, auto simp: marked_def)
  qed
  then show ?thesis
    using False assms div_8_less [OF assms] by (auto simp: bitmap_set_bit_def unat_div_mod_8 marked_def Let_def)
qed

lemma bit_0xFF: "bit (0xFF :: u8) n \<longleftrightarrow> n < 8"
proof -
  have "(0xFF :: u8) = mask 8" by (simp add: mask_eq_exp_minus_1)
  then show ?thesis by (simp only: bit_mask_iff) simp
qed

lemma bitmap_set_8_bits_marked:
  assumes "unat b < 8 * length bitmap" and "b mod 8 = 0"
  shows "\<exists>bitmap'. bitmap_set_8_bits bitmap b = Inr (marked bitmap \<inter> {unat b..<unat b + 8} \<noteq> {}, bitmap') \<and>
    marked bitmap' = {unat b..<unat b + 8} \<union> marked bitmap \<and> length bitmap' = length bitmap"
proof -
  let ?i = "unat b div 8"
  have m: "unat b mod 8 = 0" using assms(2) unat_div_mod_8(2) [of b] by simp
  then have "unat b = 8 * ?i" by auto
  then have range: "n \<in> {unat b..<unat b + 8} \<longleftrightarrow> n div 8 = ?i" for n
    using div_nat_eqI [of 8 ?i n] div_mult_mod_eq [of n 8] mod_less_divisor [of 8 n] by (auto simp: algebra_simps)
  have i: "?i < length bitmap" using div_8_less [OF assms(1)] .
  have "marked (bitmap[?i := 0xFF]) = {unat b..<unat b + 8} \<union> marked bitmap"
    using i range bit_0xFF [of "n mod 8" for n] by (intro set_eqI) (simp only: marked_update [OF i] Un_iff, simp)
  moreover have "bitmap ! ?i \<noteq> 0 \<longleftrightarrow> marked bitmap \<inter> {unat b..<unat b + 8} \<noteq> {}"
  proof
    assume "bitmap ! ?i \<noteq> 0"
    then obtain k where k: "k < 8" "bit (bitmap ! ?i) k" using bit_word_eqI [of "bitmap ! ?i" 0] by auto
    then have d: "(unat b + k) div 8 = ?i" "(unat b + k) mod 8 = k" using m by (auto simp: div_add1_eq mod_add_eq [symmetric])
    then have "unat b + k \<in> marked bitmap" using k i unfolding marked_def by auto
    then show "marked bitmap \<inter> {unat b..<unat b + 8} \<noteq> {}" using k(1) by auto
  next
    assume "marked bitmap \<inter> {unat b..<unat b + 8} \<noteq> {}"
    then obtain n where "n \<in> marked bitmap" "n div 8 = ?i" using range by blast
    then show "bitmap ! ?i \<noteq> 0" by (auto simp: marked_def)
  qed
  ultimately show ?thesis using i by (auto simp: bitmap_set_8_bits_def unat_div_mod_8 Let_def)
qed

section \<open>Reserving a range\<close>

lemma unat_inc:
  assumes "(i :: u32) < n"
  shows "unat (i + 1) = Suc (unat i)"
proof -
  have "i \<noteq> - 1" using assms by auto
  then have "1 + i \<noteq> 0" unfolding add_eq_0_iff by simp
  then show ?thesis using unatSuc [of i] by (simp add: add.commute)
qed

lemma unat_add: "unat a + unat b < 2 ^ 32 \<Longrightarrow> unat (a + b :: u32) = unat a + unat b"
  by (simp add: unat_word_ariths)

text \<open>What a loop over free blocks does: it marks the blocks it passes, and nothing else.\<close>

definition reserved :: "u32 \<Rightarrow> u32 \<Rightarrow> u32 \<Rightarrow> bytes \<Rightarrow> (bool \<times> u32 \<times> u32 \<times> bytes) ext4_result \<Rightarrow> bool" where
  "reserved num i block bitmap r \<longleftrightarrow>
     (\<exists>i' block' bitmap'. r = Inr (False, i', block', bitmap') \<and> unat i \<le> unat i' \<and> unat i' \<le> unat num \<and>
        unat block' + unat i = unat block + unat i' \<and>
        marked bitmap' = marked bitmap \<union> {unat block..<unat block'} \<and> length bitmap' = length bitmap)"

lemma reserved_trans:
  assumes "reserved num i block bitmap (Inr (False, i1, block1, bitmap1))" and "reserved num i1 block1 bitmap1 r"
  shows "reserved num i block bitmap r"
proof -
  obtain i2 block2 bitmap2 where r: "r = Inr (False, i2, block2, bitmap2)" "unat i1 \<le> unat i2" "unat i2 \<le> unat num"
      "unat block2 + unat i1 = unat block1 + unat i2" "marked bitmap2 = marked bitmap1 \<union> {unat block1..<unat block2}"
      "length bitmap2 = length bitmap1"
    using assms(2) unfolding reserved_def by blast
  have 1: "unat i \<le> unat i1" "unat block1 + unat i = unat block + unat i1" "marked bitmap1 = marked bitmap \<union> {unat block..<unat block1}"
      "length bitmap1 = length bitmap" using assms(1) unfolding reserved_def by auto
  have "{unat block..<unat block1} \<union> {unat block1..<unat block2} = {unat block..<unat block2}"
    using 1 r by (intro ivl_disj_un_two) simp_all
  then have "marked bitmap2 = marked bitmap \<union> {unat block..<unat block2}" using 1 r by (simp add: Un_assoc)
  then show ?thesis using 1 r unfolding reserved_def by auto
qed

lemma reserve_bits_reserved:
  assumes "i \<le> num" and "unat block + (unat num - unat i) \<le> 8 * length bitmap" and "8 * length bitmap < 2 ^ 32"
    and "marked bitmap \<inter> {unat block..<unat block + (unat num - unat i)} = {}"
  shows "reserved num i block bitmap (reserve_bits stop num i block bitmap)"
    and "\<exists>i' block' bitmap'. reserve_bits stop num i block bitmap = Inr (False, i', block', bitmap') \<and> (i' = num \<or> stop block')"
proof -
  have "reserved num i block bitmap (reserve_bits stop num i block bitmap) \<and>
    (\<exists>i' block' bitmap'. reserve_bits stop num i block bitmap = Inr (False, i', block', bitmap') \<and> (i' = num \<or> stop block'))"
    using assms
  proof (induction stop num i block bitmap rule: reserve_bits.induct)
    case (1 stop num i block bitmap)
    show ?case
    proof (cases "i < num \<and> \<not> stop block")
      case True
      then have n: "unat i < unat num" by (simp add: word_less_nat_alt)
      then have b: "unat block < 8 * length bitmap" "unat block \<notin> marked bitmap" using 1(3,5) by auto
      obtain bitmap' where bm: "bitmap_set_bit bitmap block = Inr (False, bitmap')"
          "marked bitmap' = insert (unat block) (marked bitmap)" "length bitmap' = length bitmap"
        using bitmap_set_bit_marked [OF b(1)] b(2) by auto
      have i': "unat (i + 1) = Suc (unat i)" using unat_inc True by blast
      have b': "unat (block + 1) = Suc (unat block)" using unat_add [of block 1] b(1) 1(4) by simp
      have step: "reserved num i block bitmap (Inr (False, i + 1, block + 1, bitmap'))"
        using bm i' b' n by (auto simp: reserved_def)
      have "i + 1 \<le> num" using i' n by (simp add: word_le_nat_alt)
      moreover have "unat (block + 1) + (unat num - unat (i + 1)) \<le> 8 * length bitmap'" using 1(3) n i' b' bm(3) by simp
      moreover have "marked bitmap' \<inter> {unat (block + 1)..<unat (block + 1) + (unat num - unat (i + 1))} = {}"
      proof -
        have "{unat (block + 1)..<unat (block + 1) + (unat num - unat (i + 1))} \<subseteq> {unat block..<unat block + (unat num - unat i)} - {unat block}"
          using i' b' n by auto
        then show ?thesis using 1(5) bm(2) by blast
      qed
      ultimately have IH: "reserved num (i + 1) (block + 1) bitmap' (reserve_bits stop num (i + 1) (block + 1) bitmap')"
          "\<exists>i' block' bm. reserve_bits stop num (i + 1) (block + 1) bitmap' = Inr (False, i', block', bm) \<and> (i' = num \<or> stop block')"
        using 1(1) [OF True bm(1) refl] 1(4) bm(3) by auto
      have "reserve_bits stop num i block bitmap = reserve_bits stop num (i + 1) (block + 1) bitmap'"
        using True bm(1) by (subst reserve_bits.simps) simp
      then show ?thesis using reserved_trans [OF step IH(1)] IH(2) by simp
    next
      case False
      then have "reserve_bits stop num i block bitmap = Inr (False, i, block, bitmap)" by (subst reserve_bits.simps) auto
      moreover have "i = num \<or> stop block" using False 1(2) by auto
      ultimately show ?thesis using 1(2) by (auto simp: reserved_def word_le_nat_alt)
    qed
  qed
  then show "reserved num i block bitmap (reserve_bits stop num i block bitmap)"
    and "\<exists>i' block' bitmap'. reserve_bits stop num i block bitmap = Inr (False, i', block', bitmap') \<and> (i' = num \<or> stop block')"
    by auto
qed

lemma unat_and_not_7: "unat (x AND NOT 7 :: u32) \<le> unat x"
  using word_and_le2 [of x "NOT 7"] by (simp add: word_le_nat_alt)

lemma reserve_bytes_reserved:
  assumes "unat i \<le> unat num" and "unat block + (unat num - unat i) \<le> 8 * length bitmap" and "8 * length bitmap < 2 ^ 32 - 8"
    and "marked bitmap \<inter> {unat block..<unat block + (unat num - unat i)} = {}" and "i < num \<longrightarrow> block mod 8 = 0"
    and "unat num < 2 ^ 32 - 8"
  shows "reserved num i block bitmap (reserve_bytes num i block bitmap)"
  using assms
proof (induction num i block bitmap rule: reserve_bytes.induct)
  case (1 num i block bitmap)
  have i8: "unat (i + 8) = unat i + 8" using unat_add [of i 8] 1(2,7) by simp
  show ?case
  proof (cases "i + 8 \<le> num AND NOT 7")
    case True
    then have n: "unat i + 8 \<le> unat num" using unat_and_not_7 [of num] i8 by (simp add: word_le_nat_alt)
    then have lt: "i < num" by (simp add: word_less_nat_alt)
    have b: "unat block < 8 * length bitmap" "block mod 8 = 0" using 1(3,6) n lt by auto
    have sub: "{unat block..<unat block + 8} \<subseteq> {unat block..<unat block + (unat num - unat i)}" using n by auto
    obtain bitmap' where bm: "bitmap_set_8_bits bitmap block = Inr (False, bitmap')"
        "marked bitmap' = {unat block..<unat block + 8} \<union> marked bitmap" "length bitmap' = length bitmap"
    proof -
      have "marked bitmap \<inter> {unat block..<unat block + 8} = {}" using 1(5) sub by blast
      then show ?thesis using bitmap_set_8_bits_marked [OF b] that by auto
    qed
    have b': "unat (block + 8) = unat block + 8" using unat_add [of block 8] 1(3,4) n by simp
    have step: "reserved num i block bitmap (Inr (False, i + 8, block + 8, bitmap'))"
      using bm i8 b' n by (auto simp: reserved_def)
    have "{unat (block + 8)..<unat (block + 8) + (unat num - unat (i + 8))} \<subseteq> {unat block..<unat block + (unat num - unat i)} - {unat block..<unat block + 8}"
      using i8 b' n by auto
    then have dis: "marked bitmap' \<inter> {unat (block + 8)..<unat (block + 8) + (unat num - unat (i + 8))} = {}"
      using 1(5) bm(2) by blast
    have al: "(block + 8) mod 8 = 0"
      using b(2) b' unat_div_mod_8(2) [of block] unat_div_mod_8(2) [of "block + 8"] by (simp add: unat_eq_zero)
    have IH: "reserved num (i + 8) (block + 8) bitmap' (reserve_bytes num (i + 8) (block + 8) bitmap')"
      using 1(1) [OF True bm(1) refl] 1(3,4,7) n i8 b' dis al bm(3) by auto
    have "reserve_bytes num i block bitmap = reserve_bytes num (i + 8) (block + 8) bitmap'"
      using True bm(1) by (subst reserve_bytes.simps) simp
    then show ?thesis using reserved_trans [OF step IH] by simp
  next
    case False
    then have "reserve_bytes num i block bitmap = Inr (False, i, block, bitmap)" by (subst reserve_bytes.simps) auto
    then show ?thesis using 1(2) by (auto simp: reserved_def)
  qed
qed

text \<open>Reserving a range of free blocks succeeds and marks exactly the range, whatever its alignment.\<close>

lemma reserve_loops_marks:
  assumes "unat start + unat num \<le> 8 * length bitmap" and "8 * length bitmap < 2 ^ 32 - 8"
    and "marked bitmap \<inter> {unat start..<unat start + unat num} = {}"
  shows "\<exists>bitmap'. reserve_loops num start bitmap = Inr (False, bitmap') \<and>
    marked bitmap' = marked bitmap \<union> {unat start..<unat start + unat num} \<and> length bitmap' = length bitmap"
proof -
  have pre: "0 \<le> num" "unat start + (unat num - unat (0 :: u32)) \<le> 8 * length bitmap" "8 * length bitmap < 2 ^ 32"
      "marked bitmap \<inter> {unat start..<unat start + (unat num - unat (0 :: u32))} = {}"
    using assms by simp_all
  obtain i1 k1 m1 where 1: "reserve_bits (\<lambda>block. block mod 8 = 0) num 0 start bitmap = Inr (False, i1, k1, m1)" "i1 = num \<or> k1 mod 8 = 0"
    using reserve_bits_reserved(2) [OF pre, of "\<lambda>block. block mod 8 = 0"] by (elim exE conjE) (rule that)
  have r1: "reserved num 0 start bitmap (Inr (False, i1, k1, m1))"
    using reserve_bits_reserved(1) [OF pre, of "\<lambda>block. block mod 8 = 0"] 1(1) by simp
  then have f1: "unat i1 \<le> unat num" "unat k1 = unat start + unat i1" "marked m1 = marked bitmap \<union> {unat start..<unat k1}" "length m1 = length bitmap"
    by (auto simp: reserved_def)
  have d1: "marked m1 \<inter> {unat k1..<unat k1 + (unat num - unat i1)} = {}"
  proof -
    have "{unat k1..<unat k1 + (unat num - unat i1)} \<subseteq> {unat start..<unat start + unat num} - {unat start..<unat k1}" using f1 by auto
    then show ?thesis using f1(3) assms(3) by blast
  qed
  have al: "i1 < num \<longrightarrow> k1 mod 8 = 0" using 1(2) by (metis less_irrefl)
  have "reserved num i1 k1 m1 (reserve_bytes num i1 k1 m1)"
    using reserve_bytes_reserved [OF _ _ _ d1 al] f1 assms(1,2) by auto
  moreover from this obtain i2 k2 m2 where 2: "reserve_bytes num i1 k1 m1 = Inr (False, i2, k2, m2)" by (auto simp: reserved_def)
  ultimately have r2: "reserved num 0 start bitmap (Inr (False, i2, k2, m2))" using reserved_trans [OF r1] by simp
  then have f2: "unat i2 \<le> unat num" "unat k2 = unat start + unat i2" "marked m2 = marked bitmap \<union> {unat start..<unat k2}" "length m2 = length bitmap"
    by (auto simp: reserved_def)
  have d2: "marked m2 \<inter> {unat k2..<unat k2 + (unat num - unat i2)} = {}"
  proof -
    have "{unat k2..<unat k2 + (unat num - unat i2)} \<subseteq> {unat start..<unat start + unat num} - {unat start..<unat k2}" using f2 by auto
    then show ?thesis using f2(3) assms(3) by blast
  qed
  have le: "i2 \<le> num" using f2(1) by (simp add: word_le_nat_alt)
  obtain k3 m3 where 3: "reserve_bits (\<lambda>_. False) num i2 k2 m2 = Inr (False, num, k3, m3)"
    using reserve_bits_reserved(2) [OF le, of k2 m2 "\<lambda>_. False"] f2 d2 assms by auto
  have "reserved num i2 k2 m2 (Inr (False, num, k3, m3))"
    using reserve_bits_reserved(1) [OF le, of k2 m2 "\<lambda>_. False"] f2 d2 assms 3 by auto
  from reserved_trans [OF r2 this]
  have "unat k3 = unat start + unat num" "marked m3 = marked bitmap \<union> {unat start..<unat k3}" "length m3 = length bitmap"
    by (auto simp: reserved_def)
  then show ?thesis using 1(1) 2 3 by (simp add: reserve_loops_def)
qed

end
