(* ===== verification/Ext4_Allocation.thy ===== *)
theory Ext4_Allocation
  imports Ext4_Groups
begin

text \<open>
  The block groups as sets: in a group the free blocks are one range, and the bitmap marks all others; the free blocks of all
  groups are inside the device and outside the groups' headers.  Initialization establishes this, and every allocation keeps
  it and takes its blocks out of the free ones.
\<close>

section \<open>One group\<close>

definition group_ok :: "u32 \<Rightarrow> block_group_info \<Rightarrow> bool" where
  "group_ok bpg bg \<longleftrightarrow>
     marked (block_bitmap bg) = {..<unat bpg} - {unat (first_free_block bg)..<unat (first_free_block bg) + unat (bg_free_blocks bg)} \<and>
     unat (first_free_block bg) + unat (bg_free_blocks bg) \<le> unat bpg \<and>
     unat bpg \<le> 8 * length (block_bitmap bg) \<and> 8 * length (block_bitmap bg) < 2 ^ 32 - 8"

definition free_set :: "block_group_info \<Rightarrow> nat set" where
  "free_set bg = (let b = unat (first_block bg) + unat (first_free_block bg) in {b..<b + unat (bg_free_blocks bg)})"

lemma take_first: "k \<le> n \<Longrightarrow> f + n \<le> B \<Longrightarrow> {..<B} - {f..<f + n} \<union> {f..<f + k} = {..<B} - {f + k..<f + k + (n - k :: nat)}"
  by (intro set_eqI) auto

lemma take_last: "k \<le> n \<Longrightarrow> f + n = B \<Longrightarrow> {..<B} - {f..<f + n} \<union> {B - k..<B} = {..<B} - {f..<f + (n - k :: nat)}"
  by (intro set_eqI) auto

lemma reserve_blocks_first:
  assumes "group_ok bpg bg" and "num \<le> bg_free_blocks bg"
  shows "\<exists>bg'. reserve_blocks frc (first_free_block bg) num bg = Inr (True, bg') \<and> group_ok bpg bg' \<and>
    unat (first_free_block bg') = unat (first_free_block bg) + unat num \<and>
    unat (bg_free_blocks bg') = unat (bg_free_blocks bg) - unat num \<and> first_block bg' = first_block bg \<and>
    header_blocks bg' = header_blocks bg"
proof -
  let ?f = "unat (first_free_block bg)" and ?n = "unat (bg_free_blocks bg)"
  have ok: "marked (block_bitmap bg) = {..<unat bpg} - {?f..<?f + ?n}" "?f + ?n \<le> unat bpg" "unat bpg \<le> 8 * length (block_bitmap bg)"
      "8 * length (block_bitmap bg) < 2 ^ 32 - 8" using assms(1) by (auto simp: group_ok_def)
  have num: "unat num \<le> ?n" using assms(2) by (simp add: word_le_nat_alt)
  have "marked (block_bitmap bg) \<inter> {?f..<?f + unat num} = {}" using num unfolding ok(1) by auto
  then obtain bm where bm: "reserve_loops num (first_free_block bg) (block_bitmap bg) = Inr (False, bm)"
      "marked bm = marked (block_bitmap bg) \<union> {?f..<?f + unat num}" "length bm = length (block_bitmap bg)"
    using reserve_loops_marks [of "first_free_block bg" num "block_bitmap bg"] ok num by auto
  let ?bg = "bg \<lparr>block_bitmap := bm, bg_free_blocks := bg_free_blocks bg - num, first_free_block := first_free_block bg + num\<rparr>"
  have u: "unat (first_free_block bg + num) = ?f + unat num" "unat (bg_free_blocks bg - num) = ?n - unat num"
    using unat_add [of "first_free_block bg" num] ok num assms(2) by (simp_all add: unat_sub)
  have "marked bm = {..<unat bpg} - {?f + unat num..<?f + unat num + (?n - unat num)}"
    unfolding bm(2) ok(1) by (rule take_first [OF num ok(2)])
  then have "group_ok bpg ?bg" using bm u ok num by (simp add: group_ok_def)
  then show ?thesis using bm(1) u assms(2) by (auto simp: reserve_blocks_def)
qed

text \<open>Blocks at the end of a group may be reserved as well; then the range of free blocks ends before them.\<close>

lemma reserve_blocks_last:
  assumes "group_ok bpg bg" and "num \<le> bg_free_blocks bg" and "unat (first_free_block bg) + unat (bg_free_blocks bg) = unat bpg"
  shows "\<exists>bg'. reserve_blocks frc (bpg - num) num bg = Inr (True, bg') \<and> group_ok bpg bg' \<and>
    unat (first_free_block bg') + unat (bg_free_blocks bg') \<le> unat bpg - (if bg_free_blocks bg' = 0 then 0 else unat num) \<and>
    unat (bg_free_blocks bg') = unat (bg_free_blocks bg) - unat num \<and> first_free_block bg \<le> first_free_block bg' \<and>
    first_block bg' = first_block bg \<and> header_blocks bg' = header_blocks bg"
proof -
  let ?f = "unat (first_free_block bg)" and ?n = "unat (bg_free_blocks bg)"
  have ok: "marked (block_bitmap bg) = {..<unat bpg} - {?f..<?f + ?n}" "?f + ?n \<le> unat bpg" "unat bpg \<le> 8 * length (block_bitmap bg)"
      "8 * length (block_bitmap bg) < 2 ^ 32 - 8" using assms(1) by (auto simp: group_ok_def)
  have num: "unat num \<le> ?n" using assms(2) by (simp add: word_le_nat_alt)
  have s: "unat (bpg - num) = unat bpg - unat num" using num assms(3) by (simp add: unat_sub word_le_nat_alt)
  have "marked (block_bitmap bg) \<inter> {unat (bpg - num)..<unat (bpg - num) + unat num} = {}"
    using num s assms(3) unfolding ok(1) by auto
  then obtain bm where bm: "reserve_loops num (bpg - num) (block_bitmap bg) = Inr (False, bm)"
      "marked bm = marked (block_bitmap bg) \<union> {unat bpg - unat num..<unat bpg}" "length bm = length (block_bitmap bg)"
    using reserve_loops_marks [of "bpg - num" num "block_bitmap bg"] ok num s assms(3) by auto
  let ?ff = "if bpg - num = first_free_block bg then bpg else first_free_block bg"
  let ?bg = "bg \<lparr>block_bitmap := bm, bg_free_blocks := bg_free_blocks bg - num, first_free_block := ?ff\<rparr>"
  have u: "unat (bg_free_blocks bg - num) = ?n - unat num" using assms(2) by (simp add: unat_sub)
  have m: "marked bm = {..<unat bpg} - {?f..<?f + (?n - unat num)}" unfolding bm(2) ok(1) by (rule take_last [OF num assms(3)])
  have e: "unat bpg - unat num = ?f \<Longrightarrow> ?n = unat num" using assms(3) num by linarith
  have eq: "bpg - num = first_free_block bg \<Longrightarrow> unat bpg - unat num = ?f" using s by metis
  have "group_ok bpg ?bg \<and> unat (first_free_block ?bg) + unat (bg_free_blocks ?bg) \<le> unat bpg - (if bg_free_blocks ?bg = 0 then 0 else unat num)
    \<and> first_free_block bg \<le> first_free_block ?bg"
  proof (cases "bpg - num = first_free_block bg")
    case True
    have "?n = unat num" using e eq True by blast
    then show ?thesis using True m bm(3) u ok assms(3) by (auto simp: group_ok_def word_le_nat_alt unat_eq_zero)
  next
    case False
    then show ?thesis using m bm(3) u ok num assms(3) by (auto simp: group_ok_def)
  qed
  moreover have "reserve_blocks frc (bpg - num) num bg = Inr (True, ?bg)" 
    using bm(1) assms(2) by (auto simp: reserve_blocks_def not_less algebra_simps)
  moreover have "first_block ?bg = first_block bg" "header_blocks ?bg = header_blocks bg" "unat (bg_free_blocks ?bg) = ?n - unat num"
    using u by simp_all
  ultimately show ?thesis by (intro exI [of _ ?bg]) auto
qed

section \<open>A new group\<close>

text \<open>
  The header of a group: bitmaps, inode table and, in some groups, super block and descriptors.  The blocks behind the end of
  the device are reserved in the last group.
\<close>

definition header_size :: "ext4_fs \<Rightarrow> nat \<Rightarrow> u32" where
  "header_size fs i = 2 + inode_table_blocks (aux_info fs) + (if ext4_bg_has_super_block (info fs) (int i) then super_blocks fs else 0)"

definition group_start :: "ext4_fs \<Rightarrow> nat \<Rightarrow> nat" where
  "group_start fs i = unat (first_data_block (aux_info fs)) + i * unat (blocks_per_group (info fs))"

definition group_end :: "ext4_fs \<Rightarrow> nat \<Rightarrow> nat" where
  "group_end fs i = min (group_start fs (Suc i)) (unat (len_blocks (aux_info fs)))"

text \<open>What the parameters have to satisfy: bitmaps are large enough, the device's blocks can be counted, headers fit.\<close>

definition layout_ok :: "ext4_fs \<Rightarrow> bool" where
  "layout_ok fs \<longleftrightarrow>
     (let bpg = unat (blocks_per_group (info fs))
      in 0 < bpg \<and> bpg \<le> 8 * unat (block_size (info fs)) \<and> 8 * unat (block_size (info fs)) < 2 ^ 32 - 8 \<and>
         group_start fs (unat (groups (aux_info fs))) < 2 ^ 32 - 1 \<and>
         (\<forall>i < unat (groups (aux_info fs)). group_start fs i + unat (header_size fs i) \<le> group_end fs i))"

definition group_in :: "ext4_fs \<Rightarrow> nat \<Rightarrow> block_group_info \<Rightarrow> bool" where
  "group_in fs i bg \<longleftrightarrow>
     group_ok (blocks_per_group (info fs)) bg \<and> unat (first_block bg) = group_start fs i \<and>
     free_set bg \<subseteq> {group_start fs i + unat (header_size fs i)..<group_end fs i}"

lemma unat_ucast_u64 [simp]: "unat (ucast (x :: u32) :: u64) = unat x"
  using unsigned_less [of x, where 'a = nat] by (simp add: unsigned_ucast_eq take_bit_nat_eq_self)

lemma unat_group_start:
  assumes "group_start fs (Suc i) < 2 ^ 32"
  shows "unat (first_data_block (aux_info fs) + of_nat i * blocks_per_group (info fs)) = group_start fs i"
    and "unat (first_data_block (aux_info fs) + of_nat i * blocks_per_group (info fs) + blocks_per_group (info fs)) = group_start fs (Suc i)"
proof -
  let ?b = "blocks_per_group (info fs)" and ?d = "first_data_block (aux_info fs)"
  have "?d + of_nat i * ?b = word_of_nat (group_start fs i)" "?d + of_nat i * ?b + ?b = word_of_nat (group_start fs (Suc i))"
    by (simp_all add: group_start_def)
  then show "unat (?d + of_nat i * ?b) = group_start fs i" "unat (?d + of_nat i * ?b + ?b) = group_start fs (Suc i)"
    using assms unat_of_nat_u32 [of "group_start fs i"] unat_of_nat_u32 [of "group_start fs (Suc i)"]
    by (simp_all add: group_start_def algebra_simps)
qed

lemma unat_overrun:
  assumes "(y :: u64) < ucast (x :: u32)"
  shows "unat (ucast (ucast x - y) :: u32) = unat x - unat y"
proof -
  have y: "unat y < unat x" using assms by (simp add: word_less_nat_alt)
  have "unat (ucast x - y) = unat x - unat y" using y by (simp add: unat_sub word_le_nat_alt)
  then show ?thesis using unsigned_less [of x, where 'a = nat] by (simp add: unsigned_ucast_eq take_bit_nat_eq_self)
qed

lemma init_bg_group:
  assumes "layout_ok fs" and "i < unat (groups (aux_info fs))"
  shows "\<exists>bg blk. init_bg i fs = Inr (bg, sparse_file_add_data (2 * block_size (info fs)) blk fs) \<and> group_in fs i bg"
proof -
  let ?bpg = "blocks_per_group (info fs)" and ?hb = "header_size fs i" and ?len = "len_blocks (aux_info fs)"
  let ?fb = "first_data_block (aux_info fs) + of_nat i * ?bpg"
  have l: "0 < unat ?bpg" "unat ?bpg \<le> 8 * unat (block_size (info fs))" "8 * unat (block_size (info fs)) < 2 ^ 32 - 8"
      "group_start fs (unat (groups (aux_info fs))) < 2 ^ 32 - 1" "group_start fs i + unat ?hb \<le> group_end fs i"
    using assms by (auto simp: layout_ok_def Let_def)
  have "group_start fs (Suc i) \<le> group_start fs (unat (groups (aux_info fs)))"
    using mult_le_mono1 [of "Suc i" "unat (groups (aux_info fs))" "unat ?bpg"] assms(2) by (simp add: group_start_def)
  then have s: "unat ?fb = group_start fs i" "unat (?fb + ?bpg) = group_start fs (Suc i)"
    using unat_group_start [of fs i] l(4) by auto
  have suc: "group_start fs (Suc i) = group_start fs i + unat ?bpg" by (simp add: group_start_def)
  have hb: "unat ?hb \<le> unat ?bpg" using l(5) suc by (simp add: group_end_def)
  let ?bg = "\<lparr>first_block = ?fb, header_blocks = ?hb, data_blocks_used = 0, has_superblock = ext4_bg_has_super_block (info fs) (int i),
      block_bitmap = replicate (unat (block_size (info fs))) 0, inode_bitmap = replicate (unat (block_size (info fs))) 0,
      inode_table = None, bg_free_blocks = ?bpg, first_free_block = 0, free_inodes = inodes_per_group (info fs),
      first_free_inode = 1, bg_flags = EXT4_BG_INODE_UNINIT, used_dirs = 0\<rparr>"
  have "group_ok ?bpg ?bg" using l by (auto simp: group_ok_def)
  then obtain bg1 where bg1: "reserve_blocks (force fs) 0 ?hb ?bg = Inr (True, bg1)" "group_ok ?bpg bg1"
      "unat (first_free_block bg1) = unat ?hb" "unat (bg_free_blocks bg1) = unat ?bpg - unat ?hb" "first_block bg1 = ?fb"
    using reserve_blocks_first [of ?bpg ?bg ?hb "force fs"] hb by (auto simp: word_le_nat_alt)
  let ?fs = "sparse_file_add_data (2 * block_size (info fs)) (?fb + (if ext4_bg_has_super_block (info fs) (int i) then super_blocks fs else 0)) fs"
  show ?thesis
  proof (cases "ucast (?fb + ?bpg) > ?len")
    case True
    let ?o = "ucast (ucast (?fb + ?bpg) - ?len) :: u32"
    have o: "unat ?o = group_start fs (Suc i) - unat ?len" using unat_overrun [OF True] s(2) by simp
    have lt: "unat ?len < group_start fs (Suc i)" using True s(2) by (simp add: word_less_nat_alt)
    then have e: "group_end fs i = unat ?len" by (simp add: group_end_def)
    have le: "?o \<le> bg_free_blocks bg1" using o l(5) e suc bg1(4) by (simp add: word_le_nat_alt)
    obtain bg2 where bg2: "reserve_blocks (force fs) (?bpg - ?o) ?o bg1 = Inr (True, bg2)" "group_ok ?bpg bg2"
        "unat (first_free_block bg2) + unat (bg_free_blocks bg2) \<le> unat ?bpg - (if bg_free_blocks bg2 = 0 then 0 else unat ?o)"
        "unat (bg_free_blocks bg2) = unat (bg_free_blocks bg1) - unat ?o" "first_free_block bg1 \<le> first_free_block bg2"
        "first_block bg2 = ?fb"
      using reserve_blocks_last [OF bg1(2) le, of "force fs"] bg1(3,4,5) hb by auto
    have "unat ?hb \<le> unat (first_free_block bg2)" using bg2(5) bg1(3) by (simp add: word_le_nat_alt)
    then have "group_in fs i bg2"
      using bg2(2,3,6) s(1) o e suc lt l(5)
      by (cases "bg_free_blocks bg2 = 0") (auto simp: group_in_def free_set_def Let_def)
    moreover have "init_bg i fs = Inr (bg2, ?fs)"
      using True bg1(1) bg2(1) by (simp add: init_bg_def Let_def header_size_def)
    ultimately show ?thesis by blast
  next
    case False
    then have "group_start fs (Suc i) \<le> unat ?len" using s(2) by (simp add: word_less_nat_alt not_less)
    then have "group_in fs i bg1"
      using bg1 s(1) hb suc by (auto simp: group_in_def free_set_def Let_def group_end_def)
    moreover have "init_bg i fs = Inr (bg1, ?fs)" using False bg1(1) by (simp add: init_bg_def Let_def header_size_def)
    ultimately show ?thesis by blast
  qed
qed

section \<open>All groups\<close>

definition fs_ok :: "ext4_fs \<Rightarrow> bool" where
  "fs_ok fs \<longleftrightarrow> layout_ok fs \<and> length (bgs fs) = unat (groups (aux_info fs)) \<and>
     (\<forall>i < length (bgs fs). group_in fs i (bgs fs ! i))"

definition all_free :: "ext4_fs \<Rightarrow> nat set" where
  "all_free fs = (\<Union>bg \<in> set (bgs fs). free_set bg)"

text \<open>The free blocks in the sense of the counters of the groups.\<close>

definition free_count :: "ext4_fs \<Rightarrow> nat" where
  "free_count fs = sum_list (map (\<lambda>bg. unat (bg_free_blocks bg)) (bgs fs))"

text \<open>Properties of a group depend on the parameters only.\<close>

lemma layout_cong:
  assumes "info fs' = info fs" and "aux_info fs' = aux_info fs"
  shows "layout_ok fs' = layout_ok fs" and "group_in fs' = group_in fs" and "header_size fs' = header_size fs"
    and "group_start fs' = group_start fs" and "group_end fs' = group_end fs"
proof -
  show h: "header_size fs' = header_size fs" "group_start fs' = group_start fs"
    using assms by (auto simp: header_size_def group_start_def super_blocks_def fun_eq_iff)
  then show e: "group_end fs' = group_end fs" using assms by (auto simp: group_end_def)
  show "layout_ok fs' = layout_ok fs" "group_in fs' = group_in fs" using assms h e by (auto simp: layout_ok_def group_in_def fun_eq_iff)
qed

lemma init_groups_ok:
  assumes "layout_ok fs" and "\<forall>i < length (bgs fs). group_in fs i (bgs fs ! i)" and "length (bgs fs) + n = unat (groups (aux_info fs))"
  shows "\<exists>fs'. init_groups [length (bgs fs)..<length (bgs fs) + n] fs = Inr fs' \<and> fs_ok fs' \<and> info fs' = info fs \<and> aux_info fs' = aux_info fs \<and>
    force fs' = force fs"
  using assms
proof (induction n arbitrary: fs)
  case 0
  then show ?case by (simp add: fs_ok_def)
next
  case (Suc n)
  obtain bg blk where bg: "init_bg (length (bgs fs)) fs = Inr (bg, sparse_file_add_data (2 * block_size (info fs)) blk fs)"
      "group_in fs (length (bgs fs)) bg"
    using init_bg_group [OF Suc.prems(1), of "length (bgs fs)"] Suc.prems(3) by auto
  let ?fs = "sparse_file_add_data (2 * block_size (info fs)) blk fs \<lparr>bgs := bgs fs @ [bg]\<rparr>"
  have c: "info ?fs = info fs" "aux_info ?fs = aux_info fs" "bgs ?fs = bgs fs @ [bg]" "force ?fs = force fs" by (simp_all add: sparse_file_add_data_def)
  have "\<exists>fs'. init_groups [length (bgs ?fs)..<length (bgs ?fs) + n] ?fs = Inr fs' \<and> fs_ok fs' \<and> info fs' = info ?fs \<and>
    aux_info fs' = aux_info ?fs \<and> force fs' = force ?fs"
  proof (rule Suc.IH)
    show "layout_ok ?fs" using Suc.prems(1) layout_cong(1) [OF c(1,2)] by simp
    show "\<forall>i < length (bgs ?fs). group_in ?fs i (bgs ?fs ! i)"
      using Suc.prems(2) bg(2) layout_cong(2) [OF c(1,2)] c(3) by (auto simp: nth_append less_Suc_eq)
    show "length (bgs ?fs) + n = unat (groups (aux_info ?fs))" using Suc.prems(3) c by simp
  qed
  moreover have "[length (bgs fs)..<length (bgs fs) + Suc n] = length (bgs fs) # [length (bgs ?fs)..<length (bgs ?fs) + n]"
    using c(3) by (simp add: upt_rec)
  moreover have "bgs (sparse_file_add_data (2 * block_size (info fs)) blk fs) = bgs fs" by (simp add: sparse_file_add_data_def)
  ultimately show ?case using bg(1) c by simp
qed

lemma block_allocator_init_ok:
  assumes "layout_ok fs"
  shows "\<exists>fs'. block_allocator_init fs = Inr fs' \<and> fs_ok fs' \<and> info fs' = info fs \<and> aux_info fs' = aux_info fs \<and> force fs' = force fs"
proof -
  have "layout_ok (fs \<lparr>bgs := []\<rparr>)" using assms layout_cong(1) [of "fs \<lparr>bgs := []\<rparr>" fs] by simp
  from init_groups_ok [OF this, of "unat (groups (aux_info fs))"] show ?thesis by (simp add: block_allocator_init_def)
qed

section \<open>Allocation\<close>

lemma group_end_le: "group_end fs i \<le> group_start fs (Suc i)" "group_end fs i \<le> unat (len_blocks (aux_info fs))"
  by (simp_all add: group_end_def)

lemma free_sets_disjoint:
  assumes "fs_ok fs" and "i < length (bgs fs)" and "j < length (bgs fs)" and "i \<noteq> j"
  shows "free_set (bgs fs ! i) \<inter> free_set (bgs fs ! j) = {}"
proof -
  have *: "free_set (bgs fs ! k) \<subseteq> {group_start fs k..<group_start fs (Suc k)}" if "k < length (bgs fs)" for k
  proof -
    have "free_set (bgs fs ! k) \<subseteq> {group_start fs k + unat (header_size fs k)..<group_end fs k}"
      using assms(1) that by (auto simp: fs_ok_def group_in_def)
    then show ?thesis using group_end_le(1) [of fs k] by (auto dest!: subsetD)
  qed
  have mono: "group_start fs (Suc k) \<le> group_start fs l" if "k < l" for k l
    using mult_le_mono1 [of "Suc k" l] that by (simp add: group_start_def)
  have "A \<inter> B = {} \<and> B \<inter> A = {}" if "A \<subseteq> {a..<b}" "B \<subseteq> {c..<d}" "b \<le> c" for A B :: "nat set" and a b c d
    using that by (metis disjoint_iff atLeastLessThan_iff le_trans not_le subsetD inf_commute)
  then show ?thesis using * [OF assms(2)] * [OF assms(3)] mono assms(4) by (metis linorder_neqE_nat)
qed

lemma all_free_nth: "all_free fs = (\<Union>i < length (bgs fs). free_set (bgs fs ! i))"
  by (auto simp: all_free_def set_conv_nth)

text \<open>Taking blocks from a group with enough of them.\<close>

lemma allocate_from_group:
  assumes "fs_ok fs" and "g < length (bgs fs)" and "num \<le> bg_free_blocks (bgs fs ! g)" and "0 < num"
  shows "\<exists>block fs'. ext4_allocate_blocks_from_block_group num g fs = Inr (block, fs') \<and> block \<noteq> EXT4_ALLOCATE_FAILED \<and>
    fs_ok fs' \<and> {unat block..<unat block + unat num} \<subseteq> all_free fs \<and>
    all_free fs' = all_free fs - {unat block..<unat block + unat num} \<and>
    free_count fs' = free_count fs - unat num \<and> unat num \<le> free_count fs \<and>
    bg_free_blocks (bgs fs' ! g) = bg_free_blocks (bgs fs ! g) - num \<and>
    info fs' = info fs \<and> aux_info fs' = aux_info fs \<and> length (bgs fs') = length (bgs fs) \<and> force fs' = force fs \<and>
    (\<forall>i < length (bgs fs). i \<noteq> g \<longrightarrow> bgs fs' ! i = bgs fs ! i) \<and>
    unat (first_block (bgs fs' ! g)) + unat (first_free_block (bgs fs' ! g)) = unat block + unat num \<and>
    {unat block..<unat block + unat num} \<subseteq> {group_start fs g + unat (header_size fs g)..<group_end fs g} \<and>
    unat num \<le> unat (blocks_per_group (info fs))"
proof -
  let ?bg = "bgs fs ! g" and ?bpg = "blocks_per_group (info fs)"
  have gi: "group_in fs g ?bg" using assms(1,2) by (simp add: fs_ok_def)
  then have ok: "group_ok ?bpg ?bg" by (simp add: group_in_def)
  obtain bg1 where bg1: "reserve_blocks (force fs) (first_free_block ?bg) num ?bg = Inr (True, bg1)" "group_ok ?bpg bg1"
      "unat (first_free_block bg1) = unat (first_free_block ?bg) + unat num"
      "unat (bg_free_blocks bg1) = unat (bg_free_blocks ?bg) - unat num" "first_block bg1 = first_block ?bg"
    using reserve_blocks_first [OF ok assms(3), of "force fs"] by auto
  let ?bg2 = "bg1 \<lparr>data_blocks_used := data_blocks_used bg1 + num\<rparr>"
  let ?fs = "fs \<lparr>bgs := (bgs fs)[g := ?bg2]\<rparr>" and ?block = "first_block bg1 + first_free_block ?bg"
  have n: "unat num \<le> unat (bg_free_blocks ?bg)" "0 < unat num" using assms(3,4) by (simp_all add: word_le_nat_alt word_less_nat_alt)
  have f: "free_set ?bg \<subseteq> {group_start fs g + unat (header_size fs g)..<group_end fs g}" using gi by (simp add: group_in_def)
  have "unat (first_block ?bg) + unat (first_free_block ?bg) \<in> free_set ?bg" using n by (simp add: free_set_def Let_def)
  then have "unat (first_block ?bg) + unat (first_free_block ?bg) < group_start fs (Suc g)" using f group_end_le(1) [of fs g] by fastforce
  moreover have "group_start fs (Suc g) < 2 ^ 32 - 1"
    using assms(1,2) mult_le_mono1 [of "Suc g" "unat (groups (aux_info fs))" "unat ?bpg"]
    by (auto simp: fs_ok_def layout_ok_def group_start_def Let_def)
  ultimately have lt: "unat (first_block ?bg) + unat (first_free_block ?bg) < 2 ^ 32 - 1" by simp
  have b: "unat ?block = unat (first_block ?bg) + unat (first_free_block ?bg)" using lt bg1(5) by (simp add: unat_add)
  have new: "free_set ?bg2 = free_set ?bg - {unat ?block..<unat ?block + unat num}"
    using bg1 n b by (auto simp: free_set_def Let_def)
  have sub: "{unat ?block..<unat ?block + unat num} \<subseteq> free_set ?bg" using n b by (auto simp: free_set_def Let_def)
  have "group_ok ?bpg ?bg2" using bg1(2) by (simp add: group_ok_def)
  then have "group_in fs g ?bg2" using gi bg1(5) new by (auto simp: group_in_def)
  then have fsok: "fs_ok ?fs"
    using assms(1,2) layout_cong(1,2) [of ?fs fs] by (auto simp: fs_ok_def nth_list_update)
  have "all_free ?fs = (\<Union>i < length (bgs fs). if i = g then free_set ?bg2 else free_set (bgs fs ! i))"
    unfolding all_free_nth using assms(2) by (intro SUP_cong) (auto simp: nth_list_update)
  also have "\<dots> = all_free fs - {unat ?block..<unat ?block + unat num}"
    unfolding all_free_nth using assms(2) new sub free_sets_disjoint [OF assms(1,2)] by (auto split: if_splits)
  finally have af: "all_free ?fs = all_free fs - {unat ?block..<unat ?block + unat num}" .
  have "unat (bg_free_blocks ?bg) \<le> free_count fs"
    using assms(2) by (auto simp: free_count_def intro!: member_le_sum_list)
  moreover have "free_count ?fs = free_count fs + unat (bg_free_blocks bg1) - unat (bg_free_blocks ?bg)"
    using assms(2) by (simp add: free_count_def map_update sum_list_update)
  ultimately have fc: "free_count ?fs = free_count fs - unat num" "unat num \<le> free_count fs" using bg1(4) n by simp_all
  have "ext4_allocate_blocks_from_block_group num g fs = Inr (?block, ?fs)"
    using assms(2,3) bg1(1) by (auto simp: ext4_allocate_blocks_from_block_group_def get_free_blocks_def Let_def)
  moreover have "?block \<noteq> EXT4_ALLOCATE_FAILED"
  proof
    assume "?block = EXT4_ALLOCATE_FAILED"
    then have "unat ?block = 2 ^ 32 - 1" by (simp add: EXT4_ALLOCATE_FAILED_def unsigned_minus_1_eq_mask mask_eq_exp_minus_1)
    then show False using b lt by simp
  qed
  moreover have "bg_free_blocks bg1 = bg_free_blocks ?bg - num"
    using bg1(4) assms(3) by (simp add: unat_sub word_unat_eq_iff)
  moreover have "{unat ?block..<unat ?block + unat num} \<subseteq> all_free fs" using sub assms(2) unfolding all_free_nth by blast
  moreover have "{unat ?block..<unat ?block + unat num} \<subseteq> {group_start fs g + unat (header_size fs g)..<group_end fs g}"
    using sub f by (rule order_trans)
  moreover have "unat num \<le> unat ?bpg" using n ok by (simp add: group_ok_def)
  ultimately show ?thesis using fsok af fc assms(2) b bg1(3,5) by (intro exI [of _ ?block] exI [of _ ?fs]) simp
qed

section \<open>The parameters of a file system\<close>

lemma unat_DIV_ROUND_UP:
  assumes "unat (x :: 'a :: len word) + unat y < 2 ^ LENGTH('a)" and "0 < unat y"
  shows "unat (DIV_ROUND_UP x y) = (unat x + unat y - 1) div unat y"
proof -
  have "unat (x + y) = unat x + unat y" using assms(1) by (simp add: unat_word_ariths)
  moreover have "1 \<le> x + y" using assms calculation by (simp add: word_le_nat_alt)
  ultimately have "unat (x + y - 1) = unat x + unat y - 1" by (simp add: unat_sub)
  then show ?thesis by (simp add: DIV_ROUND_UP_def unat_div)
qed

lemma round_up_bound:
  assumes "0 < y" and "x \<le> k * y"
  shows "(x + y - 1) div y \<le> (k :: nat)"
proof -
  have "x + y - 1 < Suc k * y" using assms by simp
  then show ?thesis using less_mult_imp_div_less by (metis less_Suc_eq_le)
qed

lemma groups_cover:
  assumes "0 < (b :: nat)"
  shows "(n + b - 1) div b = n div b + (if n mod b = 0 then 0 else 1)"
proof -
  have n: "n = n div b * b + n mod b" by simp
  have "n + b - 1 = n mod b + b - 1 + n div b * b" using n assms by linarith
  then have "(n + b - 1) div b = (n mod b + b - 1 + n div b * b) div b" by (rule arg_cong)
  also have "\<dots> = n div b + (n mod b + b - 1) div b" using assms by (intro div_mult_self1) simp
  also have "(n mod b + b - 1) div b = (if n mod b = 0 then 0 else 1)"
  proof (cases "n mod b = 0")
    case False
    then have "n mod b + b - 1 = n mod b - 1 + 1 * b" "n mod b - 1 < b" using mod_less_divisor [OF assms, of n] by linarith+
    then have "(n mod b + b - 1) div b = 1 + (n mod b - 1) div b" "(n mod b - 1) div b = 0"
      using assms div_mult_self1 [of b "n mod b - 1" 1] by (metis less_not_refl, metis div_less)
    then show ?thesis using False by simp
  qed (use assms in simp)
  finally show ?thesis .
qed

lemma aux_info_layout:
  assumes "aux_info fs = ext4_create_fs_aux_info (info fs)" and "1024 < block_size (info fs)"
    and "1 < unat (blocks_per_group (info fs))" and "unat (blocks_per_group (info fs)) \<le> 8 * unat (block_size (info fs))"
    and "8 * unat (block_size (info fs)) < 2 ^ 32 - 8"
    and "unat (fs_len (info fs)) div unat (block_size (info fs)) + unat (blocks_per_group (info fs)) < 2 ^ 32 - 1"
    and "\<forall>i. unat (header_size fs i) \<le> unat (blocks_per_group (info fs))"
  shows "layout_ok fs"
proof -
  let ?fi = "info fs" and ?bpg = "blocks_per_group (info fs)"
  define b where "b = unat ?bpg"
  define n where "n = unat (fs_len ?fi) div unat (block_size ?fi)"
  define lb where "lb = fs_len ?fi div ucast (block_size ?fi)"
  define gs :: u32 where "gs = ucast (DIV_ROUND_UP (lb - ucast (0 :: u32)) (ucast ?bpg))"
  have lb: "unat lb = n" by (simp add: lb_def n_def unat_div)
  have b: "0 < b" "n + b < 2 ^ 32 - 1" "1 < b" using assms(3,6) by (simp_all add: b_def n_def)
  have "unat (DIV_ROUND_UP lb (ucast ?bpg)) = (n + b - 1) div b"
    using unat_DIV_ROUND_UP [of lb "ucast ?bpg"] b lb by (simp add: b_def)
  moreover have "(n + b - 1) div b < 2 ^ 32" using b div_le_dividend [of "n + b - 1" b] by linarith
  ultimately have gs: "unat gs = n div b + (if n mod b = 0 then 0 else 1)"
    using groups_cover [OF b(1), of n] by (simp add: gs_def unsigned_ucast_eq take_bit_nat_eq_self)
  define last where "last = (ucast (lb mod ucast ?bpg) :: u32)"
  have last: "unat last = n mod b"
  proof -
    have "n mod b < 2 ^ 32" using b mod_less_divisor [OF b(1), of n] by linarith
    then show ?thesis using lb by (simp add: last_def unsigned_ucast_eq unat_mod_distrib b_def take_bit_nat_eq_self)
  qed
  let ?H = "\<lambda>i. 2 + DIV_ROUND_UP (inodes_per_group ?fi * inode_size ?fi) (block_size ?fi) +
     (if ext4_bg_has_super_block ?fi i then 1 + ucast (DIV_ROUND_UP (ucast gs * GROUP_DESC_SIZE) (ucast (block_size ?fi))) + bg_desc_reserve_blocks ?fi else 0)"
  define drop where "drop \<longleftrightarrow> 0 < last \<and> last < ?H (sint (gs - 1))"
  note eq = assms(1) [unfolded ext4_create_fs_aux_info_def Let_def if_P [OF assms(2)], folded lb_def, folded gs_def last_def]
  have aux: "first_data_block (aux_info fs) = 0" "len_blocks (aux_info fs) = (if drop then lb - ucast last else lb)"
      "groups (aux_info fs) = (if drop then gs - 1 else gs)" "header_size fs i = ?H (int i)" for i
    unfolding header_size_def super_blocks_def eq by (simp_all only: fs_aux_info.simps drop_def)
  have start: "group_start fs i = i * b" for i using aux(1) by (simp add: group_start_def b_def)
  have full: "group_start fs i + unat (header_size fs i) \<le> group_end fs i" if "(i + 1) * b \<le> unat (len_blocks (aux_info fs))" for i
    using that start assms(7) [rule_format, of i] by (simp add: group_end_def b_def)
  have nb: "n = n div b * b + n mod b" by simp
  have small: "n div b < 2 ^ 31"
  proof -
    have "n div b \<le> n div 2" using b(3) by (intro div_le_mono2) simp_all
    also have "n div 2 < 2 ^ 31" using b(2) by (intro less_mult_imp_div_less) simp
    finally show ?thesis .
  qed
  have dropped: "unat (groups (aux_info fs)) = n div b" "unat (len_blocks (aux_info fs)) = n div b * b" if drop
  proof -
    have "last \<noteq> 0" using that by (simp add: drop_def word_gt_0)
    then have m: "0 < n mod b" using last by (metis gr0I unat_eq_zero)
    have "unat (lb - ucast last) = n - n mod b" using lb last by (simp add: unat_sub word_le_nat_alt)
    then show "unat (len_blocks (aux_info fs)) = n div b * b" using that aux(2) by (simp add: minus_mod_eq_div_mult)
    have "unat (gs - 1) = n div b" using gs m by (simp add: unat_sub word_le_nat_alt)
    then show "unat (groups (aux_info fs)) = n div b" using that aux(3) by simp
  qed
  have in_full: "(i + 1) * b \<le> n div b * b" if "i < n div b" for i using that by (intro mult_le_mono1) simp
  have "group_start fs i + unat (header_size fs i) \<le> group_end fs i" if i: "i < unat (groups (aux_info fs))" for i
  proof (cases drop)
    case True
    then show ?thesis using full [of i] dropped [OF True] in_full [of i] i by simp
  next
    case False
    then have len: "unat (len_blocks (aux_info fs)) = n" and "unat (groups (aux_info fs)) = unat gs" using aux lb by simp_all
    then have i': "i < n div b + (if n mod b = 0 then 0 else 1)" using i gs by simp
    show ?thesis
    proof (cases "i < n div b")
      case True
      then show ?thesis using full [of i] in_full [of i] len nb by linarith
    next
      case low: False
      then have e: "i = n div b" and m: "0 < n mod b" using i' by (auto split: if_splits)
      have "unat (gs - 1) = i" using gs m e by (simp add: unat_sub word_le_nat_alt)
      then have "sint (gs - 1) = int i" using small e by (simp add: sint_u32 uint_nat)
      moreover have "0 < last" using last m by (simp add: word_less_nat_alt)
      ultimately have "header_size fs i \<le> last" using False aux(4) [of i] by (simp add: drop_def not_less)
      then have "i * b + unat (header_size fs i) \<le> n" using last e nb by (metis add_le_mono le_refl word_le_nat_alt)
      moreover have "n \<le> Suc i * b" using e nb mod_less_divisor [OF b(1), of n] by (metis add.commute add_le_cancel_left less_imp_le mult_Suc)
      ultimately show ?thesis using start len by (simp add: group_end_def)
    qed
  qed
  moreover have "group_start fs (unat (groups (aux_info fs))) < 2 ^ 32 - 1"
  proof -
    have "unat (groups (aux_info fs)) * b \<le> n + b"
      using gs nb dropped(1) aux(3) by (cases drop) (auto intro: trans_le_add1)
    then show ?thesis using start b(2) by simp
  qed
  ultimately show ?thesis using assms(3,4,5) by (simp add: layout_ok_def Let_def)
qed

text \<open>\<^verbatim>\<open>make_ext4fs\<close> sets only the length and leaves the rest to \<^verbatim>\<open>make_ext4fs_internal\<close>.\<close>

definition reset_ext4fs_info :: fs_info where
  "reset_ext4fs_info = \<lparr>fs_len = 0, block_size = 0, blocks_per_group = 0, inodes_per_group = 0, inode_size = 0, fs_inodes = 0,
     journal_blocks = 0, feat_ro_compat = 0, feat_compat = 0, feat_incompat = 0, bg_desc_reserve_blocks = 0, no_journal = False\<rparr>"

definition new_fs :: "u64 \<Rightarrow> ext4_fs" where
  "new_fs n =
     (let fi = complete_info (reset_ext4fs_info \<lparr>fs_len := n\<rparr>)
      in \<lparr>force = False, info = fi, aux_info = ext4_create_fs_aux_info fi, bgs = [], sparse_data = []\<rparr>)"

lemma complete_stages:
  "complete_counts (complete_journal (complete_size (reset_ext4fs_info \<lparr>fs_len := n\<rparr>))) =
     (let r = n AND NOT 4095; fi = complete_journal (complete_size (reset_ext4fs_info \<lparr>fs_len := n\<rparr>))
      in fi \<lparr>blocks_per_group := 32768, fs_inodes := ucast (DIV_ROUND_UP r 4096 div 4), inode_size := 256\<rparr>)"
  "complete_journal (complete_size (reset_ext4fs_info \<lparr>fs_len := n\<rparr>)) =
     reset_ext4fs_info \<lparr>fs_len := n AND NOT 4095, block_size := 4096, feat_compat := EXT4_FEATURE_COMPAT_HAS_JOURNAL,
       journal_blocks := compute_journal_blocks (reset_ext4fs_info \<lparr>fs_len := n AND NOT 4095, block_size := 4096\<rparr>)\<rparr>"
proof -
  have "complete_size (reset_ext4fs_info \<lparr>fs_len := n\<rparr>) = reset_ext4fs_info \<lparr>fs_len := n AND NOT 4095, block_size := 4096\<rparr>"
    by (simp add: complete_size_def reset_ext4fs_info_def compute_block_size_def)
  then show j: "complete_journal (complete_size (reset_ext4fs_info \<lparr>fs_len := n\<rparr>)) =
     reset_ext4fs_info \<lparr>fs_len := n AND NOT 4095, block_size := 4096, feat_compat := EXT4_FEATURE_COMPAT_HAS_JOURNAL,
       journal_blocks := compute_journal_blocks (reset_ext4fs_info \<lparr>fs_len := n AND NOT 4095, block_size := 4096\<rparr>)\<rparr>"
    by (simp add: complete_journal_def reset_ext4fs_info_def)
  show "complete_counts (complete_journal (complete_size (reset_ext4fs_info \<lparr>fs_len := n\<rparr>))) =
     (let r = n AND NOT 4095; fi = complete_journal (complete_size (reset_ext4fs_info \<lparr>fs_len := n\<rparr>))
      in fi \<lparr>blocks_per_group := 32768, fs_inodes := ucast (DIV_ROUND_UP r 4096 div 4), inode_size := 256\<rparr>)"
    unfolding j by (simp add: complete_counts_def reset_ext4fs_info_def compute_blocks_per_group_def compute_inodes_def len_in_blocks_def)
qed

lemma compute_bg_desc_reserve_blocks_le: "compute_bg_desc_reserve_blocks fi \<le> block_size fi div 4"
  by (simp add: compute_bg_desc_reserve_blocks_def Let_def not_less)

lemma new_fs_info:
  shows "block_size (info (new_fs n)) = 4096" and "blocks_per_group (info (new_fs n)) = 32768" and "inode_size (info (new_fs n)) = 256"
    and "fs_len (info (new_fs n)) = n AND NOT 4095" and "bg_desc_reserve_blocks (info (new_fs n)) \<le> 1024"
    and "inodes_per_group (info (new_fs n)) =
      ALIGN (DIV_ROUND_UP (ucast (DIV_ROUND_UP (n AND NOT 4095) 4096 div 4)) (DIV_ROUND_UP (ucast (DIV_ROUND_UP (n AND NOT 4095) 4096)) 32768)) 16"
    and "aux_info (new_fs n) = ext4_create_fs_aux_info (info (new_fs n))"
  unfolding new_fs_def complete_info_def complete_stages(1) unfolding complete_stages(2)
  by (simp_all add: Let_def complete_features_def compute_inodes_per_group_def len_in_blocks_def reset_ext4fs_info_def
      order_trans [OF compute_bg_desc_reserve_blocks_le])

lemma unat_add_le: "unat (a + b :: u32) \<le> unat a + unat b"
  by (simp add: unat_word_ariths)

lemma default_header_fits:
  assumes "unat n < 2 ^ 43" and "4096 \<le> unat n"
  shows "unat (header_size (new_fs n) i) \<le> 2563"
proof -
  define r where "r = n AND NOT 4095"
  define B where "B = DIV_ROUND_UP r (4096 :: u64)"
  define G where "G = DIV_ROUND_UP (ucast B) (32768 :: u32)"
  define x where "x = DIV_ROUND_UP (ucast (B div 4)) G"
  have r: "unat r < 2 ^ 43" "0 < unat r"
  proof -
    have "unat r \<le> unat n" using word_and_le2 [of n "NOT 4095"] by (simp add: r_def word_le_nat_alt)
    then show "unat r < 2 ^ 43" using assms(1) by simp
    have m: "(4095 :: u64) = mask 12" by (simp add: mask_eq_exp_minus_1)
    have "r \<noteq> 0"
    proof
      assume "r = 0"
      then have "\<not> bit r i" for i by simp
      then have "n = n AND 4095" unfolding r_def bit_and_iff bit_not_iff by (intro bit_word_eqI) (auto simp: bit_and_iff)
      then have "n \<le> 4095" by (metis word_and_le1)
      then show False using assms(2) by (simp add: word_le_nat_alt)
    qed
    then show "0 < unat r" by (simp add: unat_gt_0)
  qed
  have B: "unat B = (unat r + 4095) div 4096" using unat_DIV_ROUND_UP [of r 4096] r by (simp add: B_def)
  have B_le: "unat B \<le> 2 ^ 31" unfolding B using round_up_bound [of 4096 "unat r" "2 ^ 31"] r by simp
  have B_pos: "0 < unat B" unfolding B using r(2) by (simp add: div_greater_zero_iff)
  have ub: "unat (ucast B :: u32) = unat B" "unat (ucast (B div 4) :: u32) = unat B div 4"
    using B_le by (simp_all add: unsigned_ucast_eq take_bit_nat_eq_self unat_div)
  have G: "unat G = (unat B + 32767) div 32768" using unat_DIV_ROUND_UP [of "ucast B :: u32" 32768] B_le ub by (simp add: G_def)
  have G_pos: "0 < unat G" unfolding G using B_pos by (simp add: div_greater_zero_iff)
  have "unat B + 32767 = unat G * 32768 + (unat B + 32767) mod 32768" unfolding G by simp
  moreover have "(unat B + 32767) mod 32768 < 32768" by simp
  ultimately have "unat B div 4 \<le> 8192 * unat G" by linarith
  moreover have "unat x = (unat B div 4 + unat G - 1) div unat G"
    using unat_DIV_ROUND_UP [of "ucast (B div 4) :: u32" G] G_pos ub B_le G by (simp add: x_def)
  ultimately have x: "unat x \<le> 8192" using round_up_bound [OF G_pos, of "unat B div 4" 8192] by simp
  have "unat (DIV_ROUND_UP x 16) \<le> 512"
    using unat_DIV_ROUND_UP [of x 16] x round_up_bound [of 16 "unat x" 512] by simp
  then have ipg: "unat (ALIGN x 16) \<le> 8192" by (simp add: ALIGN_def unat_word_ariths)
  have "unat (ALIGN x 16 * 256) \<le> 2097152" using ipg by (simp add: unat_word_ariths)
  then have itb: "unat (DIV_ROUND_UP (ALIGN x 16 * 256) 4096) \<le> 512"
    using unat_DIV_ROUND_UP [of "ALIGN x 16 * 256" 4096] round_up_bound [of 4096 "unat (ALIGN x 16 * 256)" 512] by simp
  let ?gs = "ucast (DIV_ROUND_UP (r div 4096) 32768) :: u32"
  have "unat (r div 4096) \<le> 2 ^ 31" using r(1) by (simp add: unat_div div_le_mono less_mult_imp_div_less)
  then have "unat (DIV_ROUND_UP (r div 4096) 32768) \<le> 65536"
    using unat_DIV_ROUND_UP [of "r div 4096" 32768] round_up_bound [of 32768 "unat (r div 4096)" 65536] by simp
  then have gs: "unat ?gs \<le> 65536" by (simp add: unsigned_ucast_eq take_bit_nat_eq_self)
  then have "unat (ucast ?gs * GROUP_DESC_SIZE) \<le> 2097152" by (simp add: unat_word_ariths GROUP_DESC_SIZE_def)
  then have "unat (DIV_ROUND_UP (ucast ?gs * GROUP_DESC_SIZE) 4096) \<le> 512"
    using unat_DIV_ROUND_UP [of "ucast ?gs * GROUP_DESC_SIZE" 4096] round_up_bound [of 4096 "unat (ucast ?gs * GROUP_DESC_SIZE)" 512] by simp
  then have gdb: "unat (ucast (DIV_ROUND_UP (ucast ?gs * GROUP_DESC_SIZE) 4096) :: u32) \<le> 512"
    by (simp add: unsigned_ucast_eq take_bit_nat_eq_self)
  let ?fs = "new_fs n"
  have "inode_table_blocks (aux_info ?fs) = DIV_ROUND_UP (ALIGN x 16 * 256) 4096"
    unfolding new_fs_info(7) by (simp add: ext4_create_fs_aux_info_def Let_def new_fs_info x_def G_def B_def r_def)
  moreover have "bg_desc_blocks (aux_info ?fs) = ucast (DIV_ROUND_UP (ucast ?gs * GROUP_DESC_SIZE) 4096)"
    unfolding new_fs_info(7) by (simp add: ext4_create_fs_aux_info_def Let_def new_fs_info r_def)
  ultimately have a: "unat (inode_table_blocks (aux_info ?fs)) \<le> 512" "unat (bg_desc_blocks (aux_info ?fs)) \<le> 512"
    using itb gdb by simp_all
  have res: "unat (bg_desc_reserve_blocks (info ?fs)) \<le> 1024" using new_fs_info(5) [of n] by (simp add: word_le_nat_alt)
  have "unat (super_blocks ?fs) \<le> 1 + 512 + 1024"
    using unat_add_le [of 1 "bg_desc_blocks (aux_info ?fs)"] unat_add_le [of "1 + bg_desc_blocks (aux_info ?fs)" "bg_desc_reserve_blocks (info ?fs)"] a res
    by (simp add: super_blocks_def)
  then have "unat (if ext4_bg_has_super_block (info ?fs) (int i) then super_blocks ?fs else 0) \<le> 1537" by simp
  then show ?thesis
    using unat_add_le [of 2 "inode_table_blocks (aux_info ?fs)"] a(1)
      unat_add_le [of "2 + inode_table_blocks (aux_info ?fs)" "if ext4_bg_has_super_block (info ?fs) (int i) then super_blocks ?fs else 0"]
      unsigned_numeral [where 'a = nat and 'b = 32, of "Num.Bit0 Num.One"]
    unfolding header_size_def by simp
qed

lemma default_layout:
  assumes "4096 \<le> unat n" and "unat n < 2 ^ 43"
  shows "layout_ok (new_fs n)"
proof (rule aux_info_layout)
  have "unat (fs_len (info (new_fs n))) \<le> unat n" using word_and_le2 [of n "NOT 4095"] by (simp add: new_fs_info word_le_nat_alt)
  then have "unat (fs_len (info (new_fs n))) div 4096 < 2 ^ 31" using assms(2) by (intro less_mult_imp_div_less) simp
  then show "unat (fs_len (info (new_fs n))) div unat (block_size (info (new_fs n))) + unat (blocks_per_group (info (new_fs n))) < 2 ^ 32 - 1"
    by (simp add: new_fs_info)
  show "\<forall>i. unat (header_size (new_fs n) i) \<le> unat (blocks_per_group (info (new_fs n)))"
  proof
    fix i
    show "unat (header_size (new_fs n) i) \<le> unat (blocks_per_group (info (new_fs n)))"
      using default_header_fits [OF assms(2,1), of i] by (simp add: new_fs_info)
  qed
qed (simp_all add: new_fs_info)

section \<open>The choice of a group\<close>

text \<open>What the search has found after some groups.\<close>

definition found_ok :: "u32 \<Rightarrow> block_group_info list \<Rightarrow> nat \<times> u32 \<Rightarrow> bool" where
  "found_ok num gs found \<longleftrightarrow>
     (snd found \<noteq> 0 \<longrightarrow> fst found < length gs \<and> bg_free_blocks (gs ! fst found) = snd found) \<and>
     (\<forall>bg \<in> set gs. if num \<le> snd found then num \<le> bg_free_blocks bg \<longrightarrow> snd found \<le> bg_free_blocks bg
                    else bg_free_blocks bg \<le> snd found)"

lemma found_ok_step:
  assumes "found_ok num gs found" and "0 < num"
  shows "found_ok num (gs @ [bg])
    (if better_group num (snd found) (bg_free_blocks bg) then (length gs, bg_free_blocks bg) else found)"
proof (cases "better_group num (snd found) (bg_free_blocks bg)")
  case True
  then show ?thesis using assms by (auto simp: found_ok_def better_group_def split: if_splits)
next
  case False
  then show ?thesis using assms by (auto simp: found_ok_def better_group_def nth_append not_le not_less split: if_splits)
qed

lemma find_group_ok:
  assumes "0 < num" and "found_ok num pre found"
  shows "found_ok num (pre @ gs) (find_group num (length pre) gs found)"
  using assms(2)
proof (induction gs arbitrary: pre found)
  case (Cons bg gs)
  then show ?case using Cons.IH [OF found_ok_step [OF Cons.prems assms(1), of bg]] by simp
qed simp

section \<open>A new image\<close>

lemma free_set_range:
  assumes "fs_ok fs" and "i < length (bgs fs)"
  shows "free_set (bgs fs ! i) \<subseteq> {group_start fs i + unat (header_size fs i)..<group_end fs i}"
    and "free_set (bgs fs ! i) \<subseteq> {group_start fs i..<group_start fs (Suc i)}"
proof -
  show "free_set (bgs fs ! i) \<subseteq> {group_start fs i + unat (header_size fs i)..<group_end fs i}"
    using assms by (auto simp: fs_ok_def group_in_def)
  then show "free_set (bgs fs ! i) \<subseteq> {group_start fs i..<group_start fs (Suc i)}"
    using group_end_le(1) [of fs i] by (auto dest!: subsetD)
qed

lemma group_start_mono: "k < l \<Longrightarrow> group_start fs (Suc k) \<le> group_start fs l"
  using mult_le_mono1 [of "Suc k" l "unat (blocks_per_group (info fs))"] by (simp add: group_start_def)

lemma all_free_in_group:
  assumes "fs_ok fs" and "i < length (bgs fs)" and "group_start fs i \<le> b" and "b < group_start fs (Suc i)"
  shows "b \<in> all_free fs \<longleftrightarrow> b \<in> free_set (bgs fs ! i)"
proof
  assume "b \<in> all_free fs"
  then obtain j where j: "j < length (bgs fs)" "b \<in> free_set (bgs fs ! j)" unfolding all_free_nth by blast
  then have "group_start fs j \<le> b" "b < group_start fs (Suc j)" using free_set_range(2) [OF assms(1), of j] by auto
  then have "i = j" using assms(3,4) group_start_mono [of i j fs] group_start_mono [of j i fs] by (cases i j rule: linorder_cases) auto
  then show "b \<in> free_set (bgs fs ! i)" using j(2) by simp
next
  assume "b \<in> free_set (bgs fs ! i)"
  then show "b \<in> all_free fs" using assms(2) unfolding all_free_nth by blast
qed

lemma bitmap_exact:
  assumes "fs_ok fs" and "i < length (bgs fs)" and "k < unat (blocks_per_group (info fs))"
  shows "k \<in> marked (block_bitmap (bgs fs ! i)) \<longleftrightarrow> group_start fs i + k \<notin> all_free fs"
proof -
  let ?bg = "bgs fs ! i"
  have g: "group_ok (blocks_per_group (info fs)) ?bg" "unat (first_block ?bg) = group_start fs i"
    using assms(1,2) by (auto simp: fs_ok_def group_in_def)
  have "group_start fs i + k < group_start fs (Suc i)" using assms(3) by (simp add: group_start_def)
  then have "group_start fs i + k \<in> all_free fs \<longleftrightarrow> group_start fs i + k \<in> free_set ?bg" using all_free_in_group [OF assms(1,2)] by simp
  then show ?thesis using g assms(3) by (auto simp: group_ok_def free_set_def Let_def)
qed

lemma header_not_free:
  assumes "fs_ok fs" and "i < length (bgs fs)" and "k < unat (header_size fs i)"
  shows "group_start fs i + k \<notin> all_free fs"
proof -
  have "group_start fs i + unat (header_size fs i) \<le> group_start fs (Suc i)"
    using assms(1,2) group_end_le(1) [of fs i] by (auto simp: fs_ok_def layout_ok_def Let_def intro: order_trans)
  then show ?thesis
    using all_free_in_group [OF assms(1,2), of "group_start fs i + k"] free_set_range(1) [OF assms(1,2)] assms(3) by auto
qed

lemma all_free_in_device:
  assumes "fs_ok fs"
  shows "all_free fs \<subseteq> {..<unat (len_blocks (aux_info fs))}"
proof
  fix b assume "b \<in> all_free fs"
  then obtain i where "i < length (bgs fs)" "b \<in> free_set (bgs fs ! i)" unfolding all_free_nth by blast
  then have "b < group_end fs i" using free_set_range(1) [OF assms, of i] by auto
  then show "b \<in> {..<unat (len_blocks (aux_info fs))}" using group_end_le(2) [of fs i] by simp
qed



end
