(* ===== verification/Ext4_Regions.thy ===== *)
theory Ext4_Regions
  imports Ext4_Allocation
begin

text \<open>
  The allocations of \<^verbatim>\<open>allocate.c\<close>: doubly linked lists of regions, with a place in the list.  The regions live on a heap that
  is the list of all that were ever allocated, a freed one being \<open>None\<close>; a pointer is an index into it.  A loop that
  follows the pointers from region to region without end is noticed when it has made more steps than there are regions.
\<close>

section \<open>Regions\<close>

record region =
  reg_block :: u32
  reg_len :: u32
  reg_bg :: nat
  reg_next :: "nat option"
  reg_prev :: "nat option"

type_synonym heap = "region option list"

record region_list =
  rl_first :: "nat option"
  rl_last :: "nat option"
  rl_iter :: "nat option"
  partial_iter :: u32

record block_allocation =
  alloc_list :: region_list
  oob_list :: region_list

text \<open>Sequencing of steps that may leave early, and access through pointers.\<close>

fun bindE :: "'a ext4_result \<Rightarrow> ('a \<Rightarrow> 'b ext4_result) \<Rightarrow> 'b ext4_result" where
  "bindE (Inl e) f = Inl e"
| "bindE (Inr x) f = f x"

lemma bindE_cong [fundef_cong]: "m = m' \<Longrightarrow> (\<And>x. m' = Inr x \<Longrightarrow> f x = f' x) \<Longrightarrow> bindE m f = bindE m' f'"
  by (cases m') auto

lemma bindE_InrE: "bindE m f = Inr y \<Longrightarrow> (\<And>x. m = Inr x \<Longrightarrow> f x = Inr y \<Longrightarrow> P) \<Longrightarrow> P"
  by (cases m) auto

definition load :: "heap \<Rightarrow> nat option \<Rightarrow> region ext4_result" where
  "load h p =
     (case p of
        None \<Rightarrow> Inl BadAccess
      | Some a \<Rightarrow> (if a < length h then (case h ! a of None \<Rightarrow> Inl BadAccess | Some r \<Rightarrow> Inr r) else Inl BadAccess))"

definition modify :: "(region \<Rightarrow> region) \<Rightarrow> nat option \<Rightarrow> heap \<Rightarrow> heap ext4_result" where
  "modify f p h = bindE (load h p) (\<lambda>r. Inr (h[the p := Some (f r)]))"

definition malloc_region :: "region \<Rightarrow> heap \<Rightarrow> nat \<times> heap" where
  "malloc_region r h = (length h, h @ [Some r])"

definition free_region :: "nat option \<Rightarrow> heap \<Rightarrow> heap ext4_result" where
  "free_region p h = bindE (load h p) (\<lambda>_. Inr (h[the p := None]))"

definition empty_list :: region_list where
  "empty_list = \<lparr>rl_first = None, rl_last = None, rl_iter = None, partial_iter = 0\<rparr>"

definition create_allocation :: block_allocation where
  "create_allocation = \<lparr>alloc_list = empty_list, oob_list = empty_list\<rparr>"

definition region_list_remove :: "region_list \<Rightarrow> nat option \<Rightarrow> heap \<Rightarrow> (region_list \<times> heap) ext4_result" where
  "region_list_remove l reg h =
     bindE (load h reg) (\<lambda>r.
     bindE (if reg_prev r \<noteq> None then modify (\<lambda>p. p \<lparr>reg_next := reg_next r\<rparr>) (reg_prev r) h else Inr h) (\<lambda>h1.
     bindE (load h1 reg) (\<lambda>r.
     bindE (if reg_next r \<noteq> None then modify (\<lambda>n. n \<lparr>reg_prev := reg_prev r\<rparr>) (reg_next r) h1 else Inr h1) (\<lambda>h2.
     bindE (load h2 reg) (\<lambda>r.
     bindE (modify (\<lambda>r. r \<lparr>reg_next := None, reg_prev := None\<rparr>) reg h2) (\<lambda>h3.
       Inr (l \<lparr>rl_first := (if rl_first l = reg then reg_next r else rl_first l),
               rl_last := (if rl_last l = reg then reg_prev r else rl_last l)\<rparr>, h3)))))))"

definition region_list_append :: "region_list \<Rightarrow> nat option \<Rightarrow> heap \<Rightarrow> (region_list \<times> heap) ext4_result" where
  "region_list_append l reg h =
     (if rl_first l = None
      then bindE (modify (\<lambda>r. r \<lparr>reg_prev := None, reg_next := None\<rparr>) reg h) (\<lambda>h1.
             Inr (\<lparr>rl_first = reg, rl_last = reg, rl_iter = reg, partial_iter = 0\<rparr>, h1))
      else bindE (modify (\<lambda>r. r \<lparr>reg_next := reg\<rparr>) (rl_last l) h) (\<lambda>h1.
           bindE (modify (\<lambda>r. r \<lparr>reg_prev := rl_last l, reg_next := None\<rparr>) reg h1) (\<lambda>h2.
             Inr (l \<lparr>rl_last := reg\<rparr>, h2))))"

definition append_region :: "block_allocation \<Rightarrow> u32 \<Rightarrow> u32 \<Rightarrow> nat \<Rightarrow> heap \<Rightarrow> (block_allocation \<times> heap) ext4_result" where
  "append_region alloc block n bg h =
     (case malloc_region \<lparr>reg_block = block, reg_len = n, reg_bg = bg, reg_next = None, reg_prev = None\<rparr> h of
        (a, h1) \<Rightarrow> bindE (region_list_append (alloc_list alloc) (Some a) h1) (\<lambda>(l, h2). Inr (alloc \<lparr>alloc_list := l\<rparr>, h2)))"

section \<open>Allocating\<close>

definition ext4_allocate_best_fit_partial :: "u32 \<Rightarrow> ext4_fs \<times> heap \<Rightarrow> (nat option \<times> ext4_fs \<times> heap) ext4_result" where
  "ext4_allocate_best_fit_partial n s =
     (case s of (fs, h) \<Rightarrow>
        (case find_group n 0 (bgs fs) (0, 0) of (found_bg, found_bg_len) \<Rightarrow>
           if found_bg_len \<noteq> 0
           then (let allocate_len = min n found_bg_len
                 in bindE (ext4_allocate_blocks_from_block_group allocate_len found_bg fs) (\<lambda>(block, fs1).
                      if block = EXT4_ALLOCATE_FAILED then ext4_error (force fs) (Inr (None, fs1, h))
                      else (case malloc_region \<lparr>reg_block = block, reg_len = allocate_len, reg_bg = found_bg,
                                                 reg_next = None, reg_prev = None\<rparr> h of
                              (a, h1) \<Rightarrow> Inr (Some a, fs1, h1))))
           else ext4_error (force fs) (Inr (None, fs, h))))"

lemma load_modify:
  assumes "modify f p h = Inr h'"
  shows "load h' q = (if q = p then map_sum id f (load h q) else load h q)"
  using assms by (auto simp: modify_def load_def nth_list_update elim!: bindE_InrE split: option.splits if_splits)

lemma load_modify_len:
  assumes "modify f p h = Inr h'" and "\<And>r. reg_len (f r) = reg_len r"
  shows "map_sum id reg_len (load h' q) = map_sum id reg_len (load h q)"
  using load_modify [OF assms(1), of q] assms(2) by (cases "load h q") auto

lemma best_fit_partial_len:
  assumes "ext4_allocate_best_fit_partial n s = Inr (Some a, fs1, h1)" and "0 < n"
  shows "\<exists>r. load h1 (Some a) = Inr r \<and> 0 < reg_len r \<and> reg_len r \<le> n"
  using assms
  by (auto simp: ext4_allocate_best_fit_partial_def malloc_region_def load_def ext4_error_def Let_def word_gt_0 min_def
      elim!: bindE_InrE split: prod.splits if_splits)

function ext4_best_fit_loop ::
  "u32 \<Rightarrow> nat option \<Rightarrow> nat option \<Rightarrow> ext4_fs \<times> heap \<Rightarrow> (nat option \<times> ext4_fs \<times> heap) ext4_result" where
  "ext4_best_fit_loop n first_reg prev_reg s =
     (if n = 0 then Inr (first_reg, s)
      else bindE (ext4_allocate_best_fit_partial n s) (\<lambda>(reg, fs1, h1).
             if reg = None then Inr (None, fs1, h1)
             else bindE (if prev_reg \<noteq> None
                         then bindE (modify (\<lambda>p. p \<lparr>reg_next := reg\<rparr>) prev_reg h1) (modify (\<lambda>r. r \<lparr>reg_prev := prev_reg\<rparr>) reg)
                         else Inr h1) (\<lambda>h2.
                  bindE (load h2 reg) (\<lambda>r.
                    ext4_best_fit_loop (n - reg_len r) (if first_reg = None then reg else first_reg) reg (fs1, h2)))))"
  by auto
termination
proof (relation "measure (\<lambda>(n, _). unat n)", goal_cases)
  case (2 n first_reg prev_reg s x reg x2 fs1 h1 h2 r)
  then obtain a where a: "reg = Some a" "ext4_allocate_best_fit_partial n s = Inr (Some a, fs1, h1)" "0 < n"
    by (auto simp: word_gt_0)
  obtain r1 where r1: "load h1 reg = Inr r1" "0 < reg_len r1" "reg_len r1 \<le> n" using best_fit_partial_len [OF a(2,3)] a(1) by auto
  have "map_sum id reg_len (load h2 reg) = map_sum id reg_len (load h1 reg)"
    using 2 by (auto elim!: bindE_InrE dest!: load_modify_len [where q = reg] split: if_splits)
  then have "reg_len r = reg_len r1" using r1 2 by simp
  then show ?case using r1 by (simp add: unat_sub word_less_nat_alt word_le_nat_alt)
qed simp

declare ext4_best_fit_loop.simps [simp del]

definition ext4_allocate_best_fit :: "u32 \<Rightarrow> ext4_fs \<times> heap \<Rightarrow> (nat option \<times> ext4_fs \<times> heap) ext4_result" where
  "ext4_allocate_best_fit n s = ext4_best_fit_loop n None None s"

text \<open>The list's last region is set to its first one, however many there are.\<close>

definition allocate_blocks :: "u32 \<Rightarrow> ext4_fs \<times> heap \<Rightarrow> (block_allocation option \<times> ext4_fs \<times> heap) ext4_result" where
  "allocate_blocks n s =
     bindE (ext4_allocate_best_fit n s) (\<lambda>(reg, s1).
       if reg = None then Inr (None, s1)
       else Inr (Some (create_allocation \<lparr>alloc_list := \<lparr>rl_first = reg, rl_last = reg, rl_iter = reg, partial_iter = 0\<rparr>\<rparr>), s1))"

section \<open>Reading an allocation\<close>

text \<open>The regions from a pointer on, with their addresses.\<close>

fun walk :: "nat \<Rightarrow> heap \<Rightarrow> nat option \<Rightarrow> (nat \<times> region) list ext4_result" where
  "walk n h None = Inr []"
| "walk 0 h (Some a) = Inl NoReturn"
| "walk (Suc n) h (Some a) = bindE (load h (Some a)) (\<lambda>r. bindE (walk n h (reg_next r)) (\<lambda>rs. Inr ((a, r) # rs)))"

definition regions_from :: "heap \<Rightarrow> nat option \<Rightarrow> (nat \<times> region) list ext4_result" where
  "regions_from h p = walk (length h) h p"

definition block_allocation_num_regions :: "block_allocation \<Rightarrow> heap \<Rightarrow> u32 ext4_result" where
  "block_allocation_num_regions alloc h =
     bindE (regions_from h (rl_first (alloc_list alloc))) (\<lambda>rs. Inr (of_nat (length rs)))"

definition block_allocation_len :: "block_allocation \<Rightarrow> heap \<Rightarrow> u32 ext4_result" where
  "block_allocation_len alloc h =
     bindE (regions_from h (rl_first (alloc_list alloc))) (\<lambda>rs. Inr (sum_list (map (reg_len \<circ> snd) rs)))"

fun find_block :: "nat \<Rightarrow> heap \<Rightarrow> nat option \<Rightarrow> u32 \<Rightarrow> u32 ext4_result" where
  "find_block n h None block = Inr EXT4_ALLOCATE_FAILED"
| "find_block 0 h (Some a) block = Inl NoReturn"
| "find_block (Suc n) h (Some a) block =
     bindE (load h (Some a)) (\<lambda>r.
       if block < reg_len r then Inr (reg_block r + block) else find_block n h (reg_next r) (block - reg_len r))"

definition get_block :: "block_allocation \<Rightarrow> u32 \<Rightarrow> heap \<Rightarrow> u32 ext4_result" where
  "get_block alloc block h = find_block (length h) h (rl_iter (alloc_list alloc)) (block + partial_iter (alloc_list alloc))"

definition get_oob_block :: "block_allocation \<Rightarrow> u32 \<Rightarrow> heap \<Rightarrow> u32 ext4_result" where
  "get_oob_block alloc block h = find_block (length h) h (rl_iter (oob_list alloc)) (block + partial_iter (oob_list alloc))"

definition get_region :: "block_allocation \<Rightarrow> heap \<Rightarrow> (u32 \<times> u32) ext4_result" where
  "get_region alloc h =
     bindE (load h (rl_iter (alloc_list alloc))) (\<lambda>r. Inr (reg_block r, reg_len r - partial_iter (alloc_list alloc)))"

definition get_next_region :: "block_allocation \<Rightarrow> heap \<Rightarrow> block_allocation ext4_result" where
  "get_next_region alloc h =
     bindE (load h (rl_iter (alloc_list alloc))) (\<lambda>r.
       Inr (alloc \<lparr>alloc_list := (alloc_list alloc) \<lparr>rl_iter := reg_next r, partial_iter := 0\<rparr>\<rparr>))"

definition last_region :: "block_allocation \<Rightarrow> bool" where
  "last_region alloc \<longleftrightarrow> rl_iter (alloc_list alloc) = None"

definition rewind_alloc :: "block_allocation \<Rightarrow> block_allocation" where
  "rewind_alloc alloc =
     alloc \<lparr>alloc_list := (alloc_list alloc) \<lparr>rl_iter := rl_first (alloc_list alloc), partial_iter := 0\<rparr>\<rparr>"

section \<open>Changing an allocation\<close>

text \<open>The region a number of blocks ends in, and the blocks that are left.\<close>

fun skip_regions :: "nat \<Rightarrow> heap \<Rightarrow> nat option \<Rightarrow> u32 \<Rightarrow> (nat option \<times> u32) ext4_result" where
  "skip_regions n h None left = Inr (None, left)"
| "skip_regions 0 h (Some a) left = Inl NoReturn"
| "skip_regions (Suc n) h (Some a) left =
     bindE (load h (Some a)) (\<lambda>r.
       if left \<ge> reg_len r then skip_regions n h (reg_next r) (left - reg_len r) else Inr (Some a, left))"

definition do_split_allocation :: "block_allocation \<Rightarrow> u32 \<Rightarrow> heap \<Rightarrow> (nat option \<times> block_allocation \<times> heap) ext4_result" where
  "do_split_allocation alloc n h =
     bindE (skip_regions (length h) h (rl_iter (alloc_list alloc)) n) (\<lambda>(reg, left).
       if reg = None \<and> left > 0 then Inr (None, alloc, h)
       else if left > 0
       then bindE (load h reg) (\<lambda>r.
              case malloc_region \<lparr>reg_block = reg_block r + left, reg_len = reg_len r - left, reg_bg = reg_bg r,
                                   reg_next = reg_next r, reg_prev = reg\<rparr> h of
                (a, h1) \<Rightarrow>
                  bindE (modify (\<lambda>r. r \<lparr>reg_next := Some a, reg_len := left\<rparr>) reg h1) (\<lambda>h2.
                    Inr (rl_iter (alloc_list alloc), alloc \<lparr>alloc_list := (alloc_list alloc) \<lparr>rl_iter := Some a\<rparr>\<rparr>, h2)))
       else Inr (reg, alloc, h))"

definition split_allocation :: "block_allocation \<Rightarrow> u32 \<Rightarrow> heap \<Rightarrow> (nat option \<times> block_allocation \<times> heap) ext4_result" where
  "split_allocation alloc n h =
     bindE (do_split_allocation alloc (partial_iter (alloc_list alloc)) h) (\<lambda>(_, alloc1, h1).
     bindE (do_split_allocation alloc1 n h1) (\<lambda>(middle, alloc2, h2).
       Inr (middle, alloc2 \<lparr>alloc_list := (alloc_list alloc2) \<lparr>partial_iter := 0\<rparr>\<rparr>, h2)))"

fun move_to_oob :: "nat \<Rightarrow> nat option \<Rightarrow> block_allocation \<Rightarrow> heap \<Rightarrow> (block_allocation \<times> heap) ext4_result" where
  "move_to_oob n oob alloc h =
     (if oob = None \<or> oob = rl_iter (alloc_list alloc) then Inr (alloc, h)
      else (case n of
              0 \<Rightarrow> Inl NoReturn
            | Suc m \<Rightarrow>
                bindE (load h oob) (\<lambda>r.
                bindE (region_list_remove (alloc_list alloc) oob h) (\<lambda>(l, h1).
                bindE (region_list_append (oob_list alloc) oob h1) (\<lambda>(o1, h2).
                  move_to_oob m (reg_next r) (alloc \<lparr>alloc_list := l, oob_list := o1\<rparr>) h2)))))"

definition reserve_oob_blocks :: "block_allocation \<Rightarrow> u32 \<Rightarrow> heap \<Rightarrow> (int \<times> block_allocation \<times> heap) ext4_result" where
  "reserve_oob_blocks alloc blocks h =
     bindE (split_allocation alloc blocks h) (\<lambda>(oob, alloc1, h1).
       if oob = None then Inr (- 1, alloc1, h1)
       else bindE (move_to_oob (length h1) oob alloc1 h1) (\<lambda>(alloc2, h2). Inr (0, alloc2, h2)))"

text \<open>The pointer into the list stays where it is, even when whole regions are passed.\<close>

fun advance_list_loop :: "nat \<Rightarrow> heap \<Rightarrow> nat option \<Rightarrow> u32 \<Rightarrow> region_list \<Rightarrow> (int \<times> region_list) ext4_result" where
  "advance_list_loop n h reg blocks l =
     (if reg \<noteq> None \<and> sint blocks > 0
      then (case n of
              0 \<Rightarrow> Inl NoReturn
            | Suc m \<Rightarrow>
                bindE (load h reg) (\<lambda>r.
                  if reg_len r > partial_iter l + blocks then Inr (0, l \<lparr>partial_iter := partial_iter l + blocks\<rparr>)
                  else advance_list_loop m h (reg_next r) (blocks - (reg_len r - partial_iter l)) (l \<lparr>partial_iter := 0\<rparr>)))
      else Inr (if sint blocks > 0 then - 1 else 0, l))"

definition advance_list_ptr :: "region_list \<Rightarrow> u32 \<Rightarrow> heap \<Rightarrow> (int \<times> region_list) ext4_result" where
  "advance_list_ptr l blocks h = advance_list_loop (length h) h (rl_iter l) blocks l"

definition advance_blocks :: "block_allocation \<Rightarrow> u32 \<Rightarrow> heap \<Rightarrow> (int \<times> block_allocation) ext4_result" where
  "advance_blocks alloc blocks h =
     bindE (advance_list_ptr (alloc_list alloc) blocks h) (\<lambda>(ret, l). Inr (ret, alloc \<lparr>alloc_list := l\<rparr>))"

definition advance_oob_blocks :: "block_allocation \<Rightarrow> u32 \<Rightarrow> heap \<Rightarrow> (int \<times> block_allocation) ext4_result" where
  "advance_oob_blocks alloc blocks h =
     bindE (advance_list_ptr (oob_list alloc) blocks h) (\<lambda>(ret, l). Inr (ret, alloc \<lparr>oob_list := l\<rparr>))"

text \<open>Appending a region cuts it off its successor, which ends the loop.\<close>

fun append_oob_loop :: "nat \<Rightarrow> nat option \<Rightarrow> region_list \<Rightarrow> heap \<Rightarrow> (region_list \<times> heap) ext4_result" where
  "append_oob_loop n None l h = Inr (l, h)"
| "append_oob_loop 0 (Some a) l h = Inl NoReturn"
| "append_oob_loop (Suc n) (Some a) l h =
     bindE (region_list_append l (Some a) h) (\<lambda>(l1, h1).
     bindE (load h1 (Some a)) (\<lambda>r. append_oob_loop n (reg_next r) l1 h1))"

definition append_oob_allocation :: "block_allocation \<Rightarrow> u32 \<Rightarrow> ext4_fs \<times> heap \<Rightarrow> (int \<times> block_allocation \<times> ext4_fs \<times> heap) ext4_result" where
  "append_oob_allocation alloc n s =
     bindE (ext4_allocate_best_fit n s) (\<lambda>(reg, fs1, h1).
       if reg = None then ext4_error (force fs1) (Inr (- 1, alloc, fs1, h1))
       else bindE (append_oob_loop (length h1) reg (oob_list alloc) h1) (\<lambda>(l, h2). Inr (0, alloc \<lparr>oob_list := l\<rparr>, fs1, h2)))"

declare move_to_oob.simps [simp del] advance_list_loop.simps [simp del]

definition live :: "heap \<Rightarrow> nat" where
  "live h = length (filter (\<lambda>c. c \<noteq> None) h)"

lemma live_modify: "modify f p h = Inr h' \<Longrightarrow> live h' = live h"
proof -
  assume "modify f p h = Inr h'"
  then obtain a r where "a < length h" "h ! a = Some r" "h' = h[a := Some (f r)]"
    by (auto simp: modify_def load_def elim!: bindE_InrE split: option.splits if_splits)
  moreover from this obtain xs ys where "h = xs @ Some r # ys" "length xs = a"
    using id_take_nth_drop [of a h] by (metis length_take min.absorb4)
  ultimately show ?thesis by (simp add: live_def list_update_append)
qed

lemma live_free: "free_region p h = Inr h' \<Longrightarrow> live h' < live h"
proof -
  assume "free_region p h = Inr h'"
  then obtain a r where "a < length h" "h ! a = Some r" "h' = h[a := None]"
    by (auto simp: free_region_def load_def elim!: bindE_InrE split: option.splits if_splits)
  moreover from this obtain xs ys where "h = xs @ Some r # ys" "length xs = a"
    using id_take_nth_drop [of a h] by (metis length_take min.absorb4)
  ultimately show ?thesis by (simp add: live_def list_update_append)
qed

definition free_in_group :: "nat \<Rightarrow> u32 \<Rightarrow> ext4_fs \<Rightarrow> ext4_fs ext4_result" where
  "free_in_group bg n fs =
     (if bg < length (bgs fs) then bindE (free_blocks n (bgs fs ! bg)) (\<lambda>g. Inr (fs \<lparr>bgs := (bgs fs)[bg := g]\<rparr>)) else Inl BadAccess)"

text \<open>
  The list's last region is freed when it is not larger than what is left to free, but the list still points to it, unless it
  is the only one.
\<close>

function reduce_allocation :: "block_allocation \<Rightarrow> u32 \<Rightarrow> ext4_fs \<times> heap \<Rightarrow> (block_allocation \<times> ext4_fs \<times> heap) ext4_result" where
  "reduce_allocation alloc n s =
     (if n = 0 then Inr (alloc, s)
      else (case s of (fs, h) \<Rightarrow>
        bindE (load h (rl_last (alloc_list alloc))) (\<lambda>r.
          if reg_len r > n
          then bindE (free_in_group (reg_bg r) n fs) (\<lambda>fs1.
               bindE (modify (\<lambda>r. r \<lparr>reg_len := reg_len r - n\<rparr>) (rl_last (alloc_list alloc)) h) (\<lambda>h1. Inr (alloc, fs1, h1)))
          else bindE (free_in_group (reg_bg r) (reg_len r) fs) (\<lambda>fs1.
               bindE (if reg_prev r \<noteq> None then modify (\<lambda>p. p \<lparr>reg_next := None\<rparr>) (reg_prev r) h else Inr h) (\<lambda>h1.
               bindE (free_region (rl_last (alloc_list alloc)) h1) (\<lambda>h2.
                 reduce_allocation (if reg_prev r \<noteq> None then alloc else alloc \<lparr>alloc_list := empty_list\<rparr>) (n - reg_len r) (fs1, h2)))))))"
  by auto
termination
proof (relation "measure (\<lambda>(_, _, _, h). live h)", goal_cases)
  case (2 alloc n s fs h r fs1 h1 h2)
  then have "live h1 = live h" by (auto dest: live_modify split: if_splits)
  then have "live h2 < live h" using live_free [OF 2(7)] by simp
  then show ?case using 2(2) by (cases s) simp
qed simp

declare reduce_allocation.simps [simp del]

fun free_regions :: "nat \<Rightarrow> nat option \<Rightarrow> heap \<Rightarrow> heap ext4_result" where
  "free_regions n None h = Inr h"
| "free_regions 0 (Some a) h = Inl NoReturn"
| "free_regions (Suc n) (Some a) h =
     bindE (load h (Some a)) (\<lambda>r. bindE (free_region (Some a) h) (\<lambda>h1. free_regions n (reg_next r) h1))"

definition free_alloc :: "block_allocation \<Rightarrow> heap \<Rightarrow> heap ext4_result" where
  "free_alloc alloc h =
     bindE (free_regions (length h) (rl_first (alloc_list alloc)) h) (\<lambda>h1. free_regions (length h1) (rl_first (oob_list alloc)) h1)"

section \<open>Chains of regions\<close>

fun chain :: "heap \<Rightarrow> nat option \<Rightarrow> (nat \<times> region) list \<Rightarrow> bool" where
  "chain h p [] \<longleftrightarrow> p = None"
| "chain h p ((a, r) # rs) \<longleftrightarrow> p = Some a \<and> a < length h \<and> h ! a = Some r \<and> chain h (reg_next r) rs"

lemma walk_chain: "chain h p rs \<Longrightarrow> length rs \<le> n \<Longrightarrow> walk n h p = Inr rs"
proof (induction n h p arbitrary: rs rule: walk.induct)
  case (3 n h a)
  then show ?case by (cases rs) (auto simp: load_def)
next
  case (1 n h)
  then show ?case by (cases rs) auto
qed auto

lemma regions_from_chain: "chain h p rs \<Longrightarrow> length rs \<le> length h \<Longrightarrow> regions_from h p = Inr rs"
  unfolding regions_from_def by (rule walk_chain)

definition reg_set :: "region \<Rightarrow> nat set" where
  "reg_set r = {unat (reg_block r)..<unat (reg_block r) + unat (reg_len r)}"

text \<open>Regions that take blocks out of a set, one after the other.\<close>

fun takes :: "nat set \<Rightarrow> region list \<Rightarrow> nat set \<Rightarrow> bool" where
  "takes F [] F' \<longleftrightarrow> F' = F"
| "takes F (r # rs) F' \<longleftrightarrow> 0 < reg_len r \<and> reg_set r \<subseteq> F \<and> takes (F - reg_set r) rs F'"

lemma takes_union: "takes F rs F' \<Longrightarrow> F' = F - (\<Union>r \<in> set rs. reg_set r) \<and> (\<Union>r \<in> set rs. reg_set r) \<subseteq> F"
  by (induction F rs F' rule: takes.induct) auto

lemma takes_pos: "takes F rs F' \<Longrightarrow> \<forall>r \<in> set rs. 0 < reg_len r"
  by (induction F rs F' rule: takes.induct) auto

lemma takes_disjoint:
  "takes F rs F' \<Longrightarrow> i < j \<Longrightarrow> j < length rs \<Longrightarrow> reg_set (rs ! i) \<inter> reg_set (rs ! j) = {}"
proof (induction F rs F' arbitrary: i j rule: takes.induct)
  case (2 F r rs F')
  obtain k where k: "j = Suc k" "k < length rs" using 2(3,4) by (cases j) auto
  show ?case
  proof (cases i)
    case 0
    have "reg_set (rs ! k) \<subseteq> F - reg_set r" using takes_union [of "F - reg_set r" rs F'] 2(2) k(2) by (auto dest: nth_mem)
    then show ?thesis using 0 k(1) by auto
  next
    case (Suc m)
    then show ?thesis using 2(1) [of m k] 2(2,3,4) k by simp
  qed
qed simp

section \<open>Allocations take free blocks\<close>

text \<open>The groups that have free blocks; every region but the last of an allocation uses one of them up.\<close>

definition nonempty_groups :: "ext4_fs \<Rightarrow> nat" where
  "nonempty_groups fs = length (filter (\<lambda>bg. bg_free_blocks bg \<noteq> 0) (bgs fs))"

lemma group_used_up:
  assumes "g < length (bgs fs)" and "bg_free_blocks (bgs fs ! g) \<noteq> 0" and "bg_free_blocks (bgs fs1 ! g) = 0"
    and "length (bgs fs1) = length (bgs fs)" and "\<forall>i < length (bgs fs). i \<noteq> g \<longrightarrow> bgs fs1 ! i = bgs fs ! i"
  shows "nonempty_groups fs1 < nonempty_groups fs"
proof -
  define x y where "x = bgs fs ! g" and "y = bgs fs1 ! g"
  obtain xs ys where xs: "bgs fs = xs @ x # ys" "length xs = g"
    using id_take_nth_drop [OF assms(1)] assms(1) unfolding x_def by (metis length_take min.absorb4)
  have "bgs fs1 = (bgs fs)[g := y]" using assms by (intro nth_equalityI) (auto simp: nth_list_update y_def)
  then have "bgs fs1 = xs @ y # ys" using xs by (auto simp: list_update_append)
  moreover have "bg_free_blocks x \<noteq> 0" "bg_free_blocks y = 0" using assms(2,3) by (simp_all add: x_def y_def)
  ultimately show ?thesis using xs(1) by (simp add: nonempty_groups_def)
qed

text \<open>The used blocks of a region's group end with the region.\<close>

definition ends_group :: "ext4_fs \<Rightarrow> region \<Rightarrow> bool" where
  "ends_group fs r \<longleftrightarrow> reg_bg r < length (bgs fs) \<and>
     unat (first_block (bgs fs ! reg_bg r)) + unat (first_free_block (bgs fs ! reg_bg r)) = unat (reg_block r) + unat (reg_len r)"

text \<open>A region is inside its group, behind the header.\<close>

definition inside_group :: "ext4_fs \<Rightarrow> region \<Rightarrow> bool" where
  "inside_group fs r \<longleftrightarrow> reg_set r \<subseteq> {group_start fs (reg_bg r) + unat (header_size fs (reg_bg r))..<group_end fs (reg_bg r)} \<and>
     unat (reg_len r) \<le> unat (blocks_per_group (info fs))"

lemma inside_group_cong: "info fs' = info fs \<Longrightarrow> aux_info fs' = aux_info fs \<Longrightarrow> inside_group fs' = inside_group fs"
  using layout_cong [of fs' fs] by (auto simp: inside_group_def fun_eq_iff)

lemma partial_fit:
  assumes "fs_ok fs" and "0 < n" and "0 < free_count fs"
  shows "\<exists>fs1 r. ext4_allocate_best_fit_partial n (fs, h) = Inr (Some (length h), fs1, h @ [Some r]) \<and> fs_ok fs1 \<and>
    0 < reg_len r \<and> reg_len r \<le> n \<and> reg_set r \<subseteq> all_free fs \<and> all_free fs1 = all_free fs - reg_set r \<and>
    free_count fs1 = free_count fs - unat (reg_len r) \<and> unat (reg_len r) \<le> free_count fs \<and> reg_next r = None \<and> reg_prev r = None \<and> force fs1 = force fs \<and>
    info fs1 = info fs \<and> aux_info fs1 = aux_info fs \<and> reg_bg r < length (bgs fs) \<and>
    reg_len r = min n (bg_free_blocks (bgs fs ! reg_bg r)) \<and> found_ok n (bgs fs) (reg_bg r, bg_free_blocks (bgs fs ! reg_bg r)) \<and>
    0 < nonempty_groups fs \<and> (reg_len r < n \<longrightarrow> nonempty_groups fs1 < nonempty_groups fs) \<and>
    ends_group fs1 r \<and> length (bgs fs1) = length (bgs fs) \<and> (\<forall>i < length (bgs fs). i \<noteq> reg_bg r \<longrightarrow> bgs fs1 ! i = bgs fs ! i) \<and>
    bg_free_blocks (bgs fs1 ! reg_bg r) = bg_free_blocks (bgs fs ! reg_bg r) - reg_len r \<and> inside_group fs r"
proof -
  obtain g L where gL: "find_group n 0 (bgs fs) (0, 0) = (g, L)" by fastforce
  have "found_ok n [] (0, 0)" by (simp add: found_ok_def)
  then have f: "found_ok n (bgs fs) (g, L)" using find_group_ok [OF assms(2), of "[]" "(0, 0)" "bgs fs"] gL by simp
  have "L \<noteq> 0"
  proof
    assume "L = 0"
    then have "\<forall>bg \<in> set (bgs fs). bg_free_blocks bg = 0" using f assms(2) by (auto simp: found_ok_def word_gt_0)
    then have "free_count fs = 0" by (simp add: free_count_def)
    then show False using assms(3) by simp
  qed
  then have g: "g < length (bgs fs)" "bg_free_blocks (bgs fs ! g) = L" using f by (auto simp: found_ok_def)
  let ?k = "min n L"
  have k: "?k \<le> bg_free_blocks (bgs fs ! g)" "0 < ?k" using g(2) assms(2) \<open>L \<noteq> 0\<close> by (auto simp: word_gt_0)
  from allocate_from_group [OF assms(1) g(1) k] obtain block fs1 where
    a: "ext4_allocate_blocks_from_block_group ?k g fs = Inr (block, fs1)" "block \<noteq> EXT4_ALLOCATE_FAILED" "fs_ok fs1"
      "{unat block..<unat block + unat ?k} \<subseteq> all_free fs" "all_free fs1 = all_free fs - {unat block..<unat block + unat ?k}"
      "free_count fs1 = free_count fs - unat ?k" "unat ?k \<le> free_count fs" "info fs1 = info fs" "aux_info fs1 = aux_info fs" "force fs1 = force fs"
      "bg_free_blocks (bgs fs1 ! g) = bg_free_blocks (bgs fs ! g) - ?k" "length (bgs fs1) = length (bgs fs)"
      "\<forall>i < length (bgs fs). i \<noteq> g \<longrightarrow> bgs fs1 ! i = bgs fs ! i"
      "unat (first_block (bgs fs1 ! g)) + unat (first_free_block (bgs fs1 ! g)) = unat block + unat ?k"
      "{unat block..<unat block + unat ?k} \<subseteq> {group_start fs g + unat (header_size fs g)..<group_end fs g}"
      "unat ?k \<le> unat (blocks_per_group (info fs))"
    by blast
  have "bgs fs ! g \<in> set (filter (\<lambda>bg. bg_free_blocks bg \<noteq> 0) (bgs fs))" using g \<open>L \<noteq> 0\<close> by simp
  then have pos: "0 < nonempty_groups fs" unfolding nonempty_groups_def by (metis length_pos_if_in_set)
  have less: "nonempty_groups fs1 < nonempty_groups fs" if "?k < n"
  proof -
    have "?k = L" using that by (auto simp: min_def split: if_splits)
    then show ?thesis using group_used_up [OF g(1)] g(2) a(11,12,13) \<open>L \<noteq> 0\<close> by simp
  qed
  let ?r = "\<lparr>reg_block = block, reg_len = ?k, reg_bg = g, reg_next = None, reg_prev = None\<rparr>"
  have "ext4_allocate_best_fit_partial n (fs, h) = Inr (Some (length h), fs1, h @ [Some ?r])"
    using a(1,2) gL \<open>L \<noteq> 0\<close> by (simp add: ext4_allocate_best_fit_partial_def malloc_region_def Let_def)
  then show ?thesis using a k g f pos less by (intro exI [of _ fs1] exI [of _ ?r]) (simp add: reg_set_def ends_group_def inside_group_def)
qed

lemma partial_fit_fails:
  assumes "0 < n" and "free_count fs = 0"
  shows "ext4_allocate_best_fit_partial n (fs, h) = ext4_error (force fs) (Inr (None, fs, h))"
proof -
  have zero: "\<forall>bg \<in> set (bgs fs). bg_free_blocks bg = 0" using assms(2) by (simp add: free_count_def unat_eq_zero)
  have "find_group n i gs (0, 0) = (0, 0)" if "\<forall>bg \<in> set gs. bg_free_blocks bg = 0" for i gs
    using that assms(1) by (induction gs arbitrary: i) (auto simp: better_group_def)
  then show ?thesis using zero by (simp add: ext4_allocate_best_fit_partial_def)
qed

lemma load_some: "load h (Some a) = Inr r \<longleftrightarrow> a < length h \<and> h ! a = Some r"
  by (auto simp: load_def split: option.splits)

text \<open>The loop of the allocation, from a region on that has no successor yet.\<close>

definition linked :: "nat option \<Rightarrow> nat option \<Rightarrow> heap \<Rightarrow> heap" where
  "linked prev nxt h = (case prev of None \<Rightarrow> h | Some a \<Rightarrow> h[a := map_option (\<lambda>r. r \<lparr>reg_next := nxt\<rparr>) (h ! a)])"

lemma length_linked [simp]: "length (linked p q h) = length h"
  by (simp add: linked_def split: option.splits)

text \<open>The heap after the loop: new regions at its end, linked one to the next, and the first of them to the region before.\<close>

definition new_regions :: "heap \<Rightarrow> nat option \<Rightarrow> heap \<Rightarrow> (nat \<times> region) list \<Rightarrow> bool" where
  "new_regions h prev h' rs \<longleftrightarrow>
     length h' = length h + length rs \<and> take (length h) h' = (if rs = [] then h else linked prev (Some (length h)) h) \<and>
     map fst rs = [length h..<length h'] \<and> chain h' (if rs = [] then None else Some (length h)) rs"

lemma new_regions_step:
  assumes "new_regions (linked prev (Some (length h)) h @ [Some r]) (Some (length h)) h' rs" and "reg_next r = None"
  shows "new_regions h prev h' ((length h, r \<lparr>reg_next := (if rs = [] then None else Some (Suc (length h)))\<rparr>) # rs)"
proof -
  let ?l = "linked prev (Some (length h)) h"
  let ?r = "r \<lparr>reg_next := (if rs = [] then None else Some (Suc (length h)))\<rparr>"
  have n: "length h' = Suc (length h + length rs)" "map fst rs = [Suc (length h)..<length h']"
      "chain h' (if rs = [] then None else Some (Suc (length h))) rs"
    using assms(1) by (auto simp: new_regions_def)
  have "r = r \<lparr>reg_next := None\<rparr>" using assms(2) by simp
  then have t: "take (Suc (length h)) h' = ?l @ [Some ?r]"
    using assms(1) by (auto simp: new_regions_def linked_def [of "Some (length h)"] nth_append list_update_append split: if_splits)
  then have "take (length h) h' = ?l" by (metis append_eq_conv_conj length_linked take_take min.absorb1 lessI less_imp_le)
  moreover have "h' ! length h = Some ?r" using t n(1) by (metis length_linked lessI nth_append_length nth_take)
  moreover have "[length h..<length h'] = length h # [Suc (length h)..<length h']" using n(1) by (simp add: upt_rec)
  ultimately show ?thesis using n by (simp add: new_regions_def)
qed

text \<open>The groups after the loop: the regions have taken their blocks out of the free ones.\<close>

definition fits :: "ext4_fs \<Rightarrow> u32 \<Rightarrow> region list \<Rightarrow> ext4_fs \<Rightarrow> bool" where
  "fits fs n rs fs' \<longleftrightarrow>
     sum_list (map (unat \<circ> reg_len) rs) = unat n \<and> takes (all_free fs) rs (all_free fs') \<and> fs_ok fs' \<and>
     free_count fs' = free_count fs - unat n \<and> length rs \<le> nonempty_groups fs \<and> info fs' = info fs \<and> aux_info fs' = aux_info fs \<and>
     force fs' = force fs \<and> length (bgs fs') = length (bgs fs) \<and>
     (\<forall>i < length (bgs fs). bg_free_blocks (bgs fs ! i) = 0 \<longrightarrow> bgs fs' ! i = bgs fs ! i) \<and> (\<forall>r \<in> set rs. ends_group fs' r \<and> inside_group fs r)"

text \<open>The first region is as large as it can be.\<close>

definition head_ok :: "ext4_fs \<Rightarrow> u32 \<Rightarrow> nat option \<Rightarrow> region list \<Rightarrow> bool" where
  "head_ok fs n prev rs \<longleftrightarrow> rs = [] \<or> reg_prev (hd rs) = prev \<and> (\<forall>bg \<in> set (bgs fs). min n (bg_free_blocks bg) \<le> reg_len (hd rs))"

lemma best_fit_loop_step:
  assumes "n \<noteq> 0" and "ext4_allocate_best_fit_partial n (fs, h) = Inr (Some (length h), fs1, h @ [Some r])"
    and "prev = None \<or> (\<exists>r. load h prev = Inr r)"
  shows "ext4_best_fit_loop n first prev (fs, h) =
    ext4_best_fit_loop (n - reg_len r) (if first = None then Some (length h) else first) (Some (length h))
      (fs1, linked prev (Some (length h)) h @ [Some (r \<lparr>reg_prev := (if prev = None then reg_prev r else prev)\<rparr>)])"
  using assms
  by (subst ext4_best_fit_loop.simps)
     (auto simp: load_some modify_def linked_def load_def nth_append list_update_append split: option.splits)

lemma best_fit_loop_ok:
  assumes "fs_ok fs" and "unat n \<le> free_count fs" and "prev = None \<or> (\<exists>r. load h prev = Inr r)" and "first = None \<longleftrightarrow> prev = None"
  shows "\<exists>fs' h' rs. ext4_best_fit_loop n first prev (fs, h) =
      Inr (if first = None \<and> rs \<noteq> [] then Some (length h) else first, fs', h') \<and>
    new_regions h prev h' rs \<and> fits fs n (map snd rs) fs' \<and> head_ok fs n prev (map snd rs)"
  using assms
proof (induction "unat n" arbitrary: n first prev fs h rule: less_induct)
  case less
  show ?case
  proof (cases "n = 0")
    case True
    then show ?thesis using less.prems
      by (intro exI [of _ fs] exI [of _ h] exI [of _ "[]"]) (simp add: ext4_best_fit_loop.simps new_regions_def fits_def head_ok_def)
  next
    case False
    then have "0 < n" by (simp add: word_gt_0)
    moreover from this have "0 < free_count fs" using less.prems(2) by (simp add: word_less_nat_alt)
    ultimately obtain fs1 r where
      p: "ext4_allocate_best_fit_partial n (fs, h) = Inr (Some (length h), fs1, h @ [Some r])" "fs_ok fs1" "0 < reg_len r" "reg_len r \<le> n"
        "reg_set r \<subseteq> all_free fs" "all_free fs1 = all_free fs - reg_set r" "free_count fs1 = free_count fs - unat (reg_len r)"
        "reg_next r = None" "0 < nonempty_groups fs" "reg_len r < n \<longrightarrow> nonempty_groups fs1 < nonempty_groups fs" "info fs1 = info fs"
        "aux_info fs1 = aux_info fs" "force fs1 = force fs" "ends_group fs1 r" "length (bgs fs1) = length (bgs fs)"
        "\<forall>i < length (bgs fs). i \<noteq> reg_bg r \<longrightarrow> bgs fs1 ! i = bgs fs ! i" "reg_bg r < length (bgs fs)"
        "bg_free_blocks (bgs fs1 ! reg_bg r) = bg_free_blocks (bgs fs ! reg_bg r) - reg_len r"
        "reg_len r = min n (bg_free_blocks (bgs fs ! reg_bg r))" "inside_group fs r" "reg_prev r = None"
        "found_ok n (bgs fs) (reg_bg r, bg_free_blocks (bgs fs ! reg_bg r))"
      using partial_fit [OF less.prems(1), of n h] by blast
    let ?r = "r \<lparr>reg_prev := (if prev = None then reg_prev r else prev)\<rparr>"
    let ?h2 = "linked prev (Some (length h)) h @ [Some ?r]" and ?first = "if first = None then Some (length h) else first"
    note rec = best_fit_loop_step [OF False p(1) less.prems(3), of first]
    have u: "unat (n - reg_len r) = unat n - unat (reg_len r)" "0 < unat (reg_len r)" "unat (reg_len r) \<le> unat n"
      using p(3,4) by (simp_all add: unat_sub word_less_nat_alt word_le_nat_alt)
    have lt: "unat (n - reg_len r) < unat n" and le: "unat (n - reg_len r) \<le> free_count fs1" using u less.prems(2) p(7) by simp_all
    have ld: "Some (length h) = None \<or> (\<exists>r. load ?h2 (Some (length h)) = Inr r)" by (simp add: load_some nth_append)
    obtain fs' h' rs where
      I: "ext4_best_fit_loop (n - reg_len r) ?first (Some (length h)) (fs1, ?h2) = Inr (?first, fs', h')"
        "new_regions ?h2 (Some (length h)) h' rs" "fits fs1 (n - reg_len r) (map snd rs) fs'"
      using less.hyps [OF lt p(2) le ld, of ?first] by (cases first) auto
    let ?rs = "(length h, ?r \<lparr>reg_next := (if rs = [] then None else Some (Suc (length h)))\<rparr>) # rs"
    have "reg_next ?r = None" using p(8) by simp
    note new_regions_step [OF I(2) this]
    moreover have "fits fs n (map snd ?rs) fs'"
    proof -
      have last: "rs = []" "fs' = fs1" if "\<not> reg_len r < n" 
      proof -
        have "n - reg_len r = 0" using that p(4) by simp
        then have "ext4_best_fit_loop (n - reg_len r) ?first (Some (length h)) (fs1, ?h2) = Inr (?first, fs1, ?h2)"
          by (simp add: ext4_best_fit_loop.simps)
        then have "fs' = fs1" "h' = ?h2" using I(1) by simp_all
        then show "rs = []" "fs' = fs1" using I(2) by (simp_all add: new_regions_def)
      qed
      have "length rs < nonempty_groups fs" using last(1) I(3) p(9,10) by (cases "reg_len r < n") (auto simp: fits_def)
      moreover have "ends_group fs' r"
      proof (cases "reg_len r < n")
        case True
        then have "bg_free_blocks (bgs fs1 ! reg_bg r) = 0" using p(18,19) by (auto simp: min_def split: if_splits)
        then have "bgs fs' ! reg_bg r = bgs fs1 ! reg_bg r" "length (bgs fs') = length (bgs fs)" using I(3) p(15,17) by (auto simp: fits_def)
        then show ?thesis using p(14,15) by (simp add: ends_group_def)
      qed (use last p(14) in simp)
      moreover have "\<forall>i < length (bgs fs). bg_free_blocks (bgs fs ! i) = 0 \<longrightarrow> bgs fs' ! i = bgs fs ! i"
      proof (intro allI impI)
        fix i assume i: "i < length (bgs fs)" "bg_free_blocks (bgs fs ! i) = 0"
        then have "i \<noteq> reg_bg r" using p(3,19) by auto
        then have "bgs fs1 ! i = bgs fs ! i" using p(16) i(1) by simp
        then show "bgs fs' ! i = bgs fs ! i" using I(3) i p(15) by (simp add: fits_def)
      qed
      moreover have "inside_group fs1 = inside_group fs" using inside_group_cong p(11,12) by blast
      moreover have "inside_group fs (snd (hd ?rs))" using p(20) by (simp add: inside_group_def reg_set_def)
      ultimately show ?thesis using I(3) u p(3,4,5,6,7,11,12,13,15) by (simp add: fits_def reg_set_def ends_group_def) metis
    qed
    moreover have "head_ok fs n prev (map snd ?rs)"
    proof -
      have "min n (bg_free_blocks bg) \<le> reg_len r" if "bg \<in> set (bgs fs)" for bg
        using p(19,22) that by (auto simp: found_ok_def min_def split: if_splits)
      then show ?thesis using p(21) by (simp add: head_ok_def)
    qed
    ultimately show ?thesis using rec I(1) by (intro exI [of _ fs'] exI [of _ h'] exI [of _ ?rs]) simp
  qed
qed

lemma best_fit_loop_fails:
  assumes "fs_ok fs" and "free_count fs < unat n" and "\<not> force fs" and "prev = None \<or> (\<exists>r. load h prev = Inr r)"
  shows "ext4_best_fit_loop n first prev (fs, h) = Inl Longjmp"
  using assms
proof (induction "unat n" arbitrary: n first prev fs h rule: less_induct)
  case less
  have n: "n \<noteq> 0" "0 < n" using less.prems(2) by (auto simp: word_gt_0)
  show ?case
  proof (cases "free_count fs = 0")
    case True
    then show ?thesis using partial_fit_fails [OF n(2) True, of h] n(1) less.prems(3)
      by (simp add: ext4_best_fit_loop.simps [of n] ext4_error_def)
  next
    case False
    then obtain fs1 r where
      p: "ext4_allocate_best_fit_partial n (fs, h) = Inr (Some (length h), fs1, h @ [Some r])" "fs_ok fs1" "0 < reg_len r" "reg_len r \<le> n"
        "free_count fs1 = free_count fs - unat (reg_len r)" "force fs1 = force fs" "unat (reg_len r) \<le> free_count fs"
      using partial_fit [OF less.prems(1) n(2), of h] by blast
    have u: "unat (n - reg_len r) = unat n - unat (reg_len r)" "0 < unat (reg_len r)" "unat (reg_len r) \<le> unat n"
      using p(3,4) by (simp_all add: unat_sub word_less_nat_alt word_le_nat_alt)
    let ?h2 = "linked prev (Some (length h)) h @ [Some (r \<lparr>reg_prev := (if prev = None then reg_prev r else prev)\<rparr>)]"
    have "Some (length h) = None \<or> (\<exists>r. load ?h2 (Some (length h)) = Inr r)" by (simp add: load_some nth_append)
    moreover have "unat (n - reg_len r) < unat n" "free_count fs1 < unat (n - reg_len r)" "\<not> force fs1"
      using u p(5,6,7) less.prems(2,3) by simp_all
    ultimately show ?thesis using less.hyps p(2) best_fit_loop_step [OF n(1) p(1) less.prems(4), of first] by simp
  qed
qed

section \<open>The blocks of an allocation\<close>

definition reg_blocks :: "region \<Rightarrow> nat list" where
  "reg_blocks r = [unat (reg_block r)..<unat (reg_block r) + unat (reg_len r)]"

definition blocks_of :: "(nat \<times> region) list \<Rightarrow> nat list" where
  "blocks_of rs = concat (map (reg_blocks \<circ> snd) rs)"

lemma set_reg_blocks [simp]: "set (reg_blocks r) = reg_set r"
  by (simp add: reg_blocks_def reg_set_def)

lemma length_reg_blocks [simp]: "length (reg_blocks r) = unat (reg_len r)"
  by (simp add: reg_blocks_def)

lemma takes_blocks:
  "takes F (map snd rs) F' \<Longrightarrow> distinct (blocks_of rs) \<and> set (blocks_of rs) \<subseteq> F \<and> F' = F - set (blocks_of rs)"
proof (induction rs arbitrary: F)
  case (Cons x rs)
  then have "distinct (blocks_of rs)" "set (blocks_of rs) \<subseteq> F - reg_set (snd x)" "F' = F - reg_set (snd x) - set (blocks_of rs)"
    by (cases x; fastforce)+
  moreover have "reg_set (snd x) \<subseteq> F" using Cons.prems by simp
  moreover have "distinct (reg_blocks (snd x))" by (simp add: reg_blocks_def)
  ultimately show ?case by (auto simp: blocks_of_def)
qed (simp add: blocks_of_def)

lemma length_blocks_of: "length (blocks_of rs) = sum_list (map (unat \<circ> reg_len) (map snd rs))"
  by (induction rs) (auto simp: blocks_of_def)

lemma find_block_chain:
  assumes "chain h p rs" and "length rs \<le> m" and "length (blocks_of rs) < 2 ^ 32"
  shows "find_block m h p b = Inr (if unat b < length (blocks_of rs) then of_nat (blocks_of rs ! unat b) else EXT4_ALLOCATE_FAILED)"
  using assms
proof (induction m h p b arbitrary: rs rule: find_block.induct)
  case (1 n h block)
  then show ?case by (cases rs) (auto simp: blocks_of_def)
next
  case (2 h a block)
  then show ?case by (cases rs) auto
next
  case (3 n h a b)
  then obtain r rs' where rs: "rs = (a, r) # rs'" "a < length h" "h ! a = Some r" "chain h (reg_next r) rs'" by (cases rs) auto
  have ld: "load h (Some a) = Inr r" using rs by (simp add: load_some)
  have bs: "blocks_of rs = reg_blocks r @ blocks_of rs'" using rs(1) by (simp add: blocks_of_def)
  show ?case
  proof (cases "b < reg_len r")
    case True
    then have lt: "unat b < unat (reg_len r)" by (simp add: word_less_nat_alt)
    then have "blocks_of rs ! unat b = unat (reg_block r) + unat b" unfolding bs by (simp add: nth_append, simp add: reg_blocks_def)
    moreover have "unat b < length (blocks_of rs)" using lt unfolding bs by simp
    ultimately show ?thesis using ld True by simp
  next
    case False
    then have le: "unat (reg_len r) \<le> unat b" "unat (b - reg_len r) = unat b - unat (reg_len r)"
      by (simp_all add: word_less_nat_alt unat_sub word_le_nat_alt)
    have "find_block n h (reg_next r) (b - reg_len r) =
        Inr (if unat (b - reg_len r) < length (blocks_of rs') then of_nat (blocks_of rs' ! unat (b - reg_len r)) else EXT4_ALLOCATE_FAILED)"
      using 3(1) [OF ld False rs(4)] 3(3,4) rs(1) bs by simp
    then show ?thesis using ld False le unfolding bs by (auto simp: nth_append)
  qed
qed

text \<open>The allocation at an address, with its pointer at the first region.\<close>

definition new_alloc :: "nat \<Rightarrow> block_allocation" where
  "new_alloc a = create_allocation \<lparr>alloc_list := \<lparr>rl_first = Some a, rl_last = Some a, rl_iter = Some a, partial_iter = 0\<rparr>\<rparr>"

lemma new_alloc_simps [simp]:
  "alloc_list (new_alloc a) = \<lparr>rl_first = Some a, rl_last = Some a, rl_iter = Some a, partial_iter = 0\<rparr>" "oob_list (new_alloc a) = empty_list"
  by (simp_all add: new_alloc_def create_allocation_def)

lemma allocate_blocks_regions:
  assumes "fs_ok fs" and "0 < n" and "unat n \<le> free_count fs"
  shows "\<exists>fs' h' r rs. allocate_blocks n (fs, h) = Inr (Some (new_alloc (length h)), fs', h') \<and>
    chain h' (Some (length h)) ((length h, r) # rs) \<and> distinct (length h # map fst rs) \<and> Suc (length rs) \<le> length h' \<and>
    take (length h) h' = h \<and> fits fs n (r # map snd rs) fs' \<and> head_ok fs n None (r # map snd rs)"
proof -
  obtain fs' h' rs where l: "ext4_best_fit_loop n None None (fs, h) = Inr (if rs \<noteq> [] then Some (length h) else None, fs', h')"
      "new_regions h None h' rs" "fits fs n (map snd rs) fs'" "head_ok fs n None (map snd rs)"
    using best_fit_loop_ok [OF assms(1,3), of None h None] by auto
  have "rs \<noteq> []" using l(3) assms(2) by (auto simp: fits_def word_less_nat_alt)
  then obtain x rs' where x: "rs = x # rs'" by (cases rs) auto
  have m: "map fst rs = [length h..<length h']" "chain h' (Some (length h)) rs" using l(2) \<open>rs \<noteq> []\<close> by (auto simp: new_regions_def)
  then have e: "x = (length h, snd x)" using x by (cases x) auto
  then have "distinct (length h # map fst rs')" using m(1) x by (metis distinct_upt fst_conv list.simps(9))
  moreover have "allocate_blocks n (fs, h) = Inr (Some (new_alloc (length h)), fs', h')"
    using l(1) \<open>rs \<noteq> []\<close> by (simp add: allocate_blocks_def ext4_allocate_best_fit_def new_alloc_def)
  moreover have "length rs \<le> length h'" "take (length h) h' = h" using l(2) \<open>rs \<noteq> []\<close> by (auto simp: new_regions_def linked_def)
  ultimately show ?thesis using l(3,4) m(2) x e by (intro exI [of _ fs'] exI [of _ h'] exI [of _ "snd x"] exI [of _ rs']) auto
qed

lemma get_block_chain:
  assumes "chain h (rl_iter (alloc_list alloc)) rs" and "length rs \<le> length h" and "partial_iter (alloc_list alloc) = 0" and "length (blocks_of rs) < 2 ^ 32"
  shows "get_block alloc b h = Inr (if unat b < length (blocks_of rs) then of_nat (blocks_of rs ! unat b) else EXT4_ALLOCATE_FAILED)"
  using find_block_chain [OF assms(1,2,4), of b] assms(3) by (simp add: get_block_def)

text \<open>
  C22: Allocating blocks succeeds exactly when there are enough free ones in all groups together.  Then the allocation consists of that many
  different blocks, all of them free before and not free afterwards, and its n-th block is found by number; no other
  allocation on the heap is touched.
\<close>

theorem allocated_blocks_were_free:
  assumes "fs_ok fs" and "0 < n" and "\<not> force fs"
  shows "if unat n \<le> free_count fs
    then \<exists>alloc fs' h' rs. allocate_blocks n (fs, h) = Inr (Some alloc, fs', h') \<and>
      regions_from h' (rl_first (alloc_list alloc)) = Inr rs \<and>
      length (blocks_of rs) = unat n \<and> distinct (blocks_of rs) \<and> set (blocks_of rs) \<subseteq> all_free fs \<and>
      all_free fs' = all_free fs - set (blocks_of rs) \<and> fs_ok fs' \<and> take (length h) h' = h \<and>
      (\<forall>b. get_block alloc b h' = Inr (if b < n then of_nat (blocks_of rs ! unat b) else EXT4_ALLOCATE_FAILED))
    else allocate_blocks n (fs, h) = Inl Longjmp"
proof (cases "unat n \<le> free_count fs")
  case True
  obtain fs' h' r rs where l: "allocate_blocks n (fs, h) = Inr (Some (new_alloc (length h)), fs', h')"
      "chain h' (Some (length h)) ((length h, r) # rs)" "Suc (length rs) \<le> length h'" "take (length h) h' = h" "fits fs n (r # map snd rs) fs'"
    using allocate_blocks_regions [OF assms(1,2) True, of h] by blast
  let ?rs = "(length h, r) # rs"
  have len: "length (blocks_of ?rs) = unat n" using l(5) length_blocks_of [of ?rs] by (simp add: fits_def)
  have "regions_from h' (rl_first (alloc_list (new_alloc (length h)))) = Inr ?rs"
    using walk_chain [OF l(2), of "length h'"] l(3) by (simp add: regions_from_def)
  moreover have "get_block (new_alloc (length h)) b h' = Inr (if b < n then of_nat (blocks_of ?rs ! unat b) else EXT4_ALLOCATE_FAILED)" for b
    using get_block_chain [of h' "new_alloc (length h)" ?rs b] l(2,3) len unsigned_less [of n, where 'a = nat] by (simp add: word_less_nat_alt)
  ultimately show ?thesis using True len takes_blocks [of "all_free fs" ?rs "all_free fs'"] l(1,4,5)
    by (auto simp: fits_def intro!: exI [of _ "new_alloc (length h)"])
next
  case False
  then show ?thesis using best_fit_loop_fails [OF assms(1) _ assms(3), of n None h None] by (simp add: allocate_blocks_def ext4_allocate_best_fit_def)
qed

text \<open>A file system of two groups of eight blocks, the second of which is cut off after its sixth block.\<close>

definition small_fs :: ext4_fs where
  "small_fs = \<lparr>force = False,
     info = \<lparr>fs_len = 28672, block_size = 2048, blocks_per_group = 8, inodes_per_group = 8, inode_size = 256, fs_inodes = 16,
       journal_blocks = 0, feat_ro_compat = 1, feat_compat = 0, feat_incompat = 0, bg_desc_reserve_blocks = 0, no_journal = True\<rparr>,
     aux_info = ext4_create_fs_aux_info \<lparr>fs_len = 28672, block_size = 2048, blocks_per_group = 8, inodes_per_group = 8, inode_size = 256, fs_inodes = 16,
       journal_blocks = 0, feat_ro_compat = 1, feat_compat = 0, feat_incompat = 0, bg_desc_reserve_blocks = 0, no_journal = True\<rparr>,
     bgs = [], sparse_data = []\<rparr>"

lemma small_fs_layout: "layout_ok small_fs"
proof (rule aux_info_layout)
  show "\<forall>i. unat (header_size small_fs i) \<le> unat (blocks_per_group (info small_fs))"
    by (auto simp: header_size_def small_fs_def super_blocks_def ext4_create_fs_aux_info_def Let_def DIV_ROUND_UP_def GROUP_DESC_SIZE_def)
qed (simp_all add: small_fs_def)

lemma small_fs_free: "map_sum id free_count (block_allocator_init small_fs) = Inr 4"
  by code_simp

lemma allocated_blocks_were_free_witness:
  "\<exists>fs alloc fs' h' rs. block_allocator_init small_fs = Inr fs \<and> allocate_blocks 4 (fs, []) = Inr (Some alloc, fs', h') \<and>
    regions_from h' (rl_first (alloc_list alloc)) = Inr rs \<and> length (blocks_of rs) = 4 \<and> distinct (blocks_of rs) \<and>
    allocate_blocks 5 (fs, []) = Inl Longjmp"
proof -
  obtain fs where fs: "block_allocator_init small_fs = Inr fs" "fs_ok fs" "force fs = force small_fs"
    using block_allocator_init_ok [OF small_fs_layout] by blast
  have "free_count fs = 4" using small_fs_free fs(1) by simp
  moreover have "\<not> force fs" using fs(3) by (simp add: small_fs_def)
  ultimately show ?thesis
    using allocated_blocks_were_free [OF fs(2), of 4 "[]"] allocated_blocks_were_free [OF fs(2), of 5 "[]"] fs(1) by auto
qed

end
