(* ===== verification/Ext4_Lists.thy ===== *)
theory Ext4_Lists
  imports Ext4_Regions
begin

text \<open>
  What the operations on allocations do to a list of regions: taking blocks off its front, and the cases in which they lose
  their place or their regions.
\<close>

section \<open>Blocks for metadata are taken off the front\<close>

lemma chain_append: "chain h p rs \<Longrightarrow> chain (h @ h') p rs"
  by (induction rs arbitrary: p) (auto simp: nth_append)

lemma chain_update: "chain h p rs \<Longrightarrow> a \<notin> fst ` set rs \<Longrightarrow> chain (h[a := c]) p rs"
  by (induction rs arbitrary: p) (auto simp: nth_list_update)

lemma chain_length:
  assumes "chain h p rs" and "distinct (map fst rs)"
  shows "length rs \<le> length h"
proof -
  have "set (map fst rs) \<subseteq> {..<length h}" using assms(1)
  proof (induction rs arbitrary: p)
    case (Cons x rs)
    then show ?case using Cons.IH [of "reg_next (snd x)"] by (cases x) auto
  qed simp
  then have "card (set (map fst rs)) \<le> card {..<length h}" by (rule card_mono [rotated]) simp
  then show ?thesis using distinct_card [OF assms(2)] by simp
qed

text \<open>The allocation after its first blocks, at one address, were split off the rest, at another.\<close>

definition front_alloc :: "nat \<Rightarrow> nat \<Rightarrow> block_allocation" where
  "front_alloc a b = \<lparr>alloc_list = \<lparr>rl_first = Some b, rl_last = None, rl_iter = Some b, partial_iter = 0\<rparr>,
     oob_list = \<lparr>rl_first = Some a, rl_last = Some a, rl_iter = Some a, partial_iter = 0\<rparr>\<rparr>"

lemma reserve_oob_front:
  assumes "chain h (Some a) ((a, r) # rs)" and "distinct (a # map fst rs)" and "reg_prev r = None" and "0 < k" and "k < reg_len r"
    and "alloc = new_alloc a"
  shows "\<exists>h'. reserve_oob_blocks alloc k h = Inr (0, front_alloc a (length h), h') \<and> length h' = Suc (length h) \<and>
    chain h' (Some a) [(a, r \<lparr>reg_len := k, reg_next := None, reg_prev := None\<rparr>)] \<and>
    chain h' (Some (length h)) ((length h, \<lparr>reg_block = reg_block r + k, reg_len = reg_len r - k, reg_bg = reg_bg r,
      reg_next = reg_next r, reg_prev = None\<rparr>) # rs)"
proof -
  have a: "a < length h" "h ! a = Some r" "chain h (reg_next r) rs" using assms(1) by auto
  have h: "length h \<noteq> 0" using a(1) by auto
  let ?new = "\<lparr>reg_block = reg_block r + k, reg_len = reg_len r - k, reg_bg = reg_bg r, reg_next = reg_next r, reg_prev = Some a\<rparr>"
  let ?h1 = "(h @ [Some ?new])[a := Some (r \<lparr>reg_next := Some (length h), reg_len := k\<rparr>)]"
  let ?alloc1 = "alloc \<lparr>alloc_list := \<lparr>rl_first = Some a, rl_last = Some a, rl_iter = Some (length h), partial_iter = 0\<rparr>\<rparr>"
  obtain m where m: "length h = Suc m" using h by (cases "length h") auto
  have ld: "load h (Some a) = Inr r" using a by (simp add: load_some)
  have "skip_regions (length h) h (Some a) 0 = Inr (Some a, 0)" "skip_regions (length h) h (Some a) k = Inr (Some a, k)"
    using ld assms(4,5) m by (auto simp: word_gt_0 word_less_no)
  then have "do_split_allocation alloc 0 h = Inr (Some a, alloc, h)" "do_split_allocation alloc k h = Inr (Some a, ?alloc1, ?h1)"
    using ld assms(4,6) a(1) by (auto simp: do_split_allocation_def new_alloc_def create_allocation_def malloc_region_def modify_def load_some load_def nth_append)
  then have split: "split_allocation alloc k h = Inr (Some a, ?alloc1, ?h1)"
    using assms(6) by (simp add: split_allocation_def new_alloc_def create_allocation_def)
  let ?r = "r \<lparr>reg_len := k, reg_next := None, reg_prev := None\<rparr>" and ?n = "?new \<lparr>reg_prev := None\<rparr>"
  let ?h2 = "(h @ [Some ?n])[a := Some ?r]"
  let ?alloc2 = "\<lparr>alloc_list = \<lparr>rl_first = Some (length h), rl_last = None, rl_iter = Some (length h), partial_iter = 0\<rparr>,
      oob_list = \<lparr>rl_first = Some a, rl_last = Some a, rl_iter = Some a, partial_iter = 0\<rparr>\<rparr>"
  have r1: "load ?h1 (Some a) = Inr (r \<lparr>reg_next := Some (length h), reg_len := k\<rparr>)" using a(1) by (simp add: load_some nth_append)
  have rm: "region_list_remove (alloc_list ?alloc1) (Some a) ?h1 = Inr (alloc_list ?alloc2, ?h2)"
    using a(1) assms(3)
    by (simp add: region_list_remove_def load_def modify_def nth_append list_update_append nth_list_update list_update_swap)
  have swap: "r \<lparr>reg_len := k, reg_prev := None, reg_next := None\<rparr> = ?r" by (cases r) simp
  have ap: "region_list_append (oob_list ?alloc1) (Some a) ?h2 = Inr (oob_list ?alloc2, ?h2)"
    using a(1) assms(6)
    by (simp add: region_list_append_def new_alloc_def create_allocation_def empty_list_def modify_def load_def nth_append) (simp only: swap)
  have "move_to_oob (Suc (length h)) (Some a) ?alloc1 ?h1 = Inr (?alloc2, ?h2)"
    using r1 rm ap a(1) by (subst move_to_oob.simps) (simp, subst move_to_oob.simps, simp)
  then have "reserve_oob_blocks alloc k h = Inr (0, ?alloc2, ?h2)" using split by (simp add: reserve_oob_blocks_def)
  moreover have "chain ?h2 (Some a) [(a, ?r)]" using a(1) by (simp add: nth_append)
  moreover have "chain ?h2 (Some (length h)) ((length h, ?n) # rs)"
    using chain_update [OF chain_append [OF a(3)]] assms(2) a(1) by (auto simp: nth_append)
  ultimately show ?thesis by (simp add: front_alloc_def)
qed

lemma blocks_of_split:
  assumes "k < reg_len r" and "unat (reg_block r) + unat (reg_len r) < 2 ^ 32"
    and "reg_block r1 = reg_block r" and "reg_len r1 = k" and "reg_block r2 = reg_block r + k" and "reg_len r2 = reg_len r - k"
  shows "blocks_of [(a, r1)] @ blocks_of ((b, r2) # rs) = blocks_of ((a, r) # rs)"
proof -
  have "unat (reg_block r + k) = unat (reg_block r) + unat k" "unat (reg_len r - k) = unat (reg_len r) - unat k" "unat k < unat (reg_len r)"
    using assms(1,2) by (simp_all add: unat_add unat_sub word_less_nat_alt word_le_nat_alt less_imp_le)
  then show ?thesis
    using assms upt_add_eq_append [of "unat (reg_block r)" "unat (reg_block r) + unat k" "unat (reg_len r) - unat k"]
    by (simp add: blocks_of_def reg_blocks_def)
qed

text \<open>
  Reserving fewer blocks than the first region has moves its first blocks to the list of blocks for metadata; the rest of the
  allocation has the other blocks, in the same order.
\<close>

theorem reserve_oob_takes_front:
  assumes "chain h (Some a) ((a, r) # rs)" and "distinct (a # map fst rs)" and "reg_prev r = None" and "0 < k" and "k < reg_len r"
    and "unat (reg_block r) + unat (reg_len r) < 2 ^ 32"
  shows "\<exists>alloc' h' oob rest. reserve_oob_blocks (new_alloc a) k h = Inr (0, alloc', h') \<and>
    regions_from h' (rl_first (oob_list alloc')) = Inr oob \<and> regions_from h' (rl_first (alloc_list alloc')) = Inr rest \<and>
    length (blocks_of oob) = unat k \<and> blocks_of oob @ blocks_of rest = blocks_of ((a, r) # rs) \<and>
    length rest = length ((a, r) # rs)"
proof -
  let ?r = "r \<lparr>reg_len := k, reg_next := None, reg_prev := None\<rparr>"
  let ?n = "\<lparr>reg_block = reg_block r + k, reg_len = reg_len r - k, reg_bg = reg_bg r, reg_next = reg_next r, reg_prev = None\<rparr>"
  obtain h' where f: "reserve_oob_blocks (new_alloc a) k h = Inr (0, front_alloc a (length h), h')" "length h' = Suc (length h)"
      "chain h' (Some a) [(a, ?r)]" "chain h' (Some (length h)) ((length h, ?n) # rs)"
    using reserve_oob_front [OF assms(1,2,3,4,5) refl] by blast
  have "length rs \<le> length h" using chain_length [of h "reg_next r" rs] assms(1,2) by simp
  then have "regions_from h' (Some (length h)) = Inr ((length h, ?n) # rs)" "regions_from h' (Some a) = Inr [(a, ?r)]"
    using regions_from_chain [OF f(4)] regions_from_chain [OF f(3)] f(2) by simp_all
  moreover have "blocks_of [(a, ?r)] @ blocks_of ((length h, ?n) # rs) = blocks_of ((a, r) # rs)"
    by (rule blocks_of_split [OF assms(5,6)]) simp_all
  moreover have "length (blocks_of [(a, ?r)]) = unat k" by (simp add: blocks_of_def)
  ultimately show ?thesis
    using f(1) by (intro exI [of _ "front_alloc a (length h)"] exI [of _ h'] exI [of _ "[(a, ?r)]"] exI [of _ "(length h, ?n) # rs"]) (simp add: front_alloc_def)
qed

definition example_region :: "u32 \<Rightarrow> u32 \<Rightarrow> nat option \<Rightarrow> nat option \<Rightarrow> region" where
  "example_region b n nxt prev = \<lparr>reg_block = b, reg_len = n, reg_bg = 0, reg_next = nxt, reg_prev = prev\<rparr>"

lemma reserve_oob_takes_front_witness:
  "\<exists>alloc' h' oob rest. reserve_oob_blocks (new_alloc 0) 1 [Some (example_region 10 4 (Some 1) None), Some (example_region 30 2 None (Some 0))] =
      Inr (0, alloc', h') \<and> regions_from h' (rl_first (oob_list alloc')) = Inr oob \<and>
    regions_from h' (rl_first (alloc_list alloc')) = Inr rest \<and> blocks_of oob @ blocks_of rest = [10, 11, 12, 13, 30, 31]"
proof -
  let ?r = "example_region 10 4 (Some 1) None" and ?rs = "[(1, example_region 30 2 None (Some 0))]"
  have "chain [Some ?r, Some (example_region 30 2 None (Some 0))] (Some 0) ((0, ?r) # ?rs)" by (simp add: example_region_def)
  moreover have "blocks_of ((0, ?r) # ?rs) = [10, 11, 12, 13, 30, 31]" by code_simp
  ultimately show ?thesis
    using reserve_oob_takes_front [of "[Some ?r, Some (example_region 30 2 None (Some 0))]" 0 ?r ?rs 1]
    by (auto simp: example_region_def)
qed

section \<open>Lost places and regions\<close>

text \<open>
  Reserving exactly the blocks of the current region fails when it is the last, and otherwise moves the regions behind it:
  a split at a border returns the region behind the border.
\<close>

lemma reserve_oob_whole_region_fails:
  assumes "load h (Some a) = Inr r" and "reg_next r = None" and "rl_iter (alloc_list alloc) = Some a"
    and "partial_iter (alloc_list alloc) = 0" and "0 < reg_len r"
  shows "\<exists>alloc'. reserve_oob_blocks alloc (reg_len r) h = Inr (- 1, alloc', h)"
proof -
  obtain m where m: "length h = Suc m" using assms(1) by (cases "length h") (auto simp: load_some)
  have "skip_regions (length h) h (Some a) 0 = Inr (Some a, 0)" "skip_regions (length h) h (Some a) (reg_len r) = Inr (None, 0)"
    using assms(1,2,5) m by (auto simp: word_gt_0)
  then show ?thesis
    using assms(3,4) by (simp add: reserve_oob_blocks_def split_allocation_def do_split_allocation_def)
qed

text \<open>Advancing never moves to the next region.\<close>

lemma advance_keeps_region:
  "advance_list_loop n h reg blocks l = Inr (ret, l') \<Longrightarrow> rl_iter l' = rl_iter l"
proof (induction n h reg blocks l arbitrary: ret l' rule: advance_list_loop.induct)
  case (1 n h reg blocks l)
  show ?case
  proof (cases "reg \<noteq> None \<and> 0 < sint blocks")
    case True
    then obtain m r where m: "n = Suc m" "load h reg = Inr r"
      using 1(2) by (subst (asm) advance_list_loop.simps) (auto elim!: bindE_InrE split: nat.splits)
    then show ?thesis
      using True 1(1) [OF True m] 1(2) by (subst (asm) (2) advance_list_loop.simps) (auto split: if_splits)
  next
    case False
    then show ?thesis using 1(2) by (subst (asm) advance_list_loop.simps) auto
  qed
qed

text \<open>Reducing an allocation by more than its last region, which has one before it, frees the region and then reads it.\<close>

lemma reduce_reads_freed_region:
  assumes "load h (rl_last (alloc_list alloc)) = Inr r" and "reg_prev r = Some q" and "load h (Some q) = Inr r1" and "reg_len r < n"
    and "free_in_group (reg_bg r) (reg_len r) fs = Inr fs1"
  shows "reduce_allocation alloc n (fs, h) = Inl BadAccess"
proof -
  obtain a where a: "rl_last (alloc_list alloc) = Some a" "a < length h" "h ! a = Some r" using assms(1)
    by (auto simp: load_def split: option.splits if_splits)
  have q: "q < length h" "h ! q = Some r1" using assms(3) by (auto simp: load_some)
  have n: "n \<noteq> 0" "n - reg_len r \<noteq> 0" "\<not> n < reg_len r" using assms(4) by auto
  let ?h2 = "h[q := Some (r1 \<lparr>reg_next := None\<rparr>), a := None]"
  have "reduce_allocation alloc n (fs, h) = reduce_allocation alloc (n - reg_len r) (fs1, ?h2)"
    using assms a q n
    by (subst reduce_allocation.simps) (auto simp: modify_def free_region_def load_def nth_list_update)
  also have "\<dots> = Inl BadAccess"
    using n(2) a by (subst reduce_allocation.simps) (simp add: load_def nth_list_update)
  finally show ?thesis .
qed

text \<open>Of a new allocation for metadata only the first region is added to the list.\<close>

lemma append_oob_loses_regions:
  assumes "load h (Some a) = Inr r" and "rl_first l = None"
  shows "\<exists>h'. append_oob_loop (Suc n) (Some a) l h = Inr (\<lparr>rl_first = Some a, rl_last = Some a, rl_iter = Some a, partial_iter = 0\<rparr>, h') \<and>
    regions_from h' (Some a) = Inr [(a, r \<lparr>reg_prev := None, reg_next := None\<rparr>)]"
proof -
  let ?r = "r \<lparr>reg_prev := None, reg_next := None\<rparr>"
  have a: "a < length h" "h ! a = Some r" using assms(1) by (auto simp: load_some)
  have "chain (h[a := Some ?r]) (Some a) [(a, ?r)]" using a by simp
  then have "regions_from (h[a := Some ?r]) (Some a) = Inr [(a, ?r)]" using a(1) unfolding regions_from_def by (intro walk_chain) auto
  moreover have "region_list_append l (Some a) h = Inr (\<lparr>rl_first = Some a, rl_last = Some a, rl_iter = Some a, partial_iter = 0\<rparr>, h[a := Some ?r])"
    using assms by (simp add: region_list_append_def modify_def)
  moreover have "load (h[a := Some ?r]) (Some a) = Inr ?r" using a by (simp add: load_some)
  ultimately show ?thesis by simp
qed

end
