(* ===== verification/Ext4_Extents.thy ===== *)
theory Ext4_Extents
  imports Ext4_Lists
begin

text \<open>
  The extents of a file's inode (\<^verbatim>\<open>extent.c\<close>): the blocks of the file are allocated with one to spare, which becomes the
  extent block when the extents do not fit the inode, and is given back otherwise.
\<close>

section \<open>Extents\<close>

record ext4_extent_header =
  eh_magic :: u16
  eh_entries :: u16
  eh_max :: u16
  eh_depth :: u16
  eh_generation :: u32

record ext4_extent =
  ee_block :: u32
  ee_len :: u16
  ee_start_hi :: u16
  ee_start_lo :: u32

text \<open>
  What an inode's block area holds: a header with extents, or a header with an index entry that points to an extent block.
\<close>

datatype extent_area =
  Leaf ext4_extent_header "ext4_extent list"
| Index ext4_extent_header u32 ext4_extent_header "ext4_extent list"

record ext4_inode =
  i_block :: extent_area
  i_flags :: u32
  i_size_lo :: u32
  i_size_high :: u32
  i_blocks_lo :: u32
  l_i_blocks_high :: u16

definition EXT4_EXT_MAGIC :: u16 where "EXT4_EXT_MAGIC = 0xf30a"
definition EXT4_EXTENTS_FL :: u32 where "EXT4_EXTENTS_FL = 0x00080000"

text \<open>The block area of an inode has room for four extents behind the header; an extent block has room for what is left of it.\<close>

definition inode_slots :: nat where "inode_slots = 4"

definition block_slots :: "u32 \<Rightarrow> nat" where "block_slots bs = (unat bs - 12) div 12"

text \<open>The loop that writes one extent for each region, into an array with a number of slots.\<close>

fun fill_extents :: "nat \<Rightarrow> nat \<Rightarrow> heap \<Rightarrow> block_allocation \<Rightarrow> u32 \<Rightarrow> ext4_extent list \<Rightarrow> (block_allocation \<times> ext4_extent list) ext4_result" where
  "fill_extents n slots h alloc file_block es =
     (if last_region alloc then Inr (alloc, es)
      else (case n of
              0 \<Rightarrow> Inl NoReturn
            | Suc m \<Rightarrow>
                bindE (get_region alloc h) (\<lambda>(region_block, region_len).
                  if length es \<ge> slots then Inl BadAccess
                  else bindE (get_next_region alloc h) (\<lambda>alloc1.
                    fill_extents m slots h alloc1 (file_block + region_len)
                      (es @ [\<lparr>ee_block = file_block, ee_len = ucast region_len, ee_start_hi = 0, ee_start_lo = region_block\<rparr>])))))"

declare fill_extents.simps [simp del]

definition do_inode_allocate_extents ::
  "ext4_inode \<Rightarrow> u64 \<Rightarrow> ext4_fs \<times> heap \<Rightarrow> (block_allocation option \<times> ext4_inode \<times> ext4_fs \<times> heap) ext4_result" where
  "do_inode_allocate_extents inode n s =
     (let bs = block_size (info (fst s)); block_len = ucast (DIV_ROUND_UP n (ucast bs)) :: u32
      in bindE (allocate_blocks (block_len + 1) s) (\<lambda>(a, fs1, h1).
           case a of
             None \<Rightarrow> ext4_error (force fs1) (Inr (None, inode, fs1, h1))
           | Some alloc \<Rightarrow>
               bindE (block_allocation_num_regions alloc h1) (\<lambda>allocation_len.
               bindE (if sint allocation_len \<le> 3
                      then bindE (reduce_allocation alloc 1 (fs1, h1)) (\<lambda>(alloc, s2). Inr (0, alloc, s2))
                      else bindE (reserve_oob_blocks alloc 1 h1) (\<lambda>(_, alloc, h2).
                           bindE (get_oob_block alloc 0 h2) (\<lambda>b. Inr (b, alloc, fs1, h2)))) (\<lambda>(extent_block, alloc, fs2, h2).
               let done = (\<lambda>alloc fs h area.
                     let n_blocks = (if extent_block \<noteq> 0 then block_len + 1 else block_len);
                         blocks = ucast n_blocks * ucast bs div 512 :: u64
                     in Inr (Some (rewind_alloc alloc),
                          inode \<lparr>i_block := area, i_flags := i_flags inode OR EXT4_EXTENTS_FL, i_size_lo := ucast n,
                            i_size_high := ucast (drop_bit 32 n), i_blocks_lo := ucast blocks, l_i_blocks_high := ucast (drop_bit 32 blocks)\<rparr>, fs, h))
               in if extent_block = 0
                  then bindE (fill_extents (length h2) inode_slots h2 alloc 0 []) (\<lambda>(alloc, es).
                         done alloc fs2 h2 (Leaf \<lparr>eh_magic = EXT4_EXT_MAGIC, eh_entries = ucast allocation_len, eh_max = 3, eh_depth = 0, eh_generation = 0\<rparr> es))
                  else (let fs3 = sparse_file_add_data bs extent_block fs2
                        in if sint (bs - 12 div 12) < sint allocation_len
                           then ext4_error (force fs3) (Inr (None, inode \<lparr>i_block := Index \<lparr>eh_magic = EXT4_EXT_MAGIC, eh_entries = 1, eh_max = 3, eh_depth = 1, eh_generation = 0\<rparr>
                                  extent_block \<lparr>eh_magic = 0, eh_entries = 0, eh_max = 0, eh_depth = 0, eh_generation = 0\<rparr> []\<rparr>, fs3, h2))
                           else bindE (fill_extents (length h2) (block_slots bs) h2 alloc 0 []) (\<lambda>(alloc, es).
                                  done alloc fs3 h2 (Index \<lparr>eh_magic = EXT4_EXT_MAGIC, eh_entries = 1, eh_max = 3, eh_depth = 1, eh_generation = 0\<rparr> extent_block
                                    \<lparr>eh_magic = EXT4_EXT_MAGIC, eh_entries = ucast allocation_len, eh_max = ucast ((bs - 12) div 12), eh_depth = 0, eh_generation = 0\<rparr> es)))))))"

section \<open>Giving blocks back\<close>

lemma clear_bits_marked:
  assumes "n \<le> Suc (unat block)" and "unat block < 8 * length bitmap"
  shows "\<exists>bitmap'. clear_bits n block bitmap = Inr bitmap' \<and>
    marked bitmap' = marked bitmap - {Suc (unat block) - n..unat block} \<and> length bitmap' = length bitmap"
  using assms
proof (induction n block bitmap rule: clear_bits.induct)
  case (2 n block bitmap)
  let ?i = "unat block div 8" and ?j = "unat block mod 8"
  let ?bm = "bitmap[?i := unset_bit ?j (bitmap ! ?i)]"
  have i: "?i < length bitmap" using div_8_less [OF 2(3)] .
  have m: "marked ?bm = marked bitmap - {unat block}"
  proof (rule set_eqI)
    fix k
    have "k = unat block \<longleftrightarrow> k div 8 = ?i \<and> k mod 8 = ?j" by (metis mult_div_mod_eq)
    then show "k \<in> marked ?bm \<longleftrightarrow> k \<in> marked bitmap - {unat block}"
      using i by (cases "k div 8 = ?i") (auto simp: marked_update bit_simps, auto simp: marked_def)
  qed
  show ?case
  proof (cases "n = 0")
    case True
    then show ?thesis using i m by (simp add: unat_div_mod_8 Let_def)
  next
    case False
    then have "0 < unat block" using 2(2) by simp
    then have b: "unat (block - 1) = unat block - 1" by (simp add: unat_sub word_le_nat_alt)
    obtain bm where "clear_bits n (block - 1) ?bm = Inr bm" "marked bm = marked ?bm - {Suc (unat (block - 1)) - n..unat (block - 1)}"
        "length bm = length ?bm"
    proof -
      have "\<not> length bitmap \<le> unat (block div 8)" "n \<le> Suc (unat (block - 1))" "unat (block - 1) < 8 * length ?bm"
        using i b 2(2,3) \<open>0 < unat block\<close> by (simp_all add: unat_div_mod_8)
      from 2(1) [OF refl this(1)] this(2,3) that show ?thesis by (auto simp: unat_div_mod_8)
    qed
    moreover have "{Suc (unat block) - Suc n..unat block} = insert (unat block) {Suc (unat (block - 1)) - n..unat (block - 1)}"
      using b \<open>0 < unat block\<close> 2(2) by auto
    ultimately show ?thesis using i m by (auto simp: unat_div_mod_8 Let_def)
  qed
qed simp

lemma free_blocks_group:
  assumes "group_ok bpg bg" and "num \<le> first_free_block bg"
  shows "\<exists>bg'. free_blocks num bg = Inr bg' \<and> group_ok bpg bg' \<and> first_block bg' = first_block bg \<and>
    unat (first_free_block bg') = unat (first_free_block bg) - unat num \<and>
    unat (bg_free_blocks bg') = unat (bg_free_blocks bg) + unat num"
proof (cases "num = 0")
  case True
  then show ?thesis using assms(1) by (simp add: free_blocks_def group_ok_def)
next
  case False
  let ?f = "unat (first_free_block bg)" and ?n = "unat (bg_free_blocks bg)"
  have ok: "marked (block_bitmap bg) = {..<unat bpg} - {?f..<?f + ?n}" "?f + ?n \<le> unat bpg" "unat bpg \<le> 8 * length (block_bitmap bg)"
      "8 * length (block_bitmap bg) < 2 ^ 32 - 8" using assms(1) by (auto simp: group_ok_def)
  have num: "unat num \<le> ?f" "0 < unat num" using assms(2) False by (simp_all add: word_le_nat_alt unat_gt_0)
  then have f: "unat (first_free_block bg - 1) = ?f - 1" by (simp add: unat_sub word_le_nat_alt)
  obtain bm where bm: "clear_bits (unat num) (first_free_block bg - 1) (block_bitmap bg) = Inr bm"
      "marked bm = marked (block_bitmap bg) - {?f - unat num..?f - 1}" "length bm = length (block_bitmap bg)"
  proof -
    have "unat (first_free_block bg - 1) < 8 * length (block_bitmap bg)" "unat num \<le> Suc (unat (first_free_block bg - 1))"
      using f num ok by linarith+
    from clear_bits_marked [OF this(2,1)] show ?thesis using that f num by auto
  qed
  have u: "unat (first_free_block bg - num) = ?f - unat num" "unat (bg_free_blocks bg + num) = ?n + unat num"
    using assms(2) num ok unat_add [of "bg_free_blocks bg" num] by (simp_all add: unat_sub)
  have "marked bm = {..<unat bpg} - {?f - unat num..<?f - unat num + (?n + unat num)}"
    unfolding bm(2) ok(1) using num ok(2) by (intro set_eqI) auto
  then show ?thesis using bm u ok num by (auto simp: free_blocks_def group_ok_def)
qed

text \<open>The last block of a region at the end of its group's used blocks becomes free again.\<close>

lemma free_region_end:
  assumes "fs_ok fs" and "ends_group fs r" and "k < reg_len r"
    and "\<And>b. b \<in> reg_set r \<Longrightarrow> group_start fs (reg_bg r) + unat (header_size fs (reg_bg r)) \<le> b \<and> b < group_end fs (reg_bg r)"
  shows "\<exists>fs'. free_in_group (reg_bg r) k fs = Inr fs' \<and> fs_ok fs' \<and> info fs' = info fs \<and> aux_info fs' = aux_info fs \<and> force fs' = force fs \<and>
    all_free fs' = all_free fs \<union> {unat (reg_block r) + (unat (reg_len r) - unat k)..<unat (reg_block r) + unat (reg_len r)}"
proof -
  let ?g = "reg_bg r" and ?bg = "bgs fs ! reg_bg r"
  define F where "F = unat (reg_block r) + unat (reg_len r)"
  have g: "?g < length (bgs fs)" "unat (first_block ?bg) + unat (first_free_block ?bg) = F" using assms(2) by (simp_all add: ends_group_def F_def)
  have gi: "group_in fs ?g ?bg" using assms(1) g(1) by (simp add: fs_ok_def)
  then have gs: "group_ok (blocks_per_group (info fs)) ?bg" "unat (first_block ?bg) = group_start fs ?g"
      "free_set ?bg \<subseteq> {group_start fs ?g + unat (header_size fs ?g)..<group_end fs ?g}" by (simp_all add: group_in_def)
  have k: "unat k < unat (reg_len r)" using assms(3) by (simp add: word_less_nat_alt)
  have "unat (reg_block r) \<in> reg_set r" using k by (simp add: reg_set_def)
  then have "group_start fs ?g \<le> unat (reg_block r)" using assms(4) by fastforce
  then have "k \<le> first_free_block ?bg" using g(2) gs(2) k by (simp add: word_le_nat_alt F_def)
  then obtain bg where bg: "free_blocks k ?bg = Inr bg" "group_ok (blocks_per_group (info fs)) bg" "first_block bg = first_block ?bg"
      "unat (first_free_block bg) = unat (first_free_block ?bg) - unat k" "unat (bg_free_blocks bg) = unat (bg_free_blocks ?bg) + unat k"
      "unat k \<le> unat (first_free_block ?bg)"
    using free_blocks_group [OF gs(1)] by (auto simp: word_le_nat_alt)
  have free: "free_set bg = free_set ?bg \<union> {F - unat k..<F}"
  proof -
    define N where "N = unat (bg_free_blocks ?bg)"
    have "unat (first_block bg) + unat (first_free_block bg) = F - unat k" "unat k \<le> F" using bg(3,4,6) g(2) by simp_all
    then have "free_set bg = {F - unat k..<F + N}" "free_set ?bg = {F..<F + N}" using bg(5) g(2) by (simp_all add: free_set_def Let_def N_def)
    then show ?thesis by auto
  qed
  have "{F - unat k..<F} \<subseteq> reg_set r" using k by (auto simp: reg_set_def F_def)
  moreover have "reg_set r \<subseteq> {group_start fs ?g + unat (header_size fs ?g)..<group_end fs ?g}" using assms(4) by (intro subsetI) simp
  ultimately have "free_set bg \<subseteq> {group_start fs ?g + unat (header_size fs ?g)..<group_end fs ?g}" using free gs(3) by blast
  then have "group_in fs ?g bg" using bg(2,3) gs(2) by (simp add: group_in_def)
  let ?fs = "fs \<lparr>bgs := (bgs fs)[?g := bg]\<rparr>"
  have "fs_ok ?fs" using assms(1) g(1) \<open>group_in fs ?g bg\<close> layout_cong(1,2) [of ?fs fs] by (auto simp: fs_ok_def nth_list_update)
  moreover have "all_free ?fs = all_free fs \<union> {F - unat k..<F}"
    using g(1) free unfolding all_free_nth by (auto simp: nth_list_update split: if_splits)
  moreover have "unat (reg_block r) + (unat (reg_len r) - unat k) = F - unat k" using k by (simp add: F_def)
  ultimately show ?thesis using bg(1) g(1) by (simp add: free_in_group_def F_def)
qed

section \<open>The extents of a list of regions\<close>

fun extents_of :: "u32 \<Rightarrow> region list \<Rightarrow> ext4_extent list" where
  "extents_of fb [] = []"
| "extents_of fb (r # rs) =
     \<lparr>ee_block = fb, ee_len = ucast (reg_len r), ee_start_hi = 0, ee_start_lo = reg_block r\<rparr> # extents_of (fb + reg_len r) rs"

lemma fill_extents_chain:
  assumes "chain h (rl_iter (alloc_list alloc)) rs" and "partial_iter (alloc_list alloc) = 0" and "length rs \<le> n" and "length es + length rs \<le> slots"
  shows "\<exists>alloc'. fill_extents n slots h alloc fb es = Inr (alloc', es @ extents_of fb (map snd rs)) \<and>
    rl_first (alloc_list alloc') = rl_first (alloc_list alloc) \<and> oob_list alloc' = oob_list alloc"
  using assms
proof (induction rs arbitrary: n alloc fb es)
  case Nil
  then show ?case by (simp add: fill_extents.simps last_region_def)
next
  case (Cons x rs)
  obtain a r where x: "x = (a, r)" by fastforce
  then have it: "rl_iter (alloc_list alloc) = Some a" "load h (Some a) = Inr r" "chain h (reg_next r) rs"
    using Cons.prems(1) by (auto simp: load_some)
  obtain m where m: "n = Suc m" using Cons.prems(3) by (cases n) auto
  let ?alloc = "alloc \<lparr>alloc_list := (alloc_list alloc) \<lparr>rl_iter := reg_next r, partial_iter := 0\<rparr>\<rparr>"
  let ?es = "es @ [\<lparr>ee_block = fb, ee_len = ucast (reg_len r), ee_start_hi = 0, ee_start_lo = reg_block r\<rparr>]"
  have "fill_extents n slots h alloc fb es = fill_extents m slots h ?alloc (fb + reg_len r) ?es"
    using it m Cons.prems(2,4) by (subst fill_extents.simps) (simp add: last_region_def get_region_def get_next_region_def)
  moreover obtain alloc' where "fill_extents m slots h ?alloc (fb + reg_len r) ?es = Inr (alloc', ?es @ extents_of (fb + reg_len r) (map snd rs))"
      "rl_first (alloc_list alloc') = rl_first (alloc_list ?alloc)" "oob_list alloc' = oob_list ?alloc"
    using Cons.IH [of ?alloc m ?es "fb + reg_len r"] it Cons.prems(3,4) m by auto
  ultimately show ?case using x by simp
qed

text \<open>The blocks that extents name, with the number each of them has in the file.\<close>

definition extent_blocks :: "ext4_extent list \<Rightarrow> nat list" where
  "extent_blocks es = concat (map (\<lambda>e. [unat (ee_start_lo e)..<unat (ee_start_lo e) + unat (ee_len e)]) es)"

definition extent_numbers :: "ext4_extent list \<Rightarrow> nat list" where
  "extent_numbers es = concat (map (\<lambda>e. [unat (ee_block e)..<unat (ee_block e) + unat (ee_len e)]) es)"

lemma extents_of_blocks:
  assumes "\<forall>r \<in> set (map snd rs). unat (reg_len r) < 2 ^ 16" and "unat fb + length (blocks_of rs) < 2 ^ 32"
  shows "extent_blocks (extents_of fb (map snd rs)) = blocks_of rs"
    and "extent_numbers (extents_of fb (map snd rs)) = [unat fb..<unat fb + length (blocks_of rs)]"
proof -
  have "extent_blocks (extents_of fb (map snd rs)) = blocks_of rs \<and>
    extent_numbers (extents_of fb (map snd rs)) = [unat fb..<unat fb + length (blocks_of rs)]"
    using assms
  proof (induction rs arbitrary: fb)
    case (Cons x rs)
    have l: "unat (ucast (reg_len (snd x)) :: u16) = unat (reg_len (snd x))"
      using Cons.prems(1) by (simp add: unsigned_ucast_eq take_bit_nat_eq_self)
    have b: "blocks_of (x # rs) = reg_blocks (snd x) @ blocks_of rs" by (simp add: blocks_of_def)
    have f: "unat (fb + reg_len (snd x)) = unat fb + unat (reg_len (snd x))" using Cons.prems(2) b unat_add [of fb "reg_len (snd x)"] by simp
    then show ?case
      using Cons.IH [of "fb + reg_len (snd x)"] Cons.prems l b
        upt_add_eq_append [of "unat fb" "unat fb + unat (reg_len (snd x))" "length (blocks_of rs)"]
      by (simp add: extent_blocks_def extent_numbers_def reg_blocks_def add.assoc)
  qed (simp add: extent_blocks_def extent_numbers_def blocks_of_def)
  then show "extent_blocks (extents_of fb (map snd rs)) = blocks_of rs"
    and "extent_numbers (extents_of fb (map snd rs)) = [unat fb..<unat fb + length (blocks_of rs)]" by auto
qed

section \<open>Files\<close>

definition area_extents :: "extent_area \<Rightarrow> ext4_extent list" where
  "area_extents a = (case a of Leaf _ es \<Rightarrow> es | Index _ _ _ es \<Rightarrow> es)"

definition area_entries :: "extent_area \<Rightarrow> u16" where
  "area_entries a = (case a of Leaf hdr _ \<Rightarrow> eh_entries hdr | Index _ _ hdr _ \<Rightarrow> eh_entries hdr)"

definition area_meta :: "extent_area \<Rightarrow> nat set" where
  "area_meta a = (case a of Leaf _ _ \<Rightarrow> {} | Index _ b _ _ \<Rightarrow> {unat b})"

text \<open>What is left when the spare block of an allocation is given back.\<close>

lemma reduce_by_one:
  assumes "fs_ok fs" and "chain h (Some a) ((a, r) # rs)" and "distinct (a # map fst rs)" and "1 < reg_len r"
    and "ends_group fs r" and "inside_group fs r"
  shows "\<exists>fs'. reduce_allocation (new_alloc a) 1 (fs, h) = Inr (new_alloc a, fs', h[a := Some (r \<lparr>reg_len := reg_len r - 1\<rparr>)]) \<and>
    fs_ok fs' \<and> info fs' = info fs \<and> aux_info fs' = aux_info fs \<and> force fs' = force fs \<and>
    all_free fs' = all_free fs \<union> {unat (reg_block r) + (unat (reg_len r) - 1)} \<and>
    chain (h[a := Some (r \<lparr>reg_len := reg_len r - 1\<rparr>)]) (Some a) ((a, r \<lparr>reg_len := reg_len r - 1\<rparr>) # rs)"
proof -
  have ld: "load h (Some a) = Inr r" using assms(2) by (simp add: load_some)
  have "\<And>b. b \<in> reg_set r \<Longrightarrow> group_start fs (reg_bg r) + unat (header_size fs (reg_bg r)) \<le> b \<and> b < group_end fs (reg_bg r)"
    using assms(6) by (auto simp: inside_group_def)
  from free_region_end [OF assms(1,5,4) this] obtain fs' where
    f: "free_in_group (reg_bg r) 1 fs = Inr fs'" "fs_ok fs'" "info fs' = info fs" "aux_info fs' = aux_info fs" "force fs' = force fs"
      "all_free fs' = all_free fs \<union> {unat (reg_block r) + (unat (reg_len r) - 1)..<unat (reg_block r) + unat (reg_len r)}"
    by auto
  have "0 < unat (reg_len r)" using assms(4) by (simp add: word_less_nat_alt)
  then have "{unat (reg_block r) + (unat (reg_len r) - 1)..<unat (reg_block r) + unat (reg_len r)} = {unat (reg_block r) + (unat (reg_len r) - 1)}"
    by auto
  moreover have "reduce_allocation (new_alloc a) 1 (fs, h) = Inr (new_alloc a, fs', h[a := Some (r \<lparr>reg_len := reg_len r - 1\<rparr>)])"
    using f(1) ld assms(4) by (subst reduce_allocation.simps) (simp add: modify_def)
  moreover have "chain (h[a := Some (r \<lparr>reg_len := reg_len r - 1\<rparr>)]) (Some a) ((a, r \<lparr>reg_len := reg_len r - 1\<rparr>) # rs)"
    using chain_update [of h "reg_next r" rs a] assms(2,3) by auto
  ultimately show ?thesis using f by simp
qed

lemma blocks_of_butlast:
  assumes "1 < reg_len r"
  shows "set (blocks_of ((a, r) # rs)) = insert (unat (reg_block r) + (unat (reg_len r) - 1)) (set (blocks_of ((a, r \<lparr>reg_len := reg_len r - 1\<rparr>) # rs)))"
    and "length (blocks_of ((a, r) # rs)) = Suc (length (blocks_of ((a, r \<lparr>reg_len := reg_len r - 1\<rparr>) # rs)))"
    and "distinct (blocks_of ((a, r) # rs)) \<Longrightarrow> distinct (blocks_of ((a, r \<lparr>reg_len := reg_len r - 1\<rparr>) # rs)) \<and>
      unat (reg_block r) + (unat (reg_len r) - 1) \<notin> set (blocks_of ((a, r \<lparr>reg_len := reg_len r - 1\<rparr>) # rs))"
proof -
  let ?b = "unat (reg_block r)" and ?n = "unat (reg_len r) - 1"
  have "0 < unat (reg_len r)" using assms by (simp add: word_less_nat_alt)
  then have n: "unat (reg_len r) = Suc ?n" "unat (reg_len r - 1) = ?n" by (simp_all add: unat_sub word_le_nat_alt)
  have "?b + unat (reg_len r) = Suc (?b + ?n)" using n(1) by linarith
  then have "reg_blocks r = [?b..<?b + ?n] @ [?b + ?n]" by (simp only: reg_blocks_def upt_Suc) simp
  then have 1: "blocks_of ((a, r) # rs) = [?b..<?b + ?n] @ (?b + ?n) # blocks_of rs" by (simp add: blocks_of_def)
  have 2: "blocks_of ((a, r \<lparr>reg_len := reg_len r - 1\<rparr>) # rs) = [?b..<?b + ?n] @ blocks_of rs"
    using n(2) by (simp add: blocks_of_def reg_blocks_def)
  show "set (blocks_of ((a, r) # rs)) = insert (?b + ?n) (set (blocks_of ((a, r \<lparr>reg_len := reg_len r - 1\<rparr>) # rs)))"
    and "length (blocks_of ((a, r) # rs)) = Suc (length (blocks_of ((a, r \<lparr>reg_len := reg_len r - 1\<rparr>) # rs)))"
    and "distinct (blocks_of ((a, r) # rs)) \<Longrightarrow> distinct (blocks_of ((a, r \<lparr>reg_len := reg_len r - 1\<rparr>) # rs)) \<and>
      ?b + ?n \<notin> set (blocks_of ((a, r \<lparr>reg_len := reg_len r - 1\<rparr>) # rs))"
    unfolding 1 2 by auto
qed

text \<open>The result for a file: which blocks its extents name, and what is free afterwards.\<close>

definition file_ok :: "ext4_fs \<Rightarrow> nat \<Rightarrow> u64 \<Rightarrow> ext4_inode \<Rightarrow> ext4_fs \<Rightarrow> bool" where
  "file_ok fs L n inode fs' \<longleftrightarrow>
     (let es = area_extents (i_block inode); meta = area_meta (i_block inode)
      in extent_numbers es = [0..<L] \<and> length (extent_blocks es) = L \<and> distinct (extent_blocks es) \<and> set (extent_blocks es) \<inter> meta = {} \<and>
         set (extent_blocks es) \<union> meta \<subseteq> all_free fs \<and> all_free fs' = all_free fs - (set (extent_blocks es) \<union> meta) \<and>
         unat (area_entries (i_block inode)) = length es \<and> fs_ok fs' \<and>
         unat (i_size_high inode) * 2 ^ 32 + unat (i_size_lo inode) = unat n)"

lemma size_halves: "unat (ucast (drop_bit 32 n) :: u32) * 2 ^ 32 + unat (ucast (n :: u64) :: u32) = unat n"
proof -
  have "unat (drop_bit 32 n) = unat n div 2 ^ 32" by (simp add: drop_bit_eq_div unat_div)
  moreover have "unat n div 2 ^ 32 < 2 ^ 32" using unsigned_less [of n, where 'a = nat] by (intro less_mult_imp_div_less) simp
  ultimately show ?thesis by (simp add: unsigned_ucast_eq take_bit_eq_mod)
qed

lemma length_extents_of [simp]: "length (extents_of fb rs) = length rs"
  by (induction rs arbitrary: fb) auto

lemma sint_of_nat_u32: "k < 2 ^ 31 \<Longrightarrow> sint (of_nat k :: u32) = int k"
  using sint_u32 [of "of_nat k"] by (simp add: unsigned_of_nat take_bit_nat_eq_self uint_nat)

text \<open>
  Both cases start from the regions that were allocated.
\<close>

definition file_regions :: "ext4_fs \<Rightarrow> nat \<Rightarrow> heap \<Rightarrow> ext4_fs \<Rightarrow> heap \<Rightarrow> region \<Rightarrow> (nat \<times> region) list \<Rightarrow> bool" where
  "file_regions fs L h fs1 h1 r rs \<longleftrightarrow>
     chain h1 (Some (length h)) ((length h, r) # rs) \<and> distinct (length h # map fst rs) \<and> Suc (length rs) \<le> length h1 \<and>
     fits fs (of_nat (Suc L)) (r # map snd rs) fs1 \<and> reg_prev r = None \<and> 1 < reg_len r"

lemma file_regions_facts:
  assumes "file_regions fs L h fs1 h1 r rs" and "Suc L < 2 ^ 32" and "unat (blocks_per_group (info fs)) < 2 ^ 16"
  shows "length (blocks_of ((length h, r) # rs)) = Suc L" and "distinct (blocks_of ((length h, r) # rs))"
    and "set (blocks_of ((length h, r) # rs)) \<subseteq> all_free fs" and "all_free fs1 = all_free fs - set (blocks_of ((length h, r) # rs))"
    and "\<forall>r \<in> set (r # map snd rs). unat (reg_len r) < 2 ^ 16" and "fs_ok fs1" and "Suc (length rs) \<le> length (bgs fs)"
    and "ends_group fs1 r" and "inside_group fs1 r"
proof -
  have f: "fits fs (of_nat (Suc L)) (r # map snd rs) fs1" using assms(1) by (simp add: file_regions_def)
  have n: "unat (of_nat (Suc L) :: u32) = Suc L" using assms(2) by (rule unat_of_nat_u32)
  show "length (blocks_of ((length h, r) # rs)) = Suc L"
    using f n length_blocks_of [of "(length h, r) # rs"] unfolding fits_def by simp
  have "takes (all_free fs) (map snd ((length h, r) # rs)) (all_free fs1)" using f by (simp add: fits_def)
  from takes_blocks [OF this] show "distinct (blocks_of ((length h, r) # rs))" "set (blocks_of ((length h, r) # rs)) \<subseteq> all_free fs"
    "all_free fs1 = all_free fs - set (blocks_of ((length h, r) # rs))" by auto
  have "\<forall>r \<in> set (r # map snd rs). unat (reg_len r) \<le> unat (blocks_per_group (info fs))"
    using f unfolding fits_def inside_group_def by blast
  then show "\<forall>r \<in> set (r # map snd rs). unat (reg_len r) < 2 ^ 16" using assms(3) by (meson le_less_trans)
  show "fs_ok fs1" "ends_group fs1 r" using f by (simp_all add: fits_def)
  show "inside_group fs1 r" using f inside_group_cong [of fs1 fs] by (simp add: fits_def)
  have "nonempty_groups fs \<le> length (bgs fs)" by (simp add: nonempty_groups_def)
  then show "Suc (length rs) \<le> length (bgs fs)" using f by (simp add: fits_def)
qed

lemma leaf_file:
  assumes "file_regions fs L h fs1 h1 r rs" and "Suc L < 2 ^ 32" and "unat (blocks_per_group (info fs)) < 2 ^ 16" and "Suc (length rs) \<le> 3"
  shows "\<exists>fs2 h2 alloc2 es. reduce_allocation (new_alloc (length h)) 1 (fs1, h1) = Inr (new_alloc (length h), fs2, h2) \<and> length h2 = length h1 \<and>
    fill_extents (length h2) inode_slots h2 (new_alloc (length h)) 0 [] = Inr (alloc2, es) \<and> length es = Suc (length rs) \<and>
    extent_numbers es = [0..<L] \<and> length (extent_blocks es) = L \<and> distinct (extent_blocks es) \<and> set (extent_blocks es) \<subseteq> all_free fs \<and>
    all_free fs2 = all_free fs - set (extent_blocks es) \<and> fs_ok fs2"
proof -
  note F = file_regions_facts [OF assms(1,2,3)]
  have c: "chain h1 (Some (length h)) ((length h, r) # rs)" "distinct (length h # map fst rs)" "1 < reg_len r" "Suc (length rs) \<le> length h1"
    using assms(1) by (simp_all add: file_regions_def)
  let ?r = "r \<lparr>reg_len := reg_len r - 1\<rparr>" and ?b = "unat (reg_block r) + (unat (reg_len r) - 1)"
  let ?h2 = "h1[length h := Some ?r]" and ?rs = "(length h, r \<lparr>reg_len := reg_len r - 1\<rparr>) # rs"
  obtain fs2 where r2: "reduce_allocation (new_alloc (length h)) 1 (fs1, h1) = Inr (new_alloc (length h), fs2, ?h2)" "fs_ok fs2"
      "all_free fs2 = all_free fs1 \<union> {?b}" "chain ?h2 (Some (length h)) ?rs"
    using reduce_by_one [OF F(6) c(1,2,3) F(8,9)] by blast
  note B = blocks_of_butlast [OF c(3), of "length h" rs]
  obtain alloc2 where fe: "fill_extents (length ?h2) inode_slots ?h2 (new_alloc (length h)) 0 [] = Inr (alloc2, extents_of 0 (map snd ?rs))"
    using fill_extents_chain [of ?h2 "new_alloc (length h)" ?rs "length ?h2" "[]" inode_slots 0] r2(4) c(4) assms(4) by (auto simp: inode_slots_def)
  have len: "length (blocks_of ?rs) = L" using F(1) B(2) by simp
  have "unat (reg_len ?r) < 2 ^ 16" using F(5) c(3) by (simp add: unat_sub word_le_nat_alt word_less_nat_alt less_imp_diff_less)
  then have small: "\<forall>r \<in> set (map snd ?rs). unat (reg_len r) < 2 ^ 16" using F(5) by auto
  have e: "extent_blocks (extents_of 0 (map snd ?rs)) = blocks_of ?rs" "extent_numbers (extents_of 0 (map snd ?rs)) = [0..<L]"
    using extents_of_blocks [OF small, of 0] len assms(2) by simp_all
  have "all_free fs2 = all_free fs - set (blocks_of ?rs)" using r2(3) F(3,4) B(1,3) F(2) by auto
  then show ?thesis using r2(1,2) fe e len B(1) B(3) [OF F(2)] F(3)
    by (intro exI [of _ fs2] exI [of _ ?h2] exI [of _ alloc2] exI [of _ "extents_of 0 (map snd ?rs)"]) (simp add: e)
qed

lemma index_file:
  assumes "file_regions fs L h fs1 h1 r rs" and "Suc L < 2 ^ 32" and "unat (blocks_per_group (info fs)) < 2 ^ 16" and "Suc (length rs) \<le> slots"
    and "fs_ok fs"
  shows "\<exists>h2 alloc2 es. reserve_oob_blocks (new_alloc (length h)) 1 h1 = Inr (0, front_alloc (length h) (length h1), h2) \<and>
    get_oob_block (front_alloc (length h) (length h1)) 0 h2 = Inr (reg_block r) \<and>
    fill_extents (length h2) slots h2 (front_alloc (length h) (length h1)) 0 [] = Inr (alloc2, es) \<and> length es = Suc (length rs) \<and>
    extent_numbers es = [0..<L] \<and> length (extent_blocks es) = L \<and> distinct (extent_blocks es) \<and> unat (reg_block r) \<notin> set (extent_blocks es) \<and>
    insert (unat (reg_block r)) (set (extent_blocks es)) \<subseteq> all_free fs \<and>
    all_free fs1 = all_free fs - insert (unat (reg_block r)) (set (extent_blocks es))"
proof -
  note F = file_regions_facts [OF assms(1,2,3)]
  have c: "chain h1 (Some (length h)) ((length h, r) # rs)" "distinct (length h # map fst rs)" "1 < reg_len r" "Suc (length rs) \<le> length h1"
      "reg_prev r = None"
    using assms(1) by (simp_all add: file_regions_def)
  let ?r = "r \<lparr>reg_len := 1, reg_next := None, reg_prev := None\<rparr>"
  let ?n = "\<lparr>reg_block = reg_block r + 1, reg_len = reg_len r - 1, reg_bg = reg_bg r, reg_next = reg_next r, reg_prev = None\<rparr>"
  let ?rs = "(length h1, \<lparr>reg_block = reg_block r + 1, reg_len = reg_len r - 1, reg_bg = reg_bg r, reg_next = reg_next r, reg_prev = None\<rparr>) # rs"
  obtain h2 where f: "reserve_oob_blocks (new_alloc (length h)) 1 h1 = Inr (0, front_alloc (length h) (length h1), h2)" "length h2 = Suc (length h1)"
      "chain h2 (Some (length h)) [(length h, ?r)]" "chain h2 (Some (length h1)) ?rs"
    using reserve_oob_front [OF c(1,2,5) _ c(3) refl] by auto
  have oob: "get_oob_block (front_alloc (length h) (length h1)) 0 h2 = Inr (reg_block r)"
    using find_block_chain [OF f(3), of "length h2" 0] f(2) by (simp add: get_oob_block_def front_alloc_def blocks_of_def reg_blocks_def)
  obtain alloc2 where fe: "fill_extents (length h2) slots h2 (front_alloc (length h) (length h1)) 0 [] = Inr (alloc2, extents_of 0 (map snd ?rs))"
    using fill_extents_chain [of h2 "front_alloc (length h) (length h1)" ?rs "length h2" "[]" slots 0] f(2,4) c(4) assms(4)
    by (auto simp: front_alloc_def)
  have end32: "unat (reg_block r) + unat (reg_len r) < 2 ^ 32"
  proof -
    have "0 < unat (reg_len r)" using c(3) by (simp add: word_less_nat_alt)
    then have "unat (reg_block r) + unat (reg_len r) - 1 \<in> reg_set r" by (auto simp: reg_set_def)
    moreover have "reg_set r \<subseteq> all_free fs" using F(3) by (auto simp: blocks_of_def)
    ultimately obtain i where i: "i < length (bgs fs)" "unat (reg_block r) + unat (reg_len r) - 1 \<in> free_set (bgs fs ! i)" unfolding all_free_nth by blast
    then have "unat (reg_block r) + unat (reg_len r) - 1 < group_start fs (Suc i)" using free_set_range(2) [OF assms(5) i(1)] by auto
    moreover have "group_start fs (Suc i) \<le> group_start fs (unat (groups (aux_info fs)))"
      using assms(5) i(1) mult_le_mono1 [of "Suc i" "unat (groups (aux_info fs))" "unat (blocks_per_group (info fs))"] by (simp add: fs_ok_def group_start_def)
    moreover have "group_start fs (unat (groups (aux_info fs))) < 2 ^ 32 - 1" using assms(5) by (simp add: fs_ok_def layout_ok_def Let_def)
    ultimately show ?thesis by linarith
  qed
  have B: "blocks_of ((length h, r) # rs) = unat (reg_block r) # blocks_of ?rs"
    using blocks_of_split [OF c(3) end32, of ?r ?n "length h" "length h1" rs] by (simp add: blocks_of_def reg_blocks_def)
  have len: "length (blocks_of ?rs) = L" using F(1) B by simp
  have "unat (reg_len ?n) < 2 ^ 16" using F(5) c(3) by (simp add: unat_sub word_le_nat_alt word_less_nat_alt less_imp_diff_less)
  then have small: "\<forall>r \<in> set (map snd ?rs). unat (reg_len r) < 2 ^ 16" using F(5) by auto
  have e: "extent_blocks (extents_of 0 (map snd ?rs)) = blocks_of ?rs" "extent_numbers (extents_of 0 (map snd ?rs)) = [0..<L]"
    using extents_of_blocks [OF small, of 0] len assms(2) by simp_all
  show ?thesis using f(1) oob fe e len B F(2,3,4)
    by (intro exI [of _ h2] exI [of _ alloc2] exI [of _ "extents_of 0 (map snd ?rs)"]) (simp add: e)
qed

text \<open>The regions that the blocks of a new file are allocated in, and how many there may be.\<close>

lemma new_file_regions:
  assumes "fs_ok fs" and "Suc L \<le> free_count fs" and "Suc L < 2 ^ 32" and "1 \<le> L" and "\<exists>bg \<in> set (bgs fs). 1 < bg_free_blocks bg"
  shows "\<exists>fs1 h1 r rs. allocate_blocks (of_nat (Suc L)) (fs, h) = Inr (Some (new_alloc (length h)), fs1, h1) \<and> file_regions fs L h fs1 h1 r rs \<and>
    block_allocation_num_regions (new_alloc (length h)) h1 = Inr (of_nat (Suc (length rs)))"
proof -
  have N: "unat (of_nat (Suc L) :: u32) = Suc L" using assms(3) by (rule unat_of_nat_u32)
  have "0 < (of_nat (Suc L) :: u32)" using N by (simp add: word_less_nat_alt)
  then obtain fs1 h1 r rs where al: "allocate_blocks (of_nat (Suc L)) (fs, h) = Inr (Some (new_alloc (length h)), fs1, h1)"
      "chain h1 (Some (length h)) ((length h, r) # rs)" "distinct (length h # map fst rs)" "Suc (length rs) \<le> length h1"
      "fits fs (of_nat (Suc L)) (r # map snd rs) fs1" "head_ok fs (of_nat (Suc L)) None (r # map snd rs)"
    using allocate_blocks_regions [OF assms(1), of "of_nat (Suc L)" h] N assms(2) by auto
  obtain bg where bg: "bg \<in> set (bgs fs)" "1 < bg_free_blocks bg" using assms(5) by blast
  then have "min (of_nat (Suc L)) (bg_free_blocks bg) \<le> reg_len r" using al(6) by (simp add: head_ok_def)
  moreover have "1 < (of_nat (Suc L) :: u32)" using N assms(4) by (simp add: word_less_nat_alt)
  ultimately have "1 < reg_len r" using bg(2) by (metis less_le_trans min_def)
  then have "file_regions fs L h fs1 h1 r rs" using al(2,3,4,5,6) by (simp add: file_regions_def head_ok_def)
  moreover have "block_allocation_num_regions (new_alloc (length h)) h1 = Inr (of_nat (Suc (length rs)))"
    using regions_from_chain [OF al(2)] al(4) by (simp add: block_allocation_num_regions_def)
  ultimately show ?thesis using al(1) by blast
qed

lemma region_count_bounds:
  assumes "k \<le> block_slots bs" and "unat bs \<le> 2 ^ 16" and "0 < k"
  shows "k < 2 ^ 31 \<and> k < 2 ^ 16 \<and> k \<le> unat bs - 1"
proof -
  have "block_slots bs \<le> (2 ^ 16 - 12) div 12" unfolding block_slots_def using assms(2) by (intro div_le_mono) simp
  then have "block_slots bs \<le> 5460" by simp
  moreover have "k \<le> unat bs - 1" using assms(1,3) unfolding block_slots_def by linarith
  ultimately show ?thesis using assms(1) by simp
qed

text \<open>
  C21: The extents of a new file: when there are enough free blocks, one group with more than one of them, and no more groups than
  extents fit into a block, the extents name the blocks of the file one after the other, all different and free before,
  the header counts them, and nothing but these blocks and the extent block is taken from the free ones.
\<close>

theorem file_extents_cover_file:
  assumes "fs_ok fs" and "\<not> force fs" and "0 \<notin> all_free fs" and "unat (blocks_per_group (info fs)) < 2 ^ 16"
    and "0 < unat bs" and "unat bs \<le> 2 ^ 16" and "bs = block_size (info fs)" and "length (bgs fs) \<le> block_slots bs"
    and "0 < unat n" and "unat n + unat bs < 2 ^ 64" and "L = (unat n + unat bs - 1) div unat bs" and "Suc L \<le> free_count fs" and "Suc L < 2 ^ 32"
    and "\<exists>bg \<in> set (bgs fs). 1 < bg_free_blocks bg"
  shows "\<exists>alloc inode' fs' h'. do_inode_allocate_extents inode n (fs, h) = Inr (Some alloc, inode', fs', h') \<and> file_ok fs L n inode' fs'"
proof -
  define bl :: u32 where "bl = ucast (DIV_ROUND_UP n (ucast bs))"
  have "unat (DIV_ROUND_UP n (ucast bs)) = L" using unat_DIV_ROUND_UP [of n "ucast bs"] assms(5,10,11) by simp
  then have bl: "unat bl = L" using assms(13) by (simp add: bl_def unsigned_ucast_eq take_bit_nat_eq_self)
  have bl1: "bl + 1 = of_nat (Suc L)" unfolding bl [symmetric] by simp
  have "1 \<le> L" using assms(5,9,11) by (simp add: div_greater_zero_iff Suc_le_eq)
  from new_file_regions [OF assms(1,12,13) this assms(14), of h] obtain fs1 h1 r rs where
    al: "allocate_blocks (of_nat (Suc L)) (fs, h) = Inr (Some (new_alloc (length h)), fs1, h1)" and FR: "file_regions fs L h fs1 h1 r rs"
    and nr: "block_allocation_num_regions (new_alloc (length h)) h1 = Inr (of_nat (Suc (length rs)))" by blast
  note F = file_regions_facts [OF FR assms(13,4)]
  have cnt1: "Suc (length rs) \<le> block_slots bs" using F(7) assms(8) by simp
  have cnt: "Suc (length rs) < 2 ^ 31" "Suc (length rs) < 2 ^ 16" "Suc (length rs) \<le> unat bs - 1"
    using region_count_bounds [OF cnt1 assms(6)] by simp_all
  have sn: "sint (of_nat (Suc (length rs)) :: u32) = int (Suc (length rs))" using sint_of_nat_u32 [OF cnt(1)] .
  have un: "unat (ucast (of_nat (Suc (length rs)) :: u32) :: u16) = Suc (length rs)"
    using unat_of_nat_u32 [of "Suc (length rs)"] cnt(2) by (simp add: unsigned_ucast_eq take_bit_nat_eq_self del: of_nat_Suc)
  show ?thesis
  proof (cases "Suc (length rs) \<le> 3")
    case True
    obtain fs2 h2 alloc2 es where l: "reduce_allocation (new_alloc (length h)) 1 (fs1, h1) = Inr (new_alloc (length h), fs2, h2)"
      "fill_extents (length h2) inode_slots h2 (new_alloc (length h)) 0 [] = Inr (alloc2, es)" "length es = Suc (length rs)"
      "extent_numbers es = [0..<L]" "length (extent_blocks es) = L" "distinct (extent_blocks es)" "set (extent_blocks es) \<subseteq> all_free fs"
      "all_free fs2 = all_free fs - set (extent_blocks es)" "fs_ok fs2"
      using leaf_file [OF FR assms(13,4) True] by blast
    show ?thesis
      unfolding do_inode_allocate_extents_def Let_def fst_conv assms(7) [symmetric] bl_def [symmetric] bl1 al
      using True nr l sn un size_halves [of n]
      by (simp add: file_ok_def area_extents_def area_meta_def area_entries_def del: of_nat_Suc)
  next
    case False
    obtain h2 alloc2 es where x: "reserve_oob_blocks (new_alloc (length h)) 1 h1 = Inr (0, front_alloc (length h) (length h1), h2)"
        "get_oob_block (front_alloc (length h) (length h1)) 0 h2 = Inr (reg_block r)"
        "fill_extents (length h2) (block_slots bs) h2 (front_alloc (length h) (length h1)) 0 [] = Inr (alloc2, es)" "length es = Suc (length rs)"
        "extent_numbers es = [0..<L]" "length (extent_blocks es) = L" "distinct (extent_blocks es)" "unat (reg_block r) \<notin> set (extent_blocks es)"
        "insert (unat (reg_block r)) (set (extent_blocks es)) \<subseteq> all_free fs"
        "all_free fs1 = all_free fs - insert (unat (reg_block r)) (set (extent_blocks es))"
      using index_file [OF FR assms(13,4) cnt1 assms(1)] by blast
    have nz: "reg_block r \<noteq> 0" using x(9) assms(3) by auto
    have "unat (bs - 1) = unat bs - 1" using assms(5) by (simp add: unat_sub word_le_nat_alt)
    then have "sint (bs - 12 div 12) = int (unat bs - 1)" using assms(6) by (simp add: sint_u32 uint_nat)
    then have chk: "\<not> sint (bs - 12 div 12) < sint (of_nat (Suc (length rs)) :: u32)" using sn cnt(3) by linarith
    have ok: "fs_ok (sparse_file_add_data bs (reg_block r) fs1)" "all_free (sparse_file_add_data bs (reg_block r) fs1) = all_free fs1"
      using F(6) layout_cong [of "sparse_file_add_data bs (reg_block r) fs1" fs1] by (simp_all add: sparse_file_add_data_def fs_ok_def all_free_def)
    show ?thesis
      unfolding do_inode_allocate_extents_def Let_def fst_conv assms(7) [symmetric] bl_def [symmetric] bl1 al
      using False nr x sn un chk nz ok size_halves [of n]
      by (simp add: file_ok_def area_extents_def area_meta_def area_entries_def Let_def del: of_nat_Suc)
  qed
qed

lemma small_fs_groups: "map_sum id (\<lambda>fs. (map bg_free_blocks (bgs fs), free_count fs)) (block_allocator_init small_fs) = Inr ([3, 1], 4)"
  by code_simp

lemma file_extents_cover_file_witness:
  "\<exists>fs alloc inode' fs' h'. block_allocator_init small_fs = Inr fs \<and>
    do_inode_allocate_extents \<lparr>i_block = Leaf \<lparr>eh_magic = 0, eh_entries = 0, eh_max = 0, eh_depth = 0, eh_generation = 0\<rparr> [], i_flags = 0,
      i_size_lo = 0, i_size_high = 0, i_blocks_lo = 0, l_i_blocks_high = 0\<rparr> 4096 (fs, []) = Inr (Some alloc, inode', fs', h') \<and> file_ok fs 2 4096 inode' fs'"
proof -
  obtain fs where fs: "block_allocator_init small_fs = Inr fs" "fs_ok fs" "force fs = force small_fs" "info fs = info small_fs" "aux_info fs = aux_info small_fs"
    using block_allocator_init_ok [OF small_fs_layout] by blast
  have g: "map bg_free_blocks (bgs fs) = [3, 1]" "free_count fs = 4" using small_fs_groups fs(1) by simp_all
  then obtain a b where ab: "bgs fs = [a, b]" "bg_free_blocks a = 3" by auto
  have "header_size fs 0 = 5"
    using fs(4,5) by (simp add: header_size_def super_blocks_def small_fs_def ext4_create_fs_aux_info_def ext4_bg_has_super_block_def
        DIV_ROUND_UP_def GROUP_DESC_SIZE_def Let_def)
  moreover have "group_start fs 0 = 0"
    using fs(5) by (simp add: group_start_def small_fs_def ext4_create_fs_aux_info_def Let_def)
  ultimately have z: "0 \<notin> all_free fs" using header_not_free [OF fs(2), of 0 0] ab(1) by simp
  have f: "\<not> force fs" and b: "unat (blocks_per_group (info fs)) < 2 ^ 16" and s: "2048 = block_size (info fs)"
    using fs(3,4) by (simp_all add: small_fs_def)
  have l: "length (bgs fs) \<le> block_slots 2048" and e: "\<exists>bg \<in> set (bgs fs). 1 < bg_free_blocks bg" using ab by (simp_all add: block_slots_def)
  have n: "0 < unat (2048 :: u32)" "unat (2048 :: u32) \<le> 2 ^ 16" "0 < unat (4096 :: u64)" "unat (4096 :: u64) + unat (2048 :: u32) < 2 ^ 64"
      "2 = (unat (4096 :: u64) + unat (2048 :: u32) - 1) div unat (2048 :: u32)" "Suc 2 \<le> free_count fs" "Suc 2 < 2 ^ 32"
    using g(2) by simp_all
  from file_extents_cover_file [OF fs(2) f z b n(1,2) s l n(3-7) e] show ?thesis using fs(1) by blast
qed

section \<open>Flaws\<close>

text \<open>
  The check for the size of an extent block compares with the block size less one instead of the number of extents that fit:
  with more regions than that the extents are written behind the block.
\<close>

lemma extent_block_overrun:
  assumes "chain h (rl_iter (alloc_list alloc)) rs" and "partial_iter (alloc_list alloc) = 0" and "length rs \<le> n" and "slots < length es + length rs"
    and "length es \<le> slots"
  shows "fill_extents n slots h alloc fb es = Inl BadAccess"
  using assms
proof (induction rs arbitrary: n alloc fb es)
  case (Cons x rs)
  obtain a r where x: "x = (a, r)" by fastforce
  then have it: "rl_iter (alloc_list alloc) = Some a" "load h (Some a) = Inr r" "chain h (reg_next r) rs"
    using Cons.prems(1) by (auto simp: load_some)
  obtain m where m: "n = Suc m" using Cons.prems(3) by (cases n) auto
  show ?case
  proof (cases "length es = slots")
    case True
    then show ?thesis using it m by (subst fill_extents.simps) (simp add: last_region_def get_region_def)
  next
    case False
    let ?alloc = "alloc \<lparr>alloc_list := (alloc_list alloc) \<lparr>rl_iter := reg_next r, partial_iter := 0\<rparr>\<rparr>"
    let ?es = "es @ [\<lparr>ee_block = fb, ee_len = ucast (reg_len r), ee_start_hi = 0, ee_start_lo = reg_block r\<rparr>]"
    have "fill_extents m slots h ?alloc (fb + reg_len r) ?es = Inl BadAccess"
      using Cons.IH [of ?alloc m ?es "fb + reg_len r"] it Cons.prems(3,4,5) m False by simp
    then show ?thesis
      using it m Cons.prems(2,5) False by (subst fill_extents.simps) (simp add: last_region_def get_region_def get_next_region_def)
  qed
qed simp

text \<open>
  With blocks of 1024 bytes the data starts at block one, but the size of the last group is computed as if it started at block zero.
  A last group that is one block too small for its header is kept, and then all its other blocks, behind the end of the
  device, are free.
\<close>

definition fs_1k :: ext4_fs where
  "fs_1k = (let fi = \<lparr>fs_len = 13312, block_size = 1024, blocks_per_group = 8, inodes_per_group = 8, inode_size = 128, fs_inodes = 16,
       journal_blocks = 0, feat_ro_compat = 1, feat_compat = 0, feat_incompat = 0, bg_desc_reserve_blocks = 0, no_journal = True\<rparr>
     in \<lparr>force = False, info = fi, aux_info = ext4_create_fs_aux_info fi, bgs = [], sparse_data = []\<rparr>)"

lemma free_blocks_behind_device:
  "map_sum id (\<lambda>fs. map (\<lambda>bg. (first_block bg, first_free_block bg, bg_free_blocks bg)) (bgs fs)) (block_allocator_init fs_1k) =
     Inr [(1, 5, 3), (9, 5, 3)]"
  "len_blocks (aux_info fs_1k) = 13"
  by code_simp+

text \<open>An image with fewer blocks than a header has no group, and reserving the first inodes accesses a group that is not there.\<close>

lemma tiny_image_bad_access:
  "\<exists>fs. block_allocator_init (new_fs 8192) = Inr fs \<and> reserve_inodes 0 10 fs = Inl BadAccess"
proof -
  have "groups (aux_info (new_fs 8192)) = 0" by code_simp
  then show ?thesis by (simp add: block_allocator_init_def reserve_inodes_def get_free_inodes_def)
qed

end
