(* ===== verification/Stralloc.thy ===== *)
theory Stralloc
  imports Text "HOL-Library.Monad_Syntax"
begin

text \<open>
  Dynamic strings (\<^verbatim>\<open>src/android/sockets/src/android/utils/stralloc.c\<close>).  The memory of a string is a block of bytes, some of
  them not yet written; an operation ends with \<open>None\<close> when it accesses memory outside a block or logs a fatal error, which
  aborts the program.  The argument \<open>lim\<close> is the size of the largest block that the allocator can provide.
\<close>

unbundle bit_operations_syntax

section \<open>Blocks of memory\<close>

type_synonym block = "u8 option list"

text \<open>\<^verbatim>\<open>realloc\<close> of a pointer, \<open>None\<close> being the null pointer; a block that is reallocated to size zero is freed.\<close>

definition realloc :: "nat \<Rightarrow> block option \<Rightarrow> u32 \<Rightarrow> block option" where
  "realloc lim p n =
     (case p of
        None \<Rightarrow> if unat n \<le> lim then Some (replicate (unat n) None) else None
      | Some m \<Rightarrow> if n = 0 then None
                  else if unat n \<le> lim then Some (take (unat n) m @ replicate (unat n - length m) None) else None)"

text \<open>\<^verbatim>\<open>memcpy\<close> to an offset of a block.\<close>

definition memcpy_at :: "nat \<Rightarrow> block \<Rightarrow> block option \<Rightarrow> block option option" where
  "memcpy_at i bs p =
     (case p of
        None \<Rightarrow> if bs = [] then Some None else None
      | Some m \<Rightarrow> if i + length bs \<le> length m then Some (Some (take i m @ bs @ drop (i + length bs) m)) else None)"

section \<open>Dynamic strings\<close>

record stralloc_t =
  sa_s :: "block option"
  sa_n :: u32
  sa_a :: u32

definition STRALLOC_INIT :: stralloc_t where
  "STRALLOC_INIT = \<lparr>sa_s = None, sa_n = 0, sa_a = 0\<rparr>"

definition stralloc_reset :: "stralloc_t \<Rightarrow> stralloc_t" where
  "stralloc_reset s = s \<lparr>sa_s := None, sa_n := 0, sa_a := 0\<rparr>"

text \<open>The loop of \<^verbatim>\<open>stralloc_ready\<close>, which finds the new size.\<close>

definition next_max :: "u32 \<Rightarrow> u32" where
  "next_max m = (let m2 = m + drop_bit 1 m + 16 in if m2 < m then 0xFFFFFFFF else m2)"

lemma unat_drop_bit_1: "unat (drop_bit 1 m) = unat m div 2" for m :: u32
  by (simp add: drop_bit_eq_div unat_div)

lemma next_max_less: "m < len \<Longrightarrow> m < next_max m" for m :: u32
proof -
  assume "m < len"
  then have l: "unat m < 2 ^ 32 - 1" using unsigned_less [of len, where 'a = nat] by (simp add: word_less_nat_alt)
  have e: "unat (m + drop_bit 1 m + 16) = (unat m + unat m div 2 + 16) mod 2 ^ 32"
    by (simp add: unat_word_ariths unat_drop_bit_1 [simplified] mod_simps)
  have "unat m < (unat m + unat m div 2 + 16) mod 2 ^ 32 \<or> (unat m + unat m div 2 + 16) mod 2 ^ 32 < unat m"
  proof (cases "unat m + unat m div 2 + 16 < 2 ^ 32")
    case False
    then have "(unat m + unat m div 2 + 16) mod 2 ^ 32 = unat m + unat m div 2 + 16 - 2 ^ 32"
      using l by (simp add: mod_if)
    moreover have "unat m div 2 + 16 < 2 ^ 32" using l by simp
    ultimately show ?thesis using l False by linarith
  qed simp
  then show ?thesis using l e by (auto simp: next_max_def Let_def word_less_nat_alt)
qed

function grow :: "u32 \<Rightarrow> u32 \<Rightarrow> u32" where
  "grow len m = (if m < len then grow len (next_max m) else m)"
  by auto
termination
proof (relation "measure (\<lambda>(len, m). 2 ^ 32 - unat m)")
  fix len m :: u32 assume "m < len"
  then have "unat m < unat (next_max m)" using next_max_less by (simp add: word_less_nat_alt [symmetric])
  then show "((len, next_max m), len, m) \<in> measure (\<lambda>(len, m). 2 ^ 32 - unat m)"
    using unsigned_less [of "next_max m", where 'a = nat] by simp
qed simp

declare grow.simps [simp del]

definition stralloc_ready :: "nat \<Rightarrow> stralloc_t \<Rightarrow> u32 \<Rightarrow> stralloc_t option" where
  "stralloc_ready lim s len =
     (let new_max = grow len (sa_a s)
      in case realloc lim (sa_s s) new_max of
           None \<Rightarrow> None
         | Some m \<Rightarrow> Some (s \<lparr>sa_s := Some m, sa_a := new_max\<rparr>))"

definition stralloc_readyplus :: "nat \<Rightarrow> stralloc_t \<Rightarrow> u32 \<Rightarrow> stralloc_t option" where
  "stralloc_readyplus lim s len =
     (let len2 = sa_n s + len in if len2 < sa_n s then None else stralloc_ready lim s len2)"

text \<open>Copying into the string at an offset.\<close>

definition sa_memcpy :: "nat \<Rightarrow> block \<Rightarrow> stralloc_t \<Rightarrow> stralloc_t option" where
  "sa_memcpy i bs s = map_option (\<lambda>m. s \<lparr>sa_s := m\<rparr>) (memcpy_at i bs (sa_s s))"

text \<open>Reading the first bytes of a string.\<close>

definition sa_front :: "stralloc_t \<Rightarrow> nat \<Rightarrow> block option" where
  "sa_front s n =
     (case sa_s s of
        None \<Rightarrow> if n = 0 then Some [] else None
      | Some m \<Rightarrow> if n \<le> length m then Some (take n m) else None)"

definition stralloc_copy :: "nat \<Rightarrow> stralloc_t \<Rightarrow> stralloc_t \<Rightarrow> stralloc_t option" where
  "stralloc_copy lim s from = do {
     s1 \<leftarrow> stralloc_ready lim s (sa_n from);
     bs \<leftarrow> sa_front from (unat (sa_n from));
     s2 \<leftarrow> sa_memcpy 0 bs s1;
     Some (s2 \<lparr>sa_n := sa_n from\<rparr>)
   }"

definition stralloc_append :: "nat \<Rightarrow> stralloc_t \<Rightarrow> stralloc_t \<Rightarrow> stralloc_t option" where
  "stralloc_append lim s from = do {
     s1 \<leftarrow> stralloc_readyplus lim s (sa_n from);
     bs \<leftarrow> sa_front from (unat (sa_n from));
     s2 \<leftarrow> sa_memcpy (unat (sa_n s1)) bs s1;
     Some (s2 \<lparr>sa_n := sa_n s2 + sa_n from\<rparr>)
   }"

definition stralloc_add_bytes :: "nat \<Rightarrow> stralloc_t \<Rightarrow> bytes \<Rightarrow> u32 \<Rightarrow> stralloc_t option" where
  "stralloc_add_bytes lim s from len = do {
     s1 \<leftarrow> stralloc_readyplus lim s len;
     s2 \<leftarrow> (if unat len \<le> length from then sa_memcpy (unat (sa_n s1)) (map Some (take (unat len) from)) s1 else None);
     Some (s2 \<lparr>sa_n := sa_n s2 + len\<rparr>)
   }"

definition stralloc_add_c :: "nat \<Rightarrow> stralloc_t \<Rightarrow> u32 \<Rightarrow> stralloc_t option" where
  "stralloc_add_c lim s c = stralloc_add_bytes lim s [ucast c] 1"

text \<open>A text ends with a zero byte in memory; the model has the bytes before it.\<close>

definition stralloc_add_str :: "nat \<Rightarrow> stralloc_t \<Rightarrow> bytes \<Rightarrow> stralloc_t option" where
  "stralloc_add_str lim s str = stralloc_add_bytes lim s str (of_nat (length str))"

definition stralloc_cstr :: "nat \<Rightarrow> stralloc_t \<Rightarrow> stralloc_t option" where
  "stralloc_cstr lim s = stralloc_readyplus lim s 1 \<bind> (\<lambda>s1. sa_memcpy (unat (sa_n s1)) [Some 0] s1)"

text \<open>The text of a string: its first bytes; reading a byte that was never written is an error.\<close>

definition sa_bytes :: "stralloc_t \<Rightarrow> bytes option" where
  "sa_bytes s = do {
     m \<leftarrow> sa_front s (unat (sa_n s));
     if None \<in> set m then None else Some (map the m)
   }"

definition is_blank :: "u8 \<Rightarrow> bool" where
  "is_blank c \<longleftrightarrow> c = 0x20 \<or> c = 0x09"

text \<open>The counter of \<^verbatim>\<open>stralloc_lstrip\<close> is an \<^verbatim>\<open>int\<close>, and must not overflow.\<close>

definition stralloc_lstrip :: "stralloc_t \<Rightarrow> stralloc_t option" where
  "stralloc_lstrip s = do {
     bs \<leftarrow> sa_bytes s;
     let count = length (takeWhile is_blank bs) in
     if count \<ge> 2 ^ 31 then None
     else if count > 0 then do {
       s1 \<leftarrow> sa_memcpy 0 (map Some (drop count bs)) s;
       Some (s1 \<lparr>sa_n := sa_n s1 - of_nat count\<rparr>)
     }
     else Some s
   }"

definition stralloc_rstrip :: "stralloc_t \<Rightarrow> stralloc_t option" where
  "stralloc_rstrip s =
     (if sint (sa_n s) < 0 then Some s
      else do {
        bs \<leftarrow> sa_bytes s;
        Some (s \<lparr>sa_n := sa_n s - of_nat (length (takeWhile is_blank (rev bs)))\<rparr>)
      })"

definition stralloc_strip :: "stralloc_t \<Rightarrow> stralloc_t option" where
  "stralloc_strip s = stralloc_rstrip s \<bind> stralloc_lstrip"

section \<open>Formatted text\<close>

text \<open>
  \<^verbatim>\<open>vsnprintf\<close> of a text into a block of a given size: its result and what it writes.  A library that conforms to the standard
  returns the length of the whole text, old ones return -1 when the text is cut.
\<close>

definition vsnprintf :: "bool \<Rightarrow> bytes \<Rightarrow> u32 \<Rightarrow> int \<times> bytes" where
  "vsnprintf old text a =
     (if length text \<ge> 2 ^ 31 \<or> old \<and> unat a \<le> length text then -1 else int (length text),
      if a = 0 then [] else take (unat a - 1) text @ [0])"

text \<open>The loop of \<^verbatim>\<open>stralloc_formatv\<close>.\<close>

partial_function (option) format_loop :: "nat \<Rightarrow> bool \<Rightarrow> bytes \<Rightarrow> stralloc_t \<Rightarrow> stralloc_t option" where
  "format_loop lim old text s =
     (case vsnprintf old text (sa_a s) of (n, out) \<Rightarrow>
        Option.bind (sa_memcpy 0 (map Some out) s) (\<lambda>s1.
          if n > -1 \<and> n < uint (sa_a s1) then Some (s1 \<lparr>sa_n := of_int n\<rparr>)
          else Option.bind (stralloc_ready lim s1 (if n > -1 then of_int n + 1 else sa_a s1 * 2)) (format_loop lim old text)))"

definition stralloc_formatv :: "nat \<Rightarrow> bool \<Rightarrow> stralloc_t \<Rightarrow> bytes \<Rightarrow> stralloc_t option" where
  "stralloc_formatv lim old s text = stralloc_ready lim (stralloc_reset s) 10 \<bind> format_loop lim old text"

definition stralloc_format :: "nat \<Rightarrow> bool \<Rightarrow> stralloc_t \<Rightarrow> bytes \<Rightarrow> stralloc_t option" where
  "stralloc_format lim old s text = stralloc_formatv lim old s text"

definition stralloc_add_formatv :: "nat \<Rightarrow> bool \<Rightarrow> stralloc_t \<Rightarrow> bytes \<Rightarrow> stralloc_t option" where
  "stralloc_add_formatv lim old s text = stralloc_formatv lim old STRALLOC_INIT text \<bind> stralloc_append lim s"

definition stralloc_add_format :: "nat \<Rightarrow> bool \<Rightarrow> stralloc_t \<Rightarrow> bytes \<Rightarrow> stralloc_t option" where
  "stralloc_add_format lim old s text = stralloc_add_formatv lim old s text"

section \<open>Quoting and hexadecimal digits\<close>

definition hexdigits :: bytes where
  "hexdigits = asc ''0123456789abcdef''"

text \<open>The format \<^verbatim>\<open>\x%02x\<close>, \<^verbatim>\<open>%-*s\<close>.\<close>

definition format_x02 :: "u8 \<Rightarrow> bytes" where
  "format_x02 c = [0x5C, 0x78, hexdigits ! unat (drop_bit 4 c), hexdigits ! unat (c AND 15)]"

definition pad_right :: "nat \<Rightarrow> bytes \<Rightarrow> bytes" where
  "pad_right w t = t @ replicate (w - length t) 0x20"

fun stralloc_add_quote_loop :: "nat \<Rightarrow> bool \<Rightarrow> stralloc_t \<Rightarrow> bytes \<Rightarrow> stralloc_t option" where
  "stralloc_add_quote_loop lim old s [] = Some s"
| "stralloc_add_quote_loop lim old s (c # p) =
     Option.bind
       (if c = 0x5C then stralloc_add_str lim s [0x5C, 0x5C]
        else if 0x20 \<le> c \<and> c < 128 then stralloc_add_c lim s (ucast c)
        else if c = 0x0A then stralloc_add_str lim s [0x5C, 0x6E]
        else if c = 0x09 then stralloc_add_str lim s [0x5C, 0x74]
        else if c = 0x0D then stralloc_add_str lim s [0x5C, 0x72]
        else stralloc_add_format lim old s (format_x02 c))
       (\<lambda>s1. stralloc_add_quote_loop lim old s1 p)"

definition stralloc_add_quote_bytes :: "nat \<Rightarrow> bool \<Rightarrow> stralloc_t \<Rightarrow> bytes \<Rightarrow> u32 \<Rightarrow> stralloc_t option" where
  "stralloc_add_quote_bytes lim old s from len =
     (if unat len \<le> length from then stralloc_add_quote_loop lim old s (take (unat len) from) else None)"

definition stralloc_add_quote_c :: "nat \<Rightarrow> bool \<Rightarrow> stralloc_t \<Rightarrow> u32 \<Rightarrow> stralloc_t option" where
  "stralloc_add_quote_c lim old s c = stralloc_add_quote_bytes lim old s [ucast c] 1"

definition stralloc_add_quote_str :: "nat \<Rightarrow> bool \<Rightarrow> stralloc_t \<Rightarrow> bytes \<Rightarrow> stralloc_t option" where
  "stralloc_add_quote_str lim old s str = stralloc_add_quote_bytes lim old s str (of_nat (length str))"

text \<open>The loop of \<^verbatim>\<open>stralloc_add_hex\<close>, which writes the last digit first.\<close>

fun hex_loop :: "nat \<Rightarrow> u32 \<Rightarrow> stralloc_t \<Rightarrow> stralloc_t option" where
  "hex_loop 0 value s = Some s"
| "hex_loop (Suc nn) value s =
     Option.bind (sa_memcpy (unat (sa_n s) + nn) [Some (hexdigits ! unat (value AND 15))] s) (hex_loop nn (drop_bit 4 value))"

definition stralloc_add_hex :: "nat \<Rightarrow> stralloc_t \<Rightarrow> u32 \<Rightarrow> int \<Rightarrow> stralloc_t option" where
  "stralloc_add_hex lim s value num_digits =
     (if num_digits \<le> 0 then Some s
      else do {
        s1 \<leftarrow> stralloc_readyplus lim s (of_int num_digits);
        s2 \<leftarrow> hex_loop (nat num_digits) value s1;
        Some (s2 \<lparr>sa_n := sa_n s2 + of_int num_digits\<rparr>)
      })"

text \<open>The bytes of one line of a hexadecimal dump after the first one, its gap and its characters.\<close>

fun dump_bytes :: "nat \<Rightarrow> stralloc_t \<Rightarrow> bytes \<Rightarrow> stralloc_t option" where
  "dump_bytes lim s [] = Some s"
| "dump_bytes lim s (c # p) =
     Option.bind (stralloc_add_c lim s 0x20) (\<lambda>s1. Option.bind (stralloc_add_hex lim s1 (ucast c) 2) (\<lambda>s2. dump_bytes lim s2 p))"

definition dump_gap :: "nat \<Rightarrow> stralloc_t \<Rightarrow> nat \<Rightarrow> stralloc_t option" where
  "dump_gap lim s count = do {
     let count2 = 4 + 3 * (16 - count);
     s1 \<leftarrow> stralloc_readyplus lim s (of_nat count2);
     s2 \<leftarrow> sa_memcpy (unat (sa_n s1)) (replicate count2 (Some 0x20)) s1;
     Some (s2 \<lparr>sa_n := sa_n s2 + of_nat count2\<rparr>)
   }"

definition dump_char :: "u8 \<Rightarrow> u8" where
  "dump_char c = (if c < 32 \<or> c > 127 then 0x2E else c)"

definition put_char :: "stralloc_t \<Rightarrow> u8 \<Rightarrow> stralloc_t option" where
  "put_char s c = map_option (\<lambda>s1. s1 \<lparr>sa_n := sa_n s1 + 1\<rparr>) (sa_memcpy (unat (sa_n s)) [Some c] s)"

fun put_chars :: "stralloc_t \<Rightarrow> bytes \<Rightarrow> stralloc_t option" where
  "put_chars s [] = Some s"
| "put_chars s (c # p) = Option.bind (put_char s c) (\<lambda>s1. put_chars s1 p)"

definition dump_text :: "nat \<Rightarrow> stralloc_t \<Rightarrow> bytes \<Rightarrow> stralloc_t option" where
  "dump_text lim s p = do {
     s1 \<leftarrow> stralloc_readyplus lim s (of_nat (length p) + 1);
     s2 \<leftarrow> put_chars s1 (map dump_char p);
     put_char s2 0x0A
   }"

definition dump_line :: "nat \<Rightarrow> stralloc_t \<Rightarrow> bytes \<Rightarrow> bytes \<Rightarrow> stralloc_t option" where
  "dump_line lim s p prefix = do {
     s1 \<leftarrow> stralloc_add_bytes lim s prefix (of_nat (length prefix));
     s2 \<leftarrow> stralloc_add_hex lim s1 (ucast (hd p)) 2;
     s3 \<leftarrow> dump_bytes lim s2 (tl p);
     s4 \<leftarrow> dump_gap lim s3 (length p);
     dump_text lim s4 p
   }"

function stralloc_add_hexdump :: "nat \<Rightarrow> stralloc_t \<Rightarrow> bytes \<Rightarrow> int \<Rightarrow> bytes \<Rightarrow> stralloc_t option" where
  "stralloc_add_hexdump lim s p sz prefix =
     (if sz > 0 then
        let count = (if sz > 16 then 16 else sz)
        in if nat count \<le> length p
           then Option.bind (dump_line lim s (take (nat count) p) prefix)
             (\<lambda>s1. stralloc_add_hexdump lim s1 (drop (nat count) p) (sz - count) prefix)
           else None
      else Some s)"
  by auto
termination by (relation "measure (\<lambda>(lim, s, p, sz, prefix). nat sz)") auto

declare stralloc_add_hexdump.simps [simp del]

section \<open>Tables\<close>

text \<open>
  \<^verbatim>\<open>stralloc_tabular\<close> and \<^verbatim>\<open>print_tabular\<close> are the same code with another way to put out a text and a padded text, which are the
  arguments \<open>emit\<close> and \<open>cell\<close>.  A table that is too narrow for its longest entry divides by zero.
\<close>

definition tabular_width :: "bytes list \<Rightarrow> nat" where
  "tabular_width strings = foldl (\<lambda>maxw t. if length t > maxw then length t else maxw) 0 strings + 2"

text \<open>Division of integers in C, which rounds towards zero.\<close>

definition c_div :: "int \<Rightarrow> int \<Rightarrow> int" where
  "c_div x y = sgn x * sgn y * (\<bar>x\<bar> div \<bar>y\<bar>)"

fun tabular_cells :: "('s \<Rightarrow> bytes \<Rightarrow> 's option) \<Rightarrow> bytes list \<Rightarrow> nat \<Rightarrow> nat \<Rightarrow> nat \<Rightarrow> nat \<Rightarrow> nat \<Rightarrow> 's \<Rightarrow> 's option" where
  "tabular_cells cell strings maxw nrows r c 0 s = Some s"
| "tabular_cells cell strings maxw nrows r c (Suc n) s =
     (let index = c * nrows + r
      in if index \<ge> length strings then Some s
         else Option.bind (cell s (pad_right maxw (strings ! index))) (tabular_cells cell strings maxw nrows r (Suc c) n))"

fun tabular_rows :: "('s \<Rightarrow> bytes \<Rightarrow> 's option) \<Rightarrow> ('s \<Rightarrow> bytes \<Rightarrow> 's option) \<Rightarrow> bytes list \<Rightarrow> bytes \<Rightarrow> nat \<Rightarrow> nat \<Rightarrow> nat \<Rightarrow>
    nat \<Rightarrow> nat \<Rightarrow> 's \<Rightarrow> 's option" where
  "tabular_rows emit cell strings prefix maxw ncols nrows r 0 s = Some s"
| "tabular_rows emit cell strings prefix maxw ncols nrows r (Suc n) s =
     Option.bind (emit s prefix) (\<lambda>s1.
       Option.bind (tabular_cells cell strings maxw nrows r 0 ncols s1) (\<lambda>s2.
         Option.bind (emit s2 [0x0A]) (tabular_rows emit cell strings prefix maxw ncols nrows (Suc r) n)))"

definition tabular :: "('s \<Rightarrow> bytes \<Rightarrow> 's option) \<Rightarrow> ('s \<Rightarrow> bytes \<Rightarrow> 's option) \<Rightarrow> 's \<Rightarrow> bytes list \<Rightarrow> bytes \<Rightarrow> int \<Rightarrow> 's option" where
  "tabular emit cell s strings prefix width =
     (let maxw = tabular_width strings; ncols = c_div width (int maxw);
          nrows = c_div (int (length strings) + ncols - 1) ncols
      in if ncols = 0 then None
         else tabular_rows emit cell strings prefix maxw (nat ncols) (nat nrows) 0 (nat nrows) s)"

definition stralloc_tabular :: "nat \<Rightarrow> bool \<Rightarrow> stralloc_t \<Rightarrow> bytes list \<Rightarrow> bytes \<Rightarrow> int \<Rightarrow> stralloc_t option" where
  "stralloc_tabular lim old out = tabular (stralloc_add_str lim) (stralloc_add_format lim old) out"

section \<open>A string holds a text\<close>

definition sa_holds :: "stralloc_t \<Rightarrow> bytes \<Rightarrow> bool" where
  "sa_holds s t \<longleftrightarrow> unat (sa_n s) = length t \<and>
     (case sa_s s of
        None \<Rightarrow> t = [] \<and> sa_a s = 0
      | Some m \<Rightarrow> length m = unat (sa_a s) \<and> length t \<le> length m \<and> take (length t) m = map Some t)"

text \<open>Memory for every size a string can have.\<close>

definition enough :: "nat \<Rightarrow> bool" where
  "enough lim \<longleftrightarrow> 2 ^ 32 \<le> Suc lim"

lemma enough_size: "enough lim \<Longrightarrow> unat n \<le> lim" for n :: u32
  using unsigned_less [of n, where 'a = nat] by (simp add: enough_def)

lemma grow_le: "len \<le> grow len m \<and> m \<le> grow len m"
proof (induction len m rule: grow.induct)
  case (1 len m)
  show ?case
  proof (cases "m < len")
    case True
    then show ?thesis using 1 [OF True] next_max_less [OF True] by (subst (1 2) grow.simps) auto
  qed (simp add: grow.simps [of len m])
qed

lemma stralloc_init_holds [simp]: "sa_holds STRALLOC_INIT []" "sa_holds (stralloc_reset s) []"
  by (simp_all add: sa_holds_def STRALLOC_INIT_def stralloc_reset_def)

lemma sa_bytes_holds: "sa_holds s t \<Longrightarrow> sa_bytes s = Some t"
  by (auto simp: sa_holds_def sa_bytes_def sa_front_def split: option.splits)

lemma ready_holds:
  assumes "sa_holds s t" and "enough lim" and "sa_s s = None \<or> 0 < len \<or> 0 < sa_a s"
  obtains s' m where "stralloc_ready lim s len = Some s'" "sa_holds s' t" "sa_n s' = sa_n s" "sa_s s' = Some m"
    "length m = unat (sa_a s')" "len \<le> sa_a s'" "sa_a s \<le> sa_a s'"
proof -
  let ?g = "grow len (sa_a s)"
  have g: "len \<le> ?g" "sa_a s \<le> ?g" using grow_le [of len "sa_a s"] by auto
  then have ug: "unat (sa_a s) \<le> unat ?g" by (simp add: word_le_nat_alt)
  obtain m where m: "realloc lim (sa_s s) ?g = Some m" "length m = unat ?g" "length t \<le> length m" "take (length t) m = map Some t"
  proof (cases "sa_s s")
    case None
    then show ?thesis using that assms(1) enough_size [OF assms(2)] by (simp add: realloc_def sa_holds_def)
  next
    case (Some m0)
    then have "?g \<noteq> 0" using assms(3) g by (auto simp: word_gt_0)
    then show ?thesis using that Some assms(1) enough_size [OF assms(2)] ug by (simp add: realloc_def sa_holds_def)
  qed
  show ?thesis
  proof (rule that)
    show "stralloc_ready lim s len = Some (s \<lparr>sa_s := Some m, sa_a := ?g\<rparr>)" using m(1) by (simp add: stralloc_ready_def)
  qed (use m g assms(1) in \<open>simp_all add: sa_holds_def\<close>)
qed

lemma memcpy_holds:
  assumes "sa_holds s t" and "sa_s s = Some m" and "length t + length bs \<le> unat (sa_a s)"
  shows "\<exists>m'. sa_memcpy (unat (sa_n s)) (map Some bs) s = Some (s \<lparr>sa_s := Some m'\<rparr>) \<and> length m' = unat (sa_a s) \<and>
    take (length t + length bs) m' = map Some (t @ bs)"
  using assms by (auto simp: sa_holds_def sa_memcpy_def memcpy_at_def)

lemma readyplus_holds:
  assumes "sa_holds s t" and "enough lim" and "0 < k" and "length t + k < 2 ^ 32"
  obtains s' m where "stralloc_readyplus lim s (of_nat k) = Some s'" "sa_holds s' t" "sa_n s' = sa_n s" "sa_s s' = Some m"
    "length t + k \<le> unat (sa_a s')"
proof -
  have n: "unat (sa_n s) = length t" using assms(1) by (simp add: sa_holds_def)
  have e: "sa_n s + of_nat k = of_nat (length t + k)" by (simp add: n [symmetric])
  have u: "unat (of_nat (length t + k) :: u32) = length t + k" using assms(4) by (rule unat_of_nat_u32)
  have pos: "0 < (of_nat (length t + k) :: u32)" using u assms(3) by (simp add: word_less_nat_alt)
  obtain s' m where r: "stralloc_ready lim s (of_nat (length t + k)) = Some s'" "sa_holds s' t" "sa_n s' = sa_n s" "sa_s s' = Some m"
      "of_nat (length t + k) \<le> sa_a s'"
    using ready_holds [OF assms(1,2), of "of_nat (length t + k)"] pos by blast
  have "\<not> sa_n s + of_nat k < sa_n s" using n u by (simp only: e) (simp add: word_less_nat_alt)
  then have "stralloc_readyplus lim s (of_nat k) = Some s'" using r(1) by (simp add: stralloc_readyplus_def e)
  then show ?thesis using that r u by (simp add: word_le_nat_alt)
qed

lemma sa_holds_extend:
  assumes "sa_holds s t" and "sa_s s = Some m" and "length m' = unat (sa_a s)" and "take (length t + length bs) m' = map Some (t @ bs)"
    and "length t + length bs \<le> unat (sa_a s)"
  shows "sa_holds (s \<lparr>sa_s := Some m', sa_n := sa_n s + of_nat (length bs)\<rparr>) (t @ bs)"
proof -
  have n: "unat (sa_n s) = length t" using assms(1) by (simp add: sa_holds_def)
  have "length t + length bs < 2 ^ 32" using assms(5) unsigned_less [of "sa_a s", where 'a = nat] by simp
  then have "unat (sa_n s + of_nat (length bs)) = length t + length bs"
    using n by (simp add: unat_word_ariths unat_of_nat_u32)
  then show ?thesis using assms(3,4,5) by (simp add: sa_holds_def)
qed

lemma add_bytes_holds:
  assumes "sa_holds s t" and "enough lim" and "bs \<noteq> []" and "length t + length bs < 2 ^ 32"
  shows "\<exists>s'. stralloc_add_bytes lim s bs (of_nat (length bs)) = Some s' \<and> sa_holds s' (t @ bs)"
proof -
  obtain s1 m where r: "stralloc_readyplus lim s (of_nat (length bs)) = Some s1" "sa_holds s1 t" "sa_n s1 = sa_n s" "sa_s s1 = Some m"
      "length t + length bs \<le> unat (sa_a s1)"
    using readyplus_holds [OF assms(1,2) _ assms(4)] assms(3) by blast
  obtain m' where m: "sa_memcpy (unat (sa_n s1)) (map Some bs) s1 = Some (s1 \<lparr>sa_s := Some m'\<rparr>)" "length m' = unat (sa_a s1)"
      "take (length t + length bs) m' = map Some (t @ bs)"
    using memcpy_holds [OF r(2,4,5)] by blast
  have "unat (of_nat (length bs) :: u32) = length bs" using assms(4) by (simp add: unat_of_nat_u32)
  then have "stralloc_add_bytes lim s bs (of_nat (length bs)) = Some (s1 \<lparr>sa_s := Some m', sa_n := sa_n s1 + of_nat (length bs)\<rparr>)"
    using r(1) m(1) by (simp add: stralloc_add_bytes_def)
  then show ?thesis using sa_holds_extend [OF r(2,4) m(2,3) r(5)] by blast
qed

lemma append_holds:
  assumes "sa_holds s t" and "sa_holds from bs" and "enough lim" and "bs \<noteq> []" and "length t + length bs < 2 ^ 32"
  shows "\<exists>s'. stralloc_append lim s from = Some s' \<and> sa_holds s' (t @ bs)"
proof -
  have u: "unat (sa_n from) = length bs" using assms(2) by (simp add: sa_holds_def)
  then have n: "sa_n from = of_nat (length bs)" "sa_front from (unat (sa_n from)) = Some (map Some bs)"
    using assms(2) by (simp_all add: u [symmetric]) (auto simp: sa_holds_def sa_front_def split: option.splits)
  obtain s1 m where r: "stralloc_readyplus lim s (of_nat (length bs)) = Some s1" "sa_holds s1 t" "sa_n s1 = sa_n s" "sa_s s1 = Some m"
      "length t + length bs \<le> unat (sa_a s1)"
    using readyplus_holds [OF assms(1,3) _ assms(5)] assms(4) by blast
  obtain m' where m: "sa_memcpy (unat (sa_n s1)) (map Some bs) s1 = Some (s1 \<lparr>sa_s := Some m'\<rparr>)" "length m' = unat (sa_a s1)"
      "take (length t + length bs) m' = map Some (t @ bs)"
    using memcpy_holds [OF r(2,4,5)] by blast
  have "stralloc_append lim s from = Some (s1 \<lparr>sa_s := Some m', sa_n := sa_n s1 + of_nat (length bs)\<rparr>)"
    using r(1) m(1) n(2) unfolding stralloc_append_def n(1) by simp
  then show ?thesis using sa_holds_extend [OF r(2,4) m(2,3) r(5)] by blast
qed

end
