(* ===== verification/Stralloc_Properties.thy ===== *)
theory Stralloc_Properties
  imports Stralloc "HOL-Library.Multiset"
begin

text \<open>
  What the operations on dynamic strings do to the text a string holds: formatting ends and gives the text, quoting can be undone, a table
  has every entry once.  The locale \<open>text_sink\<close> is the contract of anything a text is written to.
\<close>

section \<open>Formatting ends\<close>

lemma ready_block:
  assumes "enough lim" and "sa_s s = Some m" and "length m = unat (sa_a s)" and "0 < len"
  obtains t mt where "stralloc_ready lim s len = Some t" "sa_s t = Some mt" "length mt = unat (sa_a t)" "len \<le> sa_a t"
proof -
  have "grow len (sa_a s) \<noteq> 0" "unat (sa_a s) \<le> unat (grow len (sa_a s))"
    using grow_le [of len "sa_a s"] assms(4) by (auto simp: word_le_nat_alt word_less_nat_alt)
  then show ?thesis
    using that [of "s \<lparr>sa_s := Some (m @ replicate (unat (grow len (sa_a s)) - length m) None), sa_a := grow len (sa_a s)\<rparr>"] assms
      enough_size [OF assms(1)] grow_le [of len "sa_a s"] by (simp add: stralloc_ready_def realloc_def)
qed

lemma format_step:
  assumes "sa_s s = Some m" and "length m = unat (sa_a s)" and "0 < sa_a s"
  obtains m' where "sa_memcpy 0 (map Some (snd (vsnprintf old text (sa_a s)))) s = Some (s \<lparr>sa_s := Some m'\<rparr>)" "length m' = unat (sa_a s)"
    "length text < unat (sa_a s) \<longrightarrow> take (length text) m' = map Some text"
proof -
  let ?out = "snd (vsnprintf old text (sa_a s))"
  have a: "sa_a s \<noteq> 0" using assms(3) by auto
  then have "unat (sa_a s) \<noteq> 0" by (simp add: unat_eq_0)
  then have l: "length ?out \<le> unat (sa_a s)" using a by (simp add: vsnprintf_def)
  have "take (length text) (map Some ?out @ drop (length ?out) m) = map Some text" if "length text < unat (sa_a s)"
    using that a by (simp add: vsnprintf_def)
  then show ?thesis using that [of "map Some ?out @ drop (length ?out) m"] assms l by (simp add: sa_memcpy_def memcpy_at_def)
qed

lemma format_loop_ends:
  assumes "enough lim" and "length text < 2 ^ 31" and "sa_s s = Some m" and "length m = unat (sa_a s)" and "0 < sa_a s"
  shows "\<exists>s'. format_loop lim old text s = Some s' \<and> sa_holds s' text"
  using assms(3-5)
proof (induction "Suc (length text) - unat (sa_a s)" arbitrary: s m rule: less_induct)
  case less
  obtain m' where m': "sa_memcpy 0 (map Some (snd (vsnprintf old text (sa_a s)))) s = Some (s \<lparr>sa_s := Some m'\<rparr>)" "length m' = unat (sa_a s)"
    "length text < unat (sa_a s) \<longrightarrow> take (length text) m' = map Some text"
    using format_step [OF less.prems] by blast
  show ?case
  proof (cases "length text < unat (sa_a s)")
    case True
    then have v: "fst (vsnprintf old text (sa_a s)) = int (length text)" using assms(2) by (simp add: vsnprintf_def)
    moreover have "int (length text) < uint (sa_a s)" using of_nat_less_iff [THEN iffD2, OF True, where 'a1 = int] by simp
    ultimately have "format_loop lim old text s = Some (s \<lparr>sa_s := Some m', sa_n := of_nat (length text)\<rparr>)"
      using m'(1) by (subst format_loop.simps) (simp add: split_beta)
    moreover have "unat (of_nat (length text) :: u32) = length text" using assms(2) by (simp add: unat_of_nat_u32)
    ultimately show ?thesis using m' True by (simp add: sa_holds_def)
  next
    case False
    let ?n = "fst (vsnprintf old text (sa_a s))"
    define len where "len = (if ?n > -1 then of_int ?n + 1 else sa_a s * 2)"
    have a: "unat (sa_a s) \<le> length text" using False by simp
    have len: "sa_a s < len"
    proof (cases "?n > -1")
      case True
      then have "len = of_nat (Suc (length text))" using assms(2) by (auto simp: len_def vsnprintf_def split: if_splits)
      then have "unat len = Suc (length text)" using assms(2) unat_of_nat_u32 [of "Suc (length text)"] by simp
      then show ?thesis using a by (simp add: word_less_nat_alt)
    next
      case False
      then have "len = sa_a s * 2" by (simp add: len_def)
      then have "unat len = unat (sa_a s) * 2" using a assms(2) by (simp add: unat_word_ariths)
      then show ?thesis using less.prems(3) by (simp add: word_less_nat_alt)
    qed
    have "0 < len" using len by (rule le_less_trans [OF word_zero_le])
    then obtain t mt where t: "stralloc_ready lim (s \<lparr>sa_s := Some m'\<rparr>) len = Some t" "sa_s t = Some mt" "length mt = unat (sa_a t)" "len \<le> sa_a t"
      using ready_block [OF assms(1), of "s \<lparr>sa_s := Some m'\<rparr>" m' len] m'(2) by auto
    have "unat (sa_a s) < unat (sa_a t)" using len t(4) by (simp add: word_less_nat_alt word_le_nat_alt)
    moreover have "0 < sa_a t" using calculation by (simp add: word_less_nat_alt)
    ultimately obtain s' where s': "format_loop lim old text t = Some s'" "sa_holds s' text"
      using less.hyps [OF _ t(2,3)] a by (meson diff_less_mono2 le_less_trans less_Suc_eq_le)
    have "uint (sa_a s) \<le> int (length text)" using of_nat_le_iff [THEN iffD2, OF a, where 'a1 = int] by simp
    then have "\<not> (?n > -1 \<and> ?n < uint (sa_a s))" by (auto simp: vsnprintf_def)
    then have "format_loop lim old text s = stralloc_ready lim (s \<lparr>sa_s := Some m'\<rparr>) len \<bind> format_loop lim old text"
      using m'(1) unfolding len_def by (subst format_loop.simps) (simp add: split_beta)
    then show ?thesis using t(1) s' by simp
  qed
qed

lemma stralloc_reset_none: "sa_s (stralloc_reset s) = None"
  by (simp add: stralloc_reset_def)

lemma formatv_holds:
  assumes "enough lim" and "length text < 2 ^ 31"
  shows "\<exists>s'. stralloc_formatv lim old s text = Some s' \<and> sa_holds s' text"
proof -
  obtain t m where "stralloc_ready lim (stralloc_reset s) 10 = Some t" "sa_s t = Some m" "length m = unat (sa_a t)" "10 \<le> sa_a t"
    using ready_holds [OF stralloc_init_holds(2) [of s] assms(1), of 10] by (metis stralloc_reset_none)
  moreover have "0 < sa_a t" using calculation(4) by (rule less_le_trans [rotated]) simp
  ultimately show ?thesis using format_loop_ends [OF assms, of t m old] by (simp add: stralloc_formatv_def)
qed

section \<open>Sinks for text\<close>

text \<open>The numbers of the entries in a row, and the text of rows.\<close>

fun row_indices :: "nat \<Rightarrow> nat \<Rightarrow> nat \<Rightarrow> nat \<Rightarrow> nat \<Rightarrow> nat list" where
  "row_indices k nrows r c 0 = []"
| "row_indices k nrows r c (Suc n) = (if c * nrows + r < k then (c * nrows + r) # row_indices k nrows r (Suc c) n else [])"

definition row_text :: "bytes list \<Rightarrow> nat \<Rightarrow> nat list \<Rightarrow> bytes" where
  "row_text strings maxw is = concat (map (\<lambda>i. pad_right maxw (strings ! i)) is)"

definition rows_text :: "bytes list \<Rightarrow> bytes \<Rightarrow> nat \<Rightarrow> nat \<Rightarrow> nat \<Rightarrow> nat \<Rightarrow> nat \<Rightarrow> bytes" where
  "rows_text strings prefix maxw ncols nrows r n =
     concat (map (\<lambda>r. prefix @ row_text strings maxw (row_indices (length strings) nrows r 0 ncols) @ [0x0A]) [r..<r + n])"

locale text_sink =
  fixes holds :: "'s \<Rightarrow> bytes \<Rightarrow> bool" and emit :: "'s \<Rightarrow> bytes \<Rightarrow> 's option" and cell :: "'s \<Rightarrow> bytes \<Rightarrow> 's option" and bound :: nat
  assumes emit: "holds s t \<Longrightarrow> bs \<noteq> [] \<Longrightarrow> length t + length bs < bound \<Longrightarrow> \<exists>s'. emit s bs = Some s' \<and> holds s' (t @ bs)"
    and cell: "holds s t \<Longrightarrow> bs \<noteq> [] \<Longrightarrow> length t + length bs < bound \<Longrightarrow> \<exists>s'. cell s bs = Some s' \<and> holds s' (t @ bs)"
begin

lemma cells_holds:
  assumes "holds s t" and "2 \<le> maxw" and "length t + length (row_text strings maxw (row_indices (length strings) nrows r c n)) < bound"
  shows "\<exists>s'. tabular_cells cell strings maxw nrows r c n s = Some s' \<and>
    holds s' (t @ row_text strings maxw (row_indices (length strings) nrows r c n))"
  using assms(1,3)
proof (induction n arbitrary: c s t)
  case (Suc n)
  show ?case
  proof (cases "c * nrows + r < length strings")
    case True
    let ?p = "pad_right maxw (strings ! (c * nrows + r))"
    have "?p \<noteq> []" using assms(2) by (cases "strings ! (c * nrows + r)") (auto simp: pad_right_def)
    then obtain s1 where s1: "cell s ?p = Some s1" "holds s1 (t @ ?p)"
      using cell [OF Suc.prems(1), of ?p] Suc.prems(2) True by (auto simp: row_text_def)
    show ?thesis using Suc.IH [OF s1(2), of "Suc c"] Suc.prems(2) s1(1) True by (auto simp: Let_def row_text_def)
  qed (use Suc.prems in \<open>auto simp: Let_def row_text_def\<close>)
qed (simp add: row_text_def)

lemma rows_holds:
  assumes "holds s t" and "2 \<le> maxw" and "prefix \<noteq> []" and "length t + length (rows_text strings prefix maxw ncols nrows r n) < bound"
  shows "\<exists>s'. tabular_rows emit cell strings prefix maxw ncols nrows r n s = Some s' \<and>
    holds s' (t @ rows_text strings prefix maxw ncols nrows r n)"
  using assms(1,4)
proof (induction n arbitrary: r s t)
  case (Suc n)
  let ?row = "row_text strings maxw (row_indices (length strings) nrows r 0 ncols)"
  have "[r..<r + Suc n] = r # [Suc r..<Suc r + n]" using upt_conv_Cons [of r "r + Suc n"] by simp
  then have R: "rows_text strings prefix maxw ncols nrows r (Suc n) = prefix @ ?row @ [0x0A] @ rows_text strings prefix maxw ncols nrows (Suc r) n"
    unfolding rows_text_def by (simp del: upt_Suc)
  then have len: "length t + length prefix + length ?row + 1 + length (rows_text strings prefix maxw ncols nrows (Suc r) n) < bound"
    using Suc.prems(2) by simp
  obtain s1 where s1: "emit s prefix = Some s1" "holds s1 (t @ prefix)" using emit [OF Suc.prems(1) assms(3)] len by auto
  obtain s2 where s2: "tabular_cells cell strings maxw nrows r 0 ncols s1 = Some s2" "holds s2 (t @ prefix @ ?row)"
    using cells_holds [OF s1(2) assms(2), of strings nrows r 0 ncols] len by auto
  obtain s3 where s3: "emit s2 [0x0A] = Some s3" "holds s3 (t @ prefix @ ?row @ [0x0A])" using emit [OF s2(2), of "[0x0A]"] len by auto
  show ?case using Suc.IH [OF s3(2), of "Suc r"] len s1(1) s2(1) s3(1) by (auto simp: R)
qed (simp add: rows_text_def)

end

lemma add_format_holds:
  assumes "sa_holds s t" and "enough lim" and "bs \<noteq> []" and "length t + length bs < 2 ^ 31"
  shows "\<exists>s'. stralloc_add_format lim old s bs = Some s' \<and> sa_holds s' (t @ bs)"
proof -
  obtain f where f: "stralloc_formatv lim old STRALLOC_INIT bs = Some f" "sa_holds f bs" using formatv_holds [OF assms(2), of bs] assms(4) by auto
  then show ?thesis
    using append_holds [OF assms(1) f(2) assms(2,3)] assms(4) by (simp add: stralloc_add_format_def stralloc_add_formatv_def)
qed

lemma add_str_holds:
  assumes "sa_holds s t" and "enough lim" and "bs \<noteq> []" and "length t + length bs < 2 ^ 32"
  shows "\<exists>s'. stralloc_add_str lim s bs = Some s' \<and> sa_holds s' (t @ bs)"
  using add_bytes_holds [OF assms] by (simp add: stralloc_add_str_def)

lemma stralloc_sink: "enough lim \<Longrightarrow> text_sink sa_holds (stralloc_add_str lim) (stralloc_add_format lim old) (2 ^ 31)"
  by unfold_locales (use add_str_holds add_format_holds in auto)

text \<open>All memory that can be addressed.\<close>

definition all_memory :: nat where
  "all_memory = 2 ^ 32"

lemma enough_all_memory [simp]: "enough all_memory"
  by (simp add: enough_def all_memory_def)

interpretation sa_sink: text_sink sa_holds "stralloc_add_str all_memory" "stralloc_add_format all_memory old" "2 ^ 31" for old
  by (rule stralloc_sink) simp

section \<open>Every entry of a table is printed once\<close>

lemma set_row_indices: "set (row_indices k nrows r c n) = (\<lambda>d. d * nrows + r) ` {c..<c + n} \<inter> {..<k}"
proof (induction n arbitrary: c)
  case (Suc n)
  have i: "{c..<c + Suc n} = insert c {Suc c..<Suc c + n}" by auto
  have "c * nrows + r < k" if "d * nrows + r < k" "Suc c \<le> d" for d
    using that(1) mult_le_mono1 [OF Suc_leD [OF that(2)], of nrows] by linarith
  then show ?case unfolding i by (auto simp: Suc.IH [of "Suc c"])
qed simp

lemma distinct_row_indices: "0 < nrows \<Longrightarrow> distinct (row_indices k nrows r c n)"
  by (induction n arbitrary: c) (auto simp: set_row_indices)

lemma length_row_indices: "length (row_indices k nrows r c n) \<le> n"
  by (induction n arbitrary: c) (auto simp: le_SucI)

lemma distinct_concat_upt:
  assumes "\<And>r. distinct (f r)" and "\<And>r r' i. r < n \<Longrightarrow> r' < n \<Longrightarrow> i \<in> set (f r) \<Longrightarrow> i \<in> set (f r') \<Longrightarrow> r = r'"
  shows "distinct (concat (map f [0..<n]))"
  using assms(2)
proof (induction n)
  case (Suc n)
  then have "distinct (concat (map f [0..<n]))" by simp
  moreover have "x \<notin> set (f n)" if "x \<in> set (f r)" "r < n" for x r using Suc.prems [of r n x] that by auto
  then have "set (concat (map f [0..<n])) \<inter> set (f n) = {}" by auto
  ultimately show ?case using assms(1) by simp
qed simp

lemma rows_permute:
  assumes "0 < nrows" and "k \<le> nrows * ncols"
  shows "mset (concat (map (\<lambda>r. row_indices k nrows r 0 ncols) [0..<nrows])) = mset [0..<k]"
proof (rule set_eq_iff_mset_eq_distinct [THEN iffD1])
  have m: "i mod nrows = r" if "i \<in> set (row_indices k nrows r 0 ncols)" "r < nrows" for i r
    using that by (auto simp: set_row_indices)
  show "distinct (concat (map (\<lambda>r. row_indices k nrows r 0 ncols) [0..<nrows]))"
    by (intro distinct_concat_upt distinct_row_indices [OF assms(1)]) (metis m)
  show "set (concat (map (\<lambda>r. row_indices k nrows r 0 ncols) [0..<nrows])) = set [0..<k]"
  proof (intro equalityI subsetI)
    fix i assume "i \<in> set [0..<k]"
    then have "i < k" by simp
    moreover have "i div nrows < ncols" using calculation assms(2) by (simp add: less_mult_imp_div_less mult.commute)
    ultimately have "i \<in> set (row_indices k nrows (i mod nrows) 0 ncols)" by (auto simp: set_row_indices intro!: image_eqI [of _ _ "i div nrows"])
    then show "i \<in> set (concat (map (\<lambda>r. row_indices k nrows r 0 ncols) [0..<nrows]))" using assms(1) by auto
  qed (auto simp: set_row_indices)
qed simp

lemma foldl_max: "foldl (\<lambda>m t. if length t > m then length t else m) a ts = foldl (\<lambda>m t. max m (length t)) a ts"
  by (induction ts arbitrary: a) (auto simp: max_def)

lemma tabular_width_ge: "t \<in> set strings \<Longrightarrow> length t + 2 \<le> tabular_width strings"
proof -
  have "a \<le> foldl (\<lambda>m t. max m (length t)) a ts \<and> (\<forall>t \<in> set ts. length t \<le> foldl (\<lambda>m t. max m (length t)) a ts)" for a and ts :: "bytes list"
    by (induction ts arbitrary: a) (auto, (meson max.cobounded1 max.cobounded2 order_trans)+)
  then show "t \<in> set strings \<Longrightarrow> length t + 2 \<le> tabular_width strings" by (simp add: tabular_width_def foldl_max)
qed

lemma c_div_nat: "c_div (int a) (int b) = int (a div b)"
  by (simp add: c_div_def sgn_if zdiv_int)

lemma ceil_div:
  assumes "0 < (n :: nat)"
  shows "(l + n - 1) div n \<le> l" and "l \<le> (l + n - 1) div n * n"
proof -
  have "l + n - 1 < Suc l * n" using assms by (cases n) auto
  then have "(l + n - 1) div n < Suc l" by (rule less_mult_imp_div_less)
  then show "(l + n - 1) div n \<le> l" by simp
  show "l \<le> (l + n - 1) div n * n" using div_mult_mod_eq [of "l + n - 1" n] mod_less_divisor [OF assms, of "l + n - 1"] assms by linarith
qed

lemma length_row_text:
  assumes "set is \<subseteq> {..<length strings}"
  shows "length (row_text strings (tabular_width strings) is) = length is * tabular_width strings"
  using assms
proof (induction "is")
  case (Cons i js)
  then have "length (strings ! i) \<le> tabular_width strings" using tabular_width_ge [of "strings ! i" strings] by simp
  then show ?case using Cons by (simp add: row_text_def pad_right_def)
qed (simp add: row_text_def)

lemma length_rows_text:
  assumes "ncols * tabular_width strings \<le> w"
  shows "length (rows_text strings prefix (tabular_width strings) ncols nrows r n) \<le> n * (length prefix + w + 1)"
proof (induction n arbitrary: r)
  case (Suc n)
  let ?is = "row_indices (length strings) nrows (r + n) 0 ncols"
  have "length (row_text strings (tabular_width strings) ?is) = length ?is * tabular_width strings"
    by (rule length_row_text) (auto simp: set_row_indices)
  also have "\<dots> \<le> w" using mult_le_mono1 [OF length_row_indices [of "length strings" nrows "r + n" 0 ncols], of "tabular_width strings"] assms by (rule order_trans)
  finally show ?case using Suc.IH [of r] by (simp add: rows_text_def)
qed (simp add: rows_text_def)

text \<open>The table of some entries: if the width is large enough for the widest one, it is appended to the string, and has every entry once.\<close>

theorem table_has_every_entry:
  assumes "sa_holds s t" and "enough lim" and "prefix \<noteq> []" and "int (tabular_width strings) \<le> width"
    and "length t + length strings * (length prefix + nat width + 1) < 2 ^ 31"
  shows "\<exists>s' rows. stralloc_tabular lim old s strings prefix width = Some s' \<and>
    sa_holds s' (t @ concat (map (\<lambda>is. prefix @ row_text strings (tabular_width strings) is @ [0x0A]) rows)) \<and>
    mset (concat rows) = mset [0..<length strings] \<and> (\<forall>is \<in> set rows. length is * tabular_width strings \<le> nat width)"
proof -
  let ?w = "tabular_width strings"
  define ncols where "ncols = nat width div ?w"
  define nrows where "nrows = (length strings + ncols - 1) div ncols"
  let ?rows = "map (\<lambda>r. row_indices (length strings) nrows r 0 ncols) [0..<nrows]"
  have w: "2 \<le> ?w" "?w \<le> nat width" using assms(4) by (simp_all add: tabular_width_def)
  then have c: "0 < ncols" "ncols * ?w \<le> nat width" by (simp_all add: ncols_def div_greater_zero_iff)
  have "c_div width (int ?w) = int ncols" using assms(4) c_div_nat [of "nat width" ?w] by (simp add: ncols_def)
  moreover have "c_div (int (length strings) + int ncols - 1) (int ncols) = int nrows"
    using c(1) c_div_nat [of "length strings + ncols - 1" ncols] by (simp add: nrows_def of_nat_diff)
  ultimately have tab: "stralloc_tabular lim old s strings prefix width =
      tabular_rows (stralloc_add_str lim) (stralloc_add_format lim old) strings prefix ?w ncols nrows 0 nrows s"
    using c(1) by (simp add: stralloc_tabular_def tabular_def Let_def)
  have nrows: "nrows \<le> length strings" "length strings \<le> nrows * ncols" using ceil_div [OF c(1), of "length strings"] by (simp_all add: nrows_def)
  have "length (rows_text strings prefix ?w ncols nrows 0 nrows) \<le> length strings * (length prefix + nat width + 1)"
    using length_rows_text [OF c(2), of prefix nrows 0 nrows] mult_le_mono1 [OF nrows(1)] by (rule order_trans)
  then obtain s' where s': "stralloc_tabular lim old s strings prefix width = Some s'" "sa_holds s' (t @ rows_text strings prefix ?w ncols nrows 0 nrows)"
    using text_sink.rows_holds [OF stralloc_sink [OF assms(2)] assms(1) w(1) assms(3), of strings ncols nrows 0 nrows old] assms(5) by (auto simp: tab)
  have "mset (concat ?rows) = mset [0..<length strings]"
    using rows_permute [OF _ nrows(2)] nrows(2) by (cases "nrows = 0") auto
  moreover have "length is * ?w \<le> nat width" if "is \<in> set ?rows" for "is"
  proof -
    have "length is \<le> ncols" using that length_row_indices by auto
    then show ?thesis using mult_le_mono1 [of "length is" ncols ?w] c(2) by linarith
  qed
  moreover have "rows_text strings prefix ?w ncols nrows 0 nrows = concat (map (\<lambda>is. prefix @ row_text strings ?w is @ [0x0A]) ?rows)"
    by (simp add: rows_text_def comp_def)
  ultimately show ?thesis using s' by (intro exI [of _ s'] exI [of _ ?rows]) auto
qed

lemma table_has_every_entry_witness:
  "\<exists>s' rows. stralloc_tabular all_memory False STRALLOC_INIT [asc ''avd'', asc ''cache'', asc ''data''] (asc ''  '') 16 = Some s' \<and>
    sa_bytes s' = Some (asc ''  '' @ asc ''avd    '' @ asc ''data   '' @ [0x0A] @ asc ''  '' @ asc ''cache  '' @ [0x0A]) \<and>
    mset (concat rows) = mset [0 :: nat, 1, 2]"
proof -
  let ?ss = "[asc ''avd'', asc ''cache'', asc ''data'']"
  have w: "tabular_width ?ss = 7" by (simp add: tabular_width_def)
  have two: "asc ''  '' \<noteq> []" by (simp add: asc_def)
  obtain s' rows where s': "stralloc_tabular all_memory False STRALLOC_INIT ?ss (asc ''  '') 16 = Some s'"
      "mset (concat rows) = mset [0..<length ?ss]"
    using table_has_every_entry [OF stralloc_init_holds(1) enough_all_memory two, of ?ss 16 False] w by auto
  moreover have "sa_bytes s' = Some (asc ''  '' @ asc ''avd    '' @ asc ''data   '' @ [0x0A] @ asc ''  '' @ asc ''cache  '' @ [0x0A])"
  proof -
    have "tabular_rows (stralloc_add_str all_memory) (stralloc_add_format all_memory False) ?ss (asc ''  '') 7 2 2 0 2 STRALLOC_INIT = Some s'"
      using s'(1) by (simp add: stralloc_tabular_def tabular_def w Let_def c_div_def)
    moreover have "rows_text ?ss (asc ''  '') 7 2 2 0 2 = asc ''  '' @ asc ''avd    '' @ asc ''data   '' @ [0x0A] @ asc ''  '' @ asc ''cache  '' @ [0x0A]"
      by (simp add: rows_text_def row_text_def pad_right_def asc_def numeral_2_eq_2 numeral_3_eq_3 eval_nat_numeral)
    ultimately show ?thesis
      using sa_sink.rows_holds [OF stralloc_init_holds(1), of 7 "asc ''  ''" ?ss 2 2 0 2 False] by (auto simp: asc_def dest: sa_bytes_holds)
  qed
  ultimately show ?thesis by (auto simp: numeral_2_eq_2)
qed

section \<open>Quoting can be undone\<close>

text \<open>The quoted form of a byte, and a reader of quoted text.\<close>

definition quote_byte :: "u8 \<Rightarrow> bytes" where
  "quote_byte c =
     (if c = 0x5C then [0x5C, 0x5C] else if 0x20 \<le> c \<and> c < 128 then [c] else if c = 0x0A then [0x5C, 0x6E]
      else if c = 0x09 then [0x5C, 0x74] else if c = 0x0D then [0x5C, 0x72] else format_x02 c)"

definition hex_value :: "u8 \<Rightarrow> u8" where
  "hex_value d = (if d \<le> 0x39 then d - 0x30 else d - 0x57)"

fun unquote :: "bytes \<Rightarrow> bytes" where
  "unquote [] = []"
| "unquote [c] = [c]"
| "unquote (c # d # p) =
     (if c \<noteq> 0x5C then c # unquote (d # p)
      else if d = 0x6E then 0x0A # unquote p else if d = 0x74 then 0x09 # unquote p else if d = 0x72 then 0x0D # unquote p
      else if d = 0x78 then (case p of h # l # q \<Rightarrow> (16 * hex_value h + hex_value l) # unquote q | _ \<Rightarrow> [])
      else d # unquote p)"

lemma hexdigits_value: "n < 16 \<Longrightarrow> hex_value (hexdigits ! n) = of_nat n \<and> 0x20 \<le> hexdigits ! n \<and> hexdigits ! n < 128"
proof -
  have "\<forall>n \<in> set [0..<16]. hex_value (hexdigits ! n) = of_nat n \<and> 0x20 \<le> hexdigits ! n \<and> hexdigits ! n < 128" by code_simp
  then show "n < 16 \<Longrightarrow> hex_value (hexdigits ! n) = of_nat n \<and> 0x20 \<le> hexdigits ! n \<and> hexdigits ! n < 128" by simp
qed

lemma nibbles: "unat (drop_bit 4 c) = unat c div 16" "unat (drop_bit 4 c) < 16" "unat (c AND 15) = unat c mod 16" for c :: u8
proof -
  show e: "unat (drop_bit 4 c) = unat c div 16" by (simp add: drop_bit_eq_div unat_div)
  show "unat (drop_bit 4 c) < 16" unfolding e using unsigned_less [of c, where 'a = nat] by (intro less_mult_imp_div_less) simp
  have "c AND 15 = take_bit 4 c" by (simp add: take_bit_eq_mask mask_eq_exp_minus_1)
  then show "unat (c AND 15) = unat c mod 16" by (simp add: take_bit_eq_mod unat_mod_distrib)
qed

lemma hex_digits_back: "16 * hex_value (hexdigits ! unat (drop_bit 4 c)) + hex_value (hexdigits ! unat (c AND 15)) = c" for c :: u8
proof -
  have "16 * hex_value (hexdigits ! unat (drop_bit 4 c)) + hex_value (hexdigits ! unat (c AND 15)) =
      16 * of_nat (unat c div 16) + of_nat (unat c mod 16)"
    using hexdigits_value [OF nibbles(2) [of c]] hexdigits_value [of "unat c mod 16"] nibbles [of c] by simp
  also have "\<dots> = of_nat (16 * (unat c div 16) + unat c mod 16)" by (simp only: of_nat_add of_nat_mult of_nat_numeral)
  finally show ?thesis by simp
qed

lemma unquote_cons: "c \<noteq> 0x5C \<Longrightarrow> unquote (c # p) = c # unquote p"
  by (cases p) auto

lemma unquote_quote_byte: "unquote (quote_byte c @ p) = c # unquote p"
  using hex_digits_back [of c] by (auto simp: quote_byte_def format_x02_def unquote_cons)

lemma unquote_quote: "unquote (concat (map quote_byte bs)) = bs"
  by (induction bs) (simp_all add: unquote_quote_byte)

lemma quote_byte_printable: "d \<in> set (quote_byte c) \<Longrightarrow> 0x20 \<le> d \<and> d < 128"
  using hexdigits_value [OF nibbles(2) [of c]] hexdigits_value [of "unat c mod 16"] nibbles(3) [of c]
  by (auto simp: quote_byte_def format_x02_def split: if_splits)

lemma quote_byte_nonempty [simp]: "quote_byte c \<noteq> []"
  by (simp add: quote_byte_def format_x02_def)

lemma length_quote_byte: "length (quote_byte c) \<le> 4"
  by (simp add: quote_byte_def format_x02_def)

lemma ucast_ucast_u8: "ucast (ucast c :: u32) = c" for c :: u8
  by (rule bit_word_eqI) (auto simp: bit_simps)

lemma quote_loop_holds:
  assumes "sa_holds s t" and "enough lim" and "length t + 4 * length p < 2 ^ 31"
  shows "\<exists>s'. stralloc_add_quote_loop lim old s p = Some s' \<and> sa_holds s' (t @ concat (map quote_byte p))"
  using assms(1,3)
proof (induction p arbitrary: s t)
  case (Cons c p)
  have len: "length t + length (quote_byte c) < 2 ^ 31" using Cons.prems(2) length_quote_byte [of c] by simp
  note str = add_str_holds [OF Cons.prems(1) assms(2), of "quote_byte c"] and fmt = add_format_holds [OF Cons.prems(1) assms(2), of "quote_byte c" old]
  have chr: "\<exists>s'. stralloc_add_c lim s (ucast c) = Some s' \<and> sa_holds s' (t @ [c])"
    using add_bytes_holds [OF Cons.prems(1) assms(2), of "[c]"] Cons.prems(2) by (simp add: stralloc_add_c_def ucast_ucast_u8)
  obtain s1 where s1: "stralloc_add_quote_loop lim old s (c # p) = stralloc_add_quote_loop lim old s1 p" "sa_holds s1 (t @ quote_byte c)"
    using str fmt chr len by (auto simp: quote_byte_def format_x02_def split: if_splits)
  show ?case using Cons.IH [OF s1(2)] Cons.prems(2) length_quote_byte [of c] s1(1) by simp
qed simp

text \<open>Quoted bytes are printable, and the bytes can be read back from them.\<close>

theorem quoting_is_reversible:
  assumes "sa_holds s t" and "enough lim" and "length t + 4 * length bs < 2 ^ 31"
  shows "\<exists>s' q. stralloc_add_quote_bytes lim old s bs (of_nat (length bs)) = Some s' \<and> sa_holds s' (t @ q) \<and>
    unquote q = bs \<and> list_all (\<lambda>d. 0x20 \<le> d \<and> d < 128) q"
proof -
  have "unat (of_nat (length bs) :: u32) = length bs" using assms(3) by (intro unat_of_nat_u32) simp
  then show ?thesis using quote_loop_holds [OF assms, of old] unquote_quote [of bs] quote_byte_printable
    by (fastforce simp: stralloc_add_quote_bytes_def list_all_iff)
qed

lemma quoting_is_reversible_witness:
  "\<exists>s' q. stralloc_add_quote_bytes all_memory True STRALLOC_INIT [0x61, 0x5C, 0x0A, 0xFF] (of_nat (length [0x61, 0x5C, 0x0A, 0xFF :: u8])) = Some s' \<and>
    sa_holds s' ([] @ q) \<and> unquote q = [0x61, 0x5C, 0x0A, 0xFF] \<and> list_all (\<lambda>d. 0x20 \<le> d \<and> d < 128) q"
  by (rule quoting_is_reversible) simp_all

section \<open>Blanks, copies and hexadecimal dumps\<close>

lemma lstrip_holds:
  assumes "sa_holds s t" and "length t < 2 ^ 31"
  shows "\<exists>s'. stralloc_lstrip s = Some s' \<and> sa_holds s' (dropWhile is_blank t)"
proof -
  let ?c = "length (takeWhile is_blank t)"
  have c: "?c \<le> length t" "drop ?c t = dropWhile is_blank t" by (simp_all add: length_takeWhile_le dropWhile_eq_drop)
  show ?thesis
  proof (cases "?c = 0")
    case True
    then show ?thesis using sa_bytes_holds [OF assms(1)] assms(1) c by (auto simp: stralloc_lstrip_def)
  next
    case False
    then obtain m where m: "sa_s s = Some m" "length m = unat (sa_a s)" "length t \<le> length m" "unat (sa_n s) = length t"
      using assms(1) by (auto simp: sa_holds_def split: option.splits)
    have u: "unat (of_nat ?c :: u32) = ?c" using c(1) assms(2) by (intro unat_of_nat_u32) simp
    have "unat (sa_n s - of_nat ?c) = length (drop ?c t)"
      using m(4) u c(1) by (simp add: unat_sub word_le_nat_alt)
    then show ?thesis
      using False sa_bytes_holds [OF assms(1)] m c assms(2) length_dropWhile_le [of is_blank t]
      by (auto simp: stralloc_lstrip_def sa_memcpy_def memcpy_at_def sa_holds_def Let_def)
  qed
qed

lemma rstrip_holds:
  assumes "sa_holds s t" and "length t < 2 ^ 31"
  shows "\<exists>s'. stralloc_rstrip s = Some s' \<and> sa_holds s' (rev (dropWhile is_blank (rev t)))"
proof -
  let ?c = "length (takeWhile is_blank (rev t))"
  have n: "unat (sa_n s) = length t" using assms(1) by (simp add: sa_holds_def)
  have c: "?c \<le> length t" using length_takeWhile_le [of is_blank "rev t"] by simp
  have d: "rev (dropWhile is_blank (rev t)) = take (length t - ?c) t" by (simp add: dropWhile_eq_drop rev_drop)
  have "unat (of_nat ?c :: u32) = ?c" using c assms(2) by (intro unat_of_nat_u32) simp
  then have "unat (sa_n s - of_nat ?c) = length t - ?c" using n c by (simp add: unat_sub word_le_nat_alt)
  moreover have "\<not> sint (sa_n s) < 0" using n assms(2) by (simp add: sint_u32 uint_nat)
  moreover have "sa_holds (s \<lparr>sa_n := sa_n s - of_nat ?c\<rparr>) (take (length t - ?c) t)" if "unat (sa_n s - of_nat ?c) = length t - ?c"
  proof (cases "sa_s s")
    case (Some m)
    then have "take (length t - ?c) m = take (length t - ?c) (map Some t)" using assms(1) by (simp add: sa_holds_def min_def flip: take_take) (metis diff_le_self min.absorb1 take_take)
    then show ?thesis using that Some assms(1) by (auto simp: sa_holds_def take_map)
  qed (use that assms(1) in \<open>auto simp: sa_holds_def\<close>)
  ultimately show ?thesis using sa_bytes_holds [OF assms(1)] d by (auto simp: stralloc_rstrip_def)
qed

lemma strip_holds:
  assumes "sa_holds s t" and "length t < 2 ^ 31"
  shows "\<exists>s'. stralloc_strip s = Some s' \<and> sa_holds s' (dropWhile is_blank (rev (dropWhile is_blank (rev t))))"
proof -
  obtain s1 where s1: "stralloc_rstrip s = Some s1" "sa_holds s1 (rev (dropWhile is_blank (rev t)))" using rstrip_holds [OF assms] by blast
  moreover have "length (rev (dropWhile is_blank (rev t))) < 2 ^ 31" using length_dropWhile_le [of is_blank "rev t"] assms(2) by simp
  ultimately show ?thesis using lstrip_holds by (fastforce simp: stralloc_strip_def)
qed

text \<open>The digits of a number, the last one from its lowest four bits.\<close>

fun hex_text :: "nat \<Rightarrow> u32 \<Rightarrow> bytes" where
  "hex_text 0 v = []"
| "hex_text (Suc k) v = hex_text k (drop_bit 4 v) @ [hexdigits ! unat (v AND 15)]"

lemma length_hex_text [simp]: "length (hex_text k v) = k"
  by (induction k arbitrary: v) auto

lemma hex_loop_writes:
  assumes "sa_s s = Some m" and "unat (sa_n s) + k \<le> length m"
  shows "hex_loop k v s = Some (s \<lparr>sa_s := Some (take (unat (sa_n s)) m @ map Some (hex_text k v) @ drop (unat (sa_n s) + k) m)\<rparr>)"
  using assms
proof (induction k arbitrary: s m v)
  case (Suc k)
  let ?n = "unat (sa_n s)" and ?d = "Some (hexdigits ! unat (v AND 15))"
  let ?m = "take (?n + k) m @ [?d] @ drop (Suc (?n + k)) m"
  have "sa_memcpy (?n + k) [?d] s = Some (s \<lparr>sa_s := Some ?m\<rparr>)" using Suc.prems by (simp add: sa_memcpy_def memcpy_at_def)
  moreover have "take ?n ?m = take ?n m" "drop (?n + k) ?m = ?d # drop (Suc (?n + k)) m" using Suc.prems(2) by (simp_all add: min_def)
  ultimately show ?case using Suc.IH [of "s \<lparr>sa_s := Some ?m\<rparr>" ?m "drop_bit 4 v"] Suc.prems by simp
qed simp

lemma add_hex_holds:
  assumes "sa_holds s t" and "enough lim" and "0 < k" and "length t + k < 2 ^ 32"
  shows "\<exists>s'. stralloc_add_hex lim s v (int k) = Some s' \<and> sa_holds s' (t @ hex_text k v)"
proof -
  obtain s1 m where r: "stralloc_readyplus lim s (of_nat k) = Some s1" "sa_holds s1 t" "sa_n s1 = sa_n s" "sa_s s1 = Some m"
      "length t + k \<le> unat (sa_a s1)"
    using readyplus_holds [OF assms] by blast
  then have m: "length m = unat (sa_a s1)" "unat (sa_n s1) = length t" "take (length t) m = map Some t" by (auto simp: sa_holds_def)
  let ?m = "map Some t @ map Some (hex_text k v) @ drop (length t + k) m"
  have "stralloc_add_hex lim s v (int k) = Some (s1 \<lparr>sa_s := Some ?m, sa_n := sa_n s1 + of_nat (length (hex_text k v))\<rparr>)"
    using r(1,5) assms(3) hex_loop_writes [OF r(4), of k v] m by (simp add: stralloc_add_hex_def)
  moreover have "length ?m = unat (sa_a s1)" "take (length t + length (hex_text k v)) ?m = map Some (t @ hex_text k v)" using m r(5) by simp_all
  ultimately show ?thesis using sa_holds_extend [OF r(2,4), of ?m "hex_text k v"] r(5) by auto
qed

lemma add_c_holds:
  assumes "sa_holds s t" and "enough lim" and "length t + 1 < (2 :: nat) ^ 32"
  shows "\<exists>s'. stralloc_add_c lim s c = Some s' \<and> sa_holds s' (t @ [ucast c])"
  using add_bytes_holds [OF assms(1,2), where bs = "[ucast c]"] assms(3) by (simp add: stralloc_add_c_def)

lemma dump_bytes_holds:
  assumes "sa_holds s t" and "enough lim" and "length t + 3 * length p < 2 ^ 32"
  shows "\<exists>s'. dump_bytes lim s p = Some s' \<and> sa_holds s' (t @ concat (map (\<lambda>c. 0x20 # hex_text 2 (ucast c)) p))"
  using assms(1,3)
proof (induction p arbitrary: s t)
  case (Cons c p)
  obtain s1 where s1: "stralloc_add_c lim s 0x20 = Some s1" "sa_holds s1 (t @ [0x20])" using add_c_holds [OF Cons.prems(1) assms(2), of "0x20"] Cons.prems(2) by auto
  obtain s2 where s2: "stralloc_add_hex lim s1 (ucast c) 2 = Some s2" "sa_holds s2 ((t @ [0x20]) @ hex_text 2 (ucast c))"
    using add_hex_holds [OF s1(2) assms(2), of 2 "ucast c"] Cons.prems(2) by auto
  show ?case using Cons.IH [OF s2(2)] Cons.prems(2) s1(1) s2(1) by auto
qed simp

lemma put_chars_holds:
  assumes "sa_holds s t" and "sa_s s = Some m" and "length t + length p \<le> unat (sa_a s)"
  shows "\<exists>s' m'. put_chars s p = Some s' \<and> sa_holds s' (t @ p) \<and> sa_s s' = Some m' \<and> sa_a s' = sa_a s"
  using assms
proof (induction p arbitrary: s t m)
  case (Cons c p)
  obtain m' where m': "sa_memcpy (unat (sa_n s)) (map Some [c]) s = Some (s \<lparr>sa_s := Some m'\<rparr>)" "length m' = unat (sa_a s)"
      "take (length t + length [c]) m' = map Some (t @ [c])"
    using memcpy_holds [OF Cons.prems(1,2), of "[c]"] Cons.prems(3) by auto
  let ?s = "s \<lparr>sa_s := Some m', sa_n := sa_n s + of_nat (length [c])\<rparr>"
  have "sa_holds ?s (t @ [c])" by (rule sa_holds_extend [OF Cons.prems(1,2) m'(2,3)]) (use Cons.prems(3) in simp)
  then show ?case using Cons.IH [of ?s "t @ [c]" m'] Cons.prems(3) m'(1) by (auto simp: put_char_def)
qed auto

text \<open>A line of a dump: the bytes in hexadecimal, a gap that aligns short lines, and the printable characters.\<close>

definition dump_line_text :: "bytes \<Rightarrow> bytes \<Rightarrow> bytes" where
  "dump_line_text prefix p =
     prefix @ hex_text 2 (ucast (hd p)) @ concat (map (\<lambda>c. 0x20 # hex_text 2 (ucast c)) (tl p)) @
     replicate (4 + 3 * (16 - length p)) 0x20 @ map dump_char p @ [0x0A]"

lemma dump_gap_holds:
  assumes "sa_holds s t" and "enough lim" and "length t + (4 + 3 * (16 - k)) < 2 ^ 32"
  shows "\<exists>s'. dump_gap lim s k = Some s' \<and> sa_holds s' (t @ replicate (4 + 3 * (16 - k)) 0x20)"
proof -
  let ?g = "4 + 3 * (16 - k)" and ?bs = "replicate (4 + 3 * (16 - k)) (0x20 :: u8)"
  obtain s1 m where r: "stralloc_readyplus lim s (of_nat ?g) = Some s1" "sa_holds s1 t" "sa_n s1 = sa_n s" "sa_s s1 = Some m"
      "length t + ?g \<le> unat (sa_a s1)"
    using readyplus_holds [OF assms(1,2) _ assms(3)] by auto
  obtain m' where m: "sa_memcpy (unat (sa_n s1)) (map Some ?bs) s1 = Some (s1 \<lparr>sa_s := Some m'\<rparr>)" "length m' = unat (sa_a s1)"
      "take (length t + length ?bs) m' = map Some (t @ ?bs)"
    using memcpy_holds [OF r(2,4), of ?bs] r(5) by auto
  have "dump_gap lim s k = Some (s1 \<lparr>sa_s := Some m', sa_n := sa_n s1 + of_nat (length ?bs)\<rparr>)"
    using r(1) m(1) unfolding dump_gap_def by (simp only: Let_def map_replicate) simp
  then show ?thesis using sa_holds_extend [OF r(2,4) m(2,3)] r(5) by (metis length_replicate)
qed

lemma dump_text_holds:
  assumes "sa_holds s t" and "enough lim" and "length t + Suc (length p) < 2 ^ 32"
  shows "\<exists>s'. dump_text lim s p = Some s' \<and> sa_holds s' (t @ map dump_char p @ [0x0A])"
proof -
  obtain s1 m where r: "stralloc_readyplus lim s (of_nat (Suc (length p))) = Some s1" "sa_holds s1 t" "sa_s s1 = Some m"
      "length t + Suc (length p) \<le> unat (sa_a s1)"
    using readyplus_holds [OF assms(1,2) _ assms(3)] by blast
  obtain s2 m2 where s2: "put_chars s1 (map dump_char p) = Some s2" "sa_holds s2 (t @ map dump_char p)" "sa_s s2 = Some m2" "sa_a s2 = sa_a s1"
    using put_chars_holds [OF r(2,3), of "map dump_char p"] r(4) by auto
  obtain s3 where "put_chars s2 [0x0A] = Some s3" "sa_holds s3 ((t @ map dump_char p) @ [0x0A])"
    using put_chars_holds [OF s2(2,3), of "[0x0A]"] r(4) s2(4) by auto
  then show ?thesis using r(1) s2(1) by (auto simp: dump_text_def add.commute split: bind_splits)
qed

lemma dump_line_holds:
  assumes "sa_holds s t" and "enough lim" and "prefix \<noteq> []" and "p \<noteq> []" and "length p \<le> 16" and "length t + length prefix + 80 < 2 ^ 32"
  shows "\<exists>s'. dump_line lim s p prefix = Some s' \<and> sa_holds s' (t @ dump_line_text prefix p)"
proof -
  let ?h = "concat (map (\<lambda>c. 0x20 # hex_text 2 (ucast c)) (tl p))"
  obtain s1 where s1: "stralloc_add_bytes lim s prefix (of_nat (length prefix)) = Some s1" "sa_holds s1 (t @ prefix)"
    using add_bytes_holds [OF assms(1-3)] assms(6) by auto
  obtain s2 where s2: "stralloc_add_hex lim s1 (ucast (hd p)) 2 = Some s2" "sa_holds s2 ((t @ prefix) @ hex_text 2 (ucast (hd p)))"
    using add_hex_holds [OF s1(2) assms(2), of 2 "ucast (hd p)"] assms(6) by auto
  have "length (tl p) \<le> 15" using assms(5) by simp
  then have tl: "length ((t @ prefix) @ hex_text 2 (ucast (hd p))) + 3 * length (tl p) < 2 ^ 32" using assms(6) unfolding length_append length_hex_text by linarith
  obtain s3 where s3: "dump_bytes lim s2 (tl p) = Some s3" "sa_holds s3 (((t @ prefix) @ hex_text 2 (ucast (hd p))) @ ?h)"
    using dump_bytes_holds [OF s2(2) assms(2) tl] by auto
  have "length ?h = 3 * (length p - 1)" by (induction p) (auto simp: length_concat comp_def sum_list_triv)
  then have len: "length ?h + 3 * (16 - length p) \<le> 48" using assms(5) by simp
  obtain s4 where s4: "dump_gap lim s3 (length p) = Some s4"
      "sa_holds s4 ((((t @ prefix) @ hex_text 2 (ucast (hd p))) @ ?h) @ replicate (4 + 3 * (16 - length p)) 0x20)"
    using dump_gap_holds [OF s3(2) assms(2), of "length p"] assms(6) len by auto
  show ?thesis
    using dump_text_holds [OF s4(2) assms(2), of p] assms(5,6) len s1(1) s2(1) s3(1) s4(1) by (auto simp: dump_line_def dump_line_text_def)
qed

text \<open>The lines of a dump.\<close>

function dump_lines :: "bytes \<Rightarrow> bytes list" where
  "dump_lines p = (if p = [] then [] else take 16 p # dump_lines (drop 16 p))"
  by auto
termination by (relation "measure length") auto

declare dump_lines.simps [simp del]

lemma length_dump_line: "p \<noteq> [] \<Longrightarrow> length p \<le> 16 \<Longrightarrow> length (dump_line_text prefix p) \<le> length prefix + 80"
proof (cases p)
  case (Cons c q)
  have "length (concat (map (\<lambda>c. 0x20 # hex_text 2 (ucast c)) q)) = 3 * length q" by (simp add: length_concat comp_def sum_list_triv)
  moreover assume "length p \<le> 16"
  ultimately show ?thesis using Cons by (simp add: dump_line_text_def)
qed simp

lemma hexdump_holds:
  assumes "sa_holds s t" and "enough lim" and "prefix \<noteq> []" and "length t + length p * (length prefix + 80) + 80 < 2 ^ 32"
  shows "\<exists>s'. stralloc_add_hexdump lim s p (int (length p)) prefix = Some s' \<and> sa_holds s' (t @ concat (map (dump_line_text prefix) (dump_lines p)))"
  using assms(1,4)
proof (induction p arbitrary: s t rule: dump_lines.induct)
  case (1 p)
  show ?case
  proof (cases "p = []")
    case True
    then show ?thesis using "1.prems"(1) by (simp add: stralloc_add_hexdump.simps dump_lines.simps)
  next
    case False
    let ?c = "if int (length p) > 16 then 16 else int (length p)"
    have c: "nat ?c \<le> length p" "take (nat ?c) p = take 16 p" "drop (nat ?c) p = drop 16 p" "int (length p) - ?c = int (length (drop 16 p))" by auto
    have L: "length (take 16 p) \<noteq> 0" "length p = length (take 16 p) + length (drop 16 p)" using False by auto
    have len: "length (dump_line_text prefix (take 16 p)) \<le> length prefix + 80" using False by (intro length_dump_line) auto
    have "length prefix + 80 \<le> length p * (length prefix + 80)" using False by (cases p) auto
    then have "length t + length prefix + 80 < 2 ^ 32" using "1.prems"(2) by linarith
    then obtain s1 where s1: "dump_line lim s (take 16 p) prefix = Some s1" "sa_holds s1 (t @ dump_line_text prefix (take 16 p))"
      using dump_line_holds [OF "1.prems"(1) assms(2,3), of "take 16 p"] False by auto
    have "length (drop 16 p) * (length prefix + 80) + (length prefix + 80) \<le> length p * (length prefix + 80)"
      using mult_le_mono1 [of "Suc (length (drop 16 p))" "length p" "length prefix + 80"] L unfolding mult_Suc by linarith
    then have "length (t @ dump_line_text prefix (take 16 p)) + length (drop 16 p) * (length prefix + 80) + 80 < 2 ^ 32"
      using len "1.prems"(2) unfolding length_append by linarith
    then obtain s2 where "stralloc_add_hexdump lim s1 (drop 16 p) (int (length (drop 16 p))) prefix = Some s2"
        "sa_holds s2 ((t @ dump_line_text prefix (take 16 p)) @ concat (map (dump_line_text prefix) (dump_lines (drop 16 p))))"
      using "1.IH" [OF False s1(2)] by blast
    then show ?thesis
      using s1(1) False c unfolding stralloc_add_hexdump.simps [of lim s p] Let_def c by (subst dump_lines.simps) auto
  qed
qed

section \<open>Copies and terminated strings\<close>

lemma copy_holds:
  assumes "sa_holds s t" and "sa_holds from u" and "u \<noteq> []" and "enough lim"
  shows "\<exists>s'. stralloc_copy lim s from = Some s' \<and> sa_holds s' u"
proof -
  have f: "sa_front from (unat (sa_n from)) = Some (map Some u)" "unat (sa_n from) = length u"
    using assms(2) by (auto simp: sa_holds_def sa_front_def split: option.splits)
  then have "0 < sa_n from" using assms(3) by (simp add: word_less_nat_alt)
  then obtain s1 m where r: "stralloc_ready lim s (sa_n from) = Some s1" "sa_s s1 = Some m" "length m = unat (sa_a s1)" "sa_n from \<le> sa_a s1"
    using ready_holds [OF assms(1,4), of "sa_n from"] by metis
  then have "length u \<le> length m" using f(2) by (simp add: word_le_nat_alt)
  then show ?thesis using r f by (simp add: stralloc_copy_def sa_memcpy_def memcpy_at_def sa_holds_def)
qed

lemma cstr_terminates:
  assumes "sa_holds s t" and "enough lim" and "Suc (length t) < 2 ^ 32"
  shows "\<exists>s' m. stralloc_cstr lim s = Some s' \<and> sa_holds s' t \<and> sa_s s' = Some m \<and> take (Suc (length t)) m = map Some (t @ [0])"
proof -
  obtain s1 m where r: "stralloc_readyplus lim s 1 = Some s1" "sa_holds s1 t" "sa_s s1 = Some m" "length t + 1 \<le> unat (sa_a s1)"
    using readyplus_holds [OF assms(1,2), of 1] assms(3) by (metis One_nat_def add.commute add_Suc_right add_0 of_nat_1 zero_less_one)
  obtain m' where m': "sa_memcpy (unat (sa_n s1)) (map Some [0]) s1 = Some (s1 \<lparr>sa_s := Some m'\<rparr>)" "length m' = unat (sa_a s1)"
      "take (length t + length [0 :: u8]) m' = map Some (t @ [0])"
    using memcpy_holds [OF r(2,3), of "[0]"] r(4) by auto
  have "take (length t) m' = map Some t" using arg_cong [OF m'(3), of "take (length t)"] by (simp add: take_map)
  then have "sa_holds (s1 \<lparr>sa_s := Some m'\<rparr>) t" using r(2,4) m'(2) by (simp add: sa_holds_def)
  then show ?thesis using r(1) m'(1,3) by (simp add: stralloc_cstr_def)
qed

section \<open>Flaws\<close>

text \<open>Appending an empty text twice to a new string frees its block of size zero, which is taken for a lack of memory.\<close>

lemma empty_text_twice_aborts:
  "(stralloc_add_str lim STRALLOC_INIT [] \<bind> (\<lambda>s. stralloc_add_str lim s [])) = None"
  by (simp add: stralloc_add_str_def stralloc_add_bytes_def stralloc_readyplus_def stralloc_ready_def STRALLOC_INIT_def
      grow.simps realloc_def sa_memcpy_def memcpy_at_def Let_def split: bind_splits)

text \<open>A table that is narrower than its widest entry and two blanks divides by zero.\<close>

lemma narrow_table_divides_by_zero: "0 \<le> width \<Longrightarrow> width < int (tabular_width strings) \<Longrightarrow> stralloc_tabular lim old s strings prefix width = None"
  by (simp add: stralloc_tabular_def tabular_def c_div_def Let_def)

end
