(* ===== verification/Misc_Strings.thy ===== *)
theory Misc_Strings
  imports Stralloc_Properties
begin

text \<open>
  Text utilities (\<^verbatim>\<open>src/android/sockets/src/android/utils/misc.c\<close>): translation of characters, the ring of temporary strings,
  hexadecimal numbers, and values in a list of parameters.  As for dynamic strings, \<open>None\<close> is an access outside of memory or a
  fatal error.
\<close>

section \<open>Tables on the standard output\<close>

definition print_text :: "bytes \<Rightarrow> bytes \<Rightarrow> bytes option" where
  "print_text out t = Some (out @ t)"

definition print_tabular :: "bytes \<Rightarrow> bytes list \<Rightarrow> bytes \<Rightarrow> int \<Rightarrow> bytes option" where
  "print_tabular out = tabular print_text print_text out"

interpretation stdout: text_sink "(=)" print_text print_text n for n
  by unfold_locales (auto simp: print_text_def)

section \<open>Translation of characters\<close>

text \<open>A terminated string in place; looking for the zero byte overwrites the terminator and goes on behind the string.\<close>

definition string_translate_char :: "bytes \<Rightarrow> u8 \<Rightarrow> u8 \<Rightarrow> bytes option" where
  "string_translate_char str from to = (if from = 0 then None else Some (map (\<lambda>c. if c = from then to else c) str))"

text \<open>The text that is in the buffer afterwards.\<close>

definition buffer_translate_char_with_len :: "u32 \<Rightarrow> bytes \<Rightarrow> u32 \<Rightarrow> u8 \<Rightarrow> u8 \<Rightarrow> bytes option" where
  "buffer_translate_char_with_len buffLen src srcLen fromChar toChar =
     (let srcLen = (if srcLen \<ge> buffLen then buffLen - 1 else srcLen)
      in if unat srcLen \<ge> unat buffLen \<or> unat srcLen > Suc (length src) then None
         else map_option c_str (string_translate_char (c_str (take (unat srcLen) (src @ [0]))) fromChar toChar))"

definition buffer_translate_char :: "u32 \<Rightarrow> bytes \<Rightarrow> u8 \<Rightarrow> u8 \<Rightarrow> bytes option" where
  "buffer_translate_char buffLen src fromChar toChar =
     buffer_translate_char_with_len buffLen src (of_nat (length src)) fromChar toChar"

section \<open>Temporary strings\<close>

definition MAX_TEMP_STRINGS :: nat where "MAX_TEMP_STRINGS = 16"

record temp_string =
  ts_buffer :: "block option"
  ts_size :: int

record temp_strings =
  ring :: "temp_string list"
  temp_string_n :: nat

definition no_temp_strings :: temp_strings where
  "no_temp_strings = \<lparr>ring = replicate MAX_TEMP_STRINGS \<lparr>ts_buffer = None, ts_size = 0\<rparr>, temp_string_n = 0\<rparr>"

text \<open>The result is the number of the entry whose buffer is returned.\<close>

definition tempstr_get :: "nat \<Rightarrow> int \<Rightarrow> temp_strings \<Rightarrow> (nat \<times> temp_strings) option" where
  "tempstr_get lim sz r =
     (let i = temp_string_n r; t = ring r ! i;
          n = (if Suc i \<ge> MAX_TEMP_STRINGS then 0 else Suc i)
      in if ts_size t < sz + 1
         then case realloc lim (ts_buffer t) (of_int (sz + 1)) of
                None \<Rightarrow> None
              | Some b \<Rightarrow> Some (i, r \<lparr>ring := (ring r)[i := \<lparr>ts_buffer = Some b, ts_size = sz + 1\<rparr>], temp_string_n := n\<rparr>)
         else Some (i, r \<lparr>temp_string_n := n\<rparr>))"

text \<open>Copying a text with a terminator into the buffer of an entry.\<close>

definition tempstr_write :: "nat \<Rightarrow> block \<Rightarrow> temp_strings \<Rightarrow> temp_strings option" where
  "tempstr_write i bs r =
     map_option (\<lambda>b. r \<lparr>ring := (ring r)[i := (ring r ! i) \<lparr>ts_buffer := b\<rparr>]\<rparr>) (memcpy_at 0 (bs @ [Some 0]) (ts_buffer (ring r ! i)))"

definition stralloc_to_tempstr :: "nat \<Rightarrow> stralloc_t \<Rightarrow> temp_strings \<Rightarrow> (nat \<times> temp_strings) option" where
  "stralloc_to_tempstr lim s r = do {
     (q, r1) \<leftarrow> tempstr_get lim (sint (sa_n s)) r;
     bs \<leftarrow> sa_front s (unat (sa_n s));
     r2 \<leftarrow> tempstr_write q bs r1;
     Some (q, r2)
   }"

text \<open>The text at the pointer to an entry.\<close>

definition temp_text :: "temp_strings \<Rightarrow> nat \<Rightarrow> bytes option" where
  "temp_text r i =
     (case ts_buffer (ring r ! i) of
        None \<Rightarrow> None
      | Some b \<Rightarrow> let t = takeWhile (\<lambda>c. c \<noteq> Some 0) b in if length t < length b \<and> None \<notin> set t then Some (map the t) else None)"

definition tempstr_format :: "nat \<Rightarrow> bool \<Rightarrow> bytes \<Rightarrow> temp_strings \<Rightarrow> (nat \<times> temp_strings) option" where
  "tempstr_format lim old text r = stralloc_formatv lim old STRALLOC_INIT text \<bind> (\<lambda>s. stralloc_to_tempstr lim s r)"

definition quote_bytes :: "nat \<Rightarrow> bool \<Rightarrow> bytes \<Rightarrow> int \<Rightarrow> temp_strings \<Rightarrow> (nat \<times> temp_strings) option" where
  "quote_bytes lim old str len r =
     stralloc_add_quote_bytes lim old STRALLOC_INIT str (of_int len) \<bind> (\<lambda>s. stralloc_to_tempstr lim s r)"

definition quote_str :: "nat \<Rightarrow> bool \<Rightarrow> bytes \<Rightarrow> temp_strings \<Rightarrow> (nat \<times> temp_strings) option" where
  "quote_str lim old str r = quote_bytes lim old str (int (length str)) r"

section \<open>Hexadecimal numbers\<close>

definition hexdigit :: "u32 \<Rightarrow> u32" where
  "hexdigit c =
     (if c - 0x30 < 10 then c - 0x30 else if c - 0x61 < 6 then c - 0x61 + 10 else if c - 0x41 < 6 then c - 0x41 + 10 else -1)"

fun hex2int_loop :: "bytes \<Rightarrow> nat \<Rightarrow> u32 \<Rightarrow> u32 option" where
  "hex2int_loop hex 0 result = Some result"
| "hex2int_loop [] (Suc len) result = None"
| "hex2int_loop (h # hex) (Suc len) result =
     (let c = hexdigit (ucast h) in if sint c < 0 then Some (-1) else hex2int_loop hex len (push_bit 4 result OR c))"

definition hex2int :: "bytes \<Rightarrow> int \<Rightarrow> u32 option" where
  "hex2int hex len = hex2int_loop hex (nat len) 0"

text \<open>The digits; a number has eight of them, and shifting further is undefined.\<close>

fun int2hex :: "nat \<Rightarrow> u32 \<Rightarrow> bytes option" where
  "int2hex 0 val = Some []"
| "int2hex (Suc len) val =
     (if len \<ge> 8 then None else map_option (\<lambda>hex. hexdigits ! unat (signed_drop_bit (len * 4) val AND 15) # hex) (int2hex len val))"

section \<open>Numbers in a text\<close>

definition digit_value :: "u8 \<Rightarrow> nat" where
  "digit_value c = (if isdigit c then unat (c - 0x30) else if 0x61 \<le> c \<and> c \<le> 0x7A then unat (c - 0x61) + 10
     else if 0x41 \<le> c \<and> c \<le> 0x5A then unat (c - 0x41) + 10 else 36)"

text \<open>
  \<^verbatim>\<open>strtol\<close> for any base: the value, the rest of the text, and whether \<^verbatim>\<open>errno\<close> is set.  Base zero takes the base from the prefix of
  the number.
\<close>

definition hex_prefix :: "bytes \<Rightarrow> bool" where
  "hex_prefix s \<longleftrightarrow> length s \<ge> 3 \<and> s ! 0 = 0x30 \<and> s ! 1 \<in> {0x78, 0x58} \<and> digit_value (s ! 2) < 16"

definition number_base :: "nat \<Rightarrow> bytes \<Rightarrow> nat \<times> bytes" where
  "number_base base s =
     (if (base = 0 \<or> base = 16) \<and> hex_prefix s then (16, drop 2 s)
      else if base = 0 then (if s \<noteq> [] \<and> hd s = 0x30 then 8 else 10, s)
      else (base, s))"

definition strtol :: "nat \<Rightarrow> bytes \<Rightarrow> int \<times> bytes \<times> bool" where
  "strtol base s =
     (let s1 = dropWhile isspace s;
          neg = (s1 \<noteq> [] \<and> hd s1 = 0x2D);
          s2 = (if s1 \<noteq> [] \<and> hd s1 \<in> {0x2B, 0x2D} then tl s1 else s1);
          (b, s3) = number_base base s2;
          ds = takeWhile (\<lambda>c. digit_value c < b) s3;
          n = foldl (\<lambda>n d. b * n + digit_value d) 0 ds;
          v = (if neg then - int n else int n)
      in if ds = [] then (0, s, False)
         else if v < - (2 ^ 63) then (- (2 ^ 63), drop (length ds) s3, True)
         else if v \<ge> 2 ^ 63 then (2 ^ 63 - 1, drop (length ds) s3, True)
         else (v, drop (length ds) s3, False))"

text \<open>\<^verbatim>\<open>strtoi\<close>: the value, the rest of the text, and whether \<^verbatim>\<open>errno\<close> is set.\<close>

definition strtoi :: "bytes \<Rightarrow> nat \<Rightarrow> int \<times> bytes \<times> bool" where
  "strtoi nptr base =
     (case strtol base nptr of (val, rest, err) \<Rightarrow>
        if err then (if val = 2 ^ 63 - 1 then 2 ^ 31 - 1 else - (2 ^ 31), rest, True)
        else if - (2 ^ 31) \<le> val \<and> val < 2 ^ 31 then (val, rest, False)
        else (if val > 0 then 2 ^ 31 - 1 else - (2 ^ 31), rest, True))"

section \<open>Values of parameters\<close>

text \<open>\<^verbatim>\<open>strstr\<close> from an offset.\<close>

function strstr :: "bytes \<Rightarrow> bytes \<Rightarrow> nat \<Rightarrow> nat option" where
  "strstr s name i =
     (if i > length s then None else if take (length name) (drop i s) = name then Some i else strstr s name (Suc i))"
  by auto
termination by (relation "measure (\<lambda>(s, name, i). Suc (length s) - i)") auto

declare strstr.simps [simp del]

lemma strstr_Some: "strstr s name i = Some j \<Longrightarrow> i \<le> j \<and> j \<le> length s \<and> take (length name) (drop j s) = name"
  by (induction s name i rule: strstr.induct) (subst (asm) (2) strstr.simps, auto split: if_splits)

text \<open>The search for the name at the start of a word, before an equals sign; a search behind the end of the text is \<open>None\<close>.\<close>

function find_name :: "bytes \<Rightarrow> bytes \<Rightarrow> nat option \<Rightarrow> nat option option" where
  "find_name params name None = Some None"
| "find_name params name (Some i) =
     (if length params - i < length name then Some None
      else if (i = 0 \<or> params ! (i - 1) = 0x20) \<and> (params @ [0]) ! (i + length name) = 0x3D then Some (Some i)
      else if Suc i > length params then None
      else find_name params name (strstr params name (Suc i)))"
  by pat_completeness auto
termination
  by (relation "measure (\<lambda>(params, name, p). case p of None \<Rightarrow> 0 | Some i \<Rightarrow> Suc (Suc (length params) - i))")
    (auto split: option.splits dest!: strstr_Some)

text \<open>The result code, and the value that was stored.\<close>

definition get_token_value :: "bytes \<Rightarrow> bytes \<Rightarrow> int \<Rightarrow> (int \<times> bytes option) option" where
  "get_token_value params name val_size =
     (case find_name params name (strstr params name 0) of
        None \<Rightarrow> None
      | Some None \<Rightarrow> Some (-1, None)
      | Some (Some i) \<Rightarrow>
          let val = takeWhile (\<lambda>c. c \<noteq> 0x20) (drop (i + length name + 1) params); len = int (length val)
          in Some (if len + 1 \<le> val_size then (0, Some val) else (len + 1, None)))"

definition get_token_value_alloc :: "nat \<Rightarrow> bytes \<Rightarrow> bytes \<Rightarrow> (int \<times> bytes option) option" where
  "get_token_value_alloc lim params name =
     (case get_token_value params name 0 of
        None \<Rightarrow> None
      | Some (val_size, _) \<Rightarrow>
          if val_size < 0 then Some (val_size, None)
          else if nat val_size > lim then Some (-2, None)
          else get_token_value params name val_size)"

text \<open>The number is stored even when it is out of range.\<close>

definition get_token_value_int :: "bytes \<Rightarrow> bytes \<Rightarrow> (int \<times> int option) option" where
  "get_token_value_int params name =
     (case get_token_value params name 64 of
        None \<Rightarrow> None
      | Some (res, val) \<Rightarrow>
          if res = 0 then (case strtoi (the val) 10 of (v, _, err) \<Rightarrow> Some (if err then -2 else 0, Some v))
          else Some (-1, None))"

section \<open>Temporary strings live for fifteen more calls\<close>

definition ring_ok :: "temp_strings \<Rightarrow> bool" where
  "ring_ok r \<longleftrightarrow> length (ring r) = MAX_TEMP_STRINGS \<and> temp_string_n r < MAX_TEMP_STRINGS \<and>
     (\<forall>t \<in> set (ring r). case ts_buffer t of None \<Rightarrow> ts_size t = 0 | Some b \<Rightarrow> int (length b) = ts_size t)"

lemma no_temp_strings_ok [simp]: "ring_ok no_temp_strings"
  by (simp add: ring_ok_def no_temp_strings_def MAX_TEMP_STRINGS_def)

lemma tempstr_get_room:
  assumes "ring_ok r" and "enough lim" and "n < 2 ^ 31"
  obtains r' b where "tempstr_get lim (int n) r = Some (temp_string_n r, r')" "ring_ok r'" "ts_buffer (ring r' ! temp_string_n r) = Some b"
    "Suc n \<le> length b" "temp_string_n r' = Suc (temp_string_n r) mod MAX_TEMP_STRINGS"
    "\<forall>j. j \<noteq> temp_string_n r \<longrightarrow> ring r' ! j = ring r ! j"
proof -
  let ?i = "temp_string_n r" and ?t = "ring r ! temp_string_n r"
  have i: "?i < length (ring r)" "length (ring r) = MAX_TEMP_STRINGS" using assms(1) by (simp_all add: ring_ok_def)
  then have t: "case ts_buffer ?t of None \<Rightarrow> ts_size ?t = 0 | Some b \<Rightarrow> int (length b) = ts_size ?t" using assms(1) by (auto simp: ring_ok_def)
  have m: "(if Suc ?i \<ge> MAX_TEMP_STRINGS then 0 else Suc ?i) = Suc ?i mod MAX_TEMP_STRINGS" "Suc ?i mod MAX_TEMP_STRINGS < MAX_TEMP_STRINGS"
    using i by (auto simp: MAX_TEMP_STRINGS_def mod_Suc)
  show ?thesis
  proof (cases "ts_size ?t < int n + 1")
    case True
    have u: "unat (of_int (int n + 1) :: u32) = Suc n" using assms(3) unat_of_nat_u32 [of "Suc n"] by (simp add: add.commute)
    then have "(of_int (int n + 1) :: u32) \<noteq> 0" by (metis Zero_not_Suc unat_0)
    then obtain b where b: "realloc lim (ts_buffer ?t) (of_int (int n + 1)) = Some b" "length b = Suc n"
      using u enough_size [OF assms(2), of "of_int (int n + 1)"] that by (cases "ts_buffer ?t") (auto simp: realloc_def)
    let ?r = "r \<lparr>ring := (ring r)[?i := \<lparr>ts_buffer = Some b, ts_size = int n + 1\<rparr>], temp_string_n := Suc ?i mod MAX_TEMP_STRINGS\<rparr>"
    have "ring_ok ?r" using assms(1) b(2) m(2) set_update_subset_insert [of "ring r" ?i "\<lparr>ts_buffer = Some b, ts_size = int n + 1\<rparr>"] by (auto simp: ring_ok_def)
    then show ?thesis using that [of ?r b] True b m(1) i(1) by (simp add: tempstr_get_def Let_def)
  next
    case False
    then obtain b where b: "ts_buffer ?t = Some b" "Suc n \<le> length b" using t by (cases "ts_buffer ?t") auto
    have "ring_ok (r \<lparr>temp_string_n := Suc ?i mod MAX_TEMP_STRINGS\<rparr>)" using assms(1) m(2) by (simp add: ring_ok_def)
    then show ?thesis using that [of "r \<lparr>temp_string_n := Suc ?i mod MAX_TEMP_STRINGS\<rparr>" b] False b m(1) by (simp add: tempstr_get_def Let_def)
  qed
qed

lemma to_tempstr_stores:
  assumes "ring_ok r" and "enough lim" and "sa_holds s t" and "length t < 2 ^ 31" and "0 \<notin> set t"
  obtains r' where "stralloc_to_tempstr lim s r = Some (temp_string_n r, r')" "ring_ok r'" "temp_text r' (temp_string_n r) = Some t"
    "temp_string_n r' = Suc (temp_string_n r) mod MAX_TEMP_STRINGS" "\<forall>j. j \<noteq> temp_string_n r \<longrightarrow> ring r' ! j = ring r ! j"
proof -
  let ?i = "temp_string_n r"
  have n: "sint (sa_n s) = int (length t)" "sa_front s (unat (sa_n s)) = Some (map Some t)"
    using assms(3,4) by (auto simp: sa_holds_def sint_u32 uint_nat sa_front_def split: option.splits)
  obtain r1 b where r1: "tempstr_get lim (int (length t)) r = Some (?i, r1)" "ring_ok r1" "ts_buffer (ring r1 ! ?i) = Some b"
      "Suc (length t) \<le> length b" "temp_string_n r1 = Suc ?i mod MAX_TEMP_STRINGS" "\<forall>j. j \<noteq> ?i \<longrightarrow> ring r1 ! j = ring r ! j"
    using tempstr_get_room [OF assms(1,2,4)] by blast
  have i: "?i < length (ring r1)" using assms(1) r1(2) by (simp add: ring_ok_def)
  let ?b = "map Some t @ [Some 0] @ drop (Suc (length t)) b"
  let ?r = "r1 \<lparr>ring := (ring r1)[?i := (ring r1 ! ?i) \<lparr>ts_buffer := Some ?b\<rparr>]\<rparr>"
  have "stralloc_to_tempstr lim s r = Some (?i, ?r)"
    using n r1(1,3,4) by (simp add: stralloc_to_tempstr_def tempstr_write_def memcpy_at_def)
  moreover have "ring_ok ?r"
  proof -
    have "ring r1 ! ?i \<in> set (ring r1)" using i by simp
    then have "ts_size (ring r1 ! ?i) = int (length b)" using r1(2,3) by (auto simp: ring_ok_def split: option.splits)
    then show ?thesis using r1(2,4) set_update_subset_insert [of "ring r1" ?i "(ring r1 ! ?i) \<lparr>ts_buffer := Some ?b\<rparr>"]
      by (auto simp: ring_ok_def)
  qed
  moreover have "takeWhile (\<lambda>c. c \<noteq> Some 0) ?b = map Some t" using assms(5) by (auto simp: takeWhile_append takeWhile_eq_all_conv)
  then have "temp_text ?r ?i = Some t" using i r1(4) by (auto simp: temp_text_def Let_def)
  ultimately show ?thesis using that r1(5,6) by simp
qed

text \<open>Several strings quoted one after the other, as for one message.\<close>

fun quote_all :: "nat \<Rightarrow> bool \<Rightarrow> bytes list \<Rightarrow> temp_strings \<Rightarrow> (nat list \<times> temp_strings) option" where
  "quote_all lim old [] r = Some ([], r)"
| "quote_all lim old (x # xs) r =
     Option.bind (quote_str lim old x r) (\<lambda>(q, r1). map_option (\<lambda>(qs, r2). (q # qs, r2)) (quote_all lim old xs r1))"

lemma quoted_no_zero: "0 \<notin> set (concat (map quote_byte bs))"
  using quote_byte_printable [of 0] by auto

lemma length_quoted: "length (concat (map quote_byte bs)) \<le> 4 * length bs"
proof (induction bs)
  case (Cons b bs)
  then show ?case using length_quote_byte [of b] by simp
qed simp

lemma quote_str_stores:
  assumes "ring_ok r" and "enough lim" and "4 * length x < 2 ^ 31"
  obtains r' where "quote_str lim old x r = Some (temp_string_n r, r')" "ring_ok r'" "temp_text r' (temp_string_n r) = Some (concat (map quote_byte x))"
    "temp_string_n r' = Suc (temp_string_n r) mod MAX_TEMP_STRINGS" "\<forall>j. j \<noteq> temp_string_n r \<longrightarrow> ring r' ! j = ring r ! j"
proof -
  obtain s where s: "stralloc_add_quote_loop lim old STRALLOC_INIT x = Some s" "sa_holds s (concat (map quote_byte x))"
    using quote_loop_holds [OF stralloc_init_holds(1) assms(2), of x old] assms(3) by auto
  have "unat (of_int (int (length x)) :: u32) = length x" using assms(3) unat_of_nat_u32 [of "length x"] by simp
  then have q: "stralloc_add_quote_bytes lim old STRALLOC_INIT x (of_int (int (length x))) = Some s"
    using s(1) by (simp add: stralloc_add_quote_bytes_def)
  have "length (concat (map quote_byte x)) < 2 ^ 31" using length_quoted [of x] assms(3) by linarith
  then obtain r' where "stralloc_to_tempstr lim s r = Some (temp_string_n r, r')" "ring_ok r'" "temp_text r' (temp_string_n r) = Some (concat (map quote_byte x))"
    "temp_string_n r' = Suc (temp_string_n r) mod MAX_TEMP_STRINGS" "\<forall>j. j \<noteq> temp_string_n r \<longrightarrow> ring r' ! j = ring r ! j"
    using to_tempstr_stores [OF assms(1,2) s(2)] quoted_no_zero by blast
  then show ?thesis using that q by (simp add: quote_str_def quote_bytes_def)
qed

lemma quote_all_stores:
  assumes "ring_ok r" and "enough lim" and "\<forall>x \<in> set xs. 4 * length x < 2 ^ 31" and "length xs \<le> MAX_TEMP_STRINGS"
  shows "\<exists>r'. quote_all lim old xs r = Some (map (\<lambda>k. (temp_string_n r + k) mod MAX_TEMP_STRINGS) [0..<length xs], r') \<and>
    (\<forall>k < length xs. temp_text r' ((temp_string_n r + k) mod MAX_TEMP_STRINGS) = Some (concat (map quote_byte (xs ! k)))) \<and>
    (\<forall>j < MAX_TEMP_STRINGS. (\<forall>k < length xs. j \<noteq> (temp_string_n r + k) mod MAX_TEMP_STRINGS) \<longrightarrow> ring r' ! j = ring r ! j)"
  using assms(1,3,4)
proof (induction xs arbitrary: r)
  case (Cons x xs)
  let ?i = "temp_string_n r"
  have i: "?i < MAX_TEMP_STRINGS" using Cons.prems(1) by (simp add: ring_ok_def)
  obtain r1 where r1: "quote_str lim old x r = Some (?i, r1)" "ring_ok r1" "temp_text r1 ?i = Some (concat (map quote_byte x))"
    "temp_string_n r1 = Suc ?i mod MAX_TEMP_STRINGS" "\<forall>j. j \<noteq> ?i \<longrightarrow> ring r1 ! j = ring r ! j"
    using quote_str_stores [OF Cons.prems(1) assms(2)] Cons.prems(2) by auto
  have s: "(temp_string_n r1 + k) mod MAX_TEMP_STRINGS = (?i + Suc k) mod MAX_TEMP_STRINGS" for k by (simp add: r1(4) mod_simps)
  obtain r2 where r2: "quote_all lim old xs r1 = Some (map (\<lambda>k. (?i + Suc k) mod MAX_TEMP_STRINGS) [0..<length xs], r2)"
    "\<forall>k < length xs. temp_text r2 ((?i + Suc k) mod MAX_TEMP_STRINGS) = Some (concat (map quote_byte (xs ! k)))"
    "\<forall>j < MAX_TEMP_STRINGS. (\<forall>k < length xs. j \<noteq> (?i + Suc k) mod MAX_TEMP_STRINGS) \<longrightarrow> ring r2 ! j = ring r1 ! j"
    using Cons.IH [OF r1(2)] Cons.prems(2,3) unfolding s by auto
  have ne: "?i \<noteq> (?i + Suc k) mod MAX_TEMP_STRINGS" if "k < length xs" for k
    using that i Cons.prems(3) by (auto simp: MAX_TEMP_STRINGS_def mod_if)
  then have keep: "temp_text r2 ?i = temp_text r1 ?i" using r2(3) i by (simp add: temp_text_def)
  have "map (\<lambda>k. (?i + k) mod MAX_TEMP_STRINGS) [0..<length (x # xs)] = ?i # map (\<lambda>k. (?i + Suc k) mod MAX_TEMP_STRINGS) [0..<length xs]"
    using i by (simp add: upt_conv_Cons map_Suc_upt [symmetric] comp_def del: upt_Suc)
  then have "quote_all lim old (x # xs) r = Some (map (\<lambda>k. (?i + k) mod MAX_TEMP_STRINGS) [0..<length (x # xs)], r2)" using r1(1) r2(1) by simp
  moreover have "temp_text r2 ((?i + k) mod MAX_TEMP_STRINGS) = Some (concat (map quote_byte ((x # xs) ! k)))" if "k < length (x # xs)" for k
    using that r2(2) keep r1(3) i by (cases k) auto
  moreover have "ring r2 ! j = ring r ! j" if "j < MAX_TEMP_STRINGS" "\<forall>k < length (x # xs). j \<noteq> (?i + k) mod MAX_TEMP_STRINGS" for j
  proof -
    have "j \<noteq> ?i" using that(2) i by auto
    moreover have "\<forall>k < length xs. j \<noteq> (?i + Suc k) mod MAX_TEMP_STRINGS" using that(2) by (metis Suc_less_eq length_Cons)
    ultimately show ?thesis using r1(5) r2(3) that(1) by simp
  qed
  ultimately show ?case by blast
qed simp

text \<open>Up to sixteen quoted strings are intact at the same time, and the original strings can be read from them.\<close>

theorem sixteen_quotes_intact:
  assumes "ring_ok r" and "enough lim" and "\<forall>x \<in> set xs. 4 * length x < 2 ^ 31" and "length xs \<le> MAX_TEMP_STRINGS"
  shows "\<exists>qs r'. quote_all lim old xs r = Some (qs, r') \<and> map (\<lambda>q. map_option unquote (temp_text r' q)) qs = map Some xs"
proof -
  obtain r' where "quote_all lim old xs r = Some (map (\<lambda>k. (temp_string_n r + k) mod MAX_TEMP_STRINGS) [0..<length xs], r')"
    "\<forall>k < length xs. temp_text r' ((temp_string_n r + k) mod MAX_TEMP_STRINGS) = Some (concat (map quote_byte (xs ! k)))"
    using quote_all_stores [OF assms, of old] by blast
  then show ?thesis by (auto simp: unquote_quote intro!: nth_equalityI)
qed

lemma sixteen_quotes_intact_witness:
  "\<exists>qs r'. quote_all all_memory False [asc ''avd'', [0x0A], []] no_temp_strings = Some (qs, r') \<and>
    map (\<lambda>q. map_option unquote (temp_text r' q)) qs = map Some [asc ''avd'', [0x0A], []]"
  by (rule sixteen_quotes_intact) (simp_all add: MAX_TEMP_STRINGS_def)

section \<open>Hexadecimal numbers are read back\<close>

lemma hexdigit_hexdigits: "n < 16 \<Longrightarrow> hexdigit (ucast (hexdigits ! n)) = of_nat n"
proof -
  have "\<forall>n \<in> set [0..<16]. hexdigit (ucast (hexdigits ! n)) = of_nat n" by code_simp
  then show "n < 16 \<Longrightarrow> hexdigit (ucast (hexdigits ! n)) = of_nat n" by simp
qed

lemma and_15_small: "unat (v AND 15) < 16" "v AND 15 = take_bit 4 v" for v :: u32
proof -
  show e: "v AND 15 = take_bit 4 v" by (simp add: take_bit_eq_mask mask_eq_exp_minus_1)
  show "unat (v AND 15) < 16" unfolding e by (simp add: take_bit_eq_mod unat_mod_distrib)
qed

lemma hexdigit_low: "hexdigit (ucast (hexdigits ! unat (v AND 15))) = v AND 15" "\<not> sint (v AND 15) < 0" for v :: u32
proof -
  show "hexdigit (ucast (hexdigits ! unat (v AND 15))) = v AND 15" using hexdigit_hexdigits [OF and_15_small(1) [of v]] by simp
  have "uint (v AND 15) < 16" using of_nat_less_iff [THEN iffD2, OF and_15_small(1) [of v], where 'a1 = int] by simp
  then show "\<not> sint (v AND 15) < 0" by (simp add: sint_u32)
qed

lemma hex2int_hex_text:
  "hex2int_loop (hex_text k v @ rest) (k + n) res = hex2int_loop rest n (push_bit (4 * k) res OR take_bit (4 * k) v)"
proof (induction k arbitrary: v rest n)
  case (Suc k)
  have "hex2int_loop (hex_text (Suc k) v @ rest) (Suc k + n) res =
      hex2int_loop ((hexdigits ! unat (v AND 15)) # rest) (Suc n) (push_bit (4 * k) res OR take_bit (4 * k) (drop_bit 4 v))"
    using Suc.IH [of "drop_bit 4 v" "(hexdigits ! unat (v AND 15)) # rest" "Suc n"] by simp
  also have "\<dots> = hex2int_loop rest n (push_bit 4 (push_bit (4 * k) res OR take_bit (4 * k) (drop_bit 4 v)) OR (v AND 15))"
    by (simp add: hexdigit_low Let_def)
  also have "push_bit 4 (push_bit (4 * k) res OR take_bit (4 * k) (drop_bit 4 v)) OR (v AND 15) = push_bit (4 * Suc k) res OR take_bit (4 * Suc k) v"
    unfolding and_15_small(2) by (rule bit_word_eqI) (auto simp: bit_simps algebra_simps)
  finally show ?case .
qed simp

lemma hex_text_front: "hex_text (Suc k) v = hexdigits ! unat (drop_bit (4 * k) v AND 15) # hex_text k v"
proof (induction k arbitrary: v)
  case (Suc k)
  have "drop_bit (4 * k) (drop_bit 4 v) = drop_bit (4 * Suc k) v" by (simp add: add.commute)
  then show ?case using Suc.IH [of "drop_bit 4 v"] by (subst hex_text.simps) (simp only: append_Cons hex_text.simps)
qed simp

lemma int2hex_hex_text: "k \<le> 8 \<Longrightarrow> int2hex k v = Some (hex_text k v)"
proof (induction k)
  case (Suc k)
  have "signed_drop_bit (k * 4) v AND 15 = drop_bit (4 * k) v AND 15"
    using Suc.prems by (intro bit_word_eqI) (auto simp: bit_simps and_15_small(2) algebra_simps)
  then show ?case using Suc hex_text_front [of k v] by simp
qed simp

lemma hex_round_trip:
  assumes "k \<le> 8"
  shows "\<exists>hex. int2hex k v = Some hex \<and> length hex = k \<and> hex2int hex (int k) = Some (take_bit (4 * k) v)"
  using int2hex_hex_text [OF assms, of v] hex2int_hex_text [of k v "[]" 0 0] by (simp add: hex2int_def)

section \<open>The value of a parameter\<close>

text \<open>The words of a text, separated by blanks.\<close>

function split_words :: "bytes \<Rightarrow> bytes list" where
  "split_words s = takeWhile (\<lambda>c. c \<noteq> 0x20) s #
     (case dropWhile (\<lambda>c. c \<noteq> 0x20) s of [] \<Rightarrow> [] | _ # rest \<Rightarrow> split_words rest)"
  by auto
termination
proof (relation "measure length")
  fix s rest :: bytes and c assume "dropWhile (\<lambda>c. c \<noteq> 0x20) s = c # rest"
  then show "(rest, s) \<in> measure length" using length_dropWhile_le [of "\<lambda>c. c \<noteq> 0x20" s] by simp
qed simp

declare split_words.simps [simp del]

definition word_value :: "bytes \<Rightarrow> bytes \<Rightarrow> bytes option" where
  "word_value params name =
     map_option (drop (Suc (length name))) (List.find (\<lambda>w. take (Suc (length name)) w = name @ [0x3D]) (split_words params))"

text \<open>A position where the name starts a word and is followed by an equals sign.\<close>

definition hit :: "bytes \<Rightarrow> bytes \<Rightarrow> nat \<Rightarrow> bool" where
  "hit params name i \<longleftrightarrow> (i = 0 \<or> params ! (i - 1) = 0x20) \<and> take (Suc (length name)) (drop i params) = name @ [0x3D]"

lemma match_next:
  assumes "take (length name) (drop i (s :: bytes)) = name" and "i \<le> length s"
  shows "(s @ [0]) ! (i + length name) = 0x3D \<longleftrightarrow> take (Suc (length name)) (drop i s) = name @ [0x3D]"
proof -
  have l: "i + length name \<le> length s" using arg_cong [OF assms(1), of length] assms(2) by (simp add: min_def split: if_splits)
  show ?thesis
  proof (cases "i + length name < length s")
    case True
    then have "take (Suc (length name)) (drop i s) = name @ [s ! (i + length name)]" using assms(1) by (simp add: take_Suc_conv_app_nth)
    then show ?thesis using True by (simp add: nth_append)
  next
    case False
    then have "length (take (Suc (length name)) (drop i s)) \<noteq> length (name @ [0x3D])" using l by simp
    then have "take (Suc (length name)) (drop i s) \<noteq> name @ [0x3D]" by metis
    moreover have "(s @ [0]) ! (i + length name) = 0" using False l by (simp add: nth_append)
    ultimately show ?thesis by simp
  qed
qed

lemma find_name_hit:
  assumes "name \<noteq> []" and "i \<le> length s"
  shows "find_name s name (strstr s name i) = Some (List.find (hit s name) [i..<length s])"
  using assms(2)
proof (induction "length s - i" arbitrary: i)
  case 0
  then have "i = length s" by simp
  then show ?case using assms(1) by (auto simp: strstr.simps [of s name] )
next
  case (Suc d)
  then have i: "i < length s" by simp
  then have u: "[i..<length s] = i # [Suc i..<length s]" by (simp add: upt_conv_Cons)
  have IH: "find_name s name (strstr s name (Suc i)) = Some (List.find (hit s name) [Suc i..<length s])" using Suc.hyps(1) [of "Suc i"] Suc.hyps(2) i by simp
  show ?case
  proof (cases "take (length name) (drop i s) = name")
    case True
    moreover have "\<not> length s - i < length name" using arg_cong [OF True, of length] by simp
    ultimately show ?thesis using IH match_next [OF True] i unfolding u by (simp add: strstr.simps [of s name i] hit_def)
  next
    case False
    moreover have "\<not> hit s name i" using False by (auto simp: hit_def dest: arg_cong [where f = "take (length name)"])
    ultimately show ?thesis using IH i unfolding u by (simp add: strstr.simps [of s name i])
  qed
qed

lemma find_shift: "List.find P (map f xs) = map_option f (List.find (P \<circ> f) xs)"
  by (induction xs) auto

lemma find_append_None: "(\<forall>x \<in> set xs. \<not> P x) \<Longrightarrow> List.find P (xs @ ys) = List.find P ys"
  by (induction xs) auto

text \<open>The value at the first hit, word by word.\<close>

definition hit_value :: "bytes \<Rightarrow> bytes \<Rightarrow> bytes option" where
  "hit_value params name =
     map_option (\<lambda>i. takeWhile (\<lambda>c. c \<noteq> 0x20) (drop (i + length name + 1) params)) (List.find (hit params name) [0..<length params])"

lemma hit_first_word:
  assumes "0x20 \<notin> set (w :: bytes)" and "0x20 \<notin> set name"
  shows "take (Suc (length name)) (w @ 0x20 # rest) = name @ [0x3D] \<longleftrightarrow> take (Suc (length name)) w = name @ [0x3D]"
proof (cases "Suc (length name) \<le> length w")
  case False
  then have "0x20 \<in> set (take (Suc (length name)) (w @ 0x20 # rest))" by (simp add: take_Cons')
  moreover have "0x20 \<notin> set (name @ [0x3D])" using assms(2) by simp
  ultimately have "take (Suc (length name)) (w @ 0x20 # rest) \<noteq> name @ [0x3D]" by metis
  moreover have "length (take (Suc (length name)) w) \<noteq> length (name @ [0x3D :: u8])" using False by simp
  ultimately show ?thesis by metis
qed simp

lemma hit_in_word:
  assumes "0x20 \<notin> set w" and "i \<le> length w" and "0 < i"
  shows "\<not> hit (w @ rest) name i"
proof -
  have "(w @ rest) ! (i - 1) \<in> set w" using assms(2,3) by (cases i) (auto simp: nth_append)
  then show ?thesis using assms(1,3) by (auto simp: hit_def)
qed

lemma hit_later: "hit (w @ 0x20 # rest) name (Suc (length w) + j) \<longleftrightarrow> hit rest name j"
  by (cases j) (simp_all add: hit_def nth_append)

lemma word_at_start:
  assumes "take (Suc (length name)) w = name @ [0x3D]" and "0x20 \<notin> set w" and "rest = [] \<or> hd rest = 0x20"
  shows "takeWhile (\<lambda>c. c \<noteq> 0x20) (drop (Suc (length name)) (w @ rest)) = drop (Suc (length name)) w"
proof -
  have "Suc (length name) \<le> length w" using arg_cong [OF assms(1), of length] by (simp add: min_def split: if_splits)
  moreover have "\<forall>c \<in> set (drop (Suc (length name)) w). c \<noteq> 0x20" using assms(2) by (metis in_set_dropD)
  moreover have "takeWhile (\<lambda>c. c \<noteq> 0x20) rest = []" using assms(3) by (cases rest) auto
  ultimately show ?thesis by (simp add: takeWhile_append2)
qed

lemma upt_split: "[0..<Suc a + b] = 0 # [1..<Suc a] @ map (\<lambda>j. Suc a + j) [0..<b]"
proof (induction b)
  case 0
  show ?case using upt_conv_Cons [of 0 "Suc a"] by (simp del: upt_Suc)
qed simp

lemma hit_value_words:
  assumes "0x20 \<notin> set name"
  shows "hit_value s name = word_value s name"
proof (induction s rule: split_words.induct)
  case (1 s)
  let ?w = "takeWhile (\<lambda>c. c \<noteq> 0x20) s" and ?n = "Suc (length name)"
  have w: "0x20 \<notin> set ?w" by (auto dest: set_takeWhileD)
  have none: "\<forall>i \<in> set [1..<Suc (length ?w)]. \<not> hit (?w @ d) name i" for d
  proof
    fix i assume "i \<in> set [1..<Suc (length ?w)]"
    then have "i \<le> length ?w" "0 < i" by auto
    then show "\<not> hit (?w @ d) name i" using hit_in_word [OF w] by blast
  qed
  show ?case
  proof (cases "dropWhile (\<lambda>c. c \<noteq> 0x20) s")
    case Nil
    then have s: "s = ?w" by (metis append_Nil2 takeWhile_dropWhile_id)
    have f: "List.find (hit s name) [0..<length s] = (if s \<noteq> [] \<and> take ?n s = name @ [0x3D] then Some 0 else None)"
    proof (cases "s = []")
      case False
      then have "[0..<length s] = 0 # [1..<length s]" by (simp add: upt_conv_Cons)
      moreover have "List.find (hit s name) [1..<length s] = None" using none [of "[]"] s by (auto simp: find_None_iff)
      ultimately show ?thesis using False by (simp add: hit_def)
    qed simp
    have "split_words s = [s]" using Nil s by (subst split_words.simps) (simp del: dropWhile_eq_Nil_conv)
    then show ?thesis using word_at_start [of name s "[]"] w s f by (auto simp: hit_value_def word_value_def)
  next
    case (Cons c rest)
    have c: "c = 0x20" using hd_dropWhile [of "\<lambda>c. c \<noteq> 0x20" s] Cons by simp
    then have s: "s = ?w @ 0x20 # rest" using takeWhile_dropWhile_id [of "\<lambda>c. c \<noteq> 0x20" s] Cons by simp
    have sp: "split_words s = ?w # split_words rest" using Cons by (subst split_words.simps) simp
    have l: "length s = Suc (length ?w) + length rest" by (subst s) simp
    have u: "[0..<length s] = 0 # [1..<Suc (length ?w)] @ map (\<lambda>j. Suc (length ?w) + j) [0..<length rest]"
      unfolding l by (rule upt_split)
    have h0: "hit s name 0 \<longleftrightarrow> take ?n ?w = name @ [0x3D]" using hit_first_word [OF w assms, of rest] s by (simp add: hit_def)
    have later: "List.find (hit s name) ([1..<Suc (length ?w)] @ map (\<lambda>j. Suc (length ?w) + j) [0..<length rest]) =
        map_option (\<lambda>j. Suc (length ?w) + j) (List.find (hit rest name) [0..<length rest])"
      using none [of "0x20 # rest"] s hit_later [of ?w rest name] by (subst find_append_None) (simp_all add: find_shift comp_def)
    show ?thesis
    proof (cases "take ?n ?w = name @ [0x3D]")
      case True
      have "takeWhile (\<lambda>c. c \<noteq> 0x20) (drop ?n s) = drop ?n ?w" using word_at_start [OF True w, of "0x20 # rest"] s by simp
      then show ?thesis using True h0 sp by (simp add: hit_value_def word_value_def u)
    next
      case False
      have "drop (Suc (length ?w) + j + length name + 1) s = drop (j + length name + 1) rest" for j by (subst s) (simp add: add.assoc)
      then have "hit_value s name = hit_value rest name" using False h0 later by (simp add: hit_value_def u option.map_comp comp_def)
      moreover have "word_value s name = word_value rest name" using False sp by (simp add: word_value_def)
      ultimately show ?thesis using "1.IH" [OF Cons] by simp
    qed
  qed
qed

lemma get_token_value_word:
  assumes "name \<noteq> []" and "0x20 \<notin> set name"
  shows "get_token_value params name val_size =
    Some (case word_value params name of
            None \<Rightarrow> (-1, None)
          | Some v \<Rightarrow> if int (length v) + 1 \<le> val_size then (0, Some v) else (int (length v) + 1, None))"
proof -
  have "find_name params name (strstr params name 0) = Some (List.find (hit params name) [0..<length params])"
    using find_name_hit [OF assms(1), of 0 params] by simp
  then show ?thesis using hit_value_words [OF assms(2), of params, symmetric]
    by (auto simp: get_token_value_def hit_value_def Let_def split: option.splits)
qed

lemma length_word_value: "word_value s name = Some v \<Longrightarrow> length v \<le> length s"
proof -
  have "\<forall>w \<in> set (split_words s). length w \<le> length s"
  proof (induction s rule: split_words.induct)
    case (1 s)
    show ?case
    proof (cases "dropWhile (\<lambda>c. c \<noteq> 0x20) s")
      case (Cons c rest)
      then have "length rest \<le> length s" using length_dropWhile_le [of "\<lambda>c. c \<noteq> 0x20" s] by simp
      then show ?thesis using "1.IH" [OF Cons] Cons length_takeWhile_le [of "\<lambda>c. c \<noteq> 0x20" s] by (subst split_words.simps) (auto intro: order_trans)
    qed (subst split_words.simps, simp add: length_takeWhile_le del: dropWhile_eq_Nil_conv)
  qed
  moreover assume "word_value s name = Some v"
  then obtain w where "w \<in> set (split_words s)" "v = drop (Suc (length name)) w" by (auto simp: word_value_def find_Some_iff intro: nth_mem)
  ultimately show "length v \<le> length s" by (metis diff_le_self le_trans length_drop)
qed

text \<open>
  The search for a parameter finds the value of the first word of the form name=value, and nothing when there is none, whatever
  other words contain the name; the version that allocates memory asks for as much as the value needs.
\<close>

theorem token_value_is_first_word:
  assumes "name \<noteq> []" and "0x20 \<notin> set name" and "Suc (length params) \<le> lim"
  shows "get_token_value params name val_size =
      Some (case word_value params name of
              None \<Rightarrow> (-1, None)
            | Some v \<Rightarrow> if int (length v) + 1 \<le> val_size then (0, Some v) else (int (length v) + 1, None)) \<and>
    get_token_value_alloc lim params name = Some (case word_value params name of None \<Rightarrow> (-1, None) | Some v \<Rightarrow> (0, Some v))"
proof -
  note g = get_token_value_word [OF assms(1,2), of params]
  have "get_token_value_alloc lim params name = Some (case word_value params name of None \<Rightarrow> (-1, None) | Some v \<Rightarrow> (0, Some v))"
    using assms(3) length_word_value [of params name] by (cases "word_value params name") (auto simp: get_token_value_alloc_def g nat_add_distrib)
  then show ?thesis using g by blast
qed

lemma token_value_is_first_word_witness:
  "get_token_value (asc ''xsize=1 size=12 size=3'') (asc ''size'') 8 = Some (0, Some (asc ''12''))"
  using token_value_is_first_word [of "asc ''size''" "asc ''xsize=1 size=12 size=3''" 100 8]
  by (simp add: asc_def word_value_def split_words.simps)

text \<open>A value that is no number is stored as zero, and reported as success.\<close>

lemma no_number_is_zero: "get_token_value_int (asc ''port=abc'') (asc ''port'') = Some (0, Some 0)"
  using get_token_value_word [of "asc ''port''" "asc ''port=abc''" 64]
  by (simp add: get_token_value_int_def asc_def word_value_def split_words.simps strtoi_def strtol_def number_base_def digit_value_def isspace_def isdigit_def)

end
