(* ===== verification/Command_Line.thy ===== *)
theory Command_Line
  imports Misc_Strings
begin

text \<open>
  The command line of the emulator (\<^verbatim>\<open>src/emulator/cmdline/src/android/cmdline-option.cpp\<close>): options, debug tags, ports and the
  options of user mode networking.  Arguments are texts without zero bytes.
\<close>

section \<open>The table of options\<close>

datatype option_type = OPTION_IS_FLAG | OPTION_IS_PARAM | OPTION_IS_LIST

record OptionInfo =
  oi_name :: bytes
  var_type :: option_type
  var_is_config :: bool

text \<open>The options for Linux.\<close>

definition option_table :: "(string \<times> option_type \<times> bool) list" where
  "option_table = [
    (''list_avds'', OPTION_IS_FLAG, False), (''sysdir'', OPTION_IS_PARAM, True), (''system'', OPTION_IS_PARAM, True),
    (''vendor'', OPTION_IS_PARAM, True), (''writable_system'', OPTION_IS_FLAG, True), (''delay_adb'', OPTION_IS_FLAG, True),
    (''datadir'', OPTION_IS_PARAM, True), (''kernel'', OPTION_IS_PARAM, True), (''ramdisk'', OPTION_IS_PARAM, True),
    (''image'', OPTION_IS_PARAM, True), (''initdata'', OPTION_IS_PARAM, True), (''data'', OPTION_IS_PARAM, True),
    (''encryption_key'', OPTION_IS_PARAM, True), (''logcat_output'', OPTION_IS_PARAM, True),
    (''partition_size'', OPTION_IS_PARAM, True), (''cache'', OPTION_IS_PARAM, True), (''cache_size'', OPTION_IS_PARAM, False),
    (''no_cache'', OPTION_IS_FLAG, True), (''nocache'', OPTION_IS_FLAG, True), (''sdcard'', OPTION_IS_PARAM, False),
    (''quit_after_boot'', OPTION_IS_PARAM, True), (''qemu_top_dir'', OPTION_IS_PARAM, True),
    (''monitor_adb'', OPTION_IS_PARAM, True), (''snapstorage'', OPTION_IS_PARAM, False),
    (''no_snapstorage'', OPTION_IS_FLAG, False), (''snapshot'', OPTION_IS_PARAM, False), (''no_snapshot'', OPTION_IS_FLAG, False),
    (''no_snapshot_save'', OPTION_IS_FLAG, False), (''no_snapshot_load'', OPTION_IS_FLAG, False),
    (''force_snapshot_load'', OPTION_IS_FLAG, False), (''qcow2_for_userdata'', OPTION_IS_FLAG, False),
    (''snapshot_list'', OPTION_IS_FLAG, False), (''no_snapshot_update_time'', OPTION_IS_FLAG, False),
    (''wipe_data'', OPTION_IS_FLAG, False), (''avd'', OPTION_IS_PARAM, True), (''avd_arch'', OPTION_IS_PARAM, True),
    (''skindir'', OPTION_IS_PARAM, True), (''skin'', OPTION_IS_PARAM, True), (''no_skin'', OPTION_IS_FLAG, True),
    (''noskin'', OPTION_IS_FLAG, True), (''memory'', OPTION_IS_PARAM, True), (''ui_only'', OPTION_IS_PARAM, False),
    (''id'', OPTION_IS_PARAM, True), (''cores'', OPTION_IS_PARAM, False), (''accel'', OPTION_IS_PARAM, False),
    (''no_accel'', OPTION_IS_FLAG, False), (''ranchu'', OPTION_IS_FLAG, False), (''engine'', OPTION_IS_PARAM, False),
    (''netspeed'', OPTION_IS_PARAM, False), (''netdelay'', OPTION_IS_PARAM, False), (''netfast'', OPTION_IS_FLAG, False),
    (''code_profile'', OPTION_IS_PARAM, False), (''show_kernel'', OPTION_IS_FLAG, False), (''shell'', OPTION_IS_FLAG, False),
    (''no_jni'', OPTION_IS_FLAG, False), (''nojni'', OPTION_IS_FLAG, False), (''dalvik_vm_checkjni'', OPTION_IS_FLAG, False),
    (''logcat'', OPTION_IS_PARAM, False), (''log_nofilter'', OPTION_IS_FLAG, False), (''log_detailed'', OPTION_IS_FLAG, False),
    (''use_system_libs'', OPTION_IS_FLAG, False), (''stdouterr_file'', OPTION_IS_PARAM, True), (''no_qt'', OPTION_IS_FLAG, False),
    (''no_audio'', OPTION_IS_FLAG, False), (''noaudio'', OPTION_IS_FLAG, False), (''audio'', OPTION_IS_PARAM, False),
    (''radio'', OPTION_IS_PARAM, False), (''port'', OPTION_IS_PARAM, False), (''ports'', OPTION_IS_PARAM, False),
    (''modem_simulator_port'', OPTION_IS_PARAM, False), (''onion'', OPTION_IS_PARAM, False),
    (''onion_alpha'', OPTION_IS_PARAM, False), (''onion_rotation'', OPTION_IS_PARAM, False),
    (''dpi_device'', OPTION_IS_PARAM, False), (''scale'', OPTION_IS_PARAM, False), (''wifi_client_port'', OPTION_IS_PARAM, False),
    (''wifi_server_port'', OPTION_IS_PARAM, False), (''http_proxy'', OPTION_IS_PARAM, False),
    (''timezone'', OPTION_IS_PARAM, False), (''change_language'', OPTION_IS_PARAM, False),
    (''change_country'', OPTION_IS_PARAM, False), (''change_locale'', OPTION_IS_PARAM, False),
    (''dns_server'', OPTION_IS_PARAM, False), (''net_tap'', OPTION_IS_PARAM, False), (''net_socket'', OPTION_IS_PARAM, False),
    (''net_tap_script_up'', OPTION_IS_PARAM, False), (''net_tap_script_down'', OPTION_IS_PARAM, False),
    (''cpu_delay'', OPTION_IS_PARAM, False), (''no_boot_anim'', OPTION_IS_FLAG, False), (''no_window'', OPTION_IS_FLAG, False),
    (''qt_hide_window'', OPTION_IS_FLAG, False), (''no_sim'', OPTION_IS_FLAG, False), (''lowram'', OPTION_IS_FLAG, False),
    (''version'', OPTION_IS_FLAG, False), (''no_passive_gps'', OPTION_IS_FLAG, False), (''gnss_file_path'', OPTION_IS_PARAM, True),
    (''gnss_grpc_port'', OPTION_IS_PARAM, True), (''virtio_console'', OPTION_IS_FLAG, False),
    (''read_only'', OPTION_IS_FLAG, False), (''is_restart'', OPTION_IS_PARAM, False), (''report_console'', OPTION_IS_PARAM, False),
    (''gps'', OPTION_IS_PARAM, False), (''shell_serial'', OPTION_IS_PARAM, False), (''tcpdump'', OPTION_IS_PARAM, False),
    (''bootchart'', OPTION_IS_PARAM, False), (''charmap'', OPTION_IS_PARAM, False), (''studio_params'', OPTION_IS_PARAM, False),
    (''prop'', OPTION_IS_LIST, False), (''shared_net_id'', OPTION_IS_PARAM, False), (''nand_limits'', OPTION_IS_PARAM, False),
    (''gpu'', OPTION_IS_PARAM, False), (''use_host_vulkan'', OPTION_IS_FLAG, False), (''vsync_rate'', OPTION_IS_PARAM, False),
    (''camera_back'', OPTION_IS_PARAM, False), (''camera_front'', OPTION_IS_PARAM, False),
    (''webcam_list'', OPTION_IS_FLAG, False), (''virtualscene_poster'', OPTION_IS_LIST, False),
    (''screen'', OPTION_IS_PARAM, False), (''selinux'', OPTION_IS_PARAM, False), (''unix_pipe'', OPTION_IS_LIST, False),
    (''fixed_scale'', OPTION_IS_FLAG, True), (''wait_for_debugger'', OPTION_IS_FLAG, False),
    (''skip_adb_auth'', OPTION_IS_FLAG, False), (''metrics_to_console'', OPTION_IS_FLAG, False),
    (''metrics_collection'', OPTION_IS_FLAG, False), (''metrics_to_file'', OPTION_IS_PARAM, False),
    (''no_metrics'', OPTION_IS_FLAG, False), (''detect_image_hang'', OPTION_IS_FLAG, False), (''feature'', OPTION_IS_LIST, False),
    (''icc_profile'', OPTION_IS_PARAM, False), (''sim_access_rules_file'', OPTION_IS_PARAM, False),
    (''phone_number'', OPTION_IS_PARAM, False), (''acpi_config'', OPTION_IS_PARAM, True), (''fuchsia'', OPTION_IS_FLAG, False),
    (''window_size'', OPTION_IS_PARAM, False), (''allow_host_audio'', OPTION_IS_FLAG, False),
    (''restart_when_stalled'', OPTION_IS_FLAG, False), (''perf_stat'', OPTION_IS_PARAM, False),
    (''share_vid'', OPTION_IS_FLAG, False), (''grpc'', OPTION_IS_PARAM, False), (''grpc_tls_key'', OPTION_IS_PARAM, False),
    (''grpc_tls_cer'', OPTION_IS_PARAM, False), (''grpc_tls_ca'', OPTION_IS_PARAM, False),
    (''grpc_use_token'', OPTION_IS_FLAG, False), (''grpc_use_jwt'', OPTION_IS_FLAG, False),
    (''grpc_allowlist'', OPTION_IS_PARAM, False), (''idle_grpc_timeout'', OPTION_IS_PARAM, False),
    (''waterfall'', OPTION_IS_PARAM, False), (''grpc_ui'', OPTION_IS_FLAG, False),
    (''packet_streamer_endpoint'', OPTION_IS_PARAM, False), (''netsim_args'', OPTION_IS_PARAM, False),
    (''multidisplay'', OPTION_IS_PARAM, False), (''google_maps_key'', OPTION_IS_PARAM, False),
    (''no_location_ui'', OPTION_IS_FLAG, False), (''use_keycode_forwarding'', OPTION_IS_FLAG, False),
    (''record_session'', OPTION_IS_PARAM, False), (''legacy_fake_camera'', OPTION_IS_FLAG, False),
    (''camera_hq_edge'', OPTION_IS_FLAG, False), (''no_direct_adb'', OPTION_IS_FLAG, False),
    (''check_snapshot_loadable'', OPTION_IS_PARAM, False), (''no_hidpi_scaling'', OPTION_IS_FLAG, False),
    (''no_mouse_reposition'', OPTION_IS_FLAG, False), (''guest_angle'', OPTION_IS_FLAG, False),
    (''usb_passthrough'', OPTION_IS_LIST, False), (''append_userspace_opt'', OPTION_IS_LIST, False),
    (''save_path'', OPTION_IS_PARAM, False), (''no_nested_warnings'', OPTION_IS_FLAG, False),
    (''wifi_tap'', OPTION_IS_PARAM, False), (''wifi_tap_script_up'', OPTION_IS_PARAM, False),
    (''wifi_tap_script_down'', OPTION_IS_PARAM, False), (''wifi_socket'', OPTION_IS_PARAM, False),
    (''wifi_user_mode_options'', OPTION_IS_PARAM, False), (''network_user_mode_options'', OPTION_IS_PARAM, False),
    (''adb_path'', OPTION_IS_PARAM, True), (''hotplug_multi_display'', OPTION_IS_FLAG, False), (''xts'', OPTION_IS_FLAG, False),
    (''wifi_mac_address'', OPTION_IS_PARAM, False), (''no_ethernet'', OPTION_IS_FLAG, False),
    (''android_serialno'', OPTION_IS_PARAM, False), (''vmodule'', OPTION_IS_PARAM, False)]"

definition option_keys :: "OptionInfo list" where
  "option_keys = map (\<lambda>(n, t, c). \<lparr>oi_name = asc n, var_type = t, var_is_config = c\<rparr>) option_table"

text \<open>
  The variables of the options, by the names of the options: flags, parameters (null or a text) and lists of parameters.  The flag
  \<^verbatim>\<open>verbose\<close> is not in the table.
\<close>

record AndroidOptions =
  opt_flag :: "bytes \<Rightarrow> bool"
  opt_param :: "bytes \<Rightarrow> bytes option"
  opt_list :: "bytes \<Rightarrow> bytes list"
  opt_verbose :: bool

definition no_options :: AndroidOptions where
  "no_options = \<lparr>opt_flag = (\<lambda>_. False), opt_param = (\<lambda>_. None), opt_list = (\<lambda>_. []), opt_verbose = False\<rparr>"

section \<open>Debug tags\<close>

text \<open>The tags and the numbers of their flags; the list of tags is empty.\<close>

definition debug_tags :: "(bytes \<times> nat) list" where
  "debug_tags = []"

definition is_tag_equal :: "bytes \<Rightarrow> bytes \<Rightarrow> bool" where
  "is_tag_equal tag to \<longleftrightarrow> take (length tag) to = tag \<and> length to = length tag"

text \<open>One tag: whether it is known.\<close>

definition parse_debug_tag :: "bytes \<Rightarrow> bool \<Rightarrow> bool" where
  "parse_debug_tag tag parse_as_suffix =
     (let x = (if \<not> parse_as_suffix \<and> hd tag = 0x2D then tl tag
               else if take 3 tag = asc ''no-'' then drop 3 tag else tag)
      in if is_tag_equal x (asc ''all'') then True
         else let temp = buffer_translate_char_with_len 32 x (of_nat (length x)) 0x2D 0x5F;
                  mask = (case List.find (\<lambda>(name, flag). is_tag_equal (the temp) name) debug_tags of
                            None \<Rightarrow> 0
                          | Some (_, flag) \<Rightarrow> push_bit flag (1 :: u64))
              in mask \<noteq> 0)"

function parse_debug_loop :: "bytes \<Rightarrow> bool \<Rightarrow> bool \<Rightarrow> bool" where
  "parse_debug_loop x parse_as_suffix result =
     (if x = [] then result
      else let tag = (if parse_as_suffix then x else takeWhile (\<lambda>c. c \<noteq> 0x2C) x);
               rest = drop (Suc (length tag)) x
           in parse_debug_loop rest parse_as_suffix (result \<or> length tag > 1 \<and> parse_debug_tag tag parse_as_suffix))"
  by auto
termination by (relation "measure (\<lambda>(x, _, _). length x)") auto

declare parse_debug_loop.simps [simp del]

definition android_parse_debug_tags_option :: "bytes option \<Rightarrow> bool \<Rightarrow> bool" where
  "android_parse_debug_tags_option opt parse_as_suffix =
     (case opt of None \<Rightarrow> False | Some x \<Rightarrow> parse_debug_loop x parse_as_suffix False)"

text \<open>The environment is a function from names of variables.\<close>

definition parse_env_debug_tags :: "(string \<Rightarrow> bytes option) \<Rightarrow> bool" where
  "parse_env_debug_tags getenv = android_parse_debug_tags_option (getenv ''ANDROID_DEBUG'') False"

section \<open>Options\<close>

datatype parse_result =
    Parsed "bytes list" AndroidOptions
  | Failed
  | Exits

text \<open>
  The loop over the arguments; it stops at the first one that is not an option.  What \<^verbatim>\<open>android_parse_debug_tags_option\<close> returns for
  the tags is not used.
\<close>

definition store_param :: "OptionInfo \<Rightarrow> bytes \<Rightarrow> AndroidOptions \<Rightarrow> AndroidOptions" where
  "store_param oo v opt =
     (case var_type oo of
        OPTION_IS_PARAM \<Rightarrow> opt \<lparr>opt_param := (opt_param opt)(oi_name oo := Some v)\<rparr>
      | OPTION_IS_LIST \<Rightarrow> opt \<lparr>opt_list := (opt_list opt)(oi_name oo := v # opt_list opt (oi_name oo))\<rparr>
      | OPTION_IS_FLAG \<Rightarrow> opt)"

function parse_loop :: "bytes list \<Rightarrow> AndroidOptions \<Rightarrow> parse_result" where
  "parse_loop args opt =
     (case args of
        [] \<Rightarrow> Parsed [] opt
      | a # aread \<Rightarrow>
          if c_head a = 0x40 then parse_loop aread (opt \<lparr>opt_param := (opt_param opt)(asc ''avd'' := Some (tl a))\<rparr>)
          else if c_head a \<noteq> 0x2D then Parsed args opt
          else if 0x5F \<in> set (tl a) then Parsed args opt
          else
            let verbose = (tl a = asc ''verbose'');
                opt1 = (if verbose then opt \<lparr>opt_verbose := True\<rparr> else opt);
                arg = (if verbose then asc ''debug-init'' else tl a)
            in if arg = asc ''debug'' then (case aread of [] \<Rightarrow> Failed | tags # aread1 \<Rightarrow> parse_loop aread1 opt1)
               else if take 6 arg = asc ''debug-'' then parse_loop aread opt1
               else case buffer_translate_char 64 arg 0x2D 0x5F of
                      None \<Rightarrow> Exits
                    | Some arg2 \<Rightarrow>
                        (case List.find (\<lambda>oo. oi_name oo = arg2) option_keys of
                           None \<Rightarrow> Parsed args opt1
                         | Some oo \<Rightarrow>
                             if var_type oo \<noteq> OPTION_IS_FLAG
                             then (case aread of [] \<Rightarrow> Exits | v # aread1 \<Rightarrow> parse_loop aread1 (store_param oo v opt1))
                             else parse_loop aread (opt1 \<lparr>opt_flag := (opt_flag opt1)(oi_name oo := True)\<rparr>)))"
  by auto
termination by (relation "measure (\<lambda>(args, _). length args)") auto

declare parse_loop.simps [simp del]

text \<open>The reversal of a list of parameters, and of all lists in the table.\<close>

fun reverse_params :: "bytes list \<Rightarrow> bytes list \<Rightarrow> bytes list" where
  "reverse_params [] prev = prev"
| "reverse_params (cur # rest) prev = reverse_params rest (cur # prev)"

definition reverse_lists :: "AndroidOptions \<Rightarrow> AndroidOptions" where
  "reverse_lists opt =
     fold (\<lambda>oo opt. if var_type oo = OPTION_IS_LIST
       then opt \<lparr>opt_list := (opt_list opt)(oi_name oo := reverse_params (opt_list opt (oi_name oo)) [])\<rparr> else opt) option_keys opt"

text \<open>The remaining arguments are written to the array from its second place on, with a null pointer behind them.\<close>

fun write_args :: "nat \<Rightarrow> bytes list \<Rightarrow> bytes option list \<Rightarrow> bytes option list" where
  "write_args i [] argv = argv[i := None]"
| "write_args i (a # rest) argv = write_args (Suc i) rest (argv[i := Some a])"

text \<open>
  The array of arguments ends with a null pointer.  The result has the number of remaining arguments, the array and the options;
  \<open>Inl True\<close> is the end of the process, \<open>Inl False\<close> the result -1.
\<close>

definition android_parse_options :: "bytes list \<Rightarrow> bool + (nat \<times> bytes option list \<times> AndroidOptions)" where
  "android_parse_options args =
     (case parse_loop (tl args) no_options of
        Parsed rest opt \<Rightarrow> Inr (Suc (length rest), write_args 1 rest (map Some args @ [None]), reverse_lists opt)
      | Failed \<Rightarrow> Inl False
      | Exits \<Rightarrow> Inl True)"

section \<open>Ports\<close>

text \<open>The conversion of a \<^verbatim>\<open>long\<close> to an \<^verbatim>\<open>int\<close>.\<close>

definition c_int :: "int \<Rightarrow> int" where
  "c_int v = sint (word_of_int v :: u32)"

definition UINT16_MAX :: int where "UINT16_MAX = 65535"

text \<open>The arguments \<open>base\<close> and \<open>emulators\<close> are \<^verbatim>\<open>ANDROID_CONSOLE_BASEPORT\<close> and \<^verbatim>\<open>MAX_ANDROID_EMULATORS\<close>.\<close>

definition android_validate_ports :: "int \<Rightarrow> int \<Rightarrow> int \<Rightarrow> int \<Rightarrow> bool" where
  "android_validate_ports base emulators console_port adb_port =
     (let lower_bound = base + 1; upper_bound = lower_bound + (emulators - 1) * 2 + 1
      in if adb_port < lower_bound \<or> adb_port > upper_bound then False else adb_port mod 2 \<noteq> 0)"

definition modem_simulator_parse_port_option :: "bytes option \<Rightarrow> int option" where
  "modem_simulator_parse_port_option port_string =
     (case port_string of
        None \<Rightarrow> None
      | Some s \<Rightarrow>
          (case strtol 0 s of (v, rest, err) \<Rightarrow>
             let port = c_int v in if rest \<noteq> [] \<or> err \<or> port < 1 \<or> port > UINT16_MAX then None else Some port))"

definition android_parse_port_option :: "bytes option \<Rightarrow> (int \<times> int) option" where
  "android_parse_port_option port_string =
     (case port_string of
        None \<Rightarrow> None
      | Some s \<Rightarrow>
          (case strtol 0 s of (v, rest, err) \<Rightarrow>
             let port = c_int v in if rest \<noteq> [] \<or> err \<or> port < 1 \<or> port > UINT16_MAX then None else Some (port, port + 1)))"

definition android_parse_ports_option :: "bytes option \<Rightarrow> (int \<times> int) option" where
  "android_parse_ports_option ports_string =
     (case ports_string of
        None \<Rightarrow> None
      | Some s \<Rightarrow>
          (case strtol 0 s of (v, comma_location, _) \<Rightarrow>
             let first_port = c_int v
             in if c_head comma_location \<noteq> 0x2C \<or> first_port < 1 \<or> first_port > UINT16_MAX then None
                else (case strtol 0 (tl comma_location) of (w, rest, _) \<Rightarrow>
                  let second_port = c_int w
                  in if rest \<noteq> [] \<or> second_port < 1 \<or> second_port > UINT16_MAX \<or> first_port = second_port then None
                     else Some (first_port, second_port))))"

section \<open>Options of user mode networking\<close>

definition kUserModeNetworkingOpts :: "string list" where
  "kUserModeNetworkingOpts = [''ipv4'', ''ipv6'', ''dhcpstart'', ''host'', ''net'', ''restrict'', ''ipv6-host'', ''ipv6-net'', ''hostname'',
     ''tftp'', ''bootfile'', ''hostfwd'', ''guestfwd'', ''ipv6-hostfwd'', ''ipv6-dns'', ''ipv6-prefix'', ''ipv6-prefixlen'']"

function validate_options :: "bytes \<Rightarrow> bool" where
  "validate_options ss =
     (if ss = [] then True
      else let line = takeWhile (\<lambda>c. c \<noteq> 0x2C) ss; config = takeWhile (\<lambda>c. c \<noteq> 0x3D) line
           in if length config = length line \<or> Suc (length config) = length line then False
              else if config \<notin> set (map asc kUserModeNetworkingOpts) then False
              else validate_options (drop (Suc (length line)) ss))"
  by auto
termination by (relation "measure length") auto

declare validate_options.simps [simp del]

definition android_validate_user_mode_networking_option :: "bytes \<Rightarrow> bool" where
  "android_validate_user_mode_networking_option opt = validate_options opt"

section \<open>Options that are written are parsed\<close>

text \<open>Settings, the way they are written on a command line, and what they mean: parameters of a list keep their order.\<close>

datatype setting = FlagOf bytes | ParamOf bytes bytes | ItemOf bytes bytes | AvdOf bytes

definition option_arg :: "bytes \<Rightarrow> bytes" where
  "option_arg name = 0x2D # map (\<lambda>c. if c = 0x5F then 0x2D else c) name"

fun render :: "setting \<Rightarrow> bytes list" where
  "render (FlagOf n) = [option_arg n]"
| "render (ParamOf n v) = [option_arg n, v]"
| "render (ItemOf n v) = [option_arg n, v]"
| "render (AvdOf v) = [0x40 # v]"

definition typed_as :: "bytes \<Rightarrow> option_type \<Rightarrow> bool" where
  "typed_as n t \<longleftrightarrow> map_option var_type (List.find (\<lambda>oo. oi_name oo = n) option_keys) = Some t"

fun valid_setting :: "setting \<Rightarrow> bool" where
  "valid_setting (FlagOf n) = typed_as n OPTION_IS_FLAG"
| "valid_setting (ParamOf n v) = typed_as n OPTION_IS_PARAM"
| "valid_setting (ItemOf n v) = typed_as n OPTION_IS_LIST"
| "valid_setting (AvdOf v) = True"

fun apply_setting :: "setting \<Rightarrow> AndroidOptions \<Rightarrow> AndroidOptions" where
  "apply_setting (FlagOf n) opt = opt \<lparr>opt_flag := (opt_flag opt)(n := True)\<rparr>"
| "apply_setting (ParamOf n v) opt = opt \<lparr>opt_param := (opt_param opt)(n := Some v)\<rparr>"
| "apply_setting (ItemOf n v) opt = opt \<lparr>opt_list := (opt_list opt)(n := opt_list opt n @ [v])\<rparr>"
| "apply_setting (AvdOf v) opt = opt \<lparr>opt_param := (opt_param opt)(asc ''avd'' := Some v)\<rparr>"

text \<open>The names in the table: short, no dashes, none of the special options.\<close>

definition table_name :: "bytes \<Rightarrow> bool" where
  "table_name n \<longleftrightarrow> length n < 64 \<and> 0x2D \<notin> set n \<and> 0 \<notin> set n \<and> take 5 n \<noteq> asc ''debug'' \<and> n \<noteq> asc ''verbose''"

lemma option_names: "list_all (\<lambda>oo. table_name (oi_name oo)) option_keys"
  by code_simp

lemma list_options:
  "map oi_name (filter (\<lambda>oo. var_type oo = OPTION_IS_LIST) option_keys) =
     map asc [''prop'', ''virtualscene_poster'', ''unix_pipe'', ''feature'', ''usb_passthrough'', ''append_userspace_opt'']"
  by code_simp

lemma typed_name: "typed_as n t \<Longrightarrow> table_name n"
  using option_names by (auto simp: typed_as_def list_all_iff find_Some_iff)

lemma typed_as_table: "typed_as (asc n) t \<longleftrightarrow> map_option fst (map_of option_table n) = Some t"
proof -
  have "map_option var_type (List.find (\<lambda>oo. oi_name oo = asc n) (map (\<lambda>(n, t, c). \<lparr>oi_name = asc n, var_type = t, var_is_config = c\<rparr>) xs)) =
      map_option fst (map_of xs n)" for xs :: "(string \<times> option_type \<times> bool) list"
    by (induction xs) (auto simp: asc_eq_iff)
  then show ?thesis by (simp add: typed_as_def option_keys_def)
qed

lemma dashes_back: "map (\<lambda>c. if c = 0x5F then 0x2D else c) xs = ys \<Longrightarrow> 0x2D \<notin> set ys \<Longrightarrow> xs = ys" for ys :: bytes
  by (induction xs arbitrary: ys) (auto split: if_splits)

lemma option_arg_special:
  assumes "table_name n"
  shows "tl (option_arg n) \<noteq> asc ''verbose''" "tl (option_arg n) \<noteq> asc ''debug''" "take 6 (tl (option_arg n)) \<noteq> asc ''debug-''"
    "0x5F \<notin> set (tl (option_arg n))" "c_head (option_arg n) = 0x2D"
proof -
  let ?f = "\<lambda>c :: u8. if c = 0x5F then 0x2D else c"
  have d: "0x2D \<notin> set (asc ''debug'')" "0x2D \<notin> set (asc ''verbose'')" by (simp_all add: asc_def)
  show "tl (option_arg n) \<noteq> asc ''verbose''" using assms d(2) dashes_back [of n "asc ''verbose''"] by (auto simp: option_arg_def table_name_def)
  have t: "take 5 (map ?f n) \<noteq> asc ''debug''" using assms d(1) dashes_back [of "take 5 n" "asc ''debug''"] by (auto simp: table_name_def take_map)
  then show "tl (option_arg n) \<noteq> asc ''debug''" by (auto simp: option_arg_def asc_def)
  show "take 6 (tl (option_arg n)) \<noteq> asc ''debug-''"
  proof
    assume "take 6 (tl (option_arg n)) = asc ''debug-''"
    then have "take 5 (take 6 (map ?f n)) = take 5 (asc ''debug-'')" by (simp add: option_arg_def)
    moreover have "take 5 (asc ''debug-'') = asc ''debug''" by (simp add: asc_def)
    ultimately show False using t by (simp add: min_def)
  qed
qed (auto simp: option_arg_def c_head_def)

lemma option_arg_translated:
  assumes "table_name n"
  shows "buffer_translate_char 64 (tl (option_arg n)) 0x2D 0x5F = Some n"
proof -
  let ?f = "\<lambda>c :: u8. if c = 0x5F then 0x2D else c" and ?g = "\<lambda>c :: u8. if c = 0x2D then 0x5F else c"
  have n: "length n < 64" "0x2D \<notin> set n" "0 \<notin> set n" using assms by (auto simp: table_name_def)
  have u: "unat (of_nat (length n) :: u32) = length n" "\<not> (of_nat (length n) :: u32) \<ge> 64" using n(1) unat_of_nat_u32 [of "length n"] by (auto simp: word_le_nat_alt)
  have z: "0 \<notin> set (map ?f n)" "0 \<notin> set (map ?g (map ?f n))" using n(3) by auto
  have "map ?g (map ?f n) = n" using n(2) by (induction n) auto
  then show ?thesis
    using u n(1) z by (simp add: buffer_translate_char_def buffer_translate_char_with_len_def option_arg_def string_translate_char_def c_str_id)
qed

lemma parse_option:
  assumes "List.find (\<lambda>oo. oi_name oo = n) option_keys = Some oo"
  shows "parse_loop (option_arg n # aread) opt =
    (if var_type oo \<noteq> OPTION_IS_FLAG then (case aread of [] \<Rightarrow> Exits | v # aread1 \<Rightarrow> parse_loop aread1 (store_param oo v opt))
     else parse_loop aread (opt \<lparr>opt_flag := (opt_flag opt)(n := True)\<rparr>))"
proof -
  have n: "oi_name oo = n" "table_name n" using assms typed_name [of n "var_type oo"] by (auto simp: typed_as_def find_Some_iff)
  show ?thesis using option_arg_special [OF n(2)] option_arg_translated [OF n(2)] assms n(1)
    by (subst parse_loop.simps) (simp add: Let_def)
qed

lemma find_oi_name: "List.find (\<lambda>oo. oi_name oo = n) xs = Some oo \<Longrightarrow> oi_name oo = n \<and> oo \<in> set xs"
  by (auto simp: find_Some_iff)

text \<open>The settings as the loop stores them, with lists reversed.\<close>

fun store_setting :: "setting \<Rightarrow> AndroidOptions \<Rightarrow> AndroidOptions" where
  "store_setting (ItemOf n v) opt = opt \<lparr>opt_list := (opt_list opt)(n := v # opt_list opt n)\<rparr>"
| "store_setting x opt = apply_setting x opt"

lemma parse_settings:
  assumes "\<forall>x \<in> set xs. valid_setting x"
  shows "parse_loop (concat (map render xs) @ rest) opt = parse_loop rest (fold store_setting xs opt)"
  using assms
proof (induction xs arbitrary: opt)
  case (Cons x xs)
  have step: "parse_loop (render x @ more) opt = parse_loop more (store_setting x opt)" if "valid_setting x" for more
    using that
  proof (cases x)
    case (AvdOf v)
    then show ?thesis by (subst parse_loop.simps) (simp add: c_head_def)
  qed (auto simp: typed_as_def parse_option store_param_def dest: find_oi_name)
  then show ?case using Cons by simp
qed simp

lemma parse_stops: "rest = [] \<or> c_head (hd rest) \<notin> {0x40, 0x2D} \<Longrightarrow> parse_loop rest opt = Parsed rest opt"
  by (subst parse_loop.simps) (auto split: list.split)

lemma reverse_params_rev: "reverse_params xs ys = rev xs @ ys"
  by (induction xs arbitrary: ys) auto

lemma write_args_take:
  assumes "i + length rest < length argv"
  shows "take (Suc (i + length rest)) (write_args i rest argv) = take i argv @ map Some rest @ [None] \<and> length (write_args i rest argv) = length argv"
  using assms
proof (induction rest arbitrary: i argv)
  case Nil
  then show ?case by (simp add: take_Suc_conv_app_nth)
next
  case (Cons a rest)
  then show ?case using Cons.IH [of "Suc i" "argv[i := Some a]"] by (simp add: take_Suc_conv_app_nth)
qed

lemma fold_reverse:
  assumes "distinct (map oi_name (filter (\<lambda>oo. var_type oo = OPTION_IS_LIST) xs))"
  shows "fold (\<lambda>oo opt. if var_type oo = OPTION_IS_LIST
      then opt \<lparr>opt_list := (opt_list opt)(oi_name oo := reverse_params (opt_list opt (oi_name oo)) [])\<rparr> else opt) xs opt =
    opt \<lparr>opt_list := (\<lambda>n. if n \<in> set (map oi_name (filter (\<lambda>oo. var_type oo = OPTION_IS_LIST) xs)) then rev (opt_list opt n) else opt_list opt n)\<rparr>"
  using assms
proof (induction xs arbitrary: opt)
  case (Cons x xs)
  show ?case
  proof (cases "var_type x = OPTION_IS_LIST")
    case True
    let ?opt = "opt \<lparr>opt_list := (opt_list opt)(oi_name x := rev (opt_list opt (oi_name x)))\<rparr>"
    show ?thesis using Cons.IH [of ?opt] Cons.prems True by (auto simp: reverse_params_rev fun_eq_iff)
  qed (use Cons in simp)
qed simp

lemma reverse_lists_eq:
  "reverse_lists opt = opt \<lparr>opt_list := (\<lambda>n. if n \<in> set (map oi_name (filter (\<lambda>oo. var_type oo = OPTION_IS_LIST) option_keys))
     then rev (opt_list opt n) else opt_list opt n)\<rparr>"
proof -
  have "distinct (map oi_name (filter (\<lambda>oo. var_type oo = OPTION_IS_LIST) option_keys))"
    unfolding list_options by (simp add: asc_def)
  then show ?thesis unfolding reverse_lists_def by (rule fold_reverse)
qed

lemma reverse_none: "reverse_lists no_options = no_options"
  unfolding reverse_lists_eq by (simp add: no_options_def cong: if_cong)

lemma reverse_store: "valid_setting x \<Longrightarrow> reverse_lists (store_setting x opt) = apply_setting x (reverse_lists opt)"
  by (cases x) (auto simp: reverse_lists_eq typed_as_def fun_eq_iff dest!: find_oi_name)

lemma reverse_stored:
  assumes "\<forall>x \<in> set xs. valid_setting x"
  shows "reverse_lists (fold store_setting xs opt) = fold apply_setting xs (reverse_lists opt)"
  using assms by (induction xs arbitrary: opt) (simp_all add: reverse_store)

text \<open>
  C26: Any settings, written as options on a command line before arguments that are no options, are parsed to these settings, with lists in
  the order of the command line; the program's name and the other arguments are left, with a null pointer behind them.
\<close>

theorem settings_are_parsed:
  assumes "\<forall>x \<in> set xs. valid_setting x" and "rest = [] \<or> c_head (hd rest) \<notin> {0x40, 0x2D}"
  shows "\<exists>argv. android_parse_options (prog # concat (map render xs) @ rest) =
      Inr (Suc (length rest), argv, fold apply_setting xs no_options) \<and>
    take (length rest + 2) argv = map Some (prog # rest) @ [None]"
proof -
  let ?args = "concat (map render xs) @ rest"
  have "parse_loop ?args no_options = Parsed rest (fold store_setting xs no_options)"
    using parse_settings [OF assms(1), of rest no_options] parse_stops [OF assms(2)] by simp
  moreover have "reverse_lists (fold store_setting xs no_options) = fold apply_setting xs no_options"
    using reverse_stored [OF assms(1), of no_options] by (simp add: reverse_none)
  moreover have "take (Suc (1 + length rest)) (write_args 1 rest (map Some (prog # ?args) @ [None])) = map Some (prog # rest) @ [None]"
    using write_args_take [of 1 rest "map Some (prog # ?args) @ [None]"] by simp
  ultimately show ?thesis by (simp add: android_parse_options_def add.commute)
qed

lemma settings_are_parsed_witness:
  "\<exists>argv opt. android_parse_options (asc ''emulator'' # map asc [''-no-window'', ''@pixel'', ''-prop'', ''a=1'', ''-prop'', ''b=2'', ''-port'', ''5554'', ''qemu'']) =
      Inr (2, argv, opt) \<and> take 3 argv = [Some (asc ''emulator''), Some (asc ''qemu''), None] \<and>
    opt_list opt (asc ''prop'') = [asc ''a=1'', asc ''b=2''] \<and> opt_param opt (asc ''port'') = Some (asc ''5554'')"
proof -
  let ?xs = "[FlagOf (asc ''no_window''), AvdOf (asc ''pixel''), ItemOf (asc ''prop'') (asc ''a=1''), ItemOf (asc ''prop'') (asc ''b=2''),
      ParamOf (asc ''port'') (asc ''5554'')]"
  let ?opt = "fold apply_setting ?xs no_options"
  have "map_option fst (map_of option_table ''no_window'') = Some OPTION_IS_FLAG" "map_option fst (map_of option_table ''prop'') = Some OPTION_IS_LIST"
    "map_option fst (map_of option_table ''port'') = Some OPTION_IS_PARAM"
    by code_simp+
  then have v: "\<forall>x \<in> set ?xs. valid_setting x" by (simp add: typed_as_table)
  have h: "[asc ''qemu''] = [] \<or> c_head (hd [asc ''qemu'']) \<notin> {0x40, 0x2D}" by (simp add: c_head_def asc_def)
  have r: "concat (map render ?xs) @ [asc ''qemu''] =
      map asc [''-no-window'', ''@pixel'', ''-prop'', ''a=1'', ''-prop'', ''b=2'', ''-port'', ''5554'', ''qemu'']"
    by (simp add: asc_def option_arg_def)
  have o: "opt_list ?opt (asc ''prop'') = [asc ''a=1'', asc ''b=2'']" "opt_param ?opt (asc ''port'') = Some (asc ''5554'')"
    by (simp_all add: no_options_def)
  obtain argv where "android_parse_options (asc ''emulator'' # concat (map render ?xs) @ [asc ''qemu'']) = Inr (Suc (length [asc ''qemu'']), argv, ?opt)"
      "take (length [asc ''qemu''] + 2) argv = map Some (asc ''emulator'' # [asc ''qemu'']) @ [None]"
    using settings_are_parsed [OF v h] by blast
  then have "android_parse_options (asc ''emulator'' # map asc [''-no-window'', ''@pixel'', ''-prop'', ''a=1'', ''-prop'', ''b=2'', ''-port'', ''5554'', ''qemu'']) =
      Inr (2, argv, ?opt)" "take 3 argv = [Some (asc ''emulator''), Some (asc ''qemu''), None]"
    unfolding r by (simp_all add: numeral_3_eq_3)
  then show ?thesis using o by blast
qed

section \<open>Ports\<close>

lemma digit_value_10: "digit_value c < 10 \<longleftrightarrow> isdigit c"
  by (auto simp: digit_value_def isdigit_def word_le_nat_alt word_less_nat_alt unat_sub split: if_splits)

lemma digit_fold: "\<forall>d \<in> set ds. isdigit d \<Longrightarrow> foldl (\<lambda>n d. 10 * n + digit_value d) a ds = foldl (\<lambda>n d. 10 * n + unat (d - 0x30)) a ds"
  by (induction ds arbitrary: a) (simp_all add: digit_value_def)

text \<open>A number of base zero without leading zeros is decimal.\<close>

lemma strtol_0: "s \<noteq> [] \<Longrightarrow> isdigit (hd s) \<Longrightarrow> hd s \<noteq> 0x30 \<Longrightarrow> strtol 0 s = strtoll s"
proof -
  assume "s \<noteq> []" "isdigit (hd s)" "hd s \<noteq> 0x30"
  then obtain c r where s: "s = c # r" "isdigit c" "c \<noteq> 0x30" by (cases s) auto
  then have p: "\<not> isspace c" "c \<noteq> 0x2B" "c \<noteq> 0x2D" using digit_not_space [of c] by auto
  have b: "number_base 0 s = (10, s)" using s by (simp add: number_base_def hex_prefix_def)
  have t: "takeWhile (\<lambda>c. digit_value c < 10) s = takeWhile isdigit s" by (simp add: digit_value_10)
  have v: "foldl (\<lambda>n d. 10 * n + digit_value d) 0 (takeWhile isdigit s) = digits_value (takeWhile isdigit s)"
    unfolding digits_value_def by (rule digit_fold) (auto dest: set_takeWhileD)
  show "strtol 0 s = strtoll s" using s p b t v by (simp add: strtol_def strtoll_def Let_def dropWhile_eq_drop)
qed

lemma dec_digits_lead: "0 < n \<Longrightarrow> hd (dec_digits n) \<noteq> 0x30"
proof (induction n rule: dec_digits.induct)
  case (1 n)
  show ?case
  proof (cases "n < 10")
    case True
    then have "(0x30 + of_nat n :: u8) \<noteq> 0x30" using 1 by (metis add_cancel_right_right digit_value diff_add_cancel add_diff_cancel_left' unat_0 less_numeral_extra(3))
    then show ?thesis using True by (subst dec_digits.simps) simp
  next
    case False
    then show ?thesis using 1 by (subst dec_digits.simps) (simp add: hd_append)
  qed
qed

lemma strtol_dec_int:
  assumes "1 \<le> i" and "i < 2 ^ 63" and "rest = [] \<or> \<not> isdigit (hd rest)"
  shows "strtol 0 (dec_int i @ rest) = (i, rest, False)"
proof -
  have d: "dec_int i = dec_digits (nat i)" using assms(1) by (simp add: dec_int_def)
  then have "strtol 0 (dec_int i @ rest) = strtoll (dec_int i @ rest)"
    using dec_digits_hd [of "nat i"] dec_digits_lead [of "nat i"] assms(1) by (intro strtol_0) simp_all
  then show ?thesis using strtoll_dec_int [of i rest] assms by simp
qed

lemma c_int_id: "- (2 ^ 31) \<le> i \<Longrightarrow> i < 2 ^ 31 \<Longrightarrow> c_int i = i"
  by (simp add: c_int_def signed_of_int signed_take_bit_int_eq_self)

text \<open>
  Ports that are printed as decimal numbers are read back, one as the port of the console with the next one for adb, or two different
  ones; whatever is accepted are ports of the console from 1 to 65535.
\<close>

theorem ports_roundtrip:
  assumes "1 \<le> p" and "p \<le> UINT16_MAX" and "1 \<le> q" and "q \<le> UINT16_MAX" and "p \<noteq> q"
  shows "android_parse_port_option (Some (dec_int p)) = Some (p, p + 1) \<and> modem_simulator_parse_port_option (Some (dec_int p)) = Some p \<and>
    android_parse_ports_option (Some (dec_int p @ 0x2C # dec_int q)) = Some (p, q) \<and>
    (\<forall>s c a. android_parse_port_option s = Some (c, a) \<longrightarrow> 1 \<le> c \<and> c \<le> UINT16_MAX \<and> a = c + 1) \<and>
    (\<forall>s c a. android_parse_ports_option s = Some (c, a) \<longrightarrow> {c, a} \<subseteq> {1..UINT16_MAX} \<and> c \<noteq> a)"
proof -
  have i: "c_int p = p" "c_int q = q" using assms by (simp_all add: c_int_id UINT16_MAX_def)
  have p: "strtol 0 (dec_int p) = (p, [], False)" "strtol 0 (dec_int p @ 0x2C # dec_int q) = (p, 0x2C # dec_int q, False)"
    and q: "strtol 0 (dec_int q) = (q, [], False)"
    using strtol_dec_int [of p "[]"] strtol_dec_int [of p "0x2C # dec_int q"] strtol_dec_int [of q "[]"] assms
    by (simp_all add: UINT16_MAX_def isdigit_def)
  have "android_parse_port_option (Some (dec_int p)) = Some (p, p + 1)" "modem_simulator_parse_port_option (Some (dec_int p)) = Some p"
    using p(1) i(1) assms by (simp_all add: android_parse_port_option_def modem_simulator_parse_port_option_def Let_def)
  moreover have "android_parse_ports_option (Some (dec_int p @ 0x2C # dec_int q)) = Some (p, q)"
    using p(2) q i assms by (simp add: android_parse_ports_option_def c_head_def Let_def)
  moreover have "1 \<le> c \<and> c \<le> UINT16_MAX \<and> a = c + 1" if "android_parse_port_option s = Some (c, a)" for s c a
    using that by (auto simp: android_parse_port_option_def Let_def split: option.splits prod.splits if_splits)
  moreover have "{c, a} \<subseteq> {1..UINT16_MAX} \<and> c \<noteq> a" if "android_parse_ports_option s = Some (c, a)" for s c a
    using that by (auto simp: android_parse_ports_option_def Let_def split: option.splits prod.splits if_splits)
  ultimately show ?thesis by blast
qed

lemma ports_roundtrip_witness: "android_parse_ports_option (Some (dec_int 5554 @ 0x2C # dec_int 5555)) = Some (5554, 5555)"
  using ports_roundtrip [of 5554 5555] by (simp add: UINT16_MAX_def)

section \<open>Flaws\<close>

text \<open>A number that is too large for an \<^verbatim>\<open>int\<close> is cut to its low bits, and accepted as a port.\<close>

lemma large_port_is_cut:
  assumes "1 \<le> p" and "p \<le> UINT16_MAX"
  shows "android_parse_port_option (Some (dec_int (2 ^ 32 + p))) = Some (p, p + 1)"
proof -
  have "strtol 0 (dec_int (2 ^ 32 + p)) = (2 ^ 32 + p, [], False)" using strtol_dec_int [of "2 ^ 32 + p" "[]"] assms by (simp add: UINT16_MAX_def)
  moreover have "(word_of_int (2 ^ 32 + p) :: u32) = word_of_int p" by (rule word_of_int_eq_iff [THEN iffD2]) (simp add: take_bit_eq_mod)
  then have "c_int (2 ^ 32 + p) = c_int p" unfolding c_int_def by (simp only:)
  then have "c_int (2 ^ 32 + p) = p" using assms c_int_id [of p] by (simp add: UINT16_MAX_def)
  ultimately show ?thesis using assms by (simp add: android_parse_port_option_def Let_def)
qed

text \<open>The last port is accepted for the console, although there is no next one for adb.\<close>

lemma last_port_has_no_next: "android_parse_port_option (Some (dec_int 65535)) = Some (65535, 65536)"
  using strtol_dec_int [of 65535 "[]"] c_int_id [of 65535] by (simp add: android_parse_port_option_def UINT16_MAX_def Let_def)

text \<open>An option that is not in the table is no error: parsing ends there, and it is left to be passed on.\<close>

lemma unknown_option_is_left:
  "map_sum id (\<lambda>(n, argv, _). (n, take 3 argv)) (android_parse_options [asc ''emulator'', asc ''-foo'']) =
    Inr (2, [Some (asc ''emulator''), Some (asc ''-foo''), None])"
proof -
  have "map_of option_table ''foo'' = None" by code_simp
  then have "map_option var_type (List.find (\<lambda>oo. oi_name oo = asc ''foo'') option_keys) = None"
    using typed_as_table [of "''foo''"] by (cases "List.find (\<lambda>oo. oi_name oo = asc ''foo'') option_keys") (auto simp: typed_as_def)
  moreover have "asc ''-foo'' = option_arg (asc ''foo'')" "table_name (asc ''foo'')" by (simp_all add: asc_def option_arg_def table_name_def)
  ultimately have "parse_loop [asc ''-foo''] no_options = Parsed [asc ''-foo''] no_options"
    using option_arg_special [of "asc ''foo''"] option_arg_translated [of "asc ''foo''"] by (subst parse_loop.simps) (simp add: Let_def)
  then show ?thesis by (simp add: android_parse_options_def numeral_3_eq_3)
qed

end
