(* ===== verification/Sha1_Properties.thy ===== *)
theory Sha1_Properties
  imports Sha1
begin

text \<open>
  SHA-1 computes what the standard says: first for one block, where the words that are overwritten in place are the last sixteen
  words of the schedule and the roles of the working variables move round the five places; then for data in pieces, where the
  context holds the hash of the whole blocks, the number of bits and the rest; then for the padding.  From it follows what the
  identifiers are made of.
\<close>

unbundle bit_operations_syntax

section \<open>Words\<close>

lemma rol_eq_word_rotl: "0 < n \<Longrightarrow> n < 32 \<Longrightarrow> rol v n = word_rotl n v"
proof (rule bit_word_eqI)
  fix i assume "0 < n" "n < 32" "i < LENGTH(32)"
  then show "bit (rol v n) i = bit (word_rotl n v) i"
    by (cases "n \<le> i") (auto simp: rol_def bit_simps bit_word_rotl_iff mod_if add.commute [of i 32] dest: bit_imp_le_length)
qed

lemma choose_eq: "((w AND (x XOR y)) XOR y) = (w AND x) XOR (NOT w AND (y :: u32))"
  by (rule bit_word_eqI) (auto simp: bit_simps)

lemma majority_eq: "(((w OR x) AND y) OR (w AND x)) = (w AND x) XOR (w AND y) XOR (x AND (y :: u32))"
  by (rule bit_word_eqI) (auto simp: bit_simps)

lemma swap_masks: "0xFF00FF00 = push_bit 8 (mask 8) OR push_bit 24 (mask 8 :: u32)" "0x00FF00FF = mask 8 OR push_bit 16 (mask 8 :: u32)"
  by (simp_all add: mask_eq_exp_minus_1)

lemma swap_bytes: "(rol (of_le32 [b0, b1, b2, b3]) 24 AND 0xFF00FF00) OR (rol (of_le32 [b0, b1, b2, b3]) 8 AND 0x00FF00FF) = of_le32 [b3, b2, b1, b0]"
  unfolding swap_masks
proof (rule bit_word_eqI)
  fix i assume "i < LENGTH(32)"
  then show "bit ((rol (of_le32 [b0, b1, b2, b3]) 24 AND (push_bit 8 (mask 8) OR push_bit 24 (mask 8))) OR
     (rol (of_le32 [b0, b1, b2, b3]) 8 AND (mask 8 OR push_bit 16 (mask 8)))) i = bit (of_le32 [b3, b2, b1, b0]) i"
    by (cases "24 \<le> i"; cases "16 \<le> i"; cases "8 \<le> i") (auto simp: rol_def bit_simps dest: bit_imp_le_length)
qed

lemma big_endian_bytes: "[big_endian w 0, big_endian w 1, big_endian w 2, big_endian w 3] = be32_bytes w"
proof -
  have "(255 :: u32) = mask 8" by (simp add: mask_eq_exp_minus_1)
  have "ucast (x AND 255 :: u32) = (ucast x :: u8)" for x :: u32
    unfolding \<open>255 = mask 8\<close> by (auto intro!: bit_word_eqI simp: bit_simps)
  then show ?thesis by (simp add: big_endian_def be32_bytes_def)
qed

section \<open>One block\<close>

lemma length_extend [simp]: "length (extend n W) = length W + n"
  by (induction n arbitrary: W) auto

lemma nth_extend_old: "t < length W \<Longrightarrow> extend n W ! t = W ! t"
  by (induction n arbitrary: W) (auto simp: nth_append)

lemma nth_extend:
  assumes "16 \<le> length W" and "length W \<le> t" and "t < length W + n"
  shows "extend n W ! t = word_rotl 1 (extend n W ! (t - 3) XOR extend n W ! (t - 8) XOR extend n W ! (t - 14) XOR extend n W ! (t - 16))"
  using assms
proof (induction n arbitrary: W)
  case (Suc n)
  show ?case
  proof (cases "t = length W")
    case True
    then show ?thesis using Suc.prems by (simp add: nth_extend_old nth_append next_word_def Let_def)
  qed (use Suc in simp)
qed simp

lemma length_schedule [simp]: "length (schedule bs) = 80"
  by (simp add: schedule_def)

lemma nth_schedule:
  assumes "16 \<le> t" and "t < 80"
  shows "schedule bs ! t = word_rotl 1 (schedule bs ! (t - 3) XOR schedule bs ! (t - 8) XOR schedule bs ! (t - 14) XOR schedule bs ! (t - 16))"
  using assms unfolding schedule_def by (intro nth_extend) auto

text \<open>
  The words of the block before round \<open>t\<close>: the last sixteen words of the schedule up to \<open>t\<close>, each at its place, and behind them
  words that are still as they were loaded.
\<close>

definition words_ok :: "bool \<Rightarrow> u32 list \<Rightarrow> nat \<Rightarrow> u32 list \<Rightarrow> bool" where
  "words_ok be W t l \<longleftrightarrow> length l = 16 \<and> (\<forall>s < t. t \<le> s + 16 \<longrightarrow> l ! (s mod 16) = W ! s) \<and>
     (\<forall>s < 16. t \<le> s \<longrightarrow> blk0 be l s ! s = W ! s)"

definition round_block :: "bool \<Rightarrow> u32 list \<Rightarrow> nat \<Rightarrow> u32 list" where
  "round_block be l i = (if i < 16 then blk0 be l i else blk l i)"

lemma of_le32_swap:
  assumes "length bs = 4"
  shows "(rol (of_le32 bs) 24 AND 0xFF00FF00) OR (rol (of_le32 bs) 8 AND 0x00FF00FF) = of_le32 (rev bs)"
proof -
  obtain b0 b1 b2 b3 where "bs = [b0, b1, b2, b3]" using assms by (auto simp: numeral_eq_Suc length_Suc_conv)
  then show ?thesis by (simp only: swap_bytes rev.simps append.simps)
qed

lemma words_ok_init:
  assumes "64 \<le> length bs"
  shows "words_ok be (schedule bs) 0 (load_block be bs)"
  using assms
  by (auto simp: words_ok_def load_block_def blk0_def load32_def schedule_def nth_extend_old of_le32_swap)

lemma words_ok_step:
  assumes "words_ok be (schedule bs) i l" and "i < 80"
  shows "words_ok be (schedule bs) (Suc i) (round_block be l i) \<and> round_block be l i ! (i mod 16) = schedule bs ! i"
proof -
  have len: "length l = 16" and old: "\<And>s. s < i \<Longrightarrow> i \<le> s + 16 \<Longrightarrow> l ! (s mod 16) = schedule bs ! s"
    and new: "\<And>s. s < 16 \<Longrightarrow> i \<le> s \<Longrightarrow> blk0 be l s ! s = schedule bs ! s" using assms(1) by (auto simp: words_ok_def)
  have cur: "round_block be l i ! (i mod 16) = schedule bs ! i"
  proof (cases "i < 16")
    case True
    then show ?thesis using new [of i] by (simp add: round_block_def)
  next
    case False
    have m: "(i + 13) mod 16 = (i - 3) mod 16" "(i + 8) mod 16 = (i - 8) mod 16" "(i + 2) mod 16 = (i - 14) mod 16" "i mod 16 = (i - 16) mod 16"
    proof -
      have "i + 13 = i - 3 + 16" "i + 8 = i - 8 + 16" "i + 2 = i - 14 + 16" "i = i - 16 + 16" using False by simp_all
      then show "(i + 13) mod 16 = (i - 3) mod 16" "(i + 8) mod 16 = (i - 8) mod 16" "(i + 2) mod 16 = (i - 14) mod 16" "i mod 16 = (i - 16) mod 16"
        by (metis mod_add_self2)+
    qed
    have o: "l ! ((i - k) mod 16) = schedule bs ! (i - k)" if "0 < k" "k \<le> 16" for k using old [of "i - k"] False that by simp
    have w: "l ! ((i + 13) mod 16) = schedule bs ! (i - 3)" "l ! ((i + 8) mod 16) = schedule bs ! (i - 8)"
      "l ! ((i + 2) mod 16) = schedule bs ! (i - 14)" "l ! (i mod 16) = schedule bs ! (i - 16)"
      unfolding m by (rule o; simp)+
    have "blk l i ! (i mod 16) = schedule bs ! i"
      unfolding blk_def w using nth_schedule [of i bs] False assms(2) len rol_eq_word_rotl [of 1] by simp
    then show ?thesis using False by (simp add: round_block_def)
  qed
  have other: "round_block be l i ! k = l ! k" if "k \<noteq> i mod 16" for k
    using that by (auto simp: round_block_def blk0_def blk_def)
  have "round_block be l i ! (s mod 16) = schedule bs ! s" if s: "s < Suc i" "Suc i \<le> s + 16" for s
  proof (cases "s = i")
    case False
    have "s mod 16 \<noteq> i mod 16"
    proof
      assume "s mod 16 = i mod 16"
      then have "16 dvd i - s" using s mod_eq_dvd_iff_nat [of s i 16] by simp
      then show False using dvd_imp_le [of 16 "i - s"] s False by simp
    qed
    then show ?thesis using other old [of s] s False by simp
  qed (use cur in simp)
  moreover have "blk0 be (round_block be l i) s ! s = schedule bs ! s" if "s < 16" "Suc i \<le> s" for s
    using that new [of s] len by (auto simp: round_block_def blk0_def)
  ultimately show ?thesis using cur len by (auto simp: words_ok_def) (auto simp: round_block_def blk0_def blk_def)
qed

text \<open>The working variables before round \<open>t\<close>: the variable that plays role \<open>k\<close> is at place \<open>k - t\<close>, counted modulo 5.\<close>

definition role :: "nat \<Rightarrow> nat \<Rightarrow> nat" where
  "role t k = (k + 4 * t) mod 5"

definition vars_ok :: "nat \<Rightarrow> u32 list \<Rightarrow> chain \<Rightarrow> bool" where
  "vars_ok t vs = (\<lambda>(a, b, c, d, e). length vs = 5 \<and> vs ! role t 0 = a \<and> vs ! role t 1 = b \<and> vs ! role t 2 = c \<and>
     vs ! role t 3 = d \<and> vs ! role t 4 = e)"

definition round_call :: "bool \<Rightarrow> nat \<Rightarrow> working \<Rightarrow> working" where
  "round_call be t = (if t < 16 then R0 be else if t < 20 then R1 else if t < 40 then R2 else if t < 60 then R3 else R4)
     (role t 0) (role t 1) (role t 2) (role t 3) (role t 4) t"

lemma transform_rounds_eq: "transform_rounds be = map (round_call be) [0..<80]"
proof -
  have "[0..<80] = 0 # 1 # [2..<80]" by (simp add: upt_conv_Cons [of 0] upt_conv_Cons [of "Suc 0"] numeral_2_eq_2 [symmetric])
  then show ?thesis by (simp add: transform_rounds_def Let_def round_call_def role_def)
qed

lemma round_call_eq:
  assumes "t < 80"
  shows "round_call be t (vs, l) =
    (round_macro (sha1_f t) (sha1_K t) (role t 0) (role t 1) (role t 2) (role t 3) (role t 4) (round_block be l t ! (t mod 16)) vs,
     round_block be l t)"
  using assms
  by (auto simp: round_call_def R0_def R1_def R2_def R3_def R4_def Let_def round_block_def sha1_f_def sha1_K_def round_macro_def
      choose_eq majority_eq)

lemma role_cases:
  obtains "role t 0 = 0" "role t 1 = 1" "role t 2 = 2" "role t 3 = 3" "role t 4 = 4" "role (Suc t) 0 = 4"
  | "role t 0 = 1" "role t 1 = 2" "role t 2 = 3" "role t 3 = 4" "role t 4 = 0" "role (Suc t) 0 = 0"
  | "role t 0 = 2" "role t 1 = 3" "role t 2 = 4" "role t 3 = 0" "role t 4 = 1" "role (Suc t) 0 = 1"
  | "role t 0 = 3" "role t 1 = 4" "role t 2 = 0" "role t 3 = 1" "role t 4 = 2" "role (Suc t) 0 = 2"
  | "role t 0 = 4" "role t 1 = 0" "role t 2 = 1" "role t 3 = 2" "role t 4 = 3" "role (Suc t) 0 = 3"
proof -
  define r where "r = 4 * t mod 5"
  have r: "role t k = (k + r) mod 5" "role (Suc t) 0 = (4 + r) mod 5" for k by (simp_all add: role_def r_def mod_add_right_eq)
  have "r < 5" by (simp add: r_def)
  then consider "r = 0" | "r = 1" | "r = 2" | "r = 3" | "r = 4" by linarith
  then show thesis by cases (use that in \<open>simp_all add: r\<close>)
qed

lemma role_Suc: "role (Suc t) (Suc k) = role t k"
proof -
  have "Suc k + 4 * Suc t = k + 4 * t + 5" by simp
  then show ?thesis unfolding role_def by (simp only: mod_add_self2)
qed

lemma vars_ok_step:
  assumes "vars_ok t vs ch"
  shows "vars_ok (Suc t) (round_macro (sha1_f t) (sha1_K t) (role t 0) (role t 1) (role t 2) (role t 3) (role t 4) (W ! t) vs) (sha1_round W t ch)"
proof -
  obtain a b c d e where ch: "ch = (a, b, c, d, e)" by (cases ch)
  have next_roles: "role (Suc t) 1 = role t 0" "role (Suc t) 2 = role t 1" "role (Suc t) 3 = role t 2" "role (Suc t) 4 = role t 3"
    using role_Suc [of t 0] role_Suc [of t 1] role_Suc [of t 2] role_Suc [of t 3] by (simp_all add: numeral_eq_Suc)
  show ?thesis
    by (cases rule: role_cases [of t])
      (use assms in \<open>auto simp: ch vars_ok_def sha1_round_def round_macro_def Let_def next_roles role_Suc [of t 0] rol_eq_word_rotl algebra_simps\<close>)
qed

lemma rounds_ok:
  assumes "64 \<le> length bs" and "vars_ok 0 vs ch" and "n \<le> 80"
  shows "\<exists>vs' l'. fold (\<lambda>r. r) (map (round_call be) [0..<n]) (vs, load_block be bs) = (vs', l') \<and>
    vars_ok n vs' (fold (sha1_round (schedule bs)) [0..<n] ch) \<and> words_ok be (schedule bs) n l'"
  using assms(3)
proof (induction n)
  case 0
  then show ?case using assms(1,2) by (simp add: words_ok_init)
next
  case (Suc n)
  from Suc.IH [OF Suc_leD [OF Suc.prems]] obtain vs' l' where "fold (\<lambda>r. r) (map (round_call be) [0..<n]) (vs, load_block be bs) = (vs', l')"
    "vars_ok n vs' (fold (sha1_round (schedule bs)) [0..<n] ch)" "words_ok be (schedule bs) n l'" by blast
  then show ?case using Suc.prems words_ok_step [of be bs n l'] vars_ok_step [of n vs' _ "schedule bs"]
    by (simp add: round_call_eq)
qed

text \<open>A state of the code as the value of the standard.\<close>

fun chain_list :: "chain \<Rightarrow> u32 list" where
  "chain_list (a, b, c, d, e) = [a, b, c, d, e]"

lemma transform_compresses:
  assumes "64 \<le> length bs"
  shows "SHA1Transform be (chain_list h) bs = Some (chain_list (compress h bs))"
proof -
  obtain h0 h1 h2 h3 h4 where h: "h = (h0, h1, h2, h3, h4)" by (cases h)
  have "vars_ok 0 (chain_list h) h" by (simp add: h vars_ok_def role_def)
  from rounds_ok [OF assms this order_refl, of be] obtain vs' l' where
    r: "fold (\<lambda>r. r) (transform_rounds be) (chain_list h, load_block be bs) = (vs', l')"
      "vars_ok 80 vs' (fold (sha1_round (schedule bs)) [0..<80] h)" by (auto simp: transform_rounds_eq)
  obtain a b c d e where "fold (sha1_round (schedule bs)) [0..<80] h = (a, b, c, d, e)" by (rule prod_cases5)
  then show ?thesis using r assms by (auto simp: SHA1Transform_def compress_def h vars_ok_def role_def)
qed

section \<open>Data in pieces\<close>

abbreviation whole :: "bytes \<Rightarrow> nat" where
  "whole m \<equiv> 64 * (length m div 64)"

lemma hash_blocks_append:
  assumes "64 dvd length x"
  shows "hash_blocks h (x @ y) = hash_blocks (hash_blocks h x) y"
  using assms
proof (induction h x rule: hash_blocks.induct)
  case (1 h x)
  show ?case
  proof (cases "length x < 64")
    case True
    then have "x = []" using 1(2) by (metis dvd_imp_le length_greater_0_conv linorder_not_less)
    then show ?thesis by (simp add: hash_blocks.simps [of h "[]"])
  next
    case False
    have "64 dvd length (drop 64 x)" using 1(2) False by (simp add: dvd_diff_nat)
    from 1(1) [OF False this] show ?thesis using False by (simp add: hash_blocks.simps [of h x] hash_blocks.simps [of h "x @ y"])
  qed
qed

lemma hash_blocks_short: "length y < 64 \<Longrightarrow> hash_blocks h y = h"
  by (simp add: hash_blocks.simps)

lemma hash_blocks_one: "length y = 64 \<Longrightarrow> hash_blocks h y = compress h y"
  by (simp add: hash_blocks.simps [of h y] hash_blocks_short)

lemma hash_blocks_rest: "hash_blocks h (m @ y) = hash_blocks (hash_blocks h m) (drop (whole m) m @ y)"
proof -
  let ?x = "take (whole m) m" and ?r = "drop (whole m) m"
  have l: "64 dvd length ?x" by (simp add: min_absorb2)
  have "length ?r < 64" by (simp add: minus_div_mult_eq_mod mult.commute modulo_nat_def [symmetric])
  then have "hash_blocks h m = hash_blocks h ?x" using hash_blocks_append [OF l, of h ?r] by (simp add: hash_blocks_short)
  then show ?thesis using hash_blocks_append [OF l, of h "?r @ y"] by (metis append.assoc append_take_drop_id)
qed

definition sha_holds :: "SHA1_CTX \<Rightarrow> bytes \<Rightarrow> bool" where
  "sha_holds ctx m \<longleftrightarrow> sha_state ctx = chain_list (hash_blocks sha1_H0 m) \<and>
     sha_count ctx = [of_nat (8 * length m), of_nat (8 * length m div 2 ^ 32)] \<and> length (sha_buffer ctx) = 64 \<and>
     take (length m mod 64) (sha_buffer ctx) = drop (whole m) m"

lemma init_holds: "length (sha_buffer ctx) = 64 \<Longrightarrow> sha_holds (SHA1Init ctx) []"
  by (simp add: sha_holds_def SHA1Init_def hash_blocks_short sha1_H0_def)

text \<open>The counter of bits.\<close>

lemma unat_of_nat_mod: "unat (of_nat n :: u32) = n mod 2 ^ 32"
  by (simp add: unsigned_of_nat take_bit_eq_mod)

lemma offset_in_block: "drop_bit 3 (of_nat (8 * n) :: u32) AND 63 = of_nat (n mod 64)"
proof -
  have m: "(63 :: u32) = mask 6" by (simp add: mask_eq_exp_minus_1)
  have "unat (drop_bit 3 x AND 63) = unat x div 8 mod 64" for x :: u32
    unfolding m and take_bit_eq_mask [symmetric] by (simp add: unsigned_take_bit_eq unsigned_drop_bit_eq take_bit_eq_mod drop_bit_eq_div unat_div unat_mod)
  then have "unat (drop_bit 3 (of_nat (8 * n) :: u32) AND 63) = (8 * n mod (8 * 2 ^ 29)) div 8 mod 64"
    by (simp only: unat_of_nat_mod) simp
  also have "\<dots> = n mod 64" unfolding mult_mod_right [symmetric] by (simp add: mod_mod_cancel)
  finally show ?thesis by (metis of_nat_unat ucast_id)
qed

lemma carry_iff: "(of_nat a + of_nat b :: u32) < of_nat a \<longleftrightarrow> (a mod 2 ^ 32 + b) mod 2 ^ 32 < a mod 2 ^ 32"
  by (simp add: word_less_nat_alt unat_word_ariths unat_of_nat_mod mod_simps)

lemma counter_high:
  assumes "L < 2 ^ 29"
  shows "of_nat (8 * (n + L) div 2 ^ 32) =
    (if (of_nat (8 * n) + of_nat (8 * L) :: u32) < of_nat (8 * n) then of_nat (8 * n div 2 ^ 32) + 1 else (of_nat (8 * n div 2 ^ 32) :: u32))"
proof -
  let ?u = "8 * n mod 2 ^ 32"
  have u: "?u < 2 ^ 32" by simp
  have L: "8 * L < 2 ^ 32" using assms by simp
  have "8 * (n + L) div 2 ^ 32 = 8 * n div 2 ^ 32 + (?u + 8 * L) div 2 ^ 32"
    using div_add1_eq [of "8 * n" "8 * L" "2 ^ 32"] L by simp
  moreover have "(?u + 8 * L) div 2 ^ 32 = (if (?u + 8 * L) mod 2 ^ 32 < ?u then 1 else 0)"
    using u L by (cases "?u + 8 * L < 2 ^ 32") (auto simp: le_mod_geq le_div_geq)
  ultimately show ?thesis unfolding carry_iff by simp
qed

lemma compress_take: "compress h (take 64 bs) = compress h bs"
proof -
  have "schedule (take 64 bs) = schedule bs"
    unfolding schedule_def by (intro arg_cong [where f = "extend 64"] map_cong refl) (auto simp: drop_take take_take min_def)
  then show ?thesis by (simp add: compress_def)
qed

lemma transform_loop_blocks:
  assumes "length d < 2 ^ 29" and "k \<le> length d"
  shows "transform_loop be (chain_list h) d (of_nat (length d)) (of_nat k) =
    Some (chain_list (hash_blocks h (drop k d)), of_nat (k + whole (drop k d)))"
  using assms(2)
proof (induction "length d - k" arbitrary: k h rule: less_induct)
  case less
  have w: "unat (of_nat k :: u32) = k" "unat (of_nat (length d) :: u32) = length d" using assms(1) less.prems by (simp_all add: unat_of_nat_u32)
  have "unat (of_nat k + 63 :: u32) = k + 63" using assms(1) less.prems unat_of_nat_u32 [of "k + 63"] by simp
  then have c: "of_nat k + 63 < (of_nat (length d) :: u32) \<longleftrightarrow> k + 64 \<le> length d" by (auto simp: word_less_nat_alt w)
  show ?case
  proof (cases "k + 64 \<le> length d")
    case True
    let ?r = "drop k d"
    have "hash_blocks h ?r = hash_blocks (compress h ?r) (drop (k + 64) d)"
      using True by (subst hash_blocks.simps) (auto simp: compress_take add.commute)
    moreover have "k + whole ?r = k + 64 + whole (drop (k + 64) d)" using True le_div_geq [of 64 "length d - k"] by simp
    moreover have "transform_loop be (chain_list h) d (of_nat (length d)) (of_nat k) =
       transform_loop be (chain_list (compress h ?r)) d (of_nat (length d)) (of_nat (k + 64))"
      using True c by (subst transform_loop.simps) (simp add: w transform_compresses)
    ultimately show ?thesis using True less.hyps [of "k + 64" "compress h ?r"] by simp
  next
    case False
    then show ?thesis using c by (subst transform_loop.simps) (simp add: hash_blocks_short)
  qed
qed

text \<open>Pieces that fit into the buffer, and pieces that fill it.\<close>

lemma buffered:
  assumes "take (length m mod 64) buf = drop (whole m) m" and "length m mod 64 + length d < 64" and "length buf = 64"
  shows "\<exists>buf'. copy_to buf (length m mod 64) d (length d) = Some buf' \<and> length buf' = 64 \<and> hash_blocks h (m @ d) = hash_blocks h m \<and>
    take (length (m @ d) mod 64) buf' = drop (whole (m @ d)) (m @ d)"
proof -
  have n: "length (m @ d) mod 64 = length m mod 64 + length d" using assms(2) by (metis length_append mod_add_left_eq mod_less)
  have "length (m @ d) = whole m + (length m mod 64 + length d)" by simp
  then have w: "whole (m @ d) = whole m" using assms(2) by (metis div_less div_mult_self4 add.right_neutral zero_neq_numeral)
  have "whole m \<le> length m" by simp
  then have "drop (whole m) (m @ d) = take (length m mod 64) buf @ d" using assms(1) by simp
  moreover have "hash_blocks h (m @ d) = hash_blocks h m"
  proof -
    have "length (drop (whole m) m @ d) < 64" using assms(2) by (simp add: minus_mult_div_eq_mod)
    then show ?thesis unfolding hash_blocks_rest [of h m d] by (rule hash_blocks_short)
  qed
  ultimately show ?thesis using assms n w by (simp add: copy_to_def minus_mult_div_eq_mod)
qed

lemma filled:
  assumes "take (length m mod 64) buf = drop (whole m) m" and "64 - length m mod 64 \<le> length d" and "length buf = 64"
  shows "\<exists>buf'. copy_to buf (length m mod 64) d (64 - length m mod 64) = Some buf' \<and> length buf' = 64 \<and>
    compress (hash_blocks h m) buf' = hash_blocks h (m @ take (64 - length m mod 64) d)"
proof -
  let ?r = "length m mod 64"
  let ?b = "take ?r buf @ take (64 - ?r) d"
  have r: "?r < 64" by simp
  then have "copy_to buf ?r d (64 - ?r) = Some ?b" "length ?b = 64" using assms by (simp_all add: copy_to_def)
  moreover have "compress (hash_blocks h m) ?b = hash_blocks h (m @ take (64 - ?r) d)"
    using hash_blocks_rest [of h m "take (64 - ?r) d"] assms(1) \<open>length ?b = 64\<close> by (simp only: hash_blocks_one)
  ultimately show ?thesis by blast
qed

lemma copy_front: "length src = n \<Longrightarrow> n \<le> length buf \<Longrightarrow> copy_to buf 0 src n = Some (src @ drop n buf)"
  by (simp add: copy_to_def)

lemma rest_after:
  assumes "64 dvd length p"
  shows "length (p @ q) mod 64 = length q mod 64" and "drop (whole (p @ q)) (p @ q) = drop (whole q) q"
proof -
  obtain k where k: "length p = 64 * k" using assms by blast
  then have "whole (p @ q) = length p + whole q" by (simp add: div_add1_eq)
  then show "drop (whole (p @ q)) (p @ q) = drop (whole q) q" by simp
  show "length (p @ q) mod 64 = length q mod 64" using k by simp
qed

lemma holds_upd:
  assumes "st = chain_list (hash_blocks sha1_H0 m)" and "cs = [of_nat (8 * length m), of_nat (8 * length m div 2 ^ 32)]" and "length b = 64"
    and "take (length m mod 64) b = drop (whole m) m"
  shows "sha_holds (ctx\<lparr>sha_count := cs, sha_state := st, sha_buffer := b\<rparr>) m"
  using assms by (simp add: sha_holds_def)

lemma update_filled:
  assumes "drop_bit 3 (sha_count ctx ! 0) AND 63 = j" and "63 < j + len"
    and "copy_to (sha_buffer ctx) (unat j) d (unat (64 - j)) = Some buf1" and "SHA1Transform be (sha_state ctx) buf1 = Some st1"
    and "transform_loop be st1 d len (64 - j) = Some (st2, i)" and "copy_to buf1 0 (drop (unat i) d) (unat (len - i)) = Some buf2"
  shows "SHA1Update be ctx d len = Some (ctx\<lparr>sha_count := [sha_count ctx ! 0 + push_bit 3 len,
      if sha_count ctx ! 0 + push_bit 3 len < sha_count ctx ! 0 then sha_count ctx ! 1 + (drop_bit 29 len + 1) else sha_count ctx ! 1],
      sha_state := st2, sha_buffer := buf2\<rparr>)"
  using assms by (simp add: SHA1Update_def Let_def)

lemma update_buffered:
  assumes "drop_bit 3 (sha_count ctx ! 0) AND 63 = j" and "\<not> 63 < j + len"
    and "copy_to (sha_buffer ctx) (unat j) d (unat len) = Some buf1"
  shows "SHA1Update be ctx d len = Some (ctx\<lparr>sha_count := [sha_count ctx ! 0 + push_bit 3 len,
      if sha_count ctx ! 0 + push_bit 3 len < sha_count ctx ! 0 then sha_count ctx ! 1 + (drop_bit 29 len + 1) else sha_count ctx ! 1],
      sha_buffer := buf1\<rparr>)"
  using assms by (simp add: SHA1Update_def Let_def)

lemma update_holds:
  assumes "sha_holds ctx m" and "length d < 2 ^ 29"
  shows "\<exists>ctx'. SHA1Update be ctx d (of_nat (length d)) = Some ctx' \<and> sha_holds ctx' (m @ d)"
proof -
  let ?r = "length m mod 64" and ?L = "of_nat (length d) :: u32"
  let ?cs = "[of_nat (8 * length (m @ d)), of_nat (8 * length (m @ d) div 2 ^ 32)] :: u32 list"
  have st: "sha_state ctx = chain_list (hash_blocks sha1_H0 m)" and cnt: "sha_count ctx = [of_nat (8 * length m), of_nat (8 * length m div 2 ^ 32)]"
    and buf: "take ?r (sha_buffer ctx) = drop (whole m) m" "length (sha_buffer ctx) = 64" using assms(1) by (auto simp: sha_holds_def)
  have L: "unat ?L = length d" and sh: "push_bit 3 ?L = of_nat (8 * length d)" and z: "drop_bit 29 ?L = 0"
    using assms(2) by (simp_all add: unat_of_nat_u32 push_bit_eq_mult drop_bit_eq_div word_arith_nat_div)
  have r: "?r < 64" "unat (of_nat ?r :: u32) = ?r" by (simp_all add: unat_of_nat_u32)
  have "unat (of_nat ?r + ?L) = ?r + length d" using assms(2) r unat_of_nat_u32 [of "?r + length d"] by simp
  then have c: "63 < of_nat ?r + ?L \<longleftrightarrow> 64 \<le> ?r + length d" by (auto simp: word_less_nat_alt)
  have counts: "[sha_count ctx ! 0 + push_bit 3 ?L,
      if sha_count ctx ! 0 + push_bit 3 ?L < sha_count ctx ! 0 then sha_count ctx ! 1 + (drop_bit 29 ?L + 1) else sha_count ctx ! 1] = ?cs"
    unfolding sh z cnt using counter_high [OF assms(2), of "length m"] by simp
  have off: "drop_bit 3 (sha_count ctx ! 0) AND 63 = of_nat ?r" using offset_in_block [of "length m"] by (simp add: cnt)
  show ?thesis
  proof (cases "64 \<le> ?r + length d")
    case False
    then obtain buf' where "copy_to (sha_buffer ctx) ?r d (length d) = Some buf'" "length buf' = 64"
      "hash_blocks sha1_H0 (m @ d) = hash_blocks sha1_H0 m" "take (length (m @ d) mod 64) buf' = drop (whole (m @ d)) (m @ d)"
      using buffered [OF buf(1) _ buf(2), of d sha1_H0] by fastforce
    then show ?thesis using False c update_buffered [OF off, of ?L d buf' be, unfolded counts] st
      by (simp only: r L sha_holds_def) simp
  next
    case True
    let ?k = "64 - ?r"
    let ?q = "drop ?k d"
    have k: "64 - of_nat ?r = (of_nat ?k :: u32)" "unat (of_nat ?k :: u32) = ?k"
      by (simp add: of_nat_diff less_imp_le) (rule unat_of_nat_u32, simp)
    obtain buf' where b: "copy_to (sha_buffer ctx) ?r d ?k = Some buf'" "length buf' = 64"
      "compress (hash_blocks sha1_H0 m) buf' = hash_blocks sha1_H0 (m @ take ?k d)"
      using filled [OF buf(1) _ buf(2), of d sha1_H0] True by fastforce
    let ?i = "?k + whole ?q" and ?n = "length ?q mod 64"
    have dv: "64 dvd length (m @ take ?k d)"
    proof -
      have "length (m @ take ?k d) = length m + (64 - ?r)" using True by simp
      also have "\<dots> = whole m + 64" using mult_div_mod_eq [of 64 "length m"] r(1) by linarith
      finally have "length (m @ take ?k d) = whole m + 64" .
      then show ?thesis by (metis dvd_add dvd_refl dvd_triv_left)
    qed
    have q: "whole ?q + ?n = length ?q" "length ?q + ?k = length d" using True r(1) by simp_all
    then have i: "?i \<le> length d" "length d - ?i = ?n" by linarith+
    then have u: "unat (of_nat ?i :: u32) = ?i" using assms(2) by (intro unat_of_nat_u32 le_less_trans [OF i(1)]) simp
    have n64: "?n \<le> 64" by (simp only: mod_less_divisor less_imp_le zero_less_numeral)
    have len: "unat (?L - of_nat ?i) = ?n"
      using i u unat_sub [of "of_nat ?i" ?L] L by (simp only: word_le_nat_alt)
    let ?st = "chain_list (hash_blocks sha1_H0 (m @ d))" and ?buf2 = "drop ?i d @ drop ?n buf'"
    have tr: "SHA1Transform be (chain_list (hash_blocks sha1_H0 m)) buf' = Some (chain_list (hash_blocks sha1_H0 (m @ take ?k d)))"
      using b by (simp add: transform_compresses)
    have lp: "transform_loop be (chain_list (hash_blocks sha1_H0 (m @ take ?k d))) d ?L (of_nat ?k) = Some (?st, of_nat ?i)"
      using transform_loop_blocks [OF assms(2), of ?k be "hash_blocks sha1_H0 (m @ take ?k d)"] True hash_blocks_append [OF dv, of sha1_H0 ?q] by simp
    have cp: "copy_to buf' 0 (drop (unat (of_nat ?i :: u32)) d) (unat (?L - of_nat ?i)) = Some ?buf2"
      unfolding u len by (rule copy_front) (use b(2) i(2) n64 in \<open>simp_all only: length_drop\<close>)
    have "SHA1Update be ctx d ?L = Some (ctx\<lparr>sha_count := ?cs, sha_state := ?st, sha_buffer := ?buf2\<rparr>)"
      by (rule update_filled [OF off, where len = ?L, unfolded counts]) (use True c tr lp cp b(1) in \<open>simp_all only: k r(2) st\<close>)
    moreover have "take (length (m @ d) mod 64) ?buf2 = drop (whole (m @ d)) (m @ d)"
    proof -
      have "m @ d = (m @ take ?k d) @ ?q" by simp
      then have "length (m @ d) mod 64 = ?n" "drop (whole (m @ d)) (m @ d) = drop (whole ?q) ?q" using rest_after [OF dv, of ?q] by (simp_all only:)
      moreover have "drop (whole ?q) ?q = drop ?i d" by (simp only: drop_drop add.commute)
      ultimately show ?thesis using i(2) by (simp only: take_append length_drop take_all_iff diff_self_eq_0 take_0 append_Nil2 order_refl)
    qed
    moreover have "length ?buf2 = 64" using b(2) i(2) n64 by (simp only: length_append length_drop le_add_diff_inverse)
    ultimately show ?thesis using holds_upd [OF refl refl] by blast
  qed
qed

section \<open>Padding\<close>

definition pad_zeros :: "nat \<Rightarrow> nat" where
  "pad_zeros n = (120 - n mod 64) mod 64"

lemma pad_zeros_eq:
  assumes "n mod 64 = r"
  shows "pad_zeros n = (if r \<le> 56 then 56 - r else 120 - r)"
proof (cases "r \<le> 56")
  case True
  then have "120 - r = 56 - r + 64" by simp
  then show ?thesis using True by (simp only: pad_zeros_def assms mod_add_self2) simp
next
  case False
  then show ?thesis by (simp add: pad_zeros_def assms)
qed

lemma pad_zeros_0: "pad_zeros n = 0 \<longleftrightarrow> n mod 64 = 56"
proof -
  obtain r where r: "n mod 64 = r" by blast
  then have "r < 64" by (metis mod_less_divisor zero_less_numeral)
  then show ?thesis unfolding pad_zeros_eq [OF r] r by auto
qed

lemma pad_zeros_Suc: "n mod 64 \<noteq> 56 \<Longrightarrow> pad_zeros n = Suc (pad_zeros (Suc n))"
proof -
  obtain r where r: "n mod 64 = r" by blast
  then have lt: "r < 64" by (metis mod_less_divisor zero_less_numeral)
  have "Suc n mod 64 = (if r = 63 then 0 else Suc r)" using r by (auto simp: mod_Suc)
  from pad_zeros_eq [OF this] show "n mod 64 \<noteq> 56 \<Longrightarrow> pad_zeros n = Suc (pad_zeros (Suc n))"
    unfolding pad_zeros_eq [OF r] r using lt by auto
qed

lemma block_position: "of_nat (8 * n) AND 504 = (448 :: u32) \<longleftrightarrow> n mod 64 = 56"
proof -
  have m: "(504 :: u32) = push_bit 3 (mask 6)" "(63 :: u32) = mask 6" by (simp_all add: mask_eq_exp_minus_1)
  have "x AND 504 = push_bit 3 (drop_bit 3 x AND 63)" for x :: u32
    unfolding m by (auto intro!: bit_word_eqI simp: bit_simps)
  then have "of_nat (8 * n) AND 504 = (of_nat (8 * (n mod 64)) :: u32)" by (simp only: offset_in_block) (simp add: push_bit_eq_mult)
  moreover have "unat (of_nat (8 * (n mod 64)) :: u32) = 8 * (n mod 64)" by (rule unat_of_nat_u32) (use mod_less_divisor [of 64 n] in simp)
  ultimately show ?thesis by (simp only: word_unat_eq_iff) simp
qed

lemma pad_loop_holds:
  assumes "sha_holds ctx m"
  shows "\<exists>ctx'. pad_loop be ctx = Some ctx' \<and> sha_holds ctx' (m @ replicate (pad_zeros (length m)) 0)"
  using assms
proof (induction "pad_zeros (length m)" arbitrary: ctx m)
  case 0
  then have "length m mod 64 = 56" by (simp flip: pad_zeros_0)
  then have "sha_count ctx ! 0 AND 504 = 448" using block_position [of "length m"] 0 by (simp add: sha_holds_def)
  then show ?case using 0 by (subst pad_loop.simps) (simp flip: 0(1))
next
  case (Suc z)
  have n: "length m mod 64 \<noteq> 56" using Suc.hyps(2) pad_zeros_0 [of "length m"] by simp
  then have cond: "sha_count ctx ! 0 AND 504 \<noteq> 448" using block_position [of "length m"] Suc.prems by (simp add: sha_holds_def)
  obtain ctx1 where c1: "SHA1Update be ctx [0] 1 = Some ctx1" "sha_holds ctx1 (m @ [0])" using update_holds [OF Suc.prems, of "[0]" be] by auto
  have "z = pad_zeros (length (m @ [0]))" using Suc.hyps(2) pad_zeros_Suc [OF n] by simp
  from Suc.hyps(1) [OF this c1(2)] this Suc.hyps(2) show ?case by (subst pad_loop.simps) (simp add: cond c1(1) flip: Suc.hyps(2))
qed

lemma final_count:
  "map (\<lambda>i. big_endian ([of_nat (8 * n), of_nat (8 * n div 2 ^ 32)] ! (if i \<ge> 4 then 0 else 1)) i) [0..<8] = be64_bytes (of_nat (8 * n))"
proof -
  have "[0..<8] = [0, 1, 2, 3, 4, 5, 6, 7 :: nat]" by (simp add: upt_rec numeral_eq_Suc)
  moreover have "big_endian w 4 = big_endian w 0" "big_endian w 5 = big_endian w 1" "big_endian w 6 = big_endian w 2"
    "big_endian w 7 = big_endian w 3" for w by (simp_all add: big_endian_def)
  moreover have "ucast (drop_bit 32 (of_nat k :: u64)) = (of_nat (k div 2 ^ 32) :: u32)" "ucast (of_nat k :: u64) = (of_nat k :: u32)" for k
    unfolding drop_bit_eq_div [symmetric] by (auto intro!: bit_word_eqI simp: bit_simps)
  ultimately show ?thesis by (simp only: list.map be64_bytes_def flip: big_endian_bytes) simp
qed

lemma pad_eq: "pad m = (m @ [0x80]) @ replicate (pad_zeros (length (m @ [0x80]))) 0 @ be64_bytes (of_nat (8 * length m))"
proof -
  obtain r where r: "length m mod 64 = r" by blast
  then have lt: "r < 64" by (metis mod_less_divisor zero_less_numeral)
  have "Suc (length m) mod 64 = (if r = 63 then 0 else Suc r)" using r by (auto simp: mod_Suc)
  from pad_zeros_eq [OF this] have "pad_zeros (Suc (length m)) = (if r \<le> 55 then 55 - r else 119 - r)" using lt by auto
  moreover have "(119 - r) mod 64 = (if r \<le> 55 then 55 - r else 119 - r)"
  proof (cases "r \<le> 55")
    case True
    then have "119 - r = 55 - r + 64" by simp
    then show ?thesis using True by (simp only: mod_add_self2) simp
  qed simp
  ultimately show ?thesis by (simp add: pad_def r)
qed

lemma digest_bytes: "map (\<lambda>i. big_endian ([h0, h1, h2, h3, h4] ! (i div 4)) i) [0..<20] = concat (map be32_bytes [h0, h1, h2, h3, h4])"
proof -
  have "[0..<20] = 0 # 1 # [2..<20]" by (simp add: upt_conv_Cons [of 0] upt_conv_Cons [of "Suc 0"] numeral_2_eq_2 [symmetric])
  moreover have "big_endian w i = big_endian w (i mod 4)" for w i by (simp add: big_endian_def)
  note this [of _ "4"] this [of _ "5"] this [of _ "6"] this [of _ "7"] this [of _ "8"] this [of _ "9"] this [of _ "10"] this [of _ "11"]
    this [of _ "12"] this [of _ "13"] this [of _ "14"] this [of _ "15"] this [of _ "16"] this [of _ "17"] this [of _ "18"] this [of _ "19"]
  ultimately show ?thesis by (simp flip: big_endian_bytes)
qed

lemma final_holds:
  assumes "sha_holds ctx m"
  shows "\<exists>ctx'. SHA1Final be ctx = Some (sha1 m, ctx')"
proof -
  obtain ctx1 where c1: "SHA1Update be ctx [0x80] 1 = Some ctx1" "sha_holds ctx1 (m @ [0x80])"
    using update_holds [OF assms, of "[0x80]" be] by auto
  obtain ctx2 where c2: "pad_loop be ctx1 = Some ctx2" "sha_holds ctx2 ((m @ [0x80]) @ replicate (pad_zeros (length (m @ [0x80]))) 0)"
    using pad_loop_holds [OF c1(2), of be] by auto
  let ?fc = "be64_bytes (of_nat (8 * length m))"
  have fc: "map (\<lambda>i. big_endian (sha_count ctx ! (if i \<ge> 4 then 0 else 1)) i) [0..<8] = ?fc"
    using assms final_count [of "length m"] by (simp only: sha_holds_def)
  have "length ?fc = 8" by (simp add: be64_bytes_def be32_bytes_def)
  then obtain ctx3 where c3: "SHA1Update be ctx2 ?fc 8 = Some ctx3" "sha_holds ctx3 (pad m)"
    using update_holds [OF c2(2), of ?fc be] by (auto simp: pad_eq)
  obtain h0 h1 h2 h3 h4 where h: "hash_blocks sha1_H0 (pad m) = (h0, h1, h2, h3, h4)" by (rule prod_cases5)
  have "map (\<lambda>i. big_endian (sha_state ctx3 ! (i div 4)) i) [0..<20] = sha1 m"
    using c3(2) h digest_bytes [of h0 h1 h2 h3 h4] by (simp only: sha_holds_def sha1_def chain_list.simps Let_def prod.case)
  then show ?thesis by (simp add: SHA1Final_def Let_def fc c1(1) c2(1) c3(1) del: of_nat_mult)
qed

text \<open>A message in pieces.\<close>

fun update_all :: "bool \<Rightarrow> SHA1_CTX \<Rightarrow> bytes list \<Rightarrow> SHA1_CTX option" where
  "update_all be ctx [] = Some ctx"
| "update_all be ctx (d # ds) = Option.bind (SHA1Update be ctx d (of_nat (length d))) (\<lambda>ctx1. update_all be ctx1 ds)"

lemma update_all_holds:
  assumes "sha_holds ctx m" and "\<forall>d \<in> set ds. length d < 2 ^ 29"
  shows "\<exists>ctx'. update_all be ctx ds = Some ctx' \<and> sha_holds ctx' (m @ concat ds)"
  using assms
proof (induction ds arbitrary: ctx m)
  case (Cons d ds)
  then obtain ctx1 where "SHA1Update be ctx d (of_nat (length d)) = Some ctx1" "sha_holds ctx1 (m @ d)"
    using update_holds [OF Cons.prems(1), of d be] by auto
  then show ?case using Cons.IH [of ctx1 "m @ d"] Cons.prems(2) by auto
qed simp

text \<open>
  C24: The digest of data that come in any pieces below 512 megabytes is the SHA-1 of the data, on little-endian and on big-endian hosts;
  every loop ends and no byte outside of a buffer is touched.
\<close>

theorem digest_is_sha1:
  assumes "length (sha_buffer ctx) = 64" and "\<forall>d \<in> set ds. length d < 2 ^ 29"
  shows "\<exists>ctx'. Option.bind (update_all be (SHA1Init ctx) ds) (SHA1Final be) = Some (sha1 (concat ds), ctx')"
proof -
  obtain ctx1 where "update_all be (SHA1Init ctx) ds = Some ctx1" "sha_holds ctx1 (concat ds)"
    using update_all_holds [OF init_holds [OF assms(1)] assms(2), of be] by auto
  then show ?thesis using final_holds [of ctx1 "concat ds" be] by auto
qed

theorem digest_is_sha1_witness:
  "\<exists>ctx'. Option.bind (update_all False (SHA1Init \<lparr>sha_state = [], sha_count = [], sha_buffer = replicate 64 7\<rparr>) [asc ''a'', [], asc ''bc'']) (SHA1Final False) =
     Some (sha1 (asc ''abc''), ctx')"
  using digest_is_sha1 [of "\<lparr>sha_state = [], sha_count = [], sha_buffer = replicate 64 7\<rparr>" "[asc ''a'', [], asc ''bc'']" False] by (simp add: asc_def)

text \<open>
  The number of bits that a piece adds to the upper word of the counter, \<open>len >> 29\<close>, is added only when the lower word
  overflows: after a piece of 512 megabytes the counter is as before, and the digest is wrong.
\<close>

lemma large_piece_not_counted:
  assumes "length d = 2 ^ 29" and "SHA1Update be (SHA1Init ctx) d (of_nat (length d)) = Some ctx'"
  shows "sha_count ctx' = sha_count (SHA1Init ctx)"
proof -
  have "push_bit 3 (of_nat (length d) :: u32) = 0" by (simp add: assms(1) push_bit_eq_mult)
  then show ?thesis using assms(2)
    by (auto simp: SHA1Update_def Let_def SHA1Init_def bind_eq_Some_conv split: if_splits prod.splits)
qed

section \<open>Identifiers\<close>

lemma high_bit_u8: "\<not> bit (b :: u8) (8 + n)" "\<not> bit b (16 + n)" "\<not> bit b (24 + n)"
  using bit_imp_le_length [of b] by fastforce+

lemma load_store_16: "load16 be [b0, b1] = w \<Longrightarrow> store16 be w = [b0, b1]"
proof -
  have "ucast (ucast b0 OR push_bit 8 (ucast b1) :: u16) = b0" "ucast (drop_bit 8 (ucast b0 OR push_bit 8 (ucast b1) :: u16)) = b1" for b0 b1 :: u8
    by (auto intro!: bit_word_eqI simp: bit_simps high_bit_u8)
  then show "load16 be [b0, b1] = w \<Longrightarrow> store16 be w = [b0, b1]" by (auto simp: load16_def store16_def Let_def)
qed

lemma store32_of_le32: "[ucast (of_le32 [b0, b1, b2, b3]), ucast (drop_bit 8 (of_le32 [b0, b1, b2, b3])),
    ucast (drop_bit 16 (of_le32 [b0, b1, b2, b3])), ucast (drop_bit 24 (of_le32 [b0, b1, b2, b3]))] = [b0, b1, b2, b3]"
  by (auto intro!: bit_word_eqI simp: bit_simps high_bit_u8)

lemma store_load_32: "store32 be (load32 be [b0, b1, b2, b3]) = [b0, b1, b2, b3]"
  using store32_of_le32 [of b0 b1 b2 b3] store32_of_le32 [of b3 b2 b1 b0] by (simp add: store32_def load32_def Let_def)

lemma store16_rev: "store16 be w = (if be then store16 True w else rev (store16 True w))"
  by (simp add: store16_def Let_def)

lemma store32_rev: "store32 be w = (if be then store32 True w else rev (store32 True w))"
  by (simp add: store32_def Let_def)

lemma store_ntohl: "store32 be (ntohl be (load32 be [b0, b1, b2, b3])) = (if be then [b0, b1, b2, b3] else [b3, b2, b1, b0])"
  by (simp add: ntohl_def store_load_32 store32_rev [of be])

lemma store_load_16: "store16 be (load16 be [b0, b1]) = [b0, b1]"
  by (rule load_store_16) simp

lemma store_ntohs: "store16 be (ntohs be (load16 be [b0, b1])) = (if be then [b0, b1] else [b1, b0])"
  by (simp add: ntohs_def store_load_16 store16_rev [of be])

lemma set_version: "(load16 True [b0, b1] AND 0x0FFF) OR push_bit 12 5 = load16 True [(b0 AND 0x0F) OR 0x50, b1]"
proof -
  have m: "(0x0FFF :: u16) = mask 12" "(0x0F :: u8) = mask 4" "push_bit 12 5 = push_bit 8 (ucast (0x50 :: u8) :: u16)"
    by (simp_all add: mask_eq_exp_minus_1)
  have "((ucast y OR push_bit 8 (ucast x)) AND mask 12) OR push_bit 8 (ucast c) = (ucast y OR push_bit 8 (ucast ((x AND mask 4) OR c)) :: u16)"
    for x y c :: u8 by (rule bit_word_eqI) (auto simp: bit_simps dest: bit_imp_le_length)
  from this [of b1 b0 "0x50"] show ?thesis unfolding load16_def m Let_def by simp
qed

lemma store_version:
  "store16 be ((ntohs be (load16 be [b0, b1]) AND 0x0FFF) OR push_bit 12 5) =
     (if be then [(b0 AND 0x0F) OR 0x50, b1] else [b1, (b0 AND 0x0F) OR 0x50])"
  by (simp only: ntohs_def store_load_16 set_version store16_rev [of be]) simp

lemma length_sha1 [simp]: "length (sha1 m) = 20"
  by (simp add: sha1_def be32_bytes_def split: prod.splits)

lemma list_of_16:
  assumes "16 \<le> length h"
  shows "take 16 h = [h ! 0, h ! 1, h ! 2, h ! 3, h ! 4, h ! 5, h ! 6, h ! 7, h ! 8, h ! 9, h ! 10, h ! 11, h ! 12, h ! 13, h ! 14, h ! 15]"
proof -
  have "take 16 h = map ((!) h) [0..<16]" by (rule nth_equalityI) (use assms in auto)
  moreover have "[0..<16] = 0 # 1 # [2..<16]" by (simp add: upt_conv_Cons [of 0] upt_conv_Cons [of "Suc 0"] numeral_2_eq_2 [symmetric])
  ultimately show ?thesis by simp
qed

text \<open>
  The identifier made from a name space and a name has the first 16 bytes of the digest of both, with the version and the variant set.
  On a little-endian host the first three numbers are stored in the host's order: there the version is in byte 7 of the
  identifier, where a reader of the image expects it in byte 6.
\<close>

theorem uuid_from_names:
  assumes "length (sha_buffer ctx) = 64" and "length ns < 2 ^ 29" and "length nm < 2 ^ 29"
  shows "generate_uuid be ctx ns nm =
    Some (let h = sha1 (ns @ nm); version = (h ! 6 AND 0x0F) OR 0x50
      in (if be then [h ! 0, h ! 1, h ! 2, h ! 3, h ! 4, h ! 5, version, h ! 7] else [h ! 3, h ! 2, h ! 1, h ! 0, h ! 5, h ! 4, h ! 7, version]) @
         [(h ! 8 AND 0xBF) OR 0x80] @ take 7 (drop 9 h))"
proof -
  let ?h = "sha1 (ns @ nm)"
  obtain ctx' where "Option.bind (update_all be (SHA1Init ctx) [ns, nm]) (SHA1Final be) = Some (?h, ctx')"
    using update_all_holds [OF init_holds [OF assms(1)], of "[ns, nm]" be] assms(2,3) final_holds [of _ "ns @ nm" be] by fastforce
  then have d: "sha1_hash be ctx ns nm = Some ?h" by (auto simp: sha1_hash_def bind_eq_Some_conv)
  have v: "(- 65 :: u8) = 0xBF" by code_simp
  have "take 7 (drop 9 ?h) = drop 9 (take 16 ?h)" by (simp add: drop_take)
  then have t: "take 7 (drop 9 ?h) = [?h ! 9, ?h ! 10, ?h ! 11, ?h ! 12, ?h ! 13, ?h ! 14, ?h ! 15]"
    by (simp add: list_of_16)
  have "take 4 ?h = take 4 (take 16 ?h)" by simp
  then have f: "take 4 ?h = [?h ! 0, ?h ! 1, ?h ! 2, ?h ! 3]" by (simp only: list_of_16 length_sha1) simp
  show ?thesis
    by (simp add: generate_uuid_def d f list_of_16 uuid_of_memory_def uuid_to_memory_def Let_def store_ntohl store_ntohs store_version v t
        store_load_16 store_load_32 del: push_bit_numeral)
qed

theorem uuid_from_names_witness:
  "generate_uuid False \<lparr>sha_state = [], sha_count = [], sha_buffer = replicate 64 7\<rparr> (asc ''extandroid'') (asc ''data'') =
    Some (let h = sha1 (asc ''extandroid'' @ asc ''data'')
      in [h ! 3, h ! 2, h ! 1, h ! 0, h ! 5, h ! 4, h ! 7, (h ! 6 AND 0x0F) OR 0x50] @ [(h ! 8 AND 0xBF) OR 0x80] @ take 7 (drop 9 h))"
  using uuid_from_names [of "\<lparr>sha_state = [], sha_count = [], sha_buffer = replicate 64 7\<rparr>" "asc ''extandroid''" "asc ''data''" False] by (simp add: Let_def)

end
