(* ===== verification/Command_Quoting.thy ===== *)
theory Command_Quoting
  imports Text
begin

text \<open>
  Command lines of processes on Windows (\<^verbatim>\<open>Command_Windows.cpp\<close>; \<^verbatim>\<open>Win32Utils::quoteCommandLine\<close> has the same code).
  A process gets one line of text there, which its run time library splits into arguments by the documented rules of
  \<^verbatim>\<open>CommandLineToArgv\<close>.  The reader below follows these rules; the theorem states that the arguments arrive as they were given.
  An empty argument is not quoted and gets lost.
\<close>

section \<open>The code\<close>

text \<open>\<^verbatim>\<open>strcspn\<close> with the characters that need quotes, on the text up to its terminator.\<close>

definition problematic :: "u8 \<Rightarrow> bool" where
  "problematic c \<longleftrightarrow> c \<in> {0x20, 0x09, 0x0B, 0x0A, 0x22}"

definition needs_quotes :: "bytes \<Rightarrow> bool" where
  "needs_quotes s \<longleftrightarrow> list_ex problematic (takeWhile (\<lambda>c. c \<noteq> 0) s)"

text \<open>The loop over the characters: a run of backslashes, then the character behind it or the end.\<close>

lemma dropWhile_Cons_length: "dropWhile P s = c # cs \<Longrightarrow> length cs < length s"
  using length_dropWhile_le [of P s] by simp

function quote_loop :: "bytes \<Rightarrow> bytes" where
  "quote_loop s =
     (if s = [] \<or> hd s = 0 then []
      else let num_backslashes = length (takeWhile (\<lambda>c. c = 0x5C) s); rest = dropWhile (\<lambda>c. c = 0x5C) s
           in case rest of
             [] \<Rightarrow> replicate (2 * num_backslashes) 0x5C
           | c # cs \<Rightarrow>
               if c = 0 then replicate (2 * num_backslashes) 0x5C
               else if c = 0x22 then replicate (2 * num_backslashes) 0x5C @ [0x5C, 0x22] @ quote_loop cs
               else replicate num_backslashes 0x5C @ c # quote_loop cs)"
  by auto
termination by (relation "measure length") (auto dest: dropWhile_Cons_length [OF sym])

declare quote_loop.simps [simp del]

definition quoteParameter :: "bytes \<Rightarrow> bytes" where
  "quoteParameter commandLine = (if needs_quotes commandLine then 0x22 # quote_loop commandLine @ [0x22] else commandLine)"

text \<open>The command line of a process; with no arguments at all the last character of an empty text is removed, which is undefined.\<close>

definition command_line :: "bytes list \<Rightarrow> bytes option" where
  "command_line args = (let cmdline = concat (map (\<lambda>p. quoteParameter p @ [0x20]) args) in if cmdline = [] then None else Some (butlast cmdline))"

section \<open>The rules of the reader\<close>

text \<open>
  An argument is read up to a blank outside of quotes.  Backslashes stand for themselves unless a quote follows: then each pair is
  one backslash, and the quote ends or starts a quoted part if their number is even, and is a character if it is odd.
\<close>

definition blank :: "u8 \<Rightarrow> bool" where
  "blank c \<longleftrightarrow> c = 0x20 \<or> c = 0x09"

fun read_arg :: "bool \<Rightarrow> nat \<Rightarrow> bytes \<Rightarrow> bytes \<times> bytes" where
  "read_arg q n [] = (replicate n 0x5C, [])"
| "read_arg q n (c # cs) =
     (if c = 0x5C then read_arg q (Suc n) cs
      else if c = 0x22
      then apfst ((@) (replicate (n div 2) 0x5C)) (if even n then read_arg (\<not> q) 0 cs else apfst ((#) 0x22) (read_arg q 0 cs))
      else if \<not> q \<and> blank c then (replicate n 0x5C, cs)
      else apfst ((@) (replicate n 0x5C @ [c])) (read_arg q 0 cs))"

lemma length_read_arg: "length (snd (read_arg q n s)) \<le> length s"
  by (induction q n s rule: read_arg.induct) auto

lemma read_arg_less: "(a, rest) = read_arg q n (c # cs) \<Longrightarrow> length rest \<le> length cs"
proof -
  have "length (snd (read_arg q n (c # cs))) \<le> length cs" by (simp add: length_read_arg)
  then show "(a, rest) = read_arg q n (c # cs) \<Longrightarrow> length rest \<le> length cs" by (metis snd_conv)
qed

function read_args :: "bytes \<Rightarrow> bytes list" where
  "read_args s =
     (case dropWhile blank s of [] \<Rightarrow> [] | c # cs \<Rightarrow> (let (a, rest) = read_arg False 0 (c # cs) in a # read_args rest))"
  by auto
termination
  by (relation "measure length") (auto dest!: dropWhile_Cons_length read_arg_less simp del: read_arg.simps)

declare read_args.simps [simp del]

text \<open>
  The name of the program, the first text of the line, has its own rule: it is all up to a blank, or, if it starts with a quote, all up to the
  next one.
\<close>

definition argv :: "bytes \<Rightarrow> bytes list" where
  "argv s =
     (case s of
        [] \<Rightarrow> []
      | c # cs \<Rightarrow> if c = 0x22 then takeWhile (\<lambda>c. c \<noteq> 0x22) cs # read_args (drop 1 (dropWhile (\<lambda>c. c \<noteq> 0x22) cs))
                else takeWhile (\<lambda>c. \<not> blank c) s # read_args (dropWhile (\<lambda>c. \<not> blank c) s))"

section \<open>Arguments arrive\<close>

lemma read_arg_backslashes: "read_arg q n (replicate k 0x5C @ s) = read_arg q (n + k) s"
  by (induction k arbitrary: n) auto

lemma takeWhile_replicate: "takeWhile (\<lambda>c. c = a) s = replicate (length (takeWhile (\<lambda>c. c = a) s)) a"
  by (induction s) auto

lemma split_backslashes:
  obtains k r where "s = replicate k (0x5C :: u8) @ r" "takeWhile (\<lambda>c. c = 0x5C) s = replicate k 0x5C" "dropWhile (\<lambda>c. c = 0x5C) s = r"
    "r = [] \<or> hd r \<noteq> 0x5C"
proof (rule that [of "length (takeWhile (\<lambda>c. c = 0x5C) s)" "dropWhile (\<lambda>c. c = 0x5C) s"])
  show "s = replicate (length (takeWhile (\<lambda>c. c = 0x5C) s)) 0x5C @ dropWhile (\<lambda>c. c = 0x5C) s"
    by (subst takeWhile_replicate [symmetric]) simp
  show "dropWhile (\<lambda>c. c = 0x5C) s = [] \<or> hd (dropWhile (\<lambda>c. c = 0x5C) s) \<noteq> 0x5C" by (induction s) auto
qed (rule takeWhile_replicate refl)+

text \<open>A quoted text is read as it was.\<close>

lemma read_quoted:
  assumes "0 \<notin> set s"
  shows "read_arg True 0 (quote_loop s @ 0x22 # t) = apfst ((@) s) (read_arg False 0 t)"
  using assms
proof (induction s rule: quote_loop.induct)
  case (1 s)
  obtain k r where s: "s = replicate k 0x5C @ r" "takeWhile (\<lambda>c. c = 0x5C) s = replicate k 0x5C" "dropWhile (\<lambda>c. c = 0x5C) s = r"
    "r = [] \<or> hd r \<noteq> 0x5C" by (rule split_backslashes [of s])
  show ?case
  proof (cases "s = []")
    case True
    then show ?thesis by (cases "read_arg False 0 t") (simp add: quote_loop.simps)
  next
    case False
    then have nz: "hd s \<noteq> 0" using 1(3) by (metis hd_in_set)
    show ?thesis
    proof (cases r)
      case Nil
      then show ?thesis using False nz s
        by (subst quote_loop.simps) (simp add: read_arg_backslashes)
    next
      case (Cons c cs)
      have c: "c \<noteq> 0" "c \<noteq> 0x5C" "0 \<notin> set cs" using 1(3) s(1,4) Cons by auto
      have IH: "read_arg True 0 (quote_loop cs @ 0x22 # t) = apfst ((@) cs) (read_arg False 0 t)"
        using 1(1,2) False nz s(3) Cons c by (cases "c = 0x22") auto
      show ?thesis using False nz s Cons c IH
        by (subst quote_loop.simps) (auto simp: read_arg_backslashes apfst_def map_prod_def split: prod.splits)
    qed
  qed
qed

text \<open>An argument without special characters is read as it is.\<close>

lemma read_plain:
  assumes "\<forall>c \<in> set s. \<not> blank c \<and> c \<noteq> 0x22" and "t = [] \<or> blank (hd t)"
  shows "read_arg False n (s @ t) = (replicate n 0x5C @ s, drop 1 t)"
  using assms
proof (induction s arbitrary: n)
  case Nil
  then show ?case by (cases t) (auto simp: blank_def)
next
  case (Cons c s)
  then show ?case by (auto simp: replicate_app_Cons_same)
qed

lemma needs_quotes_iff: "0 \<notin> set p \<Longrightarrow> needs_quotes p \<longleftrightarrow> (\<exists>c \<in> set p. problematic c)"
proof -
  assume "0 \<notin> set p"
  then have e: "takeWhile (\<lambda>c. c \<noteq> 0) p = p" by (induction p) auto
  show "needs_quotes p \<longleftrightarrow> (\<exists>c \<in> set p. problematic c)" by (simp only: needs_quotes_def e list_ex_iff)
qed

lemma quoted_argument:
  assumes "0 \<notin> set p" and "t = [] \<or> blank (hd t)"
  shows "read_arg False 0 (quoteParameter p @ t) = (p, drop 1 t)"
proof (cases "needs_quotes p")
  case True
  then show ?thesis using read_quoted [OF assms(1), of t] read_plain [of "[]" t 0] assms(2) by (simp add: quoteParameter_def)
next
  case False
  then have "\<forall>c \<in> set p. \<not> blank c \<and> c \<noteq> 0x22" using needs_quotes_iff [OF assms(1)] by (auto simp: problematic_def blank_def)
  then show ?thesis using False read_plain [of p t 0] assms(2) by (simp add: quoteParameter_def)
qed

lemma quoted_head:
  assumes "0 \<notin> set p" and "p \<noteq> []"
  shows "quoteParameter p \<noteq> [] \<and> \<not> blank (hd (quoteParameter p))"
  using assms(2) needs_quotes_iff [OF assms(1)] by (auto simp: quoteParameter_def problematic_def blank_def dest: hd_in_set)

lemma read_args_blank: "blank c \<Longrightarrow> read_args (c # s) = read_args s"
  by (simp add: read_args.simps)

lemma read_args_step:
  assumes "0 \<notin> set p" and "p \<noteq> []" and "t = [] \<or> blank (hd t)"
  shows "read_args (quoteParameter p @ t) = p # read_args t"
proof -
  obtain c cs where q: "quoteParameter p = c # cs" "\<not> blank c" using quoted_head [OF assms(1,2)] by (metis list.collapse)
  have "read_args (quoteParameter p @ t) = p # read_args (drop 1 t)"
    using q quoted_argument [OF assms(1,3)] by (simp add: read_args.simps [of "c # cs @ t"] del: read_arg.simps)
  moreover have "read_args (drop 1 t) = read_args t" using assms(3) by (cases t) (auto simp: read_args_blank)
  ultimately show ?thesis by simp
qed

definition spaced :: "bytes list \<Rightarrow> bytes" where
  "spaced ps = concat (map (\<lambda>p. 0x20 # quoteParameter p) ps)"

lemma spaced_blank: "spaced ps = [] \<or> blank (hd (spaced ps))"
  by (cases ps) (auto simp: spaced_def blank_def)

lemma read_spaced: "\<forall>p \<in> set ps. 0 \<notin> set p \<and> p \<noteq> [] \<Longrightarrow> read_args (spaced ps) = ps"
proof (induction ps)
  case Nil
  then show ?case by (simp add: spaced_def read_args.simps)
next
  case (Cons p ps)
  have "spaced (p # ps) = 0x20 # quoteParameter p @ spaced ps" by (simp add: spaced_def)
  then show ?case using Cons read_args_step [of p "spaced ps"] spaced_blank [of ps] by (simp add: read_args_blank blank_def)
qed

lemma command_line_eq: "command_line (p # ps) = Some (quoteParameter p @ spaced ps)"
proof -
  have "concat (map (\<lambda>p. quoteParameter p @ [0x20]) (p # ps)) = quoteParameter p @ spaced ps @ [0x20]"
    by (induction ps arbitrary: p) (auto simp: spaced_def)
  then show ?thesis by (simp add: command_line_def butlast_append)
qed

text \<open>The name of a program, which has no quotes and does not end in a backslash.\<close>

lemma quote_loop_plain:
  assumes "0 \<notin> set s" and "0x22 \<notin> set s" and "s = [] \<or> last s \<noteq> 0x5C"
  shows "quote_loop s = s"
  using assms
proof (induction s rule: quote_loop.induct)
  case (1 s)
  obtain k r where s: "s = replicate k 0x5C @ r" "takeWhile (\<lambda>c. c = 0x5C) s = replicate k 0x5C" "dropWhile (\<lambda>c. c = 0x5C) s = r"
    "r = [] \<or> hd r \<noteq> 0x5C" by (rule split_backslashes [of s])
  show ?case
  proof (cases "s = []")
    case False
    then have nz: "hd s \<noteq> 0" using 1(3) by (metis hd_in_set)
    have "r \<noteq> []" using 1(5) False s(1) by (cases k) (auto simp: last_replicate simp del: replicate_Suc)
    then obtain c cs where r: "r = c # cs" by (cases r) auto
    have c: "c \<noteq> 0" "c \<noteq> 0x22" "0 \<notin> set cs" "0x22 \<notin> set cs" "cs = [] \<or> last cs \<noteq> 0x5C" using 1(3-5) s(1) r by auto
    then have "quote_loop cs = cs" using 1(2) False nz s(3) r by auto
    then show ?thesis using False nz s r c by (subst quote_loop.simps) simp
  qed (simp add: quote_loop.simps)
qed

lemma argv_program:
  assumes "0 \<notin> set p" and "0x22 \<notin> set p" and "p \<noteq> []" and "last p \<noteq> 0x5C" and "t = [] \<or> blank (hd t)"
  shows "argv (quoteParameter p @ t) = p # read_args t"
proof (cases "needs_quotes p")
  case True
  have "takeWhile (\<lambda>c. c \<noteq> 0x22) (p @ 0x22 # t) = p" "dropWhile (\<lambda>c. c \<noteq> 0x22) (p @ 0x22 # t) = 0x22 # t"
    using assms(2) by (auto simp: takeWhile_append dropWhile_append)
  then show ?thesis using True assms by (simp add: quoteParameter_def quote_loop_plain argv_def)
next
  case False
  then have b: "\<forall>c \<in> set p. \<not> blank c \<and> c \<noteq> 0x22" using needs_quotes_iff [OF assms(1)] by (auto simp: problematic_def blank_def)
  have "takeWhile (\<lambda>c. \<not> blank c) (p @ t) = p" "dropWhile (\<lambda>c. \<not> blank c) (p @ t) = t"
    using b assms(5) by (cases t; force simp: takeWhile_append dropWhile_append takeWhile_eq_all_conv)+
  then show ?thesis using False b assms(3) by (cases p) (auto simp: quoteParameter_def argv_def)
qed

text \<open>
  C27: The command line of a process is split again into the arguments it was made of, whatever blanks, quotes and backslashes these have, if no
  argument is empty.
\<close>

theorem arguments_arrive:
  assumes "0 \<notin> set p" and "0x22 \<notin> set p" and "p \<noteq> []" and "last p \<noteq> 0x5C" and "\<forall>q \<in> set ps. 0 \<notin> set q \<and> q \<noteq> []"
  shows "map_option argv (command_line (p # ps)) = Some (p # ps)"
  using argv_program [OF assms(1-4) spaced_blank] assms(5) by (simp add: command_line_eq read_spaced)

theorem arguments_arrive_witness:
  "map_option argv (command_line [asc ''my emulator'', asc ''-avd'', asc ''a b'' @ [0x5C], [0x5C, 0x22, 0x20, 0x5C, 0x5C]]) =
     Some [asc ''my emulator'', asc ''-avd'', asc ''a b'' @ [0x5C], [0x5C, 0x22, 0x20, 0x5C, 0x5C]]"
  by (rule arguments_arrive) (simp_all add: asc_def)

text \<open>An empty argument is lost.\<close>

lemma empty_argument_lost: "map_option argv (command_line [asc ''emulator'', [], asc ''x'']) = Some [asc ''emulator'', asc ''x'']"
  by (simp add: command_line_def quoteParameter_def needs_quotes_def problematic_def asc_def argv_def blank_def read_args.simps)

end
