(* ===== verification/Idle_Interceptor.thy ===== *)
theory Idle_Interceptor
  imports Prelude
begin

text \<open>
  The interceptor that ends an idle emulator (\<^verbatim>\<open>IdleInterceptor.cpp\<close>).  A factory counts the active requests; each request has an
  interceptor, whose destructor stores the time at which the emulator may be ended and then gives up its count.  A recurrent task
  checks both.  Requests run on the threads of the gRPC server, so the two steps of a destructor and the other operations
  interleave: a step relation lets them happen in any order while the clock goes on.
\<close>

section \<open>The factory and its interceptors\<close>

record IdleInterceptorFactory =
  mShutdownAttempt :: int
  mTimeout :: u64
  mTerminationUnixTime :: u64
  mActiveRequests :: u64

definition IdleInterceptorFactory_new :: "u64 \<Rightarrow> u64 \<Rightarrow> IdleInterceptorFactory" where
  "IdleInterceptorFactory_new now timeout =
     \<lparr>mShutdownAttempt = 0, mTimeout = timeout, mTerminationUnixTime = now + timeout, mActiveRequests = 0\<rparr>"

definition CreateServerInterceptor :: "IdleInterceptorFactory \<Rightarrow> IdleInterceptorFactory" where
  "CreateServerInterceptor f = f\<lparr>mActiveRequests := mActiveRequests f + 1\<rparr>"

text \<open>The two stores of the destructor.\<close>

definition store_idle_time :: "u64 \<Rightarrow> IdleInterceptorFactory \<Rightarrow> IdleInterceptorFactory" where
  "store_idle_time now f = f\<lparr>mTerminationUnixTime := now + mTimeout f\<rparr>"

definition release_request :: "IdleInterceptorFactory \<Rightarrow> IdleInterceptorFactory" where
  "release_request f = f\<lparr>mActiveRequests := mActiveRequests f - 1\<rparr>"

text \<open>The check; its first result tells that the process is terminated.\<close>

definition checkIdleTimeout :: "u64 \<Rightarrow> IdleInterceptorFactory \<Rightarrow> bool \<times> IdleInterceptorFactory" where
  "checkIdleTimeout epoch f =
     (if mActiveRequests f > 0 \<or> epoch < mTerminationUnixTime f then (False, f)
      else (mShutdownAttempt f \<noteq> 0, f\<lparr>mShutdownAttempt := mShutdownAttempt f + 1\<rparr>))"

section \<open>Requests in any order\<close>

text \<open>
  A world has the factory, the clock in seconds, the requests that run and those whose destructor has stored the time, the last time a
  destructor did so (at first the start), and whether the process is ended.  Counts and times stay within 64 bits.
\<close>

record idle_world =
  idle_factory :: IdleInterceptorFactory
  clock :: nat
  running :: nat
  ending :: nat
  last_end :: nat
  ended :: bool

datatype idle_event = Tick nat | RequestStarts | TimeStored | RequestReleased | Check

inductive idle_step :: "idle_world \<Rightarrow> idle_event \<Rightarrow> idle_world \<Rightarrow> bool" where
  tick: "\<lbrakk>\<not> ended w; clock w + n + unat (mTimeout (idle_factory w)) < 2 ^ 64\<rbrakk> \<Longrightarrow> idle_step w (Tick n) (w\<lparr>clock := clock w + n\<rparr>)"
| starts: "\<lbrakk>\<not> ended w; running w + ending w + 1 < 2 ^ 64\<rbrakk> \<Longrightarrow>
    idle_step w RequestStarts (w\<lparr>idle_factory := CreateServerInterceptor (idle_factory w), running := running w + 1\<rparr>)"
| stored: "\<lbrakk>\<not> ended w; running w \<noteq> 0\<rbrakk> \<Longrightarrow>
    idle_step w TimeStored (w\<lparr>idle_factory := store_idle_time (of_nat (clock w)) (idle_factory w), running := running w - 1, ending := ending w + 1, last_end := clock w\<rparr>)"
| released: "\<lbrakk>\<not> ended w; ending w \<noteq> 0\<rbrakk> \<Longrightarrow>
    idle_step w RequestReleased (w\<lparr>idle_factory := release_request (idle_factory w), ending := ending w - 1\<rparr>)"
| check: "\<lbrakk>\<not> ended w; checkIdleTimeout (of_nat (clock w)) (idle_factory w) = (e, f)\<rbrakk> \<Longrightarrow> idle_step w Check (w\<lparr>idle_factory := f, ended := e\<rparr>)"

inductive_cases idle_checkE: "idle_step w Check w'"

inductive idle_reachable :: "u64 \<Rightarrow> idle_world \<Rightarrow> bool" for timeout where
  start: "now + unat timeout < 2 ^ 64 \<Longrightarrow> idle_reachable timeout
    \<lparr>idle_factory = IdleInterceptorFactory_new (of_nat now) timeout, clock = now, running = 0, ending = 0, last_end = now, ended = False\<rparr>"
| step: "idle_reachable timeout w \<Longrightarrow> idle_step w ev w' \<Longrightarrow> idle_reachable timeout w'"

definition idle_inv :: "u64 \<Rightarrow> idle_world \<Rightarrow> bool" where
  "idle_inv timeout w \<longleftrightarrow>
     mTimeout (idle_factory w) = timeout \<and> last_end w \<le> clock w \<and> clock w + unat timeout < 2 ^ 64 \<and>
     unat (mTerminationUnixTime (idle_factory w)) = last_end w + unat timeout \<and>
     running w + ending w < 2 ^ 64 \<and> unat (mActiveRequests (idle_factory w)) = running w + ending w \<and> mShutdownAttempt (idle_factory w) \<ge> 0"

lemma unat_of_nat_u64: "n < 2 ^ 64 \<Longrightarrow> unat (of_nat n :: u64) = n"
  by (simp add: unsigned_of_nat take_bit_nat_eq_self)

lemma unat_time: "n + unat t < 2 ^ 64 \<Longrightarrow> unat (of_nat n + t :: u64) = n + unat t"
  by (simp add: unat_word_ariths unat_of_nat_u64)

lemma unat_inc_u64: "unat x + 1 < 2 ^ 64 \<Longrightarrow> unat (x + 1 :: u64) = unat x + 1"
  by (simp add: unat_word_ariths)

lemma unat_dec_u64: "unat x \<noteq> 0 \<Longrightarrow> unat (x - 1 :: u64) = unat x - 1"
  by (metis unat_minus_one unat_0)

lemma idle_step_inv: "idle_step w ev w' \<Longrightarrow> idle_inv timeout w \<Longrightarrow> idle_inv timeout w'"
  by (induction rule: idle_step.induct)
    (auto simp: idle_inv_def CreateServerInterceptor_def store_idle_time_def release_request_def checkIdleTimeout_def
      unat_time unat_inc_u64 unat_dec_u64 split: if_splits)

lemma idle_reachable_inv: "idle_reachable timeout w \<Longrightarrow> idle_inv timeout w"
proof (induction rule: idle_reachable.induct)
  case (start now)
  then show ?case by (simp add: idle_inv_def IdleInterceptorFactory_new_def unat_time)
qed (rule idle_step_inv)

lemma check_iff:
  assumes "idle_inv timeout w"
  shows "checkIdleTimeout (of_nat (clock w)) (idle_factory w) =
    (if running w + ending w = 0 \<and> last_end w + unat timeout \<le> clock w
     then (mShutdownAttempt (idle_factory w) \<noteq> 0, idle_factory w\<lparr>mShutdownAttempt := mShutdownAttempt (idle_factory w) + 1\<rparr>) else (False, idle_factory w))"
proof -
  have "mActiveRequests (idle_factory w) > 0 \<longleftrightarrow> running w + ending w \<noteq> 0" using assms by (auto simp: idle_inv_def word_less_nat_alt)
  moreover have "of_nat (clock w) < mTerminationUnixTime (idle_factory w) \<longleftrightarrow> clock w < last_end w + unat timeout"
    using assms by (auto simp: idle_inv_def word_less_nat_alt unat_of_nat_u64)
  ultimately show ?thesis unfolding checkIdleTimeout_def by auto
qed

text \<open>
  The process is ended only by a check at which no request is active, the time limit has passed since the last request ended and since the
  start, and an earlier check found it idle already.
\<close>

theorem only_idle_emulator_is_ended:
  assumes "idle_reachable timeout w" and "idle_step w ev w'" and "ended w'"
  shows "ev = Check \<and> running w = 0 \<and> ending w = 0 \<and> last_end w + unat timeout \<le> clock w \<and> mShutdownAttempt (idle_factory w) > 0"
proof -
  have inv: "idle_inv timeout w" using assms(1) by (rule idle_reachable_inv)
  have "ev = Check" using assms(2,3) by (cases rule: idle_step.cases) auto
  with assms(2,3) obtain e f where "checkIdleTimeout (of_nat (clock w)) (idle_factory w) = (e, f)" "e" by (auto elim: idle_checkE)
  then show ?thesis using \<open>ev = Check\<close> inv check_iff [OF inv] by (auto simp: idle_inv_def split: if_splits)
qed

text \<open>A factory with a limit of five seconds, after one check at the end of this time.\<close>

definition sample_world :: idle_world where
  "sample_world = \<lparr>idle_factory = \<lparr>mShutdownAttempt = 1, mTimeout = 5, mTerminationUnixTime = 5, mActiveRequests = 0\<rparr>,
     clock = 5, running = 0, ending = 0, last_end = 0, ended = False\<rparr>"

lemma idle_sample_reachable: "idle_reachable 5 sample_world"
proof -
  let ?w0 = "\<lparr>idle_factory = IdleInterceptorFactory_new (of_nat 0) 5, clock = 0, running = 0, ending = 0, last_end = 0, ended = False\<rparr>"
  have "idle_reachable 5 ?w0" by (rule idle_reachable.start) simp
  moreover have "idle_step ?w0 (Tick 5) (?w0\<lparr>clock := clock ?w0 + 5\<rparr>)" by (rule idle_step.tick) (simp_all add: IdleInterceptorFactory_new_def)
  ultimately have "idle_reachable 5 (?w0\<lparr>clock := clock ?w0 + 5\<rparr>)" by (rule idle_reachable.step)
  moreover have "idle_step (?w0\<lparr>clock := clock ?w0 + 5\<rparr>) Check (?w0\<lparr>clock := clock ?w0 + 5, idle_factory := idle_factory sample_world, ended := False\<rparr>)"
    using idle_step.check [of "?w0\<lparr>clock := clock ?w0 + 5\<rparr>" False "idle_factory sample_world"]
    by (simp add: checkIdleTimeout_def IdleInterceptorFactory_new_def sample_world_def)
  ultimately have "idle_reachable 5 (?w0\<lparr>clock := clock ?w0 + 5, idle_factory := idle_factory sample_world, ended := False\<rparr>)" by (rule idle_reachable.step)
  then show ?thesis by (simp add: sample_world_def)
qed

theorem only_idle_emulator_is_ended_witness:
  "\<exists>w'. idle_step sample_world Check w' \<and> ended w' \<and> running sample_world = 0 \<and> last_end sample_world + 5 \<le> clock sample_world"
proof -
  let ?f = "idle_factory sample_world\<lparr>mShutdownAttempt := 2\<rparr>"
  have s: "idle_step sample_world Check (sample_world\<lparr>idle_factory := ?f, ended := True\<rparr>)"
    by (rule idle_step.check) (simp_all add: sample_world_def checkIdleTimeout_def)
  from only_idle_emulator_is_ended [OF idle_sample_reachable s] s show ?thesis by auto
qed

text \<open>
  The number of attempts is never set back: when a check has found the emulator idle once, and requests have come since, the next check that
  finds it idle ends it at once.
\<close>

lemma attempts_are_kept:
  "fst (checkIdleTimeout 20 (release_request (store_idle_time 10 (CreateServerInterceptor (idle_factory sample_world)))))"
  by (simp add: sample_world_def checkIdleTimeout_def release_request_def store_idle_time_def CreateServerInterceptor_def)

text \<open>Two checks after the time limit end the process, if no request comes in between.\<close>

lemma idle_emulator_is_ended:
  assumes "idle_reachable timeout w" and "\<not> ended w" and "running w = 0" and "ending w = 0" and "last_end w + unat timeout \<le> clock w"
  shows "\<exists>w1 w2. idle_step w Check w1 \<and> (ended w1 \<or> idle_step w1 Check w2 \<and> ended w2)"
proof -
  have inv: "idle_inv timeout w" using assms(1) by (rule idle_reachable_inv)
  let ?f = "idle_factory w\<lparr>mShutdownAttempt := mShutdownAttempt (idle_factory w) + 1\<rparr>"
  let ?w1 = "w\<lparr>idle_factory := ?f, ended := mShutdownAttempt (idle_factory w) \<noteq> 0\<rparr>"
  have s1: "idle_step w Check ?w1" using check_iff [OF inv] assms by (intro idle_step.check) auto
  show ?thesis
  proof (cases "ended ?w1")
    case False
    have "idle_inv timeout ?w1" using idle_step_inv [OF s1 inv] .
    from check_iff [OF this] have "idle_step ?w1 Check (?w1\<lparr>idle_factory := ?f\<lparr>mShutdownAttempt := mShutdownAttempt ?f + 1\<rparr>, ended := True\<rparr>)"
      using assms False inv by (intro idle_step.check) (auto simp: idle_inv_def)
    then show ?thesis using s1 by fastforce
  qed (use s1 in blast)
qed

end
