(* ===== verification/Thread_Store.thy ===== *)
theory Thread_Store
  imports Prelude
begin

text \<open>
  Thread-local values on Windows (\<^verbatim>\<open>ThreadStore.cpp\<close>): one array of 64 slots per thread, allocated when a thread first uses it,
  and one table of destructors.  When a thread exits, the destructors of its values are called.  A destructor is a callback that may
  change the store; \<open>None\<close> is an access to an array that has been freed.
\<close>

section \<open>The store\<close>

definition kMaxTlsSlots :: nat where
  "kMaxTlsSlots = 64"

text \<open>The last field records the calls of destructors.\<close>

record ('d, 'v) GlobalState =
  mLastIndex :: nat
  mDestructors :: "'d option list"
  tls :: "nat \<Rightarrow> 'v option list option"
  destroyed :: "('d \<times> 'v) list"

definition GlobalState_new :: "('d, 'v) GlobalState" where
  "GlobalState_new = \<lparr>mLastIndex = 0, mDestructors = replicate kMaxTlsSlots None, tls = (\<lambda>t. None), destroyed = []\<rparr>"

definition registerKey :: "'d option \<Rightarrow> ('d, 'v) GlobalState \<Rightarrow> int \<times> ('d, 'v) GlobalState" where
  "registerKey destroy g =
     (if mLastIndex g < kMaxTlsSlots
      then (int (mLastIndex g), g\<lparr>mLastIndex := mLastIndex g + 1, mDestructors := (mDestructors g)[mLastIndex g := destroy]\<rparr>)
      else (- 1, g))"

definition invalid_key :: "int \<Rightarrow> bool" where
  "invalid_key key \<longleftrightarrow> key < 0 \<or> key \<ge> int kMaxTlsSlots"

definition unregisterKey :: "int \<Rightarrow> ('d, 'v) GlobalState \<Rightarrow> ('d, 'v) GlobalState" where
  "unregisterKey key g = (if invalid_key key then g else g\<lparr>mDestructors := (mDestructors g)[nat key := None]\<rparr>)"

definition getArray :: "nat \<Rightarrow> ('d, 'v) GlobalState \<Rightarrow> 'v option list \<times> ('d, 'v) GlobalState" where
  "getArray t g =
     (case tls g t of
        Some array \<Rightarrow> (array, g)
      | None \<Rightarrow> let array = replicate kMaxTlsSlots None in (array, g\<lparr>tls := (tls g)(t \<mapsto> array)\<rparr>))"

definition getValue :: "nat \<Rightarrow> int \<Rightarrow> ('d, 'v) GlobalState \<Rightarrow> 'v option \<times> ('d, 'v) GlobalState" where
  "getValue t key g = (if invalid_key key then (None, g) else let (array, g1) = getArray t g in (array ! nat key, g1))"

definition setValue :: "nat \<Rightarrow> int \<Rightarrow> 'v option \<Rightarrow> ('d, 'v) GlobalState \<Rightarrow> ('d, 'v) GlobalState" where
  "setValue t key v g =
     (if invalid_key key then g else let (array, g1) = getArray t g in g1\<lparr>tls := (tls g1)(t \<mapsto> array[nat key := v])\<rparr>)"

text \<open>The loop over the slots of a thread that exits; the argument \<open>run\<close> is what a destructor does.\<close>

function leave_loop ::
  "('d \<Rightarrow> 'v \<Rightarrow> ('d, 'v) GlobalState \<Rightarrow> ('d, 'v) GlobalState) \<Rightarrow> nat \<Rightarrow> nat \<Rightarrow> ('d, 'v) GlobalState \<Rightarrow> ('d, 'v) GlobalState option" where
  "leave_loop run t n g =
     (if n < kMaxTlsSlots
      then case tls g t of
          None \<Rightarrow> None
        | Some array \<Rightarrow>
            (case array ! n of
               None \<Rightarrow> leave_loop run t (Suc n) g
             | Some value \<Rightarrow>
                 let g1 = g\<lparr>tls := (tls g)(t \<mapsto> array[n := None])\<rparr>
                 in case mDestructors g1 ! n of
                      None \<Rightarrow> leave_loop run t (Suc n) g1
                    | Some destroy \<Rightarrow> leave_loop run t (Suc n) (run destroy value (g1\<lparr>destroyed := destroyed g1 @ [(destroy, value)]\<rparr>)))
      else Some g)"
  by pat_completeness auto
termination by (relation "measure (\<lambda>(run, t, n, g). kMaxTlsSlots - n)") auto

declare leave_loop.simps [simp del]

definition leaveCurrentThread ::
  "('d \<Rightarrow> 'v \<Rightarrow> ('d, 'v) GlobalState \<Rightarrow> ('d, 'v) GlobalState) \<Rightarrow> nat \<Rightarrow> ('d, 'v) GlobalState \<Rightarrow> ('d, 'v) GlobalState option" where
  "leaveCurrentThread run t g =
     (if tls g t = None then Some g else map_option (\<lambda>g1. g1\<lparr>tls := (tls g1)(t := None)\<rparr>) (leave_loop run t 0 g))"

section \<open>Values\<close>

definition store_inv :: "('d, 'v) GlobalState \<Rightarrow> bool" where
  "store_inv g \<longleftrightarrow> length (mDestructors g) = kMaxTlsSlots \<and> mLastIndex g \<le> kMaxTlsSlots \<and>
     (\<forall>t array. tls g t = Some array \<longrightarrow> length array = kMaxTlsSlots) \<and> (\<forall>k. mLastIndex g \<le> k \<and> k < kMaxTlsSlots \<longrightarrow> mDestructors g ! k = None)"

text \<open>The store as a function from threads and keys to values.\<close>

definition tls_value :: "('d, 'v) GlobalState \<Rightarrow> nat \<times> nat \<Rightarrow> 'v option" where
  "tls_value g = (\<lambda>(t, k). case tls g t of None \<Rightarrow> None | Some array \<Rightarrow> if k < kMaxTlsSlots then array ! k else None)"

text \<open>The contract of a store of values under keys.\<close>

locale value_store =
  fixes ok :: "'s \<Rightarrow> bool" and valid :: "'k \<Rightarrow> bool" and look :: "'s \<Rightarrow> 'k \<Rightarrow> 'v option" and put :: "'k \<Rightarrow> 'v option \<Rightarrow> 's \<Rightarrow> 's"
  assumes ok_write: "ok s \<Longrightarrow> ok (put k v s)"
    and read_write: "ok s \<Longrightarrow> valid k \<Longrightarrow> look (put k v s) k = v"
    and read_other: "ok s \<Longrightarrow> k' \<noteq> k \<Longrightarrow> look (put k v s) k' = look s k'"
begin

lemma ok_writes: "ok s \<Longrightarrow> ok (fold (\<lambda>(k, v). put k v) kvs s)"
  by (induction kvs arbitrary: s) (auto simp: ok_write)

text \<open>After any writes the value of a key is the one written last.\<close>

lemma read_writes:
  assumes "ok s" and "valid k"
  shows "look (fold (\<lambda>(k, v). put k v) kvs s) k = (case map_of (rev kvs) k of None \<Rightarrow> look s k | Some v \<Rightarrow> v)"
  using assms(1)
proof (induction kvs rule: rev_induct)
  case (snoc kv kvs)
  obtain k' v where kv: "kv = (k', v)" by (cases kv)
  show ?case
  proof (cases "k' = k")
    case True
    then show ?thesis using read_write [OF ok_writes [OF snoc.prems] assms(2)] by (simp add: kv)
  next
    case False
    then show ?thesis using read_other [OF ok_writes [OF snoc.prems], of k k' v kvs] snoc by (simp add: kv)
  qed
qed simp

end

definition set_slot :: "nat \<times> nat \<Rightarrow> 'v option \<Rightarrow> ('d, 'v) GlobalState \<Rightarrow> ('d, 'v) GlobalState" where
  "set_slot = (\<lambda>(t, k) v. setValue t (int k) v)"

lemma array_of: "getArray t g = (array, g1) \<Longrightarrow> store_inv g \<Longrightarrow>
    length array = kMaxTlsSlots \<and> tls g1 = (tls g)(t \<mapsto> array) \<and> (\<forall>k < kMaxTlsSlots. array ! k = tls_value g (t, k)) \<and>
    mDestructors g1 = mDestructors g \<and> mLastIndex g1 = mLastIndex g \<and> destroyed g1 = destroyed g \<and> store_inv g1 \<and> tls_value g1 = tls_value g"
  by (auto simp: getArray_def Let_def store_inv_def tls_value_def fun_eq_iff split: option.splits if_splits)

lemma setValue_inv: "store_inv g \<Longrightarrow> store_inv (setValue t key v g)"
  using array_of [of t g "fst (getArray t g)" "snd (getArray t g)"]
  by (auto simp: setValue_def Let_def store_inv_def split: prod.splits if_splits)

lemma setValue_value:
  assumes "store_inv g"
  shows "tls_value (setValue t key v g) = (if invalid_key key then tls_value g else (tls_value g)((t, nat key) := v))"
proof (cases "invalid_key key")
  case False
  obtain array g1 where a: "getArray t g = (array, g1)" by (cases "getArray t g")
  have k: "nat key < kMaxTlsSlots" using False by (auto simp: invalid_key_def)
  have "tls_value (g1\<lparr>tls := (tls g1)(t \<mapsto> array[nat key := v])\<rparr>) (t', k') = ((tls_value g)((t, nat key) := v)) (t', k')" for t' k'
    using array_of [OF a assms] k by (auto simp: tls_value_def nth_list_update split: option.splits)
  then show ?thesis using False by (simp add: setValue_def a fun_eq_iff)
qed (simp add: setValue_def)

interpretation slots: value_store store_inv "\<lambda>(t, k). k < kMaxTlsSlots" tls_value set_slot
  by unfold_locales (auto simp: set_slot_def setValue_inv setValue_value invalid_key_def split: prod.splits)

text \<open>What is read is what the thread wrote last under the key; other threads and keys do not change it.\<close>

theorem thread_reads_last_written:
  fixes g :: "('d, 'v) GlobalState"
  assumes "store_inv g" and "\<not> invalid_key key"
  shows "fst (getValue t key (fold (\<lambda>((t, k), v). setValue t (int k) v) kvs g)) =
    (case map_of (rev kvs) (t, nat key) of None \<Rightarrow> fst (getValue t key g) | Some v \<Rightarrow> v)"
proof -
  have get: "fst (getValue t key g') = tls_value g' (t, nat key)" if "store_inv g'" for g' :: "('d, 'v) GlobalState"
    using that assms(2) array_of [of t g' "fst (getArray t g')" "snd (getArray t g')"]
    by (auto simp: getValue_def invalid_key_def split: prod.splits)
  have f: "(\<lambda>((t, k), v). setValue t (int k) v) = (\<lambda>(k, v). set_slot k v)" by (auto simp: set_slot_def fun_eq_iff)
  show ?thesis unfolding f get [OF assms(1)] get [OF slots.ok_writes [OF assms(1)]]
    using slots.read_writes [OF assms(1), of "(t, nat key)" kvs] assms(2) by (auto simp: invalid_key_def)
qed

theorem thread_reads_last_written_witness:
  "fst (getValue 1 3 (fold (\<lambda>((t, k), v). setValue t (int k) v) [((1, 3), Some ''a''), ((2, 3), Some ''b''), ((1, 4), None)]
     (GlobalState_new :: (string, string) GlobalState))) = Some ''a''"
proof -
  have "store_inv (GlobalState_new :: (string, string) GlobalState)" by (simp add: store_inv_def GlobalState_new_def)
  from thread_reads_last_written [OF this, of 3 1 "[((1, 3), Some ''a''), ((2, 3), Some ''b''), ((1, 4), None)]"] show ?thesis
    by (simp add: invalid_key_def kMaxTlsSlots_def)
qed

section \<open>Keys and the end of a thread\<close>

lemma new_inv: "store_inv GlobalState_new"
  by (simp add: store_inv_def GlobalState_new_def)

lemma registerKey_inv: "store_inv g \<Longrightarrow> store_inv (snd (registerKey d g))"
  by (auto simp: registerKey_def store_inv_def)

lemma unregisterKey_inv: "store_inv g \<Longrightarrow> store_inv (unregisterKey key g)"
  by (auto simp: unregisterKey_def store_inv_def invalid_key_def nth_list_update)

text \<open>The keys of a process are the numbers from 0 on, and no key is given out twice, unregistered or not; the 65th is refused.\<close>

fun register_all :: "'d option list \<Rightarrow> ('d, 'v) GlobalState \<Rightarrow> int list \<times> ('d, 'v) GlobalState" where
  "register_all [] g = ([], g)"
| "register_all (d # ds) g = (let (k, g1) = registerKey d g; (ks, g2) = register_all ds g1 in (k # ks, g2))"

lemma keys_are_fresh:
  assumes "store_inv g"
  shows "fst (register_all ds g) = map (\<lambda>i. if mLastIndex g + i < kMaxTlsSlots then int (mLastIndex g + i) else - 1) [0..<length ds]"
  using assms
proof (induction ds arbitrary: g)
  case (Cons d ds)
  have u: "[0..<length (d # ds)] = 0 # map Suc [0..<length ds]" by (simp add: map_Suc_upt upt_conv_Cons del: upt_Suc)
  have "mLastIndex (snd (registerKey d g)) = (if mLastIndex g < kMaxTlsSlots then Suc (mLastIndex g) else mLastIndex g)" by (simp add: registerKey_def)
  then show ?case using Cons.IH [OF registerKey_inv [OF Cons.prems, of d]]
    by (simp only: u) (auto simp: Let_def registerKey_def split: prod.splits)
qed simp

definition to_destroy :: "'d option list \<Rightarrow> 'v option list \<Rightarrow> nat \<Rightarrow> ('d \<times> 'v) list" where
  "to_destroy ds array k = (case (ds ! k, array ! k) of (Some d, Some v) \<Rightarrow> [(d, v)] | _ \<Rightarrow> [])"

lemma leave_loop_destroys:
  assumes "\<And>d v g. tls (run d v g) t = tls g t \<and> mDestructors (run d v g) = mDestructors g \<and> destroyed (run d v g) = destroyed g"
    and "tls g t = Some array"
  shows "\<exists>g'. leave_loop run t n g = Some g' \<and> destroyed g' = destroyed g @ concat (map (to_destroy (mDestructors g) array) [n..<kMaxTlsSlots]) \<and>
    mDestructors g' = mDestructors g"
  using assms(2)
proof (induction "kMaxTlsSlots - n" arbitrary: n g array)
  case 0
  then show ?case by (simp add: leave_loop.simps)
next
  case (Suc m)
  have n: "n < kMaxTlsSlots" "m = kMaxTlsSlots - Suc n" using Suc.hyps(2) by auto
  have later: "map (to_destroy ds (array[n := None])) [Suc n..<kMaxTlsSlots] = map (to_destroy ds array) [Suc n..<kMaxTlsSlots]" for ds :: "'a option list"
    by (rule map_cong) (auto simp: to_destroy_def)
  show ?case
  proof (cases "array ! n")
    case None
    then show ?thesis using Suc.hyps(1) [OF n(2) Suc.prems] n(1) Suc.prems
      by (subst leave_loop.simps) (auto simp: upt_conv_Cons to_destroy_def split: option.splits)
  next
    case (Some v)
    let ?g1 = "g\<lparr>tls := (tls g)(t \<mapsto> array[n := None])\<rparr>"
    show ?thesis
    proof (cases "mDestructors g ! n")
      case None
      then show ?thesis using Suc.hyps(1) [OF n(2), of ?g1 "array[n := None]"] n(1) Suc.prems Some
        by (subst leave_loop.simps) (auto simp: upt_conv_Cons to_destroy_def later)
    next
      case d: (Some d)
      let ?g2 = "run d v (?g1\<lparr>destroyed := destroyed ?g1 @ [(d, v)]\<rparr>)"
      have "tls ?g2 t = Some (array[n := None])" using assms(1) by simp
      from Suc.hyps(1) [OF n(2) this] show ?thesis using n(1) Suc.prems Some d assms(1)
        by (subst leave_loop.simps) (auto simp: upt_conv_Cons to_destroy_def later)
    qed
  qed
qed

text \<open>
  When a thread exits, the destructor of each of its values is called once, in the order of the keys, for the keys that still have one; its
  array is freed.  The destructors must not use the store of the thread; the code does not handle a value that one of them sets.
\<close>

theorem thread_exit_destroys_values:
  assumes "\<And>d v g. tls (run d v g) t = tls g t \<and> mDestructors (run d v g) = mDestructors g \<and> destroyed (run d v g) = destroyed g"
    and "tls g t = Some array"
  shows "\<exists>g'. leaveCurrentThread run t g = Some g' \<and> tls g' t = None \<and>
    destroyed g' = destroyed g @ concat (map (to_destroy (mDestructors g) array) [0..<kMaxTlsSlots])"
  using leave_loop_destroys [of run t g array 0] assms by (auto simp: leaveCurrentThread_def)

theorem thread_exit_destroys_values_witness:
  "\<exists>g'. leaveCurrentThread (\<lambda>d v g. g) 1
      (GlobalState_new\<lparr>mDestructors := (replicate 64 None)[0 := Some ''a'', 2 := Some ''b''], tls := [1 \<mapsto> (replicate 64 None)[0 := Some ''x'', 1 := Some ''y'', 2 := Some ''z'']]\<rparr>) =
      Some g' \<and> tls g' 1 = None \<and> destroyed g' = [(''a'', ''x''), (''b'', ''z'')]"
proof -
  let ?ds = "(replicate 64 None)[0 := Some ''a'', 2 := Some ''b'']" and ?a = "(replicate 64 None)[0 := Some ''x'', 1 := Some ''y'', 2 := Some ''z'']"
  have "concat (map (to_destroy ?ds ?a) [0..<kMaxTlsSlots]) = [(''a'', ''x''), (''b'', ''z'')]" by code_simp
  then show ?thesis
    using thread_exit_destroys_values [of "\<lambda>d v g. g" 1 "GlobalState_new\<lparr>mDestructors := ?ds, tls := [1 \<mapsto> ?a]\<rparr>" ?a]
    by (simp add: GlobalState_new_def)
qed

text \<open>A destructor that sets a value of a key that was handled already: the value is never destroyed.\<close>

lemma value_set_late_leaks:
  "let g = GlobalState_new\<lparr>mDestructors := (replicate 64 None)[0 := Some ''a'', 1 := Some ''b''], tls := [1 \<mapsto> (replicate 64 None)[1 := Some ''y'']]\<rparr>;
       run = (\<lambda>d v g. if d = ''b'' then setValue 1 0 (Some ''x'') g else g)
   in map_option (\<lambda>g'. (tls g' 1, destroyed g')) (leaveCurrentThread run 1 g) = Some (None, [(''b'', ''y'')])"
  by code_simp

end
