(* ===== verification/Socket_Drainer.thy ===== *)
theory Socket_Drainer
  imports Prelude
begin

text \<open>
  Closing sockets after their data have been read (\<^verbatim>\<open>SocketDrainer.cpp\<close>).  A drainer shuts down the writing side of a socket, reads what
  comes, in the callbacks of a looper if it has one, and closes the socket when the other side has closed it.  The results of
  \<^verbatim>\<open>recv\<close> that are available for a socket are a list, to which the world may add; the calls on sockets and watches are recorded.
\<close>

section \<open>Sockets\<close>

datatype recv_result = Received | WouldBlock | ClosedByPeer | RecvError

datatype drain_call = ShutdownWrites int | ShutdownReads int | WantRead int | DeleteWatch int | SocketClose int

text \<open>A drainer object: its socket, whether it is drained and whether it has a watch.\<close>

record drainer_object =
  mSocket :: int
  mSocketIsDrained :: bool
  mIo :: bool

record socket_drainer =
  mLooper :: bool
  mDrainerObjects :: "drainer_object list"
  available :: "int \<Rightarrow> recv_result list"
  drain_calls :: "drain_call list"

definition SocketDrainer_new :: "bool \<Rightarrow> (int \<Rightarrow> recv_result list) \<Rightarrow> socket_drainer" where
  "SocketDrainer_new looper av = \<lparr>mLooper = looper, mDrainerObjects = [], available = av, drain_calls = []\<rparr>"

definition log_call :: "drain_call \<Rightarrow> socket_drainer \<Rightarrow> socket_drainer" where
  "log_call c d = d\<lparr>drain_calls := drain_calls d @ [c]\<rparr>"

definition socketRecv :: "int \<Rightarrow> socket_drainer \<Rightarrow> recv_result \<times> socket_drainer" where
  "socketRecv fd d = (case available d fd of [] \<Rightarrow> (WouldBlock, d) | r # rs \<Rightarrow> (r, d\<lparr>available := (available d)(fd := rs)\<rparr>))"

section \<open>Drainer objects\<close>

definition drainSocket :: "drainer_object \<Rightarrow> socket_drainer \<Rightarrow> bool \<times> drainer_object \<times> socket_drainer" where
  "drainSocket obj d =
     (let (size, d1) = socketRecv (mSocket obj) d
      in if size = Received \<or> size = WouldBlock then (True, obj, d1) else (False, obj\<lparr>mSocketIsDrained := True\<rparr>, d1))"

text \<open>The constructor; \<open>parent\<close> tells whether there is one.\<close>

definition DrainerObject_new :: "int \<Rightarrow> bool \<Rightarrow> bool \<Rightarrow> socket_drainer \<Rightarrow> drainer_object \<times> socket_drainer" where
  "DrainerObject_new socket_fd looper parent d =
     (let d1 = log_call (ShutdownWrites socket_fd) d;
          (more, obj, d2) = drainSocket \<lparr>mSocket = socket_fd, mSocketIsDrained = False, mIo = False\<rparr> d1
      in if more \<and> looper \<and> parent then (obj\<lparr>mIo := True\<rparr>, log_call (WantRead socket_fd) d2) else (obj, d2))"

text \<open>The loop of the destructor that reads until there is nothing more.\<close>

fun recv_rest :: "recv_result list \<Rightarrow> recv_result list" where
  "recv_rest [] = []"
| "recv_rest (r # rs) = (if r = Received then recv_rest rs else rs)"

definition DrainerObject_delete :: "drainer_object \<Rightarrow> socket_drainer \<Rightarrow> socket_drainer" where
  "DrainerObject_delete obj d =
     (let fd = mSocket obj;
          d1 = (if mSocketIsDrained obj then d else d\<lparr>available := (available d)(fd := recv_rest (available d fd))\<rparr>);
          d2 = log_call (ShutdownReads fd) d1;
          d3 = (if mIo obj then log_call (DeleteWatch fd) d2 else d2)
      in log_call (SocketClose fd) d3)"

section \<open>The drainer\<close>

definition addSocketToDrain :: "int \<Rightarrow> socket_drainer \<Rightarrow> socket_drainer" where
  "addSocketToDrain socket_fd d =
     (let (obj, d1) = DrainerObject_new socket_fd (mLooper d) True d
      in if mSocketIsDrained obj then DrainerObject_delete obj d1 else d1\<lparr>mDrainerObjects := mDrainerObjects d1 @ [obj]\<rparr>)"

definition removeDrainerObject :: "nat \<Rightarrow> drainer_object \<Rightarrow> socket_drainer \<Rightarrow> socket_drainer" where
  "removeDrainerObject i obj d =
     DrainerObject_delete obj (d\<lparr>mDrainerObjects := take i (mDrainerObjects d) @ drop (Suc i) (mDrainerObjects d)\<rparr>)"

text \<open>The callback of the looper for the object at place \<open>i\<close> of the set.\<close>

definition on_read_socket_fd :: "nat \<Rightarrow> bool \<Rightarrow> socket_drainer \<Rightarrow> socket_drainer" where
  "on_read_socket_fd i readable d =
     (let obj = mDrainerObjects d ! i;
          (obj1, d1) = (if readable then snd (drainSocket obj d) else (obj, d))
      in if mSocketIsDrained obj1 then removeDrainerObject i obj1 d1 else d1)"

definition drainAndClose :: "int \<Rightarrow> socket_drainer \<Rightarrow> socket_drainer" where
  "drainAndClose socketFd d = (if socketFd < 0 then d else addSocketToDrain socketFd d)"

definition drainAndCloseBlocking :: "int \<Rightarrow> socket_drainer \<Rightarrow> socket_drainer" where
  "drainAndCloseBlocking socketFd d = (let (obj, d1) = DrainerObject_new socketFd False False d in DrainerObject_delete obj d1)"

definition SocketDrainerImpl_delete :: "socket_drainer \<Rightarrow> socket_drainer" where
  "SocketDrainerImpl_delete d = (fold DrainerObject_delete (mDrainerObjects d) d)\<lparr>mDrainerObjects := []\<rparr>"

section \<open>Every socket is closed once\<close>

text \<open>What happens to a drainer: sockets are given to it, data arrive, watches of its objects fire.\<close>

datatype drainer_event = Drain int | DrainBlocking int | Arrive int "recv_result list" | Readable nat bool

fun drain_event :: "drainer_event \<Rightarrow> socket_drainer \<Rightarrow> socket_drainer" where
  "drain_event (Drain fd) d = drainAndClose fd d"
| "drain_event (DrainBlocking fd) d = drainAndCloseBlocking fd d"
| "drain_event (Arrive fd rs) d = d\<lparr>available := (available d)(fd := available d fd @ rs)\<rparr>"
| "drain_event (Readable i r) d = (if i < length (mDrainerObjects d) \<and> mIo (mDrainerObjects d ! i) then on_read_socket_fd i r d else d)"

fun given :: "int \<Rightarrow> drainer_event \<Rightarrow> nat" where
  "given fd (Drain fd') = (if fd' = fd \<and> fd \<ge> 0 then 1 else 0)"
| "given fd (DrainBlocking fd') = (if fd' = fd then 1 else 0)"
| "given fd _ = 0"

definition closes :: "int \<Rightarrow> socket_drainer \<Rightarrow> nat" where
  "closes fd d = count_list (drain_calls d) (SocketClose fd)"

definition watched :: "int \<Rightarrow> socket_drainer \<Rightarrow> nat" where
  "watched fd d = count_list (map mSocket (mDrainerObjects d)) fd"

lemma closes_upd [simp]:
  "closes fd (d\<lparr>mDrainerObjects := objs\<rparr>) = closes fd d" "closes fd (d\<lparr>available := av\<rparr>) = closes fd d"
  "watched fd (d\<lparr>available := av\<rparr>) = watched fd d" "watched fd (d\<lparr>mDrainerObjects := objs\<rparr>) = count_list (map mSocket objs) fd"
  by (simp_all add: closes_def watched_def)

lemma recv_same: "socketRecv fd d = (r, d1) \<Longrightarrow> drain_calls d1 = drain_calls d \<and> mDrainerObjects d1 = mDrainerObjects d \<and> mLooper d1 = mLooper d"
  by (auto simp: socketRecv_def split: list.splits)

lemma drain_same:
  "drainSocket obj d = (m, obj1, d1) \<Longrightarrow> drain_calls d1 = drain_calls d \<and> mDrainerObjects d1 = mDrainerObjects d \<and> mSocket obj1 = mSocket obj \<and>
     mIo obj1 = mIo obj"
  by (auto simp: drainSocket_def dest: recv_same split: prod.splits if_splits)

lemma new_same:
  "DrainerObject_new fd l p d = (obj, d1) \<Longrightarrow> closes fd' d1 = closes fd' d \<and> mDrainerObjects d1 = mDrainerObjects d \<and> mSocket obj = fd"
  by (auto simp: DrainerObject_new_def Let_def log_call_def closes_def dest!: drain_same split: prod.splits if_splits)

lemma delete_closes:
  "closes fd (DrainerObject_delete obj d) = closes fd d + (if mSocket obj = fd then 1 else 0)"
  "mDrainerObjects (DrainerObject_delete obj d) = mDrainerObjects d"
  by (auto simp: DrainerObject_delete_def Let_def log_call_def closes_def)

lemma count_list_remove:
  assumes "i < length xs"
  shows "count_list (take i xs @ drop (Suc i) xs) x + (if xs ! i = x then 1 else 0) = count_list xs x"
proof -
  have "count_list xs x = count_list (take i xs @ xs ! i # drop (Suc i) xs) x" using assms by (simp only: id_take_nth_drop [symmetric])
  then show ?thesis by simp
qed

lemma add_balance: "closes fd (addSocketToDrain fd' d) + watched fd (addSocketToDrain fd' d) = closes fd d + watched fd d + (if fd' = fd then 1 else 0)"
proof -
  obtain obj d1 where n: "DrainerObject_new fd' (mLooper d) True d = (obj, d1)" by fastforce
  then show ?thesis using new_same [OF n, of fd] by (auto simp: addSocketToDrain_def delete_closes watched_def)
qed

lemma readable_balance:
  assumes "i < length (mDrainerObjects d)"
  shows "closes fd (on_read_socket_fd i r d) + watched fd (on_read_socket_fd i r d) = closes fd d + watched fd d"
proof -
  let ?obj = "mDrainerObjects d ! i"
  obtain obj1 d1 where o: "(if r then snd (drainSocket ?obj d) else (?obj, d)) = (obj1, d1)" by fastforce
  then have same: "drain_calls d1 = drain_calls d" "mDrainerObjects d1 = mDrainerObjects d" "mSocket obj1 = mSocket ?obj"
    by (auto split: if_splits dest: drain_same simp: prod_eq_iff) (metis drain_same prod.collapse)+
  have "count_list (map mSocket (take i (mDrainerObjects d) @ drop (Suc i) (mDrainerObjects d))) fd + (if mSocket ?obj = fd then 1 else 0) = watched fd d"
    using count_list_remove [of i "map mSocket (mDrainerObjects d)" fd] assms by (simp add: watched_def take_map drop_map)
  moreover have "closes fd d1 = closes fd d" using same(1) by (simp add: closes_def)
  ultimately show ?thesis using same
    by (auto simp: on_read_socket_fd_def o removeDrainerObject_def delete_closes watched_def)
qed

lemma event_balance: "closes fd (drain_event ev d) + watched fd (drain_event ev d) = closes fd d + watched fd d + given fd ev"
proof (cases ev)
  case (DrainBlocking fd')
  obtain obj d1 where n: "DrainerObject_new fd' False False d = (obj, d1)" by fastforce
  then show ?thesis using DrainBlocking new_same [OF n, of fd] by (auto simp: drainAndCloseBlocking_def delete_closes watched_def)
qed (auto simp: drainAndClose_def add_balance readable_balance)

lemma events_balance: "closes fd (fold drain_event evs d) + watched fd (fold drain_event evs d) = closes fd d + watched fd d + (\<Sum>ev \<leftarrow> evs. given fd ev)"
  by (induction evs arbitrary: d) (auto simp: event_balance)

lemma delete_all_closes: "closes fd (fold DrainerObject_delete objs d) = closes fd d + count_list (map mSocket objs) fd"
  by (induction objs arbitrary: d) (auto simp: delete_closes)

text \<open>
  Whatever happens, a socket that was given to a drainer is closed as often as it was given, and not before the drainer is deleted unless it is
  drained; as long as the drainer lives, the sockets not closed are those of its objects.
\<close>

theorem sockets_are_closed_once:
  "closes fd (fold drain_event evs (SocketDrainer_new looper av)) + watched fd (fold drain_event evs (SocketDrainer_new looper av)) =
     (\<Sum>ev \<leftarrow> evs. given fd ev) \<and>
   closes fd (SocketDrainerImpl_delete (fold drain_event evs (SocketDrainer_new looper av))) = (\<Sum>ev \<leftarrow> evs. given fd ev)"
proof -
  let ?d = "fold drain_event evs (SocketDrainer_new looper av)"
  have b: "closes fd ?d + watched fd ?d = (\<Sum>ev \<leftarrow> evs. given fd ev)"
    using events_balance [of fd evs "SocketDrainer_new looper av"] by (simp add: SocketDrainer_new_def closes_def watched_def)
  moreover have "closes fd (SocketDrainerImpl_delete ?d) = closes fd ?d + watched fd ?d"
    using delete_all_closes [of fd "mDrainerObjects ?d" ?d] by (simp add: SocketDrainerImpl_delete_def closes_def watched_def)
  ultimately show ?thesis by simp
qed

text \<open>A socket is closed when no data are left to be read: the other side has closed it, or there is nothing available at the moment.\<close>

lemma recv_rest_reads_all: "\<exists>rs. available d fd = rs @ recv_rest (available d fd) \<and> (\<forall>r \<in> set (butlast rs). r = Received)"
proof -
  have "\<exists>pre. xs = pre @ recv_rest xs \<and> (\<forall>r \<in> set (butlast pre). r = Received)" for xs
  proof (induction xs)
    case (Cons r xs)
    then obtain pre where p: "xs = pre @ recv_rest xs" "\<forall>r \<in> set (butlast pre). r = Received" by blast
    show ?case
    proof (cases "r = Received")
      case True
      then show ?thesis using p by (intro exI [of _ "r # pre"]) auto
    next
      case False
      then show ?thesis by (intro exI [of _ "[r]"]) auto
    qed
  qed simp
  then show ?thesis .
qed

end
