(* ===== verification/Displays.thy ===== *)
theory Displays
  imports Prelude
begin

text \<open>
  The displays of the emulator (\<^verbatim>\<open>MultiDisplay.cpp\<close>, \<^verbatim>\<open>PixmanDisplay.cpp\<close>, \<^verbatim>\<open>QemuDisplay.cpp\<close>).  QEMU announces
  surfaces for its consoles; a display holds a reference to the image of its console's last surface and counts the frames.
  An image is freed when its last reference is given up; \<open>None\<close> is the use of an image after that, or a display that no input device belongs
  to.  The theorem shows that displays only use images that live and hold one reference each.
\<close>

section \<open>Images\<close>

type_synonym image = nat

text \<open>The library's images: how many references there are to an image, none if it is freed, and its width and height.\<close>

record pixman =
  refs :: "image \<Rightarrow> nat"
  dims :: "image \<Rightarrow> u32 \<times> u32"

definition pixman_image_ref :: "image \<Rightarrow> pixman \<Rightarrow> pixman option" where
  "pixman_image_ref i p = (if refs p i = 0 then None else Some (p\<lparr>refs := (refs p)(i := refs p i + 1)\<rparr>))"

definition pixman_image_unref :: "image \<Rightarrow> pixman \<Rightarrow> pixman option" where
  "pixman_image_unref i p = (if refs p i = 0 then None else Some (p\<lparr>refs := (refs p)(i := refs p i - 1)\<rparr>))"

definition pixman_image_size :: "image \<Rightarrow> pixman \<Rightarrow> (u32 \<times> u32) option" where
  "pixman_image_size i p = (if refs p i = 0 then None else Some (dims p i))"

text \<open>The smart pointer: made from an image it takes a reference, and gives it up when it is destroyed.\<close>

definition PixmanImagePtr_new :: "image option \<Rightarrow> pixman \<Rightarrow> (image option \<times> pixman) option" where
  "PixmanImagePtr_new img p = (case img of None \<Rightarrow> Some (None, p) | Some i \<Rightarrow> map_option (\<lambda>p1. (Some i, p1)) (pixman_image_ref i p))"

definition PixmanImagePtr_delete :: "image option \<Rightarrow> pixman \<Rightarrow> pixman option" where
  "PixmanImagePtr_delete mImage p = (case mImage of None \<Rightarrow> Some p | Some i \<Rightarrow> pixman_image_unref i p)"

text \<open>Move assignment: the old image is given up, the other pointer becomes null.\<close>

definition PixmanImagePtr_move :: "image option \<Rightarrow> image option \<Rightarrow> pixman \<Rightarrow> (image option \<times> image option \<times> pixman) option" where
  "PixmanImagePtr_move mImage other p = map_option (\<lambda>p1. (other, None, p1)) (PixmanImagePtr_delete mImage p)"

section \<open>One display\<close>

record display =
  mDisplayId :: u8
  mWidth :: u32
  mHeight :: u32
  mSeq :: u64
  mSourceImage :: "image option"
  mActive :: bool

definition updateSourceImage :: "image \<Rightarrow> display \<Rightarrow> pixman \<Rightarrow> (display \<times> pixman) option" where
  "updateSourceImage img d p =
     Option.bind (PixmanImagePtr_new (Some img) p) (\<lambda>(tmp, p1).
     Option.bind (PixmanImagePtr_move (mSourceImage d) tmp p1) (\<lambda>(source, tmp, p2).
     Option.bind (PixmanImagePtr_delete tmp p2) (\<lambda>p3.
     Option.bind (pixman_image_size img p3) (\<lambda>(w, h).
     Some (d\<lparr>mSourceImage := source, mWidth := w, mHeight := h\<rparr>, p3)))))"

definition PixmanDisplay_new :: "u8 \<Rightarrow> image \<Rightarrow> pixman \<Rightarrow> (display \<times> pixman) option" where
  "PixmanDisplay_new did img p =
     Option.bind (pixman_image_size img p) (\<lambda>(w, h).
     updateSourceImage img \<lparr>mDisplayId = did, mWidth = w, mHeight = h, mSeq = 0, mSourceImage = None, mActive = True\<rparr> p)"

text \<open>A display of QEMU needs an input device for its head; the argument tells for which heads there is one.\<close>

definition QemuDisplay_new :: "(u8 \<Rightarrow> bool) \<Rightarrow> u8 \<Rightarrow> image \<Rightarrow> pixman \<Rightarrow> (display \<times> pixman) option" where
  "QemuDisplay_new has_device did img p = Option.bind (PixmanDisplay_new did img p) (\<lambda>r. if has_device did then Some r else None)"

definition display_delete :: "display \<Rightarrow> pixman \<Rightarrow> pixman option" where
  "display_delete d p = PixmanImagePtr_delete (mSourceImage d) p"

definition frameReceived :: "display \<Rightarrow> display" where
  "frameReceived d = d\<lparr>mSeq := mSeq d + 1\<rparr>"

definition updateSurface :: "display \<Rightarrow> display" where
  "updateSurface d = frameReceived d"

section \<open>All displays\<close>

datatype display_error = AlreadyExists | NotFound | Unimplemented

record multi_display =
  mDisplays :: "u32 \<Rightarrow> display option"
  images :: pixman

definition createDisplay :: "u32 \<Rightarrow> u32 \<Rightarrow> u32 \<Rightarrow> multi_display \<Rightarrow> (display_error + display) \<times> multi_display" where
  "createDisplay displayId width height m = (Inl Unimplemented, m)"

definition createDisplayFromQemu :: "(u8 \<Rightarrow> bool) \<Rightarrow> image \<Rightarrow> u8 \<Rightarrow> multi_display \<Rightarrow> ((display_error + display) \<times> multi_display) option" where
  "createDisplayFromQemu has_device img did m =
     Option.bind (QemuDisplay_new has_device did img (images m)) (\<lambda>(d, p1).
     case mDisplays m (ucast did) of
       Some _ \<Rightarrow> map_option (\<lambda>p2. (Inl AlreadyExists, m\<lparr>images := p2\<rparr>)) (display_delete d p1)
     | None \<Rightarrow> Some (Inr d, m\<lparr>mDisplays := (mDisplays m)(ucast did \<mapsto> d), images := p1\<rparr>))"

definition getDisplayWeak :: "u32 \<Rightarrow> multi_display \<Rightarrow> display_error + display" where
  "getDisplayWeak displayId m = (case mDisplays m displayId of None \<Rightarrow> Inl NotFound | Some d \<Rightarrow> Inr d)"

definition getDisplay :: "u32 \<Rightarrow> multi_display \<Rightarrow> display_error + display" where
  "getDisplay displayId m = getDisplayWeak displayId m"

definition defaultDisplay :: "multi_display \<Rightarrow> display_error + display" where
  "defaultDisplay m = getDisplay 0 m"

definition eraseDisplay :: "u32 \<Rightarrow> multi_display \<Rightarrow> ((display_error + unit) \<times> multi_display) option" where
  "eraseDisplay displayId m =
     (case mDisplays m displayId of
        None \<Rightarrow> Some (Inl NotFound, m)
      | Some d \<Rightarrow> map_option (\<lambda>p. (Inr (), m\<lparr>mDisplays := (mDisplays m)(displayId := None), images := p\<rparr>)) (display_delete d (images m)))"

text \<open>The active displays, as a set since the order of a hash table is not specified.\<close>

definition displays :: "multi_display \<Rightarrow> display set" where
  "displays m = {d \<in> ran (mDisplays m). mActive d}"

text \<open>The callbacks of QEMU, with the index of the console.\<close>

definition grpc_dpy_gfx_update :: "u32 \<Rightarrow> multi_display \<Rightarrow> multi_display" where
  "grpc_dpy_gfx_update index m =
     (case getDisplayWeak index m of Inl _ \<Rightarrow> m | Inr d \<Rightarrow> m\<lparr>mDisplays := (mDisplays m)(index \<mapsto> updateSurface d)\<rparr>)"

definition grpc_dpy_gfx_switch :: "(u8 \<Rightarrow> bool) \<Rightarrow> u32 \<Rightarrow> image \<Rightarrow> multi_display \<Rightarrow> multi_display option" where
  "grpc_dpy_gfx_switch has_device index img m =
     (case getDisplayWeak index m of
        Inl _ \<Rightarrow> map_option snd (createDisplayFromQemu has_device img (ucast index) m)
      | Inr d \<Rightarrow> map_option (\<lambda>(d1, p). m\<lparr>mDisplays := (mDisplays m)(index \<mapsto> d1), images := p\<rparr>) (updateSourceImage img d (images m)))"

section \<open>Images of displays live\<close>

text \<open>The image of a display, and how many displays have an image.\<close>

definition source_of :: "multi_display \<Rightarrow> u32 \<Rightarrow> image option" where
  "source_of m k = Option.bind (mDisplays m k) mSourceImage"

definition held :: "(u32 \<Rightarrow> image option) \<Rightarrow> image \<Rightarrow> nat" where
  "held f i = card {k. f k = Some i}"

lemma held_upd: "held (f(a := v)) i + (if f a = Some i then 1 else 0) = held f i + (if v = Some i then 1 else 0)"
proof -
  let ?S = "{k. k \<noteq> a \<and> f k = Some i}"
  have "{k. f k = Some i} = (if f a = Some i then insert a ?S else ?S)" "{k. (f(a := v)) k = Some i} = (if v = Some i then insert a ?S else ?S)" by auto
  then show ?thesis by (simp add: held_def)
qed

lemma held_pos: "f k = Some i \<Longrightarrow> 0 < held f i"
  by (auto simp: held_def card_gt_0_iff)

text \<open>The argument \<open>ext\<close> has the references that QEMU holds itself.\<close>

definition displays_inv :: "(image \<Rightarrow> nat) \<Rightarrow> multi_display \<Rightarrow> bool" where
  "displays_inv ext m \<longleftrightarrow> (\<forall>i. refs (images m) i = ext i + held (source_of m) i) \<and>
     (\<forall>k d. mDisplays m k = Some d \<longrightarrow> k = ucast (mDisplayId d) \<and> mSourceImage d \<noteq> None)"

lemma display_source:
  assumes "displays_inv ext m" and "mDisplays m k = Some d"
  obtains i where "mSourceImage d = Some i" "k = ucast (mDisplayId d)"
proof -
  have "k = ucast (mDisplayId d)" "mSourceImage d \<noteq> None" using assms unfolding displays_inv_def by blast+
  then show thesis using that by (cases "mSourceImage d") auto
qed

lemma update_source:
  assumes "0 < refs p img" and "\<And>i. mSourceImage d = Some i \<Longrightarrow> 0 < refs p i"
  shows "\<exists>p'. updateSourceImage img d p = Some (d\<lparr>mSourceImage := Some img, mWidth := fst (dims p img), mHeight := snd (dims p img)\<rparr>, p') \<and>
    (\<forall>i. refs p' i + (if mSourceImage d = Some i then 1 else 0) = refs p i + (if img = i then 1 else 0)) \<and> dims p' = dims p"
  using assms
  by (cases "mSourceImage d")
    (auto simp: updateSourceImage_def PixmanImagePtr_new_def PixmanImagePtr_move_def PixmanImagePtr_delete_def pixman_image_ref_def
      pixman_image_unref_def pixman_image_size_def split: prod.splits)

lemma new_display:
  assumes "0 < refs p img" and "has_device did"
  shows "\<exists>d p'. QemuDisplay_new has_device did img p = Some (d, p') \<and> mSourceImage d = Some img \<and> mDisplayId d = did \<and> mSeq d = 0 \<and> mActive d \<and>
    (mWidth d, mHeight d) = dims p img \<and> (\<forall>i. refs p' i = refs p i + (if img = i then 1 else 0))"
proof -
  let ?d = "\<lparr>mDisplayId = did, mWidth = fst (dims p img), mHeight = snd (dims p img), mSeq = 0, mSourceImage = None, mActive = True\<rparr>"
  obtain p' where "updateSourceImage img ?d p = Some (?d\<lparr>mSourceImage := Some img, mWidth := fst (dims p img), mHeight := snd (dims p img)\<rparr>, p')"
    "\<forall>i. refs p' i = refs p i + (if img = i then 1 else 0)" using update_source [of p img ?d] assms by auto
  then show ?thesis using assms by (auto simp: QemuDisplay_new_def PixmanDisplay_new_def pixman_image_size_def split: prod.splits)
qed

lemma delete_display:
  assumes "0 < refs p i" and "mSourceImage d = Some i"
  shows "\<exists>p'. display_delete d p = Some p' \<and> (\<forall>j. refs p' j + (if i = j then 1 else 0) = refs p j)"
  using assms by (auto simp: display_delete_def PixmanImagePtr_delete_def pixman_image_unref_def)

lemma switch_ok:
  assumes "displays_inv ext m" and "0 < ext img" and "has_device (ucast index)"
  shows "\<exists>m'. grpc_dpy_gfx_switch has_device index img m = Some m' \<and> displays_inv ext m'"
proof -
  have r: "refs (images m) i = ext i + held (source_of m) i" for i using assms(1) by (simp add: displays_inv_def)
  then have live: "0 < refs (images m) img" using assms(2) by simp
  show ?thesis
  proof (cases "mDisplays m index")
    case (Some d)
    from display_source [OF assms(1) this] obtain i0 where i0: "mSourceImage d = Some i0" "index = ucast (mDisplayId d)" .
    then have "source_of m index = Some i0" using Some by (simp add: source_of_def)
    then have "0 < refs (images m) i0" using r [of i0] held_pos [of "source_of m"] by simp
    then obtain p' where p': "updateSourceImage img d (images m) = Some (d\<lparr>mSourceImage := Some img, mWidth := fst (dims (images m) img), mHeight := snd (dims (images m) img)\<rparr>, p')"
      "\<And>i. refs p' i + (if i0 = i then 1 else 0) = refs (images m) i + (if img = i then 1 else 0)"
      using update_source [of "images m" img d] live i0(1) by auto
    let ?m' = "m\<lparr>mDisplays := (mDisplays m)(index \<mapsto> d\<lparr>mSourceImage := Some img, mWidth := fst (dims (images m) img), mHeight := snd (dims (images m) img)\<rparr>), images := p'\<rparr>"
    have "source_of ?m' = (source_of m)(index := Some img)" by (auto simp: source_of_def fun_eq_iff)
    then have "refs p' i = ext i + held (source_of ?m') i" for i
      using p'(2) [of i] r [of i] held_upd [of "source_of m" index "Some img" i] \<open>source_of m index = Some i0\<close> by simp
    then have "displays_inv ext ?m'" using assms(1) i0 by (auto simp: displays_inv_def)
    then show ?thesis using Some p'(1) by (simp add: grpc_dpy_gfx_switch_def getDisplayWeak_def)
  next
    case None
    obtain d p' where d: "QemuDisplay_new has_device (ucast index) img (images m) = Some (d, p')" "mSourceImage d = Some img" "mDisplayId d = ucast index"
      "\<And>i. refs p' i = refs (images m) i + (if img = i then 1 else 0)" using new_display [of "images m" img has_device "ucast index"] live assms(3) by auto
    let ?k = "ucast (ucast index :: u8) :: u32"
    show ?thesis
    proof (cases "mDisplays m ?k")
      case None': None
      let ?m' = "m\<lparr>mDisplays := (mDisplays m)(?k \<mapsto> d), images := p'\<rparr>"
      have "source_of ?m' = (source_of m)(?k := Some img)" using d(2) by (auto simp: source_of_def fun_eq_iff)
      then have "refs p' i = ext i + held (source_of ?m') i" for i
        using d(4) [of i] r [of i] held_upd [of "source_of m" ?k "Some img" i] None' by (simp add: source_of_def)
      then have "displays_inv ext ?m'" using assms(1) d by (auto simp: displays_inv_def)
      then show ?thesis using None None' d(1) by (simp add: grpc_dpy_gfx_switch_def getDisplayWeak_def createDisplayFromQemu_def)
    next
      case (Some d0)
      have "0 < refs p' img" using d(4) [of img] by simp
      then obtain p2 where p2: "display_delete d p' = Some p2" "\<And>j. refs p2 j + (if img = j then 1 else 0) = refs p' j" using delete_display d(2) by blast
      have "refs p2 j = refs (images m) j" for j using d(4) [of j] p2(2) [of j] by (cases "img = j") simp_all
      then have "displays_inv ext (m\<lparr>images := p2\<rparr>)" using assms(1) by (simp add: displays_inv_def source_of_def [abs_def])
      then show ?thesis using None Some d(1) p2(1) by (simp add: grpc_dpy_gfx_switch_def getDisplayWeak_def createDisplayFromQemu_def)
    qed
  qed
qed

lemma erase_ok:
  assumes "displays_inv ext m"
  shows "\<exists>r m'. eraseDisplay k m = Some (r, m') \<and> displays_inv ext m' \<and> mDisplays m' = (mDisplays m)(k := None)"
proof (cases "mDisplays m k")
  case None
  then show ?thesis using assms by (auto simp: eraseDisplay_def fun_eq_iff)
next
  case (Some d)
  from display_source [OF assms this] obtain i0 where i0: "mSourceImage d = Some i0" .
  then have s: "source_of m k = Some i0" using Some by (simp add: source_of_def)
  have r: "refs (images m) i = ext i + held (source_of m) i" for i using assms by (simp add: displays_inv_def)
  then have "0 < refs (images m) i0" using held_pos [of "source_of m" k i0] s by simp
  then obtain p' where p': "display_delete d (images m) = Some p'" "\<And>j. refs p' j + (if i0 = j then 1 else 0) = refs (images m) j"
    using delete_display i0 by blast
  let ?m' = "m\<lparr>mDisplays := (mDisplays m)(k := None), images := p'\<rparr>"
  have "source_of ?m' = (source_of m)(k := None)" by (auto simp: source_of_def fun_eq_iff)
  then have "refs p' i = ext i + held (source_of ?m') i" for i
    using p'(2) [of i] r [of i] held_upd [of "source_of m" k None i] s by (auto split: if_splits)
  then have "displays_inv ext ?m'" using assms by (auto simp: displays_inv_def)
  then show ?thesis using Some p'(1) by (simp add: eraseDisplay_def)
qed

lemma frame_keeps_inv: "displays_inv ext m \<Longrightarrow> displays_inv ext (grpc_dpy_gfx_update index m)"
proof -
  assume inv: "displays_inv ext m"
  have "source_of (grpc_dpy_gfx_update index m) = source_of m"
    by (auto simp: grpc_dpy_gfx_update_def getDisplayWeak_def source_of_def updateSurface_def frameReceived_def fun_eq_iff split: option.splits)
  moreover have "images (grpc_dpy_gfx_update index m) = images m" by (simp add: grpc_dpy_gfx_update_def split: sum.splits)
  moreover have "k = ucast (mDisplayId d) \<and> mSourceImage d \<noteq> None" if "mDisplays (grpc_dpy_gfx_update index m) k = Some d" for k d
    using that inv
    by (auto simp: grpc_dpy_gfx_update_def getDisplayWeak_def updateSurface_def frameReceived_def split: option.splits if_splits elim: display_source)
  ultimately show ?thesis using inv by (simp add: displays_inv_def)
qed

text \<open>
  What may happen: QEMU switches the surface of a console to an image that it holds, reports a frame, a display is erased, and QEMU takes
  and gives up references of its own, also to new images.
\<close>

inductive displays_reachable :: "(u8 \<Rightarrow> bool) \<Rightarrow> (image \<Rightarrow> nat) \<Rightarrow> multi_display \<Rightarrow> bool" for has_device where
  start: "(\<And>i. refs p i = ext i) \<Longrightarrow> displays_reachable has_device ext \<lparr>mDisplays = (\<lambda>k. None), images = p\<rparr>"
| switch: "\<lbrakk>displays_reachable has_device ext m; 0 < ext img; has_device (ucast index); grpc_dpy_gfx_switch has_device index img m = Some m'\<rbrakk> \<Longrightarrow>
    displays_reachable has_device ext m'"
| frame: "displays_reachable has_device ext m \<Longrightarrow> displays_reachable has_device ext (grpc_dpy_gfx_update index m)"
| erase: "\<lbrakk>displays_reachable has_device ext m; eraseDisplay k m = Some (r, m')\<rbrakk> \<Longrightarrow> displays_reachable has_device ext m'"
| qemu: "\<lbrakk>displays_reachable has_device ext m; \<And>i. refs p i + ext i = refs (images m) i + ext' i\<rbrakk> \<Longrightarrow>
    displays_reachable has_device ext' (m\<lparr>images := p\<rparr>)"

lemma displays_reachable_inv: "displays_reachable has_device ext m \<Longrightarrow> displays_inv ext m"
proof (induction rule: displays_reachable.induct)
  case (start p ext)
  then show ?case by (simp add: displays_inv_def source_of_def held_def)
next
  case (switch ext m img index m')
  then show ?case using switch_ok [of ext m img has_device index] by auto
next
  case (erase ext m k r m')
  then show ?case using erase_ok [of ext m k] by auto
next
  case (qemu ext m p ext')
  have "refs p i = ext' i + held (source_of (m\<lparr>images := p\<rparr>)) i" for i
    using qemu.hyps(2) [of i] qemu.IH by (simp add: displays_inv_def source_of_def [abs_def])
  then show ?case using qemu.IH by (simp add: displays_inv_def)
qed (rule frame_keeps_inv)

text \<open>
  C25: In every reachable state the image of each display is alive and each display holds one reference to it, no display has an index beyond 255, and
  every operation returns: no image is used after it was freed.
\<close>

theorem display_images_live:
  assumes "displays_reachable has_device ext m"
  shows "(\<forall>i. refs (images m) i = ext i + held (source_of m) i) \<and>
    (\<forall>k d. mDisplays m k = Some d \<longrightarrow> k = ucast (mDisplayId d) \<and> (\<exists>i. mSourceImage d = Some i \<and> 0 < refs (images m) i)) \<and>
    (\<forall>index img. 0 < ext img \<and> has_device (ucast index) \<longrightarrow> grpc_dpy_gfx_switch has_device index img m \<noteq> None) \<and>
    (\<forall>k. eraseDisplay k m \<noteq> None)"
proof -
  have inv: "displays_inv ext m" using assms by (rule displays_reachable_inv)
  have "\<exists>i. mSourceImage d = Some i \<and> 0 < refs (images m) i" "k = ucast (mDisplayId d)" if d: "mDisplays m k = Some d" for k d
  proof -
    obtain i where i: "mSourceImage d = Some i" "k = ucast (mDisplayId d)" by (rule display_source [OF inv d])
    have "0 < held (source_of m) i" using d i(1) by (intro held_pos [of _ k]) (simp add: source_of_def)
    then show "\<exists>i. mSourceImage d = Some i \<and> 0 < refs (images m) i" using inv i(1) by (simp add: displays_inv_def)
    show "k = ucast (mDisplayId d)" by (rule i(2))
  qed
  moreover have "grpc_dpy_gfx_switch has_device index img m \<noteq> None" if "0 < ext img" "has_device (ucast index)" for index img
    using switch_ok [of ext m img has_device index] inv that by auto
  moreover have "eraseDisplay k m \<noteq> None" for k using erase_ok [OF inv, of k] by auto
  ultimately show ?thesis using inv by (simp add: displays_inv_def)
qed

text \<open>One console whose surface is switched once, after which QEMU gives up its own reference.\<close>

definition sample_images :: pixman where
  "sample_images = \<lparr>refs = (\<lambda>i. if i = 7 then 1 else 0), dims = (\<lambda>i. (320, 200))\<rparr>"

definition sample_display :: display where
  "sample_display = \<lparr>mDisplayId = 0, mWidth = 320, mHeight = 200, mSeq = 0, mSourceImage = Some 7, mActive = True\<rparr>"

theorem display_images_live_witness:
  "displays_reachable (\<lambda>h. True) (\<lambda>i. 0) \<lparr>mDisplays = [0 \<mapsto> sample_display], images = sample_images\<rparr> \<and> (\<exists>i. mSourceImage sample_display = Some i \<and> 0 < refs sample_images i)"
proof -
  let ?m0 = "\<lparr>mDisplays = (\<lambda>k. None), images = sample_images\<rparr>" and ?p = "sample_images\<lparr>refs := (\<lambda>i. if i = 7 then 2 else 0)\<rparr>"
  have "displays_reachable (\<lambda>h. True) (\<lambda>i. if i = 7 then 1 else 0) ?m0" by (rule displays_reachable.start) (simp add: sample_images_def)
  moreover have "grpc_dpy_gfx_switch (\<lambda>h. True) 0 7 ?m0 = Some \<lparr>mDisplays = [0 \<mapsto> sample_display], images = ?p\<rparr>"
    by (simp add: grpc_dpy_gfx_switch_def getDisplayWeak_def createDisplayFromQemu_def QemuDisplay_new_def PixmanDisplay_new_def pixman_image_size_def
        updateSourceImage_def PixmanImagePtr_new_def PixmanImagePtr_move_def PixmanImagePtr_delete_def pixman_image_ref_def sample_images_def sample_display_def fun_eq_iff)
  ultimately have "displays_reachable (\<lambda>h. True) (\<lambda>i. if i = 7 then 1 else 0) \<lparr>mDisplays = [0 \<mapsto> sample_display], images = ?p\<rparr>"
    using displays_reachable.switch [of "\<lambda>h. True" _ ?m0 7 0] by simp
  from displays_reachable.qemu [OF this, of sample_images "\<lambda>i. 0"]
  have r: "displays_reachable (\<lambda>h. True) (\<lambda>i. 0) \<lparr>mDisplays = [0 \<mapsto> sample_display], images = sample_images\<rparr>" by (simp add: sample_images_def)
  have "mDisplays \<lparr>mDisplays = [0 \<mapsto> sample_display], images = sample_images\<rparr> 0 = Some sample_display" by simp
  then show ?thesis using display_images_live [OF r, THEN conjunct2, THEN conjunct1, rule_format, of 0 sample_display] r by simp
qed

section \<open>Frames\<close>

text \<open>
  The condition that \<^verbatim>\<open>waitForFrame\<close> waits for: the number of the last frame is an int of 32 bits, which is extended to 64 bits as a signed
  number.  \<^verbatim>\<open>waitForNextFrame\<close> passes the number of the current frame.
\<close>

definition waitForFrame :: "u32 \<Rightarrow> display \<Rightarrow> bool" where
  "waitForFrame lastSequenceNumber d \<longleftrightarrow> scast lastSequenceNumber < mSeq d"

definition waitForNextFrame :: "display \<Rightarrow> display \<Rightarrow> bool" where
  "waitForNextFrame d d' \<longleftrightarrow> waitForFrame (ucast (mSeq d)) d'"

lemma scast_ucast_small:
  assumes "take_bit 31 x = x"
  shows "scast (ucast (x :: u64) :: u32) = x"
proof (rule bit_word_eqI)
  fix n
  have "bit x k \<Longrightarrow> k < 31" for k using assms by (metis bit_take_bit_iff)
  then have "\<not> bit x 31" "31 \<le> n \<Longrightarrow> \<not> bit x n" by fastforce+
  then show "n < LENGTH(64) \<Longrightarrow> bit (scast (ucast x :: u32) :: u64) n = bit x n"
    by (cases "31 \<le> n") (auto simp: bit_simps min_def)
qed

text \<open>A frame is counted on its display alone, and is noticed as long as the number of frames fits 31 bits.\<close>

lemma frame_is_noticed:
  assumes "mDisplays m index = Some d" and "take_bit 31 (mSeq d) = mSeq d"
  shows "\<exists>d'. mDisplays (grpc_dpy_gfx_update index m) index = Some d' \<and> waitForNextFrame d d' \<and>
    (\<forall>k. k \<noteq> index \<longrightarrow> mDisplays (grpc_dpy_gfx_update index m) k = mDisplays m k)"
proof -
  have "mSeq d \<noteq> - 1"
  proof
    assume "mSeq d = - 1"
    moreover have "take_bit 31 (- 1 :: u64) \<noteq> - 1" by code_simp
    ultimately show False using assms(2) by simp
  qed
  then have "mSeq d < mSeq d + 1" using word_le_succ_iff [of "mSeq d" "mSeq d"] by (auto simp: order_less_le)
  then show ?thesis using assms
    by (auto simp: grpc_dpy_gfx_update_def getDisplayWeak_def updateSurface_def frameReceived_def waitForNextFrame_def waitForFrame_def scast_ucast_small)
qed

text \<open>After two thousand million frames the next frame is not noticed.\<close>

lemma late_frame_not_noticed: "mSeq d = 2 ^ 31 \<Longrightarrow> \<not> waitForNextFrame d (updateSurface d)"
proof -
  assume s: "mSeq d = 2 ^ 31"
  have "scast (ucast (2 ^ 31 :: u64) :: u32) = (0xFFFFFFFF80000000 :: u64)" by code_simp
  then show "\<not> waitForNextFrame d (updateSurface d)"
    by (simp add: waitForNextFrame_def waitForFrame_def updateSurface_def frameReceived_def s)
qed

text \<open>
  The identifier of a display has eight bits: the display of console 256 is created as display 0 or, if there is one, never, whatever surfaces the
  console has.  Also the default display can be erased.
\<close>

lemma console_256_has_no_display:
  assumes "displays_inv ext m" and "0 < ext img" and "has_device 0" and "mDisplays m 0 = Some d" and "mDisplays m 256 = None"
  shows "\<exists>m'. grpc_dpy_gfx_switch has_device 256 img m = Some m' \<and> mDisplays m' = mDisplays m"
proof -
  have z: "ucast (256 :: u32) = (0 :: u8)" by code_simp
  have "0 < refs (images m) img" using assms(1,2) by (simp add: displays_inv_def)
  then obtain d1 p1 where "QemuDisplay_new has_device 0 img (images m) = Some (d1, p1)" "mSourceImage d1 = Some img"
    "\<And>i. refs p1 i = refs (images m) i + (if img = i then 1 else 0)" using new_display [of "images m" img has_device 0] assms(3) by auto
  moreover obtain p2 where "display_delete d1 p1 = Some p2" using delete_display [of p1 img d1] calculation(2,3) by auto
  ultimately have "createDisplayFromQemu has_device img 0 m = Some (Inl AlreadyExists, m\<lparr>images := p2\<rparr>)"
    using assms(4) by (simp add: createDisplayFromQemu_def)
  then have "grpc_dpy_gfx_switch has_device 256 img m = Some (m\<lparr>images := p2\<rparr>)"
    unfolding grpc_dpy_gfx_switch_def getDisplayWeak_def z using assms(5) by simp
  then show ?thesis by simp
qed

lemma default_display_can_be_erased:
  assumes "displays_inv ext m"
  shows "\<exists>r m'. eraseDisplay 0 m = Some (r, m') \<and> defaultDisplay m' = Inl NotFound"
  using erase_ok [OF assms, of 0] by (auto simp: defaultDisplay_def getDisplay_def getDisplayWeak_def)

end
