(* ===== verification/Qemu_Looper.thy ===== *)
theory Qemu_Looper
  imports Socket_Waiter
begin

text \<open>
  The looper on top of QEMU's main loop (\<^verbatim>\<open>qemu-looper.cpp\<close>).  QEMU calls one handler for reading and one for writing; a watch collects
  their events and is put into a set of pending watches, which a bottom half of QEMU fires later.  Watches are objects in a store,
  so that a deleted one is noticed; \<open>None\<close> is a failed check, the use of a deleted watch or of an iterator that is no longer valid.
  The set is a list in the order in which it is visited; where a new watch is inserted there is an argument.
\<close>

unbundle bit_operations_syntax

section \<open>Watches\<close>

abbreviation (input) kEventMask :: u32 where "kEventMask \<equiv> 3"

record qemu_watch =
  mFd :: int
  mWantedEvents :: u32
  mPendingEvents :: u32

text \<open>
  The handlers that QEMU has for a descriptor: the watch, and whether reading and writing are handled.  While the bottom half runs, \<open>iterator\<close> is
  the watch its iterator points to; \<open>fired\<close> records the callbacks.
\<close>

record qemu_looper =
  watches :: "nat \<Rightarrow> qemu_watch option"
  mPendingFdWatches :: "nat list"
  handlers :: "int \<Rightarrow> (nat \<times> bool \<times> bool) option"
  bh_scheduled :: bool
  iterator :: "nat option"
  fired :: "(nat \<times> u32) list"

definition QemuLooperImpl_new :: qemu_looper where
  "QemuLooperImpl_new = \<lparr>watches = (\<lambda>w. None), mPendingFdWatches = [], handlers = (\<lambda>fd. None), bh_scheduled = False, iterator = None, fired = []\<rparr>"

definition set_watch :: "nat \<Rightarrow> qemu_watch \<Rightarrow> qemu_looper \<Rightarrow> qemu_looper" where
  "set_watch w x L = L\<lparr>watches := (watches L)(w \<mapsto> x)\<rparr>"

definition qemu_addPendingFdWatch :: "nat \<Rightarrow> nat \<Rightarrow> qemu_looper \<Rightarrow> qemu_looper option" where
  "qemu_addPendingFdWatch place w L =
     (let firstFdWatch = mPendingFdWatches L = []
      in if w \<in> set (mPendingFdWatches L) then None
         else Some (L\<lparr>mPendingFdWatches := take place (mPendingFdWatches L) @ w # drop place (mPendingFdWatches L),
                      bh_scheduled := bh_scheduled L \<or> firstFdWatch\<rparr>))"

definition qemu_delPendingFdWatch :: "nat \<Rightarrow> qemu_looper \<Rightarrow> qemu_looper option" where
  "qemu_delPendingFdWatch w L =
     (if w \<notin> set (mPendingFdWatches L) \<or> iterator L = Some w then None else Some (L\<lparr>mPendingFdWatches := remove1 w (mPendingFdWatches L)\<rparr>))"

definition updateEvents :: "nat \<Rightarrow> u32 \<Rightarrow> qemu_looper \<Rightarrow> qemu_looper option" where
  "updateEvents w events L =
     (case watches L w of
        None \<Rightarrow> None
      | Some x \<Rightarrow>
          if events = mWantedEvents x then Some L
          else let rd = events AND kEventRead \<noteq> 0; wr = events AND kEventWrite \<noteq> 0
               in Some (set_watch w (x\<lparr>mWantedEvents := events\<rparr>)
                    (L\<lparr>handlers := (handlers L)(mFd x := (if rd \<or> wr then Some (w, rd, wr) else None))\<rparr>)))"

definition qemu_addEvents :: "nat \<Rightarrow> u32 \<Rightarrow> qemu_looper \<Rightarrow> qemu_looper option" where
  "qemu_addEvents w events L = (case watches L w of None \<Rightarrow> None | Some x \<Rightarrow> updateEvents w (mWantedEvents x OR (events AND kEventMask)) L)"

definition qemu_removeEvents :: "nat \<Rightarrow> u32 \<Rightarrow> qemu_looper \<Rightarrow> qemu_looper option" where
  "qemu_removeEvents w events L = (case watches L w of None \<Rightarrow> None | Some x \<Rightarrow> updateEvents w (mWantedEvents x AND NOT (events AND kEventMask)) L)"

definition FdWatch_poll :: "nat \<Rightarrow> qemu_looper \<Rightarrow> u32 option" where
  "FdWatch_poll w L = map_option mPendingEvents (watches L w)"

definition setPending :: "nat \<Rightarrow> nat \<Rightarrow> u32 \<Rightarrow> qemu_looper \<Rightarrow> qemu_looper option" where
  "setPending place w event L =
     (case watches L w of
        None \<Rightarrow> None
      | Some x \<Rightarrow> map_option (set_watch w (x\<lparr>mPendingEvents := mPendingEvents x OR event\<rparr>))
          (if mPendingEvents x = 0 then qemu_addPendingFdWatch place w L else Some L))"

definition clearPending :: "nat \<Rightarrow> qemu_looper \<Rightarrow> qemu_looper option" where
  "clearPending w L =
     (case watches L w of
        None \<Rightarrow> None
      | Some x \<Rightarrow> if mPendingEvents x \<noteq> 0 then map_option (set_watch w (x\<lparr>mPendingEvents := 0\<rparr>)) (qemu_delPendingFdWatch w L) else Some L)"

definition createFdWatch :: "nat \<Rightarrow> int \<Rightarrow> qemu_looper \<Rightarrow> qemu_looper option" where
  "createFdWatch w fd L = (if watches L w \<noteq> None then None else Some (set_watch w \<lparr>mFd = fd, mWantedEvents = 0, mPendingEvents = 0\<rparr> L))"

definition qemu_FdWatch_delete :: "nat \<Rightarrow> qemu_looper \<Rightarrow> qemu_looper option" where
  "qemu_FdWatch_delete w L =
     Option.bind (clearPending w L) (\<lambda>L1. map_option (\<lambda>L2. L2\<lparr>watches := (watches L2)(w := None)\<rparr>) (updateEvents w 0 L1))"

text \<open>The handlers that QEMU calls for a descriptor.\<close>

definition handleRead :: "nat \<Rightarrow> int \<Rightarrow> qemu_looper \<Rightarrow> qemu_looper option" where
  "handleRead place fd L = (case handlers L fd of Some (w, True, _) \<Rightarrow> setPending place w kEventRead L | _ \<Rightarrow> Some L)"

definition handleWrite :: "nat \<Rightarrow> int \<Rightarrow> qemu_looper \<Rightarrow> qemu_looper option" where
  "handleWrite place fd L = (case handlers L fd of Some (w, _, True) \<Rightarrow> setPending place w kEventWrite L | _ \<Rightarrow> Some L)"

section \<open>The bottom half\<close>

text \<open>What a callback does is a sequence of operations.\<close>

datatype watch_op = AddEvents nat u32 | RemoveEvents nat u32 | DeleteWatch nat | CreateWatch nat int

fun exec_watch_op :: "watch_op \<Rightarrow> qemu_looper \<Rightarrow> qemu_looper option" where
  "exec_watch_op (AddEvents w e) L = qemu_addEvents w e L"
| "exec_watch_op (RemoveEvents w e) L = qemu_removeEvents w e L"
| "exec_watch_op (DeleteWatch w) L = qemu_FdWatch_delete w L"
| "exec_watch_op (CreateWatch w fd) L = createFdWatch w fd L"

fun watch_ops :: "watch_op list \<Rightarrow> qemu_looper \<Rightarrow> qemu_looper option" where
  "watch_ops [] L = Some L"
| "watch_ops (op # ops) L = Option.bind (exec_watch_op op L) (watch_ops ops)"

type_synonym watch_callbacks = "nat \<Rightarrow> u32 \<Rightarrow> watch_op list"

definition qemu_FdWatch_fire :: "watch_callbacks \<Rightarrow> nat \<Rightarrow> qemu_looper \<Rightarrow> qemu_looper option" where
  "qemu_FdWatch_fire cb w L =
     (case watches L w of
        None \<Rightarrow> None
      | Some x \<Rightarrow>
          if mPendingEvents x = 0 then None
          else watch_ops (cb w (mPendingEvents x))
                 ((set_watch w (x\<lparr>mPendingEvents := 0\<rparr>) L)\<lparr>fired := fired L @ [(w, mPendingEvents x)]\<rparr>))"

text \<open>The watch behind a watch in the set.\<close>

definition successor :: "nat \<Rightarrow> nat list \<Rightarrow> nat option" where
  "successor w ws = (case dropWhile (\<lambda>v. v \<noteq> w) ws of _ # v # vs \<Rightarrow> Some v | _ \<Rightarrow> None)"

partial_function (option) pending_loop :: "watch_callbacks \<Rightarrow> qemu_looper \<Rightarrow> qemu_looper option" where
  "pending_loop cb L =
     (case iterator L of
        None \<Rightarrow> Some L
      | Some w \<Rightarrow>
          let L1 = L\<lparr>iterator := successor w (mPendingFdWatches L), mPendingFdWatches := remove1 w (mPendingFdWatches L)\<rparr>
          in Option.bind (qemu_FdWatch_fire cb w L1) (pending_loop cb))"

declare pending_loop.simps [code]

definition handleBottomHalf :: "watch_callbacks \<Rightarrow> qemu_looper \<Rightarrow> qemu_looper option" where
  "handleBottomHalf cb L =
     pending_loop cb (L\<lparr>bh_scheduled := False, iterator := (case mPendingFdWatches L of [] \<Rightarrow> None | w # _ \<Rightarrow> Some w)\<rparr>)"

section \<open>Events are not lost\<close>

text \<open>
  The pending watches are those with events; between two steps of the main loop the bottom half is scheduled when there are any.  A handler
  belongs to a watch that lives.
\<close>

definition pending_ok :: "qemu_looper \<Rightarrow> bool" where
  "pending_ok L \<longleftrightarrow> distinct (mPendingFdWatches L) \<and> (\<forall>w. w \<in> set (mPendingFdWatches L) \<longleftrightarrow> (\<exists>x. watches L w = Some x \<and> mPendingEvents x \<noteq> 0))"

definition handlers_ok :: "qemu_looper \<Rightarrow> bool" where
  "handlers_ok L \<longleftrightarrow> (\<forall>fd w r wr. handlers L fd = Some (w, r, wr) \<longrightarrow> (\<exists>x. watches L w = Some x \<and> mFd x = fd \<and> mWantedEvents x \<noteq> 0))"

definition qemu_looper_inv :: "qemu_looper \<Rightarrow> bool" where
  "qemu_looper_inv L \<longleftrightarrow> pending_ok L \<and> handlers_ok L \<and> iterator L = None \<and> (mPendingFdWatches L \<noteq> [] \<longrightarrow> bh_scheduled L)"

lemma handler_of:
  assumes "handlers_ok L" and "watches L w = Some x" and "handlers L fd = Some (w, r, wr)"
  shows "fd = mFd x \<and> mWantedEvents x \<noteq> 0"
  using assms unfolding handlers_ok_def by fastforce

lemma update_pending_ok:
  assumes "pending_ok L" and "handlers_ok L" and "updateEvents w e L = Some L'"
  shows "pending_ok L' \<and> handlers_ok L' \<and> iterator L' = iterator L \<and> mPendingFdWatches L' = mPendingFdWatches L \<and> bh_scheduled L' = bh_scheduled L \<and>
    fired L' = fired L \<and> (\<exists>x. watches L w = Some x \<and> watches L' = (watches L)(w \<mapsto> x\<lparr>mWantedEvents := e\<rparr>))"
proof -
  obtain x where x: "watches L w = Some x" using assms(3) by (auto simp: updateEvents_def split: option.splits)
  show ?thesis
  proof (cases "e = mWantedEvents x")
    case True
    then have "L' = L" using assms(3) x by (simp add: updateEvents_def)
    moreover have "(watches L)(w \<mapsto> x\<lparr>mWantedEvents := e\<rparr>) = watches L" using True x by (auto simp: fun_eq_iff)
    ultimately show ?thesis using assms x by auto
  next
    case False
    have "handlers_ok L'" unfolding handlers_ok_def
    proof (intro allI impI)
      fix fd v r wr assume "handlers L' fd = Some (v, r, wr)"
      then show "\<exists>y. watches L' v = Some y \<and> mFd y = fd \<and> mWantedEvents y \<noteq> 0"
        using False assms(2,3) x handler_of [OF assms(2) x]
        by (cases "fd = mFd x") (auto simp: updateEvents_def Let_def set_watch_def handlers_ok_def split: if_splits)
    qed
    moreover have "pending_ok L'" using False assms(1,3) x by (auto simp: updateEvents_def Let_def set_watch_def pending_ok_def split: if_splits)
    ultimately show ?thesis using False assms(3) x by (auto simp: updateEvents_def Let_def set_watch_def)
  qed
qed

lemma updateEvents_lives: "watches L w = Some x \<Longrightarrow> \<exists>L'. updateEvents w e L = Some L'"
  by (auto simp: updateEvents_def Let_def)

lemma setPending_ok:
  assumes "qemu_looper_inv L" and "watches L w = Some x" and "e \<noteq> 0"
  shows "\<exists>L'. setPending place w e L = Some L' \<and> qemu_looper_inv L' \<and> w \<in> set (mPendingFdWatches L')"
proof -
  have po: "pending_ok L" and ho: "handlers_ok L" using assms(1) by (auto simp: qemu_looper_inv_def)
  have "mPendingEvents x OR e \<noteq> 0" using assms(3) by (metis or_eq_0_iff)
  have ho': "handlers_ok (set_watch w (x\<lparr>mPendingEvents := p\<rparr>) L)" for p
    using ho handler_of [OF ho assms(2)] assms(2) unfolding handlers_ok_def set_watch_def by fastforce
  show ?thesis
  proof (cases "mPendingEvents x = 0")
    case True
    have w: "w \<notin> set (mPendingFdWatches L)" using po True assms(2) by (auto simp: pending_ok_def)
    let ?ps = "take place (mPendingFdWatches L) @ w # drop place (mPendingFdWatches L)"
    have ps: "set ?ps = insert w (set (mPendingFdWatches L))" "distinct ?ps"
      using w po distinct_append [of "take place (mPendingFdWatches L)" "drop place (mPendingFdWatches L)"]
      by (auto simp: pending_ok_def dest: in_set_takeD in_set_dropD) (metis append_take_drop_id set_append Un_iff)
    let ?L = "L\<lparr>mPendingFdWatches := ?ps, bh_scheduled := bh_scheduled L \<or> mPendingFdWatches L = [], watches := (watches L)(w \<mapsto> x\<lparr>mPendingEvents := mPendingEvents x OR e\<rparr>)\<rparr>"
    have "setPending place w e L = Some ?L" using True assms(2) w by (simp add: setPending_def qemu_addPendingFdWatch_def set_watch_def)
    moreover have "pending_ok ?L" using po ps \<open>mPendingEvents x OR e \<noteq> 0\<close> by (auto simp: pending_ok_def simp del: set_append)
    moreover have "handlers_ok ?L" using ho' by (simp add: handlers_ok_def set_watch_def)
    ultimately show ?thesis using assms(1) by (auto simp: qemu_looper_inv_def)
  next
    case False
    then have "w \<in> set (mPendingFdWatches L)" using po assms(2) by (auto simp: pending_ok_def)
    moreover have "pending_ok (set_watch w (x\<lparr>mPendingEvents := mPendingEvents x OR e\<rparr>) L)"
      using po False assms(2) \<open>mPendingEvents x OR e \<noteq> 0\<close> by (auto simp: pending_ok_def set_watch_def)
    ultimately show ?thesis using False assms(1,2) ho' by (simp add: setPending_def qemu_looper_inv_def) (simp add: set_watch_def)
  qed
qed

text \<open>A callback may change the events of its own watch and delete it as the last thing it does.\<close>

fun careful :: "nat \<Rightarrow> watch_op list \<Rightarrow> bool" where
  "careful w [] \<longleftrightarrow> True"
| "careful w (AddEvents v e # ops) \<longleftrightarrow> v = w \<and> careful w ops"
| "careful w (RemoveEvents v e # ops) \<longleftrightarrow> v = w \<and> careful w ops"
| "careful w (DeleteWatch v # ops) \<longleftrightarrow> v = w \<and> ops = []"
| "careful w (CreateWatch v fd # ops) \<longleftrightarrow> False"

definition loop_ok :: "qemu_looper \<Rightarrow> bool" where
  "loop_ok L \<longleftrightarrow> pending_ok L \<and> handlers_ok L \<and> iterator L = (case mPendingFdWatches L of [] \<Rightarrow> None | w # _ \<Rightarrow> Some w)"

text \<open>What operations on the watch \<open>w\<close> keep.\<close>

definition kept :: "nat \<Rightarrow> qemu_looper \<Rightarrow> qemu_looper \<Rightarrow> bool" where
  "kept w L L' \<longleftrightarrow> mPendingFdWatches L' = mPendingFdWatches L \<and> fired L' = fired L \<and> bh_scheduled L' = bh_scheduled L \<and>
     (\<forall>v. v \<noteq> w \<longrightarrow> watches L' v = watches L v)"

lemma update_careful:
  assumes "loop_ok L" and "watches L w = Some x"
  shows "\<exists>L'. updateEvents w e L = Some L' \<and> loop_ok L' \<and> kept w L L' \<and> watches L' w = Some (x\<lparr>mWantedEvents := e\<rparr>)"
proof -
  obtain L' where u: "updateEvents w e L = Some L'" using updateEvents_lives [OF assms(2)] by blast
  have "pending_ok L" "handlers_ok L" using assms(1) by (auto simp: loop_ok_def)
  from update_pending_ok [OF this u] show ?thesis using u assms by (auto simp: loop_ok_def kept_def)
qed

lemma delete_careful:
  assumes "loop_ok L" and "watches L w = Some x" and "mPendingEvents x = 0"
  shows "\<exists>L'. qemu_FdWatch_delete w L = Some L' \<and> loop_ok L' \<and> kept w L L'"
proof -
  obtain L1 where L1: "updateEvents w 0 L = Some L1" "loop_ok L1" "kept w L L1" "watches L1 w = Some (x\<lparr>mWantedEvents := 0\<rparr>)"
    using update_careful [OF assms(1,2), of 0] by auto
  let ?L = "L1\<lparr>watches := (watches L1)(w := None)\<rparr>"
  have "handlers L1 fd \<noteq> Some (w, r, wr)" for fd r wr using handler_of [OF _ L1(4), of fd r wr] L1(2) by (auto simp: loop_ok_def)
  then have "handlers_ok ?L" using L1(2) by (auto simp: loop_ok_def handlers_ok_def)
  moreover have "pending_ok ?L" using L1(2,4) assms(3) by (auto simp: loop_ok_def pending_ok_def)
  ultimately show ?thesis using L1 assms(2,3) by (auto simp: qemu_FdWatch_delete_def clearPending_def loop_ok_def kept_def)
qed

lemma careful_ops:
  assumes "loop_ok L" and "watches L w = Some x" and "mPendingEvents x = 0" and "careful w ops"
  shows "\<exists>L'. watch_ops ops L = Some L' \<and> loop_ok L' \<and> kept w L L'"
  using assms
proof (induction ops arbitrary: L x)
  case Nil
  then show ?case by (simp add: kept_def)
next
  case (Cons op ops)
  show ?case
  proof (cases op)
    case (AddEvents v e)
    then obtain L1 where "qemu_addEvents w e L = Some L1" "loop_ok L1" "kept w L L1" "watches L1 w = Some (x\<lparr>mWantedEvents := mWantedEvents x OR (e AND kEventMask)\<rparr>)"
      using update_careful [OF Cons.prems(1,2)] Cons.prems(2) by (fastforce simp: qemu_addEvents_def)
    then show ?thesis using Cons.IH [of L1 "x\<lparr>mWantedEvents := mWantedEvents x OR (e AND kEventMask)\<rparr>"] Cons.prems AddEvents by (auto simp: kept_def)
  next
    case (RemoveEvents v e)
    then obtain L1 where "qemu_removeEvents w e L = Some L1" "loop_ok L1" "kept w L L1" "watches L1 w = Some (x\<lparr>mWantedEvents := mWantedEvents x AND NOT (e AND kEventMask)\<rparr>)"
      using update_careful [OF Cons.prems(1,2)] Cons.prems(2) by (fastforce simp: qemu_removeEvents_def)
    then show ?thesis using Cons.IH [of L1 "x\<lparr>mWantedEvents := mWantedEvents x AND NOT (e AND kEventMask)\<rparr>"] Cons.prems RemoveEvents by (auto simp: kept_def)
  next
    case (DeleteWatch v)
    then show ?thesis using delete_careful [OF Cons.prems(1-3)] Cons.prems(4) by auto
  qed (use Cons.prems in auto)
qed

definition events_of :: "qemu_looper \<Rightarrow> nat \<Rightarrow> u32" where
  "events_of L w = (case watches L w of None \<Rightarrow> 0 | Some x \<Rightarrow> mPendingEvents x)"

lemma pending_loop_fires:
  assumes "loop_ok L" and "\<And>w e. careful w (cb w e)"
  shows "\<exists>L'. pending_loop cb L = Some L' \<and> loop_ok L' \<and> mPendingFdWatches L' = [] \<and> bh_scheduled L' = bh_scheduled L \<and>
    fired L' = fired L @ map (\<lambda>w. (w, events_of L w)) (mPendingFdWatches L)"
  using assms(1)
proof (induction "mPendingFdWatches L" arbitrary: L)
  case Nil
  then have "iterator L = None" by (metis (no_types, lifting) list.simps(4) loop_ok_def)
  then show ?case using Nil by (subst pending_loop.simps) (simp flip: Nil(1))
next
  case (Cons w ws)
  have po: "pending_ok L" and ho: "handlers_ok L" and it: "iterator L = Some w" using Cons.prems by (auto simp: loop_ok_def simp flip: Cons.hyps(2))
  then obtain x where x: "watches L w = Some x" "mPendingEvents x \<noteq> 0" "w \<notin> set ws" unfolding pending_ok_def Cons.hyps(2) [symmetric] by fastforce
  let ?L1 = "L\<lparr>iterator := successor w (w # ws), mPendingFdWatches := ws\<rparr>"
  let ?L2 = "(set_watch w (x\<lparr>mPendingEvents := 0\<rparr>) ?L1)\<lparr>fired := fired L @ [(w, mPendingEvents x)]\<rparr>"
  have "successor w (w # ws) = (case ws of [] \<Rightarrow> None | v # _ \<Rightarrow> Some v)" by (simp add: successor_def split: list.splits)
  moreover have "pending_ok ?L2" using po x(3) unfolding pending_ok_def set_watch_def by (auto simp flip: Cons.hyps(2))
  moreover have "handlers_ok ?L2" using ho handler_of [OF ho x(1)] x(1) unfolding handlers_ok_def set_watch_def by fastforce
  ultimately have "loop_ok ?L2" by (simp add: loop_ok_def set_watch_def)
  then obtain L3 where L3: "watch_ops (cb w (mPendingEvents x)) ?L2 = Some L3" "loop_ok L3" "kept w ?L2 L3"
    using careful_ops [of ?L2 w "x\<lparr>mPendingEvents := 0\<rparr>" "cb w (mPendingEvents x)"] assms(2) by (auto simp: set_watch_def)
  have ws: "ws = mPendingFdWatches L3" using L3(3) by (simp add: kept_def set_watch_def)
  obtain L' where L': "pending_loop cb L3 = Some L'" "loop_ok L'" "mPendingFdWatches L' = []" "bh_scheduled L' = bh_scheduled L3"
    "fired L' = fired L3 @ map (\<lambda>w. (w, events_of L3 w)) (mPendingFdWatches L3)" using Cons.hyps(1) [OF ws L3(2)] by blast
  have "events_of L3 v = events_of L v" if "v \<in> set ws" for v
    using that x(3) L3(3) by (auto simp: events_of_def kept_def set_watch_def)
  then have "map (\<lambda>w. (w, events_of L3 w)) ws = map (\<lambda>w. (w, events_of L w)) ws" by simp
  moreover have "qemu_FdWatch_fire cb w ?L1 = Some L3" using x L3(1) by (simp add: qemu_FdWatch_fire_def)
  moreover have "events_of L w = mPendingEvents x" using x by (simp add: events_of_def)
  moreover have "fired L3 = fired L @ [(w, mPendingEvents x)]" "bh_scheduled L3 = bh_scheduled L" using L3(3) by (simp_all add: kept_def set_watch_def)
  ultimately show ?case using it L'
    by (subst pending_loop.simps) (simp add: ws [symmetric] flip: Cons.hyps(2))
qed

lemma bottom_half_fires:
  assumes "qemu_looper_inv L" and "\<And>w e. careful w (cb w e)"
  shows "\<exists>L'. handleBottomHalf cb L = Some L' \<and> qemu_looper_inv L' \<and> mPendingFdWatches L' = [] \<and>
    fired L' = fired L @ map (\<lambda>w. (w, events_of L w)) (mPendingFdWatches L)"
proof -
  let ?L = "L\<lparr>bh_scheduled := False, iterator := (case mPendingFdWatches L of [] \<Rightarrow> None | w # _ \<Rightarrow> Some w)\<rparr>"
  have "loop_ok ?L" using assms(1) by (auto simp: loop_ok_def qemu_looper_inv_def pending_ok_def handlers_ok_def)
  from pending_loop_fires [of ?L cb, OF this assms(2)] obtain L' where "pending_loop cb ?L = Some L'" "loop_ok L'" "mPendingFdWatches L' = []"
    "fired L' = fired L @ map (\<lambda>w. (w, events_of ?L w)) (mPendingFdWatches L)" by auto
  moreover have "events_of ?L = events_of L" by (simp add: events_of_def fun_eq_iff)
  ultimately show ?thesis by (auto simp: handleBottomHalf_def loop_ok_def qemu_looper_inv_def)
qed

text \<open>The other operations between two steps of the main loop.\<close>

lemma events_keep_inv:
  assumes "qemu_looper_inv L" and "watches L w \<noteq> None"
  shows "\<exists>L'. updateEvents w e L = Some L' \<and> qemu_looper_inv L'"
proof -
  obtain x where x: "watches L w = Some x" using assms(2) by blast
  then obtain L' where u: "updateEvents w e L = Some L'" using updateEvents_lives [OF x] by blast
  have "pending_ok L" "handlers_ok L" using assms(1) by (auto simp: qemu_looper_inv_def)
  from update_pending_ok [OF this u] show ?thesis using u assms(1) by (auto simp: qemu_looper_inv_def)
qed

lemma create_keeps_inv: "qemu_looper_inv L \<Longrightarrow> createFdWatch w fd L = Some L' \<Longrightarrow> qemu_looper_inv L'"
proof -
  assume inv: "qemu_looper_inv L" and c: "createFdWatch w fd L = Some L'"
  have n: "watches L w = None" and L': "L' = set_watch w \<lparr>mFd = fd, mWantedEvents = 0, mPendingEvents = 0\<rparr> L"
    using c by (auto simp: createFdWatch_def split: if_splits)
  have "pending_ok L'" using inv n by (auto simp: L' set_watch_def qemu_looper_inv_def pending_ok_def)
  moreover have "handlers_ok L'" unfolding handlers_ok_def
  proof (intro allI impI)
    fix f v r wr assume "handlers L' f = Some (v, r, wr)"
    then have "handlers L f = Some (v, r, wr)" by (simp add: L' set_watch_def)
    then obtain y where "watches L v = Some y" "mFd y = f" "mWantedEvents y \<noteq> 0" using inv unfolding qemu_looper_inv_def handlers_ok_def by blast
    then show "\<exists>y. watches L' v = Some y \<and> mFd y = f \<and> mWantedEvents y \<noteq> 0" using n by (auto simp: L' set_watch_def)
  qed
  ultimately show "qemu_looper_inv L'" using inv by (simp add: L' set_watch_def qemu_looper_inv_def)
qed

lemma clear_keeps_inv:
  assumes "qemu_looper_inv L" and "watches L w = Some x"
  shows "\<exists>L'. clearPending w L = Some L' \<and> qemu_looper_inv L' \<and> watches L' w = Some (x\<lparr>mPendingEvents := 0\<rparr>)"
proof (cases "mPendingEvents x = 0")
  case True
  then have "x\<lparr>mPendingEvents := 0\<rparr> = x" by simp
  then show ?thesis using True assms by (auto simp: clearPending_def)
next
  case False
  have po: "pending_ok L" and ho: "handlers_ok L" using assms(1) by (auto simp: qemu_looper_inv_def)
  have w: "w \<in> set (mPendingFdWatches L)" "iterator L \<noteq> Some w" using po False assms by (auto simp: pending_ok_def qemu_looper_inv_def)
  let ?L = "set_watch w (x\<lparr>mPendingEvents := 0\<rparr>) (L\<lparr>mPendingFdWatches := remove1 w (mPendingFdWatches L)\<rparr>)"
  have "pending_ok ?L" using po by (auto simp: pending_ok_def set_watch_def)
  moreover have "handlers_ok ?L" using ho handler_of [OF ho assms(2)] assms(2) unfolding handlers_ok_def set_watch_def by fastforce
  ultimately have "qemu_looper_inv ?L" using assms(1) w by (auto simp: qemu_looper_inv_def set_watch_def)
  moreover have "clearPending w L = Some ?L" using False w assms(2) by (simp add: clearPending_def qemu_delPendingFdWatch_def)
  moreover have "watches ?L w = Some (x\<lparr>mPendingEvents := 0\<rparr>)" by (simp add: set_watch_def)
  ultimately show ?thesis by blast
qed

lemma delete_keeps_inv:
  assumes "qemu_looper_inv L" and "watches L w \<noteq> None"
  shows "\<exists>L'. qemu_FdWatch_delete w L = Some L' \<and> qemu_looper_inv L'"
proof -
  obtain x where "watches L w = Some x" using assms(2) by blast
  then obtain L1 where L1: "clearPending w L = Some L1" "qemu_looper_inv L1" "watches L1 w = Some (x\<lparr>mPendingEvents := 0\<rparr>)"
    using clear_keeps_inv [OF assms(1)] by blast
  have lo: "loop_ok (L1\<lparr>iterator := (case mPendingFdWatches L1 of [] \<Rightarrow> None | w # _ \<Rightarrow> Some w)\<rparr>)"
    using L1(2) by (auto simp: loop_ok_def qemu_looper_inv_def pending_ok_def handlers_ok_def)
  obtain L2 where L2: "updateEvents w 0 L1 = Some L2" using updateEvents_lives [OF L1(3)] by blast
  have "pending_ok L1" "handlers_ok L1" using L1(2) by (auto simp: qemu_looper_inv_def)
  note u = update_pending_ok [OF this L2]
  have x2: "watches L2 w = Some (x\<lparr>mPendingEvents := 0, mWantedEvents := 0\<rparr>)" using u L1(3) by auto
  let ?L = "L2\<lparr>watches := (watches L2)(w := None)\<rparr>"
  have "handlers L2 fd \<noteq> Some (w, r, wr)" for fd r wr using handler_of [OF _ x2, of fd r wr] u by auto
  then have "handlers_ok ?L" using u by (auto simp: handlers_ok_def)
  moreover have "pending_ok ?L" using u x2 by (auto simp: pending_ok_def)
  ultimately have "qemu_looper_inv ?L" using u L1(2) by (auto simp: qemu_looper_inv_def)
  then show ?thesis using L1(1) L2 by (simp add: qemu_FdWatch_delete_def)
qed

lemma handle_keeps_inv:
  assumes "qemu_looper_inv L"
  shows "\<exists>L'. handleRead place fd L = Some L' \<and> qemu_looper_inv L'" and "\<exists>L'. handleWrite place fd L = Some L' \<and> qemu_looper_inv L'"
proof -
  have live: "\<exists>x. watches L w = Some x" if "handlers L fd = Some (w, r, wr)" for w r wr
    using that assms unfolding qemu_looper_inv_def handlers_ok_def by blast
  show "\<exists>L'. handleRead place fd L = Some L' \<and> qemu_looper_inv L'" "\<exists>L'. handleWrite place fd L = Some L' \<and> qemu_looper_inv L'"
    using assms live setPending_ok [OF assms, of _ _ 1 place] setPending_ok [OF assms, of _ _ 2 place]
    by (auto simp: handleRead_def handleWrite_def split: option.splits bool.splits) (blast+)?
qed

text \<open>The states that the operations, the handlers and careful callbacks lead to.\<close>

inductive qemu_reachable :: "qemu_looper \<Rightarrow> bool" where
  start: "qemu_reachable QemuLooperImpl_new"
| create: "qemu_reachable L \<Longrightarrow> createFdWatch w fd L = Some L' \<Longrightarrow> qemu_reachable L'"
| add: "qemu_reachable L \<Longrightarrow> qemu_addEvents w e L = Some L' \<Longrightarrow> qemu_reachable L'"
| remove: "qemu_reachable L \<Longrightarrow> qemu_removeEvents w e L = Some L' \<Longrightarrow> qemu_reachable L'"
| delete: "qemu_reachable L \<Longrightarrow> qemu_FdWatch_delete w L = Some L' \<Longrightarrow> qemu_reachable L'"
| reads: "qemu_reachable L \<Longrightarrow> handleRead place fd L = Some L' \<Longrightarrow> qemu_reachable L'"
| writes: "qemu_reachable L \<Longrightarrow> handleWrite place fd L = Some L' \<Longrightarrow> qemu_reachable L'"
| bottom_half: "qemu_reachable L \<Longrightarrow> (\<And>w e. careful w (cb w e)) \<Longrightarrow> handleBottomHalf cb L = Some L' \<Longrightarrow> qemu_reachable L'"

lemma qemu_reachable_inv: "qemu_reachable L \<Longrightarrow> qemu_looper_inv L"
proof (induction rule: qemu_reachable.induct)
  case start
  then show ?case by (simp add: QemuLooperImpl_new_def qemu_looper_inv_def pending_ok_def handlers_ok_def)
next
  case (create L w fd L')
  then show ?case by (blast intro: create_keeps_inv)
next
  case (add L w e L')
  then obtain x where "watches L w = Some x" "updateEvents w (mWantedEvents x OR (e AND kEventMask)) L = Some L'" by (auto simp: qemu_addEvents_def split: option.splits)
  then show ?case using events_keep_inv [OF add.IH, of w "mWantedEvents x OR (e AND kEventMask)"] by auto
next
  case (remove L w e L')
  then obtain x where "watches L w = Some x" "updateEvents w (mWantedEvents x AND NOT (e AND kEventMask)) L = Some L'" by (auto simp: qemu_removeEvents_def split: option.splits)
  then show ?case using events_keep_inv [OF remove.IH, of w "mWantedEvents x AND NOT (e AND kEventMask)"] by auto
next
  case (delete L w L')
  then have "watches L w \<noteq> None" by (auto simp: qemu_FdWatch_delete_def clearPending_def split: option.splits)
  then show ?case using delete_keeps_inv [OF delete.IH, of w] delete.hyps(2) by auto
next
  case (reads L place fd L')
  then show ?case using handle_keeps_inv(1) [OF reads.IH, of place fd] by auto
next
  case (writes L place fd L')
  then show ?case using handle_keeps_inv(2) [OF writes.IH, of place fd] by auto
next
  case (bottom_half L cb L')
  then show ?case using bottom_half_fires [of L cb] by auto
qed

text \<open>
  C15: Events are not lost: in every reachable state a watch with events has the bottom half scheduled, and when it runs, every such watch is fired
  once with all the events it has got and none is left, if the callbacks touch only their own watch.  No check fails and no deleted watch is used.
\<close>

theorem pending_events_are_fired:
  assumes "qemu_reachable L" and "\<And>w e. careful w (cb w e)"
  shows "(watches L w = Some x \<and> mPendingEvents x \<noteq> 0 \<longrightarrow> bh_scheduled L \<and> w \<in> set (mPendingFdWatches L)) \<and>
    (\<exists>L'. handleBottomHalf cb L = Some L' \<and> (\<forall>v. events_of L' v = 0) \<and>
      fired L' = fired L @ map (\<lambda>w. (w, events_of L w)) (mPendingFdWatches L))"
proof -
  have inv: "qemu_looper_inv L" using assms(1) by (rule qemu_reachable_inv)
  obtain L' where L': "handleBottomHalf cb L = Some L'" "qemu_looper_inv L'" "mPendingFdWatches L' = []"
    "fired L' = fired L @ map (\<lambda>w. (w, events_of L w)) (mPendingFdWatches L)" using bottom_half_fires [OF inv, of cb] assms(2) by blast
  have "pending_ok L'" using L'(2) by (simp add: qemu_looper_inv_def)
  then have "events_of L' v = 0" for v using L'(3) unfolding pending_ok_def events_of_def by (cases "watches L' v") auto
  moreover have "bh_scheduled L \<and> w \<in> set (mPendingFdWatches L)" if "watches L w = Some x" "mPendingEvents x \<noteq> 0"
  proof -
    have "w \<in> set (mPendingFdWatches L)" using that inv unfolding qemu_looper_inv_def pending_ok_def by blast
    then show ?thesis using inv by (auto simp: qemu_looper_inv_def)
  qed
  ultimately show ?thesis using L' by blast
qed

text \<open>One watch that has got an event.\<close>

definition sample_looper :: qemu_looper where
  "sample_looper = QemuLooperImpl_new\<lparr>watches := [1 \<mapsto> \<lparr>mFd = 5, mWantedEvents = 1, mPendingEvents = 1\<rparr>], mPendingFdWatches := [1],
     handlers := [5 \<mapsto> (1, True, False)], bh_scheduled := True\<rparr>"

lemma sample_looper_reachable: "qemu_reachable sample_looper"
proof -
  let ?L1 = "set_watch 1 \<lparr>mFd = 5, mWantedEvents = 0, mPendingEvents = 0\<rparr> QemuLooperImpl_new"
  let ?L2 = "QemuLooperImpl_new\<lparr>watches := [1 \<mapsto> \<lparr>mFd = 5, mWantedEvents = 1, mPendingEvents = 0\<rparr>], handlers := [5 \<mapsto> (1, True, False)]\<rparr>"
  have "qemu_reachable ?L1" using qemu_reachable.create [OF qemu_reachable.start, of 1 5 ?L1] by (simp add: createFdWatch_def QemuLooperImpl_new_def)
  moreover have "qemu_addEvents 1 1 ?L1 = Some ?L2" by (simp add: qemu_addEvents_def updateEvents_def set_watch_def QemuLooperImpl_new_def)
  ultimately have "qemu_reachable ?L2" by (rule qemu_reachable.add)
  moreover have "handleRead 0 5 ?L2 = Some sample_looper"
    by (simp add: handleRead_def setPending_def qemu_addPendingFdWatch_def set_watch_def QemuLooperImpl_new_def sample_looper_def)
  ultimately show ?thesis by (rule qemu_reachable.reads)
qed

theorem pending_events_are_fired_witness:
  "bh_scheduled sample_looper \<and> (\<exists>L'. handleBottomHalf (\<lambda>w e. [RemoveEvents w 1, DeleteWatch w]) sample_looper = Some L' \<and> fired L' = [(1, 1)])"
  using pending_events_are_fired [OF sample_looper_reachable, of "\<lambda>w e. [RemoveEvents w 1, DeleteWatch w]" 1 "\<lparr>mFd = 5, mWantedEvents = 1, mPendingEvents = 1\<rparr>"]
  by (auto simp: sample_looper_def QemuLooperImpl_new_def events_of_def)

text \<open>
  A callback that deletes the watch that is pending behind its own invalidates the iterator of the loop.
\<close>

lemma deleting_next_watch_invalidates_iterator:
  "handleBottomHalf (\<lambda>w e. if w = 1 then [DeleteWatch 2] else [])
     (QemuLooperImpl_new\<lparr>watches := [1 \<mapsto> \<lparr>mFd = 5, mWantedEvents = 1, mPendingEvents = 1\<rparr>, 2 \<mapsto> \<lparr>mFd = 6, mWantedEvents = 1, mPendingEvents = 1\<rparr>],
        mPendingFdWatches := [1, 2], bh_scheduled := True\<rparr>) = None"
  by (simp add: handleBottomHalf_def pending_loop.simps successor_def qemu_FdWatch_fire_def set_watch_def qemu_FdWatch_delete_def clearPending_def qemu_delPendingFdWatch_def
      QemuLooperImpl_new_def)

text \<open>Events that a watch no longer wants are still delivered if they came before.\<close>

lemma unwanted_event_is_fired:
  "map_option fired (Option.bind (qemu_removeEvents 1 1 sample_looper) (handleBottomHalf (\<lambda>w e. []))) = Some [(1, 1)]"
  by (simp add: sample_looper_def qemu_removeEvents_def updateEvents_def handleBottomHalf_def pending_loop.simps successor_def qemu_FdWatch_fire_def set_watch_def QemuLooperImpl_new_def)

end
