(* ===== verification/Spec2Isabelle.thy ===== *)
theory Spec2Isabelle
  imports Vsock_Properties Vsock_Snapshot Registry Hal_Devices Touch_Input Keyboard Ini_File Authorization Port_Forward
    Battery Looper_Properties Partition_Config Bootconfig Annotation_Buffer Hang_Detector Storage_Capacity Paths
    Ext4_Extents Command_Line Sha1_Properties Command_Quoting Idle_Interceptor Thread_Store Socket_Drainer Displays
    Qemu_Looper
begin

text \<open>
  A verification of the core of the Android emulator (goldfish).

  \<^bold>\<open>The program.\<close>  The emulator is QEMU with the goldfish devices.  A guest and the host talk over a virtio socket
  device (\<^verbatim>\<open>src/emulator/plugin/vsock_goldfish\<close>), which multiplexes streams over two virtqueues.  The host's end of a
  stream is a plug (\<^verbatim>\<open>src/emulator/devices/cable.cpp\<close>); the first plug of a stream is a connector
  (\<^verbatim>\<open>src/emulator/devices/Connector.cpp\<close>), which reads the name of the device the guest asks for and switches the
  stream to a plug of that device, found in a registry.  The devices behind it (\<^verbatim>\<open>src/emulator/hal\<close>) exchange framed packets
  with the guest.  Beside this, the user's input arrives as gRPC calls, which are authorized
  (\<^verbatim>\<open>src/emulator/android-grpc/security\<close>) and turned into input events; a battery device has its own registers; the host
  runs event loops on sockets and timers (\<^verbatim>\<open>src/android/looper\<close>), watched by a hang detector; and before the machine starts,
  partition images and a ramdisk are prepared (\<^verbatim>\<open>src/android/filesystems\<close>, \<^verbatim>\<open>src/emulator/launcher\<close>).

  \<^bold>\<open>Conventions.\<close>  Classes and structs are records, enumerations datatypes, machine integers words of their width; bytes are
  8-bit words, and text literals are written with \<open>asc\<close>.  A method is a function from the state to its result and the new
  state.  An operation that may fail an assertion, follow a dangling pointer or not return has an option as its result, \<open>None\<close>
  being that outcome; errors that the code reports are values of sum types or of error datatypes.  Code outside the repository
  (the C library, zlib, QEMU's queues, token verification, regular expressions, external programs) and callbacks are arguments of
  the definitions that use them.  Names follow the source; where two classes have a method of the same name the class is
  part of the name.

  \<^bold>\<open>Theories.\<close>

  \<^item> \<open>Prelude\<close>, \<open>Text\<close>: types of words and bytes, facts on words; the functions of the C library on text (decimal numbers,
    \<^verbatim>\<open>strtoll\<close>, zero-terminated strings, lines).
  \<^item> \<open>Archive\<close>: the codec of snapshots (\<^verbatim>\<open>src/emulator/libs/archive\<close>); what is written is read back.
    The locales \<open>byte_reader\<close>, \<open>byte_writer\<close> and \<open>byte_archive\<close> are the interfaces under the codec.
  \<^item> \<open>Id_Allocator\<close>, \<open>Socket_Buffer\<close>, \<open>Cable\<close>, \<open>Vsock_Transport\<close>, \<open>Vsock_Device\<close>: the parts of \<^verbatim>\<open>vsock.cpp\<close>,
    \<^verbatim>\<open>vsock_low_level.c\<close> and \<^verbatim>\<open>cable.cpp\<close>, one definition per method.  The plugs and the low-level send are arguments; the
    locales \<open>packet_transport\<close>, \<open>id_source\<close> and \<open>byte_fifo\<close> state what the device relies on, and the low-level send, the port
    allocator and the socket buffer are their interpretations.  \<open>Vsock_Sending\<close> shows that the loops of a round of sending return, conserve the payload, respect the guest's
    credit and leave nothing behind that could be sent; \<open>Vsock_Invariant\<close> and \<open>Vsock_Reachable\<close> show an invariant of all
    states that the entry points reach, a step relation: streams are unique and ordered, each has a plug, and the allocator's ids
    are the dynamic ports in use.  \<open>Vsock_Properties\<close> and \<open>Vsock_Snapshot\<close> have the theorems, also those on reset and on
    snapshots.
  \<^item> \<open>Connector\<close>, \<open>Registry\<close>, \<open>Events\<close>, \<open>Qemud\<close>: the connector, the registry of devices and the awaiter of connections,
    topics and listeners with the order of their locks, and the framing of packets, whose parser is shown independent of how the
    bytes are cut.  The locale \<open>subscription_service\<close> is the contract of topics and listeners.
  \<^item> \<open>Hal_Devices\<close>: the clipboard, guest status, boot properties and fingerprint devices.
  \<^item> \<open>Touch_Input\<close>, \<open>Keyboard\<close>: touch slots and the events for fingers and pens; keys and their UTF-8 form.
  \<^item> \<open>Port_Forward\<close>: forwarding a host port to a guest port.
  \<^item> \<open>Authorization\<close>: the allow list with its caches, the token validators and the processor of gRPC metadata, refined to
    stateless access rules through the locale \<open>access_policy\<close>.
  \<^item> \<open>Ini_File\<close>: configuration files, read, written with a backup, and their typed values.
  \<^item> \<open>Battery\<close>: \<^verbatim>\<open>goldfish_battery.c\<close> and \<^verbatim>\<open>battery.cpp\<close>; the locale \<open>battery_attribute\<close> is the contract of one attribute,
    interpreted for the five attributes the host sets.
  \<^item> \<open>Socket_Waiter\<close>, \<open>Looper\<close>, \<open>Looper_Invariant\<close>, \<open>Looper_Properties\<close>: \<^verbatim>\<open>SocketWaiter.cpp\<close> and \<^verbatim>\<open>DefaultLooper.cpp\<close>.
    Timers, watches and tasks are objects in a store, so that a deleted object is noticed; callbacks are arbitrary sequences of
    operations within stated limits.
  \<^item> \<open>Qemu_Looper\<close>: the watches of \<^verbatim>\<open>qemu-looper.cpp\<close>, the looper on top of QEMU's main loop, with the bottom half that
    fires them; its iterator is part of the state.
  \<^item> \<open>Ramdisk\<close>, \<open>Partition_Types\<close>, \<open>Partition_Config\<close>: \<^verbatim>\<open>src/android/filesystems\<close>.  The locales \<open>backend\<close> and
    \<open>backend_view\<close> are the contract of \<^verbatim>\<open>PartitionConfigBackend\<close>, interpreted for the default backend on a model of files.
  \<^item> \<open>Bootconfig\<close>: the boot configuration that is appended to a ramdisk, read back by a model of the kernel's reader.
  \<^item> \<open>Annotation_Buffer\<close>, \<open>Hang_Detector\<close>: the stream buffers of crash reports and the hang detector
    (\<^verbatim>\<open>src/emulator/crashreport\<close>).
  \<^item> \<open>Storage_Capacity\<close>, \<open>Paths\<close>: sizes of storage; parents, escaping and creation of paths.
  \<^item> \<open>Ext4_Groups\<close>, \<open>Ext4_Allocation\<close>, \<open>Ext4_Regions\<close>, \<open>Ext4_Lists\<close>, \<open>Ext4_Extents\<close>: the writer of ext4 images
    (\<^verbatim>\<open>src/android/ext4_utils\<close>).  The first has the parameters of an image, its block groups with their bitmaps, and inodes; the
    second the invariant of block groups, which allocation and release of blocks keep.  Lists of regions are chains of nodes on a
    heap, so that a freed node is noticed; the extents of a file are shown to name its blocks in order.
  \<^item> \<open>Stralloc\<close>, \<open>Stralloc_Properties\<close>, \<open>Misc_Strings\<close>: the growing strings of \<^verbatim>\<open>stralloc.c\<close>, on blocks of memory with their
    size, and \<^verbatim>\<open>misc.c\<close> (quoting, temporary strings, tables, hexadecimal numbers, parameters in a line of text).  The locale
    \<open>text_sink\<close> is what a printed table needs of the place it is printed to; a growing string and the standard output are its
    interpretations.
  \<^item> \<open>Command_Line\<close>: the options of the command line and the numbers of ports (\<^verbatim>\<open>src/emulator/cmdline\<close>).
  \<^item> \<open>Sha1\<close>, \<open>Sha1_Properties\<close>: SHA-1 of the ext4 writer (\<^verbatim>\<open>sha1.c\<close>, \<^verbatim>\<open>uuid.c\<close>), which hashes in place and takes data
    in pieces, shown equal to the standard's definition.
  \<^item> \<open>Command_Quoting\<close>: command lines of processes on Windows, read back by the documented rules.
  \<^item> \<open>Idle_Interceptor\<close>: the end of an idle emulator, a step relation on requests, checks and the clock.
  \<^item> \<open>Thread_Store\<close>: thread-local values with destructors; the locale \<open>value_store\<close> is the contract of reading and writing
    them.
  \<^item> \<open>Socket_Drainer\<close>: sockets that are closed after their data are read.
  \<^item> \<open>Displays\<close>: the displays (\<^verbatim>\<open>src/emulator/hal/display\<close>), whose images have counted references.
  \<^item> This theory: a device behind the connector, from the guest's first bytes to the device's answer.

  \<^bold>\<open>Loops, bounds and fuel.\<close>  Loops over data are recursive functions with a termination proof.  Loops whose end depends on
  their arguments (a round of sending, the search in a ramdisk, the firing of timers, the run of a looper) are partial
  functions into option, and that they return is a theorem: for sending in every reachable state, for the ramdisk on every
  archive, for timers in every iteration of an idle looper.  Fuel is used by \<open>pending_fds\<close>, which asks the socket waiter
  for one descriptor after the other; 1025 steps are one more than there are descriptors.  Walks over a list of regions
  count their steps up to the number of nodes on the heap; a longer walk has met a node twice and never ends, which is the
  result \<open>NoReturn\<close>.  Sizes are bounded where the code stores
  them in a word: the theorems say so in their hypotheses, and the findings list what happens beyond.

  \<^bold>\<open>Flaws.\<close>  Where the code does not do what it is meant to, the model does what the code does, and a theorem or lemma states it:
  among others a reset that keeps streams but not their ports, a lock order that can deadlock, clipboard data written past its
  buffer, a deleted timer that stays scheduled, a failed wipe that is reported as success, a copy that hides a failed write,
  a mutex that is unlocked twice, extents written behind their block, a port number cut to its low bits,
  a length that a hash does not count, an empty argument that is lost, an iterator that a callback invalidates.

  \<^bold>\<open>Not modelled.\<close>  Floating point computations (sensor and inertial models, GPS coordinates, scaled pixels, the printed form of sizes);
  QEMU's own code and the registration of devices with it; generated gRPC services and the adapters to gRPC; operating system
  calls (processes, threads, sockets, shared memory, file locks); of the writer of ext4 images the
  superblock, directories, attributes, indirect blocks and the repair of images; the texts of the
  command line's help; vendored libraries.  Within modelled parts: the config space of the virtio socket device, the
  variants of event support without a payload, which have the same code, and the two generated tables of key codes, which are
  arguments.
\<close>

section \<open>A device behind the connector\<close>

lemma call_bytes_map [simp]: "call_bytes (map (map_socket_call f) cs) = call_bytes cs"
  by (induction cs) (auto simp: call_bytes_def split: socket_call.splits)

text \<open>
  C8: a guest that opens a pipe to the boot properties and asks for the list, in whatever pieces the
  request for the pipe arrives, gets all properties as framed packets, from which names and values
  can be read back; the connector hands the socket to the device, which knows then that the data
  partition is mounted.
\<close>

theorem boot_properties_over_the_pipe:
  assumes "\<forall>de \<in> set entries. 0 \<notin> set (qname de)" and "0 \<notin> set args"
    and "List.find (\<lambda>de. qname de = asc ''qboot-properties'') entries = Some de" and "factory de args = d"
    and "\<forall>(n, v) \<in> set (mProperties d). BootPropertyString_set 32 n = Inr n \<and> LimitedString_set 92 v = Inr v"
    and "concat cs @ b = request_of True (asc ''boot-properties'') args"
  shows "(feed_plug (any_plug_ops boot_properties_plug entries) (ConnectorPlug []) cs = (True, ConnectorPlug (concat cs), [])) \<and>
    (\<exists>d' calls ps. onReceive (any_plug_ops boot_properties_plug entries) (ConnectorPlug (concat cs)) (b @ 0 # asc ''list'') =
        (True, ConnectorPlug [], SwitchPlug (DevicePlug d') # calls) \<and> mDataPartitionMounted d' \<and>
      frames (call_bytes calls) = (ps, []) \<and>
      map (\<lambda>p. (takeWhile (\<lambda>c. c \<noteq> 0x3D) p, tl (dropWhile (\<lambda>c. c \<noteq> 0x3D) p))) ps = mProperties d)"
proof (intro conjI)
  let ?name = "asc ''boot-properties''"
  have z: "0 \<notin> set (?name @ args)" using assms(2) by (auto simp: asc_def)
  have "\<forall>c \<in> set cs. 0 \<notin> set c" using request_no_zero [OF z, of True] assms(6) by (metis Un_iff UN_I set_append set_concat)
  from feed_no_request [OF this, of boot_properties_plug entries "[]"]
  show "feed_plug (any_plug_ops boot_properties_plug entries) (ConnectorPlug []) cs = (True, ConnectorPlug (concat cs), [])"
    by simp
  obtain d' and calls :: "boot_properties_device socket_call list"
    where d': "boot_properties_onReceive (asc ''list'') d = (d', calls)" by fastforce
  have "entry_name True ?name = asc ''qboot-properties''" by (simp add: entry_name_def asc_def)
  then have "processRequest boot_properties_plug entries (request_of True ?name args) (asc ''list'') = Some (d', calls)"
    using processRequest_request_of [of ?name True entries boot_properties_plug args "asc ''list''"] assms(1,3,4) d'
    by (simp add: boot_properties_plug_def asc_def)
  then have "onReceive (any_plug_ops boot_properties_plug entries) (ConnectorPlug (concat cs)) (b @ 0 # asc ''list'') =
      (True, ConnectorPlug [], SwitchPlug (DevicePlug d') # map (map_socket_call DevicePlug) calls)"
    using Connector_last_piece [OF z assms(6), of boot_properties_plug entries "asc ''list''"] by simp
  moreover obtain ps where "mDataPartitionMounted d'" "frames (call_bytes calls) = (ps, [])"
    "map (\<lambda>p. (takeWhile (\<lambda>c. c \<noteq> 0x3D) p, tl (dropWhile (\<lambda>c. c \<noteq> 0x3D) p))) ps = mProperties d"
    using boot_properties_list_readable [OF assms(5) d'] by blast
  ultimately show "\<exists>d' calls ps. onReceive (any_plug_ops boot_properties_plug entries) (ConnectorPlug (concat cs)) (b @ 0 # asc ''list'') =
        (True, ConnectorPlug [], SwitchPlug (DevicePlug d') # calls) \<and> mDataPartitionMounted d' \<and>
      frames (call_bytes calls) = (ps, []) \<and>
      map (\<lambda>p. (takeWhile (\<lambda>c. c \<noteq> 0x3D) p, tl (dropWhile (\<lambda>c. c \<noteq> 0x3D) p))) ps = mProperties d"
    by (intro exI conjI) (assumption | simp)+
qed

lemma boot_properties_over_the_pipe_witness:
  "\<exists>d' calls. onReceive (any_plug_ops boot_properties_plug
        [\<lparr>qname = asc ''qboot-properties'', factory = \<lambda>_. \<lparr>mProperties = [(asc ''qemu.sf'', asc ''a=b'')], mDataPartitionMounted = False, mounted_events = []\<rparr>\<rparr>])
      (ConnectorPlug (asc ''pipe:qemud:boot-'')) (asc ''properties:'' @ 0 # asc ''list'') =
    (True, ConnectorPlug [], SwitchPlug (DevicePlug d') # calls) \<and>
    fst (frames (call_bytes calls)) \<noteq> []"
proof -
  let ?d = "\<lparr>mProperties = [(asc ''qemu.sf'', asc ''a=b'')], mDataPartitionMounted = False, mounted_events = []\<rparr>"
  let ?e = "\<lparr>qname = asc ''qboot-properties'', factory = \<lambda>_. ?d\<rparr>"
  have "\<forall>(n, v) \<in> set (mProperties ?d). BootPropertyString_set 32 n = Inr n \<and> LimitedString_set 92 v = Inr v"
    by (simp add: BootPropertyString_set_def LimitedString_set_def reject_def asc_def)
  from boot_properties_over_the_pipe [of "[?e]" "[]" ?e ?d "[asc ''pipe:qemud:boot-'']" "asc ''properties:''", OF _ _ _ _ this, THEN conjunct2]
  show ?thesis by (auto simp: asc_def request_of_def)
qed

end
